(* ===== verification/Go_Prelude.thy ===== *)
theory Go_Prelude
  imports Main "HOL-Library.AList" "HOL-Library.Char_ord" "HOL-Library.List_Lexorder"
    "HOL-Library.Multiset"
begin

text \<open>
  Shared vocabulary of the development: Go maps, Go's sorted key lists and the lemmas on them
  that the component proofs use.

  A Go \<open>map[string]V\<close> is an association list with distinct keys (\<open>gm_ok\<close>).  The order of
  the list is the order in which one \<open>range\<close> loop visits the entries.  Go leaves that order
  unspecified, so a theorem that holds for every list holds for every order the runtime may
  choose; where a result could depend on the order, a separate theorem says that it does not.
  A nil map and an empty map are both \<open>[]\<close>: the sources never tell them apart by more
  than allocating the map before a write.
\<close>

named_theorems gomap_simps \<open>rewriting of lookups, key sets and well-formedness of Go maps\<close>

type_synonym 'v gomap = "(string \<times> 'v) list"

definition gm_ok :: "'v gomap \<Rightarrow> bool" where
  "gm_ok m \<longleftrightarrow> distinct (map fst m)"

definition gm_keys :: "'v gomap \<Rightarrow> string list" where
  "gm_keys m = map fst m"

definition gm_has :: "'v gomap \<Rightarrow> string \<Rightarrow> bool" where
  "gm_has m k \<longleftrightarrow> map_of m k \<noteq> None"

text \<open>\<open>m[k]\<close> with the zero value \<open>z\<close> of the element type for a missing key.\<close>

definition gm_get :: "'v \<Rightarrow> 'v gomap \<Rightarrow> string \<Rightarrow> 'v" where
  "gm_get z m k = (case map_of m k of None \<Rightarrow> z | Some v \<Rightarrow> v)"

definition gm_put :: "string \<Rightarrow> 'v \<Rightarrow> 'v gomap \<Rightarrow> 'v gomap" where
  "gm_put k v m = AList.update k v m"

definition gm_del :: "string \<Rightarrow> 'v gomap \<Rightarrow> 'v gomap" where
  "gm_del k m = AList.delete k m"

text \<open>A \<open>range\<close> loop that copies every entry of one map into another.\<close>

definition gm_put_all :: "'v gomap \<Rightarrow> 'v gomap \<Rightarrow> 'v gomap" where
  "gm_put_all es m = fold (\<lambda>(k, v). gm_put k v) es m"

text \<open>\<open>sort.Strings\<close> orders bytewise, which is the lexicographic order on character lists;
  \<open>sortedKeys\<close> collects the keys of a map in that order.\<close>

definition sort_strings :: "string list \<Rightarrow> string list" where
  "sort_strings xs = sort xs"

definition sorted_keys :: "'v gomap \<Rightarrow> string list" where
  "sorted_keys m = sort_strings (gm_keys m)"

text \<open>Two association lists that are the same Go map, whatever their iteration orders.\<close>

definition gm_same :: "'v gomap \<Rightarrow> 'v gomap \<Rightarrow> bool" where
  "gm_same m m' \<longleftrightarrow> gm_ok m \<and> gm_ok m' \<and> map_of m = map_of m'"

subsection \<open>Lookups and updates\<close>

lemma gm_ok_Nil [simp]: "gm_ok []"
  by (simp add: gm_ok_def)

lemma gm_ok_Cons [simp]: "gm_ok ((k, v) # m) \<longleftrightarrow> k \<notin> set (gm_keys m) \<and> gm_ok m"
  by (simp add: gm_ok_def gm_keys_def)

lemma gm_keys_Nil [simp]: "gm_keys [] = []"
  by (simp add: gm_keys_def)

lemma gm_keys_Cons [simp]: "gm_keys ((k, v) # m) = k # gm_keys m"
  by (simp add: gm_keys_def)

lemma gm_keys_append [simp]: "gm_keys (m @ m') = gm_keys m @ gm_keys m'"
  by (simp add: gm_keys_def)

lemma gm_keys_dom [gomap_simps]: "set (gm_keys m) = dom (map_of m)"
  by (simp add: gm_keys_def dom_map_of_conv_image_fst)

lemma gm_has_iff [simp]: "gm_has m k \<longleftrightarrow> k \<in> set (gm_keys m)"
  by (auto simp: gm_has_def gm_keys_dom)

lemma gm_keys_iff: "k \<in> set (gm_keys m) \<longleftrightarrow> (\<exists>v. map_of m k = Some v)"
  by (auto simp: gm_keys_dom)

lemma gm_keys_None: "k \<notin> set (gm_keys m) \<longleftrightarrow> map_of m k = None"
  by (auto simp: gm_keys_dom)

lemma distinct_gm_keys [simp]: "gm_ok m \<Longrightarrow> distinct (gm_keys m)"
  by (simp add: gm_ok_def gm_keys_def)

lemma map_of_gm_put [simp]: "map_of (gm_put k v m) = (map_of m)(k \<mapsto> v)"
  by (simp add: gm_put_def update_conv')

lemma map_of_gm_del [simp]: "map_of (gm_del k m) = (map_of m)(k := None)"
  by (simp add: gm_del_def delete_conv')

lemma gm_get_put [gomap_simps]: "gm_get z (gm_put k v m) j = (if j = k then v else gm_get z m j)"
  by (simp add: gm_get_def)

lemma gm_get_del [gomap_simps]: "gm_get z (gm_del k m) j = (if j = k then z else gm_get z m j)"
  by (simp add: gm_get_def)

lemma gm_keys_put [simp]: "set (gm_keys (gm_put k v m)) = insert k (set (gm_keys m))"
  by (simp add: gm_keys_dom)

lemma gm_keys_del [simp]: "set (gm_keys (gm_del k m)) = set (gm_keys m) - {k}"
  by (simp add: gm_keys_dom)

lemma gm_ok_put [simp]: "gm_ok m \<Longrightarrow> gm_ok (gm_put k v m)"
  by (simp add: gm_ok_def gm_put_def distinct_update)

lemma gm_ok_del [simp]: "gm_ok m \<Longrightarrow> gm_ok (gm_del k m)"
  by (simp add: gm_ok_def gm_del_def distinct_delete)

lemma gm_put_fresh: "k \<notin> set (gm_keys m) \<Longrightarrow> gm_put k v m = m @ [(k, v)]"
  by (induction m) (auto simp: gm_put_def gm_keys_def)

lemma map_of_in_set: "map_of m k = Some v \<Longrightarrow> (k, v) \<in> set m"
  by (rule map_of_SomeD)

lemma gm_ok_mem: "gm_ok m \<Longrightarrow> (k, v) \<in> set m \<longleftrightarrow> map_of m k = Some v"
  by (simp add: gm_ok_def)

lemma gm_ok_map [simp]: "gm_ok (map (\<lambda>(k, v). (k, f k v)) m) \<longleftrightarrow> gm_ok m"
  by (simp add: gm_ok_def comp_def split_def)

lemma gm_keys_map [simp]: "gm_keys (map (\<lambda>(k, v). (k, f k v)) m) = gm_keys m"
  by (simp add: gm_keys_def comp_def split_def)

lemma map_of_map_entries [simp]:
  "map_of (map (\<lambda>(k, v). (k, f k v)) m) k = map_option (f k) (map_of m k)"
  by (induction m) auto

lemma gm_ok_filter [simp]: "gm_ok m \<Longrightarrow> gm_ok (filter P m)"
  by (induction m) (auto simp: gm_ok_def)

lemma map_of_filter_key:
  "map_of (filter (\<lambda>(k, v). P k) m) k = (if P k then map_of m k else None)"
  by (induction m) auto

subsection \<open>Copying entries\<close>

lemma gm_put_all_Nil [simp]: "gm_put_all [] m = m"
  by (simp add: gm_put_all_def)

lemma gm_put_all_Cons [simp]: "gm_put_all ((k, v) # es) m = gm_put_all es (gm_put k v m)"
  by (simp add: gm_put_all_def)

lemma gm_put_memD: "(k, v) \<in> set (gm_put j w m) \<Longrightarrow> k = j \<and> v = w \<or> (k, v) \<in> set m"
  by (induction m) (auto simp: gm_put_def split: if_splits)

lemma gm_put_all_memD: "(k, v) \<in> set (gm_put_all es m) \<Longrightarrow> (k, v) \<in> set es \<or> (k, v) \<in> set m"
proof (induction es arbitrary: m)
  case (Cons e es)
  obtain a b where e: "e = (a, b)" by (cases e)
  from Cons.prems have "(k, v) \<in> set (gm_put_all es (gm_put a b m))" by (simp add: e)
  from Cons.IH [OF this] gm_put_memD [of k v a b m] show ?case by (auto simp: e)
qed simp

lemma gm_ok_put_all [simp]: "gm_ok m \<Longrightarrow> gm_ok (gm_put_all es m)"
  by (induction es arbitrary: m) auto

lemma gm_keys_put_all [simp]: "set (gm_keys (gm_put_all es m)) = set (gm_keys es) \<union> set (gm_keys m)"
  by (induction es arbitrary: m) auto

lemma map_of_put_all: "map_of (gm_put_all es m) = map_of m ++ map_of (rev es)"
  by (induction es arbitrary: m) (auto simp: map_add_def fun_eq_iff map_of_append split: option.splits)

lemma map_of_rev_ok: "gm_ok es \<Longrightarrow> map_of (rev es) = map_of es"
  by (rule map_of_inject_set [THEN iffD2]) (auto simp: gm_ok_def rev_map [symmetric])

subsection \<open>Sorted key lists\<close>

lemma set_sort_strings [simp]: "set (sort_strings xs) = set xs"
  by (simp add: sort_strings_def)

lemma distinct_sort_strings [simp]: "distinct (sort_strings xs) = distinct xs"
  by (simp add: sort_strings_def)

lemma sorted_sort_strings [simp]: "sorted (sort_strings xs)"
  by (simp add: sort_strings_def)

lemma length_sort_strings [simp]: "length (sort_strings xs) = length xs"
  by (simp add: sort_strings_def)

lemma sort_strings_Nil [simp]: "sort_strings xs = [] \<longleftrightarrow> xs = []"
  by (metis length_0_conv length_sort_strings)

lemma sort_strings_set:
  assumes "distinct xs"
  shows "sort_strings xs = sorted_list_of_set (set xs)"
  using assms by (simp add: sort_strings_def sorted_list_of_set_sort_remdups distinct_remdups_id)

lemma sort_strings_cong:
  assumes "distinct xs" "distinct ys" "set xs = set ys"
  shows "sort_strings xs = sort_strings ys"
  using assms by (simp add: sort_strings_set)

lemma sorted_keys_set: "gm_ok m \<Longrightarrow> sorted_keys m = sorted_list_of_set (set (gm_keys m))"
  by (simp add: sorted_keys_def sort_strings_set)

lemma set_sorted_keys [simp]: "set (sorted_keys m) = set (gm_keys m)"
  by (simp add: sorted_keys_def)

lemma sorted_keys_same: "gm_same m m' \<Longrightarrow> sorted_keys m = sorted_keys m'"
  by (simp add: gm_same_def sorted_keys_set gm_keys_dom)

lemma gm_same_refl [simp]: "gm_same m m \<longleftrightarrow> gm_ok m"
  by (simp add: gm_same_def)

lemma gm_same_sym: "gm_same m m' \<Longrightarrow> gm_same m' m"
  by (simp add: gm_same_def)

lemma gm_same_keys: "gm_same m m' \<Longrightarrow> set (gm_keys m) = set (gm_keys m')"
  by (simp add: gm_same_def gm_keys_dom)

subsection \<open>Positions in a list of lists\<close>

lemma in_concat_nth: "x \<in> set (concat ls) \<longleftrightarrow> (\<exists>i < length ls. x \<in> set (ls ! i))"
  by (metis UN_iff in_set_conv_nth set_concat)

lemma in_concat_take:
  "x \<in> set (concat (take i ls)) \<longleftrightarrow> (\<exists>j < min i (length ls). x \<in> set (ls ! j))"
  by (simp only: in_concat_nth) auto

lemma mset_concat_rev: "mset (concat (rev ls)) = mset (concat ls)"
  by (induction ls) (simp_all add: union_commute)

lemma distinct_concat_rev: "distinct (concat (rev ls)) = distinct (concat ls)"
  by (rule mset_eq_imp_distinct_iff [OF mset_concat_rev])

end
