(* ===== verification/Eval_Types.thy ===== *)
theory Eval_Types
  imports Go_Prelude
begin

text \<open>
  The composition data model of \<open>src/pkg/eval/parse.go\<close>: one record per struct, one field per
  field, in the order of the source.  Pointers are options, slices are lists, maps are
  \<open>gomap\<close>s and Go's \<open>int\<close> is \<open>int\<close>; \<open>CID uint32\<close> keeps its width in
  \<open>microvm_ok\<close>.  The JSON forms of the union types are in theory \<open>Eval_Json\<close>.
\<close>

record microvm_config =
  mvKernel :: string
  mvRootFS :: string
  mvVCPUs :: int
  mvMemoryMB :: int
  mvCID :: nat

record build_config =
  bcContext :: string
  bcDockerfile :: string
  bcArgs :: "string gomap"
  bcTarget :: string

record service_network_config =
  sncAliases :: "string list"

record service_networks =
  snEntries :: "service_network_config gomap"

record command_value =
  cvParts :: "string list"

record healthcheck =
  hcTest :: command_value
  hcInterval :: string
  hcTimeout :: string
  hcRetries :: int
  hcStartPeriod :: string

record volume =
  volDriver :: string
  volDriverOpts :: "string gomap"
  volExternal :: bool

record network =
  netName :: string
  netDriver :: string
  netExternal :: bool

record secret_mount =
  smSource :: string
  smSecretName :: string
  smKey :: string

record service_info =
  siDefaultExec :: "string list"

record resource_spec =
  rsCPU :: string
  rsMemory :: string

record resources =
  resLimits :: "resource_spec option"
  resRequests :: "resource_spec option"

record probe_http_get =
  phgPath :: string
  phgPort :: int
  phgScheme :: string

record probe_exec =
  peCommand :: "string list"

record probe =
  prHTTPGet :: "probe_http_get option"
  prExec :: "probe_exec option"
  prInitialDelaySeconds :: int
  prPeriodSeconds :: int
  prTimeoutSeconds :: int
  prFailureThreshold :: int

record probes =
  prbLiveness :: "probe option"
  prbReadiness :: "probe option"

record env_from_source =
  efSecretFile :: string
  efSopsFile :: string
  efPrefix :: string

record init_container =
  icName :: string
  icImage :: string
  icCommand :: command_value
  icEnvironment :: "string gomap"
  icVolumes :: "string list"

record named_port =
  npName :: string
  npContainerPort :: int
  npHostIP :: string
  npHostPort :: int
  npProtocol :: string

record nix_compose_extended =
  xServiceInfo :: "service_info option"
  xUseHostStore :: bool
  xNixStorePaths :: "string list"
  xProfiles :: "string list"
  xResources :: "resources option"
  xProbes :: "probes option"
  xEnvFrom :: "env_from_source list"
  xInitContainers :: "init_container list"
  xNamedPorts :: "named_port list"
  xSecretMounts :: "secret_mount list"
  xImageDrv :: string

record depends_on_entry =
  doeCondition :: string

record depends_on_value =
  dovEntries :: "depends_on_entry gomap"

record service =
  svcImage :: string
  svcBuild :: "build_config option"
  svcCommand :: command_value
  svcPorts :: "string list"
  svcEnvironment :: "string gomap"
  svcVolumes :: "string list"
  svcTmpfs :: "string list"
  svcDependsOn :: depends_on_value
  svcHealthcheck :: "healthcheck option"
  svcRestart :: string
  svcWorkingDir :: string
  svcEntrypoint :: command_value
  svcUser :: string
  svcPrivileged :: bool
  svcHostname :: string
  svcNetworkMode :: string
  svcNetworks :: service_networks
  svcExtraHosts :: "string list"
  svcProfiles :: "string list"
  svcLabels :: "string gomap"
  svcStopSignal :: string
  svcXNixCompose :: "nix_compose_extended option"

record composition =
  compServices :: "service gomap"
  compNetworks :: "network gomap"
  compVolumes :: "volume gomap"
  compMicroVM :: "microvm_config option"

text \<open>Zero values of the structs, as a composite literal leaves the fields it does not name.\<close>

definition zero_command :: command_value where
  "zero_command = \<lparr>cvParts = []\<rparr>"

definition zero_depends_on :: depends_on_value where
  "zero_depends_on = \<lparr>dovEntries = []\<rparr>"

definition zero_service :: service where
  "zero_service = \<lparr>svcImage = '''', svcBuild = None, svcCommand = zero_command, svcPorts = [],
     svcEnvironment = [], svcVolumes = [], svcTmpfs = [], svcDependsOn = zero_depends_on,
     svcHealthcheck = None, svcRestart = '''', svcWorkingDir = '''', svcEntrypoint = zero_command,
     svcUser = '''', svcPrivileged = False, svcHostname = '''', svcNetworkMode = '''',
     svcNetworks = \<lparr>snEntries = []\<rparr>, svcExtraHosts = [], svcProfiles = [], svcLabels = [],
     svcStopSignal = '''', svcXNixCompose = None\<rparr>"

definition zero_extended :: nix_compose_extended where
  "zero_extended = \<lparr>xServiceInfo = None, xUseHostStore = False, xNixStorePaths = [],
     xProfiles = [], xResources = None, xProbes = None, xEnvFrom = [], xInitContainers = [],
     xNamedPorts = [], xSecretMounts = [], xImageDrv = ''''\<rparr>"

text \<open>\<open>DependsOnValue.IsEmpty\<close>, \<open>CommandValue.IsEmpty\<close> and \<open>ServiceNetworks.IsEmpty\<close>.\<close>

definition depends_on_IsEmpty :: "depends_on_value \<Rightarrow> bool" where
  "depends_on_IsEmpty d \<longleftrightarrow> length (dovEntries d) = 0"

definition command_IsEmpty :: "command_value \<Rightarrow> bool" where
  "command_IsEmpty c \<longleftrightarrow> length (cvParts c) = 0"

definition networks_IsEmpty :: "service_networks \<Rightarrow> bool" where
  "networks_IsEmpty n \<longleftrightarrow> length (snEntries n) = 0"

text \<open>
  The names a service depends on, in iteration order, and the dependency graph of a service
  map: a name with no entry has no dependencies, as \<open>svc, ok := services[node]\<close> guards it.
\<close>

definition dep_names :: "service \<Rightarrow> string list" where
  "dep_names svc = gm_keys (dovEntries (svcDependsOn svc))"

definition deps_of :: "service gomap \<Rightarrow> string \<Rightarrow> string list" where
  "deps_of services node =
     (case map_of services node of None \<Rightarrow> [] | Some svc \<Rightarrow> dep_names svc)"

text \<open>
  The invariant of Go maps that the association lists must keep: distinct keys in the service
  map and in every \<open>depends_on\<close> map.
\<close>

definition services_ok :: "service gomap \<Rightarrow> bool" where
  "services_ok services \<longleftrightarrow>
     gm_ok services \<and> list_all (\<lambda>(name, svc). gm_ok (dovEntries (svcDependsOn svc))) services"

definition microvm_ok :: "microvm_config \<Rightarrow> bool" where
  "microvm_ok m \<longleftrightarrow> mvCID m < 2 ^ 32"

lemma services_okD [simp]: "services_ok S \<Longrightarrow> gm_ok S"
  by (simp add: services_ok_def)

lemma services_ok_entries:
  "services_ok S \<Longrightarrow> map_of S n = Some svc \<Longrightarrow> gm_ok (dovEntries (svcDependsOn svc))"
  by (drule map_of_SomeD) (auto simp: services_ok_def list_all_iff dest: bspec)

lemma distinct_deps_of [simp]:
  assumes "services_ok S"
  shows "distinct (deps_of S n)"
proof (cases "map_of S n")
  case None
  then show ?thesis by (simp add: deps_of_def)
next
  case (Some svc)
  with services_ok_entries [OF assms this] show ?thesis
    by (simp add: deps_of_def dep_names_def)
qed

lemma deps_of_Some: "map_of S n = Some svc \<Longrightarrow> deps_of S n = dep_names svc"
  by (simp add: deps_of_def)

lemma deps_of_missing [simp]: "n \<notin> set (gm_keys S) \<Longrightarrow> deps_of S n = []"
  by (simp add: deps_of_def gm_keys_None)

lemma deps_of_key: "d \<in> set (deps_of S n) \<Longrightarrow> n \<in> set (gm_keys S)"
  using deps_of_missing by fastforce

end
