(* ===== verification/Json.thy ===== *)
theory Json
  imports Go_Strings
begin

text \<open>
  JSON documents as Go's \<open>encoding/json\<close> sees them.  A document is its tree; the text that spells
  a tree is not modelled.  Numbers are integers (no source value has a fraction), in the range
  that a \<open>float64\<close> holds exactly.  A \<open>json.RawMessage\<close> is nil or empty (\<open>RNil\<close>), text that is
  not JSON (\<open>RBad\<close>), or a document (\<open>RDoc\<close>).

  \<open>json_norm\<close> is \<open>json.Unmarshal\<close> into \<open>interface{}\<close> followed by \<open>json.Marshal\<close>: objects become
  maps, so the last of several equal keys wins, and maps are written with sorted keys.  Decoding
  into a struct looks a field up by its name without regard to case, the last match winning, and
  leaves the zero value for an absent or null field.
\<close>

datatype json = JNull | JBool bool | JNum int | JStr string | JArr "json list"
  | JObj "(string \<times> json) list"

datatype raw = RNil | RBad | RDoc json

definition sort_entries :: "'v gomap \<Rightarrow> 'v gomap" where
  "sort_entries m = map (\<lambda>k. (k, the (map_of m k))) (sorted_keys m)"

fun json_norm :: "json \<Rightarrow> json" where
  "json_norm JNull = JNull"
| "json_norm (JBool b) = JBool b"
| "json_norm (JNum n) = JNum n"
| "json_norm (JStr s) = JStr s"
| "json_norm (JArr xs) = JArr (map json_norm xs)"
| "json_norm (JObj kvs) = JObj (sort_entries (gm_put_all (map (\<lambda>(k, v). (k, json_norm v)) kvs) []))"

definition jfield :: "string \<Rightarrow> (string \<times> json) list \<Rightarrow> json option" where
  "jfield name kvs = map_of (rev (map (\<lambda>(k, v). (to_lower k, v)) kvs)) (to_lower name)"

definition dec_field :: "(json \<Rightarrow> 'a option) \<Rightarrow> 'a \<Rightarrow> string \<Rightarrow> (string \<times> json) list \<Rightarrow> 'a option" where
  "dec_field dec z name kvs =
     (case jfield name kvs of None \<Rightarrow> Some z | Some JNull \<Rightarrow> Some z | Some j \<Rightarrow> dec j)"

definition dec_raw_field :: "string \<Rightarrow> (string \<times> json) list \<Rightarrow> raw" where
  "dec_raw_field name kvs = (case jfield name kvs of None \<Rightarrow> RNil | Some j \<Rightarrow> RDoc j)"

definition dec_str :: "json \<Rightarrow> string option" where
  "dec_str j = (case j of JStr s \<Rightarrow> Some s | JNull \<Rightarrow> Some '''' | _ \<Rightarrow> None)"

fun dec_all :: "(json \<Rightarrow> 'a option) \<Rightarrow> json list \<Rightarrow> 'a list option" where
  "dec_all dec [] = Some []"
| "dec_all dec (j # js) =
     (case dec j of None \<Rightarrow> None | Some x \<Rightarrow> map_option ((#) x) (dec_all dec js))"

definition dec_list :: "(json \<Rightarrow> 'a option) \<Rightarrow> json \<Rightarrow> 'a list option" where
  "dec_list dec j = (case j of JArr js \<Rightarrow> dec_all dec js | _ \<Rightarrow> None)"

text \<open>A nil slice is written as \<open>null\<close>.  The model has one empty list; writing it as \<open>null\<close> or as
  \<open>[]\<close> decodes to the same value.\<close>

definition enc_list :: "('a \<Rightarrow> json) \<Rightarrow> 'a list \<Rightarrow> json" where
  "enc_list enc xs = (if xs = [] then JNull else JArr (map enc xs))"

definition enc_raw :: "raw \<Rightarrow> json option" where
  "enc_raw r = (case r of RNil \<Rightarrow> Some JNull | RBad \<Rightarrow> None | RDoc j \<Rightarrow> Some j)"

text \<open>What a raw message becomes when it is written and read back: nil turns into \<open>null\<close>.\<close>

definition raw_stored :: "raw \<Rightarrow> raw" where
  "raw_stored r = (case r of RNil \<Rightarrow> RDoc JNull | _ \<Rightarrow> r)"

subsection \<open>Laws\<close>

lemma dec_all_map: "(\<And>x. x \<in> set xs \<Longrightarrow> dec (enc x) = Some x) \<Longrightarrow> dec_all dec (map enc xs) = Some xs"
  by (induction xs) auto

lemma dec_all_length: "dec_all dec js = Some xs \<Longrightarrow> length xs = length js"
  by (induction js arbitrary: xs) (auto split: option.splits)

lemma gm_keys_sort_entries [simp]: "gm_keys (sort_entries m) = sorted_keys m"
  by (simp add: sort_entries_def gm_keys_def comp_def)

lemma sort_entries_map_of: "gm_ok m \<Longrightarrow> map_of (sort_entries m) k = map_of m k"
  unfolding sort_entries_def
  by (subst map_of_map_restrict) (auto simp: restrict_map_def gm_keys_iff gm_keys_None split: if_splits)

lemma sort_entries_cong:
  assumes "gm_ok m" "gm_ok m'" "map_of m = map_of m'"
  shows "sort_entries m = sort_entries m'"
  using sorted_keys_same [of m m'] assms by (simp add: sort_entries_def gm_same_def)

lemma sort_entries_inj:
  assumes "gm_ok m" "gm_ok m'" "sort_entries m = sort_entries m'"
  shows "map_of m = map_of m'"
  using sort_entries_map_of [OF assms(1)] sort_entries_map_of [OF assms(2)] assms(3) by (metis ext)

text \<open>Two objects have the same normal form exactly when they bind the same keys to values with
  the same normal form, whatever the order in which the keys are written.\<close>

lemma json_norm_obj:
  "json_norm (JObj a) = json_norm (JObj b) \<longleftrightarrow>
   (\<forall>k. map_option json_norm (map_of (rev a) k) = map_option json_norm (map_of (rev b) k))"
proof -
  let ?m = "\<lambda>kvs. gm_put_all (map (\<lambda>(k, v). (k, json_norm v)) kvs) []"
  have ok: "gm_ok (?m kvs)" for kvs by simp
  have "json_norm (JObj a) = json_norm (JObj b) \<longleftrightarrow> map_of (?m a) = map_of (?m b)"
    unfolding json_norm.simps json.inject
    by (rule iffI, rule sort_entries_inj [OF ok ok], assumption, rule sort_entries_cong [OF ok ok], assumption)
  moreover have "map_of (?m kvs) = (\<lambda>k. map_option json_norm (map_of (rev kvs) k))" for kvs
    by (simp add: map_of_put_all rev_map fun_eq_iff)
  ultimately show ?thesis by (simp only: fun_eq_iff)
qed

lemma json_norm_perm:
  assumes "gm_ok a" and "mset a = mset b"
  shows "json_norm (JObj a) = json_norm (JObj b)"
proof -
  have "gm_ok b" using assms mset_eq_imp_distinct_iff [of "map fst a" "map fst b"]
    by (simp add: gm_ok_def)
  moreover have "map_of a = map_of b"
    using map_of_inject_set [of a b] assms(1) \<open>gm_ok b\<close> mset_eq_setD [OF assms(2)] by (simp add: gm_ok_def)
  ultimately show ?thesis using assms(1) by (simp add: json_norm_obj map_of_rev_ok del: json_norm.simps)
qed

end
