(* ===== verification/Typing.thy ===== *)
theory Typing
  imports Json
begin

text \<open>
  \<open>src/pkg/orchestrate/typing\<close>: definition keys, references, instances and the registry of
  definitions.  A \<open>Definition\<close> and an \<open>Instance\<close> are interface values; they are records of their
  methods, over the state \<open>'w\<close> of the world they act on.  The mutex of the registry makes each
  operation atomic, so an operation is one state transformer.
\<close>

subsection \<open>definition.go\<close>

type_synonym definition_key = string

definition DefinitionKeySeparator :: string where
  "DefinitionKeySeparator = ''/''"

record gvk =
  gvkGroup :: string
  gvkVersion :: string
  gvkKind :: string

definition GetGVK :: "definition_key \<Rightarrow> error + gvk" where
  "GetGVK di =
     (let tmp = split_char (hd DefinitionKeySeparator) di
      in if length tmp \<noteq> 3 then Inl (Panic (''bad id for GVK: '' @ di))
         else Inr \<lparr>gvkGroup = tmp ! 0, gvkVersion = tmp ! 1, gvkKind = tmp ! 2\<rparr>)"

definition CreateDefinitionKey :: "string list \<Rightarrow> error + definition_key" where
  "CreateDefinitionKey path =
     (if list_ex (\<lambda>p. contains_str p DefinitionKeySeparator) path
      then Inl (Panic (''must not contain '' @ DefinitionKeySeparator))
      else Inr (join_with DefinitionKeySeparator path))"

definition GVK_GetKey :: "gvk \<Rightarrow> error + definition_key" where
  "GVK_GetKey g = CreateDefinitionKey [gvkGroup g, gvkVersion g, gvkKind g]"

subsection \<open>rollout.go\<close>

type_synonym rollout_short = string

definition RsFailed :: rollout_short where "RsFailed = ''FAILED''"
definition RsPending :: rollout_short where "RsPending = ''PENDING''"
definition RsRunning :: rollout_short where "RsRunning = ''RUNNING''"
definition RsError :: rollout_short where "RsError = ''ERROR''"
definition RsSuccess :: rollout_short where "RsSuccess = ''SUCCEEDED''"
definition RsDrifted :: rollout_short where "RsDrifted = ''DRIFTED''"
definition RsUnknown :: rollout_short where "RsUnknown = ''UNKNOWN''"

lemmas rs_defs = RsFailed_def RsPending_def RsRunning_def RsError_def RsSuccess_def RsDrifted_def RsUnknown_def

record status =
  stShort :: rollout_short
  stDetails :: raw

subsection \<open>reference.go and instance.go\<close>

record reference =
  refId :: string
  refKey :: definition_key
  refBody :: raw

definition NewReference :: "string \<Rightarrow> definition_key \<Rightarrow> error + reference" where
  "NewReference i key =
     (if i = '''' then Inl (Panic (key @ '' has no id''))
      else Inr \<lparr>refId = i, refKey = key, refBody = RNil\<rparr>)"

text \<open>\<open>Unique\<close> of a \<open>ReferenceList\<close> and of an \<open>InstanceList\<close> are the same loop, over \<open>GetId\<close>.\<close>

fun unique_loop :: "('a \<Rightarrow> string) \<Rightarrow> string list \<Rightarrow> 'a list \<Rightarrow> 'a list" where
  "unique_loop GetId check [] = []"
| "unique_loop GetId check (r # rl) =
     (if GetId r \<in> set check then unique_loop GetId check rl
      else r # unique_loop GetId (GetId r # check) rl)"

definition Unique :: "('a \<Rightarrow> string) \<Rightarrow> 'a list \<Rightarrow> 'a list" where
  "Unique GetId rl = unique_loop GetId [] rl"

text \<open>\<open>Without\<close> compares interface values, that is pointers: the elements stand for them.\<close>

definition Without :: "'a list \<Rightarrow> 'a \<Rightarrow> 'a list" where
  "Without rl toRemove = (if length rl = 0 then rl else filter (\<lambda>item. item \<noteq> toRemove) rl)"

definition First :: "'a list \<Rightarrow> 'a option" where
  "First rl = (case rl of [] \<Rightarrow> None | r # _ \<Rightarrow> Some r)"

definition ByKey :: "reference list \<Rightarrow> definition_key \<Rightarrow> reference list" where
  "ByKey rl key = filter (\<lambda>item. refKey item = key) rl"

text \<open>The JSON forms.  \<open>MarshalJSON\<close> of the lists has a pointer receiver and is not used for a list
  that is passed by value; the elements are then written with their body.  Both forms decode to
  the same ids and keys.\<close>

definition enc_ref :: "reference \<Rightarrow> json" where
  "enc_ref r = JObj [(''id'', JStr (refId r)), (''key'', JStr (refKey r)),
     (''body'', case refBody r of RDoc j \<Rightarrow> j | _ \<Rightarrow> JNull)]"

definition dec_ref :: "json \<Rightarrow> reference option" where
  "dec_ref j =
     (case j of
        JObj kvs \<Rightarrow>
          (case (dec_field dec_str '''' ''id'' kvs, dec_field dec_str '''' ''key'' kvs) of
             (Some i, Some k) \<Rightarrow> Some \<lparr>refId = i, refKey = k, refBody = dec_raw_field ''body'' kvs\<rparr>
           | _ \<Rightarrow> None)
      | _ \<Rightarrow> None)"

definition MarshalRefs :: "reference list \<Rightarrow> json" where
  "MarshalRefs rl = JArr (map enc_ref rl)"

definition UnmarshalRefs :: "json \<Rightarrow> reference list option" where
  "UnmarshalRefs j = (case j of JNull \<Rightarrow> Some [] | _ \<Rightarrow> dec_list dec_ref j)"

record 'w inst =
  instId :: string
  instKey :: definition_key
  instApply :: "'w \<Rightarrow> error option \<times> 'w"

subsection \<open>registry.go\<close>

record 'w rdef =
  defKey :: definition_key
  defInstantiate :: "raw \<Rightarrow> error + 'w inst"
  defLoad :: "raw \<Rightarrow> error + 'w inst"
  defDelete :: "reference \<Rightarrow> 'w \<Rightarrow> error option \<times> 'w"
  defGetStatus :: "reference \<Rightarrow> 'w \<Rightarrow> error + status"
  defGetProviderStatus :: "reference \<Rightarrow> 'w \<Rightarrow> error + status"

type_synonym 'w registry = "'w rdef gomap"

definition NewRegistry :: "'w registry" where
  "NewRegistry = []"

definition Register :: "'w registry \<Rightarrow> 'w rdef \<Rightarrow> error + 'w registry" where
  "Register reg t =
     (if gm_has reg (defKey t) then Inl (Panic (''re-registered: '' @ defKey t))
      else Inr (gm_put (defKey t) t reg))"

definition AllDefinitions :: "'w registry \<Rightarrow> 'w rdef list" where
  "AllDefinitions reg = map snd reg"

definition GetDefinition :: "'w registry \<Rightarrow> definition_key \<Rightarrow> error + 'w rdef" where
  "GetDefinition reg k =
     (case map_of reg k of None \<Rightarrow> Inl (Err ''unknown definition'') | Some d \<Rightarrow> Inr d)"

definition Instantiate :: "'w registry \<Rightarrow> definition_key \<Rightarrow> raw \<Rightarrow> error + 'w inst" where
  "Instantiate reg k r =
     (case GetDefinition reg k of Inl e \<Rightarrow> Inl e | Inr d \<Rightarrow> defInstantiate d r)"

definition RegistryDelete :: "'w registry \<Rightarrow> reference \<Rightarrow> 'w \<Rightarrow> error option \<times> 'w" where
  "RegistryDelete reg r w =
     (case GetDefinition reg (refKey r) of Inl e \<Rightarrow> (Some e, w) | Inr d \<Rightarrow> defDelete d r w)"

definition LoadInstance :: "'w registry \<Rightarrow> definition_key \<Rightarrow> raw \<Rightarrow> error + 'w inst" where
  "LoadInstance reg k r =
     (case GetDefinition reg k of
        Inl e \<Rightarrow> Inl e
      | Inr d \<Rightarrow>
          (case defLoad d r of
             Inl e \<Rightarrow> Inl e
           | Inr resource \<Rightarrow>
               if instId resource = '''' then Inl (Err ''invalid body'') else Inr resource))"

definition RegistryClear :: "'w registry \<Rightarrow> 'w registry" where
  "RegistryClear reg = []"

subsection \<open>Laws\<close>

lemma contains_sep: "contains_str s [c] \<longleftrightarrow> c \<in> set s"
proof (induction s)
  case (Cons x xs)
  then show ?case by (auto simp: has_prefix_def)
qed simp

lemma CreateDefinitionKey_Inr:
  "CreateDefinitionKey path = Inr s \<longleftrightarrow> (\<forall>p \<in> set path. CHR ''/'' \<notin> set p) \<and> s = join_with ''/'' path"
  by (auto simp: CreateDefinitionKey_def DefinitionKeySeparator_def list_ex_iff contains_sep)

lemma GetGVK_Inr:
  "GetGVK s = Inr g \<longleftrightarrow> split_char (CHR ''/'') s = [gvkGroup g, gvkVersion g, gvkKind g]"
proof -
  have "length xs = 3 \<longleftrightarrow> (\<exists>a b c. xs = [a, b, c])" for xs :: "string list"
    by (auto simp: numeral_3_eq_3 length_Suc_conv)
  then show ?thesis
    by (cases g) (auto simp: GetGVK_def DefinitionKeySeparator_def Let_def)
qed

lemma unique_loop_spec:
  "distinct (map g (unique_loop g check rl)) \<and>
   g ` set (unique_loop g check rl) = g ` set rl - set check \<and> set (unique_loop g check rl) \<subseteq> set rl"
  by (induction g check rl rule: unique_loop.induct) auto

lemma Unique_ids [simp]: "g ` set (Unique g rl) = g ` set rl" "distinct (map g (Unique g rl))"
  "set (Unique g rl) \<subseteq> set rl"
  using unique_loop_spec [of g "[]" rl] by (auto simp: Unique_def)

lemma unique_loop_id: "distinct (map g rl) \<Longrightarrow> set check \<inter> g ` set rl = {} \<Longrightarrow> unique_loop g check rl = rl"
  by (induction g check rl rule: unique_loop.induct) auto

lemma Unique_id: "distinct (map g rl) \<Longrightarrow> Unique g rl = rl"
  by (simp add: Unique_def unique_loop_id)

lemma unique_loop_snoc:
  "unique_loop g check (rl @ [r]) = unique_loop g check rl @ (if g r \<in> set check \<union> g ` set rl then [] else [r])"
  by (induction g check rl rule: unique_loop.induct) auto

lemma Unique_snoc:
  "distinct (map g rl) \<Longrightarrow> Unique g (rl @ [r]) = (if g r \<in> g ` set rl then rl else rl @ [r])"
  by (simp add: Unique_def unique_loop_snoc unique_loop_id)

lemma dec_field_simp [simp]:
  "jfield n kvs = Some (JStr s) \<Longrightarrow> dec_field dec_str z n kvs = Some s"
  by (simp add: dec_field_def dec_str_def)

lemma dec_enc_ref: "dec_ref (enc_ref r) = Some (r\<lparr>refBody := case refBody r of RDoc j \<Rightarrow> RDoc j | _ \<Rightarrow> RDoc JNull\<rparr>)"
  by (cases r; cases "refBody r")
    (simp_all add: dec_ref_def enc_ref_def jfield_def dec_raw_field_def to_lower_def lower_char_def)

text \<open>What a reference list is after it has been stored and loaded again.\<close>

definition stored_ref :: "reference \<Rightarrow> reference" where
  "stored_ref r = r\<lparr>refBody := case refBody r of RDoc j \<Rightarrow> RDoc j | _ \<Rightarrow> RDoc JNull\<rparr>"

lemma stored_ref_sel [simp]: "refId (stored_ref r) = refId r" "refKey (stored_ref r) = refKey r"
  "stored_ref (stored_ref r) = stored_ref r"
  by (cases r; cases "refBody r"; simp add: stored_ref_def)+

lemma dec_all_refs: "dec_all dec_ref (map enc_ref rl) = Some (map stored_ref rl)"
  by (induction rl) (simp_all add: dec_enc_ref stored_ref_def)

lemma UnmarshalRefs_MarshalRefs [simp]: "UnmarshalRefs (MarshalRefs rl) = Some (map stored_ref rl)"
  by (simp add: UnmarshalRefs_def MarshalRefs_def dec_list_def dec_all_refs)

definition registry_ok :: "'w registry \<Rightarrow> bool" where
  "registry_ok reg \<longleftrightarrow> gm_ok reg \<and> list_all (\<lambda>(k, d). defKey d = k) reg"

lemma registry_ok_get: "registry_ok reg \<Longrightarrow> GetDefinition reg k = Inr d \<Longrightarrow> defKey d = k"
  by (auto simp: registry_ok_def GetDefinition_def list_all_iff split: option.splits dest!: map_of_SomeD)

subsection \<open>Properties\<close>

text \<open>Definition keys and group/version/kind triples are in one-to-one correspondence: \<open>GetGVK\<close>
  splits a key into the triple from which \<open>CreateDefinitionKey\<close> makes that key and from no other,
  and both panic outside this correspondence.\<close>

theorem definition_key_roundtrip:
  "(GetGVK s = Inr g \<longleftrightarrow> GVK_GetKey g = Inr s) \<and>
   (is_panic (GetGVK s) \<longleftrightarrow> (\<nexists>g. GVK_GetKey g = Inr s))"
proof -
  have iff: "GetGVK s = Inr g \<longleftrightarrow> GVK_GetKey g = Inr s" for g
  proof
    assume "GetGVK s = Inr g"
    then have sp: "split_char (CHR ''/'') s = [gvkGroup g, gvkVersion g, gvkKind g]" by (simp add: GetGVK_Inr)
    then have "\<forall>p \<in> set [gvkGroup g, gvkVersion g, gvkKind g]. CHR ''/'' \<notin> set p"
      using split_char_parts [of _ "CHR ''/''" s] by metis
    moreover have "s = join_with ''/'' [gvkGroup g, gvkVersion g, gvkKind g]"
      using join_split [of "CHR ''/''" s] sp by simp
    ultimately show "GVK_GetKey g = Inr s" unfolding GVK_GetKey_def CreateDefinitionKey_Inr by blast
  next
    assume "GVK_GetKey g = Inr s"
    then show "GetGVK s = Inr g"
      unfolding GVK_GetKey_def CreateDefinitionKey_Inr GetGVK_Inr
      using split_join [of "[gvkGroup g, gvkVersion g, gvkKind g]" "CHR ''/''"] by blast
  qed
  have "is_panic (GetGVK s) \<longleftrightarrow> (\<nexists>g. GetGVK s = Inr g)"
    by (auto simp: GetGVK_def is_panic_def Let_def)
  with iff show ?thesis by blast
qed

text \<open>\<open>Unique\<close> keeps exactly one reference per id, never invents one and loses no id; on a list
  that has no duplicates, and so on its own result, it changes nothing.\<close>

theorem Unique_correct:
  "distinct (map GetId (Unique GetId rl)) \<and> GetId ` set (Unique GetId rl) = GetId ` set rl \<and>
   set (Unique GetId rl) \<subseteq> set rl \<and> Unique GetId (Unique GetId rl) = Unique GetId rl"
  by (simp add: Unique_id)

text \<open>The registry keeps every definition under its own key; a successful registration makes
  exactly that definition available and changes no other lookup, a second registration of a key
  panics, and an instance that \<open>LoadInstance\<close> returns was loaded by the definition of its key
  and has an id.\<close>

theorem registry_correct:
  assumes "registry_ok reg"
  shows "(Register reg t = Inr reg' \<longrightarrow>
      registry_ok reg' \<and> GetDefinition reg' (defKey t) = Inr t \<and>
      (\<forall>k. k \<noteq> defKey t \<longrightarrow> GetDefinition reg' k = GetDefinition reg k) \<and> is_panic (Register reg' t)) \<and>
    (LoadInstance reg k r = Inr i \<longrightarrow>
      instId i \<noteq> '''' \<and> (\<exists>d. GetDefinition reg k = Inr d \<and> defKey d = k \<and> defLoad d r = Inr i))"
proof (intro conjI impI)
  assume "Register reg t = Inr reg'"
  then have reg': "reg' = gm_put (defKey t) t reg" and "defKey t \<notin> set (gm_keys reg)"
    by (auto simp: Register_def split: if_splits)
  then have app: "reg' = reg @ [(defKey t, t)]" by (simp add: gm_put_fresh)
  show "registry_ok reg'"
    using assms app gm_ok_put [of reg "defKey t" t] by (auto simp: registry_ok_def reg' gm_put_fresh app [unfolded reg'])
  show "GetDefinition reg' (defKey t) = Inr t" by (simp add: GetDefinition_def reg')
  show "\<forall>k. k \<noteq> defKey t \<longrightarrow> GetDefinition reg' k = GetDefinition reg k" by (simp add: GetDefinition_def reg')
  show "is_panic (Register reg' t)" by (simp add: Register_def reg' is_panic_def)
next
  assume "LoadInstance reg k r = Inr i"
  then obtain d where d: "GetDefinition reg k = Inr d" "defLoad d r = Inr i" and "instId i \<noteq> ''''"
    by (auto simp: LoadInstance_def split: sum.splits if_splits)
  then show "instId i \<noteq> ''''" and "\<exists>d. GetDefinition reg k = Inr d \<and> defKey d = k \<and> defLoad d r = Inr i"
    using registry_ok_get [OF assms] by auto
qed

definition widget :: "unit rdef" where
  "widget = \<lparr>defKey = ''g/v1/W'', defInstantiate = \<lambda>r. Inl (Err ''''),
     defLoad = \<lambda>r. Inr \<lparr>instId = ''w1'', instKey = ''g/v1/W'', instApply = \<lambda>w. (None, w)\<rparr>,
     defDelete = \<lambda>r w. (None, w), defGetStatus = \<lambda>r w. Inl (Err ''''), defGetProviderStatus = \<lambda>r w. Inl (Err '''')\<rparr>"

theorem registry_correct_witness:
  "GetDefinition [(''g/v1/W'', widget)] ''g/v1/W'' = Inr widget \<and> is_panic (Register [(''g/v1/W'', widget)] widget) \<and>
   (\<exists>i. LoadInstance [(''g/v1/W'', widget)] ''g/v1/W'' RNil = Inr i \<and> instId i \<noteq> '''')"
proof -
  have r: "Register [] widget = Inr [(''g/v1/W'', widget)]"
    by (simp add: Register_def gm_put_def widget_def)
  have ok: "registry_ok ([] :: unit registry)" by (simp add: registry_ok_def)
  have ok': "registry_ok [(''g/v1/W'', widget)]" by (simp add: registry_ok_def widget_def)
  have "LoadInstance [(''g/v1/W'', widget)] ''g/v1/W'' RNil =
      Inr \<lparr>instId = ''w1'', instKey = ''g/v1/W'', instApply = \<lambda>w. (None, w)\<rparr>"
    by (simp add: LoadInstance_def GetDefinition_def widget_def)
  moreover have "defKey widget = ''g/v1/W''" by (simp add: widget_def)
  ultimately show ?thesis
    using registry_correct [OF ok, of widget "[(''g/v1/W'', widget)]" "''g/v1/W''" RNil] r
      registry_correct [OF ok', of widget "[]" "''g/v1/W''" RNil] by auto
qed

end
