(* ===== verification/State.thy ===== *)
theory State
  imports Typing
begin

text \<open>
  \<open>src/pkg/orchestrate/state\<close>: the persistent collections and the two link indexes.  The
  database itself is bbolt, a third-party package: its bucket operations are the argument
  \<open>B\<close> of every operation here, and \<open>bolt_ok\<close> is the documented behaviour that the code relies
  on (a successful \<open>Put\<close> or \<open>Delete\<close> changes the value of that key only, \<open>ForEach\<close> visits every
  key once).  \<open>Put\<close> and \<open>Delete\<close> may fail, as bbolt's do for blank or oversized keys.

  \<open>bolt.Update\<close> runs its callback in a transaction that is rolled back when the callback returns
  an error, so an operation returns \<open>Inl\<close> with no new state or \<open>Inr\<close> the new state.  \<open>Open\<close> has
  created the four buckets, so \<open>tx.Bucket\<close> is never nil.
\<close>

record 'b bolt =
  bGet :: "'b \<Rightarrow> string \<Rightarrow> raw option"
  bPut :: "'b \<Rightarrow> string \<Rightarrow> raw \<Rightarrow> error + 'b"
  bDelete :: "'b \<Rightarrow> string \<Rightarrow> error + 'b"
  bKeys :: "'b \<Rightarrow> string list"

definition bolt_ok :: "'b bolt \<Rightarrow> bool" where
  "bolt_ok B \<longleftrightarrow>
     (\<forall>b k v b'. bPut B b k v = Inr b' \<longrightarrow> bGet B b' = (bGet B b)(k \<mapsto> v)) \<and>
     (\<forall>b k b'. bDelete B b k = Inr b' \<longrightarrow> bGet B b' = (bGet B b)(k := None)) \<and>
     (\<forall>b. distinct (bKeys B b) \<and> set (bKeys B b) = dom (bGet B b))"

subsection \<open>collections.go\<close>

datatype collection = DeploymentsById | RolloutsById | LinksBySourceId | LinksByTargetId

record 'b db =
  dbDeployments :: 'b
  dbRollouts :: 'b
  dbLinksBySource :: 'b
  dbLinksByTarget :: 'b

fun bucket :: "collection \<Rightarrow> 'b db \<Rightarrow> 'b" where
  "bucket DeploymentsById d = dbDeployments d"
| "bucket RolloutsById d = dbRollouts d"
| "bucket LinksBySourceId d = dbLinksBySource d"
| "bucket LinksByTargetId d = dbLinksByTarget d"

fun set_bucket :: "collection \<Rightarrow> 'b \<Rightarrow> 'b db \<Rightarrow> 'b db" where
  "set_bucket DeploymentsById b d = d\<lparr>dbDeployments := b\<rparr>"
| "set_bucket RolloutsById b d = d\<lparr>dbRollouts := b\<rparr>"
| "set_bucket LinksBySourceId b d = d\<lparr>dbLinksBySource := b\<rparr>"
| "set_bucket LinksByTargetId b d = d\<lparr>dbLinksByTarget := b\<rparr>"

definition Batch :: "'b bolt \<Rightarrow> 'b db \<Rightarrow> collection \<Rightarrow> (string \<times> raw \<Rightarrow> 'a) \<Rightarrow> 'a list" where
  "Batch B d c batchFn = map (\<lambda>k. batchFn (k, the (bGet B (bucket c d) k))) (bKeys B (bucket c d))"

definition Keys :: "'b bolt \<Rightarrow> 'b db \<Rightarrow> collection \<Rightarrow> string list" where
  "Keys B d c = bKeys B (bucket c d)"

definition Load :: "'b bolt \<Rightarrow> 'b db \<Rightarrow> collection \<Rightarrow> string \<Rightarrow> raw option" where
  "Load B d c i = bGet B (bucket c d) i"

definition Delete :: "'b bolt \<Rightarrow> 'b db \<Rightarrow> collection \<Rightarrow> string \<Rightarrow> error + 'b db" where
  "Delete B d c i =
     (case bDelete B (bucket c d) i of Inl e \<Rightarrow> Inl e | Inr b \<Rightarrow> Inr (set_bucket c b d))"

definition Save :: "'b bolt \<Rightarrow> 'b db \<Rightarrow> collection \<Rightarrow> string \<Rightarrow> json option \<Rightarrow> error + 'b db" where
  "Save B d c i serialized =
     (case serialized of
        None \<Rightarrow> Inl (Err ''couldn't marshal data'')
      | Some j \<Rightarrow>
          (case bPut B (bucket c d) i (RDoc j) of Inl e \<Rightarrow> Inl e | Inr b \<Rightarrow> Inr (set_bucket c b d)))"

subsection \<open>link.go\<close>

record link =
  lkSource :: reference
  lkTarget :: reference

definition NewLink :: "string \<Rightarrow> definition_key \<Rightarrow> string \<Rightarrow> definition_key \<Rightarrow> error + link" where
  "NewLink sid skey tid tkey =
     (if sid = '''' then Inl (Panic ''source has no id'')
      else Inr \<lparr>lkSource = \<lparr>refId = sid, refKey = skey, refBody = RNil\<rparr>,
                lkTarget = \<lparr>refId = tid, refKey = tkey, refBody = RNil\<rparr>\<rparr>)"

subsection \<open>dependencies.go\<close>

definition unmarshal_refs :: "raw \<Rightarrow> error + reference list" where
  "unmarshal_refs r =
     (case r of
        RDoc j \<Rightarrow> (case UnmarshalRefs j of None \<Rightarrow> Inl (Err ''unmarshal failed'') | Some rl \<Rightarrow> Inr rl)
      | _ \<Rightarrow> Inl (Err ''unmarshal failed''))"

definition loadTargets :: "'b bolt \<Rightarrow> 'b \<Rightarrow> string \<Rightarrow> error + reference list" where
  "loadTargets B b key = (case bGet B b key of None \<Rightarrow> Inr [] | Some current \<Rightarrow> unmarshal_refs current)"

definition addTo :: "'b bolt \<Rightarrow> 'b \<Rightarrow> reference \<Rightarrow> reference \<Rightarrow> error + 'b" where
  "addTo B b fromReference toReference =
     (case loadTargets B b (refId fromReference) of
        Inl e \<Rightarrow> Inl e
      | Inr toList \<Rightarrow>
          bPut B b (refId fromReference) (RDoc (MarshalRefs (Unique refId (toList @ [toReference])))))"

definition AddLink :: "'b bolt \<Rightarrow> 'b db \<Rightarrow> link \<Rightarrow> error + 'b db" where
  "AddLink B d l =
     (case addTo B (dbLinksBySource d) (lkSource l) (lkTarget l) of
        Inl e \<Rightarrow> Inl e
      | Inr s \<Rightarrow>
          (case addTo B (dbLinksByTarget d) (lkTarget l) (lkSource l) of
             Inl e \<Rightarrow> Inl e
           | Inr t \<Rightarrow> Inr (d\<lparr>dbLinksBySource := s, dbLinksByTarget := t\<rparr>)))"

definition GetDependencies :: "'b bolt \<Rightarrow> 'b db \<Rightarrow> string \<Rightarrow> error + reference list" where
  "GetDependencies B d source = loadTargets B (dbLinksBySource d) source"

definition GetDepending :: "'b bolt \<Rightarrow> 'b db \<Rightarrow> string \<Rightarrow> error + reference list" where
  "GetDepending B d target = loadTargets B (dbLinksByTarget d) target"

definition updateOrDeleteBucketEntry :: "'b bolt \<Rightarrow> 'b \<Rightarrow> string \<Rightarrow> reference list \<Rightarrow> error + 'b" where
  "updateOrDeleteBucketEntry B b key filtered =
     (if length filtered = 0 then bDelete B b key else bPut B b key (RDoc (MarshalRefs filtered)))"

fun cleanReverseLinks :: "'b bolt \<Rightarrow> 'b \<Rightarrow> reference list \<Rightarrow> string \<Rightarrow> error + 'b" where
  "cleanReverseLinks B b [] sourceID = Inr b"
| "cleanReverseLinks B b (target # targets) sourceID =
     (case bGet B b (refId target) of
        None \<Rightarrow> cleanReverseLinks B b targets sourceID
      | Some r \<Rightarrow>
          (case unmarshal_refs r of
             Inl e \<Rightarrow> Inl e
           | Inr sources \<Rightarrow>
               (case updateOrDeleteBucketEntry B b (refId target) (filter (\<lambda>s. refId s \<noteq> sourceID) sources) of
                  Inl e \<Rightarrow> Inl e
                | Inr b' \<Rightarrow> cleanReverseLinks B b' targets sourceID)))"

definition RemoveLink :: "'b bolt \<Rightarrow> 'b db \<Rightarrow> string \<Rightarrow> error + 'b db" where
  "RemoveLink B d i =
     (case loadTargets B (dbLinksBySource d) i of
        Inl e \<Rightarrow> Inl e
      | Inr targets \<Rightarrow>
          (case bDelete B (dbLinksBySource d) i of
             Inl e \<Rightarrow> Inl e
           | Inr s \<Rightarrow>
               (case cleanReverseLinks B (dbLinksByTarget d) targets i of
                  Inl e \<Rightarrow> Inl e
                | Inr t \<Rightarrow> Inr (d\<lparr>dbLinksBySource := s, dbLinksByTarget := t\<rparr>))))"

subsection \<open>The relation a bucket of links stands for\<close>

definition bucket_ok :: "'b bolt \<Rightarrow> 'b \<Rightarrow> bool" where
  "bucket_ok B b \<longleftrightarrow> (\<forall>k v. bGet B b k = Some v \<longrightarrow> (\<exists>rl. unmarshal_refs v = Inr rl \<and> distinct (map refId rl)))"

definition edges_of :: "'b bolt \<Rightarrow> 'b \<Rightarrow> (string \<times> string) set" where
  "edges_of B b = {(x, y). \<exists>rl. loadTargets B b x = Inr rl \<and> y \<in> refId ` set rl}"

definition links_ok :: "'b bolt \<Rightarrow> 'b db \<Rightarrow> bool" where
  "links_ok B d \<longleftrightarrow> bucket_ok B (dbLinksBySource d) \<and> bucket_ok B (dbLinksByTarget d) \<and>
     edges_of B (dbLinksByTarget d) = (edges_of B (dbLinksBySource d))\<inverse>"

definition links :: "'b bolt \<Rightarrow> 'b db \<Rightarrow> (string \<times> string) set" where
  "links B d = edges_of B (dbLinksBySource d)"

lemma bolt_put: "bolt_ok B \<Longrightarrow> bPut B b k v = Inr b' \<Longrightarrow> bGet B b' = (bGet B b)(k \<mapsto> v)"
  by (simp add: bolt_ok_def)

lemma bolt_delete: "bolt_ok B \<Longrightarrow> bDelete B b k = Inr b' \<Longrightarrow> bGet B b' = (bGet B b)(k := None)"
  by (simp add: bolt_ok_def)

lemma bolt_keys: "bolt_ok B \<Longrightarrow> k \<in> set (bKeys B b) \<longleftrightarrow> bGet B b k \<noteq> None"
  by (auto simp: bolt_ok_def)

lemma unmarshal_marshal [simp]: "unmarshal_refs (RDoc (MarshalRefs rl)) = Inr (map stored_ref rl)"
  by (simp add: unmarshal_refs_def)

lemma ids_stored [simp]: "refId ` stored_ref ` A = refId ` A" "map refId (map stored_ref rl) = map refId rl"
  by (auto simp: image_image comp_def)

lemma bucket_okD:
  "bucket_ok B b \<Longrightarrow> \<exists>rl. loadTargets B b x = Inr rl \<and> distinct (map refId rl)"
  by (cases "bGet B b x") (auto simp: bucket_ok_def loadTargets_def)

lemma loadTargets_edges: "loadTargets B b x = Inr rl \<Longrightarrow> refId ` set rl = edges_of B b `` {x}"
  by (auto simp: edges_of_def)

text \<open>Writing one key of a links bucket replaces the edges of that key.\<close>

lemma write_edges:
  assumes "bGet B b' = (bGet B b)(k := v)" and "v = None \<and> rl = [] \<or> v = Some (RDoc (MarshalRefs rl))"
  shows "edges_of B b' = {(x, y) \<in> edges_of B b. x \<noteq> k} \<union> {k} \<times> refId ` set rl"
    and "bucket_ok B b \<Longrightarrow> distinct (map refId rl) \<Longrightarrow> bucket_ok B b'"
proof -
  have same: "loadTargets B b' x = loadTargets B b x" if "x \<noteq> k" for x
    using that by (simp add: loadTargets_def assms(1))
  have key: "\<exists>rl'. loadTargets B b' k = Inr rl' \<and> refId ` set rl' = refId ` set rl"
    using assms(2) by (auto simp: loadTargets_def assms(1))
  show "edges_of B b' = {(x, y) \<in> edges_of B b. x \<noteq> k} \<union> {k} \<times> refId ` set rl"
  proof -
    have other: "(x, y) \<in> edges_of B b' \<longleftrightarrow> (x, y) \<in> edges_of B b" if "x \<noteq> k" for x y
      using same [OF that] by (simp add: edges_of_def)
    have own: "(k, y) \<in> edges_of B b' \<longleftrightarrow> y \<in> refId ` set rl" for y
      using key by (auto simp: edges_of_def)
    have "(x, y) \<in> edges_of B b' \<longleftrightarrow> (x, y) \<in> {(x, y) \<in> edges_of B b. x \<noteq> k} \<union> {k} \<times> refId ` set rl" for x y
      by (cases "x = k") (simp_all add: own other)
    then show ?thesis unfolding set_eq_iff split_paired_All by blast
  qed
  show "bucket_ok B b'" if "bucket_ok B b" "distinct (map refId rl)"
    unfolding bucket_ok_def
  proof (intro allI impI)
    fix j w assume "bGet B b' j = Some w"
    then show "\<exists>rl. unmarshal_refs w = Inr rl \<and> distinct (map refId rl)"
      using assms(2) that by (cases "j = k") (auto simp: assms(1) bucket_ok_def comp_def)
  qed
qed

lemma addTo_edges:
  assumes "bolt_ok B" and "bucket_ok B b" and "addTo B b f t = Inr b'"
  shows "edges_of B b' = insert (refId f, refId t) (edges_of B b)" and "bucket_ok B b'"
proof -
  from assms(3) obtain rl where rl: "loadTargets B b (refId f) = Inr rl"
    and put: "bPut B b (refId f) (RDoc (MarshalRefs (Unique refId (rl @ [t])))) = Inr b'"
    by (auto simp: addTo_def split: sum.splits)
  note w = write_edges [OF bolt_put [OF assms(1) put] disjI2 [OF refl]]
  show "edges_of B b' = insert (refId f, refId t) (edges_of B b)"
    using loadTargets_edges [OF rl] unfolding w(1) by auto
  show "bucket_ok B b'" by (rule w(2) [OF assms(2)]) simp
qed

lemma cleanReverseLinks_edges:
  assumes "bolt_ok B" and "bucket_ok B b" and "cleanReverseLinks B b targets i = Inr b'"
  shows "edges_of B b' = edges_of B b - (refId ` set targets) \<times> {i} \<and> bucket_ok B b'"
  using assms
proof (induction B b targets i rule: cleanReverseLinks.induct [case_names Nil Cons])
  case (Nil B b i)
  then show ?case by simp
next
  case (Cons B b t ts i)
  note IH = Cons.IH and ok = Cons.prems(1)
  show ?case
  proof (cases "bGet B b (refId t)")
    case None
    then have "(refId t, i) \<notin> edges_of B b" by (auto simp: edges_of_def loadTargets_def)
    with IH(1) [OF None Cons.prems(1,2)] Cons.prems(3) None show ?thesis by auto
  next
    case (Some r)
    with Cons.prems obtain rl c where rl: "unmarshal_refs r = Inr rl"
      and up: "updateOrDeleteBucketEntry B b (refId t) (filter (\<lambda>s. refId s \<noteq> i) rl) = Inr c"
      and rest: "cleanReverseLinks B c ts i = Inr b'"
      by (auto split: sum.splits)
    let ?fl = "filter (\<lambda>s. refId s \<noteq> i) rl"
    have "\<exists>v. bGet B c = (bGet B b)(refId t := v) \<and> (v = None \<and> ?fl = [] \<or> v = Some (RDoc (MarshalRefs ?fl)))"
      using up bolt_put [OF ok] bolt_delete [OF ok]
      by (auto simp: updateOrDeleteBucketEntry_def split: if_splits)
    then obtain v where v: "bGet B c = (bGet B b)(refId t := v)" "v = None \<and> ?fl = [] \<or> v = Some (RDoc (MarshalRefs ?fl))"
      by blast
    have lt: "loadTargets B b (refId t) = Inr rl" using Some rl by (simp add: loadTargets_def)
    have "refId ` set ?fl = edges_of B b `` {refId t} - {i}" using loadTargets_edges [OF lt] by auto
    then have ec: "edges_of B c = edges_of B b - {(refId t, i)}" unfolding write_edges(1) [OF v] by auto
    have "distinct (map refId rl)" using bucket_okD [OF Cons.prems(2), of "refId t"] lt by auto
    then have "bucket_ok B c" by (intro write_edges(2) [OF v Cons.prems(2)]) (simp add: distinct_map_filter)
    with IH(2) [OF Some rl up ok] rest ec show ?thesis by auto
  qed
qed

lemma AddLink_links:
  assumes "bolt_ok B" and "links_ok B d" and "AddLink B d l = Inr d'"
  shows "links_ok B d' \<and> links B d' = insert (refId (lkSource l), refId (lkTarget l)) (links B d)"
proof -
  from assms(3) obtain s t where s: "addTo B (dbLinksBySource d) (lkSource l) (lkTarget l) = Inr s"
    and t: "addTo B (dbLinksByTarget d) (lkTarget l) (lkSource l) = Inr t"
    and d': "d' = d\<lparr>dbLinksBySource := s, dbLinksByTarget := t\<rparr>"
    by (auto simp: AddLink_def split: sum.splits)
  have "bucket_ok B (dbLinksBySource d)" "bucket_ok B (dbLinksByTarget d)" using assms(2) by (simp_all add: links_ok_def)
  with addTo_edges [OF assms(1) _ s] addTo_edges [OF assms(1) _ t] assms(2) show ?thesis
    by (auto simp: links_ok_def links_def d')
qed

lemma RemoveLink_links:
  assumes "bolt_ok B" and "links_ok B d" and "RemoveLink B d i = Inr d'"
  shows "links_ok B d' \<and> links B d' = {(x, y) \<in> links B d. x \<noteq> i}"
proof -
  from assms(3) obtain rl s t where rl: "loadTargets B (dbLinksBySource d) i = Inr rl"
    and s: "bDelete B (dbLinksBySource d) i = Inr s"
    and t: "cleanReverseLinks B (dbLinksByTarget d) rl i = Inr t"
    and d': "d' = d\<lparr>dbLinksBySource := s, dbLinksByTarget := t\<rparr>"
    by (auto simp: RemoveLink_def split: sum.splits)
  have ok: "bucket_ok B (dbLinksBySource d)" "bucket_ok B (dbLinksByTarget d)"
    and conv: "edges_of B (dbLinksByTarget d) = (edges_of B (dbLinksBySource d))\<inverse>"
    using assms(2) by (simp_all add: links_ok_def)
  have w: "edges_of B s = {(x, y) \<in> edges_of B (dbLinksBySource d). x \<noteq> i}" "bucket_ok B s"
    using write_edges [OF bolt_delete [OF assms(1) s], of "[]"] ok(1) by auto
  have c: "edges_of B t = edges_of B (dbLinksByTarget d) - (refId ` set rl) \<times> {i}" "bucket_ok B t"
    using cleanReverseLinks_edges [OF assms(1) ok(2) t] by simp_all
  have "edges_of B t = (edges_of B s)\<inverse>"
    unfolding w(1) c(1) conv loadTargets_edges [OF rl] by auto
  with w c show ?thesis by (simp add: links_ok_def links_def d')
qed

subsection \<open>Properties\<close>

text \<open>The two link indexes stay mirror images of each other: \<open>AddLink\<close> and \<open>RemoveLink\<close> keep the
  indexes consistent, \<open>AddLink\<close> adds exactly its edge, and \<open>RemoveLink\<close> removes exactly the edges
  that leave the resource, in both directions.\<close>

theorem link_index_invariant:
  assumes "bolt_ok B" and "links_ok B d"
  shows "(AddLink B d l = Inr d' \<longrightarrow>
      links_ok B d' \<and> links B d' = insert (refId (lkSource l), refId (lkTarget l)) (links B d)) \<and>
    (RemoveLink B d i = Inr d'' \<longrightarrow>
      links_ok B d'' \<and> links B d'' = {(x, y) \<in> links B d. x \<noteq> i})"
  using AddLink_links [OF assms] RemoveLink_links [OF assms] by simp

text \<open>On consistent indexes both queries answer without error: \<open>GetDependencies\<close> returns exactly
  the targets of a resource and \<open>GetDepending\<close> exactly the resources that have it as a target,
  each id once.\<close>

theorem link_queries_correct:
  assumes "links_ok B d"
  shows "\<exists>rl sl. GetDependencies B d x = Inr rl \<and> refId ` set rl = links B d `` {x} \<and> distinct (map refId rl) \<and>
    GetDepending B d x = Inr sl \<and> refId ` set sl = (links B d)\<inverse> `` {x} \<and> distinct (map refId sl)"
proof -
  have "bucket_ok B (dbLinksBySource d)" "bucket_ok B (dbLinksByTarget d)"
    and conv: "edges_of B (dbLinksByTarget d) = (edges_of B (dbLinksBySource d))\<inverse>"
    using assms by (simp_all add: links_ok_def)
  then obtain rl sl where "loadTargets B (dbLinksBySource d) x = Inr rl" "distinct (map refId rl)"
    "loadTargets B (dbLinksByTarget d) x = Inr sl" "distinct (map refId sl)"
    using bucket_okD by metis
  then show ?thesis
    using loadTargets_edges conv by (metis GetDependencies_def GetDepending_def links_def)
qed

text \<open>A store kept in memory, for the witnesses: it meets the hypotheses on the database.\<close>

definition mem_bolt :: "raw gomap bolt" where
  "mem_bolt = \<lparr>bGet = map_of,
     bPut = \<lambda>b k v. if k = '''' then Inl (Err ''key required'') else Inr (gm_put k v b),
     bDelete = \<lambda>b k. Inr (gm_del k b), bKeys = \<lambda>b. remdups (gm_keys b)\<rparr>"

lemma mem_bolt_ok: "bolt_ok mem_bolt"
  by (auto simp: bolt_ok_def mem_bolt_def gm_keys_dom split: if_splits)

definition empty_db :: "raw gomap db" where
  "empty_db = \<lparr>dbDeployments = [], dbRollouts = [], dbLinksBySource = [], dbLinksByTarget = []\<rparr>"

lemma empty_db_links: "links_ok mem_bolt empty_db" "links mem_bolt empty_db = {}"
  by (auto simp: links_ok_def links_def bucket_ok_def edges_of_def loadTargets_def mem_bolt_def empty_db_def)

definition plain_ref :: "string \<Rightarrow> reference" where
  "plain_ref i = \<lparr>refId = i, refKey = '''', refBody = RNil\<rparr>"

definition web_db_link :: link where
  "web_db_link = \<lparr>lkSource = plain_ref ''p/web'', lkTarget = plain_ref ''p/db''\<rparr>"

definition linked_db :: "raw gomap db" where
  "linked_db = (case AddLink mem_bolt empty_db web_db_link of Inr d \<Rightarrow> d | Inl _ \<Rightarrow> empty_db)"

lemma linked_db_add: "AddLink mem_bolt empty_db web_db_link = Inr linked_db"
  by (simp add: linked_db_def AddLink_def addTo_def loadTargets_def mem_bolt_def empty_db_def web_db_link_def plain_ref_def)

theorem link_index_invariant_witness:
  "links_ok mem_bolt linked_db \<and> links mem_bolt linked_db = {(''p/web'', ''p/db'')} \<and>
   (\<exists>d. RemoveLink mem_bolt linked_db ''p/web'' = Inr d \<and> links mem_bolt d = {})"
proof -
  have l: "links_ok mem_bolt linked_db" "links mem_bolt linked_db = {(''p/web'', ''p/db'')}"
    using link_index_invariant [OF mem_bolt_ok empty_db_links(1), of web_db_link linked_db]
      linked_db_add empty_db_links(2) by (simp_all add: web_db_link_def plain_ref_def)
  have "\<exists>d. RemoveLink mem_bolt linked_db ''p/web'' = Inr d"
    by (simp add: linked_db_def AddLink_def addTo_def loadTargets_def mem_bolt_def empty_db_def web_db_link_def
        plain_ref_def RemoveLink_def Unique_def updateOrDeleteBucketEntry_def gm_put_def)
  with l link_index_invariant [OF mem_bolt_ok l(1), of _ _ "''p/web''"] show ?thesis by fastforce
qed

theorem link_queries_correct_witness:
  "\<exists>rl. GetDepending mem_bolt linked_db ''p/db'' = Inr rl \<and> refId ` set rl = {''p/web''}"
proof -
  have "links_ok mem_bolt linked_db \<and> links mem_bolt linked_db = {(''p/web'', ''p/db'')}"
    using AddLink_links [OF mem_bolt_ok empty_db_links(1) linked_db_add]
    by (simp add: empty_db_links(2) web_db_link_def plain_ref_def)
  then show ?thesis using link_queries_correct [of mem_bolt linked_db "''p/db''"] by auto
qed

end
