(* ===== verification/Deploy.thy ===== *)
theory Deploy
  imports State
begin

text \<open>
  \<open>src/pkg/orchestrate/deploy\<close> without the worker pool: rollouts, requests, providers and
  deployments.  A request acts on the database and on the world \<open>'w\<close> behind the definitions
  (the container runtime, the CNI and volume stores); \<open>Process\<close> returns the error, if any, and the
  new pair.  \<open>uuid.New\<close> is the argument \<open>i\<close> of \<open>NewDeployment\<close>.
\<close>

subsection \<open>rollout.go\<close>

record rollout_status =
  rsShort :: rollout_short
  rsDetails :: raw

record rollout =
  roInstanceId :: string
  roInstanceKey :: definition_key
  roBody :: raw
  roMessages :: "string list"
  roErrors :: "string list"
  roStatus :: "rollout_status option"

definition UpdateStatus :: "rollout \<Rightarrow> status \<Rightarrow> rollout" where
  "UpdateStatus r s = r\<lparr>roStatus := Some \<lparr>rsShort = stShort s, rsDetails = stDetails s\<rparr>\<rparr>"

definition GetShort :: "rollout_status option \<Rightarrow> rollout_short" where
  "GetShort rs = (case rs of None \<Rightarrow> RsUnknown | Some s \<Rightarrow> rsShort s)"

definition GetDetails :: "rollout_status option \<Rightarrow> raw" where
  "GetDetails rs = (case rs of None \<Rightarrow> RNil | Some s \<Rightarrow> rsDetails s)"

definition enc_status :: "rollout_status option \<Rightarrow> json option" where
  "enc_status rs =
     (case rs of
        None \<Rightarrow> Some JNull
      | Some s \<Rightarrow> map_option (\<lambda>d. JObj [(''short'', JStr (rsShort s)), (''details'', d)]) (enc_raw (rsDetails s)))"

definition dec_status :: "json \<Rightarrow> rollout_status option option" where
  "dec_status j =
     (case j of
        JObj kvs \<Rightarrow>
          map_option (\<lambda>s. Some \<lparr>rsShort = s, rsDetails = dec_raw_field ''details'' kvs\<rparr>)
            (dec_field dec_str '''' ''short'' kvs)
      | _ \<Rightarrow> None)"

definition enc_rollout :: "rollout \<Rightarrow> json option" where
  "enc_rollout r =
     (case (enc_raw (roBody r), enc_status (roStatus r)) of
        (Some b, Some s) \<Rightarrow>
          Some (JObj [(''instanceId'', JStr (roInstanceId r)), (''instanceKey'', JStr (roInstanceKey r)),
            (''body'', b), (''messages'', enc_list JStr (roMessages r)), (''errors'', enc_list JStr (roErrors r)),
            (''status'', s)])
      | _ \<Rightarrow> None)"

definition DeserializeRollout :: "raw \<Rightarrow> error + rollout" where
  "DeserializeRollout r =
     (case r of
        RDoc (JObj kvs) \<Rightarrow>
          (case (dec_field dec_str '''' ''instanceId'' kvs, dec_field dec_str '''' ''instanceKey'' kvs,
                 dec_field (dec_list dec_str) [] ''messages'' kvs, dec_field (dec_list dec_str) [] ''errors'' kvs,
                 dec_field dec_status None ''status'' kvs) of
             (Some i, Some k, Some m, Some e, Some s) \<Rightarrow>
               Inr \<lparr>roInstanceId = i, roInstanceKey = k, roBody = dec_raw_field ''body'' kvs,
                 roMessages = m, roErrors = e, roStatus = s\<rparr>
           | _ \<Rightarrow> Inl (Err ''unmarshaling failed''))
      | RDoc JNull \<Rightarrow> Inr \<lparr>roInstanceId = '''', roInstanceKey = '''', roBody = RNil, roMessages = [], roErrors = [], roStatus = None\<rparr>
      | _ \<Rightarrow> Inl (Err ''unmarshaling failed''))"

definition LoadRollout :: "'b bolt \<Rightarrow> 'b db \<Rightarrow> string \<Rightarrow> error + rollout option" where
  "LoadRollout B d instanceId =
     (case Load B d RolloutsById instanceId of
        None \<Rightarrow> Inr None
      | Some body \<Rightarrow> (case DeserializeRollout body of Inl e \<Rightarrow> Inl e | Inr r \<Rightarrow> Inr (Some r)))"

subsection \<open>provider.go\<close>

record ('b, 'w) provider =
  prGetReferencesTo :: "rollout option \<Rightarrow> 'b db \<Rightarrow> error + rollout list"
  prRemove :: "reference \<Rightarrow> 'w \<Rightarrow> error option \<times> 'w"
  prGetStatus :: "reference \<Rightarrow> 'w \<Rightarrow> error + status option"
  prGetDefinitions :: "'w rdef list"

record ('b, 'w) provider_registry =
  prProviders :: "('b, 'w) provider gomap"
  prRouting :: "('b, 'w) provider gomap"
  prRegistry :: "'w registry"

definition NewProviderRegistry :: "'w registry \<Rightarrow> ('b, 'w) provider_registry" where
  "NewProviderRegistry reg = \<lparr>prProviders = [], prRouting = [], prRegistry = reg\<rparr>"

fun register_defs :: "('b, 'w) provider \<Rightarrow> 'w rdef list \<Rightarrow> ('b, 'w) provider_registry \<Rightarrow>
    error + ('b, 'w) provider_registry" where
  "register_defs p [] pr = Inr pr"
| "register_defs p (d # ds) pr =
     (if gm_has (prRouting pr) (defKey d)
      then Inl (Panic (''definition '' @ defKey d @ '' already owned by another provider''))
      else case Register (prRegistry pr) d of
        Inl e \<Rightarrow> Inl e
      | Inr reg \<Rightarrow> register_defs p ds
          (pr\<lparr>prRegistry := reg, prRouting := gm_put (defKey d) p (prRouting pr)\<rparr>))"

definition ProviderRegister :: "('b, 'w) provider_registry \<Rightarrow> string \<Rightarrow> ('b, 'w) provider \<Rightarrow>
    error + ('b, 'w) provider_registry" where
  "ProviderRegister pr name p =
     (if gm_has (prProviders pr) name then Inl (Panic (''re-registering provider: '' @ name))
      else case register_defs p (prGetDefinitions p) pr of
        Inl e \<Rightarrow> Inl e
      | Inr pr' \<Rightarrow> Inr (pr'\<lparr>prProviders := gm_put name p (prProviders pr')\<rparr>))"

definition ForKey :: "('b, 'w) provider_registry \<Rightarrow> definition_key \<Rightarrow> error + ('b, 'w) provider" where
  "ForKey pr key =
     (case map_of (prRouting pr) key of
        None \<Rightarrow> Inl (Err (''no provider registered for '' @ key)) | Some p \<Rightarrow> Inr p)"

definition AllProviders :: "('b, 'w) provider_registry \<Rightarrow> ('b, 'w) provider list" where
  "AllProviders pr = map snd (prProviders pr)"

definition ProviderClear :: "('b, 'w) provider_registry \<Rightarrow> ('b, 'w) provider_registry" where
  "ProviderClear pr = \<lparr>prProviders = [], prRouting = [], prRegistry = RegistryClear (prRegistry pr)\<rparr>"

subsection \<open>request.go\<close>

record ('b, 'w) request_context =
  rcBolt :: "'b bolt"
  rcRegistry :: "'w registry"
  rcProviders :: "('b, 'w) provider_registry"

datatype request =
    CreateRequest string raw definition_key
  | DeleteRequest string definition_key
  | StatusRequest string definition_key

datatype request_type = RequestTypeCreate | RequestTypeDelete | RequestTypeStatus

fun GetType :: "request \<Rightarrow> request_type" where
  "GetType (CreateRequest i b k) = RequestTypeCreate"
| "GetType (DeleteRequest i k) = RequestTypeDelete"
| "GetType (StatusRequest i k) = RequestTypeStatus"

fun GetSubjectId :: "request \<Rightarrow> string" where
  "GetSubjectId (CreateRequest i b k) = i"
| "GetSubjectId (DeleteRequest i k) = i"
| "GetSubjectId (StatusRequest i k) = i"

fun GetSubjectKey :: "request \<Rightarrow> definition_key" where
  "GetSubjectKey (CreateRequest i b k) = k"
| "GetSubjectKey (DeleteRequest i k) = k"
| "GetSubjectKey (StatusRequest i k) = k"

text \<open>The log lines are dropped; a failed \<open>Save\<close> of a rollout is logged and otherwise ignored.\<close>

definition save_rollout :: "'b bolt \<Rightarrow> 'b db \<Rightarrow> rollout \<Rightarrow> 'b db" where
  "save_rollout B d r =
     (case Save B d RolloutsById (roInstanceId r) (enc_rollout r) of Inl e \<Rightarrow> d | Inr d' \<Rightarrow> d')"

fun error_text :: "error \<Rightarrow> string" where
  "error_text (Err s) = s" | "error_text (Panic s) = s"

definition ProcessCreate :: "('b, 'w) request_context \<Rightarrow> string \<Rightarrow> raw \<Rightarrow> definition_key \<Rightarrow> 'b db \<times> 'w \<Rightarrow>
    error option \<times> 'b db \<times> 'w" where
  "ProcessCreate ctx i subject key st =
     (case st of (d, w) \<Rightarrow>
      (case LoadInstance (rcRegistry ctx) key subject of
         Inl e \<Rightarrow> (Some e, d, w)
       | Inr inst \<Rightarrow>
           (let rollout = \<lparr>roInstanceId = i, roInstanceKey = key, roBody = subject,
                  roMessages = [], roErrors = [], roStatus = None\<rparr>
            in case instApply inst w of (applyErr, w') \<Rightarrow>
              (case applyErr of
                 Some e \<Rightarrow> (Some e,
                   save_rollout (rcBolt ctx) d (rollout\<lparr>roStatus := Some \<lparr>rsShort = RsError, rsDetails = RNil\<rparr>,
                     roErrors := [''couldn't apply: '' @ error_text e]\<rparr>), w')
               | None \<Rightarrow> (None,
                   save_rollout (rcBolt ctx) d (rollout\<lparr>roStatus := Some \<lparr>rsShort = RsSuccess, rsDetails = RNil\<rparr>\<rparr>), w')))))"

definition ProcessDelete :: "('b, 'w) request_context \<Rightarrow> string \<Rightarrow> definition_key \<Rightarrow> 'b db \<times> 'w \<Rightarrow>
    error option \<times> 'b db \<times> 'w" where
  "ProcessDelete ctx i key st =
     (case st of (d, w) \<Rightarrow>
      (case NewReference i key of
         Inl e \<Rightarrow> (Some e, d, w)
       | Inr reference \<Rightarrow>
           (case RegistryDelete (rcRegistry ctx) reference w of
              (Some e, w') \<Rightarrow> (Some e, d, w')
            | (None, w') \<Rightarrow>
                (case RemoveLink (rcBolt ctx) d i of
                   Inl e \<Rightarrow> (Some e, d, w')
                 | Inr d' \<Rightarrow> (None, d', w')))))"

definition ProcessStatus :: "('b, 'w) request_context \<Rightarrow> string \<Rightarrow> definition_key \<Rightarrow> 'b db \<times> 'w \<Rightarrow>
    error option \<times> 'b db \<times> 'w" where
  "ProcessStatus ctx i key st =
     (case st of (d, w) \<Rightarrow>
      (case GetDefinition (rcRegistry ctx) key of
         Inl e \<Rightarrow> (Some e, d, w)
       | Inr def \<Rightarrow>
           (case NewReference i key of
              Inl e \<Rightarrow> (Some e, d, w)
            | Inr reference \<Rightarrow>
                (case defGetProviderStatus def reference w of
                   Inl e \<Rightarrow> (Some e, d, w)
                 | Inr status \<Rightarrow>
                     (case LoadRollout (rcBolt ctx) d i of
                        Inl e \<Rightarrow> (None, d, w)
                      | Inr None \<Rightarrow> (Some (Panic ''nil pointer dereference''), d, w)
                      | Inr (Some rollout) \<Rightarrow> (None, save_rollout (rcBolt ctx) d (UpdateStatus rollout status), w))))))"

fun Process :: "('b, 'w) request_context \<Rightarrow> request \<Rightarrow> 'b db \<times> 'w \<Rightarrow> error option \<times> 'b db \<times> 'w" where
  "Process ctx (CreateRequest i b k) st = ProcessCreate ctx i b k st"
| "Process ctx (DeleteRequest i k) st = ProcessDelete ctx i k st"
| "Process ctx (StatusRequest i k) st = ProcessStatus ctx i k st"

fun GetStatus :: "'b bolt \<Rightarrow> 'b db \<Rightarrow> request \<Rightarrow> rollout_short \<times> error option" where
  "GetStatus B d (CreateRequest i b k) =
     (case LoadRollout B d i of
        Inl e \<Rightarrow> (RsError, Some e)
      | Inr None \<Rightarrow> (RsPending, None)
      | Inr (Some r) \<Rightarrow> (GetShort (roStatus r), None))"
| "GetStatus B d (DeleteRequest i k) =
     (case LoadRollout B d i of
        Inl e \<Rightarrow> (RsError, Some e)
      | Inr None \<Rightarrow> (RsSuccess, None)
      | Inr (Some r) \<Rightarrow> (GetShort (roStatus r), None))"
| "GetStatus B d (StatusRequest i k) = (RsRunning, None)"

text \<open>The JSON form of a request list: a type tag and the body of the request.\<close>

fun enc_request :: "request \<Rightarrow> json option" where
  "enc_request (CreateRequest i b k) =
     map_option (\<lambda>s. JObj [(''Type'', JStr ''CREATE''),
       (''Body'', JObj [(''subjectId'', JStr i), (''subject'', s), (''subjectKey'', JStr k)])]) (enc_raw b)"
| "enc_request (DeleteRequest i k) = Some (JObj [(''Type'', JStr ''DELETE''),
     (''Body'', JObj [(''subject_id'', JStr i), (''subjectKey'', JStr k)])])"
| "enc_request (StatusRequest i k) = Some (JObj [(''Type'', JStr ''STATUS''),
     (''Body'', JObj [(''subject_id'', JStr i), (''subjectKey'', JStr k)])])"

definition dec_two :: "(string \<times> json) list \<Rightarrow> string \<Rightarrow> (string \<Rightarrow> string \<Rightarrow> request) \<Rightarrow> error + request" where
  "dec_two kvs idname c =
     (case (dec_field dec_str '''' idname kvs, dec_field dec_str '''' ''subjectKey'' kvs) of
        (Some i, Some k) \<Rightarrow> Inr (c i k) | _ \<Rightarrow> Inl (Err ''unmarshal failed''))"

definition dec_body :: "raw \<Rightarrow> error + (string \<times> json) list" where
  "dec_body r = (case r of RDoc (JObj kvs) \<Rightarrow> Inr kvs | RDoc JNull \<Rightarrow> Inr [] | _ \<Rightarrow> Inl (Err ''unmarshal failed''))"

definition dec_request :: "json \<Rightarrow> error + request" where
  "dec_request j =
     (case j of
        JObj kvs \<Rightarrow>
          (case dec_field dec_str '''' ''Type'' kvs of
             None \<Rightarrow> Inl (Err ''unmarshal failed'')
           | Some t \<Rightarrow>
               (if t \<noteq> ''DELETE'' \<and> t \<noteq> ''CREATE'' \<and> t \<noteq> ''STATUS'' then Inl (Panic (''bad request type: '' @ t))
                else case dec_body (dec_raw_field ''Body'' kvs) of
                  Inl e \<Rightarrow> Inl e
                | Inr b \<Rightarrow>
                    (if t = ''DELETE'' then dec_two b ''subject_id'' DeleteRequest
                     else if t = ''STATUS'' then dec_two b ''subject_id'' StatusRequest
                     else dec_two b ''subjectId'' (\<lambda>i k. CreateRequest i (dec_raw_field ''subject'' b) k))))
      | _ \<Rightarrow> Inl (Err ''unmarshal failed''))"

fun enc_requests :: "request list \<Rightarrow> json list option" where
  "enc_requests [] = Some []"
| "enc_requests (r # rs) =
     (case enc_request r of None \<Rightarrow> None | Some j \<Rightarrow> map_option ((#) j) (enc_requests rs))"

fun dec_requests :: "json list \<Rightarrow> error + request list" where
  "dec_requests [] = Inr []"
| "dec_requests (j # js) =
     (case dec_request j of
        Inl e \<Rightarrow> Inl e
      | Inr r \<Rightarrow> (case dec_requests js of Inl e \<Rightarrow> Inl e | Inr rs \<Rightarrow> Inr (r # rs)))"

definition MarshalRequests :: "request list \<Rightarrow> json option" where
  "MarshalRequests rl = map_option JArr (enc_requests rl)"

definition UnmarshalRequests :: "json \<Rightarrow> error + request list" where
  "UnmarshalRequests j =
     (case j of JArr js \<Rightarrow> dec_requests js | JNull \<Rightarrow> Inr [] | _ \<Rightarrow> Inl (Err ''unmarshal failed''))"

subsection \<open>deployment.go\<close>

record deployment =
  dpId :: string
  dpRequests :: "request list"
  dpDependencies :: "link list"
  dpDepending :: "link list"
  dpReferences :: "reference list"

definition NewDeployment :: "string \<Rightarrow> deployment" where
  "NewDeployment i = \<lparr>dpId = i, dpRequests = [], dpDependencies = [], dpDepending = [], dpReferences = []\<rparr>"

fun new_links :: "string \<Rightarrow> definition_key \<Rightarrow> reference list \<Rightarrow> error + link list" where
  "new_links i key [] = Inr []"
| "new_links i key (dep # deps) =
     (case NewLink i key (refId dep) (refKey dep) of
        Inl e \<Rightarrow> Inl e
      | Inr l \<Rightarrow> (case new_links i key deps of Inl e \<Rightarrow> Inl e | Inr ls \<Rightarrow> Inr (l # ls)))"

definition AddCreation :: "deployment \<Rightarrow> 'w inst \<Rightarrow> raw \<Rightarrow> reference list \<Rightarrow> error + deployment" where
  "AddCreation d inst body dependencies =
     (case new_links (instId inst) (instKey inst) dependencies of
        Inl e \<Rightarrow> Inl e
      | Inr ls \<Rightarrow>
          Inr (d\<lparr>dpRequests := dpRequests d @ [CreateRequest (instId inst) body (instKey inst)],
                 dpDependencies := dpDependencies d @ ls,
                 dpReferences := dpReferences d @ [\<lparr>refId = instId inst, refKey = instKey inst, refBody = RNil\<rparr>]\<rparr>))"

definition AddDeletion :: "deployment \<Rightarrow> string \<Rightarrow> definition_key \<Rightarrow> deployment" where
  "AddDeletion d i key = d\<lparr>dpRequests := dpRequests d @ [DeleteRequest i key]\<rparr>"

definition HasCreate :: "deployment \<Rightarrow> string \<Rightarrow> bool" where
  "HasCreate d i = list_ex (\<lambda>req. GetType req = RequestTypeCreate \<and> GetSubjectId req = i) (dpRequests d)"

definition HasDelete :: "deployment \<Rightarrow> string \<Rightarrow> bool" where
  "HasDelete d i = list_ex (\<lambda>req. GetType req = RequestTypeDelete \<and> GetSubjectId req = i) (dpRequests d)"

definition checkCreateReferences :: "('b, 'w) request_context \<Rightarrow> 'b db \<Rightarrow> deployment \<Rightarrow> request \<Rightarrow> error list" where
  "checkCreateReferences ctx db d request =
     concat (map (\<lambda>dep.
       if refId (lkSource dep) \<noteq> GetSubjectId request then []
       else case LoadRollout (rcBolt ctx) db (refId (lkTarget dep)) of
              Inr (Some r) \<Rightarrow> []
            | _ \<Rightarrow> if HasCreate d (refId (lkTarget dep)) then []
                   else [Err (''missing dependency: '' @ refId (lkTarget dep))])
       (dpDependencies d))"

fun gather_references :: "('b, 'w) provider list \<Rightarrow> 'b db \<Rightarrow> rollout option \<Rightarrow>
    error + error list \<times> rollout list" where
  "gather_references [] db rollout = Inr ([], [])"
| "gather_references (p # ps) db rollout =
     (case prGetReferencesTo p rollout db of
        Inl (Panic s) \<Rightarrow> Inl (Panic s)
      | Inl (Err s) \<Rightarrow> map_sum id (\<lambda>(es, rs). (Err s # es, rs)) (gather_references ps db rollout)
      | Inr refs \<Rightarrow> map_sum id (\<lambda>(es, rs). (es, refs @ rs)) (gather_references ps db rollout))"

definition checkDeleteReferences :: "('b, 'w) request_context \<Rightarrow> 'b db \<Rightarrow> deployment \<Rightarrow> request \<Rightarrow>
    error + error list" where
  "checkDeleteReferences ctx db d request =
     (case LoadRollout (rcBolt ctx) db (GetSubjectId request) of
        Inl e \<Rightarrow> Inr [e]
      | Inr rollout \<Rightarrow>
          (case gather_references (AllProviders (rcProviders ctx)) db rollout of
             Inl e \<Rightarrow> Inl e
           | Inr (errs, mayDepends) \<Rightarrow>
               Inr (errs @ map (\<lambda>m. Err (''still referenced: '' @ roInstanceId m))
                 (filter (\<lambda>m. \<not> HasDelete d (roInstanceId m)) mayDepends))))"

fun check_requests :: "('b, 'w) request_context \<Rightarrow> 'b db \<Rightarrow> deployment \<Rightarrow> request list \<Rightarrow> error + error list" where
  "check_requests ctx db d [] = Inr []"
| "check_requests ctx db d (request # rs) =
     (case (case GetType request of
              RequestTypeCreate \<Rightarrow> Inr (checkCreateReferences ctx db d request)
            | RequestTypeDelete \<Rightarrow> checkDeleteReferences ctx db d request
            | RequestTypeStatus \<Rightarrow> Inr []) of
        Inl e \<Rightarrow> Inl e
      | Inr es \<Rightarrow> map_sum id ((@) es) (check_requests ctx db d rs))"

definition CheckReferences :: "('b, 'w) request_context \<Rightarrow> 'b db \<Rightarrow> deployment \<Rightarrow> error + error list" where
  "CheckReferences ctx db d = check_requests ctx db d (dpRequests d)"

fun persist_links :: "'b bolt \<Rightarrow> link list \<Rightarrow> 'b db \<Rightarrow> error option \<times> 'b db" where
  "persist_links B [] db = (None, db)"
| "persist_links B (l # ls) db =
     (case AddLink B db l of Inl e \<Rightarrow> (Some e, db) | Inr db' \<Rightarrow> persist_links B ls db')"

definition PersistLinks :: "'b bolt \<Rightarrow> deployment \<Rightarrow> 'b db \<Rightarrow> error option \<times> 'b db" where
  "PersistLinks B d db =
     (case persist_links B (dpDependencies d) db of
        (Some e, db') \<Rightarrow> (Some e, db')
      | (None, db') \<Rightarrow> persist_links B (dpDepending d) db')"

definition enc_link :: "link \<Rightarrow> json" where
  "enc_link l = JObj [(''source'', enc_ref (lkSource l)), (''target'', enc_ref (lkTarget l))]"

definition dec_link :: "json \<Rightarrow> link option" where
  "dec_link j =
     (case j of
        JObj kvs \<Rightarrow>
          (case (dec_field dec_ref \<lparr>refId = '''', refKey = '''', refBody = RNil\<rparr> ''source'' kvs,
                 dec_field dec_ref \<lparr>refId = '''', refKey = '''', refBody = RNil\<rparr> ''target'' kvs) of
             (Some s, Some t) \<Rightarrow> Some \<lparr>lkSource = s, lkTarget = t\<rparr> | _ \<Rightarrow> None)
      | _ \<Rightarrow> None)"

definition enc_deployment :: "deployment \<Rightarrow> json option" where
  "enc_deployment d =
     map_option (\<lambda>reqs. JObj [(''id'', JStr (dpId d)), (''requests'', reqs),
       (''dependencies'', enc_list enc_link (dpDependencies d)), (''depending'', enc_list enc_link (dpDepending d)),
       (''references'', MarshalRefs (map (\<lambda>r. r\<lparr>refBody := RNil\<rparr>) (dpReferences d)))]) (MarshalRequests (dpRequests d))"

definition dec_deployment :: "raw \<Rightarrow> error + deployment" where
  "dec_deployment r =
     (case r of
        RDoc (JObj kvs) \<Rightarrow>
          (case (case jfield ''requests'' kvs of None \<Rightarrow> Inr [] | Some j \<Rightarrow> UnmarshalRequests j) of
             Inl e \<Rightarrow> Inl e
           | Inr reqs \<Rightarrow>
               (case (dec_field dec_str '''' ''id'' kvs, dec_field (dec_list dec_link) [] ''dependencies'' kvs,
                      dec_field (dec_list dec_link) [] ''depending'' kvs, dec_field UnmarshalRefs [] ''references'' kvs) of
                  (Some i, Some ds, Some dg, Some refs) \<Rightarrow>
                    Inr \<lparr>dpId = i, dpRequests = reqs, dpDependencies = ds, dpDepending = dg, dpReferences = refs\<rparr>
                | _ \<Rightarrow> Inl (Err ''unmarshaling failed'')))
      | RDoc JNull \<Rightarrow> Inr \<lparr>dpId = '''', dpRequests = [], dpDependencies = [], dpDepending = [], dpReferences = []\<rparr>
      | _ \<Rightarrow> Inl (Err ''unmarshaling failed''))"

definition SaveDeployment :: "'b bolt \<Rightarrow> deployment \<Rightarrow> 'b db \<Rightarrow> error + 'b db" where
  "SaveDeployment B d db = Save B db DeploymentsById (dpId d) (enc_deployment d)"

definition LoadDeployment :: "'b bolt \<Rightarrow> 'b db \<Rightarrow> string \<Rightarrow> error + deployment" where
  "LoadDeployment B db i =
     (case Load B db DeploymentsById i of
        None \<Rightarrow> Inl (Err ''unexpected end of JSON input'') | Some body \<Rightarrow> dec_deployment body)"

subsection \<open>Round trips\<close>

definition stored_request :: "request \<Rightarrow> request" where
  "stored_request r = (case r of CreateRequest i b k \<Rightarrow> CreateRequest i (raw_stored b) k | _ \<Rightarrow> r)"

definition stored_rollout :: "rollout \<Rightarrow> rollout" where
  "stored_rollout r = r\<lparr>roBody := raw_stored (roBody r),
     roStatus := map_option (\<lambda>s. s\<lparr>rsDetails := raw_stored (rsDetails s)\<rparr>) (roStatus r)\<rparr>"

definition stored_link :: "link \<Rightarrow> link" where
  "stored_link l = \<lparr>lkSource = stored_ref (lkSource l), lkTarget = stored_ref (lkTarget l)\<rparr>"

definition stored_deployment :: "deployment \<Rightarrow> deployment" where
  "stored_deployment d = d\<lparr>dpRequests := map stored_request (dpRequests d),
     dpDependencies := map stored_link (dpDependencies d), dpDepending := map stored_link (dpDepending d),
     dpReferences := map (\<lambda>r. r\<lparr>refBody := RDoc JNull\<rparr>) (dpReferences d)\<rparr>"

lemma enc_raw_stored: "enc_raw r = Some j \<Longrightarrow> RDoc j = raw_stored r"
  by (cases r) (auto simp: enc_raw_def raw_stored_def)

lemma dec_enc_strs [simp]: "dec_list dec_str (JArr (map JStr xs)) = Some xs"
  by (simp add: dec_list_def dec_all_map dec_str_def)

lemma jfield_Nil [simp]: "jfield n [] = None"
  by (simp add: jfield_def)

lemma jfield_last: "to_lower k = to_lower n \<Longrightarrow> jfield n (kvs @ [(k, v)]) = Some v"
  by (simp add: jfield_def)

lemma jfield_Cons:
  "jfield n ((k, v) # kvs) = (case jfield n kvs of Some j \<Rightarrow> Some j | None \<Rightarrow> if to_lower n = to_lower k then Some v else None)"
  by (auto simp: jfield_def map_add_def split: option.splits)

lemmas field_simps_json = jfield_Cons to_lower_def lower_char_def dec_field_def dec_raw_field_def

lemma dec_enc_list:
  assumes "jfield n kvs = Some (enc_list enc xs)" and "\<And>x. x \<in> set xs \<Longrightarrow> dec (enc x) = Some (f x)"
  shows "dec_field (dec_list dec) [] n kvs = Some (map f xs)"
proof -
  have "dec_all dec (map enc xs) = Some (map f xs)"
    using assms(2) by (induction xs) auto
  with assms(1) show ?thesis by (cases xs) (simp_all add: dec_field_def enc_list_def dec_list_def)
qed

lemma dec_enc_status:
  assumes "enc_status s = Some j" and "jfield n kvs = Some j"
  shows "dec_field dec_status None n kvs = Some (map_option (\<lambda>s. s\<lparr>rsDetails := raw_stored (rsDetails s)\<rparr>) s)"
proof (cases s)
  case None
  then show ?thesis using assms by (simp add: enc_status_def dec_field_def)
next
  case (Some st)
  then obtain d where "enc_raw (rsDetails st) = Some d" "j = JObj [(''short'', JStr (rsShort st)), (''details'', d)]"
    using assms(1) by (auto simp: enc_status_def)
  then show ?thesis using Some assms(2) enc_raw_stored [of "rsDetails st" d]
    by (simp add: dec_field_def dec_status_def field_simps_json dec_str_def)
qed

lemma DeserializeRollout_enc:
  assumes "enc_rollout r = Some j"
  shows "DeserializeRollout (RDoc j) = Inr (stored_rollout r)"
proof -
  from assms obtain b s where b: "enc_raw (roBody r) = Some b" and s: "enc_status (roStatus r) = Some s"
    and j: "j = JObj [(''instanceId'', JStr (roInstanceId r)), (''instanceKey'', JStr (roInstanceKey r)),
            (''body'', b), (''messages'', enc_list JStr (roMessages r)), (''errors'', enc_list JStr (roErrors r)),
            (''status'', s)]"
    by (auto simp: enc_rollout_def split: option.splits)
  let ?kvs = "[(''instanceId'', JStr (roInstanceId r)), (''instanceKey'', JStr (roInstanceKey r)),
            (''body'', b), (''messages'', enc_list JStr (roMessages r)), (''errors'', enc_list JStr (roErrors r)),
            (''status'', s)]"
  have f: "jfield ''instanceId'' ?kvs = Some (JStr (roInstanceId r))" "jfield ''instanceKey'' ?kvs = Some (JStr (roInstanceKey r))"
    "jfield ''body'' ?kvs = Some b" "jfield ''messages'' ?kvs = Some (enc_list JStr (roMessages r))"
    "jfield ''errors'' ?kvs = Some (enc_list JStr (roErrors r))" "jfield ''status'' ?kvs = Some s"
    by (simp_all add: jfield_Cons to_lower_def lower_char_def)
  have m: "dec_field (dec_list dec_str) [] ''messages'' ?kvs = Some (roMessages r)"
    using dec_enc_list [OF f(4), of dec_str id] by (simp add: dec_str_def)
  have e: "dec_field (dec_list dec_str) [] ''errors'' ?kvs = Some (roErrors r)"
    using dec_enc_list [OF f(5), of dec_str id] by (simp add: dec_str_def)
  show ?thesis
    unfolding j DeserializeRollout_def raw.case json.case m e dec_enc_status [OF s f(6)] dec_field_simp [OF f(1)]
      dec_field_simp [OF f(2)]
    by (simp add: stored_rollout_def dec_raw_field_def f(3) enc_raw_stored [OF b])
qed

lemma dec_enc_request:
  assumes "enc_request r = Some j"
  shows "dec_request j = Inr (stored_request r)"
proof (cases r)
  case (CreateRequest i b k)
  with assms obtain s where s: "enc_raw b = Some s" and j: "j = JObj [(''Type'', JStr ''CREATE''),
       (''Body'', JObj [(''subjectId'', JStr i), (''subject'', s), (''subjectKey'', JStr k)])]" by auto
  show ?thesis unfolding j CreateRequest
    by (simp add: dec_request_def dec_two_def dec_body_def stored_request_def field_simps_json dec_str_def enc_raw_stored [OF s])
next
  case (DeleteRequest i k)
  then show ?thesis using assms
    by (auto simp: dec_request_def dec_two_def dec_body_def stored_request_def field_simps_json dec_str_def)
next
  case (StatusRequest i k)
  then show ?thesis using assms
    by (auto simp: dec_request_def dec_two_def dec_body_def stored_request_def field_simps_json dec_str_def)
qed

lemma dec_enc_requests: "enc_requests rs = Some js \<Longrightarrow> dec_requests js = Inr (map stored_request rs)"
  by (induction rs arbitrary: js) (auto simp: dec_enc_request split: option.splits)

lemma dec_enc_link: "dec_link (enc_link l) = Some (stored_link l)"
proof -
  have n: "enc_ref r = JObj (case enc_ref r of JObj kvs \<Rightarrow> kvs | _ \<Rightarrow> [])" for r by (simp add: enc_ref_def)
  have e: "dec_field dec_ref z n [(''source'', enc_ref a), (''target'', enc_ref b)] =
      (if n = ''source'' then Some (stored_ref a) else Some (stored_ref b))"
    if "n = ''source'' \<or> n = ''target''" for n z a b
    using that dec_enc_ref [of a] dec_enc_ref [of b] n [of a] n [of b]
    by (auto simp: dec_field_def jfield_Cons to_lower_def lower_char_def stored_ref_def enc_ref_def)
  show ?thesis by (simp add: dec_link_def enc_link_def e stored_link_def)
qed

lemma dec_enc_deployment:
  assumes "enc_deployment d = Some j"
  shows "dec_deployment (RDoc j) = Inr (stored_deployment d)"
proof -
  from assms obtain js where js: "enc_requests (dpRequests d) = Some js"
    and j: "j = JObj [(''id'', JStr (dpId d)), (''requests'', JArr js),
       (''dependencies'', enc_list enc_link (dpDependencies d)), (''depending'', enc_list enc_link (dpDepending d)),
       (''references'', MarshalRefs (map (\<lambda>r. r\<lparr>refBody := RNil\<rparr>) (dpReferences d)))]"
    by (auto simp: enc_deployment_def MarshalRequests_def)
  let ?kvs = "[(''id'', JStr (dpId d)), (''requests'', JArr js),
       (''dependencies'', enc_list enc_link (dpDependencies d)), (''depending'', enc_list enc_link (dpDepending d)),
       (''references'', MarshalRefs (map (\<lambda>r. r\<lparr>refBody := RNil\<rparr>) (dpReferences d)))]"
  have f: "jfield ''id'' ?kvs = Some (JStr (dpId d))" "jfield ''requests'' ?kvs = Some (JArr js)"
    "jfield ''dependencies'' ?kvs = Some (enc_list enc_link (dpDependencies d))"
    "jfield ''depending'' ?kvs = Some (enc_list enc_link (dpDepending d))"
    "jfield ''references'' ?kvs = Some (MarshalRefs (map (\<lambda>r. r\<lparr>refBody := RNil\<rparr>) (dpReferences d)))"
    by (simp_all add: jfield_Cons to_lower_def lower_char_def)
  have r: "dec_field UnmarshalRefs [] ''references'' ?kvs = Some (map (\<lambda>r. r\<lparr>refBody := RDoc JNull\<rparr>) (dpReferences d))"
    using UnmarshalRefs_MarshalRefs [of "map (\<lambda>r. r\<lparr>refBody := RNil\<rparr>) (dpReferences d)"]
    unfolding dec_field_def f(5) by (simp add: MarshalRefs_def comp_def stored_ref_def)
  have l: "dec_field (dec_list dec_link) [] ''dependencies'' ?kvs = Some (map stored_link (dpDependencies d))"
    "dec_field (dec_list dec_link) [] ''depending'' ?kvs = Some (map stored_link (dpDepending d))"
    by (rule dec_enc_list [OF f(3)], rule dec_enc_link) (rule dec_enc_list [OF f(4)], rule dec_enc_link)
  have q: "UnmarshalRequests (JArr js) = Inr (map stored_request (dpRequests d))"
    using dec_enc_requests [OF js] by (simp add: UnmarshalRequests_def)
  show ?thesis
    unfolding j dec_deployment_def raw.case json.case f(2) option.case q sum.case dec_field_simp [OF f(1)]
      l(1) l(2) r
    by (simp add: stored_deployment_def)
qed

subsection \<open>Effect of the operations on the rollouts and on the links\<close>

lemma Save_Load:
  assumes "bolt_ok B" and "Save B d c i (Some j) = Inr d'"
  shows "Load B d' c' k = (if c' = c \<and> k = i then Some (RDoc j) else Load B d c' k)"
proof -
  from assms(2) obtain b where b: "bPut B (bucket c d) i (RDoc j) = Inr b" and d': "d' = set_bucket c b d"
    by (auto simp: Save_def split: sum.splits)
  have "bucket c' (set_bucket c b d) = (if c' = c then b else bucket c' d)"
    by (cases c; cases c') simp_all
  with bolt_put [OF assms(1) b] show ?thesis by (simp add: Load_def d')
qed

lemma Save_links: "Save B d RolloutsById i s = Inr d' \<Longrightarrow>
    dbLinksBySource d' = dbLinksBySource d \<and> dbLinksByTarget d' = dbLinksByTarget d"
  by (auto simp: Save_def split: option.splits sum.splits)

lemma save_rollout_links [simp]:
  "dbLinksBySource (save_rollout B d r) = dbLinksBySource d" "dbLinksByTarget (save_rollout B d r) = dbLinksByTarget d"
  by (auto simp: save_rollout_def dest: Save_links split: sum.splits)

lemma LoadRollout_save:
  assumes "bolt_ok B" and "Save B d RolloutsById (roInstanceId r) (enc_rollout r) = Inr d'"
  shows "LoadRollout B d' k = (if k = roInstanceId r then Inr (Some (stored_rollout r)) else LoadRollout B d k)"
proof -
  obtain j where j: "enc_rollout r = Some j"
    using assms(2) by (cases "enc_rollout r") (auto simp: Save_def)
  have "Save B d RolloutsById (roInstanceId r) (Some j) = Inr d'" using assms(2) by (simp only: j)
  from Save_Load [OF assms(1) this] show ?thesis
    by (simp add: LoadRollout_def DeserializeRollout_enc [OF j])
qed

lemma RemoveLink_rollouts: "RemoveLink B d i = Inr d' \<Longrightarrow> dbRollouts d' = dbRollouts d"
  by (auto simp: RemoveLink_def split: sum.splits)

lemma LoadRollout_cong: "dbRollouts d' = dbRollouts d \<Longrightarrow> LoadRollout B d' = LoadRollout B d"
  by (simp add: LoadRollout_def Load_def fun_eq_iff)

lemma ProcessDelete_rollouts:
  "ProcessDelete ctx i k (d, w) = (e, d', w') \<Longrightarrow> dbRollouts d' = dbRollouts d"
  by (auto simp: ProcessDelete_def RemoveLink_rollouts split: sum.splits prod.splits option.splits)

lemma ProcessDelete_links:
  assumes "bolt_ok (rcBolt ctx)" and "links_ok (rcBolt ctx) d" and "ProcessDelete ctx i k (d, w) = (e, d', w')"
  shows "links_ok (rcBolt ctx) d'" and "e = None \<Longrightarrow> links (rcBolt ctx) d' = {(x, y) \<in> links (rcBolt ctx) d. x \<noteq> i}"
    and "e \<noteq> None \<Longrightarrow> d' = d"
proof -
  have "e = None \<and> RemoveLink (rcBolt ctx) d i = Inr d' \<or> e \<noteq> None \<and> d' = d"
    using assms(3) by (auto simp: ProcessDelete_def split: sum.splits prod.splits option.splits)
  then show "links_ok (rcBolt ctx) d'" and "e = None \<Longrightarrow> links (rcBolt ctx) d' = {(x, y) \<in> links (rcBolt ctx) d. x \<noteq> i}"
    and "e \<noteq> None \<Longrightarrow> d' = d"
    using RemoveLink_links [OF assms(1,2)] assms(2) by auto
qed

lemma register_defs_spec:
  assumes "register_defs p ds pr = Inr pr'" and "registry_ok (prRegistry pr)" and "gm_ok (prRouting pr)"
    and "set (gm_keys (prRouting pr)) = set (gm_keys (prRegistry pr))"
  shows "registry_ok (prRegistry pr') \<and> gm_ok (prRouting pr') \<and>
    set (gm_keys (prRouting pr')) = set (gm_keys (prRegistry pr')) \<and> prProviders pr' = prProviders pr \<and>
    distinct (map defKey ds) \<and> (\<forall>d \<in> set ds. defKey d \<notin> set (gm_keys (prRouting pr))) \<and>
    (\<forall>k. map_of (prRouting pr') k = (if k \<in> defKey ` set ds then Some p else map_of (prRouting pr) k))"
  using assms
proof (induction p ds pr rule: register_defs.induct)
  case (1 p pr)
  then show ?case by simp
next
  case (2 p d ds pr)
  let ?reg = "gm_put (defKey d) d (prRegistry pr)"
  from 2(2) have fresh: "\<not> gm_has (prRouting pr) (defKey d)"
    and reg: "Register (prRegistry pr) d = Inr ?reg"
    and rest: "register_defs p ds (pr\<lparr>prRegistry := ?reg, prRouting := gm_put (defKey d) p (prRouting pr)\<rparr>) = Inr pr'"
    by (auto simp: Register_def split: if_splits)
  have "registry_ok ?reg"
    using 2(3) fresh 2(5) by (auto simp: registry_ok_def gm_put_fresh gm_ok_def gm_keys_def)
  with 2(1) [OF fresh reg rest] 2(4,5) fresh show ?case by auto
qed

definition providers_ok :: "('b, 'w) provider_registry \<Rightarrow> bool" where
  "providers_ok pr \<longleftrightarrow> registry_ok (prRegistry pr) \<and> gm_ok (prRouting pr) \<and>
     set (gm_keys (prRouting pr)) = set (gm_keys (prRegistry pr))"

subsection \<open>Properties\<close>

text \<open>A create request records what happened: when the instance loads and the record can be
  written, the request fails exactly when \<open>Apply\<close> failed, the world is the one \<open>Apply\<close> left, and
  the stored rollout of the subject has the request's key and body and the status SUCCEEDED or
  ERROR accordingly; every other rollout and all links are unchanged.\<close>

theorem CreateRequest_records:
  assumes "bolt_ok (rcBolt ctx)" and "LoadInstance (rcRegistry ctx) k b = Inr inst"
    and "instApply inst w = (e, w')" and "b \<noteq> RBad"
    and "\<forall>v. \<exists>b'. bPut (rcBolt ctx) (dbRollouts d) i v = Inr b'"
  shows "\<exists>d' r. Process ctx (CreateRequest i b k) (d, w) = (e, d', w') \<and>
    LoadRollout (rcBolt ctx) d' i = Inr (Some r) \<and> roInstanceId r = i \<and> roInstanceKey r = k \<and>
    roBody r = raw_stored b \<and> GetShort (roStatus r) = (if e = None then RsSuccess else RsError) \<and>
    (\<forall>j. j \<noteq> i \<longrightarrow> LoadRollout (rcBolt ctx) d' j = LoadRollout (rcBolt ctx) d j) \<and>
    links (rcBolt ctx) d' = links (rcBolt ctx) d"
proof -
  define ro where "ro = \<lparr>roInstanceId = i, roInstanceKey = k, roBody = b, roMessages = [],
    roErrors = (case e of None \<Rightarrow> [] | Some x \<Rightarrow> [''couldn't apply: '' @ error_text x]),
    roStatus = Some \<lparr>rsShort = (if e = None then RsSuccess else RsError), rsDetails = RNil\<rparr>\<rparr>"
  have "\<exists>j. enc_rollout ro = Some j"
    using assms(4) by (cases b) (simp_all add: ro_def enc_rollout_def enc_raw_def enc_status_def)
  then obtain j where j: "enc_rollout ro = Some j" ..
  obtain b' where "bPut (rcBolt ctx) (dbRollouts d) i (RDoc j) = Inr b'" using assms(5) by blast
  then have "Save (rcBolt ctx) d RolloutsById i (enc_rollout ro) = Inr (d\<lparr>dbRollouts := b'\<rparr>)"
    by (simp add: Save_def j)
  then obtain d' where d': "Save (rcBolt ctx) d RolloutsById i (enc_rollout ro) = Inr d'" ..
  have id: "roInstanceId ro = i" by (simp add: ro_def)
  have "Process ctx (CreateRequest i b k) (d, w) = (e, d', w')"
    using assms(2,3) d' by (cases e) (simp_all add: ProcessCreate_def Let_def save_rollout_def ro_def)
  moreover note LoadRollout_save [OF assms(1), of d ro d', unfolded id, OF d']
  moreover have "links (rcBolt ctx) d' = links (rcBolt ctx) d"
    using Save_links [OF d'] by (simp add: links_def)
  ultimately show ?thesis by (simp add: stored_rollout_def ro_def GetShort_def)
qed

lemma LoadDeployment_saved:
  assumes "bolt_ok B" and "SaveDeployment B d db = Inr db'"
  shows "LoadDeployment B db' (dpId d) = Inr (stored_deployment d)"
proof -
  obtain j where j: "enc_deployment d = Some j"
    using assms(2) by (cases "enc_deployment d") (auto simp: SaveDeployment_def Save_def)
  have "Save B db DeploymentsById (dpId d) (Some j) = Inr db'" using assms(2) by (simp only: j SaveDeployment_def)
  from Save_Load [OF assms(1) this] show ?thesis
    by (simp add: LoadDeployment_def dec_enc_deployment [OF j])
qed

lemma stored_request_simps [simp]:
  "GetSubjectId (stored_request r) = GetSubjectId r" "GetType (stored_request r) = GetType r"
  by (cases r; simp add: stored_request_def)+

text \<open>C34: A saved deployment can be loaded again with all its requests, dependency links and
  references in order; the only change is that an absent raw body comes back as the JSON value
  null and that references lose their bodies.\<close>

theorem deployment_roundtrip:
  assumes "bolt_ok B" and "SaveDeployment B d db = Inr db'"
  shows "LoadDeployment B db' (dpId d) = Inr (stored_deployment d) \<and>
    map GetSubjectId (dpRequests (stored_deployment d)) = map GetSubjectId (dpRequests d) \<and>
    map GetType (dpRequests (stored_deployment d)) = map GetType (dpRequests d)"
  using LoadDeployment_saved [OF assms] by (simp add: stored_deployment_def)

text \<open>A delete request never removes the rollout of its subject: whether it succeeds or not, every
  rollout reads back as before, so the deleted resource is still reported with its old status and
  the planner goes on treating it as deployed.  On success it removes exactly the links that
  leave the subject, on failure the database is untouched, and the link indexes stay consistent.\<close>

theorem DeleteRequest_effect:
  assumes "bolt_ok (rcBolt ctx)" and "links_ok (rcBolt ctx) d"
    and "Process ctx (DeleteRequest i k) (d, w) = (e, d', w')"
  shows "LoadRollout (rcBolt ctx) d' = LoadRollout (rcBolt ctx) d \<and> links_ok (rcBolt ctx) d' \<and>
    (e = None \<longrightarrow> links (rcBolt ctx) d' = {(x, y) \<in> links (rcBolt ctx) d. x \<noteq> i}) \<and> (e \<noteq> None \<longrightarrow> d' = d)"
proof -
  have p: "ProcessDelete ctx i k (d, w) = (e, d', w')" using assms(3) by simp
  show ?thesis
    using ProcessDelete_links [OF assms(1,2) p] LoadRollout_cong [OF ProcessDelete_rollouts [OF p]] by blast
qed

text \<open>A status request for a resource without a rollout record crashes: the nil rollout that
  \<open>LoadRollout\<close> returns for it is dereferenced.\<close>

theorem StatusRequest_nil_rollout:
  assumes "GetDefinition (rcRegistry ctx) k = Inr def" and "i \<noteq> ''''"
    and "\<exists>s. defGetProviderStatus def \<lparr>refId = i, refKey = k, refBody = RNil\<rparr> w = Inr s"
    and "LoadRollout (rcBolt ctx) d i = Inr None"
  shows "Process ctx (StatusRequest i k) (d, w) = (Some (Panic ''nil pointer dereference''), d, w)"
  using assms by (auto simp: ProcessStatus_def NewReference_def)

text \<open>Provider registration keeps routing and type registry in step: afterwards both know the
  same keys, every definition of the provider is routed to it and none of them was known before,
  and all other keys are routed as they were.\<close>

theorem ProviderRegister_correct:
  assumes "providers_ok pr" and "ProviderRegister pr name p = Inr pr'"
  shows "providers_ok pr' \<and>
    (\<forall>k. ForKey pr' k = (if k \<in> defKey ` set (prGetDefinitions p) then Inr p else ForKey pr k)) \<and>
    (\<forall>d \<in> set (prGetDefinitions p). \<not> gm_has (prRouting pr) (defKey d)) \<and> map_of (prProviders pr') name = Some p"
proof -
  from assms(2) obtain q where q: "register_defs p (prGetDefinitions p) pr = Inr q"
    and pr': "pr' = q\<lparr>prProviders := gm_put name p (prProviders q)\<rparr>"
    by (auto simp: ProviderRegister_def split: if_splits sum.splits)
  from register_defs_spec [OF q] assms(1) show ?thesis
    by (simp add: providers_ok_def pr' ForKey_def)
qed

subsection \<open>Witnesses\<close>

definition widget_ok :: "nat rdef" where
  "widget_ok = \<lparr>defKey = ''g/v1/W'', defInstantiate = \<lambda>r. Inl (Err ''''),
     defLoad = \<lambda>r. Inr \<lparr>instId = ''w1'', instKey = ''g/v1/W'', instApply = \<lambda>w. (None, Suc w)\<rparr>,
     defDelete = \<lambda>r w. (None, w - 1), defGetStatus = \<lambda>r w. Inr \<lparr>stShort = RsRunning, stDetails = RNil\<rparr>,
     defGetProviderStatus = \<lambda>r w. Inr \<lparr>stShort = RsRunning, stDetails = RNil\<rparr>\<rparr>"

definition widget_provider :: "(raw gomap, nat) provider" where
  "widget_provider = \<lparr>prGetReferencesTo = \<lambda>r d. Inr [], prRemove = \<lambda>r w. (None, w),
     prGetStatus = \<lambda>r w. Inr None, prGetDefinitions = [widget_ok]\<rparr>"

definition widget_ctx :: "(raw gomap, nat) request_context" where
  "widget_ctx = \<lparr>rcBolt = mem_bolt, rcRegistry = [(''g/v1/W'', widget_ok)], rcProviders = NewProviderRegistry []\<rparr>"

lemma widget_ctx_simps: "bolt_ok (rcBolt widget_ctx)" "rcBolt widget_ctx = mem_bolt"
  "GetDefinition (rcRegistry widget_ctx) ''g/v1/W'' = Inr widget_ok"
  "LoadInstance (rcRegistry widget_ctx) ''g/v1/W'' b =
     Inr \<lparr>instId = ''w1'', instKey = ''g/v1/W'', instApply = \<lambda>w. (None, Suc w)\<rparr>"
  by (simp_all add: widget_ctx_def mem_bolt_ok GetDefinition_def LoadInstance_def widget_ok_def)

theorem CreateRequest_records_witness:
  "\<exists>d' r. Process widget_ctx (CreateRequest ''w1'' (RDoc JNull) ''g/v1/W'') (empty_db, 0) = (None, d', 1) \<and>
     LoadRollout mem_bolt d' ''w1'' = Inr (Some r) \<and> GetShort (roStatus r) = RsSuccess"
  using CreateRequest_records [OF widget_ctx_simps(1) widget_ctx_simps(4), of 0 None 1 "RDoc JNull" empty_db "''w1''"]
  by (auto simp: widget_ctx_simps(2) mem_bolt_def)

definition sample_deployment :: deployment where
  "sample_deployment = AddDeletion (NewDeployment ''d1'') ''p/web'' ''g/v1/W''"

theorem deployment_roundtrip_witness:
  "\<exists>db'. SaveDeployment mem_bolt sample_deployment empty_db = Inr db' \<and>
     LoadDeployment mem_bolt db' ''d1'' = Inr (stored_deployment sample_deployment)"
proof -
  have "\<exists>db'. SaveDeployment mem_bolt sample_deployment empty_db = Inr db'"
    by (simp add: SaveDeployment_def Save_def sample_deployment_def AddDeletion_def NewDeployment_def
        enc_deployment_def MarshalRequests_def mem_bolt_def)
  moreover have "dpId sample_deployment = ''d1''"
    by (simp add: sample_deployment_def AddDeletion_def NewDeployment_def)
  ultimately show ?thesis using deployment_roundtrip [OF mem_bolt_ok, of sample_deployment empty_db] by auto
qed

theorem DeleteRequest_effect_witness:
  "\<exists>d' w'. Process widget_ctx (DeleteRequest ''p/web'' ''g/v1/W'') (linked_db, 1) = (None, d', w') \<and>
     links mem_bolt d' = {} \<and> LoadRollout mem_bolt d' = LoadRollout mem_bolt linked_db"
proof -
  have l: "links_ok mem_bolt linked_db \<and> links mem_bolt linked_db = {(''p/web'', ''p/db'')}"
    using AddLink_links [OF mem_bolt_ok empty_db_links(1) linked_db_add]
    by (simp add: empty_db_links(2) web_db_link_def plain_ref_def)
  have "\<exists>d'. RemoveLink mem_bolt linked_db ''p/web'' = Inr d'"
    by (simp add: linked_db_def AddLink_def addTo_def loadTargets_def mem_bolt_def empty_db_def web_db_link_def
        plain_ref_def RemoveLink_def Unique_def updateOrDeleteBucketEntry_def gm_put_def)
  then obtain d' where r: "RemoveLink mem_bolt linked_db ''p/web'' = Inr d'" ..
  have p: "Process widget_ctx (DeleteRequest ''p/web'' ''g/v1/W'') (linked_db, 1) = (None, d', 0)"
    by (simp add: ProcessDelete_def NewReference_def RegistryDelete_def widget_ctx_simps(2,3) r)
      (simp add: widget_ok_def widget_ctx_simps(2) r)
  with DeleteRequest_effect [OF widget_ctx_simps(1) _ p] l show ?thesis by (simp add: widget_ctx_simps(2))
qed

theorem StatusRequest_nil_rollout_witness:
  "Process widget_ctx (StatusRequest ''w1'' ''g/v1/W'') (empty_db, 0) = (Some (Panic ''nil pointer dereference''), empty_db, 0)"
  by (rule StatusRequest_nil_rollout [OF widget_ctx_simps(3)])
    (simp_all add: widget_ok_def LoadRollout_def Load_def widget_ctx_simps(2) mem_bolt_def empty_db_def)

theorem ProviderRegister_correct_witness:
  "\<exists>pr. ProviderRegister (NewProviderRegistry []) ''cri'' widget_provider = Inr pr \<and> providers_ok pr \<and>
     ForKey pr ''g/v1/W'' = Inr widget_provider"
proof -
  have ok: "providers_ok (NewProviderRegistry [] :: (raw gomap, nat) provider_registry)"
    by (simp add: providers_ok_def NewProviderRegistry_def registry_ok_def)
  have "\<exists>pr. ProviderRegister (NewProviderRegistry []) ''cri'' widget_provider = Inr pr"
    by (simp add: ProviderRegister_def NewProviderRegistry_def widget_provider_def Register_def)
  moreover have "''g/v1/W'' \<in> defKey ` set (prGetDefinitions widget_provider)"
    by (simp add: widget_provider_def widget_ok_def)
  ultimately show ?thesis using ProviderRegister_correct [OF ok] by fastforce
qed

end
