(* ===== verification/Eval_Json.thy ===== *)
theory Eval_Json
  imports Eval_Types Deploy
begin

text \<open>
  The JSON forms of the union types of \<open>src/pkg/eval/parse.go\<close>: a command is a string or a list of
  strings, \<open>depends_on\<close> and \<open>networks\<close> are a list of names or a map.  Marshalling always writes the
  list or map form, so reading what was written gives the value back.

  A map is written with its keys in order; \<open>gm_canonical\<close> picks that order for its list of entries,
  so that a round trip is an equation and not an equation up to iteration order.
\<close>

subsection \<open>Maps, options and optional fields\<close>

definition enc_map :: "('a \<Rightarrow> json) \<Rightarrow> 'a gomap \<Rightarrow> json" where
  "enc_map enc m = JObj (map (\<lambda>(k, v). (k, enc v)) (sort_entries m))"

definition dec_map :: "(json \<Rightarrow> 'a option) \<Rightarrow> json \<Rightarrow> 'a gomap option" where
  "dec_map dec j =
     (case j of
        JObj kvs \<Rightarrow> map_option (\<lambda>vs. gm_put_all (zip (map fst kvs) vs) []) (dec_all dec (map snd kvs))
      | JNull \<Rightarrow> Some [] | _ \<Rightarrow> None)"

definition dec_bool :: "json \<Rightarrow> bool option" where
  "dec_bool j = (case j of JBool b \<Rightarrow> Some b | JNull \<Rightarrow> Some False | _ \<Rightarrow> None)"

definition dec_int :: "json \<Rightarrow> int option" where
  "dec_int j = (case j of JNum n \<Rightarrow> if - (2 ^ 63) \<le> n \<and> n < 2 ^ 63 then Some n else None | JNull \<Rightarrow> Some 0 | _ \<Rightarrow> None)"

text \<open>A field with \<open>omitempty\<close> is left out when it is empty.\<close>

definition omit_empty :: "string \<Rightarrow> bool \<Rightarrow> json \<Rightarrow> (string \<times> json) list" where
  "omit_empty name absent j = (if absent then [] else [(name, j)])"

definition gm_canonical :: "'v gomap \<Rightarrow> bool" where
  "gm_canonical m \<longleftrightarrow> gm_ok m \<and> sort_entries m = m"

subsection \<open>CommandValue, DependsOnValue and ServiceNetworks\<close>

definition MarshalCommand :: "command_value \<Rightarrow> json" where
  "MarshalCommand c = (if length (cvParts c) = 0 then JNull else JArr (map JStr (cvParts c)))"

definition UnmarshalCommand :: "json \<Rightarrow> command_value option" where
  "UnmarshalCommand j =
     (if j = JNull then Some zero_command
      else case j of
        JStr s \<Rightarrow> Some \<lparr>cvParts = [s]\<rparr>
      | _ \<Rightarrow> (case dec_list dec_str j of Some arr \<Rightarrow> Some \<lparr>cvParts = arr\<rparr> | None \<Rightarrow> None))"

definition enc_depends_on_entry :: "depends_on_entry \<Rightarrow> json" where
  "enc_depends_on_entry e = JObj (omit_empty ''condition'' (doeCondition e = '''') (JStr (doeCondition e)))"

definition dec_depends_on_entry :: "json \<Rightarrow> depends_on_entry option" where
  "dec_depends_on_entry j =
     (case j of
        JObj kvs \<Rightarrow> map_option (\<lambda>c. \<lparr>doeCondition = c\<rparr>) (dec_field dec_str '''' ''condition'' kvs)
      | JNull \<Rightarrow> Some \<lparr>doeCondition = ''''\<rparr> | _ \<Rightarrow> None)"

definition MarshalDependsOn :: "depends_on_value \<Rightarrow> json" where
  "MarshalDependsOn d = (if length (dovEntries d) = 0 then JNull else enc_map enc_depends_on_entry (dovEntries d))"

definition UnmarshalDependsOn :: "json \<Rightarrow> depends_on_value option" where
  "UnmarshalDependsOn j =
     (if j = JNull then Some zero_depends_on
      else case dec_map dec_depends_on_entry j of
        Some m \<Rightarrow> Some \<lparr>dovEntries = m\<rparr>
      | None \<Rightarrow>
          (case dec_list dec_str j of
             Some arr \<Rightarrow> Some \<lparr>dovEntries = gm_put_all (map (\<lambda>name. (name, \<lparr>doeCondition = ''service_started''\<rparr>)) arr) []\<rparr>
           | None \<Rightarrow> None))"

definition enc_network_config :: "service_network_config \<Rightarrow> json" where
  "enc_network_config c = JObj (omit_empty ''aliases'' (sncAliases c = []) (JArr (map JStr (sncAliases c))))"

definition dec_network_config :: "json \<Rightarrow> service_network_config option" where
  "dec_network_config j =
     (case j of
        JObj kvs \<Rightarrow> map_option (\<lambda>a. \<lparr>sncAliases = a\<rparr>) (dec_field (dec_list dec_str) [] ''aliases'' kvs)
      | JNull \<Rightarrow> Some \<lparr>sncAliases = []\<rparr> | _ \<Rightarrow> None)"

definition MarshalNetworks :: "service_networks \<Rightarrow> json" where
  "MarshalNetworks n = (if length (snEntries n) = 0 then JNull else enc_map enc_network_config (snEntries n))"

definition UnmarshalNetworks :: "json \<Rightarrow> service_networks option" where
  "UnmarshalNetworks j =
     (if j = JNull then Some \<lparr>snEntries = []\<rparr>
      else case dec_map dec_network_config j of
        Some m \<Rightarrow> Some \<lparr>snEntries = m\<rparr>
      | None \<Rightarrow>
          (case dec_list dec_str j of
             Some arr \<Rightarrow> Some \<lparr>snEntries = gm_put_all (map (\<lambda>name. (name, \<lparr>sncAliases = []\<rparr>)) arr) []\<rparr>
           | None \<Rightarrow> None))"

text \<open>Health checks and volumes, plain structs.\<close>

definition enc_healthcheck :: "healthcheck \<Rightarrow> json" where
  "enc_healthcheck h = JObj ([(''test'', MarshalCommand (hcTest h))] @
     omit_empty ''interval'' (hcInterval h = '''') (JStr (hcInterval h)) @
     omit_empty ''timeout'' (hcTimeout h = '''') (JStr (hcTimeout h)) @
     omit_empty ''retries'' (hcRetries h = 0) (JNum (hcRetries h)) @
     omit_empty ''start_period'' (hcStartPeriod h = '''') (JStr (hcStartPeriod h)))"

definition dec_healthcheck :: "json \<Rightarrow> healthcheck option" where
  "dec_healthcheck j =
     (case j of
        JObj kvs \<Rightarrow>
          (case (dec_field UnmarshalCommand zero_command ''test'' kvs, dec_field dec_str '''' ''interval'' kvs,
                 dec_field dec_str '''' ''timeout'' kvs, dec_field dec_int 0 ''retries'' kvs,
                 dec_field dec_str '''' ''start_period'' kvs) of
             (Some t, Some i, Some o', Some r, Some s) \<Rightarrow>
               Some \<lparr>hcTest = t, hcInterval = i, hcTimeout = o', hcRetries = r, hcStartPeriod = s\<rparr>
           | _ \<Rightarrow> None)
      | _ \<Rightarrow> None)"

definition enc_volume :: "volume \<Rightarrow> json" where
  "enc_volume v = JObj (omit_empty ''driver'' (volDriver v = '''') (JStr (volDriver v)) @
     omit_empty ''driver_opts'' (volDriverOpts v = []) (enc_map JStr (volDriverOpts v)) @
     omit_empty ''external'' (\<not> volExternal v) (JBool (volExternal v)))"

definition dec_volume :: "json \<Rightarrow> volume option" where
  "dec_volume j =
     (case j of
        JObj kvs \<Rightarrow>
          (case (dec_field dec_str '''' ''driver'' kvs, dec_field (dec_map dec_str) [] ''driver_opts'' kvs,
                 dec_field dec_bool False ''external'' kvs) of
             (Some d, Some o', Some e) \<Rightarrow> Some \<lparr>volDriver = d, volDriverOpts = o', volExternal = e\<rparr>
           | _ \<Rightarrow> None)
      | JNull \<Rightarrow> Some \<lparr>volDriver = '''', volDriverOpts = [], volExternal = False\<rparr> | _ \<Rightarrow> None)"

subsection \<open>Laws\<close>

lemma gm_put_new: "k \<notin> set (gm_keys m) \<Longrightarrow> gm_put k v m = m @ [(k, v)]"
  by (induction m) (auto simp: gm_put_def)

lemma gm_put_all_append: "gm_ok (m @ es) \<Longrightarrow> gm_put_all es m = m @ es"
proof (induction es arbitrary: m)
  case (Cons e es)
  obtain k v where e: "e = (k, v)" by fastforce
  have "k \<notin> set (gm_keys m)" using Cons.prems e by (auto simp: gm_ok_def gm_keys_def)
  then show ?case using Cons.IH [of "m @ [(k, v)]"] Cons.prems e by (simp add: gm_put_all_def gm_put_new)
qed (simp add: gm_put_all_def)

lemma gm_ok_sort_entries [simp]: "gm_ok m \<Longrightarrow> gm_ok (sort_entries m)"
proof -
  assume "gm_ok m"
  then have "distinct (gm_keys (sort_entries m))" by (simp add: sorted_keys_def sort_strings_def)
  then show ?thesis by (simp add: gm_ok_def gm_keys_def)
qed

lemma sort_entries_idem: "gm_ok m \<Longrightarrow> sort_entries (sort_entries m) = sort_entries m"
  by (rule sort_entries_cong) (auto simp: sort_entries_map_of)

lemma gm_canonical_sorted: "gm_ok m \<Longrightarrow> gm_canonical (sort_entries m)"
  by (simp add: gm_canonical_def sort_entries_idem)

text \<open>Reading a written map gives its entries in key order.\<close>

lemma dec_enc_map:
  assumes "gm_ok m" and "\<And>k v. (k, v) \<in> set (sort_entries m) \<Longrightarrow> dec (enc v) = Some v"
  shows "dec_map dec (enc_map enc m) = Some (sort_entries m)"
proof -
  let ?es = "sort_entries m"
  have "dec_all dec (map snd (map (\<lambda>(k, v). (k, enc v)) es)) = Some (map snd es)" if "set es \<subseteq> set ?es" for es
    using that assms(2) by (induction es) auto
  then have "dec_all dec (map snd (map (\<lambda>(k, v). (k, enc v)) ?es)) = Some (map snd ?es)" by blast
  moreover have "zip (map fst (map (\<lambda>(k, v). (k, enc v)) ?es)) (map snd ?es) = ?es"
    by (simp add: comp_def split_beta zip_map_fst_snd)
  ultimately show ?thesis
    using gm_put_all_append [of "[]" ?es] assms(1) unfolding dec_map_def enc_map_def by simp
qed

lemma dec_enc_map_canonical:
  assumes "gm_canonical m" and "\<And>k v. (k, v) \<in> set m \<Longrightarrow> dec (enc v) = Some v"
  shows "dec_map dec (enc_map enc m) = Some m"
  using dec_enc_map [of m dec enc] assms by (simp add: gm_canonical_def)

lemma jfield_append:
  "jfield n (a @ b) = (case jfield n b of Some j \<Rightarrow> Some j | None \<Rightarrow> jfield n a)"
  by (auto simp: jfield_def map_add_def split: option.splits)

lemma jfield_omit: "jfield n (omit_empty k e j) = (if \<not> e \<and> to_lower n = to_lower k then Some j else None)"
  by (simp add: omit_empty_def jfield_Cons)

lemma dec_field_omit:
  assumes "jfield n kvs = (if e then None else Some j)" and "e \<Longrightarrow> x = z" and "\<not> e \<Longrightarrow> j \<noteq> JNull \<and> dec j = Some x"
  shows "dec_field dec z n kvs = Some x"
  using assms by (cases e) (auto simp: dec_field_def split: json.splits)

lemma dec_enc_command [simp]: "UnmarshalCommand (MarshalCommand c) = Some c"
  by (cases c) (simp add: UnmarshalCommand_def MarshalCommand_def zero_command_def)

lemma dec_enc_depends_on_entry [simp]: "dec_depends_on_entry (enc_depends_on_entry e) = Some e"
  by (cases e) (simp add: dec_depends_on_entry_def enc_depends_on_entry_def omit_empty_def dec_field_def dec_str_def jfield_Cons)

lemma dec_enc_network_config [simp]: "dec_network_config (enc_network_config c) = Some c"
  by (cases c) (simp add: dec_network_config_def enc_network_config_def omit_empty_def dec_field_def jfield_Cons)

lemma enc_map_not_null [simp]: "enc_map enc m \<noteq> JNull"
  by (simp add: enc_map_def)

text \<open>Commands, \<open>depends_on\<close> and \<open>networks\<close> survive a round trip through JSON; the short forms, a
  string for a command and a list of names for the other two, are read as what they abbreviate,
  with the condition \<open>service_started\<close>, and are written back in the long form.\<close>

theorem union_types_roundtrip:
  assumes "gm_canonical (dovEntries d)" and "gm_canonical (snEntries n)" and "distinct names" and "names \<noteq> []"
  shows "UnmarshalCommand (MarshalCommand c) = Some c \<and>
         UnmarshalDependsOn (MarshalDependsOn d) = Some d \<and>
         UnmarshalNetworks (MarshalNetworks n) = Some n \<and>
         UnmarshalCommand (JStr s) = Some \<lparr>cvParts = [s]\<rparr> \<and>
         UnmarshalDependsOn (JArr (map JStr names)) =
           Some \<lparr>dovEntries = map (\<lambda>x. (x, \<lparr>doeCondition = ''service_started''\<rparr>)) names\<rparr> \<and>
         UnmarshalNetworks (JArr (map JStr names)) = Some \<lparr>snEntries = map (\<lambda>x. (x, \<lparr>sncAliases = []\<rparr>)) names\<rparr>"
proof -
  have "UnmarshalDependsOn (MarshalDependsOn d) = Some d"
    using dec_enc_map_canonical [OF assms(1), of dec_depends_on_entry enc_depends_on_entry]
    by (cases d) (simp add: UnmarshalDependsOn_def MarshalDependsOn_def zero_depends_on_def)
  moreover have "UnmarshalNetworks (MarshalNetworks n) = Some n"
    using dec_enc_map_canonical [OF assms(2), of dec_network_config enc_network_config]
    by (cases n) (simp add: UnmarshalNetworks_def MarshalNetworks_def)
  moreover have "UnmarshalDependsOn (JArr (map JStr names)) =
      Some \<lparr>dovEntries = gm_put_all (map (\<lambda>x. (x, \<lparr>doeCondition = ''service_started''\<rparr>)) names) []\<rparr>"
    by (simp add: UnmarshalDependsOn_def dec_map_def)
  moreover have "UnmarshalNetworks (JArr (map JStr names)) = Some \<lparr>snEntries = gm_put_all (map (\<lambda>x. (x, \<lparr>sncAliases = []\<rparr>)) names) []\<rparr>"
    by (simp add: UnmarshalNetworks_def dec_map_def)
  moreover have "UnmarshalCommand (JStr s) = Some \<lparr>cvParts = [s]\<rparr>" by (simp add: UnmarshalCommand_def)
  ultimately show ?thesis
    using gm_put_all_append [of "[]" "map (\<lambda>x. (x, \<lparr>doeCondition = ''service_started''\<rparr>)) names"]
      gm_put_all_append [of "[]" "map (\<lambda>x. (x, \<lparr>sncAliases = []\<rparr>)) names"] assms(3) by (simp add: gm_ok_def comp_def)
qed

text \<open>Witness of \<open>union_types_roundtrip\<close>.\<close>

theorem union_types_roundtrip_witness:
  "UnmarshalDependsOn (MarshalDependsOn \<lparr>dovEntries = [(''db'', \<lparr>doeCondition = ''service_healthy''\<rparr>)]\<rparr>) =
     Some \<lparr>dovEntries = [(''db'', \<lparr>doeCondition = ''service_healthy''\<rparr>)]\<rparr>"
proof -
  have "gm_canonical [(''db'', \<lparr>doeCondition = ''service_healthy''\<rparr>)]"
    by (simp add: gm_canonical_def sort_entries_def sorted_keys_def sort_strings_def)
  moreover have "gm_canonical ([] :: service_network_config gomap)"
    by (simp add: gm_canonical_def sort_entries_def sorted_keys_def sort_strings_def)
  ultimately show ?thesis
    using union_types_roundtrip [of "\<lparr>dovEntries = [(''db'', \<lparr>doeCondition = ''service_healthy''\<rparr>)]\<rparr>" "\<lparr>snEntries = []\<rparr>" "[''a'']"]
    by simp
qed

lemma dec_enc_healthcheck:
  assumes "- (2 ^ 63) \<le> hcRetries h" and "hcRetries h < 2 ^ 63"
  shows "dec_healthcheck (enc_healthcheck h) = Some h"
proof -
  note f = jfield_append jfield_omit jfield_Cons to_lower_def lower_char_def
  obtain kvs where kvs: "enc_healthcheck h = JObj kvs" by (simp add: enc_healthcheck_def)
  have "dec_field UnmarshalCommand zero_command ''test'' kvs = Some (hcTest h)"
    using kvs by (auto simp: enc_healthcheck_def f dec_field_def MarshalCommand_def zero_command_def UnmarshalCommand_def)
  moreover have "dec_field dec_str '''' ''interval'' kvs = Some (hcInterval h)"
    by (rule dec_field_omit [where e = "hcInterval h = ''''" and j = "JStr (hcInterval h)"])
      (use kvs in \<open>auto simp: enc_healthcheck_def f dec_str_def\<close>)
  moreover have "dec_field dec_str '''' ''timeout'' kvs = Some (hcTimeout h)"
    by (rule dec_field_omit [where e = "hcTimeout h = ''''" and j = "JStr (hcTimeout h)"])
      (use kvs in \<open>auto simp: enc_healthcheck_def f dec_str_def\<close>)
  moreover have "dec_field dec_int 0 ''retries'' kvs = Some (hcRetries h)"
    by (rule dec_field_omit [where e = "hcRetries h = 0" and j = "JNum (hcRetries h)"])
      (use kvs assms in \<open>auto simp: enc_healthcheck_def f dec_int_def\<close>)
  moreover have "dec_field dec_str '''' ''start_period'' kvs = Some (hcStartPeriod h)"
    by (rule dec_field_omit [where e = "hcStartPeriod h = ''''" and j = "JStr (hcStartPeriod h)"])
      (use kvs in \<open>auto simp: enc_healthcheck_def f dec_str_def\<close>)
  ultimately show ?thesis unfolding kvs dec_healthcheck_def by simp
qed

lemma dec_enc_volume:
  assumes "gm_canonical (volDriverOpts v)"
  shows "dec_volume (enc_volume v) = Some v"
proof -
  note f = jfield_append jfield_omit jfield_Cons to_lower_def lower_char_def
  obtain kvs where kvs: "enc_volume v = JObj kvs" by (simp add: enc_volume_def)
  have "dec_field dec_str '''' ''driver'' kvs = Some (volDriver v)"
    by (rule dec_field_omit [where e = "volDriver v = ''''" and j = "JStr (volDriver v)"])
      (use kvs in \<open>auto simp: enc_volume_def f dec_str_def\<close>)
  moreover have "dec_field (dec_map dec_str) [] ''driver_opts'' kvs = Some (volDriverOpts v)"
    by (rule dec_field_omit [where e = "volDriverOpts v = []" and j = "enc_map JStr (volDriverOpts v)"])
      (use kvs dec_enc_map_canonical [OF assms, of dec_str JStr] in \<open>auto simp: enc_volume_def f dec_str_def\<close>)
  moreover have "dec_field dec_bool False ''external'' kvs = Some (volExternal v)"
    by (rule dec_field_omit [where e = "\<not> volExternal v" and j = "JBool (volExternal v)"])
      (use kvs in \<open>auto simp: enc_volume_def f dec_bool_def\<close>)
  ultimately show ?thesis unfolding kvs dec_volume_def by simp
qed

end
