(* ===== verification/Plan.thy ===== *)
theory Plan
  imports Deploy
begin

text \<open>
  \<open>src/pkg/orchestrate/plan.go\<close>: the difference between a desired deployment and the recorded
  rollouts.  \<open>uid\<close> is the id that \<open>NewDeployment\<close> draws.
\<close>

subsection \<open>The code\<close>

datatype action_type = ActionCreate | ActionUpdate | ActionDestroy | ActionNoOp

record action =
  acType :: action_type
  acResourceID :: string
  acKey :: definition_key
  acReason :: string

type_synonym condition_map = "string gomap gomap"

record plan =
  plActions :: "action list"
  plDeployment :: deployment
  plConditions :: condition_map

definition bodyEqual :: "raw \<Rightarrow> raw \<Rightarrow> bool" where
  "bodyEqual a b =
     (case (a, b) of
        (RNil, RNil) \<Rightarrow> True
      | (RDoc av, RDoc bv) \<Rightarrow> json_norm av = json_norm bv
      | _ \<Rightarrow> False)"

definition add_action :: "action_type \<Rightarrow> string \<Rightarrow> definition_key \<Rightarrow> string \<Rightarrow> plan \<Rightarrow> plan" where
  "add_action t i key reason plan =
     plan\<lparr>plActions := plActions plan @ [\<lparr>acType = t, acResourceID = i, acKey = key, acReason = reason\<rparr>]\<rparr>"

definition add_request :: "request \<Rightarrow> plan \<Rightarrow> plan" where
  "add_request r plan = plan\<lparr>plDeployment := (plDeployment plan)\<lparr>dpRequests := dpRequests (plDeployment plan) @ [r]\<rparr>\<rparr>"

definition add_deletion :: "string \<Rightarrow> definition_key \<Rightarrow> plan \<Rightarrow> error + plan" where
  "add_deletion i key plan =
     (case NewReference i key of
        Inl e \<Rightarrow> Inl e
      | Inr r \<Rightarrow> Inr (plan\<lparr>plDeployment := AddDeletion (plDeployment plan) (refId r) (refKey r)\<rparr>))"

fun walk_desired :: "request list \<Rightarrow> rollout gomap \<Rightarrow> plan \<Rightarrow> error + rollout gomap \<times> plan" where
  "walk_desired [] current plan = Inr (current, plan)"
| "walk_desired (CreateRequest i subject key # reqs) current plan =
     (case map_of current i of
        None \<Rightarrow>
          walk_desired reqs current
            (add_request (CreateRequest i subject key) (add_action ActionCreate i key ''new resource'' plan))
      | Some existing \<Rightarrow>
          if \<not> bodyEqual subject (roBody existing) then
            (case add_deletion i key (add_action ActionUpdate i key ''configuration changed'' plan) of
               Inl e \<Rightarrow> Inl e
             | Inr plan' \<Rightarrow>
                 walk_desired reqs (gm_del i current) (add_request (CreateRequest i subject key) plan'))
          else walk_desired reqs (gm_del i current) (add_action ActionNoOp i key ''unchanged'' plan))"
| "walk_desired (_ # reqs) current plan = walk_desired reqs current plan"

fun destroy_orphans :: "string list \<Rightarrow> rollout gomap \<Rightarrow> plan \<Rightarrow> error + plan" where
  "destroy_orphans [] current plan = Inr plan"
| "destroy_orphans (i # ids) current plan =
     (let key = (case map_of current i of None \<Rightarrow> '''' | Some r \<Rightarrow> roInstanceKey r)
      in case add_deletion i key (add_action ActionDestroy i key ''orphaned resource'' plan) of
           Inl e \<Rightarrow> Inl e
         | Inr plan' \<Rightarrow> destroy_orphans ids current plan')"

definition ComputePlan :: "string \<Rightarrow> deployment \<Rightarrow> rollout list \<Rightarrow> condition_map \<Rightarrow> error + plan" where
  "ComputePlan uid desired currentRollouts conditions =
     (let current = gm_put_all (map (\<lambda>r. (roInstanceId r, r)) currentRollouts) [];
          plan = \<lparr>plActions = [], plDeployment = NewDeployment uid, plConditions = conditions\<rparr>
      in case walk_desired (dpRequests desired) current plan of
           Inl e \<Rightarrow> Inl e
         | Inr (current', plan') \<Rightarrow>
             (case destroy_orphans (sorted_keys current') current' plan' of
                Inl e \<Rightarrow> Inl e
              | Inr plan'' \<Rightarrow>
                  Inr (plan''\<lparr>plDeployment := (plDeployment plan'')
                    \<lparr>dpDependencies := dpDependencies desired, dpReferences := dpReferences desired\<rparr>\<rparr>)))"

definition Summary :: "plan \<Rightarrow> nat \<times> nat \<times> nat \<times> nat" where
  "Summary p =
     (let count = (\<lambda>t. length (filter (\<lambda>a. acType a = t) (plActions p)))
      in (count ActionCreate, count ActionUpdate, count ActionDestroy, count ActionNoOp))"

subsection \<open>What a plan should contain\<close>

text \<open>The reference definition: each desired resource is compared with the record of the same id,
  independently of the others; what is recorded and not desired is destroyed.\<close>

definition create_requests :: "deployment \<Rightarrow> request list" where
  "create_requests d = filter (\<lambda>r. GetType r = RequestTypeCreate) (dpRequests d)"

definition classify :: "(string \<Rightarrow> rollout option) \<Rightarrow> request \<Rightarrow> action" where
  "classify cur r =
     (case r of
        CreateRequest i b k \<Rightarrow>
          (case cur i of
             None \<Rightarrow> \<lparr>acType = ActionCreate, acResourceID = i, acKey = k, acReason = ''new resource''\<rparr>
           | Some x \<Rightarrow>
               if bodyEqual b (roBody x)
               then \<lparr>acType = ActionNoOp, acResourceID = i, acKey = k, acReason = ''unchanged''\<rparr>
               else \<lparr>acType = ActionUpdate, acResourceID = i, acKey = k, acReason = ''configuration changed''\<rparr>)
      | DeleteRequest i k \<Rightarrow> \<lparr>acType = ActionNoOp, acResourceID = i, acKey = k, acReason = ''''\<rparr>
      | StatusRequest i k \<Rightarrow> \<lparr>acType = ActionNoOp, acResourceID = i, acKey = k, acReason = ''''\<rparr>)"

definition requests_for :: "(string \<Rightarrow> rollout option) \<Rightarrow> request \<Rightarrow> request list" where
  "requests_for cur r =
     (case acType (classify cur r) of
        ActionCreate \<Rightarrow> [r]
      | ActionUpdate \<Rightarrow> [DeleteRequest (GetSubjectId r) (GetSubjectKey r), r]
      | _ \<Rightarrow> [])"

lemma classify_simps:
  "cur i = None \<Longrightarrow> classify cur (CreateRequest i b k) =
     \<lparr>acType = ActionCreate, acResourceID = i, acKey = k, acReason = ''new resource''\<rparr>"
  "cur i = Some x \<Longrightarrow> bodyEqual b (roBody x) \<Longrightarrow> classify cur (CreateRequest i b k) =
     \<lparr>acType = ActionNoOp, acResourceID = i, acKey = k, acReason = ''unchanged''\<rparr>"
  "cur i = Some x \<Longrightarrow> \<not> bodyEqual b (roBody x) \<Longrightarrow> classify cur (CreateRequest i b k) =
     \<lparr>acType = ActionUpdate, acResourceID = i, acKey = k, acReason = ''configuration changed''\<rparr>"
  by (simp_all add: classify_def)

lemma requests_for_simps:
  "cur i = None \<Longrightarrow> requests_for cur (CreateRequest i b k) = [CreateRequest i b k]"
  "cur i = Some x \<Longrightarrow> bodyEqual b (roBody x) \<Longrightarrow> requests_for cur (CreateRequest i b k) = []"
  "cur i = Some x \<Longrightarrow> \<not> bodyEqual b (roBody x) \<Longrightarrow>
     requests_for cur (CreateRequest i b k) = [DeleteRequest i k, CreateRequest i b k]"
  by (simp_all add: requests_for_def classify_simps)

definition destroy_action :: "(string \<Rightarrow> rollout option) \<Rightarrow> string \<Rightarrow> action" where
  "destroy_action cur i = \<lparr>acType = ActionDestroy, acResourceID = i, acKey = roInstanceKey (the (cur i)),
     acReason = ''orphaned resource''\<rparr>"

lemma gm_del_commute_get: "map_of (gm_del i m) j = (if j = i then None else map_of m j)"
  by simp

lemma add_deletion_ok: "i \<noteq> '''' \<Longrightarrow> add_deletion i key plan =
    Inr (add_request (DeleteRequest i key) plan)"
  by (simp add: add_deletion_def NewReference_def add_request_def AddDeletion_def)

definition extend_plan :: "plan \<Rightarrow> action list \<Rightarrow> request list \<Rightarrow> plan" where
  "extend_plan p as rs = p\<lparr>plActions := plActions p @ as,
     plDeployment := (plDeployment p)\<lparr>dpRequests := dpRequests (plDeployment p) @ rs\<rparr>\<rparr>"

lemma extend_plan_simps [simp]:
  "extend_plan (add_action t i k r p) as rs =
     extend_plan p (\<lparr>acType = t, acResourceID = i, acKey = k, acReason = r\<rparr> # as) rs"
  "extend_plan (add_request q p) as rs = extend_plan p as (q # rs)"
  "extend_plan p [] [] = p"
  by (simp_all add: extend_plan_def add_action_def add_request_def)

text \<open>Each request uses up the record of its id: a later request with that id finds none.\<close>

fun records_used :: "(string \<Rightarrow> rollout option) \<Rightarrow> request list \<Rightarrow> rollout option list" where
  "records_used cur [] = []"
| "records_used cur (r # rs) = cur (GetSubjectId r) # records_used (cur(GetSubjectId r := None)) rs"

lemma length_records_used [simp]: "length (records_used cur rs) = length rs"
  by (induction rs arbitrary: cur) simp_all

lemma records_used_nth:
  "k < length rs \<Longrightarrow> records_used cur rs ! k =
     (if GetSubjectId (rs ! k) \<in> GetSubjectId ` set (take k rs) then None else cur (GetSubjectId (rs ! k)))"
proof (induction rs arbitrary: cur k)
  case (Cons r rs)
  then show ?case by (cases k) auto
qed simp

definition classify_one :: "request \<times> rollout option \<Rightarrow> action" where
  "classify_one rx = classify (\<lambda>_. snd rx) (fst rx)"

definition requests_one :: "request \<times> rollout option \<Rightarrow> request list" where
  "requests_one rx = requests_for (\<lambda>_. snd rx) (fst rx)"

lemma one_at: "classify_one (r, x) = classify (\<lambda>_. x) r" "requests_one (r, x) = requests_for (\<lambda>_. x) r"
  by (simp_all add: classify_one_def requests_one_def)

lemma one_simps:
  "classify_one (r, cur (GetSubjectId r)) = classify cur r" "requests_one (r, cur (GetSubjectId r)) = requests_for cur r"
  by (cases r; simp add: classify_one_def requests_one_def classify_def requests_for_def)+

abbreviation wanted_requests :: "request list \<Rightarrow> request list" where
  "wanted_requests reqs \<equiv> filter (\<lambda>r. GetType r = RequestTypeCreate) reqs"

lemma walk_desired_general:
  assumes "gm_ok cur" and "\<forall>r \<in> set reqs. GetSubjectId r \<noteq> ''''"
  shows "\<exists>cur'. walk_desired reqs cur p =
      Inr (cur', extend_plan p (map classify_one (zip (wanted_requests reqs) (records_used (map_of cur) (wanted_requests reqs))))
        (concat (map requests_one (zip (wanted_requests reqs) (records_used (map_of cur) (wanted_requests reqs)))))) \<and>
    gm_ok cur' \<and> (\<forall>j. map_of cur' j = (if j \<in> GetSubjectId ` set (wanted_requests reqs) then None else map_of cur j))"
  using assms
proof (induction reqs cur p rule: walk_desired.induct)
  case (2 i b k reqs cur p)
  have i: "i \<noteq> ''''" and nn: "\<forall>r \<in> set reqs. GetSubjectId r \<noteq> ''''" using 2(5) by auto
  show ?case
  proof (cases "map_of cur i")
    case None
    then have d: "(map_of cur)(i := None) = map_of cur" by (simp add: fun_upd_idem)
    from 2(1) [OF None 2(4) nn] obtain c where
      "walk_desired reqs cur (add_request (CreateRequest i b k) (add_action ActionCreate i k ''new resource'' p)) =
        Inr (c, extend_plan (add_request (CreateRequest i b k) (add_action ActionCreate i k ''new resource'' p))
          (map classify_one (zip (wanted_requests reqs) (records_used (map_of cur) (wanted_requests reqs))))
          (concat (map requests_one (zip (wanted_requests reqs) (records_used (map_of cur) (wanted_requests reqs))))))"
      "gm_ok c" "\<forall>j. map_of c j = (if j \<in> GetSubjectId ` set (wanted_requests reqs) then None else map_of cur j)" by blast
    moreover have "records_used (map_of cur) (CreateRequest i b k # rs) = None # records_used (map_of cur) rs" for rs
      using None d by (simp del: fun_upd_apply)
    ultimately show ?thesis using None
      by (intro exI [of _ c]) (auto simp del: records_used.simps simp: one_at classify_simps requests_for_simps)
  next
    case (Some x)
    have g: "map_of (gm_del i cur) = (map_of cur)(i := None)" by (rule ext) simp
    show ?thesis
    proof (cases "bodyEqual b (roBody x)")
      case True
      from 2(3) [OF Some _ gm_ok_del [OF 2(4)] nn] True obtain c where
        "walk_desired reqs (gm_del i cur) (add_action ActionNoOp i k ''unchanged'' p) =
          Inr (c, extend_plan (add_action ActionNoOp i k ''unchanged'' p)
            (map classify_one (zip (wanted_requests reqs) (records_used ((map_of cur)(i := None)) (wanted_requests reqs))))
            (concat (map requests_one (zip (wanted_requests reqs) (records_used ((map_of cur)(i := None)) (wanted_requests reqs))))))"
        "gm_ok c" "\<forall>j. map_of c j = (if j \<in> GetSubjectId ` set (wanted_requests reqs) then None else ((map_of cur)(i := None)) j)" unfolding g by blast
      with Some True show ?thesis
        by (intro exI [of _ c]) (auto simp: one_at classify_simps requests_for_simps)
    next
      case False
      let ?p = "add_request (DeleteRequest i k) (add_action ActionUpdate i k ''configuration changed'' p)"
      from 2(2) [OF Some False add_deletion_ok [OF i] gm_ok_del [OF 2(4)] nn] obtain c where
        "walk_desired reqs (gm_del i cur) (add_request (CreateRequest i b k) ?p) =
          Inr (c, extend_plan (add_request (CreateRequest i b k) ?p)
            (map classify_one (zip (wanted_requests reqs) (records_used ((map_of cur)(i := None)) (wanted_requests reqs))))
            (concat (map requests_one (zip (wanted_requests reqs) (records_used ((map_of cur)(i := None)) (wanted_requests reqs))))))"
        "gm_ok c" "\<forall>j. map_of c j = (if j \<in> GetSubjectId ` set (wanted_requests reqs) then None else ((map_of cur)(i := None)) j)" unfolding g by blast
      with Some False i show ?thesis
        by (intro exI [of _ c]) (auto simp: one_at classify_simps requests_for_simps add_deletion_ok)
    qed
  qed
qed simp_all


lemma destroy_orphans_spec:
  assumes "\<forall>i \<in> set ids. i \<noteq> '''' \<and> map_of cur i \<noteq> None"
  shows "destroy_orphans ids cur p = Inr (extend_plan p (map (destroy_action (map_of cur)) ids)
    (map (\<lambda>i. DeleteRequest i (roInstanceKey (the (map_of cur i)))) ids))"
  using assms
proof (induction ids arbitrary: p)
  case (Cons i ids)
  then obtain r where "map_of cur i = Some r" by auto
  with Cons show ?case by (simp add: add_deletion_ok destroy_action_def Let_def)
qed simp

definition recorded :: "rollout list \<Rightarrow> string \<Rightarrow> rollout option" where
  "recorded rollouts = map_of (map (\<lambda>r. (roInstanceId r, r)) rollouts)"

definition orphans :: "deployment \<Rightarrow> rollout list \<Rightarrow> string list" where
  "orphans desired rollouts =
     sort_strings (filter (\<lambda>i. i \<notin> GetSubjectId ` set (create_requests desired)) (map roInstanceId rollouts))"

definition plan_inputs_ok :: "deployment \<Rightarrow> rollout list \<Rightarrow> bool" where
  "plan_inputs_ok desired rollouts \<longleftrightarrow>
     distinct (map GetSubjectId (create_requests desired)) \<and> (\<forall>r \<in> set (dpRequests desired). GetSubjectId r \<noteq> '''') \<and>
     distinct (map roInstanceId rollouts) \<and> (\<forall>r \<in> set rollouts. roInstanceId r \<noteq> '''')"

lemma recorded_None: "recorded rollouts i = None \<longleftrightarrow> i \<notin> roInstanceId ` set rollouts"
  by (simp add: recorded_def map_of_eq_None_iff image_image)

text \<open>Records of which several have one id: the last counts.\<close>

definition latest :: "rollout list \<Rightarrow> string \<Rightarrow> rollout option" where
  "latest rollouts = map_of (rev (map (\<lambda>r. (roInstanceId r, r)) rollouts))"

lemma latest_None: "latest rollouts i = None \<longleftrightarrow> i \<notin> roInstanceId ` set rollouts"
  by (simp add: latest_def map_of_eq_None_iff image_image)

definition unwanted :: "deployment \<Rightarrow> rollout list \<Rightarrow> string list" where
  "unwanted desired rollouts =
     sort_strings (remdups (filter (\<lambda>i. i \<notin> GetSubjectId ` set (create_requests desired)) (map roInstanceId rollouts)))"

definition record_for :: "deployment \<Rightarrow> rollout list \<Rightarrow> nat \<Rightarrow> rollout option" where
  "record_for desired rollouts k =
     (let cs = create_requests desired; i = GetSubjectId (cs ! k)
      in if i \<in> GetSubjectId ` set (take k cs) then None else latest rollouts i)"

lemma zip_records:
  "map f (zip (create_requests desired) (records_used (latest rollouts) (create_requests desired))) =
   map (\<lambda>k. f (create_requests desired ! k, record_for desired rollouts k)) [0..<length (create_requests desired)]"
  by (rule nth_equalityI) (simp_all add: records_used_nth record_for_def Let_def)

lemma plan_general:
  assumes "\<forall>r \<in> set (dpRequests desired). GetSubjectId r \<noteq> ''''" and "\<forall>r \<in> set rollouts. roInstanceId r \<noteq> ''''"
  shows "ComputePlan uid desired rollouts conditions = Inr \<lparr>
      plActions = map (\<lambda>k. classify_one (create_requests desired ! k, record_for desired rollouts k)) [0..<length (create_requests desired)] @
        map (destroy_action (latest rollouts)) (unwanted desired rollouts),
      plDeployment = \<lparr>dpId = uid,
        dpRequests = concat (map (\<lambda>k. requests_one (create_requests desired ! k, record_for desired rollouts k)) [0..<length (create_requests desired)]) @
          map (\<lambda>i. DeleteRequest i (roInstanceKey (the (latest rollouts i)))) (unwanted desired rollouts),
        dpDependencies = dpDependencies desired, dpDepending = [], dpReferences = dpReferences desired\<rparr>,
      plConditions = conditions\<rparr>"
proof -
  let ?cur = "gm_put_all (map (\<lambda>r. (roInstanceId r, r)) rollouts) []"
  let ?p = "\<lparr>plActions = [], plDeployment = NewDeployment uid, plConditions = conditions\<rparr>"
  have cur: "map_of ?cur = latest rollouts" by (simp add: map_of_put_all latest_def)
  obtain c where c: "walk_desired (dpRequests desired) ?cur ?p = Inr (c, extend_plan ?p
      (map (\<lambda>k. classify_one (create_requests desired ! k, record_for desired rollouts k)) [0..<length (create_requests desired)])
      (concat (map (\<lambda>k. requests_one (create_requests desired ! k, record_for desired rollouts k)) [0..<length (create_requests desired)])))"
    "gm_ok c" "\<forall>i. map_of c i = (if i \<in> GetSubjectId ` set (create_requests desired) then None else latest rollouts i)"
    using walk_desired_general [of ?cur "dpRequests desired" ?p, unfolded cur, folded create_requests_def, unfolded zip_records] assms(1)
    by auto
  have keys: "set (gm_keys c) = set (unwanted desired rollouts)"
  proof (rule set_eqI)
    fix i
    have "i \<in> set (gm_keys c) \<longleftrightarrow> map_of c i \<noteq> None" by (simp only: gm_keys_None [symmetric] not_not)
    also have "\<dots> \<longleftrightarrow> i \<notin> GetSubjectId ` set (create_requests desired) \<and> latest rollouts i \<noteq> None"
      by (simp add: c(3) [rule_format])
    also have "\<dots> \<longleftrightarrow> i \<in> set (unwanted desired rollouts)" unfolding latest_None unwanted_def by auto
    finally show "i \<in> set (gm_keys c) \<longleftrightarrow> i \<in> set (unwanted desired rollouts)" .
  qed
  have sk: "sorted_keys c = unwanted desired rollouts"
    using keys sorted_keys_set [OF c(2)] by (simp add: unwanted_def sort_strings_set)
  have same: "map_of c i = latest rollouts i" if "i \<in> set (unwanted desired rollouts)" for i
    using that by (simp add: c(3) [rule_format] unwanted_def)
  have ne: "i \<noteq> '''' \<and> map_of c i \<noteq> None" if o: "i \<in> set (unwanted desired rollouts)" for i
  proof -
    have i: "i \<in> roInstanceId ` set rollouts" using o by (auto simp: unwanted_def)
    then have "latest rollouts i \<noteq> None" by (simp only: latest_None not_not)
    with i assms(2) same [OF o] show ?thesis by auto
  qed
  then have "\<forall>i \<in> set (unwanted desired rollouts). i \<noteq> '''' \<and> map_of c i \<noteq> None" by blast
  note d = destroy_orphans_spec [OF this]
  have eqs: "map (destroy_action (map_of c)) (unwanted desired rollouts) = map (destroy_action (latest rollouts)) (unwanted desired rollouts)"
    "map (\<lambda>i. DeleteRequest i (roInstanceKey (the (map_of c i)))) (unwanted desired rollouts) =
     map (\<lambda>i. DeleteRequest i (roInstanceKey (the (latest rollouts i)))) (unwanted desired rollouts)"
    using same by (simp_all add: destroy_action_def)
  show ?thesis
    unfolding ComputePlan_def Let_def c(1) sum.case prod.case sk d eqs
    by (simp add: extend_plan_def NewDeployment_def)
qed

lemma latest_recorded: "distinct (map roInstanceId rollouts) \<Longrightarrow> latest rollouts = recorded rollouts"
  using map_of_rev_ok [of "map (\<lambda>r. (roInstanceId r, r)) rollouts"] by (simp add: latest_def recorded_def gm_ok_def comp_def)

lemma plan_spec:
  assumes "plan_inputs_ok desired rollouts"
  shows "ComputePlan uid desired rollouts conditions = Inr \<lparr>
      plActions = map (classify (recorded rollouts)) (create_requests desired) @
        map (destroy_action (recorded rollouts)) (orphans desired rollouts),
      plDeployment = \<lparr>dpId = uid,
        dpRequests = concat (map (requests_for (recorded rollouts)) (create_requests desired)) @
          map (\<lambda>i. DeleteRequest i (roInstanceKey (the (recorded rollouts i)))) (orphans desired rollouts),
        dpDependencies = dpDependencies desired, dpDepending = [], dpReferences = dpReferences desired\<rparr>,
      plConditions = conditions\<rparr>"
proof -
  let ?cs = "create_requests desired"
  note ok = assms [unfolded plan_inputs_ok_def]
  have l: "latest rollouts = recorded rollouts" by (rule latest_recorded) (use ok in blast)
  have f: "record_for desired rollouts k = recorded rollouts (GetSubjectId (?cs ! k))" if k: "k < length ?cs" for k
  proof -
    have "GetSubjectId (?cs ! k) \<notin> GetSubjectId ` set (take k ?cs)"
    proof
      assume "GetSubjectId (?cs ! k) \<in> GetSubjectId ` set (take k ?cs)"
      then obtain j where "j < k" "GetSubjectId (?cs ! j) = GetSubjectId (?cs ! k)" by (auto simp: in_set_conv_nth)
      then show False using k ok nth_eq_iff_index_eq [of "map GetSubjectId ?cs" j k] by simp
    qed
    then show ?thesis by (simp add: record_for_def l)
  qed
  have m: "map (\<lambda>k. classify_one (?cs ! k, record_for desired rollouts k)) [0..<length ?cs] = map (classify (recorded rollouts)) ?cs"
    "map (\<lambda>k. requests_one (?cs ! k, record_for desired rollouts k)) [0..<length ?cs] = map (requests_for (recorded rollouts)) ?cs"
    by (rule nth_equalityI; simp add: f one_simps)+
  have u: "unwanted desired rollouts = orphans desired rollouts"
    using ok by (simp add: unwanted_def orphans_def distinct_remdups_id distinct_map_filter)
  have "\<forall>r \<in> set (dpRequests desired). GetSubjectId r \<noteq> ''''" "\<forall>r \<in> set rollouts. roInstanceId r \<noteq> ''''" using ok by auto
  from plan_general [OF this, of uid conditions] show ?thesis unfolding m u l .
qed

subsection \<open>Several requests with one id\<close>

lemma walk_append:
  "walk_desired (xs @ ys) cur p =
     (case walk_desired xs cur p of Inl e \<Rightarrow> Inl e | Inr (cur', p') \<Rightarrow> walk_desired ys cur' p')"
  by (induction xs cur p rule: walk_desired.induct) (auto split: option.splits sum.splits)

lemma walk_absent:
  "walk_desired reqs cur p = Inr (cur', p') \<Longrightarrow> map_of cur i = None \<Longrightarrow> map_of cur' i = None"
  by (induction reqs cur p rule: walk_desired.induct) (auto split: option.splits sum.splits if_splits)

lemma add_deletion_actions: "add_deletion i k p = Inr p' \<Longrightarrow> plActions p' = plActions p"
  by (auto simp: add_deletion_def split: sum.splits)

lemma plan_actions_simps [simp]:
  "plActions (add_action t i k r p) = plActions p @ [\<lparr>acType = t, acResourceID = i, acKey = k, acReason = r\<rparr>]"
  "plActions (add_request q p) = plActions p"
  by (simp_all add: add_action_def add_request_def)

lemma walk_actions:
  "walk_desired reqs cur p = Inr (cur', p') \<Longrightarrow> set (plActions p) \<subseteq> set (plActions p')"
proof (induction reqs cur p rule: walk_desired.induct)
  case (2 i b k reqs cur p)
  show ?case
  proof (cases "map_of cur i")
    case None
    with 2(1) [OF None] 2(4) show ?thesis by simp
  next
    case (Some x)
    show ?thesis
    proof (cases "bodyEqual b (roBody x)")
      case True
      with 2(3) [OF Some] 2(4) Some show ?thesis by simp
    next
      case False
      with Some 2(4) obtain q where q: "add_deletion i k (add_action ActionUpdate i k ''configuration changed'' p) = Inr q"
        and w: "walk_desired reqs (gm_del i cur) (add_request (CreateRequest i b k) q) = Inr (cur', p')"
        by (auto split: sum.splits)
      from 2(2) [OF Some False q w] add_deletion_actions [OF q] show ?thesis by simp
    qed
  qed
qed auto

lemma destroy_actions:
  "destroy_orphans ids cur p = Inr p' \<Longrightarrow> set (plActions p) \<subseteq> set (plActions p')"
proof (induction ids cur p rule: destroy_orphans.induct)
  case (2 i ids cur p)
  then show ?case
    by (fastforce simp: Let_def split: sum.splits dest!: add_deletion_actions)
qed simp

lemma create_request_shape: "GetType r = RequestTypeCreate \<Longrightarrow> \<exists>i b k. r = CreateRequest i b k"
  by (cases r) auto

subsection \<open>Properties\<close>

text \<open>C4: The plan is the difference between the desired deployment and the records.  The desired resources are
  taken in the order of the deployment, and each is compared with the last record of its id, unless an earlier
  desired resource has the same id and has used that record up: without a record it is created, with an equal body
  left alone, otherwise deleted and created.  Then exactly the recorded ids that are not desired are destroyed, in sorted
  order.  This holds for all deployments and records whose ids are not empty; links and conditions are passed on.\<close>

theorem ComputePlan_spec:
  assumes "\<forall>r \<in> set (dpRequests desired). GetSubjectId r \<noteq> ''''" and "\<forall>r \<in> set rollouts. roInstanceId r \<noteq> ''''"
  shows "\<exists>p. ComputePlan uid desired rollouts conditions = Inr p \<and>
    plActions p = map (\<lambda>k. classify (\<lambda>_. record_for desired rollouts k) (create_requests desired ! k)) [0..<length (create_requests desired)] @
      map (destroy_action (latest rollouts)) (unwanted desired rollouts) \<and>
    dpRequests (plDeployment p) =
      concat (map (\<lambda>k. requests_for (\<lambda>_. record_for desired rollouts k) (create_requests desired ! k)) [0..<length (create_requests desired)]) @
      map (\<lambda>i. DeleteRequest i (roInstanceKey (the (latest rollouts i)))) (unwanted desired rollouts) \<and>
    dpDependencies (plDeployment p) = dpDependencies desired \<and> plConditions p = conditions"
  by (subst plan_general [OF assms]) (simp add: one_at)

text \<open>Planning converges: when every desired resource is recorded with an equal body and nothing
  else is recorded, the plan has no requests and all its actions are no-ops.\<close>

theorem ComputePlan_converged:
  assumes "plan_inputs_ok desired rollouts"
    and "\<forall>i b k. CreateRequest i b k \<in> set (dpRequests desired) \<longrightarrow>
      (\<exists>r. recorded rollouts i = Some r \<and> bodyEqual b (roBody r))"
    and "roInstanceId ` set rollouts \<subseteq> GetSubjectId ` set (create_requests desired)"
  shows "\<exists>p. ComputePlan uid desired rollouts conditions = Inr p \<and> dpRequests (plDeployment p) = [] \<and>
    Summary p = (0, 0, 0, length (create_requests desired))"
proof -
  have noop: "acType (classify (recorded rollouts) r) = ActionNoOp" "requests_for (recorded rollouts) r = []"
    if "r \<in> set (create_requests desired)" for r
  proof -
    from that obtain i b k where r: "r = CreateRequest i b k" "CreateRequest i b k \<in> set (dpRequests desired)"
      using create_request_shape [of r] by (auto simp: create_requests_def)
    with assms(2) obtain x where "recorded rollouts i = Some x" "bodyEqual b (roBody x)" by blast
    then show "acType (classify (recorded rollouts) r) = ActionNoOp" "requests_for (recorded rollouts) r = []"
      by (simp_all add: r classify_simps requests_for_simps)
  qed
  have "set (orphans desired rollouts) = {}" using assms(3) by (auto simp: orphans_def)
  then have o: "orphans desired rollouts = []" by (simp only: set_empty)
  have cnt: "length (filter (\<lambda>a. acType a = t) (map (classify (recorded rollouts)) (create_requests desired))) =
      (if t = ActionNoOp then length (create_requests desired) else 0)" for t
    using noop(1) by (auto simp: filter_map comp_def filter_id_conv filter_empty_conv)
  have "concat (map (requests_for (recorded rollouts)) (create_requests desired)) = []" using noop(2) by simp
  with plan_spec [OF assms(1), of uid conditions] o have
    e: "ComputePlan uid desired rollouts conditions = Inr \<lparr>plActions = map (classify (recorded rollouts)) (create_requests desired),
      plDeployment = \<lparr>dpId = uid, dpRequests = [], dpDependencies = dpDependencies desired, dpDepending = [],
        dpReferences = dpReferences desired\<rparr>, plConditions = conditions\<rparr>" by simp
  have "Summary \<lparr>plActions = map (classify (recorded rollouts)) (create_requests desired), plDeployment = D, plConditions = conditions\<rparr> =
      (0, 0, 0, length (create_requests desired))" for D
    unfolding Summary_def Let_def plan.simps cnt by simp
  with e show ?thesis by simp
qed

text \<open>Two desired resources with the same id are never settled: whatever is recorded, the plan
  wanted_requests one of them again.  The ids of different kinds of resources do coincide (a project and
  its network; a volume and a service of the same name).\<close>

theorem ComputePlan_duplicate_id:
  assumes "dpRequests desired = xs @ CreateRequest i b k # ys @ CreateRequest i b' k' # zs"
    and "ComputePlan uid desired rollouts conditions = Inr p"
  shows "\<exists>a \<in> set (plActions p). acType a = ActionCreate \<and> acResourceID a = i"
proof -
  let ?cur = "gm_put_all (map (\<lambda>r. (roInstanceId r, r)) rollouts) []"
  let ?p = "\<lparr>plActions = [], plDeployment = NewDeployment uid, plConditions = conditions\<rparr>"
  from assms(2) obtain c1 p1 p2 where w: "walk_desired (dpRequests desired) ?cur ?p = Inr (c1, p1)"
    and d: "destroy_orphans (sorted_keys c1) c1 p1 = Inr p2" and p: "plActions p = plActions p2"
    by (auto simp: ComputePlan_def Let_def split: sum.splits)
  let ?l = "xs @ [CreateRequest i b k]" and ?r = "CreateRequest i b' k'"
  have split: "dpRequests desired = ?l @ ys @ ?r # zs" using assms(1) by simp
  from w obtain ca pa cb pb where a: "walk_desired ?l ?cur ?p = Inr (ca, pa)"
    and b: "walk_desired ys ca pa = Inr (cb, pb)" and r: "walk_desired (?r # zs) cb pb = Inr (c1, p1)"
    unfolding split walk_append [of ?l] walk_append [of ys] by (auto split: sum.splits)
  have "map_of ca i = None"
    using a by (auto simp: walk_append split: sum.splits option.splits if_splits)
  with b have "map_of cb i = None" by (rule walk_absent)
  with r have "walk_desired zs cb (add_request ?r (add_action ActionCreate i k' ''new resource'' pb)) = Inr (c1, p1)" by simp
  from walk_actions [OF this] destroy_actions [OF d] p
  have "\<lparr>acType = ActionCreate, acResourceID = i, acKey = k', acReason = ''new resource''\<rparr> \<in> set (plActions p)" by auto
  then show ?thesis by (rule rev_bexI) simp
qed

definition web_rollout :: rollout where
  "web_rollout = \<lparr>roInstanceId = ''p/web'', roInstanceKey = ''g/v1/W'', roBody = RDoc (JObj [(''a'', JNum 1), (''b'', JNum 2)]),
     roMessages = [], roErrors = [], roStatus = None\<rparr>"

definition web_desired :: deployment where
  "web_desired = (NewDeployment ''d'')\<lparr>dpRequests :=
     [CreateRequest ''p/web'' (RDoc (JObj [(''b'', JNum 2), (''a'', JNum 1)])) ''g/v1/W'']\<rparr>"

lemma web_inputs_ok: "plan_inputs_ok web_desired [web_rollout]" "plan_inputs_ok web_desired [web_rollout\<lparr>roInstanceId := ''p/old''\<rparr>]"
  by (simp_all add: plan_inputs_ok_def web_desired_def web_rollout_def NewDeployment_def create_requests_def)

theorem ComputePlan_spec_witness:
  "\<exists>p. ComputePlan ''u'' web_desired [web_rollout\<lparr>roInstanceId := ''p/old''\<rparr>] [] = Inr p \<and>
     dpRequests (plDeployment p) = [CreateRequest ''p/web'' (RDoc (JObj [(''b'', JNum 2), (''a'', JNum 1)])) ''g/v1/W'',
       DeleteRequest ''p/old'' ''g/v1/W'']"
  using ComputePlan_spec [of web_desired "[web_rollout\<lparr>roInstanceId := ''p/old''\<rparr>]" "''u''" "[]"]
  by (auto simp: web_desired_def web_rollout_def NewDeployment_def create_requests_def latest_def record_for_def
      requests_for_simps unwanted_def sort_strings_def)

theorem ComputePlan_converged_witness:
  "\<exists>p. ComputePlan ''u'' web_desired [web_rollout] [] = Inr p \<and> dpRequests (plDeployment p) = [] \<and> Summary p = (0, 0, 0, 1)"
proof -
  have "json_norm (JObj [(''b'', JNum 2), (''a'', JNum 1)]) = json_norm (JObj [(''a'', JNum 1), (''b'', JNum 2)])"
    by (rule json_norm_perm) simp_all
  then have "\<exists>p. ComputePlan ''u'' web_desired [web_rollout] [] = Inr p \<and> dpRequests (plDeployment p) = [] \<and>
      Summary p = (0, 0, 0, length (create_requests web_desired))"
    by (intro ComputePlan_converged [OF web_inputs_ok(1)])
      (simp_all add: web_desired_def web_rollout_def NewDeployment_def create_requests_def recorded_def bodyEqual_def del: json_norm.simps)
  then show ?thesis by (simp add: web_desired_def NewDeployment_def create_requests_def)
qed

theorem ComputePlan_duplicate_id_witness:
  "\<exists>p. ComputePlan ''u'' (web_desired\<lparr>dpRequests := [CreateRequest ''p'' RNil ''Project'', CreateRequest ''p'' RNil ''Network'']\<rparr>)
     [web_rollout\<lparr>roInstanceId := ''p'', roBody := RNil\<rparr>] [] = Inr p \<and>
     (\<exists>a \<in> set (plActions p). acType a = ActionCreate \<and> acResourceID a = ''p'')"
proof -
  let ?d = "web_desired\<lparr>dpRequests := [CreateRequest ''p'' RNil ''Project'', CreateRequest ''p'' RNil ''Network'']\<rparr>"
  have "\<exists>p. ComputePlan ''u'' ?d [web_rollout\<lparr>roInstanceId := ''p'', roBody := RNil\<rparr>] [] = Inr p"
    by (simp add: ComputePlan_def web_desired_def NewDeployment_def web_rollout_def bodyEqual_def gm_put_def gm_del_def
        sorted_keys_def sort_strings_def Let_def)
  then show ?thesis
    using ComputePlan_duplicate_id [of ?d "[]" "''p''" RNil "''Project''" "[]" RNil "''Network''" "[]"] by auto
qed

end
