(* ===== verification/Topo_Sort.thy ===== *)
theory Topo_Sort
  imports Deploy
begin

text \<open>
  The ordering of a batch of requests in \<open>src/pkg/orchestrate/apply.go\<close>: \<open>splitRequests\<close>,
  \<open>topoSortRequests\<close> and its helpers.  A request that is looked up in \<open>reqSet\<close> is always there;
  the default of \<open>gm_get\<close> stands for the nil interface value and is never used.
\<close>

subsection \<open>The code\<close>

definition splitRequests :: "request list \<Rightarrow> request list \<times> request list" where
  "splitRequests requests =
     (filter (\<lambda>r. GetType r = RequestTypeDelete) requests, filter (\<lambda>r. GetType r = RequestTypeCreate) requests)"

definition buildRequestSet :: "request list \<Rightarrow> request gomap" where
  "buildRequestSet requests = fold (\<lambda>r m. gm_put (GetSubjectId r) r m) requests []"

fun add_batch_link :: "request gomap \<Rightarrow> link \<Rightarrow> int gomap \<times> string list gomap \<Rightarrow> int gomap \<times> string list gomap" where
  "add_batch_link reqSet l (inDegree, adjacency) =
     (let sourceID = refId (lkSource l); targetID = refId (lkTarget l)
      in if \<not> gm_has reqSet sourceID then (inDegree, adjacency)
         else if \<not> gm_has reqSet targetID then (inDegree, adjacency)
         else (gm_put sourceID (gm_get 0 inDegree sourceID + 1) inDegree,
               gm_put targetID (gm_get [] adjacency targetID @ [sourceID]) adjacency))"

definition buildGraph :: "request gomap \<Rightarrow> link list \<Rightarrow> int gomap \<times> string list gomap" where
  "buildGraph reqSet ls = fold (add_batch_link reqSet) ls (map (\<lambda>i. (i, 0)) (gm_keys reqSet), [])"

fun visit_neighbors :: "string list \<Rightarrow> int gomap \<times> string list \<Rightarrow> int gomap \<times> string list" where
  "visit_neighbors [] (inDegree, queue) = (inDegree, queue)"
| "visit_neighbors (n # ns) (inDegree, queue) =
     (let inDegree' = gm_put n (gm_get 0 inDegree n - 1) inDegree
      in visit_neighbors ns (inDegree',
           if gm_get 0 inDegree' n = 0 then sort_strings (queue @ [n]) else queue))"

definition positives :: "int gomap \<Rightarrow> string set" where
  "positives m = {k \<in> set (gm_keys m). gm_get 0 m k > 0}"

lemma gm_get_missing: "k \<notin> set (gm_keys m) \<Longrightarrow> gm_get z m k = z"
  by (simp add: gm_get_def gm_keys_None)

lemma visit_measure:
  "visit_neighbors ns (m, q) = (m', q') \<Longrightarrow> 2 * card (positives m') + length q' \<le> 2 * card (positives m) + length q"
proof (induction ns arbitrary: m q)
  case (Cons n ns)
  let ?m = "gm_put n (gm_get 0 m n - 1) m"
  have fin: "finite (positives x)" for x by (simp add: positives_def)
  have sub: "positives ?m \<subseteq> positives m"
    using gm_get_missing [of n m 0] by (auto simp: positives_def gm_get_put split: if_splits) (metis less_irrefl zero_less_one)+
  show ?case
  proof (cases "gm_get 0 ?m n = 0")
    case True
    then have "n \<in> positives m - positives ?m"
      using gm_get_missing [of n m 0] by (auto simp: positives_def gm_get_put)
    with sub have "positives ?m \<subset> positives m" by blast
    then have "card (positives ?m) < card (positives m)" using fin by (rule psubset_card_mono [rotated])
    with Cons True show ?thesis by (fastforce simp: Let_def)
  next
    case False
    have "card (positives ?m) \<le> card (positives m)" using fin sub by (rule card_mono)
    with Cons False show ?thesis by (fastforce simp: Let_def)
  qed
qed simp

function kahn_loop :: "request gomap \<Rightarrow> string list gomap \<Rightarrow> string list \<Rightarrow> int gomap \<Rightarrow> request list \<Rightarrow> request list" where
  "kahn_loop reqSet adjacency [] inDegree sortd = sortd"
| "kahn_loop reqSet adjacency (i # queue) inDegree sortd =
     (case visit_neighbors (sort_strings (gm_get [] adjacency i)) (inDegree, queue) of
        (inDegree', queue') \<Rightarrow>
          kahn_loop reqSet adjacency queue' inDegree'
            (sortd @ [gm_get (StatusRequest '''' '''') reqSet i]))"
  by pat_completeness auto
termination
proof (relation "measure (\<lambda>(R, A, q, m, s). 2 * card (positives m) + length q)", goal_cases)
  case (2 R A i q m s m' q')
  have "2 * card (positives m') + length q' \<le> 2 * card (positives m) + length q"
    by (rule visit_measure [OF 2(1) [symmetric]])
  then show ?case by simp
qed simp

definition kahnSort :: "request gomap \<Rightarrow> int gomap \<Rightarrow> string list gomap \<Rightarrow> request list" where
  "kahnSort reqSet inDegree adjacency =
     kahn_loop reqSet adjacency
       (sort_strings (gm_keys (filter (\<lambda>(i, deg). deg = 0) inDegree))) inDegree []"

definition appendCycleOrphans :: "request list \<Rightarrow> request list \<Rightarrow> request list" where
  "appendCycleOrphans sortd requests =
     (if length sortd \<ge> length requests then sortd
      else sortd @ filter (\<lambda>r. GetSubjectId r \<notin> GetSubjectId ` set sortd) requests)"

definition reverseSlice :: "'a list \<Rightarrow> 'a list" where
  "reverseSlice s = rev s"

definition topoSortRequests :: "request list \<Rightarrow> link list \<Rightarrow> bool \<Rightarrow> request list" where
  "topoSortRequests requests ls reverse =
     (if length requests = 0 then []
      else let reqSet = buildRequestSet requests;
               (inDegree, adjacency) = buildGraph reqSet ls;
               sortd = appendCycleOrphans (kahnSort reqSet inDegree adjacency) requests
           in if reverse then reverseSlice sortd else sortd)"

subsection \<open>The graph\<close>

definition batch_edges :: "string set \<Rightarrow> link list \<Rightarrow> (string \<times> string) list" where
  "batch_edges K ls = filter (\<lambda>(s, t). s \<in> K \<and> t \<in> K) (map (\<lambda>l. (refId (lkSource l), refId (lkTarget l))) ls)"

definition sources_of :: "(string \<times> string) list \<Rightarrow> string \<Rightarrow> string list" where
  "sources_of es t = map fst (filter (\<lambda>e. snd e = t) es)"

definition degree :: "(string \<times> string) list \<Rightarrow> string set \<Rightarrow> string \<Rightarrow> nat" where
  "degree es D k = length (filter (\<lambda>e. fst e = k \<and> snd e \<notin> D) es)"

declare add_batch_link.simps [simp del]

lemma degree_Cons: "degree ((s, t) # es) D k = (if s = k \<and> t \<notin> D then Suc (degree es D k) else degree es D k)"
  by (simp add: degree_def)

lemma sources_Cons: "sources_of ((s, t) # es) i = (if t = i then s # sources_of es i else sources_of es i)"
  by (simp add: sources_of_def)

lemma gm_keys_zero [simp]: "gm_keys (map (\<lambda>i. (i, z)) xs) = xs"
  by (simp add: gm_keys_def comp_def)

lemma gm_get_zero [simp]: "gm_get z (map (\<lambda>i. (i, z)) xs) k = z"
  by (induction xs) (auto simp: gm_get_def split: option.splits)

lemma build_fold:
  assumes "set (gm_keys m) = set (gm_keys R)" and "gm_ok m"
  shows "case fold (add_batch_link R) ls (m, a) of (m', a') \<Rightarrow>
    gm_ok m' \<and> set (gm_keys m') = set (gm_keys R) \<and>
    (\<forall>k. gm_get 0 m' k = gm_get 0 m k + int (degree (batch_edges (set (gm_keys R)) ls) {} k)) \<and>
    (\<forall>t. gm_get [] a' t = gm_get [] a t @ sources_of (batch_edges (set (gm_keys R)) ls) t)"
  using assms
proof (induction ls arbitrary: m a)
  case Nil
  then show ?case by (simp add: batch_edges_def degree_def sources_of_def)
next
  case (Cons l ls)
  let ?s = "refId (lkSource l)" and ?t = "refId (lkTarget l)" and ?K = "set (gm_keys R)"
  show ?case
  proof (cases "?s \<in> ?K \<and> ?t \<in> ?K")
    case True
    let ?m = "gm_put ?s (gm_get 0 m ?s + 1) m" and ?a = "gm_put ?t (gm_get [] a ?t @ [?s]) a"
    have e: "add_batch_link R l (m, a) = (?m, ?a)" using True by (simp add: Let_def add_batch_link.simps)
    have es: "batch_edges ?K (l # ls) = (?s, ?t) # batch_edges ?K ls" using True by (simp add: batch_edges_def)
    have k: "set (gm_keys ?m) = ?K" "gm_ok ?m" using Cons.prems True by auto
    obtain m' a' where f: "fold (add_batch_link R) ls (?m, ?a) = (m', a')" by fastforce
    from Cons.IH [OF k, of ?a, unfolded f prod.case] show ?thesis
      by (simp add: e es f degree_Cons sources_Cons gm_get_put)
  next
    case False
    have e: "add_batch_link R l (m, a) = (m, a)" using False by (auto simp: Let_def add_batch_link.simps)
    have es: "batch_edges ?K (l # ls) = batch_edges ?K ls" using False by (auto simp: batch_edges_def)
    show ?thesis using Cons.IH [OF Cons.prems, of a] by (simp add: e es)
  qed
qed

lemma degree_done:
  "int (degree es D k) - int (count (mset (sources_of es i)) k) = int (degree es (insert i D) k)" if "i \<notin> D"
proof (induction es)
  case (Cons e es)
  obtain s t where "e = (s, t)" by (cases e)
  with Cons that show ?case by (auto simp: degree_Cons sources_Cons)
qed (simp add: degree_def sources_of_def)

subsection \<open>Kahn's algorithm\<close>

lemma visit_spec:
  assumes "visit_neighbors ns (m, q) = (m', q')" and "\<forall>k. int (count (mset ns) k) \<le> gm_get 0 m k"
    and "\<forall>k \<in> set ns. k \<notin> set q" and "distinct q"
  shows "(\<forall>k. gm_get 0 m' k = gm_get 0 m k - int (count (mset ns) k)) \<and>
    set q' = set q \<union> {k \<in> set ns. gm_get 0 m' k = 0} \<and> distinct q'"
  using assms
proof (induction ns arbitrary: m q)
  case Nil
  then show ?case by simp
next
  case (Cons n ns)
  let ?m = "gm_put n (gm_get 0 m n - 1) m"
  let ?q = "if gm_get 0 ?m n = 0 then sort_strings (q @ [n]) else q"
  have v: "visit_neighbors ns (?m, ?q) = (m', q')" using Cons.prems(1) by (simp add: Let_def)
  have c: "\<forall>k. int (count (mset ns) k) \<le> gm_get 0 ?m k"
    using Cons.prems(2) by (auto simp: gm_get_put split: if_splits)
  have last: "n \<notin> set ns" if "gm_get 0 ?m n = 0"
    using c [rule_format, of n] that by (simp add: count_mset_0_iff)
  have nq: "\<forall>k \<in> set ns. k \<notin> set ?q" using Cons.prems(3) last by auto
  have dq: "distinct ?q" using Cons.prems(3,4) by auto
  note IH = Cons.IH [OF v c nq dq]
  have g: "gm_get 0 m' k = gm_get 0 m k - int (count (mset (n # ns)) k)" for k
    using IH by (simp add: gm_get_put)
  have "set q' = set q \<union> {k \<in> set (n # ns). gm_get 0 m' k = 0}"
  proof (cases "gm_get 0 ?m n = 0")
    case True
    then have "gm_get 0 m' n = 0" using g [of n] last [OF True] by (simp add: gm_get_put count_mset_0_iff)
    with IH True show ?thesis by auto
  next
    case False
    have "n \<in> set ns" if "gm_get 0 m' n = 0"
    proof (rule ccontr)
      assume "n \<notin> set ns"
      with g [of n] that False show False by (simp add: gm_get_put count_mset_0_iff)
    qed
    with IH False show ?thesis by auto
  qed
  with IH g show ?case by blast
qed

definition kahn_inv :: "(string \<times> string) list \<Rightarrow> string set \<Rightarrow> string list \<Rightarrow> string list \<Rightarrow> int gomap \<Rightarrow> bool" where
  "kahn_inv es K D q m \<longleftrightarrow> distinct (D @ q) \<and> set (D @ q) \<subseteq> K \<and>
     (\<forall>k. gm_get 0 m k = int (degree es (set D) k)) \<and>
     (\<forall>k \<in> K. k \<in> set (D @ q) \<longleftrightarrow> degree es (set D) k = 0) \<and>
     (\<forall>i < length D. \<forall>t. (D ! i, t) \<in> set es \<longrightarrow> t \<in> set (take i D))"

lemma degree_0_iff: "degree es D k = 0 \<longleftrightarrow> (\<forall>t. (k, t) \<in> set es \<longrightarrow> t \<in> D)"
  by (auto simp: degree_def filter_empty_conv)

lemma sources_iff: "k \<in> set (sources_of es i) \<longleftrightarrow> (k, i) \<in> set es"
  by (force simp: sources_of_def)

lemma kahn_step:
  assumes inv: "kahn_inv es K D (i # q) m" and edges: "set es \<subseteq> K \<times> K"
    and v: "visit_neighbors (sort_strings (sources_of es i)) (m, q) = (m', q')"
  shows "kahn_inv es K (D @ [i]) q' m'"
proof -
  let ?ns = "sort_strings (sources_of es i)"
  have ms: "mset ?ns = mset (sources_of es i)" by (simp add: sort_strings_def)
  have iD: "i \<notin> set D" and dist: "distinct (D @ i # q)" and sub: "set (D @ i # q) \<subseteq> K"
    and deg: "\<And>k. gm_get 0 m k = int (degree es (set D) k)"
    and zero: "\<And>k. k \<in> K \<Longrightarrow> k \<in> set (D @ i # q) \<longleftrightarrow> degree es (set D) k = 0"
    and pre: "\<And>j t. j < length D \<Longrightarrow> (D ! j, t) \<in> set es \<Longrightarrow> t \<in> set (take j D)"
    using inv by (auto simp: kahn_inv_def)
  have dd: "int (degree es (set D) k) - int (count (mset ?ns) k) = int (degree es (insert i (set D)) k)" for k
    unfolding ms by (rule degree_done [OF iD])
  have pos: "k \<notin> set (D @ i # q)" if "k \<in> set ?ns" for k
  proof -
    have ki: "(k, i) \<in> set es" using that by (simp add: sources_iff)
    have "degree es (set D) k \<noteq> 0" unfolding degree_0_iff using iD ki by blast
    moreover have "k \<in> K" using edges ki by (auto dest: subsetD)
    ultimately show ?thesis using zero [of k] by (simp del: append.simps)
  qed
  have c: "\<forall>k. int (count (mset ?ns) k) \<le> gm_get 0 m k"
    using dd deg by (metis diff_ge_0_iff_ge of_nat_0_le_iff)
  have sp: "(\<forall>k. gm_get 0 m' k = gm_get 0 m k - int (count (mset ?ns) k)) \<and>
    set q' = set q \<union> {k \<in> set ?ns. gm_get 0 m' k = 0} \<and> distinct q'"
    by (rule visit_spec [OF v c]) (use pos dist in auto)
  then have deg': "gm_get 0 m' k = int (degree es (set (D @ [i])) k)" for k
    using dd [of k] deg [of k] by simp
  have q': "set q' = set q \<union> {k \<in> set ?ns. degree es (set (D @ [i])) k = 0}" using sp deg' by simp
  have zero': "k \<in> set ((D @ [i]) @ q') \<longleftrightarrow> degree es (set (D @ [i])) k = 0" if "k \<in> K" for k
  proof (cases "k \<in> set (D @ i # q)")
    case True
    then have "degree es (set (D @ [i])) k = 0" using zero [OF that] by (auto simp: degree_0_iff)
    with True q' show ?thesis by auto
  next
    case False
    have "k \<in> set ?ns" if "degree es (set (D @ [i])) k = 0"
    proof (rule ccontr)
      assume "k \<notin> set ?ns"
      then have "degree es (set D) k = 0" using dd [of k] that by (simp add: count_mset_0_iff del: set_sort_strings)
      with False zero [OF \<open>k \<in> K\<close>] show False by blast
    qed
    with False q' show ?thesis by auto
  qed
  have "set q' \<subseteq> K" using sub pos q' edges by (auto simp: sources_iff)
  moreover have "distinct ((D @ [i]) @ q')" using sp dist pos q' by auto
  moreover have "t \<in> set (take j (D @ [i]))" if "j < length (D @ [i])" "((D @ [i]) ! j, t) \<in> set es" for j t
  proof (cases "j = length D")
    case True
    have "degree es (set D) i = 0" using zero [of i] sub by simp
    with that True show ?thesis by (auto simp: degree_0_iff)
  next
    case False
    with that pre [of j t] show ?thesis by (simp add: nth_append)
  qed
  ultimately show ?thesis using deg' zero' sub unfolding kahn_inv_def by simp
qed

lemma kahn_loop_spec:
  assumes "kahn_inv es K D q m" and "set es \<subseteq> K \<times> K" and "\<And>i. gm_get [] A i = sources_of es i"
  shows "\<exists>D' m'. kahn_loop R A q m (map (gm_get (StatusRequest '''' '''') R) D) =
      map (gm_get (StatusRequest '''' '''') R) D' \<and> kahn_inv es K D' [] m'"
  using assms(1)
proof (induction "2 * card (positives m) + length q" arbitrary: D q m rule: less_induct)
  case less
  show ?case
  proof (cases q)
    case Nil
    with less.prems show ?thesis by (auto intro!: exI [of _ D])
  next
    case (Cons i q0)
    obtain m' q' where v: "visit_neighbors (sort_strings (sources_of es i)) (m, q0) = (m', q')" by fastforce
    have inv: "kahn_inv es K (D @ [i]) q' m'" using kahn_step [OF _ assms(2) v] less.prems Cons by simp
    have "2 * card (positives m') + length q' < 2 * card (positives m) + length q"
      using visit_measure [OF v] Cons by simp
    from less.hyps [OF this inv] show ?thesis by (simp add: Cons assms(3) v)
  qed
qed

subsection \<open>The batch\<close>

abbreviation nil_request :: request where
  "nil_request \<equiv> StatusRequest '''' ''''"

lemma buildRequestSet_put_all: "buildRequestSet rs = gm_put_all (map (\<lambda>r. (GetSubjectId r, r)) rs) []"
  by (simp add: buildRequestSet_def gm_put_all_def fold_map comp_def)

lemma reqSet_ok [simp]: "gm_ok (buildRequestSet rs)" "set (gm_keys (buildRequestSet rs)) = GetSubjectId ` set rs"
  by (simp_all add: buildRequestSet_put_all gm_keys_def [of "map _ _"] image_image)

lemma reqSet_get:
  assumes "i \<in> GetSubjectId ` set rs"
  shows "gm_get nil_request (buildRequestSet rs) i \<in> set rs \<and> GetSubjectId (gm_get nil_request (buildRequestSet rs) i) = i"
proof -
  obtain r where r: "map_of (buildRequestSet rs) i = Some r"
    using assms reqSet_ok(2) [of rs] by (metis gm_keys_iff)
  then have "(i, r) \<in> set (gm_put_all (map (\<lambda>r. (GetSubjectId r, r)) rs) [])"
    by (auto simp: buildRequestSet_put_all dest: map_of_SomeD)
  then have "(i, r) \<in> set (map (\<lambda>r. (GetSubjectId r, r)) rs)" using gm_put_all_memD by fastforce
  with r show ?thesis by (auto simp: gm_get_def)
qed

lemma topo_core:
  fixes rs ls
  defines "K \<equiv> GetSubjectId ` set rs" and "es \<equiv> batch_edges (GetSubjectId ` set rs) ls" and "R \<equiv> buildRequestSet rs"
  shows "\<exists>D m. (case buildGraph R ls of (inDegree, adjacency) \<Rightarrow> kahnSort R inDegree adjacency) =
      map (gm_get nil_request R) D \<and> kahn_inv es K D [] m"
proof -
  obtain m a where g: "buildGraph R ls = (m, a)" by fastforce
  have b: "gm_ok m \<and> set (gm_keys m) = K \<and> (\<forall>k. gm_get 0 m k = int (degree es {} k)) \<and> (\<forall>t. gm_get [] a t = sources_of es t)"
    using build_fold [of "map (\<lambda>i. (i, 0)) (gm_keys R)" R ls "[]"] g
    by (simp add: buildGraph_def K_def es_def R_def gm_ok_def gm_get_def [of _ "[]"] comp_def)
      (simp add: gm_keys_def [symmetric])
  let ?q = "sort_strings (gm_keys (filter (\<lambda>(i, deg). deg = 0) m))"
  have "set ?q = {k \<in> K. degree es {} k = 0}"
  proof (rule set_eqI)
    fix k
    have "k \<in> set ?q \<longleftrightarrow> map_of m k = Some 0"
      using b by (auto simp: gm_keys_def gm_ok_mem [symmetric] image_iff)
    also have "\<dots> \<longleftrightarrow> k \<in> set (gm_keys m) \<and> gm_get 0 m k = 0"
      by (auto simp: gm_keys_iff gm_get_def)
    finally show "k \<in> set ?q \<longleftrightarrow> k \<in> {k \<in> K. degree es {} k = 0}" using b by simp
  qed
  moreover have "distinct ?q" using b by simp
  ultimately have "kahn_inv es K [] ?q m" using b unfolding kahn_inv_def by simp
  moreover have "set es \<subseteq> K \<times> K" by (auto simp: es_def batch_edges_def K_def)
  ultimately show ?thesis
    using kahn_loop_spec [of es K "[]" ?q m a R] b by (simp add: g kahnSort_def)
qed

lemma kahn_covers:
  assumes "kahn_inv es K D [] m" and "acyclic (set es)" and "set es \<subseteq> K \<times> K"
  shows "set D = K"
proof (rule ccontr)
  assume "set D \<noteq> K"
  with assms(1) obtain x where x: "x \<in> K - set D" by (auto simp: kahn_inv_def)
  have "wf ((set es)\<inverse>)" using assms(2) by (simp add: finite_acyclic_wf_converse)
  then obtain z where z: "z \<in> K - set D" "\<And>t. (t, z) \<in> (set es)\<inverse> \<Longrightarrow> t \<notin> K - set D"
    using x by (rule wfE_min) blast
  then have "degree es (set D) z = 0" using assms(3) by (auto simp: degree_0_iff)
  with z assms(1) show False by (auto simp: kahn_inv_def)
qed

definition comes_before :: "string list \<Rightarrow> string \<Rightarrow> string \<Rightarrow> bool" where
  "comes_before xs a b \<longleftrightarrow> (\<exists>i j. i < j \<and> j < length xs \<and> xs ! i = a \<and> xs ! j = b)"

lemma comes_before_rev: "comes_before (rev xs) a b \<longleftrightarrow> comes_before xs b a"
proof -
  have "comes_before (rev ys) a b" if "comes_before ys b a" for ys :: "string list" and a b
  proof -
    from that obtain i j where "i < j" "j < length ys" "ys ! i = b" "ys ! j = a" by (auto simp: comes_before_def)
    then show ?thesis unfolding comes_before_def
      by (intro exI [of _ "length ys - Suc j"] exI [of _ "length ys - Suc i"]) (auto simp: rev_nth)
  qed
  from this [of xs] this [of "rev xs"] show ?thesis by auto
qed

lemma topo_forward:
  fixes rs ls
  defines "K \<equiv> GetSubjectId ` set rs" and "es \<equiv> batch_edges (GetSubjectId ` set rs) ls"
  shows "\<exists>D m. topoSortRequests rs ls False = map (gm_get nil_request (buildRequestSet rs)) D @
      (if length D \<ge> length rs then [] else filter (\<lambda>r. GetSubjectId r \<notin> set D) rs) \<and> kahn_inv es K D [] m"
proof (cases "rs = []")
  case True
  have "kahn_inv es K [] [] []"
    by (simp add: kahn_inv_def K_def True es_def batch_edges_def degree_def gm_get_def)
  with True show ?thesis by (intro exI [of _ "[]"]) (auto simp: topoSortRequests_def)
next
  case False
  obtain D m where D: "(case buildGraph (buildRequestSet rs) ls of (inDegree, adjacency) \<Rightarrow>
      kahnSort (buildRequestSet rs) inDegree adjacency) = map (gm_get nil_request (buildRequestSet rs)) D"
    and inv: "kahn_inv es K D [] m"
    using topo_core [of rs ls] unfolding K_def es_def by blast
  have "GetSubjectId ` set (map (gm_get nil_request (buildRequestSet rs)) D) = set D"
  proof -
    have "GetSubjectId (gm_get nil_request (buildRequestSet rs) i) = i" if "i \<in> set D" for i
      using reqSet_get [of i rs] inv that by (auto simp: kahn_inv_def K_def)
    then show ?thesis by (force simp: image_image)
  qed
  with D False inv show ?thesis
    by (intro exI [of _ D] exI [of _ m])
      (auto simp: topoSortRequests_def Let_def appendCycleOrphans_def split: prod.splits)
qed

lemma topo_reverse: "topoSortRequests rs ls True = rev (topoSortRequests rs ls False)"
  by (simp add: topoSortRequests_def Let_def reverseSlice_def split: prod.splits)

lemma batch_order:
  assumes "acyclic (set (batch_edges (GetSubjectId ` set rs) ls))" and "l \<in> set ls"
    and "refId (lkSource l) \<in> GetSubjectId ` set rs" and "refId (lkTarget l) \<in> GetSubjectId ` set rs"
  shows "comes_before (map GetSubjectId (topoSortRequests rs ls False)) (refId (lkTarget l)) (refId (lkSource l)) \<and>
    comes_before (map GetSubjectId (topoSortRequests rs ls True)) (refId (lkSource l)) (refId (lkTarget l))"
proof -
  let ?K = "GetSubjectId ` set rs" and ?es = "batch_edges (GetSubjectId ` set rs) ls"
  obtain D m where t: "topoSortRequests rs ls False = map (gm_get nil_request (buildRequestSet rs)) D @
      (if length D \<ge> length rs then [] else filter (\<lambda>r. GetSubjectId r \<notin> set D) rs)"
    and inv: "kahn_inv ?es ?K D [] m" using topo_forward [of rs ls] by blast
  have sub: "set ?es \<subseteq> ?K \<times> ?K" by (auto simp: batch_edges_def)
  have cov: "set D = ?K" by (rule kahn_covers [OF inv assms(1) sub])
  have "map GetSubjectId (map (gm_get nil_request (buildRequestSet rs)) D) = D"
    using reqSet_get [of _ rs] by (auto simp: cov comp_def intro: map_idI)
  moreover have "filter (\<lambda>r. GetSubjectId r \<notin> set D) rs = []" by (simp add: cov filter_empty_conv)
  ultimately have ids: "map GetSubjectId (topoSortRequests rs ls False) = D" by (simp add: t)
  have e: "(refId (lkSource l), refId (lkTarget l)) \<in> set ?es" using assms(2-4) by (force simp: batch_edges_def)
  obtain i where i: "i < length D" "D ! i = refId (lkSource l)" using cov assms(3) by (metis in_set_conv_nth)
  then have "refId (lkTarget l) \<in> set (take i D)" using inv e by (auto simp: kahn_inv_def)
  then obtain j where "j < i" "D ! j = refId (lkTarget l)" using i by (auto simp: in_set_conv_nth)
  with i have "comes_before D (refId (lkTarget l)) (refId (lkSource l))" by (auto simp: comes_before_def)
  then show ?thesis by (simp add: ids topo_reverse comes_before_rev flip: rev_map)
qed

subsection \<open>Properties\<close>

text \<open>Ordering a batch neither loses nor repeats a request: with distinct subject ids the result
  is a permutation of the input, for any links, cyclic ones included, and in both directions.\<close>

theorem topoSortRequests_permutation:
  assumes "distinct (map GetSubjectId rs)"
  shows "mset (topoSortRequests rs ls reverse) = mset rs"
proof -
  let ?g = "gm_get nil_request (buildRequestSet rs)"
  obtain D m where t: "topoSortRequests rs ls False = map ?g D @
      (if length D \<ge> length rs then [] else filter (\<lambda>r. GetSubjectId r \<notin> set D) rs)"
    and inv: "kahn_inv (batch_edges (GetSubjectId ` set rs) ls) (GetSubjectId ` set rs) D [] m"
    using topo_forward [of rs ls] by blast
  have D: "distinct D" "set D \<subseteq> GetSubjectId ` set rs" using inv by (simp_all add: kahn_inv_def)
  have inj: "inj_on GetSubjectId (set rs)" using assms by (simp add: distinct_map)
  have g: "?g (GetSubjectId r) = r" if "r \<in> set rs" for r
    using reqSet_get [of "GetSubjectId r" rs] that inj by (auto simp: inj_on_def)
  have "set (map ?g D) = set (filter (\<lambda>r. GetSubjectId r \<in> set D) rs)"
    using D(2) g by (auto simp: image_iff) (metis imageE subsetD)+
  moreover have "distinct (map ?g D)"
    using D g by (auto simp: distinct_map inj_on_def) (metis imageE subsetD)
  ultimately have d: "mset (map ?g D) = mset (filter (\<lambda>r. GetSubjectId r \<in> set D) rs)"
    using assms by (intro set_eq_iff_mset_eq_distinct [THEN iffD1]) (auto simp: distinct_map)
  have rest: "filter (\<lambda>r. GetSubjectId r \<notin> set D) rs = []" if "length D \<ge> length rs"
  proof -
    have "card (GetSubjectId ` set rs) \<le> card (set D)"
      using that D(1) distinct_card [OF assms] by (simp add: distinct_card)
    then have "set D = GetSubjectId ` set rs" using D(2) by (intro card_seteq) simp_all
    then show ?thesis by (simp add: filter_empty_conv)
  qed
  have "(if length D \<ge> length rs then [] else filter (\<lambda>r. GetSubjectId r \<notin> set D) rs) =
      filter (\<lambda>r. GetSubjectId r \<notin> set D) rs" using rest by simp
  then have "mset (topoSortRequests rs ls False) = mset rs"
    unfolding t using d multiset_partition [of "mset rs" "\<lambda>r. GetSubjectId r \<in> set D"] by simp
  then show ?thesis by (cases reverse) (simp_all add: topo_reverse)
qed


text \<open>Two requests of one batch with the same subject id do not both run: without cycles the
  ordered batch is shorter than the input, because \<open>buildRequestSet\<close> keeps the last request of an
  id and \<open>appendCycleOrphans\<close> restores none of the others.\<close>

theorem topoSortRequests_drops_duplicates:
  assumes "acyclic (set (batch_edges (GetSubjectId ` set rs) ls))" and "\<not> distinct (map GetSubjectId rs)"
  shows "length (topoSortRequests rs ls reverse) < length rs"
proof -
  let ?K = "GetSubjectId ` set rs" and ?es = "batch_edges (GetSubjectId ` set rs) ls"
  obtain D m where t: "topoSortRequests rs ls False = map (gm_get nil_request (buildRequestSet rs)) D @
      (if length D \<ge> length rs then [] else filter (\<lambda>r. GetSubjectId r \<notin> set D) rs)"
    and inv: "kahn_inv ?es ?K D [] m" using topo_forward [of rs ls] by blast
  have sub: "set ?es \<subseteq> ?K \<times> ?K" by (auto simp: batch_edges_def)
  have cov: "set D = ?K" by (rule kahn_covers [OF inv assms(1) sub])
  have "distinct D" using inv by (simp add: kahn_inv_def)
  then have "length D = card ?K" using cov by (metis distinct_card)
  moreover have "card ?K < length rs"
    using assms(2) card_distinct [of "map GetSubjectId rs"] card_length [of "map GetSubjectId rs"] by fastforce
  moreover have "filter (\<lambda>r. GetSubjectId r \<notin> set D) rs = []" by (simp add: cov filter_empty_conv)
  ultimately have "length (topoSortRequests rs ls False) < length rs" by (simp add: t)
  then show ?thesis by (cases reverse) (simp_all add: topo_reverse)
qed

definition web_db_requests :: "request list" where
  "web_db_requests = [CreateRequest ''p/web'' RNil ''S'', CreateRequest ''p/db'' RNil ''S'']"

lemma web_db_acyclic: "acyclic (set (batch_edges (GetSubjectId ` set web_db_requests) [web_db_link]))"
proof -
  have "batch_edges (GetSubjectId ` set web_db_requests) [web_db_link] = [(''p/web'', ''p/db'')]"
    by (simp add: batch_edges_def web_db_requests_def web_db_link_def plain_ref_def)
  moreover have "acyclic {(''p/web'', ''p/db'')}"
    by (rule acyclicI) (auto simp: trancl_insert)
  ultimately show ?thesis by simp
qed

theorem topoSortRequests_permutation_witness:
  "mset (topoSortRequests web_db_requests [web_db_link] True) = mset web_db_requests"
  by (rule topoSortRequests_permutation) (simp add: web_db_requests_def)


theorem topoSortRequests_drops_duplicates_witness:
  "length (topoSortRequests [CreateRequest ''p'' RNil ''Project'', CreateRequest ''p'' RNil ''Network''] [] False) < 2"
  using topoSortRequests_drops_duplicates [of "[CreateRequest ''p'' RNil ''Project'', CreateRequest ''p'' RNil ''Network'']" "[]" False]
  by (simp add: batch_edges_def acyclic_def)

end
