(* ===== verification/Apply.thy ===== *)
theory Apply
  imports Plan Topo_Sort
begin

text \<open>
  \<open>src/pkg/orchestrate/apply.go\<close>: execution of a plan, and the condition waits of
  \<open>src/pkg/orchestrate/conditions.go\<close> that it calls.

  The context is a function \<open>ctx\<close> that tells for the n-th check whether it is cancelled.  A panic
  ends every loop.  The waits poll the world; \<open>tick\<close> is what the world does during one poll
  interval and \<open>rounds\<close> the number of polls before the context's deadline.  The three waits are
  the record \<open>waits\<close>, so that the dispatch on the condition is separate from the polling; they read the
  database.  Theory \<open>Conditions\<close> gives the waits of the engine.
\<close>

subsection \<open>conditions.go\<close>

definition condPriority :: "string \<Rightarrow> int" where
  "condPriority cond =
     (if cond = ''healthy'' then 3 else if cond = ''completed'' then 2 else if cond = ''started'' then 1 else 0)"

fun strictest_of :: "string \<Rightarrow> string gomap \<Rightarrow> string" where
  "strictest_of strictest [] = strictest"
| "strictest_of strictest ((k, cond) # deps) =
     strictest_of (if condPriority cond > condPriority strictest then cond else strictest) deps"

record ('b, 'w) waits =
  wtHealthy :: "string \<Rightarrow> 'b db \<Rightarrow> 'w \<Rightarrow> error option \<times> 'w"
  wtCompleted :: "string \<Rightarrow> 'b db \<Rightarrow> 'w \<Rightarrow> error option \<times> 'w"
  wtStarted :: "string \<Rightarrow> 'b db \<Rightarrow> 'w \<Rightarrow> error option \<times> 'w"

definition waitCondition :: "('b, 'w) waits \<Rightarrow> string \<Rightarrow> condition_map \<Rightarrow> 'b db \<Rightarrow> 'w \<Rightarrow> error option \<times> 'w" where
  "waitCondition W resourceID conditions db w =
     (case map_of conditions resourceID of
        None \<Rightarrow> (None, w)
      | Some deps \<Rightarrow>
          (let strictest = strictest_of '''' deps
           in if strictest = ''healthy'' then wtHealthy W resourceID db w
              else if strictest = ''completed'' then wtCompleted W resourceID db w
              else wtStarted W resourceID db w))"

definition ServiceKey :: definition_key where
  "ServiceKey = ''cri.orchestrator.io/v1/Service''"

text \<open>One look at the provider status: \<open>Some\<close> when the loop of \<open>waitStarted\<close> returns.\<close>

definition started_check :: "'w registry \<Rightarrow> string \<Rightarrow> 'w \<Rightarrow> error option option" where
  "started_check reg resourceID w =
     (case NewReference resourceID ServiceKey of
        Inl e \<Rightarrow> Some (Some e)
      | Inr ref \<Rightarrow>
          (case GetDefinition reg ServiceKey of
             Inl e \<Rightarrow> Some (Some e)
           | Inr def \<Rightarrow>
               (case defGetProviderStatus def ref w of
                  Inl e \<Rightarrow> Some (Some e)
                | Inr status \<Rightarrow>
                    if stShort status = RsRunning \<or> stShort status = RsSuccess then Some None
                    else if stShort status = RsError then Some (Some (Err (resourceID @ '' is in error state'')))
                    else None)))"

fun waitStarted :: "'w registry \<Rightarrow> ('w \<Rightarrow> 'w) \<Rightarrow> nat \<Rightarrow> string \<Rightarrow> 'w \<Rightarrow> error option \<times> 'w" where
  "waitStarted reg tick 0 resourceID w =
     (case started_check reg resourceID w of Some e \<Rightarrow> (e, w) | None \<Rightarrow> (Some (Err ''timeout''), w))"
| "waitStarted reg tick (Suc rounds) resourceID w =
     (case started_check reg resourceID w of
        Some e \<Rightarrow> (e, w) | None \<Rightarrow> waitStarted reg tick rounds resourceID (tick w))"

definition splitResourceID :: "string \<Rightarrow> string \<times> string" where
  "splitResourceID i = (case cut_char (CHR ''/'') i of Some (a, b) \<Rightarrow> (a, b) | None \<Rightarrow> (i, i))"

subsection \<open>apply.go\<close>

definition panicked :: "error option \<Rightarrow> bool" where
  "panicked e = (case e of Some (Panic s) \<Rightarrow> True | _ \<Rightarrow> False)"

fun executeDeletes :: "(nat \<Rightarrow> bool) \<Rightarrow> nat \<Rightarrow> request list \<Rightarrow> ('b, 'w) request_context \<Rightarrow> 'b db \<times> 'w \<Rightarrow>
    error option \<times> nat \<times> 'b db \<times> 'w" where
  "executeDeletes ctx n [] rc st = (None, n, st)"
| "executeDeletes ctx n (req # sortd) rc st =
     (if ctx n then (Some (Err ''context cancelled''), Suc n, st)
      else case Process rc req st of
        (e, st') \<Rightarrow> if panicked e then (e, Suc n, st') else executeDeletes ctx (Suc n) sortd rc st')"

fun rollback_loop :: "request list \<Rightarrow> ('b, 'w) request_context \<Rightarrow> 'b db \<times> 'w \<Rightarrow> error option \<times> 'b db \<times> 'w" where
  "rollback_loop [] rc st = (None, st)"
| "rollback_loop (req # applied) rc st =
     (case ProcessDelete rc (GetSubjectId req) (GetSubjectKey req) st of
        (e, st') \<Rightarrow> if panicked e then (e, st') else rollback_loop applied rc st')"

definition rollback :: "request list \<Rightarrow> ('b, 'w) request_context \<Rightarrow> 'b db \<times> 'w \<Rightarrow> error option \<times> 'b db \<times> 'w" where
  "rollback applied rc st = rollback_loop (rev applied) rc st"

text \<open>A failing create rolls back and returns its error, unless the rollback panics.\<close>

definition fail_with :: "error \<Rightarrow> nat \<Rightarrow> request list \<Rightarrow> ('b, 'w) request_context \<Rightarrow> 'b db \<times> 'w \<Rightarrow>
    error option \<times> nat \<times> 'b db \<times> 'w" where
  "fail_with e n applied rc st =
     (case rollback applied rc st of (p, st') \<Rightarrow> (if panicked p then p else Some e, n, st'))"

fun executeCreates :: "(nat \<Rightarrow> bool) \<Rightarrow> nat \<Rightarrow> request list \<Rightarrow> ('b, 'w) request_context \<Rightarrow> ('b, 'w) waits \<Rightarrow>
    condition_map \<Rightarrow> request list \<Rightarrow> 'b db \<times> 'w \<Rightarrow> error option \<times> nat \<times> 'b db \<times> 'w" where
  "executeCreates ctx n [] rc W conditions applied st = (None, n, st)"
| "executeCreates ctx n (req # sortd) rc W conditions applied st =
     (if ctx n then fail_with (Err ''context cancelled'') (Suc n) applied rc st
      else case Process rc req st of
        (Some (Panic s), st') \<Rightarrow> (Some (Panic s), Suc n, st')
      | (Some (Err s), st') \<Rightarrow> fail_with (Err s) (Suc n) applied rc st'
      | (None, (d, w)) \<Rightarrow>
          (case waitCondition W (GetSubjectId req) conditions d w of
             (Some (Panic s), w') \<Rightarrow> (Some (Panic s), Suc n, (d, w'))
           | (Some (Err s), w') \<Rightarrow> fail_with (Err s) (Suc n) (applied @ [req]) rc (d, w')
           | (None, w') \<Rightarrow> executeCreates ctx (Suc n) sortd rc W conditions (applied @ [req]) (d, w')))"

fun links_from :: "string \<Rightarrow> reference list \<Rightarrow> error + link list" where
  "links_from key [] = Inr []"
| "links_from key (dep # deps) =
     (case NewLink key '''' (refId dep) (refKey dep) of
        Inl e \<Rightarrow> Inl e
      | Inr l \<Rightarrow> (case links_from key deps of Inl e \<Rightarrow> Inl e | Inr ls \<Rightarrow> Inr (l # ls)))"

fun load_links :: "'b bolt \<Rightarrow> 'b db \<Rightarrow> string list \<Rightarrow> error + link list" where
  "load_links B d [] = Inr []"
| "load_links B d (key # keys) =
     (case NewReference key '''' of
        Inl e \<Rightarrow> Inl e
      | Inr ref \<Rightarrow>
          (case GetDependencies B d (refId ref) of
             Inl e \<Rightarrow> load_links B d keys
           | Inr deps \<Rightarrow>
               (case links_from (refId ref) deps of
                  Inl e \<Rightarrow> Inl e
                | Inr ls \<Rightarrow> (case load_links B d keys of Inl e \<Rightarrow> Inl e | Inr rest \<Rightarrow> Inr (ls @ rest)))))"

definition loadLinks :: "'b bolt \<Rightarrow> 'b db \<Rightarrow> error + link list" where
  "loadLinks B d = load_links B d (Keys B d LinksBySourceId)"

definition ApplySync :: "(nat \<Rightarrow> bool) \<Rightarrow> ('b, 'w) request_context \<Rightarrow> ('b, 'w) waits \<Rightarrow> plan \<Rightarrow> 'b db \<times> 'w \<Rightarrow>
    error option \<times> 'b db \<times> 'w" where
  "ApplySync ctx rc W plan st =
     (case st of (db, w) \<Rightarrow>
      (case CheckReferences rc db (plDeployment plan) of
         Inl e \<Rightarrow> (Some e, db, w)
       | Inr errs \<Rightarrow>
           if length errs > 0 then (Some (Err ''reference check failed''), db, w)
           else case PersistLinks (rcBolt rc) (plDeployment plan) db of
             (Some e, db1) \<Rightarrow> (Some e, db1, w)
           | (None, db1) \<Rightarrow>
               (case splitRequests (dpRequests (plDeployment plan)) of (deletes, creates) \<Rightarrow>
                (case loadLinks (rcBolt rc) db1 of
                   Inl e \<Rightarrow> (Some e, db1, w)
                 | Inr ls \<Rightarrow>
                     (case executeDeletes ctx 0 (topoSortRequests deletes ls True) rc (db1, w) of
                        (Some e, n, db2, w2) \<Rightarrow> (Some e, db2, w2)
                      | (None, n, db2, w2) \<Rightarrow>
                          (case executeCreates ctx n (topoSortRequests creates ls False) rc W (plConditions plan) [] (db2, w2) of
                             (Some e, n', db3, w3) \<Rightarrow> (Some e, db3, w3)
                           | (None, n', db3, w3) \<Rightarrow>
                               (case SaveDeployment (rcBolt rc) (plDeployment plan) db3 of
                                  Inl e \<Rightarrow> (None, db3, w3)
                                | Inr db4 \<Rightarrow> (None, db4, w3))))))))"

subsection \<open>Waiting\<close>

lemma strictest_healthy_gen:
  "strictest_of s deps = ''healthy'' \<longleftrightarrow> s = ''healthy'' \<or> ''healthy'' \<in> snd ` set deps"
proof (induction s deps rule: strictest_of.induct)
  case (2 s k c deps)
  have "(if condPriority c > condPriority s then c else s) = ''healthy'' \<longleftrightarrow> s = ''healthy'' \<or> c = ''healthy''"
    by (auto simp: condPriority_def)
  with 2 show ?case by auto
qed simp

lemma strictest_completed_gen:
  "strictest_of s deps = ''completed'' \<longleftrightarrow>
   s \<noteq> ''healthy'' \<and> ''healthy'' \<notin> snd ` set deps \<and> (s = ''completed'' \<or> ''completed'' \<in> snd ` set deps)"
proof (induction s deps rule: strictest_of.induct)
  case (2 s k c deps)
  let ?s = "if condPriority c > condPriority s then c else s"
  have h: "?s = ''healthy'' \<longleftrightarrow> s = ''healthy'' \<or> ''healthy'' = c"
    and c: "?s = ''completed'' \<longleftrightarrow> s \<noteq> ''healthy'' \<and> ''healthy'' \<noteq> c \<and> (s = ''completed'' \<or> ''completed'' = c)"
    by (auto simp: condPriority_def)
  have x: "snd ` set ((k, c) # deps) = insert c (snd ` set deps)" by simp
  show ?case unfolding strictest_of.simps 2 h c x insert_iff by blast
qed auto

lemmas strictest_iff = strictest_healthy_gen [of "''''", simplified] strictest_completed_gen [of "''''", simplified]

text \<open>\<open>waitStarted\<close> succeeds exactly when some poll within the deadline, the polls before it having
  been inconclusive, finds the resource running.\<close>

lemma waitStarted_iff:
  "fst (waitStarted reg tick n i w) = None \<longleftrightarrow>
   (\<exists>k \<le> n. started_check reg i ((tick ^^ k) w) = Some None \<and>
     (\<forall>j < k. started_check reg i ((tick ^^ j) w) = None))"
proof (induction n arbitrary: w)
  case 0
  then show ?case by (auto split: option.splits)
next
  case (Suc n)
  show ?case
  proof (cases "started_check reg i w")
    case None
    have sh: "(tick ^^ k) (tick w) = (tick ^^ Suc k) w" for k by (simp add: funpow_swap1)
    show ?thesis unfolding waitStarted.simps None option.case Suc.IH sh
    proof (intro iffI; elim exE conjE)
      fix k assume k: "k \<le> n" "started_check reg i ((tick ^^ Suc k) w) = Some None"
        "\<forall>j < k. started_check reg i ((tick ^^ Suc j) w) = None"
      have "started_check reg i ((tick ^^ j) w) = None" if "j < Suc k" for j
        using that k(3) None by (cases j) auto
      with k show "\<exists>k \<le> Suc n. started_check reg i ((tick ^^ k) w) = Some None \<and>
          (\<forall>j < k. started_check reg i ((tick ^^ j) w) = None)" by (intro exI [of _ "Suc k"]) blast
    next
      fix k assume k: "k \<le> Suc n" "started_check reg i ((tick ^^ k) w) = Some None"
        "\<forall>j < k. started_check reg i ((tick ^^ j) w) = None"
      from k(2) None obtain m where m: "k = Suc m" by (cases k) auto
      with k show "\<exists>k \<le> n. started_check reg i ((tick ^^ Suc k) w) = Some None \<and>
          (\<forall>j < k. started_check reg i ((tick ^^ Suc j) w) = None)" by (intro exI [of _ m]) auto
    qed
  next
    case (Some e)
    show ?thesis
    proof (cases e)
      case None
      with Some show ?thesis by (auto intro!: exI [of _ 0])
    next
      case (Some x)
      with \<open>started_check reg i w = Some e\<close> have "\<not> (\<exists>k. started_check reg i ((tick ^^ k) w) = Some None \<and>
          (\<forall>j < k. started_check reg i ((tick ^^ j) w) = None))"
        by (auto simp: gr0_conv_Suc [symmetric]) (metis funpow_0 gr0I option.distinct(1) option.inject)
      with Some \<open>started_check reg i w = Some e\<close> show ?thesis by auto
    qed
  qed
qed

subsection \<open>Links\<close>

definition link_pair :: "link \<Rightarrow> string \<times> string" where
  "link_pair l = (refId (lkSource l), refId (lkTarget l))"

lemma links_from_spec:
  "key \<noteq> '''' \<Longrightarrow> \<exists>ls. links_from key deps = Inr ls \<and> link_pair ` set ls = {key} \<times> refId ` set deps"
  by (induction deps) (auto simp: NewLink_def link_pair_def)

lemma load_links_spec:
  assumes "bucket_ok B (dbLinksBySource d)" and "\<forall>k \<in> set keys. k \<noteq> ''''"
  shows "\<exists>ls. load_links B d keys = Inr ls \<and>
    link_pair ` set ls = {(x, y) \<in> edges_of B (dbLinksBySource d). x \<in> set keys}"
  using assms(2)
proof (induction keys)
  case Nil
  then show ?case by auto
next
  case (Cons key keys)
  then obtain rest where rest: "load_links B d keys = Inr rest"
    "link_pair ` set rest = {(x, y) \<in> edges_of B (dbLinksBySource d). x \<in> set keys}" by auto
  from bucket_okD [OF assms(1)] obtain deps where deps: "loadTargets B (dbLinksBySource d) key = Inr deps" by blast
  from Cons.prems links_from_spec [of key deps] obtain ls where ls: "links_from key deps = Inr ls"
    "link_pair ` set ls = {key} \<times> refId ` set deps" by auto
  have "load_links B d (key # keys) = Inr (ls @ rest)"
    using Cons.prems deps ls(1) rest(1) by (simp add: NewReference_def GetDependencies_def)
  moreover have "link_pair ` set (ls @ rest) = {(x, y) \<in> edges_of B (dbLinksBySource d). x \<in> set (key # keys)}"
    using ls(2) rest(2) loadTargets_edges [OF deps] by (auto simp: image_Un)
  ultimately show ?case by blast
qed

lemma loadLinks_spec:
  assumes "bolt_ok B" and "links_ok B d" and "bGet B (dbLinksBySource d) '''' = None"
  shows "\<exists>ls. loadLinks B d = Inr ls \<and> link_pair ` set ls = links B d"
proof -
  let ?b = "dbLinksBySource d"
  have "\<forall>k \<in> set (bKeys B ?b). k \<noteq> ''''" using assms(3) bolt_keys [OF assms(1), of _ ?b] by metis
  then obtain ls where ls: "load_links B d (bKeys B ?b) = Inr ls"
    "link_pair ` set ls = {(x, y) \<in> edges_of B ?b. x \<in> set (bKeys B ?b)}"
    using load_links_spec [of B d "bKeys B ?b"] assms(2) unfolding links_ok_def by blast
  have "x \<in> set (bKeys B ?b)" if "(x, y) \<in> edges_of B ?b" for x y
  proof (rule ccontr)
    assume "x \<notin> set (bKeys B ?b)"
    then have "bGet B ?b x = None" using bolt_keys [OF assms(1), of x ?b] by blast
    with that show False by (auto simp: edges_of_def loadTargets_def)
  qed
  then have "{(x, y) \<in> edges_of B ?b. x \<in> set (bKeys B ?b)} = edges_of B ?b" by blast
  with ls show ?thesis by (simp add: loadLinks_def Keys_def links_def)
qed

lemma batch_edges_pairs: "set (batch_edges K ls) = link_pair ` set ls \<inter> K \<times> K"
  by (force simp: batch_edges_def link_pair_def)

subsection \<open>What the loops do\<close>

lemma executeDeletes_invariant:
  assumes "executeDeletes ctx n reqs rc (d, w) = (e, n', d', w')"
    and "\<forall>r \<in> set reqs. GetType r = RequestTypeDelete" and "bolt_ok (rcBolt rc)" and "links_ok (rcBolt rc) d"
  shows "links_ok (rcBolt rc) d' \<and> dbRollouts d' = dbRollouts d \<and> links (rcBolt rc) d' \<subseteq> links (rcBolt rc) d"
  using assms(1,2,4)
proof (induction reqs arbitrary: n d w)
  case Nil
  then show ?case by simp
next
  case (Cons r reqs)
  from Cons.prems(2) obtain i k where r: "r = DeleteRequest i k" by (cases r) auto
  obtain e1 d1 w1 where p: "ProcessDelete rc i k (d, w) = (e1, d1, w1)" by (metis surj_pair)
  have l: "links_ok (rcBolt rc) d1" "links (rcBolt rc) d1 \<subseteq> links (rcBolt rc) d"
    using ProcessDelete_links [OF assms(3) Cons.prems(3) p] by (cases e1; auto)+
  note ro = ProcessDelete_rollouts [OF p]
  show ?case
  proof (cases "ctx n \<or> panicked e1")
    case True
    then show ?thesis using Cons.prems l ro p r by (auto split: if_splits)
  next
    case False
    then have "executeDeletes ctx (Suc n) reqs rc (d1, w1) = (e, n', d', w')" using Cons.prems(1) p r by simp
    from Cons.IH [OF this _ l(1)] Cons.prems(2) l ro show ?thesis by auto
  qed
qed

lemma rollback_loop_invariant:
  assumes "rollback_loop reqs rc (d, w) = (e, d', w')" and "bolt_ok (rcBolt rc)" and "links_ok (rcBolt rc) d"
  shows "links_ok (rcBolt rc) d' \<and> dbRollouts d' = dbRollouts d"
  using assms(1,3)
proof (induction reqs arbitrary: d w)
  case Nil
  then show ?case by simp
next
  case (Cons r reqs)
  obtain e1 d1 w1 where p: "ProcessDelete rc (GetSubjectId r) (GetSubjectKey r) (d, w) = (e1, d1, w1)" by (metis surj_pair)
  note l = ProcessDelete_links(1) [OF assms(2) Cons.prems(2) p] and ro = ProcessDelete_rollouts [OF p]
  show ?case
  proof (cases "panicked e1")
    case True
    then show ?thesis using Cons.prems l ro p by auto
  next
    case False
    then have "rollback_loop reqs rc (d1, w1) = (e, d', w')" using Cons.prems(1) p by simp
    from Cons.IH [OF this l] ro show ?thesis by simp
  qed
qed

text \<open>The run in which every request succeeds and every wait is satisfied.\<close>

fun run_creates :: "('b, 'w) request_context \<Rightarrow> ('b, 'w) waits \<Rightarrow> condition_map \<Rightarrow> request list \<Rightarrow> 'b db \<times> 'w \<Rightarrow> ('b db \<times> 'w) option" where
  "run_creates rc W conditions [] st = Some st"
| "run_creates rc W conditions (r # rs) st =
     (case Process rc r st of
        (None, (d, w)) \<Rightarrow>
          (case waitCondition W (GetSubjectId r) conditions d w of
             (None, w') \<Rightarrow> run_creates rc W conditions rs (d, w') | _ \<Rightarrow> None)
      | _ \<Rightarrow> None)"

text \<open>How a batch can fail at request \<open>r\<close> after the state \<open>st\<close>: the state in which the rollback
  starts and whether \<open>r\<close> itself is rolled back too.\<close>

inductive create_fails :: "('b, 'w) request_context \<Rightarrow> ('b, 'w) waits \<Rightarrow> condition_map \<Rightarrow> request \<Rightarrow> 'b db \<times> 'w \<Rightarrow>
    request list \<Rightarrow> 'b db \<times> 'w \<Rightarrow> bool"
  for rc W conditions r st where
  cancelled: "create_fails rc W conditions r st [] st"
| failed: "Process rc r st = (Some (Err s), st') \<Longrightarrow> create_fails rc W conditions r st [] st'"
| unmet: "Process rc r st = (None, (d, w)) \<Longrightarrow> waitCondition W (GetSubjectId r) conditions d w = (Some (Err s), w') \<Longrightarrow>
    create_fails rc W conditions r st [r] (d, w')"

lemma executeCreates_cases:
  assumes "executeCreates ctx n reqs rc W conditions applied st = (e, n', st')" and "\<not> panicked e"
  shows "(e = None \<longrightarrow> run_creates rc W conditions reqs st = Some st') \<and>
    (e \<noteq> None \<longrightarrow> (\<exists>pre r post st1 own st2. reqs = pre @ r # post \<and> run_creates rc W conditions pre st = Some st1 \<and>
      create_fails rc W conditions r st1 own st2 \<and> snd (rollback (applied @ pre @ own) rc st2) = st'))"
  using assms
proof (induction reqs arbitrary: n applied st)
  case Nil
  then show ?case by simp
next
  case (Cons r reqs)
  have here: ?case if "create_fails rc W conditions r st own st2" "snd (rollback (applied @ own) rc st2) = st'" "e \<noteq> None" for own st2
    using that by (intro conjI impI exI [of _ "[]"] exI [of _ r] exI [of _ reqs] exI [of _ st] exI [of _ own] exI [of _ st2]) auto
  have fw: "snd (rollback a rc st2) = st'" "e \<noteq> None" if "fail_with (Err s) m a rc st2 = (e, n', st')" for s m a st2
    using that Cons.prems(2) by (auto simp: fail_with_def panicked_def split: prod.splits if_splits)
  show ?case
  proof (cases "ctx n")
    case True
    then have "fail_with (Err ''context cancelled'') (Suc n) applied rc st = (e, n', st')" using Cons.prems(1) by simp
    from fw [OF this] here [OF create_fails.cancelled] show ?thesis by simp
  next
    case False
    obtain e1 d1 w1 where p: "Process rc r st = (e1, (d1, w1))" by (metis surj_pair)
    show ?thesis
    proof (cases e1)
      case None
      obtain e2 w2 where wt: "waitCondition W (GetSubjectId r) conditions d1 w1 = (e2, w2)" by (metis surj_pair)
      show ?thesis
      proof (cases e2)
        case None
        with \<open>e1 = None\<close> False p wt Cons.prems(1)
        have "executeCreates ctx (Suc n) reqs rc W conditions (applied @ [r]) (d1, w2) = (e, n', st')" by simp
        note IH = Cons.IH [OF this Cons.prems(2)]
        have run: "run_creates rc W conditions (r # rs) st = run_creates rc W conditions rs (d1, w2)" for rs
          using \<open>e1 = None\<close> None p wt by simp
        show ?thesis
        proof (intro conjI impI)
          show "run_creates rc W conditions (r # reqs) st = Some st'" if "e = None" using IH that run by simp
          assume "e \<noteq> None"
          with IH obtain pre x post st1 own st2 where "reqs = pre @ x # post"
            "run_creates rc W conditions pre (d1, w2) = Some st1" "create_fails rc W conditions x st1 own st2"
            "snd (rollback ((applied @ [r]) @ pre @ own) rc st2) = st'" by blast
          then show "\<exists>pre x post st1 own st2. r # reqs = pre @ x # post \<and> run_creates rc W conditions pre st = Some st1 \<and>
              create_fails rc W conditions x st1 own st2 \<and> snd (rollback (applied @ pre @ own) rc st2) = st'"
            by (intro exI [of _ "r # pre"] exI [of _ x] exI [of _ post] exI [of _ st1] exI [of _ own] exI [of _ st2])
              (simp only: run, simp)
        qed
      next
        case (Some x)
        show ?thesis
        proof (cases x)
          case (Err s)
          with Some \<open>e1 = None\<close> False p wt Cons.prems(1)
          have "fail_with (Err s) (Suc n) (applied @ [r]) rc (d1, w2) = (e, n', st')" by simp
          from fw [OF this] here [OF create_fails.unmet [of rc r st d1 w1 W conditions s w2]] show ?thesis
            using Some Err \<open>e1 = None\<close> p wt by simp
        next
          case (Panic s)
          with Some \<open>e1 = None\<close> False p wt Cons.prems show ?thesis by (auto simp: panicked_def)
        qed
      qed
    next
      case (Some x)
      show ?thesis
      proof (cases x)
        case (Err s)
        with Some False p Cons.prems(1) have "fail_with (Err s) (Suc n) applied rc (d1, w1) = (e, n', st')" by simp
        from fw [OF this] here [OF create_fails.failed [of rc r st s "(d1, w1)"]] show ?thesis using Some Err p by simp
      next
        case (Panic s)
        with Some False p Cons.prems show ?thesis by (auto simp: panicked_def)
      qed
    qed
  qed
qed

subsection \<open>Properties\<close>

text \<open>After a resource is created, \<open>ApplySync\<close> waits for the strictest condition any dependent puts
  on it, whatever the order in which the map is visited: for health if one dependent wants it
  healthy, otherwise for completion if one wants it completed, otherwise for its start.  So a
  dependent that waits for completion is not honoured when another one asks for health.\<close>

theorem waitCondition_dispatch:
  assumes "map_of conditions i = Some deps"
  shows "waitCondition W i conditions db w =
    (if ''healthy'' \<in> snd ` set deps then wtHealthy W i db w
     else if ''completed'' \<in> snd ` set deps then wtCompleted W i db w else wtStarted W i db w)"
proof (cases "''healthy'' \<in> snd ` set deps")
  case True
  then have "strictest_of '''' deps = ''healthy''" by (simp only: strictest_iff)
  with True assms show ?thesis by (simp add: waitCondition_def)
next
  case False
  then have h: "strictest_of '''' deps \<noteq> ''healthy''" by (simp only: strictest_iff not_False_eq_True)
  have c: "strictest_of '''' deps = ''completed'' \<longleftrightarrow> ''completed'' \<in> snd ` set deps"
    using False by (simp only: strictest_iff not_False_eq_True simp_thms)
  show ?thesis using False assms h by (simp add: waitCondition_def c)
qed

text \<open>Waiting for a start always returns, and it succeeds exactly when one of the polls before the
  deadline sees the resource running or succeeded and no earlier poll was decisive.\<close>

theorem waitStarted_correct:
  "fst (waitStarted reg tick n i w) = None \<longleftrightarrow>
   (\<exists>k \<le> n. started_check reg i ((tick ^^ k) w) = Some None \<and>
     (\<forall>j < k. started_check reg i ((tick ^^ j) w) = None))"
  by (rule waitStarted_iff)

text \<open>C8: A batch of create requests runs strictly in order, and it is all or rolled back: without an
  error every request has succeeded and every wait was satisfied; with an error there is a first
  request that was cancelled, failed, or missed its condition, nothing after it has run, and the
  requests before it (and the one with the unmet condition) are deleted again in reverse order.\<close>

theorem executeCreates_outcome:
  assumes "executeCreates ctx n reqs rc W conditions [] st = (e, n', st')" and "\<not> panicked e"
  shows "(e = None \<longrightarrow> run_creates rc W conditions reqs st = Some st') \<and>
    (e \<noteq> None \<longrightarrow> (\<exists>pre r post st1 own st2. reqs = pre @ r # post \<and> run_creates rc W conditions pre st = Some st1 \<and>
      create_fails rc W conditions r st1 own st2 \<and> snd (rollback_loop (rev (pre @ own)) rc st2) = st'))"
  using executeCreates_cases [OF assms] by (simp add: rollback_def)

text \<open>A rollback undoes the resources but not the records: it leaves every rollout as it was, so the
  rolled-back resources stay recorded with their status and body, and the links of the database
  stay consistent.\<close>

theorem rollback_keeps_rollouts:
  assumes "bolt_ok (rcBolt rc)" and "links_ok (rcBolt rc) d" and "rollback applied rc (d, w) = (e, d', w')"
  shows "LoadRollout (rcBolt rc) d' = LoadRollout (rcBolt rc) d \<and> links_ok (rcBolt rc) d'"
  using rollback_loop_invariant [OF _ assms(1,2)] assms(3) LoadRollout_cong [of d' d] by (simp add: rollback_def)

text \<open>Requests run along the persisted dependencies: with the links that \<open>loadLinks\<close> reads from a
  consistent database, and no cycle among the resources of the batch, every stored dependency
  between two of them is created target first and deleted source first.\<close>

theorem apply_follows_links:
  assumes "bolt_ok B" and "links_ok B d" and "bGet B (dbLinksBySource d) '''' = None"
    and "acyclic (links B d \<inter> GetSubjectId ` set rs \<times> GetSubjectId ` set rs)"
  shows "\<exists>ls. loadLinks B d = Inr ls \<and>
    (\<forall>(s, t) \<in> links B d \<inter> GetSubjectId ` set rs \<times> GetSubjectId ` set rs.
       comes_before (map GetSubjectId (topoSortRequests rs ls False)) t s \<and>
       comes_before (map GetSubjectId (topoSortRequests rs ls True)) s t)"
proof -
  obtain ls where ls: "loadLinks B d = Inr ls" "link_pair ` set ls = links B d"
    using loadLinks_spec [OF assms(1-3)] by blast
  have ac: "acyclic (set (batch_edges (GetSubjectId ` set rs) ls))"
    using assms(4) ls(2) by (simp add: batch_edges_pairs)
  have "comes_before (map GetSubjectId (topoSortRequests rs ls False)) t s \<and>
      comes_before (map GetSubjectId (topoSortRequests rs ls True)) s t"
    if "(s, t) \<in> links B d" "s \<in> GetSubjectId ` set rs" "t \<in> GetSubjectId ` set rs" for s t
  proof -
    from that(1) have "(s, t) \<in> link_pair ` set ls" by (simp only: ls(2))
    then obtain l where l: "l \<in> set ls" "refId (lkSource l) = s" "refId (lkTarget l) = t"
      by (auto simp: link_pair_def)
    from batch_order [OF ac l(1)] that(2,3) l(2,3) show ?thesis by simp
  qed
  with ls(1) show ?thesis by blast
qed

subsection \<open>Witnesses\<close>

definition count_waits :: "('b, nat) waits" where
  "count_waits = \<lparr>wtHealthy = \<lambda>i db w. (None, w + 100), wtCompleted = \<lambda>i db w. (Some (Err ''exited with code 1''), w),
     wtStarted = \<lambda>i db w. (None, w)\<rparr>"

theorem waitCondition_dispatch_witness:
  "waitCondition count_waits ''p/db'' [(''p/db'', [(''p/a'', ''completed''), (''p/b'', ''healthy'')])] empty_db 1 = (None, 101)"
  using waitCondition_dispatch [of "[(''p/db'', [(''p/a'', ''completed''), (''p/b'', ''healthy'')])]" "''p/db''"
      "[(''p/a'', ''completed''), (''p/b'', ''healthy'')]" count_waits empty_db 1]
  by (simp add: count_waits_def)

definition slow_service :: "nat rdef" where
  "slow_service = widget_ok\<lparr>defKey := ServiceKey,
     defGetProviderStatus := \<lambda>r w. Inr \<lparr>stShort = (if w < 2 then RsPending else RsRunning), stDetails = RNil\<rparr>\<rparr>"

theorem waitStarted_correct_witness:
  "fst (waitStarted [(ServiceKey, slow_service)] Suc 2 ''p/db'' 0) = None \<and>
   fst (waitStarted [(ServiceKey, slow_service)] Suc 1 ''p/db'' 0) \<noteq> None"
proof -
  have c: "started_check [(ServiceKey, slow_service)] ''p/db'' w = (if w < 2 then None else Some None)" for w
    by (simp add: started_check_def NewReference_def GetDefinition_def slow_service_def rs_defs)
  have "\<exists>k \<le> 2. started_check [(ServiceKey, slow_service)] ''p/db'' ((Suc ^^ k) 0) = Some None \<and>
     (\<forall>j < k. started_check [(ServiceKey, slow_service)] ''p/db'' ((Suc ^^ j) 0) = None)"
    by (intro exI [of _ 2]) (simp add: c)
  moreover have "\<not> (\<exists>k \<le> 1. started_check [(ServiceKey, slow_service)] ''p/db'' ((Suc ^^ k) 0) = Some None \<and>
     (\<forall>j < k. started_check [(ServiceKey, slow_service)] ''p/db'' ((Suc ^^ j) 0) = None))"
    by (auto simp: c)
  ultimately show ?thesis
    using waitStarted_correct [of "[(ServiceKey, slow_service)]" Suc 2 "''p/db''" 0]
      waitStarted_correct [of "[(ServiceKey, slow_service)]" Suc 1 "''p/db''" 0] by blast
qed

text \<open>Two creates of which the second misses its condition: both are deleted again and the counter of
  the world returns to 0, while both rollouts remain.\<close>

definition failing_batch :: "request list" where
  "failing_batch = [CreateRequest ''p/a'' (RDoc JNull) ''g/v1/W'', CreateRequest ''p/b'' (RDoc JNull) ''g/v1/W'']"

lemma failing_batch_run:
  "fst (executeCreates (\<lambda>n. False) 0 failing_batch widget_ctx count_waits [(''p/b'', [(''p/c'', ''completed'')])] [] (empty_db, 0)) =
     Some (Err ''exited with code 1'')"
  "snd (snd (snd (executeCreates (\<lambda>n. False) 0 failing_batch widget_ctx count_waits [(''p/b'', [(''p/c'', ''completed'')])] [] (empty_db, 0)))) = 0"
  by code_simp+

theorem executeCreates_outcome_witness:
  "\<exists>pre r post st1 own st2. failing_batch = pre @ r # post \<and>
     create_fails widget_ctx count_waits [(''p/b'', [(''p/c'', ''completed'')])] r st1 own st2 \<and>
     snd (snd (rollback_loop (rev (pre @ own)) widget_ctx st2)) = 0"
proof -
  obtain e n' st' where x: "executeCreates (\<lambda>n. False) 0 failing_batch widget_ctx count_waits
      [(''p/b'', [(''p/c'', ''completed'')])] [] (empty_db, 0) = (e, n', st')" by (metis surj_pair)
  have e: "e = Some (Err ''exited with code 1'')" "snd st' = 0"
    using failing_batch_run unfolding x by simp_all
  have "\<not> panicked e" using e(1) by (simp add: panicked_def)
  from executeCreates_outcome [OF x this] e(1) obtain pre r post st1 own st2 where o: "failing_batch = pre @ r # post"
    "create_fails widget_ctx count_waits [(''p/b'', [(''p/c'', ''completed'')])] r st1 own st2"
    "snd (rollback_loop (rev (pre @ own)) widget_ctx st2) = st'" by blast
  from e(2) have "snd (snd (rollback_loop (rev (pre @ own)) widget_ctx st2)) = 0" unfolding o(3) .
  with o(1,2) show ?thesis by blast
qed

theorem rollback_keeps_rollouts_witness:
  "\<exists>e d' w'. rollback failing_batch widget_ctx (linked_db, 2) = (e, d', w') \<and>
     LoadRollout mem_bolt d' = LoadRollout mem_bolt linked_db"
proof -
  have l: "links_ok (rcBolt widget_ctx) linked_db"
    using AddLink_links [OF mem_bolt_ok empty_db_links(1) linked_db_add] by (simp add: widget_ctx_simps(2))
  obtain e d' w' where "rollback failing_batch widget_ctx (linked_db, 2) = (e, d', w')" by (metis surj_pair)
  with rollback_keeps_rollouts [OF widget_ctx_simps(1) l this] show ?thesis by (auto simp: widget_ctx_simps(2))
qed

theorem apply_follows_links_witness:
  "\<exists>ls. loadLinks mem_bolt linked_db = Inr ls \<and>
     comes_before (map GetSubjectId (topoSortRequests web_db_requests ls False)) ''p/db'' ''p/web''"
proof -
  have l: "links_ok mem_bolt linked_db \<and> links mem_bolt linked_db = {(''p/web'', ''p/db'')}"
    using AddLink_links [OF mem_bolt_ok empty_db_links(1) linked_db_add]
    by (simp add: empty_db_links(2) web_db_link_def plain_ref_def)
  have b: "bGet mem_bolt (dbLinksBySource linked_db) '''' = None"
    by (simp add: linked_db_def AddLink_def addTo_def loadTargets_def mem_bolt_def empty_db_def web_db_link_def plain_ref_def)
  have i: "links mem_bolt linked_db \<inter> GetSubjectId ` set web_db_requests \<times> GetSubjectId ` set web_db_requests =
      {(''p/web'', ''p/db'')}" using l by (auto simp: web_db_requests_def)
  have "acyclic {(''p/web'', ''p/db'')}" by (rule acyclicI) (auto simp: trancl_insert)
  with apply_follows_links [OF mem_bolt_ok conjunct1 [OF l] b, of web_db_requests] show ?thesis unfolding i by auto
qed

end
