(* ===== verification/Go_Paths.thy ===== *)
theory Go_Paths
  imports Go_Strings
begin

text \<open>The functions of Go's \<open>path/filepath\<close> that the sources use, on Unix paths.\<close>

text \<open>\<open>filepath.Clean\<close> of a rooted path, as a stack of elements, and \<open>filepath.Abs\<close>.\<close>

fun clean_elems :: "string list \<Rightarrow> string list \<Rightarrow> string list" where
  "clean_elems stack [] = rev stack"
| "clean_elems stack (e # es) =
     (if e = '''' \<or> e = ''.'' then clean_elems stack es
      else if e = ''..'' then clean_elems (case stack of [] \<Rightarrow> [] | _ # st \<Rightarrow> st) es
      else clean_elems (e # stack) es)"

definition clean_rooted :: "string \<Rightarrow> string" where
  "clean_rooted p = ''/'' @ join_with ''/'' (clean_elems [] (split_char (CHR ''/'') p))"

definition filepath_Abs :: "string option \<Rightarrow> string \<Rightarrow> error + string" where
  "filepath_Abs cwd p =
     (if has_prefix p ''/'' then Inr (clean_rooted p)
      else case cwd of None \<Rightarrow> Inl (Err ''getwd'') | Some d \<Rightarrow> Inr (clean_rooted (d @ ''/'' @ p)))"

text \<open>\<open>filepath.Clean\<close> of any path and \<open>filepath.Join\<close> of two.\<close>

fun clean_relative :: "string list \<Rightarrow> string list \<Rightarrow> string list" where
  "clean_relative stack [] = rev stack"
| "clean_relative stack (e # es) =
     (if e = '''' \<or> e = ''.'' then clean_relative stack es
      else if e = ''..'' then
        (case stack of
           [] \<Rightarrow> clean_relative [''..''] es
         | upper # st \<Rightarrow> if upper = ''..'' then clean_relative (''..'' # stack) es else clean_relative st es)
      else clean_relative (e # stack) es)"

definition filepath_Clean :: "string \<Rightarrow> string" where
  "filepath_Clean p =
     (if has_prefix p ''/'' then clean_rooted p
      else let r = join_with ''/'' (clean_relative [] (split_char (CHR ''/'') p))
           in if r = '''' then ''.'' else r)"

definition join_path :: "string \<Rightarrow> string \<Rightarrow> string" where
  "join_path a b =
     (if a = '''' then (if b = '''' then '''' else filepath_Clean b) else filepath_Clean (a @ ''/'' @ b))"

text \<open>\<open>filepath.Base\<close> on a non-empty path.\<close>

definition filepath_Base :: "string \<Rightarrow> string" where
  "filepath_Base p =
     (if p = '''' then ''.''
      else let q = rev (dropWhile (\<lambda>c. c = CHR ''/'') (rev p))
           in if q = '''' then ''/'' else (case cut_last (CHR ''/'') q of None \<Rightarrow> q | Some (a, b) \<Rightarrow> b))"

end
