(* ===== verification/Cri_Images.thy ===== *)
theory Cri_Images
  imports Go_Paths
begin

text \<open>
  \<open>src/pkg/cri/import.go\<close>: the references of images on the local filesystem and \<open>EnsureImage\<close>.

  The runtime, the image importer of containerd and the filesystem are the record \<open>image_env\<close>
  of answers; the operations asked of them are recorded in order as \<open>image_op\<close> values.  Inside
  \<open>ImportLocalImage\<close> only \<open>selectPlatformImage\<close> is the program's own logic, and it is modelled
  on its own.
\<close>

subsection \<open>References of local images\<close>

definition LocalImageDomain :: string where "LocalImageDomain = ''nix-compose.local''"
definition nixStoreDir :: string where "nixStoreDir = ''/nix/store/''"
definition maxTagLength :: nat where "maxTagLength = 128"

definition IsLocalImageRef :: "string \<Rightarrow> bool" where
  "IsLocalImageRef ref = has_prefix ref ''/''"

definition isRefNameChar :: "char \<Rightarrow> bool" where
  "isRefNameChar r \<longleftrightarrow> (CHR ''a'' \<le> r \<and> r \<le> CHR ''z'') \<or> (CHR ''0'' \<le> r \<and> r \<le> CHR ''9'') \<or>
     r = CHR ''.'' \<or> r = CHR ''_'' \<or> r = CHR ''-''"

definition isRefTagChar :: "char \<Rightarrow> bool" where
  "isRefTagChar r \<longleftrightarrow> isRefNameChar r \<or> (CHR ''A'' \<le> r \<and> r \<le> CHR ''Z'')"

definition replaceDisallowed :: "string \<Rightarrow> (char \<Rightarrow> bool) \<Rightarrow> string" where
  "replaceDisallowed s allow = map (\<lambda>r. if allow r then r else CHR ''-'') s"

definition is_sep :: "char \<Rightarrow> bool" where
  "is_sep r \<longleftrightarrow> r \<in> {CHR ''.'', CHR ''_'', CHR ''-''}"

definition sanitizeImageName :: "string \<Rightarrow> string" where
  "sanitizeImageName s =
     (let out = rev (dropWhile is_sep (rev (dropWhile is_sep (replaceDisallowed (to_lower s) isRefNameChar))))
      in if out = '''' then ''image'' else out)"

definition sanitizeImageTag :: "string \<Rightarrow> string" where
  "sanitizeImageTag s =
     (let out = replaceDisallowed s isRefTagChar
      in if out = '''' \<or> has_prefix out ''.'' \<or> has_prefix out ''-'' then ''latest''
         else if length out > maxTagLength then take maxTagLength out else out)"

definition deriveLocalRef :: "string \<Rightarrow> string \<times> string" where
  "deriveLocalRef path =
     (let base = trim_suffix (filepath_Base path) ''.tar'';
          plain = (sanitizeImageName base, ''latest'')
      in if has_prefix path nixStoreDir
         then (case cut_char (CHR ''-'') base of
                 Some (hash, rest) \<Rightarrow> if rest \<noteq> '''' then (sanitizeImageName rest, sanitizeImageTag hash) else plain
               | None \<Rightarrow> plain)
         else plain)"

definition ResolvedImageRef :: "string \<Rightarrow> string" where
  "ResolvedImageRef ref =
     (if \<not> IsLocalImageRef ref then ref
      else case deriveLocalRef ref of (name, tag) \<Rightarrow> LocalImageDomain @ ''/'' @ name @ '':'' @ tag)"

definition isContentAddressed :: "string \<Rightarrow> bool" where
  "isContentAddressed ref = has_prefix ref nixStoreDir"

subsection \<open>EnsureImage\<close>

record local_image =
  liPath :: string
  liIsDir :: bool
  liRef :: string
  liContentAddressed :: bool

text \<open>\<open>os.Stat\<close> answers whether a path is a directory; \<open>ieImport\<close> is \<open>ImportLocalImage\<close>.\<close>

record image_env =
  ieStat :: "string \<Rightarrow> error + bool"
  ieImageStatus :: "string \<Rightarrow> error + string option"
  iePullImage :: "string \<Rightarrow> error option"
  ieImport :: "local_image \<Rightarrow> error option"

datatype image_op = OpStatus string | OpPull string | OpStat string | OpImport local_image

definition ParseLocalImage :: "image_env \<Rightarrow> string \<Rightarrow> (error + local_image) \<times> image_op list" where
  "ParseLocalImage env path =
     (case ieStat env path of
        Inl e \<Rightarrow> (Inl e, [OpStat path])
      | Inr isDir \<Rightarrow>
          let li = \<lparr>liPath = path, liIsDir = isDir, liRef = ResolvedImageRef path,
                    liContentAddressed = isContentAddressed path\<rparr>
          in if isDir
             then let marker = clean_rooted (path @ ''/oci-layout'')
                  in case ieStat env marker of
                       Inl e \<Rightarrow> (Inl (Err ''not an OCI layout directory''), [OpStat path, OpStat marker])
                     | Inr _ \<Rightarrow> (Inr li, [OpStat path, OpStat marker])
             else (Inr li, [OpStat path]))"

definition imagePresent :: "image_env \<Rightarrow> string \<Rightarrow> bool" where
  "imagePresent env ref = (case ieImageStatus env ref of Inl _ \<Rightarrow> False | Inr img \<Rightarrow> img \<noteq> None)"

definition EnsureImage :: "image_env \<Rightarrow> string \<Rightarrow> (error + string) \<times> image_op list" where
  "EnsureImage env ref =
     (if ref = '''' then (Inl (Err ''empty image reference''), [])
      else if \<not> IsLocalImageRef ref
      then if imagePresent env ref then (Inr ref, [OpStatus ref])
           else case iePullImage env ref of
                  Some e \<Rightarrow> (Inl e, [OpStatus ref, OpPull ref])
                | None \<Rightarrow> (Inr ref, [OpStatus ref, OpPull ref])
      else let resolved = ResolvedImageRef ref;
               asked = (if isContentAddressed ref then [OpStatus resolved] else [])
           in if isContentAddressed ref \<and> imagePresent env resolved then (Inr resolved, asked)
              else case ParseLocalImage env ref of
                     (Inl e, ops) \<Rightarrow> (Inl e, asked @ ops)
                   | (Inr local, ops) \<Rightarrow>
                       (case ieImport env local of
                          Some e \<Rightarrow> (Inl e, asked @ ops @ [OpImport local])
                        | None \<Rightarrow> (Inr (liRef local), asked @ ops @ [OpImport local])))"

text \<open>\<open>selectPlatformImage\<close> on the imported records, each with its name and the platform of its
  target; \<open>matches\<close> is the matcher of the host platform.  The result is an index.\<close>

record 'p imported_image =
  imName :: string
  imPlatform :: "'p option"

fun select_loop :: "('p \<Rightarrow> bool) \<Rightarrow> string \<Rightarrow> nat option \<Rightarrow> nat \<Rightarrow> 'p imported_image list \<Rightarrow> nat option" where
  "select_loop matches ref fallback i [] = fallback"
| "select_loop matches ref fallback i (im # ims) =
     (if imName im \<noteq> ref then select_loop matches ref fallback (Suc i) ims
      else case imPlatform im of
             None \<Rightarrow> select_loop matches ref (Some i) (Suc i) ims
           | Some p \<Rightarrow> if matches p then Some i else select_loop matches ref fallback (Suc i) ims)"

definition selectPlatformImage :: "('p \<Rightarrow> bool) \<Rightarrow> 'p imported_image list \<Rightarrow> string \<Rightarrow> error + nat" where
  "selectPlatformImage matches imported ref =
     (case select_loop matches ref None 0 imported of
        Some i \<Rightarrow> Inr i | None \<Rightarrow> Inl (Err ''no manifest for platform''))"

subsection \<open>Local references are well formed\<close>

lemma replaceDisallowed_chars: "allow (CHR ''-'') \<Longrightarrow> c \<in> set (replaceDisallowed s allow) \<Longrightarrow> allow c"
  by (auto simp: replaceDisallowed_def split: if_splits)

lemma replaceDisallowed_id: "list_all allow s \<Longrightarrow> replaceDisallowed s allow = s"
  by (induction s) (auto simp: replaceDisallowed_def)

lemma isRefNameChar_minus [simp]: "isRefNameChar (CHR ''-'')" and isRefTagChar_minus [simp]: "isRefTagChar (CHR ''-'')"
  by (simp_all add: isRefNameChar_def isRefTagChar_def)

definition image_name_ok :: "string \<Rightarrow> bool" where
  "image_name_ok n \<longleftrightarrow> n \<noteq> '''' \<and> list_all isRefNameChar n \<and> \<not> is_sep (hd n) \<and> \<not> is_sep (last n)"

definition image_tag_ok :: "string \<Rightarrow> bool" where
  "image_tag_ok t \<longleftrightarrow> t \<noteq> '''' \<and> list_all isRefTagChar t \<and> length t \<le> maxTagLength \<and> hd t \<noteq> CHR ''.'' \<and> hd t \<noteq> CHR ''-''"

lemma last_dropWhile: "dropWhile P s \<noteq> [] \<Longrightarrow> last (dropWhile P s) = last s"
  by (metis append_is_Nil_conv last_appendR takeWhile_dropWhile_id)

lemma trim_ends:
  assumes "out = rev (dropWhile P (rev (dropWhile P s)))" and "out \<noteq> []"
  shows "\<not> P (hd out) \<and> \<not> P (last out)"
proof -
  let ?d = "dropWhile P s"
  have "\<not> P (hd (rev out))" using assms hd_dropWhile [of P "rev ?d"] by auto
  moreover have "?d \<noteq> []" using assms by (metis dropWhile.simps(1) rev.simps(1))
  moreover have "hd out = hd ?d" using assms last_dropWhile [of P "rev ?d"] by (simp add: hd_rev last_rev)
  ultimately show ?thesis using hd_dropWhile [of P s] assms(2) by (simp add: hd_rev)
qed

lemma sanitizeImageName_ok: "image_name_ok (sanitizeImageName s)"
proof -
  define out where "out = rev (dropWhile is_sep (rev (dropWhile is_sep (replaceDisallowed (to_lower s) isRefNameChar))))"
  have chars: "list_all isRefNameChar out"
    using replaceDisallowed_chars [of isRefNameChar] unfolding list_all_iff out_def
    by (auto dest!: set_dropWhileD)
  have "image_name_ok ''image''" by (simp add: image_name_ok_def isRefNameChar_def is_sep_def)
  moreover have "out \<noteq> '''' \<Longrightarrow> image_name_ok out"
    using chars trim_ends [OF out_def] by (simp add: image_name_ok_def)
  moreover have "sanitizeImageName s = (if out = '''' then ''image'' else out)"
    by (simp add: sanitizeImageName_def out_def Let_def)
  ultimately show ?thesis by simp
qed

lemma image_tag_latest: "image_tag_ok ''latest''"
  by (simp add: image_tag_ok_def isRefTagChar_def isRefNameChar_def maxTagLength_def)

lemma has_prefix_char: "has_prefix s [c] \<longleftrightarrow> s \<noteq> [] \<and> hd s = c"
  by (cases s) (auto simp: has_prefix_def)

lemma sanitizeImageTag_ok: "image_tag_ok (sanitizeImageTag s)"
proof -
  define out where "out = replaceDisallowed s isRefTagChar"
  have chars: "list_all isRefTagChar out"
    unfolding list_all_iff out_def using replaceDisallowed_chars [of isRefTagChar] by auto
  show ?thesis
  proof (cases "out = '''' \<or> has_prefix out ''.'' \<or> has_prefix out ''-''")
    case True
    then have "sanitizeImageTag s = ''latest''" by (simp add: sanitizeImageTag_def Let_def out_def)
    then show ?thesis by (simp only: image_tag_latest)
  next
    case False
    then have "sanitizeImageTag s = take maxTagLength out" by (simp add: sanitizeImageTag_def Let_def out_def)
    moreover have "list_all isRefTagChar (take maxTagLength out)"
      using chars by (auto simp: list_all_iff dest: in_set_takeD)
    moreover have "0 < maxTagLength" by (simp add: maxTagLength_def)
    ultimately show ?thesis using False by (auto simp: image_tag_ok_def has_prefix_char)
  qed
qed

lemma deriveLocalRef_ok: "image_name_ok (fst (deriveLocalRef p)) \<and> image_tag_ok (snd (deriveLocalRef p))"
  by (simp add: deriveLocalRef_def Let_def sanitizeImageName_ok sanitizeImageTag_ok image_tag_latest split: option.splits)

text \<open>The reference under which any local path is registered is a name and a tag of the OCI grammar
  below the synthetic registry host, the tag no longer than 128 characters; and no local
  reference is taken for a path again, so resolving twice changes nothing.\<close>

theorem ResolvedImageRef_wellformed:
  "(\<forall>path. IsLocalImageRef path \<longrightarrow> (\<exists>name tag. ResolvedImageRef path = LocalImageDomain @ ''/'' @ name @ '':'' @ tag \<and>
      image_name_ok name \<and> image_tag_ok tag)) \<and>
   (\<forall>ref. \<not> IsLocalImageRef (ResolvedImageRef ref) \<and> ResolvedImageRef (ResolvedImageRef ref) = ResolvedImageRef ref)"
proof -
  have "IsLocalImageRef path \<Longrightarrow> ResolvedImageRef path = LocalImageDomain @ ''/'' @ fst (deriveLocalRef path) @ '':'' @ snd (deriveLocalRef path)" for path
    by (simp add: ResolvedImageRef_def split: prod.splits)
  moreover have "\<not> IsLocalImageRef (ResolvedImageRef ref)" for ref
    by (auto simp: ResolvedImageRef_def IsLocalImageRef_def has_prefix_def LocalImageDomain_def split: prod.splits)
  ultimately show ?thesis by (metis deriveLocalRef_ok ResolvedImageRef_def)
qed

text \<open>Witness of \<open>ResolvedImageRef_wellformed\<close>.\<close>

theorem ResolvedImageRef_wellformed_witness:
  "\<exists>name tag. ResolvedImageRef ''/images/My App.tar'' = LocalImageDomain @ ''/'' @ name @ '':'' @ tag \<and>
     image_name_ok name \<and> image_tag_ok tag"
  using ResolvedImageRef_wellformed [THEN conjunct1, THEN spec [of _ "''/images/My App.tar''"]]
  by (simp add: IsLocalImageRef_def has_prefix_def)

subsection \<open>Store paths\<close>

lemma filepath_Base_last: "b \<noteq> [] \<Longrightarrow> CHR ''/'' \<notin> set b \<Longrightarrow> filepath_Base (a @ CHR ''/'' # b) = b"
proof -
  assume b: "b \<noteq> []" "CHR ''/'' \<notin> set b"
  then have "hd (rev b) \<noteq> CHR ''/''" by (metis hd_in_set rev_is_Nil_conv set_rev)
  then have "dropWhile (\<lambda>c. c = CHR ''/'') (rev b @ CHR ''/'' # rev a) = rev b @ CHR ''/'' # rev a"
    using b by (cases "rev b") auto
  then have q: "rev (dropWhile (\<lambda>c. c = CHR ''/'') (rev (a @ CHR ''/'' # b))) = a @ CHR ''/'' # b" by simp
  have "cut_last (CHR ''/'') (a @ CHR ''/'' # b) = Some (a, b)" using b by (simp add: cut_last_Some)
  then show ?thesis unfolding filepath_Base_def q Let_def by simp
qed

lemma has_suffix_append: "has_suffix (s @ p) p"
  by (simp add: has_suffix_def)

lemma trim_suffix_append: "trim_suffix (s @ p) p = s"
  by (simp add: trim_suffix_def has_suffix_append)

text \<open>An archive \<open>/nix/store/<hash>-<name>.tar\<close> is registered under its store hash, so two store
  paths with different hashes never share a reference; but only the last path element is looked
  at, so files of the same name below different store paths do share one, although
  \<open>isContentAddressed\<close> takes both for content-addressed.\<close>

theorem ResolvedImageRef_store:
  assumes "hash \<noteq> ''''" and "list_all isRefTagChar hash" and "length hash \<le> maxTagLength"
    and "CHR ''-'' \<notin> set hash" and "hd hash \<noteq> CHR ''.''" and "name \<noteq> ''''" and "CHR ''/'' \<notin> set name"
  shows "ResolvedImageRef (nixStoreDir @ hash @ ''-'' @ name @ ''.tar'') =
           LocalImageDomain @ ''/'' @ sanitizeImageName name @ '':'' @ hash \<and>
         (\<forall>drv drv'. isContentAddressed (nixStoreDir @ drv @ ''/'' @ name) \<and>
            isContentAddressed (nixStoreDir @ drv' @ ''/'' @ name) \<and>
            ResolvedImageRef (nixStoreDir @ drv @ ''/'' @ name) = ResolvedImageRef (nixStoreDir @ drv' @ ''/'' @ name))"
proof
  have slash: "CHR ''/'' \<notin> set hash"
    using assms(2) by (auto simp: list_all_iff isRefTagChar_def isRefNameChar_def)
  have tag: "sanitizeImageTag hash = hash"
  proof -
    have "hd hash \<noteq> CHR ''-''" using assms(1,4) by (metis hd_in_set)
    then show ?thesis using assms(1-3,5)
      by (simp add: sanitizeImageTag_def replaceDisallowed_id has_prefix_char)
  qed
  let ?base = "hash @ ''-'' @ name @ ''.tar''"
  have base: "filepath_Base (nixStoreDir @ ?base) = ?base"
    using filepath_Base_last [of ?base "''/nix/store''"] assms slash by (simp add: nixStoreDir_def)
  have "trim_suffix (hash @ ''-'' @ name @ ''.tar'') ''.tar'' = hash @ ''-'' @ name"
    using trim_suffix_append [of "hash @ ''-'' @ name" "''.tar''"] by simp
  moreover have "cut_char (CHR ''-'') (hash @ ''-'' @ name) = Some (hash, name)"
    using assms(4) by (simp add: cut_char_Some)
  ultimately have "deriveLocalRef (nixStoreDir @ ?base) = (sanitizeImageName name, hash)"
    unfolding deriveLocalRef_def base Let_def using assms(6) tag by simp
  moreover have "IsLocalImageRef (nixStoreDir @ ?base)"
    by (simp add: IsLocalImageRef_def has_prefix_def nixStoreDir_def)
  ultimately show "ResolvedImageRef (nixStoreDir @ ?base) = LocalImageDomain @ ''/'' @ sanitizeImageName name @ '':'' @ hash"
    by (simp add: ResolvedImageRef_def)
next
  have base: "filepath_Base (nixStoreDir @ d @ ''/'' @ name) = name" for d
    using filepath_Base_last [OF assms(6,7), of "nixStoreDir @ d"] by simp
  define r where "r = deriveLocalRef (nixStoreDir @ [] @ ''/'' @ name)"
  have same: "deriveLocalRef (nixStoreDir @ d @ ''/'' @ name) = r" for d
    unfolding r_def deriveLocalRef_def base by (simp only: has_prefix_append)
  have "IsLocalImageRef (nixStoreDir @ d)" for d
    by (simp add: IsLocalImageRef_def has_prefix_def nixStoreDir_def)
  then show "\<forall>drv drv'. isContentAddressed (nixStoreDir @ drv @ ''/'' @ name) \<and>
            isContentAddressed (nixStoreDir @ drv' @ ''/'' @ name) \<and>
            ResolvedImageRef (nixStoreDir @ drv @ ''/'' @ name) = ResolvedImageRef (nixStoreDir @ drv' @ ''/'' @ name)"
    unfolding ResolvedImageRef_def same isContentAddressed_def by simp
qed

text \<open>Witness of \<open>ResolvedImageRef_store\<close>.\<close>

theorem ResolvedImageRef_store_witness:
  "ResolvedImageRef (nixStoreDir @ ''0abc9'' @ ''-'' @ ''web'' @ ''.tar'') =
     LocalImageDomain @ ''/'' @ sanitizeImageName ''web'' @ '':'' @ ''0abc9'' \<and>
   ResolvedImageRef (nixStoreDir @ ''0abc9-a'' @ ''/'' @ ''web'') = ResolvedImageRef (nixStoreDir @ ''1xyz8-b'' @ ''/'' @ ''web'')"
proof -
  have hyps: "''0abc9'' \<noteq> ''''" "list_all isRefTagChar ''0abc9''" "length ''0abc9'' \<le> maxTagLength" "CHR ''-'' \<notin> set ''0abc9''"
    "hd ''0abc9'' \<noteq> CHR ''.''" "''web'' \<noteq> ''''" "CHR ''/'' \<notin> set ''web''"
    by code_simp+
  note store = ResolvedImageRef_store [OF hyps]
  show ?thesis using store [THEN conjunct1] store [THEN conjunct2, THEN spec [of _ "''0abc9-a''"], THEN spec [of _ "''1xyz8-b''"]]
    by blast
qed

subsection \<open>EnsureImage and the platform\<close>

lemma ParseLocalImage_ref: "ParseLocalImage env p = (Inr li, ops) \<Longrightarrow> liRef li = ResolvedImageRef p"
  by (auto simp: ParseLocalImage_def Let_def split: sum.splits if_splits)

lemma ParseLocalImage_ops: "set (snd (ParseLocalImage env p)) \<subseteq> range OpStat"
  by (auto simp: ParseLocalImage_def Let_def split: sum.splits)

text \<open>When \<open>EnsureImage\<close> succeeds, it returns the reference that \<open>ResolvedImageRef\<close> predicts; a
  local path is never pulled and a registry reference never imported or looked up on disk; an
  image the runtime already reports is neither pulled nor imported, unless it is a local path
  outside the store; and a failed status probe counts as an absent image.\<close>

theorem EnsureImage_correct:
  fixes env :: image_env and ref :: string
  defines "res \<equiv> fst (EnsureImage env ref)" and "ops \<equiv> snd (EnsureImage env ref)"
  shows "(\<forall>r. res = Inr r \<longrightarrow> ref \<noteq> '''' \<and> r = ResolvedImageRef ref) \<and>
         (IsLocalImageRef ref \<longrightarrow> (\<forall>i. OpPull i \<notin> set ops)) \<and>
         (\<not> IsLocalImageRef ref \<longrightarrow> set ops \<subseteq> {OpStatus ref, OpPull ref}) \<and>
         (ref \<noteq> '''' \<and> imagePresent env (ResolvedImageRef ref) \<and> (IsLocalImageRef ref \<longrightarrow> isContentAddressed ref) \<longrightarrow>
            res = Inr (ResolvedImageRef ref) \<and> ops = [OpStatus (ResolvedImageRef ref)]) \<and>
         (IsLocalImageRef ref \<and> \<not> isContentAddressed ref \<and> res = Inr (ResolvedImageRef ref) \<longrightarrow>
            (\<exists>li. OpImport li \<in> set ops \<and> liPath li = ref))"
proof -
  have registry: "\<not> IsLocalImageRef ref \<Longrightarrow> ResolvedImageRef ref = ref" by (simp add: ResolvedImageRef_def)
  show ?thesis
  proof (cases "ref = '''' \<or> \<not> IsLocalImageRef ref")
    case True
    then have "ref = '''' \<longrightarrow> \<not> IsLocalImageRef ref" by (simp add: IsLocalImageRef_def has_prefix_def)
    with True registry show ?thesis
      by (auto simp: res_def ops_def EnsureImage_def Let_def split: option.splits)
  next
    case False
    obtain p pops where p: "ParseLocalImage env ref = (p, pops)" by fastforce
    have pops: "OpPull i \<notin> set pops" for i using ParseLocalImage_ops [of env ref] p by auto
    show ?thesis
    proof (cases p)
      case (Inl e)
      with False p pops show ?thesis by (auto simp: res_def ops_def EnsureImage_def Let_def)
    next
      case (Inr li)
      have "liPath li = ref" using p Inr by (auto simp: ParseLocalImage_def Let_def split: sum.splits if_splits)
      with False p Inr pops ParseLocalImage_ref [of env ref li pops] show ?thesis
        by (auto simp: res_def ops_def EnsureImage_def Let_def split: option.splits)
    qed
  qed
qed

text \<open>Witness of \<open>EnsureImage_correct\<close>: an absent registry image is pulled.\<close>

theorem EnsureImage_correct_witness:
  "let env = \<lparr>ieStat = (\<lambda>_. Inl (Err ''enoent'')), ieImageStatus = (\<lambda>_. Inl (Err ''unavailable'')),
              iePullImage = (\<lambda>_. None), ieImport = (\<lambda>_. None)\<rparr>
   in EnsureImage env ''nginx'' = (Inr (ResolvedImageRef ''nginx''), [OpStatus ''nginx'', OpPull ''nginx''])"
proof -
  let ?env = "\<lparr>ieStat = (\<lambda>_. Inl (Err ''enoent'')), ieImageStatus = (\<lambda>_. Inl (Err ''unavailable'')),
              iePullImage = (\<lambda>_. None), ieImport = (\<lambda>_. None)\<rparr>"
  have "EnsureImage ?env ''nginx'' = (Inr ''nginx'', [OpStatus ''nginx'', OpPull ''nginx''])" by code_simp
  then show ?thesis using EnsureImage_correct [of ?env "''nginx''"] by simp
qed

lemma select_loop_spec:
  "select_loop matches ref fb i ims =
     (case filter (\<lambda>j. imName (ims ! j) = ref \<and> (\<exists>p. imPlatform (ims ! j) = Some p \<and> matches p)) [0..<length ims] of
        j # _ \<Rightarrow> Some (i + j)
      | [] \<Rightarrow> (case rev (filter (\<lambda>j. imName (ims ! j) = ref \<and> imPlatform (ims ! j) = None) [0..<length ims]) of
                 j # _ \<Rightarrow> Some (i + j) | [] \<Rightarrow> fb))"
proof (induction matches ref fb i ims rule: select_loop.induct)
  case (2 matches ref fb i im ims)
  have up: "[0..<length (im # ims)] = 0 # map Suc [0..<length ims]" by (simp only: length_Cons map_Suc_upt upt_conv_Cons zero_less_Suc)
  show ?case
    unfolding up using 2
    by (auto simp: filter_map comp_def rev_map split: option.splits list.splits)
qed simp

text \<open>Of the imported records with the wanted name, the first whose platform matches the host is
  selected; without one, the last that names no platform; without either, the import fails.\<close>

theorem selectPlatformImage_correct:
  "selectPlatformImage matches imported ref =
     (let named = filter (\<lambda>j. imName (imported ! j) = ref) [0..<length imported];
          matching = filter (\<lambda>j. \<exists>p. imPlatform (imported ! j) = Some p \<and> matches p) named;
          anonymous = filter (\<lambda>j. imPlatform (imported ! j) = None) named
      in if matching \<noteq> [] then Inr (hd matching)
         else if anonymous \<noteq> [] then Inr (last anonymous)
         else Inl (Err ''no manifest for platform''))"
proof -
  define M where "M = filter (\<lambda>j. imName (imported ! j) = ref \<and> (\<exists>p. imPlatform (imported ! j) = Some p \<and> matches p)) [0..<length imported]"
  define A where "A = filter (\<lambda>j. imName (imported ! j) = ref \<and> imPlatform (imported ! j) = None) [0..<length imported]"
  have "selectPlatformImage matches imported ref =
     (case (case M of j # _ \<Rightarrow> Some j | [] \<Rightarrow> (case rev A of j # _ \<Rightarrow> Some j | [] \<Rightarrow> None)) of
        Some i \<Rightarrow> Inr i | None \<Rightarrow> Inl (Err ''no manifest for platform''))"
    unfolding selectPlatformImage_def select_loop_spec M_def [symmetric] A_def [symmetric]
    by (cases M; cases "rev A") simp_all
  also have "\<dots> = (if M \<noteq> [] then Inr (hd M) else if A \<noteq> [] then Inr (last A) else Inl (Err ''no manifest for platform''))"
    by (cases M; cases A rule: rev_cases) simp_all
  finally show ?thesis by (simp add: M_def A_def Let_def conj_commute)
qed

end
