(* ===== verification/Cri_Convert.thy ===== *)
theory Cri_Convert
  imports Eval_Types Go_Paths
begin

text \<open>
  \<open>src/pkg/cri/convert.go\<close>, \<open>restart.go\<close> and \<open>validate.go\<close>: the
  translation of a service into the configuration that the container runtime takes.

  The CRI message types are a third-party package; the records here have the fields the code
  sets.  The table \<open>Signal_value\<close> of that package is the argument \<open>signals\<close>, the working
  directory that \<open>filepath.Abs\<close> asks for is \<open>cwd\<close>, and \<open>randomUID\<close> is \<open>uid\<close>.
\<close>

subsection \<open>Stop signals, labels and ports\<close>

definition ParseStopSignal :: "(string \<Rightarrow> int option) \<Rightarrow> string \<Rightarrow> int" where
  "ParseStopSignal signals s =
     (if s = '''' then 0
      else let u = to_upper s;
               upper = (if \<not> has_prefix u ''SIG'' then ''SIG'' @ u else u)
           in case signals upper of Some v \<Rightarrow> v | None \<Rightarrow> 0)"

datatype pod_network_mode = PodNetworkCNI | PodNetworkHost

definition LabelProject :: string where "LabelProject = ''nix-compose.project''"
definition LabelService :: string where "LabelService = ''nix-compose.service''"
definition LabelVersion :: string where "LabelVersion = ''nix-compose.version''"

definition ServiceLabels :: "string \<Rightarrow> string \<Rightarrow> string \<Rightarrow> string gomap" where
  "ServiceLabels project service version =
     [(LabelProject, project), (LabelService, service), (LabelVersion, version)]"

datatype protocol = Protocol_TCP | Protocol_UDP | Protocol_SCTP

record port_mapping =
  pmProtocol :: protocol
  pmContainerPort :: int
  pmHostPort :: int
  pmHostIp :: string

definition splitProto :: "string \<Rightarrow> string \<times> string" where
  "splitProto s = (case cut_last (CHR ''/'') s of Some (a, b) \<Rightarrow> (to_lower b, a) | None \<Rightarrow> (''tcp'', s))"

definition parseProto :: "string \<Rightarrow> error + protocol" where
  "parseProto proto =
     (if proto = ''tcp'' then Inr Protocol_TCP else if proto = ''udp'' then Inr Protocol_UDP
      else if proto = ''sctp'' then Inr Protocol_SCTP else Inl (Err (''unknown protocol '' @ proto)))"

definition parse_two :: "string \<Rightarrow> string \<Rightarrow> port_mapping \<Rightarrow> error + port_mapping" where
  "parse_two h c pm =
     (case parse_int 32 h of
        None \<Rightarrow> Inl (Err (''invalid host port '' @ h))
      | Some hp \<Rightarrow>
          (case parse_int 32 c of
             None \<Rightarrow> Inl (Err (''invalid container port '' @ c))
           | Some cp \<Rightarrow> Inr (pm\<lparr>pmHostPort := hp, pmContainerPort := cp\<rparr>)))"

fun parsePortParts :: "port_mapping \<Rightarrow> string list \<Rightarrow> error + port_mapping" where
  "parsePortParts pm [p] =
     (case parse_int 32 p of
        None \<Rightarrow> Inl (Err (''invalid port '' @ p)) | Some v \<Rightarrow> Inr (pm\<lparr>pmContainerPort := v\<rparr>))"
| "parsePortParts pm [h, c] = parse_two h c pm"
| "parsePortParts pm [ip, h, c] = parse_two h c (pm\<lparr>pmHostIp := ip\<rparr>)"
| "parsePortParts pm parts = Inl (Err (''invalid port format '' @ join_with '':'' parts))"

definition ParsePort :: "string \<Rightarrow> error + port_mapping" where
  "ParsePort s =
     (case splitProto s of (proto, rest) \<Rightarrow>
      (case parseProto proto of
         Inl e \<Rightarrow> Inl e
       | Inr p \<Rightarrow> parsePortParts \<lparr>pmProtocol = p, pmContainerPort = 0, pmHostPort = 0, pmHostIp = ''''\<rparr>
           (split_char (CHR '':'') rest)))"

definition clampPort :: "int \<Rightarrow> int" where
  "clampPort p = (let p1 = (if p > 65535 then 65535 else p) in if p1 < 0 then 0 else p1)"

definition named_mapping :: "named_port \<Rightarrow> port_mapping" where
  "named_mapping np =
     \<lparr>pmProtocol = (let l = to_lower (npProtocol np) in
        if l = ''udp'' then Protocol_UDP else if l = ''sctp'' then Protocol_SCTP else Protocol_TCP),
      pmContainerPort = clampPort (npContainerPort np),
      pmHostPort = (if npHostPort np > 0 then clampPort (npHostPort np) else 0),
      pmHostIp = (if npHostIP np \<noteq> '''' then npHostIP np else '''')\<rparr>"

fun parse_port_strings :: "string list \<Rightarrow> error + port_mapping list" where
  "parse_port_strings [] = Inr []"
| "parse_port_strings (s # ss) =
     (case ParsePort s of
        Inl e \<Rightarrow> Inl e
      | Inr pm \<Rightarrow> (case parse_port_strings ss of Inl e \<Rightarrow> Inl e | Inr pms \<Rightarrow> Inr (pm # pms)))"

definition ParsePorts :: "string list \<Rightarrow> named_port list \<Rightarrow> error + port_mapping list" where
  "ParsePorts ports namedPorts =
     (case parse_port_strings ports of Inl e \<Rightarrow> Inl e | Inr pms \<Rightarrow> Inr (pms @ map named_mapping namedPorts))"

definition EnvsToKeyValues :: "string gomap \<Rightarrow> (string \<times> string) list" where
  "EnvsToKeyValues env = map (\<lambda>(k, v). (k, v)) env"

subsection \<open>The pod\<close>

datatype namespace_mode = NamespaceMode_POD | NamespaceMode_NODE | NamespaceMode_CONTAINER

record pod_config =
  pcName :: string
  pcUid :: string
  pcNamespace :: string
  pcHostname :: string
  pcLogDirectory :: string
  pcLabels :: "string gomap"
  pcPortMappings :: "port_mapping list"
  pcNetwork :: namespace_mode

definition named_ports :: "service \<Rightarrow> named_port list" where
  "named_ports svc = (case svcXNixCompose svc of None \<Rightarrow> [] | Some x \<Rightarrow> xNamedPorts x)"

definition BuildPodConfig :: "string \<Rightarrow> string \<Rightarrow> string \<Rightarrow> service \<Rightarrow> string \<Rightarrow> pod_network_mode \<Rightarrow> pod_config" where
  "BuildPodConfig uid project service svc version networkMode =
     \<lparr>pcName = project @ ''-'' @ service, pcUid = uid, pcNamespace = ''nix-compose'',
      pcHostname = (if networkMode \<noteq> PodNetworkHost
        then (if svcHostname svc = '''' then service else svcHostname svc) else ''''),
      pcLogDirectory = ''/tmp/nix-compose-logs/'' @ project @ ''/'' @ service,
      pcLabels = ServiceLabels project service version,
      pcPortMappings = (case ParsePorts (svcPorts svc) (named_ports svc) of Inl e \<Rightarrow> [] | Inr pms \<Rightarrow> pms),
      pcNetwork = (if networkMode = PodNetworkHost then NamespaceMode_NODE else NamespaceMode_POD)\<rparr>"

subsection \<open>Mounts\<close>

record mount =
  mtContainerPath :: string
  mtHostPath :: string
  mtReadonly :: bool

definition isHostPath :: "string \<Rightarrow> bool" where
  "isHostPath source \<longleftrightarrow> has_prefix source ''/'' \<or> has_prefix source ''./'' \<or> has_prefix source ''../''"

definition isNamedVolume :: "string \<Rightarrow> volume gomap \<Rightarrow> bool" where
  "isNamedVolume source cvols \<longleftrightarrow> gm_has cvols source \<or> \<not> contains_str source ''/''"

definition MountOptionsReadOnly :: "string \<Rightarrow> bool" where
  "MountOptionsReadOnly options = list_ex (\<lambda>opt. trim_space opt = ''ro'') (split_char (CHR '','') options)"

text \<open>\<open>strings.SplitN(vol, ":", 3)\<close>.\<close>

definition split3 :: "char \<Rightarrow> string \<Rightarrow> string list" where
  "split3 c s =
     (case cut_char c s of
        None \<Rightarrow> [s]
      | Some (a, r) \<Rightarrow> (case cut_char c r of None \<Rightarrow> [a, r] | Some (b, t) \<Rightarrow> [a, b, t]))"

type_synonym volume_resolver = "string \<Rightarrow> string \<Rightarrow> error + string"

definition ParseVolumeMount :: "string option \<Rightarrow> string \<Rightarrow> string \<Rightarrow> volume gomap \<Rightarrow> volume_resolver option \<Rightarrow>
    error + mount option" where
  "ParseVolumeMount cwd vol project cvols resolve =
     (let parts = split3 (CHR '':'') vol
      in if length parts = 1 then Inr None
         else let source = parts ! 0; dest = parts ! 1;
                  readonly = (length parts = 3 \<and> MountOptionsReadOnly (parts ! 2))
              in if isHostPath source
                 then (case filepath_Abs cwd source of
                         Inl e \<Rightarrow> Inl e
                       | Inr hostPath \<Rightarrow> Inr (Some \<lparr>mtContainerPath = dest, mtHostPath = hostPath, mtReadonly = readonly\<rparr>))
                 else if isNamedVolume source cvols
                 then (case resolve of
                         None \<Rightarrow> Inl (Err (''no volume resolver for named volume '' @ source))
                       | Some res \<Rightarrow>
                           (case res project source of
                              Inl e \<Rightarrow> Inl e
                            | Inr hostPath \<Rightarrow>
                                Inr (Some \<lparr>mtContainerPath = dest, mtHostPath = hostPath, mtReadonly = readonly\<rparr>)))
                 else Inr None)"

fun volume_mounts :: "string option \<Rightarrow> string \<Rightarrow> volume gomap \<Rightarrow> volume_resolver option \<Rightarrow> string list \<Rightarrow> error + mount list" where
  "volume_mounts cwd project cvols resolve [] = Inr []"
| "volume_mounts cwd project cvols resolve (vol # vols) =
     (case ParseVolumeMount cwd vol project cvols resolve of
        Inl e \<Rightarrow> Inl e
      | Inr m \<Rightarrow>
          (case volume_mounts cwd project cvols resolve vols of
             Inl e \<Rightarrow> Inl e
           | Inr ms \<Rightarrow> Inr (case m of None \<Rightarrow> ms | Some x \<Rightarrow> x # ms)))"

definition BuildMounts :: "string option \<Rightarrow> service \<Rightarrow> string \<Rightarrow> volume gomap \<Rightarrow> volume_resolver option \<Rightarrow> error + mount list" where
  "BuildMounts cwd svc project cvols resolve =
     (case volume_mounts cwd project cvols resolve (svcVolumes svc) of
        Inl e \<Rightarrow> Inl e
      | Inr ms \<Rightarrow>
          Inr (ms @ map (\<lambda>path. \<lparr>mtContainerPath = path, mtHostPath = ''tmpfs'', mtReadonly = False\<rparr>) (svcTmpfs svc) @
            (case svcXNixCompose svc of
               None \<Rightarrow> []
             | Some x \<Rightarrow> if xUseHostStore x
                 then map (\<lambda>p. \<lparr>mtContainerPath = p, mtHostPath = p, mtReadonly = True\<rparr>) (xNixStorePaths x) else [])))"

subsection \<open>The container\<close>

record security_context =
  scRunAsUser :: "int option"
  scRunAsUsername :: string
  scRunAsGroup :: "int option"
  scPrivileged :: bool
  scPid :: namespace_mode

record container_config =
  ccName :: string
  ccImage :: string
  ccLabels :: "string gomap"
  ccLogPath :: string
  ccWorkingDir :: string
  ccEnvs :: "(string \<times> string) list"
  ccMounts :: "mount list"
  ccCommand :: "string list"
  ccArgs :: "string list"
  ccStopSignal :: int
  ccSecurity :: security_context

definition applyUser :: "security_context \<Rightarrow> string \<Rightarrow> security_context" where
  "applyUser sc user =
     (case (case cut_char (CHR '':'') user of None \<Rightarrow> (user, '''', False) | Some (a, b) \<Rightarrow> (a, b, True)) of
        (name, grp, hasGroup) \<Rightarrow>
          if name = '''' then sc
          else let sc1 = (case parse_int 64 name of
                            Some uid \<Rightarrow> sc\<lparr>scRunAsUser := Some uid\<rparr> | None \<Rightarrow> sc\<lparr>scRunAsUsername := name\<rparr>)
               in if hasGroup \<and> grp \<noteq> ''''
                  then (case parse_int 64 grp of Some gid \<Rightarrow> sc1\<lparr>scRunAsGroup := Some gid\<rparr> | None \<Rightarrow> sc1)
                  else sc1)"

definition BuildContainerConfig :: "(string \<Rightarrow> int option) \<Rightarrow> string \<Rightarrow> service \<Rightarrow> string \<Rightarrow> string \<Rightarrow> mount list \<Rightarrow>
    container_config" where
  "BuildContainerConfig signals service svc project version mounts =
     (let sc0 = \<lparr>scRunAsUser = None, scRunAsUsername = '''', scRunAsGroup = None, scPrivileged = False,
            scPid = NamespaceMode_CONTAINER\<rparr>;
          sc1 = (if svcUser svc \<noteq> '''' then applyUser sc0 (svcUser svc) else sc0);
          sc2 = (if svcPrivileged svc then sc1\<lparr>scPrivileged := True\<rparr> else sc1);
          sig = ParseStopSignal signals (svcStopSignal svc)
      in \<lparr>ccName = service, ccImage = svcImage svc, ccLabels = ServiceLabels project service version,
          ccLogPath = ''0.log'', ccWorkingDir = svcWorkingDir svc, ccEnvs = EnvsToKeyValues (svcEnvironment svc),
          ccMounts = mounts,
          ccCommand = (if \<not> command_IsEmpty (svcEntrypoint svc) then cvParts (svcEntrypoint svc) else []),
          ccArgs = (if \<not> command_IsEmpty (svcCommand svc) then cvParts (svcCommand svc) else []),
          ccStopSignal = (if sig \<noteq> 0 then sig else 0), ccSecurity = sc2\<rparr>)"

subsection \<open>restart.go\<close>

datatype restart_policy = RestartNo | RestartAlways | RestartOnFailure | RestartUnlessStopped

definition ParseRestartPolicy :: "string \<Rightarrow> restart_policy" where
  "ParseRestartPolicy s =
     (if s = ''always'' then RestartAlways else if s = ''on-failure'' then RestartOnFailure
      else if s = ''unless-stopped'' then RestartUnlessStopped else RestartNo)"

fun ShouldRestart :: "restart_policy \<Rightarrow> int \<Rightarrow> bool \<Rightarrow> bool" where
  "ShouldRestart RestartAlways exitCode stoppedByUser = True"
| "ShouldRestart RestartOnFailure exitCode stoppedByUser = (exitCode \<noteq> 0)"
| "ShouldRestart RestartUnlessStopped exitCode stoppedByUser = (\<not> stoppedByUser)"
| "ShouldRestart RestartNo exitCode stoppedByUser = False"

subsection \<open>validate.go\<close>

definition validateServiceImage :: "string \<Rightarrow> service \<Rightarrow> error option" where
  "validateServiceImage name svc =
     (if svcImage svc \<noteq> '''' then None
      else if svcBuild svc \<noteq> None then Some (Err (''service '' @ name @ '' uses build''))
      else Some (Err (''service '' @ name @ '' has no image'')))"

fun first_error :: "error option list \<Rightarrow> error option" where
  "first_error [] = None"
| "first_error (e # es) = (case e of Some x \<Rightarrow> Some x | None \<Rightarrow> first_error es)"

definition ValidateImages :: "composition \<Rightarrow> error option" where
  "ValidateImages cmp = first_error
     (map (\<lambda>name. validateServiceImage name (gm_get zero_service (compServices cmp) name)) (sorted_keys (compServices cmp)))"

subsection \<open>Ports\<close>

lemma show_nat_clean [simp]: "CHR '':'' \<notin> set (show_nat n)" "CHR ''/'' \<notin> set (show_nat n)"
  using show_nat_digits digit_val_digit by blast+

lemma splitProto_suffix: "CHR ''/'' \<notin> set p \<Longrightarrow> splitProto (s @ CHR ''/'' # p) = (to_lower p, s)"
proof -
  assume "CHR ''/'' \<notin> set p"
  then have "cut_last (CHR ''/'') (s @ CHR ''/'' # p) = Some (s, p)" by (simp add: cut_last_Some)
  then show ?thesis by (simp add: splitProto_def)
qed

lemma splitProto_plain: "CHR ''/'' \<notin> set s \<Longrightarrow> splitProto s = (''tcp'', s)"
  by (simp add: splitProto_def cut_last_None [THEN iffD2])

lemma parseProto_lower: "parseProto p = Inr q \<Longrightarrow> CHR ''/'' \<notin> set p"
  by (auto simp: parseProto_def split: if_splits)

lemma split_colon2: "CHR '':'' \<notin> set a \<Longrightarrow> CHR '':'' \<notin> set b \<Longrightarrow>
    split_char (CHR '':'') (a @ CHR '':'' # b) = [a, b]"
  by (simp add: split_char_append split_char_no_sep)

lemma parse_port32: "n < 2 ^ 31 \<Longrightarrow> parse_int 32 (show_nat n) = Some (int n)"
  using parse_int_nat [of n 32] by simp

lemma lower_slash: "CHR ''/'' \<in> set s \<Longrightarrow> CHR ''/'' \<in> set (to_lower s)"
proof -
  assume "CHR ''/'' \<in> set s"
  then have "lower_char (CHR ''/'') \<in> set (to_lower s)" unfolding to_lower_def by (metis imageI list.set_map)
  then show ?thesis by (simp add: lower_char_def)
qed

lemma ParsePort_proto:
  assumes "parseProto (to_lower proto) = Inr p"
  shows "ParsePort (s @ CHR ''/'' # proto) =
    parsePortParts \<lparr>pmProtocol = p, pmContainerPort = 0, pmHostPort = 0, pmHostIp = ''''\<rparr> (split_char (CHR '':'') s)"
proof -
  have "CHR ''/'' \<notin> set proto" using parseProto_lower [OF assms] lower_slash by blast
  then show ?thesis using assms by (simp add: ParsePort_def splitProto_suffix)
qed

lemma ParsePort_shapes:
  assumes "h < 2 ^ 31" and "c < 2 ^ 31" and "CHR '':'' \<notin> set ip" and "CHR ''/'' \<notin> set ip"
    and "parseProto (to_lower proto) = Inr p"
  shows "ParsePort (show_nat c) =
           Inr \<lparr>pmProtocol = Protocol_TCP, pmContainerPort = int c, pmHostPort = 0, pmHostIp = ''''\<rparr> \<and>
         ParsePort (show_nat h @ '':'' @ show_nat c) =
           Inr \<lparr>pmProtocol = Protocol_TCP, pmContainerPort = int c, pmHostPort = int h, pmHostIp = ''''\<rparr> \<and>
         ParsePort (ip @ '':'' @ show_nat h @ '':'' @ show_nat c) =
           Inr \<lparr>pmProtocol = Protocol_TCP, pmContainerPort = int c, pmHostPort = int h, pmHostIp = ip\<rparr> \<and>
         ParsePort (show_nat c @ ''/'' @ proto) =
           Inr \<lparr>pmProtocol = p, pmContainerPort = int c, pmHostPort = 0, pmHostIp = ''''\<rparr> \<and>
         ParsePort (show_nat h @ '':'' @ show_nat c @ ''/'' @ proto) =
           Inr \<lparr>pmProtocol = p, pmContainerPort = int c, pmHostPort = int h, pmHostIp = ''''\<rparr> \<and>
         ParsePort (ip @ '':'' @ show_nat h @ '':'' @ show_nat c @ ''/'' @ proto) =
           Inr \<lparr>pmProtocol = p, pmContainerPort = int c, pmHostPort = int h, pmHostIp = ip\<rparr>"
proof -
  note parts = split_char_append split_char_no_sep parse_two_def
    parse_port32 [OF assms(1)] parse_port32 [OF assms(2)] assms(3-5)
  have plain: "CHR ''/'' \<notin> set s \<Longrightarrow> ParsePort s = parsePortParts
      \<lparr>pmProtocol = Protocol_TCP, pmContainerPort = 0, pmHostPort = 0, pmHostIp = ''''\<rparr> (split_char (CHR '':'') s)" for s
    by (simp add: ParsePort_def splitProto_plain parseProto_def)
  have "ParsePort (show_nat c) =
     Inr \<lparr>pmProtocol = Protocol_TCP, pmContainerPort = int c, pmHostPort = 0, pmHostIp = ''''\<rparr>"
    by (simp add: plain parts)
  moreover have "ParsePort (show_nat h @ '':'' @ show_nat c) =
     Inr \<lparr>pmProtocol = Protocol_TCP, pmContainerPort = int c, pmHostPort = int h, pmHostIp = ''''\<rparr>"
    by (simp add: plain parts)
  moreover have "ParsePort (ip @ '':'' @ show_nat h @ '':'' @ show_nat c) =
     Inr \<lparr>pmProtocol = Protocol_TCP, pmContainerPort = int c, pmHostPort = int h, pmHostIp = ip\<rparr>"
    by (simp add: plain parts)
  moreover have "ParsePort (show_nat c @ ''/'' @ proto) =
     Inr \<lparr>pmProtocol = p, pmContainerPort = int c, pmHostPort = 0, pmHostIp = ''''\<rparr>"
    using ParsePort_proto [OF assms(5), of "show_nat c"] by (simp add: parts)
  moreover have "ParsePort (show_nat h @ '':'' @ show_nat c @ ''/'' @ proto) =
     Inr \<lparr>pmProtocol = p, pmContainerPort = int c, pmHostPort = int h, pmHostIp = ''''\<rparr>"
    using ParsePort_proto [OF assms(5), of "show_nat h @ '':'' @ show_nat c"] by (simp add: parts)
  moreover have "ParsePort (ip @ '':'' @ show_nat h @ '':'' @ show_nat c @ ''/'' @ proto) =
     Inr \<lparr>pmProtocol = p, pmContainerPort = int c, pmHostPort = int h, pmHostIp = ip\<rparr>"
    using ParsePort_proto [OF assms(5), of "ip @ '':'' @ show_nat h @ '':'' @ show_nat c"] by (simp add: parts)
  ultimately show ?thesis by simp
qed

text \<open>The port strings of the four documented shapes, with the host and the container port below
  \<open>2^31\<close> and the protocol in any case, parse to the mapping they spell.\<close>

theorem ParsePort_formats:
  assumes "h < 2 ^ 31" and "c < 2 ^ 31" and "CHR '':'' \<notin> set ip" and "CHR ''/'' \<notin> set ip"
    and "parseProto (to_lower proto) = Inr p"
  shows "ParsePort (show_nat c) =
           Inr \<lparr>pmProtocol = Protocol_TCP, pmContainerPort = int c, pmHostPort = 0, pmHostIp = ''''\<rparr> \<and>
         ParsePort (show_nat h @ '':'' @ show_nat c) =
           Inr \<lparr>pmProtocol = Protocol_TCP, pmContainerPort = int c, pmHostPort = int h, pmHostIp = ''''\<rparr> \<and>
         ParsePort (ip @ '':'' @ show_nat h @ '':'' @ show_nat c) =
           Inr \<lparr>pmProtocol = Protocol_TCP, pmContainerPort = int c, pmHostPort = int h, pmHostIp = ip\<rparr> \<and>
         ParsePort (show_nat c @ ''/'' @ proto) =
           Inr \<lparr>pmProtocol = p, pmContainerPort = int c, pmHostPort = 0, pmHostIp = ''''\<rparr> \<and>
         ParsePort (show_nat h @ '':'' @ show_nat c @ ''/'' @ proto) =
           Inr \<lparr>pmProtocol = p, pmContainerPort = int c, pmHostPort = int h, pmHostIp = ''''\<rparr> \<and>
         ParsePort (ip @ '':'' @ show_nat h @ '':'' @ show_nat c @ ''/'' @ proto) =
           Inr \<lparr>pmProtocol = p, pmContainerPort = int c, pmHostPort = int h, pmHostIp = ip\<rparr>"
  by (rule ParsePort_shapes [OF assms])

text \<open>Witness of \<open>ParsePort_formats\<close>: \<open>127.0.0.1:8080:80/UDP\<close>.\<close>

theorem ParsePort_formats_witness:
  "ParsePort (''127.0.0.1'' @ '':'' @ show_nat 8080 @ '':'' @ show_nat 80 @ ''/'' @ ''UDP'') =
     Inr \<lparr>pmProtocol = Protocol_UDP, pmContainerPort = 80, pmHostPort = 8080, pmHostIp = ''127.0.0.1''\<rparr>"
proof -
  have p: "parseProto (to_lower ''UDP'') = Inr Protocol_UDP"
    by code_simp
  show ?thesis using ParsePort_formats [of 8080 80 "''127.0.0.1''" "''UDP''", OF _ _ _ _ p] by simp
qed

lemma parse_port_strings_Inr:
  "parse_port_strings ss = Inr pms \<longleftrightarrow> map ParsePort ss = map Inr pms"
proof (induction ss arbitrary: pms)
  case Nil
  then show ?case by auto
next
  case (Cons s ss)
  show ?case
  proof (cases "ParsePort s")
    case (Inl e)
    then show ?thesis by (cases pms) auto
  next
    case (Inr pm)
    have "parse_port_strings (s # ss) = Inr pms \<longleftrightarrow> (\<exists>rest. parse_port_strings ss = Inr rest \<and> pms = pm # rest)"
      using Inr by (cases "parse_port_strings ss") auto
    then show ?thesis using Inr Cons.IH by (cases pms) auto
  qed
qed

lemma parse_port_strings_Inl:
  assumes "s \<in> set ss" and "ParsePort s = Inl e"
  shows "\<exists>e'. parse_port_strings ss = Inl e'"
proof (cases "parse_port_strings ss")
  case (Inr pms)
  then have "ParsePort s \<in> set (map Inr pms)" using assms(1) by (metis parse_port_strings_Inr image_eqI list.set_map)
  then show ?thesis using assms(2) by auto
qed simp

lemma clampPort_range: "0 \<le> clampPort p \<and> clampPort p \<le> 65535"
  by (simp add: clampPort_def)

lemma clampPort_id: "0 \<le> p \<Longrightarrow> p \<le> 65535 \<Longrightarrow> clampPort p = p"
  by (simp add: clampPort_def)

text \<open>The pod publishes every port string and every named port, in order, when all port strings
  parse, with the named ports clamped to the 16-bit range; but a single malformed port string
  removes every published port of the pod, the named ones too, and the pod is still created.\<close>

theorem BuildPodConfig_ports:
  fixes svc :: service and uid project name version :: string and mode :: pod_network_mode
  defines "pods \<equiv> pcPortMappings (BuildPodConfig uid project name svc version mode)"
  shows "(\<forall>pms. map ParsePort (svcPorts svc) = map Inr pms \<longrightarrow> pods = pms @ map named_mapping (named_ports svc)) \<and>
         (\<forall>np \<in> set (named_ports svc). pmContainerPort (named_mapping np) \<in> {0..65535} \<and>
            pmHostPort (named_mapping np) \<in> {0..65535}) \<and>
         (\<forall>s \<in> set (svcPorts svc). \<forall>e. ParsePort s = Inl e \<longrightarrow> pods = [])"
proof (intro conjI allI ballI impI)
  fix pms assume "map ParsePort (svcPorts svc) = map Inr pms"
  then have "parse_port_strings (svcPorts svc) = Inr pms" by (simp add: parse_port_strings_Inr)
  then show "pods = pms @ map named_mapping (named_ports svc)"
    by (simp add: pods_def BuildPodConfig_def ParsePorts_def)
next
  fix np
  show "pmContainerPort (named_mapping np) \<in> {0..65535}" using clampPort_range by (simp add: named_mapping_def)
next
  fix np
  show "pmHostPort (named_mapping np) \<in> {0..65535}" using clampPort_range by (simp add: named_mapping_def)
next
  fix s e assume "s \<in> set (svcPorts svc)" "ParsePort s = Inl e"
  then obtain e' where "parse_port_strings (svcPorts svc) = Inl e'" using parse_port_strings_Inl by blast
  then show "pods = []" by (simp add: pods_def BuildPodConfig_def ParsePorts_def)
qed

text \<open>Witness of \<open>BuildPodConfig_ports\<close>: \<open>80\<close> next to the malformed \<open>eighty\<close>.\<close>

theorem BuildPodConfig_ports_witness:
  "pcPortMappings (BuildPodConfig ''u'' ''p'' ''web'' (zero_service\<lparr>svcPorts := [''80'', ''eighty'']\<rparr>) ''v'' PodNetworkCNI) = []"
proof -
  let ?svc = "zero_service\<lparr>svcPorts := [''80'', ''eighty'']\<rparr>"
  have "ParsePort ''eighty'' = Inl (Err (''invalid port '' @ ''eighty''))" by code_simp
  then show ?thesis using BuildPodConfig_ports [of ?svc "''u''" "''p''" "''web''" "''v''" PodNetworkCNI] by simp
qed

subsection \<open>Users\<close>

text \<open>Whatever the \<open>user:\<close> value, the container runs as a numeric user or as a user name but never
  both, a group is set only next to one of them, and both ids are 64-bit integers that the value
  spells; a privileged service keeps the flag, and its PID namespace is its own.\<close>

theorem BuildContainerConfig_security:
  fixes svc :: service and project name version :: string and signals :: "string \<Rightarrow> int option"
    and mounts :: "mount list"
  defines "sc \<equiv> ccSecurity (BuildContainerConfig signals name svc project version mounts)"
  shows "(scRunAsUser sc = None \<or> scRunAsUsername sc = '''') \<and>
         (scRunAsGroup sc \<noteq> None \<longrightarrow> scRunAsUser sc \<noteq> None \<or> scRunAsUsername sc \<noteq> '''') \<and>
         (\<forall>u. scRunAsUser sc = Some u \<longrightarrow> - (2 ^ 63) \<le> u \<and> u < 2 ^ 63 \<and>
            (parse_int 64 (svcUser svc) = Some u \<or> (\<exists>a b. svcUser svc = a @ '':'' @ b \<and> parse_int 64 a = Some u))) \<and>
         (\<forall>g. scRunAsGroup sc = Some g \<longrightarrow> - (2 ^ 63) \<le> g \<and> g < 2 ^ 63 \<and>
            (\<exists>a b. a \<noteq> '''' \<and> svcUser svc = a @ '':'' @ b \<and> parse_int 64 b = Some g)) \<and>
         scPrivileged sc = svcPrivileged svc \<and> scPid sc = NamespaceMode_CONTAINER"
proof -
  have range: "parse_int 64 s = Some i \<Longrightarrow> - (2 ^ 63) \<le> i \<and> i < 2 ^ 63" for s i
    using parse_int_range [of 64 s i] by simp
  show ?thesis
  proof (cases "cut_char (CHR '':'') (svcUser svc)")
    case None
    then show ?thesis using range
      by (auto simp: sc_def BuildContainerConfig_def Let_def applyUser_def split: option.splits)
  next
    case (Some ab)
    obtain a b where ab: "ab = (a, b)" by fastforce
    then have "svcUser svc = a @ '':'' @ b" using Some by (simp add: cut_char_Some)
    then show ?thesis using Some ab range
      by (auto simp: sc_def BuildContainerConfig_def Let_def applyUser_def split: option.splits)
  qed
qed

text \<open>Witness of \<open>BuildContainerConfig_security\<close>: \<open>1000:staff\<close> keeps the user and drops the named group.\<close>

theorem BuildContainerConfig_security_witness:
  "let sc = ccSecurity (BuildContainerConfig (\<lambda>_. None) ''web'' (zero_service\<lparr>svcUser := ''1000:staff''\<rparr>) ''p'' ''v'' [])
   in scRunAsUser sc = Some 1000 \<and> scRunAsUsername sc = '''' \<and> scRunAsGroup sc = None"
proof -
  let ?svc = "zero_service\<lparr>svcUser := ''1000:staff''\<rparr>"
  have "scRunAsUser (ccSecurity (BuildContainerConfig (\<lambda>_. None) ''web'' ?svc ''p'' ''v'' [])) = Some 1000" by code_simp
  moreover have "scRunAsGroup (ccSecurity (BuildContainerConfig (\<lambda>_. None) ''web'' ?svc ''p'' ''v'' [])) = None" by code_simp
  ultimately show ?thesis
    using BuildContainerConfig_security [of "\<lambda>_. None" "''web''" ?svc "''p''" "''v''" "[]"] unfolding Let_def by simp
qed

subsection \<open>Volumes\<close>

lemma split3_cases:
  "split3 c s = [s] \<and> c \<notin> set s \<or>
   (\<exists>a b. split3 c s = [a, b] \<and> s = a @ c # b \<and> c \<notin> set a \<and> c \<notin> set b) \<or>
   (\<exists>a b t. split3 c s = [a, b, t] \<and> s = a @ c # b @ c # t \<and> c \<notin> set a \<and> c \<notin> set b)"
  by (auto simp: split3_def cut_char_None cut_char_Some split: option.splits)

lemma volume_mounts_Inr:
  "volume_mounts cwd project cvols resolve vols = Inr ms \<Longrightarrow>
   m \<in> set ms \<longleftrightarrow> (\<exists>vol \<in> set vols. ParseVolumeMount cwd vol project cvols resolve = Inr (Some m))"
proof (induction vols arbitrary: ms)
  case (Cons vol vols)
  then obtain x rest where x: "ParseVolumeMount cwd vol project cvols resolve = Inr x"
    and rest: "volume_mounts cwd project cvols resolve vols = Inr rest"
    and ms: "ms = (case x of None \<Rightarrow> rest | Some y \<Rightarrow> y # rest)"
    by (auto split: sum.splits)
  show ?case using Cons.IH [OF rest] x ms by (cases x) auto
qed simp

lemma volume_mounts_total:
  "\<forall>vol \<in> set vols. \<exists>m. ParseVolumeMount cwd vol project cvols resolve = Inr m \<Longrightarrow>
   \<exists>ms. volume_mounts cwd project cvols resolve vols = Inr ms"
  by (induction vols) (auto split: sum.splits)

text \<open>What one volume string is worth: a mount of \<open>dest\<close> from \<open>source\<close>, the read-only flag being the
  presence of \<open>ro\<close> among the options.\<close>

definition volume_spells :: "string \<Rightarrow> string \<Rightarrow> string \<Rightarrow> bool \<Rightarrow> bool" where
  "volume_spells vol source dest readonly \<longleftrightarrow>
     CHR '':'' \<notin> set source \<and> CHR '':'' \<notin> set dest \<and>
     (vol = source @ '':'' @ dest \<and> \<not> readonly \<or>
      (\<exists>opts. vol = source @ '':'' @ dest @ '':'' @ opts \<and> readonly = MountOptionsReadOnly opts))"

lemma ParseVolumeMount_Some:
  assumes "ParseVolumeMount cwd vol project cvols resolve = Inr (Some m)"
  shows "\<exists>source. volume_spells vol source (mtContainerPath m) (mtReadonly m) \<and>
     (isHostPath source \<and> filepath_Abs cwd source = Inr (mtHostPath m) \<or>
      \<not> isHostPath source \<and> isNamedVolume source cvols \<and>
        (\<exists>res. resolve = Some res \<and> res project source = Inr (mtHostPath m)))"
proof -
  from split3_cases [of "CHR '':''" vol] show ?thesis
  proof (elim disjE exE conjE)
    fix a b assume "split3 (CHR '':'') vol = [a, b]" "vol = a @ CHR '':'' # b" "CHR '':'' \<notin> set a" "CHR '':'' \<notin> set b"
    with assms show ?thesis
      by (intro exI [of _ a]) (auto simp: ParseVolumeMount_def volume_spells_def split: if_splits sum.splits option.splits)
  next
    fix a b t assume "split3 (CHR '':'') vol = [a, b, t]" "vol = a @ CHR '':'' # b @ CHR '':'' # t"
      "CHR '':'' \<notin> set a" "CHR '':'' \<notin> set b"
    with assms show ?thesis
      by (intro exI [of _ a]) (auto simp: ParseVolumeMount_def volume_spells_def Let_def numeral_2_eq_2 split: if_splits sum.splits option.splits)
  qed (use assms in \<open>simp add: ParseVolumeMount_def\<close>)
qed

text \<open>Every mount of a container comes from exactly one of the three sources: a volume string that
  spells it (bind mounts at their absolute path, named volumes at the path of the resolver, read-only
  exactly when \<open>ro\<close> is among the options), a tmpfs, or a store path that is always read-only.\<close>

theorem BuildMounts_sound:
  assumes "BuildMounts cwd svc project cvols resolve = Inr ms" and "m \<in> set ms"
  shows "(\<exists>vol \<in> set (svcVolumes svc). \<exists>source. volume_spells vol source (mtContainerPath m) (mtReadonly m) \<and>
            (isHostPath source \<and> filepath_Abs cwd source = Inr (mtHostPath m) \<or>
             \<not> isHostPath source \<and> isNamedVolume source cvols \<and>
               (\<exists>res. resolve = Some res \<and> res project source = Inr (mtHostPath m)))) \<or>
         (mtContainerPath m \<in> set (svcTmpfs svc) \<and> mtHostPath m = ''tmpfs'' \<and> \<not> mtReadonly m) \<or>
         (\<exists>x. svcXNixCompose svc = Some x \<and> xUseHostStore x \<and> mtContainerPath m \<in> set (xNixStorePaths x) \<and>
            mtHostPath m = mtContainerPath m \<and> mtReadonly m)"
proof -
  obtain vs where vs: "volume_mounts cwd project cvols resolve (svcVolumes svc) = Inr vs"
    using assms(1) by (auto simp: BuildMounts_def split: sum.splits)
  with assms consider "m \<in> set vs"
    | "mtContainerPath m \<in> set (svcTmpfs svc)" "mtHostPath m = ''tmpfs''" "\<not> mtReadonly m"
    | x where "svcXNixCompose svc = Some x" "xUseHostStore x" "mtContainerPath m \<in> set (xNixStorePaths x)"
        "mtHostPath m = mtContainerPath m" "mtReadonly m"
    by (auto simp: BuildMounts_def split: option.splits if_splits)
  then show ?thesis
  proof cases
    case 1
    then obtain vol where "vol \<in> set (svcVolumes svc)" "ParseVolumeMount cwd vol project cvols resolve = Inr (Some m)"
      using volume_mounts_Inr [OF vs] by blast
    then show ?thesis using ParseVolumeMount_Some [of cwd vol project cvols resolve m] by blast
  qed simp_all
qed

text \<open>Witness of \<open>BuildMounts_sound\<close>: a read-only named volume.\<close>

theorem BuildMounts_sound_witness:
  "\<exists>vol \<in> set [''data:/var/lib:nocopy,ro'']. \<exists>source. volume_spells vol source ''/var/lib'' True"
proof -
  let ?svc = "zero_service\<lparr>svcVolumes := [''data:/var/lib:nocopy,ro'']\<rparr>"
  let ?m = "\<lparr>mtContainerPath = ''/var/lib'', mtHostPath = ''/vols/data'', mtReadonly = True\<rparr>"
  let ?r = "Some (\<lambda>p n. Inr (''/vols/'' @ n)) :: volume_resolver option"
  have "BuildMounts None ?svc ''p'' [] ?r = Inr [?m]" by code_simp
  from BuildMounts_sound [OF this, of ?m] show ?thesis
    by (auto simp: zero_service_def)
qed

text \<open>A volume whose source starts with \<open>~/\<close> is neither a host path nor a named volume unless the
  composition declares a volume of that very name: the mount is dropped without an error.\<close>

theorem ParseVolumeMount_home_dropped:
  assumes "CHR '':'' \<notin> set path" and "''~/'' @ path \<notin> set (gm_keys cvols)"
  shows "ParseVolumeMount cwd (''~/'' @ path @ '':'' @ dest) project cvols resolve = Inr None"
proof -
  have "cut_char (CHR '':'') (''~/'' @ path @ '':'' @ dest) = Some (''~/'' @ path, dest)"
    using assms(1) by (simp add: cut_char_Some)
  then have parts: "split3 (CHR '':'') (''~/'' @ path @ '':'' @ dest) ! 0 = ''~/'' @ path"
    unfolding split3_def by (auto split: option.splits)
  have "\<not> isHostPath (''~/'' @ path)" by (simp add: isHostPath_def has_prefix_def)
  moreover have "\<not> isNamedVolume (''~/'' @ path) cvols" using assms(2) by (simp add: isNamedVolume_def has_prefix_def)
  ultimately show ?thesis unfolding ParseVolumeMount_def Let_def parts by simp
qed

text \<open>Witness of \<open>ParseVolumeMount_home_dropped\<close>.\<close>

theorem ParseVolumeMount_home_dropped_witness:
  "ParseVolumeMount (Some ''/home/me'') (''~/'' @ ''src'' @ '':'' @ ''/src'') ''p'' [] None = Inr None"
  by (rule ParseVolumeMount_home_dropped) simp_all

subsection \<open>Images\<close>

lemma first_error_None: "first_error es = None \<longleftrightarrow> (\<forall>e \<in> set es. e = None)"
  by (induction es) (auto split: option.splits)

lemma validateServiceImage_None: "validateServiceImage n svc = None \<longleftrightarrow> svcImage svc \<noteq> ''''"
  by (simp add: validateServiceImage_def)

text \<open>The images of a composition are valid exactly when every service names one.\<close>

theorem ValidateImages_correct:
  "ValidateImages cmp = None \<longleftrightarrow> (\<forall>n svc. map_of (compServices cmp) n = Some svc \<longrightarrow> svcImage svc \<noteq> '''')"
proof -
  have "ValidateImages cmp = None \<longleftrightarrow>
      (\<forall>n \<in> set (gm_keys (compServices cmp)). svcImage (gm_get zero_service (compServices cmp) n) \<noteq> '''')"
    by (simp add: ValidateImages_def first_error_None validateServiceImage_None)
  also have "\<dots> \<longleftrightarrow> (\<forall>n svc. map_of (compServices cmp) n = Some svc \<longrightarrow> svcImage svc \<noteq> '''')"
    by (auto simp: Ball_def gm_keys_iff gm_get_def)
  finally show ?thesis .
qed

end
