(* ===== verification/Resources.thy ===== *)
theory Resources
  imports Eval_Json Apply Cri_Images Cri_Convert
begin

text \<open>
  \<open>src/pkg/orchestrate/resources\<close> and \<open>src/pkg/orchestrate/provider\<close>: the six kinds of resources
  and the provider that owns them.  Each \<open>Definition\<close> is an \<open>rdef\<close> of theory \<open>Typing\<close>, each
  \<open>Instance\<close> an \<open>inst\<close>.

  The container runtime client, the network store and the volume store are records of the methods
  that the resources call, over the state \<open>'w\<close> of the world; a nil pointer is \<open>None\<close>.
\<close>

subsection \<open>The stores\<close>

record pod_sandbox =
  psId :: string
  psLabels :: "string gomap"

record cri_container =
  crId :: string
  crState :: int

type_synonym 'w ensure_volume = "string \<Rightarrow> string \<Rightarrow> 'w \<Rightarrow> (error + string) \<times> 'w"

record 'w service_up_options =
  suProject :: string
  suVersion :: string
  suCompVolumes :: "volume gomap"
  suVolumeResolver :: "'w ensure_volume option"
  suUseCNI :: bool

record 'w cri_client =
  clServiceUp :: "string \<Rightarrow> service \<Rightarrow> 'w service_up_options \<Rightarrow> 'w \<Rightarrow> error option \<times> 'w"
  clServiceDown :: "string \<Rightarrow> string \<Rightarrow> int \<Rightarrow> 'w \<Rightarrow> error option \<times> 'w"
  clProjectDown :: "string \<Rightarrow> int \<Rightarrow> 'w \<Rightarrow> error option \<times> 'w"
  clEnsureImage :: "string \<Rightarrow> 'w \<Rightarrow> (error + string) \<times> 'w"
  clRemoveImage :: "string \<Rightarrow> 'w \<Rightarrow> error option \<times> 'w"
  clImageStatus :: "string \<Rightarrow> 'w \<Rightarrow> error + string option"
  clListPodSandboxes :: "string gomap \<Rightarrow> 'w \<Rightarrow> error + pod_sandbox list"
  clListContainers :: "string \<Rightarrow> 'w \<Rightarrow> error + cri_container list"
  clContainerStatus :: "string \<Rightarrow> 'w \<Rightarrow> error + int option"

record 'w cni_store =
  cniWrite :: "string \<Rightarrow> 'w \<Rightarrow> error option \<times> 'w"
  cniRemove :: "string \<Rightarrow> 'w \<Rightarrow> error option \<times> 'w"

subsection \<open>keys.go and status.go\<close>

definition ImageKey :: definition_key where "ImageKey = ''cri.orchestrator.io/v1/Image''"
definition NetworkKey :: definition_key where "NetworkKey = ''cri.orchestrator.io/v1/Network''"
definition VolumeKey :: definition_key where "VolumeKey = ''cri.orchestrator.io/v1/Volume''"
definition ContainerKey :: definition_key where "ContainerKey = ''cri.orchestrator.io/v1/Container''"
definition ProjectKey :: definition_key where "ProjectKey = ''cri.orchestrator.io/v1/Project''"

definition SimpleStatus :: "rollout_short \<Rightarrow> string \<Rightarrow> status" where
  "SimpleStatus short message =
     \<lparr>stShort = short, stDetails = (if message = '''' then RNil else RDoc (JStr message))\<rparr>"

definition SucceededStatus :: status where "SucceededStatus = SimpleStatus RsSuccess ''''"
definition PendingStatus :: status where "PendingStatus = SimpleStatus RsPending ''''"
definition ErrorStatus :: "string \<Rightarrow> status" where "ErrorStatus msg = SimpleStatus RsError msg"
definition RunningStatus :: status where "RunningStatus = SimpleStatus RsRunning ''''"
definition DriftedStatus :: "string \<Rightarrow> status" where "DriftedStatus reason = SimpleStatus RsDrifted reason"

text \<open>\<open>json.Unmarshal\<close> into a struct, by its decoder on the fields of an object; \<open>null\<close> leaves the
  zero value.\<close>

definition unmarshal_struct :: "string \<Rightarrow> ((string \<times> json) list \<Rightarrow> 'a option) \<Rightarrow> raw \<Rightarrow> error + 'a" where
  "unmarshal_struct what dec r =
     (case (case r of RDoc (JObj kvs) \<Rightarrow> dec kvs | RDoc JNull \<Rightarrow> dec [] | _ \<Rightarrow> None) of
        None \<Rightarrow> Inl (Err (''unmarshal '' @ what)) | Some x \<Rightarrow> Inr x)"

subsection \<open>project.go, network.go, volume.go and image.go\<close>

definition ProjectDefinition :: "'w cri_client option \<Rightarrow> 'w rdef" where
  "ProjectDefinition client =
     (let instantiate = (\<lambda>r. case unmarshal_struct ''project spec'' (dec_field dec_str '''' ''name'') r of
            Inl e \<Rightarrow> Inl e
          | Inr name \<Rightarrow> Inr \<lparr>instId = name, instKey = ProjectKey, instApply = (\<lambda>w. (None, w))\<rparr>)
      in \<lparr>defKey = ProjectKey, defInstantiate = instantiate, defLoad = instantiate,
          defDelete = (\<lambda>r w. case client of None \<Rightarrow> (None, w) | Some cl \<Rightarrow> clProjectDown cl (refId r) 10 w),
          defGetStatus = (\<lambda>r w. Inr SucceededStatus), defGetProviderStatus = (\<lambda>r w. Inr SucceededStatus)\<rparr>)"

definition NetworkDefinition :: "'w cni_store option \<Rightarrow> 'w rdef" where
  "NetworkDefinition store =
     (let instantiate = (\<lambda>r. case unmarshal_struct ''network spec'' (dec_field dec_str '''' ''project'') r of
            Inl e \<Rightarrow> Inl e
          | Inr project \<Rightarrow> Inr \<lparr>instId = project, instKey = NetworkKey,
              instApply = (\<lambda>w. case store of None \<Rightarrow> (Some (Err ''no CNI store configured''), w)
                                           | Some s \<Rightarrow> cniWrite s project w)\<rparr>)
      in \<lparr>defKey = NetworkKey, defInstantiate = instantiate, defLoad = instantiate,
          defDelete = (\<lambda>r w. case store of None \<Rightarrow> (None, w) | Some s \<Rightarrow> cniRemove s (refId r) w),
          defGetStatus = (\<lambda>r w. Inr SucceededStatus), defGetProviderStatus = (\<lambda>r w. Inr SucceededStatus)\<rparr>)"

definition dec_volume_spec :: "(string \<times> json) list \<Rightarrow> (string \<times> string) option" where
  "dec_volume_spec kvs =
     (case (dec_field dec_str '''' ''project'' kvs, dec_field dec_str '''' ''name'' kvs) of
        (Some p, Some n) \<Rightarrow> Some (p, n) | _ \<Rightarrow> None)"

definition VolumeDefinition :: "'w ensure_volume option \<Rightarrow> 'w rdef" where
  "VolumeDefinition store =
     (let instantiate = (\<lambda>r. case unmarshal_struct ''volume spec'' dec_volume_spec r of
            Inl e \<Rightarrow> Inl e
          | Inr (project, name) \<Rightarrow> Inr \<lparr>instId = project @ ''/'' @ name, instKey = VolumeKey,
              instApply = (\<lambda>w. case store of
                  None \<Rightarrow> (Some (Err ''no volume store configured''), w)
                | Some ensure \<Rightarrow> (case ensure project name w of (Inl e, w') \<Rightarrow> (Some e, w') | (Inr _, w') \<Rightarrow> (None, w')))\<rparr>)
      in \<lparr>defKey = VolumeKey, defInstantiate = instantiate, defLoad = instantiate,
          defDelete = (\<lambda>r w. (None, w)),
          defGetStatus = (\<lambda>r w. Inr SucceededStatus), defGetProviderStatus = (\<lambda>r w. Inr SucceededStatus)\<rparr>)"

definition image_status :: "'w cri_client option \<Rightarrow> reference \<Rightarrow> 'w \<Rightarrow> error + status" where
  "image_status client r w =
     (case client of
        None \<Rightarrow> Inr PendingStatus
      | Some cl \<Rightarrow>
          (case clImageStatus cl (refId r) w of
             Inl e \<Rightarrow> Inr (ErrorStatus (error_text e))
           | Inr None \<Rightarrow> Inr PendingStatus
           | Inr (Some _) \<Rightarrow> Inr SucceededStatus))"

definition ImageDefinition :: "'w cri_client option \<Rightarrow> 'w rdef" where
  "ImageDefinition client =
     (let instantiate = (\<lambda>r. case unmarshal_struct ''image spec'' (dec_field dec_str '''' ''image'') r of
            Inl e \<Rightarrow> Inl e
          | Inr img \<Rightarrow> Inr \<lparr>instId = ResolvedImageRef img, instKey = ImageKey,
              instApply = (\<lambda>w. case client of
                  None \<Rightarrow> (Some (Err ''no CRI client configured''), w)
                | Some cl \<Rightarrow> (case clEnsureImage cl img w of (Inl e, w') \<Rightarrow> (Some e, w') | (Inr _, w') \<Rightarrow> (None, w')))\<rparr>)
      in \<lparr>defKey = ImageKey, defInstantiate = instantiate, defLoad = instantiate,
          defDelete = (\<lambda>r w. case client of None \<Rightarrow> (None, w) | Some cl \<Rightarrow> clRemoveImage cl (refId r) w),
          defGetStatus = image_status client, defGetProviderStatus = image_status client\<rparr>)"

subsection \<open>container.go\<close>

record container_spec =
  csProject :: string
  csService :: string
  csVersion :: string
  csImage :: string
  csCommand :: command_value
  csEntrypoint :: command_value
  csEnvironment :: "string gomap"
  csPorts :: "string list"
  csVolumes :: "string list"
  csCompVolumes :: "volume gomap"
  csNetworkMode :: string
  csWorkingDir :: string
  csUser :: string
  csPrivileged :: bool
  csTmpfs :: "string list"
  csStopSignal :: string
  csHostname :: string
  csUseCNI :: bool
  csHealthcheck :: "healthcheck option"

definition enc_container_spec :: "container_spec \<Rightarrow> json" where
  "enc_container_spec s = JObj (
     [(''project'', JStr (csProject s)), (''service'', JStr (csService s)), (''version'', JStr (csVersion s)),
      (''image'', JStr (csImage s)), (''command'', MarshalCommand (csCommand s)),
      (''entrypoint'', MarshalCommand (csEntrypoint s))] @
     omit_empty ''environment'' (csEnvironment s = []) (enc_map JStr (csEnvironment s)) @
     omit_empty ''ports'' (csPorts s = []) (JArr (map JStr (csPorts s))) @
     omit_empty ''volumes'' (csVolumes s = []) (JArr (map JStr (csVolumes s))) @
     omit_empty ''compVolumes'' (csCompVolumes s = []) (enc_map enc_volume (csCompVolumes s)) @
     omit_empty ''networkMode'' (csNetworkMode s = '''') (JStr (csNetworkMode s)) @
     omit_empty ''workingDir'' (csWorkingDir s = '''') (JStr (csWorkingDir s)) @
     omit_empty ''user'' (csUser s = '''') (JStr (csUser s)) @
     omit_empty ''privileged'' (\<not> csPrivileged s) (JBool (csPrivileged s)) @
     omit_empty ''tmpfs'' (csTmpfs s = []) (JArr (map JStr (csTmpfs s))) @
     omit_empty ''stopSignal'' (csStopSignal s = '''') (JStr (csStopSignal s)) @
     omit_empty ''hostname'' (csHostname s = '''') (JStr (csHostname s)) @
     omit_empty ''useCNI'' (\<not> csUseCNI s) (JBool (csUseCNI s)) @
     omit_empty ''healthcheck'' (csHealthcheck s = None)
       (case csHealthcheck s of None \<Rightarrow> JNull | Some h \<Rightarrow> enc_healthcheck h))"

definition dec_container_spec :: "(string \<times> json) list \<Rightarrow> container_spec option" where
  "dec_container_spec kvs =
     (case (dec_field dec_str '''' ''project'' kvs, dec_field dec_str '''' ''service'' kvs, dec_field dec_str '''' ''version'' kvs,
            dec_field dec_str '''' ''image'' kvs, dec_field UnmarshalCommand zero_command ''command'' kvs,
            dec_field UnmarshalCommand zero_command ''entrypoint'' kvs) of
        (Some project, Some service, Some version, Some img, Some cmd, Some entry) \<Rightarrow>
          (case (dec_field (dec_map dec_str) [] ''environment'' kvs, dec_field (dec_list dec_str) [] ''ports'' kvs,
                 dec_field (dec_list dec_str) [] ''volumes'' kvs, dec_field (dec_map dec_volume) [] ''compVolumes'' kvs,
                 dec_field dec_str '''' ''networkMode'' kvs, dec_field dec_str '''' ''workingDir'' kvs) of
             (Some env, Some ports, Some vols, Some cvols, Some mode, Some dir) \<Rightarrow>
               (case (dec_field dec_str '''' ''user'' kvs, dec_field dec_bool False ''privileged'' kvs,
                      dec_field (dec_list dec_str) [] ''tmpfs'' kvs, dec_field dec_str '''' ''stopSignal'' kvs,
                      dec_field dec_str '''' ''hostname'' kvs, dec_field dec_bool False ''useCNI'' kvs,
                      dec_field (\<lambda>j. map_option Some (dec_healthcheck j)) None ''healthcheck'' kvs) of
                  (Some user, Some priv, Some tmpfs, Some sig, Some host, Some cni, Some hc) \<Rightarrow>
                    Some \<lparr>csProject = project, csService = service, csVersion = version, csImage = img, csCommand = cmd,
                      csEntrypoint = entry, csEnvironment = env, csPorts = ports, csVolumes = vols, csCompVolumes = cvols,
                      csNetworkMode = mode, csWorkingDir = dir, csUser = user, csPrivileged = priv, csTmpfs = tmpfs,
                      csStopSignal = sig, csHostname = host, csUseCNI = cni, csHealthcheck = hc\<rparr>
                | _ \<Rightarrow> None)
           | _ \<Rightarrow> None)
      | _ \<Rightarrow> None)"

fun split_at_slash :: "string \<Rightarrow> (string \<times> string) option" where
  "split_at_slash [] = None"
| "split_at_slash (c # cs) =
     (if c = CHR ''/'' then Some ([], cs) else map_option (\<lambda>(a, b). (c # a, b)) (split_at_slash cs))"

definition splitContainerId :: "string \<Rightarrow> string \<times> string" where
  "splitContainerId i = (case split_at_slash i of Some p \<Rightarrow> p | None \<Rightarrow> (i, i))"

definition exitedContainerStatus :: "'w cri_client \<Rightarrow> string \<Rightarrow> 'w \<Rightarrow> error + status" where
  "exitedContainerStatus cl containerID w =
     (case clContainerStatus cl containerID w of
        Inl e \<Rightarrow> Inr (ErrorStatus (error_text e))
      | Inr st \<Rightarrow>
          (case st of
             Some code \<Rightarrow> if code \<noteq> 0 then Inr (ErrorStatus (''exited with code '' @ show_int code)) else Inr SucceededStatus
           | None \<Rightarrow> Inr SucceededStatus))"

definition containerStateStatus :: "'w cri_client \<Rightarrow> int \<Rightarrow> string \<Rightarrow> 'w \<Rightarrow> error + status" where
  "containerStateStatus cl state containerID w =
     (if state = 1 then Inr RunningStatus
      else if state = 2 then exitedContainerStatus cl containerID w
      else Inr PendingStatus)"

definition GetProviderStatusWithVersion :: "'w cri_client option \<Rightarrow> reference \<Rightarrow> string \<Rightarrow> 'w \<Rightarrow> error + status" where
  "GetProviderStatusWithVersion client r expectedVersion w =
     (case client of
        None \<Rightarrow> Inr PendingStatus
      | Some cl \<Rightarrow>
          (case splitContainerId (refId r) of (project, service) \<Rightarrow>
           (case clListPodSandboxes cl [(LabelProject, project), (LabelService, service)] w of
              Inl e \<Rightarrow> Inr (ErrorStatus (error_text e))
            | Inr [] \<Rightarrow> Inr PendingStatus
            | Inr (pod # _) \<Rightarrow>
                let podVersion = gm_get '''' (psLabels pod) LabelVersion
                in if expectedVersion \<noteq> '''' \<and> podVersion \<noteq> '''' \<and> podVersion \<noteq> expectedVersion
                   then Inr (DriftedStatus ''version mismatch'')
                   else case clListContainers cl (psId pod) w of
                          Inl e \<Rightarrow> Inr (ErrorStatus (error_text e))
                        | Inr [] \<Rightarrow> Inr PendingStatus
                        | Inr (ctr # _) \<Rightarrow> containerStateStatus cl (crState ctr) (crId ctr) w)))"

definition container_delete :: "'w cri_client option \<Rightarrow> reference \<Rightarrow> 'w \<Rightarrow> error option \<times> 'w" where
  "container_delete client r w =
     (case client of
        None \<Rightarrow> (None, w)
      | Some cl \<Rightarrow> (case splitContainerId (refId r) of (project, service) \<Rightarrow> clServiceDown cl project service 10 w))"

text \<open>\<open>ContainerInstance.Apply\<close>: the service and the options that \<open>ServiceUp\<close> is called with.\<close>

definition spec_service :: "container_spec \<Rightarrow> service" where
  "spec_service s = zero_service\<lparr>svcImage := csImage s, svcCommand := csCommand s, svcEntrypoint := csEntrypoint s,
     svcEnvironment := csEnvironment s, svcPorts := csPorts s, svcVolumes := csVolumes s, svcNetworkMode := csNetworkMode s,
     svcWorkingDir := csWorkingDir s, svcUser := csUser s, svcPrivileged := csPrivileged s, svcTmpfs := csTmpfs s,
     svcStopSignal := csStopSignal s, svcHostname := csHostname s\<rparr>"

definition container_apply :: "'w cri_client option \<Rightarrow> 'w ensure_volume option \<Rightarrow> container_spec \<Rightarrow> 'w \<Rightarrow> error option \<times> 'w" where
  "container_apply client volStore s w =
     (case client of
        None \<Rightarrow> (Some (Err ''no CRI client configured''), w)
      | Some cl \<Rightarrow>
          clServiceUp cl (csService s) (spec_service s)
            \<lparr>suProject = csProject s, suVersion = csVersion s, suCompVolumes = csCompVolumes s,
             suVolumeResolver = volStore, suUseCNI = csUseCNI s\<rparr> w)"

definition ContainerDefinition :: "'w cri_client option \<Rightarrow> 'w ensure_volume option \<Rightarrow> 'w rdef" where
  "ContainerDefinition client volStore =
     (let instantiate = (\<lambda>r. case unmarshal_struct ''container spec'' dec_container_spec r of
            Inl e \<Rightarrow> Inl e
          | Inr s \<Rightarrow> Inr \<lparr>instId = csProject s @ ''/'' @ csService s, instKey = ContainerKey,
              instApply = container_apply client volStore s\<rparr>);
          status = (\<lambda>r w. GetProviderStatusWithVersion client r '''' w)
      in \<lparr>defKey = ContainerKey, defInstantiate = instantiate, defLoad = instantiate,
          defDelete = container_delete client, defGetStatus = status, defGetProviderStatus = status\<rparr>)"

subsection \<open>service.go\<close>

definition zero_container_spec :: container_spec where
  "zero_container_spec = \<lparr>csProject = '''', csService = '''', csVersion = '''', csImage = '''', csCommand = zero_command,
     csEntrypoint = zero_command, csEnvironment = [], csPorts = [], csVolumes = [], csCompVolumes = [], csNetworkMode = '''',
     csWorkingDir = '''', csUser = '''', csPrivileged = False, csTmpfs = [], csStopSignal = '''', csHostname = '''',
     csUseCNI = False, csHealthcheck = None\<rparr>"

definition dec_service_spec :: "(string \<times> json) list \<Rightarrow> container_spec option" where
  "dec_service_spec kvs =
     dec_field (\<lambda>j. case j of JObj kvs' \<Rightarrow> dec_container_spec kvs' | _ \<Rightarrow> None) zero_container_spec ''container'' kvs"

text \<open>\<open>Delete\<close>, \<open>GetStatus\<close>, \<open>GetProviderStatus\<close> and \<open>Apply\<close> build a container definition or instance and
  delegate to it.\<close>

definition ServiceDefinition :: "'w cri_client option \<Rightarrow> 'w ensure_volume option \<Rightarrow> 'w rdef" where
  "ServiceDefinition client volStore =
     (let cDef = ContainerDefinition client volStore;
          instantiate = (\<lambda>r. case unmarshal_struct ''service spec'' dec_service_spec r of
            Inl e \<Rightarrow> Inl e
          | Inr s \<Rightarrow> Inr \<lparr>instId = csProject s @ ''/'' @ csService s, instKey = ServiceKey,
              instApply = container_apply client volStore s\<rparr>)
      in \<lparr>defKey = ServiceKey, defInstantiate = instantiate, defLoad = instantiate,
          defDelete = defDelete cDef, defGetStatus = defGetStatus cDef, defGetProviderStatus = defGetProviderStatus cDef\<rparr>)"

subsection \<open>cri_provider.go\<close>

definition NewCRIProvider_defs :: "'w cri_client option \<Rightarrow> 'w cni_store option \<Rightarrow> 'w ensure_volume option \<Rightarrow> 'w rdef list" where
  "NewCRIProvider_defs client cniStore volStore =
     [ImageDefinition client, NetworkDefinition cniStore, VolumeDefinition volStore,
      ContainerDefinition client volStore, ServiceDefinition client volStore, ProjectDefinition client]"

text \<open>The nil rollout of \<open>LoadRollout\<close> reaches \<open>GetReferencesTo\<close> inside a non-nil interface value;
  asking it for its id dereferences the nil pointer.\<close>

fun load_rollouts :: "'b bolt \<Rightarrow> 'b db \<Rightarrow> reference list \<Rightarrow> rollout list" where
  "load_rollouts B db [] = []"
| "load_rollouts B db (dep # deps) =
     (case LoadRollout B db (refId dep) of
        Inr (Some r) \<Rightarrow> r # load_rollouts B db deps
      | _ \<Rightarrow> load_rollouts B db deps)"

definition GetReferencesTo :: "'b bolt option \<Rightarrow> rollout option \<Rightarrow> 'b db \<Rightarrow> error + rollout list" where
  "GetReferencesTo dbOf r db =
     (case dbOf of
        None \<Rightarrow> Inr []
      | Some B \<Rightarrow>
          (case r of
             None \<Rightarrow> Inl (Panic ''nil rollout'')
           | Some ro \<Rightarrow>
               (case GetDepending B db (roInstanceId ro) of
                  Inl e \<Rightarrow> Inl e | Inr deps \<Rightarrow> Inr (load_rollouts B db deps))))"

fun first_def :: "'w rdef list \<Rightarrow> definition_key \<Rightarrow> 'w rdef option" where
  "first_def [] k = None"
| "first_def (d # ds) k = (if defKey d = k then Some d else first_def ds k)"

definition ProviderRemove :: "'w rdef list \<Rightarrow> reference \<Rightarrow> 'w \<Rightarrow> error option \<times> 'w" where
  "ProviderRemove defs r w = (case first_def defs (refKey r) of Some d \<Rightarrow> defDelete d r w | None \<Rightarrow> (None, w))"

definition ProviderGetStatus :: "'w rdef list \<Rightarrow> reference \<Rightarrow> 'w \<Rightarrow> error + status option" where
  "ProviderGetStatus defs r w =
     (case first_def defs (refKey r) of
        Some d \<Rightarrow> (case defGetProviderStatus d r w of Inl e \<Rightarrow> Inl e | Inr s \<Rightarrow> Inr (Some s))
      | None \<Rightarrow> Inr (Some PendingStatus))"

definition NewCRIProvider :: "'b bolt option \<Rightarrow> 'w cri_client option \<Rightarrow> 'w cni_store option \<Rightarrow> 'w ensure_volume option \<Rightarrow>
    ('b, 'w) provider" where
  "NewCRIProvider dbOf client cniStore volStore =
     (let defs = NewCRIProvider_defs client cniStore volStore
      in \<lparr>prGetReferencesTo = GetReferencesTo dbOf, prRemove = ProviderRemove defs, prGetStatus = ProviderGetStatus defs,
          prGetDefinitions = defs\<rparr>)"

subsection \<open>Specs survive JSON\<close>

definition container_spec_ok :: "container_spec \<Rightarrow> bool" where
  "container_spec_ok s \<longleftrightarrow> gm_canonical (csEnvironment s) \<and> gm_canonical (csCompVolumes s) \<and>
     list_all (\<lambda>(n, v). gm_canonical (volDriverOpts v)) (csCompVolumes s) \<and>
     (case csHealthcheck s of None \<Rightarrow> True | Some h \<Rightarrow> - (2 ^ 63) \<le> hcRetries h \<and> hcRetries h < 2 ^ 63)"

definition spec_fields :: "container_spec \<Rightarrow> (string \<times> json) list" where
  "spec_fields s = (case enc_container_spec s of JObj kvs \<Rightarrow> kvs | _ \<Rightarrow> [])"

lemma enc_spec_fields: "enc_container_spec s = JObj (spec_fields s)"
  by (simp add: spec_fields_def enc_container_spec_def)

lemmas spec_field_simps = spec_fields_def enc_container_spec_def jfield_append jfield_omit jfield_Cons to_lower_def lower_char_def

lemma spec_jfields:
  "jfield ''project'' (spec_fields s) = Some (JStr (csProject s))"
  "jfield ''service'' (spec_fields s) = Some (JStr (csService s))"
  "jfield ''version'' (spec_fields s) = Some (JStr (csVersion s))"
  "jfield ''image'' (spec_fields s) = Some (JStr (csImage s))"
  "jfield ''command'' (spec_fields s) = Some (MarshalCommand (csCommand s))"
  "jfield ''entrypoint'' (spec_fields s) = Some (MarshalCommand (csEntrypoint s))"
  "jfield ''environment'' (spec_fields s) = (if csEnvironment s = [] then None else Some (enc_map JStr (csEnvironment s)))"
  "jfield ''ports'' (spec_fields s) = (if csPorts s = [] then None else Some (JArr (map JStr (csPorts s))))"
  "jfield ''volumes'' (spec_fields s) = (if csVolumes s = [] then None else Some (JArr (map JStr (csVolumes s))))"
  "jfield ''compVolumes'' (spec_fields s) = (if csCompVolumes s = [] then None else Some (enc_map enc_volume (csCompVolumes s)))"
  "jfield ''networkMode'' (spec_fields s) = (if csNetworkMode s = '''' then None else Some (JStr (csNetworkMode s)))"
  "jfield ''workingDir'' (spec_fields s) = (if csWorkingDir s = '''' then None else Some (JStr (csWorkingDir s)))"
  "jfield ''user'' (spec_fields s) = (if csUser s = '''' then None else Some (JStr (csUser s)))"
  "jfield ''privileged'' (spec_fields s) = (if \<not> csPrivileged s then None else Some (JBool (csPrivileged s)))"
  "jfield ''tmpfs'' (spec_fields s) = (if csTmpfs s = [] then None else Some (JArr (map JStr (csTmpfs s))))"
  "jfield ''stopSignal'' (spec_fields s) = (if csStopSignal s = '''' then None else Some (JStr (csStopSignal s)))"
  "jfield ''hostname'' (spec_fields s) = (if csHostname s = '''' then None else Some (JStr (csHostname s)))"
  "jfield ''useCNI'' (spec_fields s) = (if \<not> csUseCNI s then None else Some (JBool (csUseCNI s)))"
  "jfield ''healthcheck'' (spec_fields s) =
     (if csHealthcheck s = None then None else Some (case csHealthcheck s of None \<Rightarrow> JNull | Some h \<Rightarrow> enc_healthcheck h))"
  by (simp_all add: spec_field_simps)

lemma dec_command_field: "jfield n kvs = Some (MarshalCommand c) \<Longrightarrow> dec_field UnmarshalCommand zero_command n kvs = Some c"
  using dec_enc_command [of c] by (cases "MarshalCommand c") (auto simp: dec_field_def UnmarshalCommand_def)

lemma enc_healthcheck_not_null [simp]: "enc_healthcheck h \<noteq> JNull"
  by (simp add: enc_healthcheck_def)

lemma dec_container_spec_roundtrip:
  assumes "container_spec_ok s"
  shows "dec_container_spec (spec_fields s) = Some s"
proof -
  note c = assms [unfolded container_spec_ok_def]
  have str: "dec_field dec_str '''' n (spec_fields s) = Some x"
    if "jfield n (spec_fields s) = (if x = '''' then None else Some (JStr x))" for n x
    by (rule dec_field_omit [OF that]) (auto simp: dec_str_def)
  have strs: "dec_field (dec_list dec_str) [] n (spec_fields s) = Some x"
    if "jfield n (spec_fields s) = (if x = [] then None else Some (JArr (map JStr x)))" for n x
    by (rule dec_field_omit [OF that]) auto
  have bools: "dec_field dec_bool False n (spec_fields s) = Some x"
    if "jfield n (spec_fields s) = (if \<not> x then None else Some (JBool x))" for n x
    by (rule dec_field_omit [OF that]) (auto simp: dec_bool_def)
  have env: "dec_field (dec_map dec_str) [] ''environment'' (spec_fields s) = Some (csEnvironment s)"
    by (rule dec_field_omit [OF spec_jfields(7)]) (use c in \<open>auto intro: dec_enc_map_canonical simp: dec_str_def\<close>)
  have vols: "dec_field (dec_map dec_volume) [] ''compVolumes'' (spec_fields s) = Some (csCompVolumes s)"
    by (rule dec_field_omit [OF spec_jfields(10)])
      (use c in \<open>auto intro!: dec_enc_map_canonical dec_enc_volume simp: list_all_iff\<close>)
  have hc: "dec_field (\<lambda>j. map_option Some (dec_healthcheck j)) None ''healthcheck'' (spec_fields s) = Some (csHealthcheck s)"
    by (rule dec_field_omit [OF spec_jfields(19)])
      (use c in \<open>auto simp: dec_enc_healthcheck split: option.splits\<close>)
  show ?thesis
    unfolding dec_container_spec_def
    by (simp add: env vols hc str strs bools dec_command_field spec_jfields)
qed

definition enc_service_spec :: "container_spec \<Rightarrow> json" where
  "enc_service_spec s = JObj [(''container'', enc_container_spec s)]"

lemma dec_service_spec_enc:
  assumes "container_spec_ok s"
  shows "dec_service_spec [(''container'', enc_container_spec s)] = Some s"
  using dec_container_spec_roundtrip [OF assms] enc_spec_fields [of s]
  by (simp add: dec_service_spec_def dec_field_def jfield_Cons)

text \<open>A service resource that is marshalled and instantiated again has the id and the key of its
  spec, and applying it starts exactly the service that the spec describes with the version,
  the volumes and the network choice of the spec.\<close>

theorem service_instance_roundtrip:
  assumes "container_spec_ok s"
  shows "\<exists>i. defInstantiate (ServiceDefinition (Some cl) vols) (RDoc (enc_service_spec s)) = Inr i \<and>
         instId i = csProject s @ ''/'' @ csService s \<and> instKey i = ServiceKey \<and>
         (\<forall>w. instApply i w = clServiceUp cl (csService s) (spec_service s)
            \<lparr>suProject = csProject s, suVersion = csVersion s, suCompVolumes = csCompVolumes s,
             suVolumeResolver = vols, suUseCNI = csUseCNI s\<rparr> w)"
  using dec_service_spec_enc [OF assms]
  by (simp add: ServiceDefinition_def enc_service_spec_def unmarshal_struct_def container_apply_def Let_def)

definition demo_spec :: container_spec where
  "demo_spec = zero_container_spec\<lparr>csProject := ''p'', csService := ''web'', csPorts := [''80''], csImage := ''nginx''\<rparr>"

lemma demo_spec_ok: "container_spec_ok demo_spec"
  by (simp add: demo_spec_def container_spec_ok_def zero_container_spec_def gm_canonical_def sort_entries_def
      sorted_keys_def sort_strings_def)

text \<open>A client whose calls succeed and record the services they start and stop.\<close>

definition log_client :: "string list cri_client" where
  "log_client = \<lparr>clServiceUp = (\<lambda>n s o' w. (None, w @ [''up '' @ suProject o' @ ''/'' @ n])),
     clServiceDown = (\<lambda>p n t w. (None, w @ [''down '' @ p @ ''/'' @ n])), clProjectDown = (\<lambda>p t w. (None, w @ [''down '' @ p])),
     clEnsureImage = (\<lambda>i w. (Inr i, w)), clRemoveImage = (\<lambda>i w. (None, w)), clImageStatus = (\<lambda>i w. Inr None),
     clListPodSandboxes = (\<lambda>l w. Inr [\<lparr>psId = ''pod'', psLabels = [(LabelVersion, ''v1'')]\<rparr>]),
     clListContainers = (\<lambda>p w. Inr [\<lparr>crId = ''ctr'', crState = 1\<rparr>]), clContainerStatus = (\<lambda>c w. Inr None)\<rparr>"

text \<open>Witness of \<open>service_instance_roundtrip\<close>.\<close>

theorem service_instance_roundtrip_witness:
  "\<exists>i. defInstantiate (ServiceDefinition (Some log_client) None) (RDoc (enc_service_spec demo_spec)) = Inr i \<and>
     instId i = ''p/web'' \<and> instApply i [] = (None, [''up p/web''])"
proof -
  have "csProject demo_spec = ''p''" "csService demo_spec = ''web''" by (simp_all add: demo_spec_def)
  then show ?thesis using service_instance_roundtrip [OF demo_spec_ok, of log_client None] by (auto simp: log_client_def)
qed

subsection \<open>Ids and statuses\<close>

lemma split_at_slash_append: "CHR ''/'' \<notin> set p \<Longrightarrow> split_at_slash (p @ CHR ''/'' # s) = Some (p, s)"
  by (induction p) auto

text \<open>The id of a service or container resource of a project whose name has no slash splits back into
  the project and the service, so deleting the resource stops that service and nothing else, and
  its status is looked up under the labels its pod was created with.\<close>

theorem splitContainerId_inverse:
  assumes "CHR ''/'' \<notin> set project" and "refId r = project @ ''/'' @ name"
  shows "splitContainerId (refId r) = (project, name) \<and>
         defDelete (ServiceDefinition (Some cl) vols) r w = clServiceDown cl project name 10 w \<and>
         (clListPodSandboxes cl [(LabelProject, project), (LabelService, name)] w = Inr [] \<longrightarrow>
            defGetProviderStatus (ServiceDefinition (Some cl) vols) r w = Inr PendingStatus)"
proof -
  have s: "splitContainerId (refId r) = (project, name)"
    using split_at_slash_append [OF assms(1), of name] assms(2) by (simp add: splitContainerId_def)
  then show ?thesis
    by (simp add: ServiceDefinition_def ContainerDefinition_def container_delete_def GetProviderStatusWithVersion_def Let_def)
qed

text \<open>Witness of \<open>splitContainerId_inverse\<close>.\<close>

theorem splitContainerId_inverse_witness:
  "defDelete (ServiceDefinition (Some log_client) None) \<lparr>refId = ''p/web'', refKey = ServiceKey, refBody = RNil\<rparr> [] =
     (None, [''down p/web''])"
  using splitContainerId_inverse [of "''p''" "\<lparr>refId = ''p/web'', refKey = ServiceKey, refBody = RNil\<rparr>" "''web''" log_client None "[]"]
  by (simp add: log_client_def)

lemma exited_total: "\<exists>st. exitedContainerStatus cl c w = Inr st \<and> stShort st \<noteq> RsDrifted \<and> stShort st \<noteq> RsRunning"
  by (auto simp: exitedContainerStatus_def ErrorStatus_def SucceededStatus_def SimpleStatus_def rs_defs
      split: sum.splits option.splits)

definition version_drifted :: "string \<Rightarrow> pod_sandbox \<Rightarrow> bool" where
  "version_drifted v pod \<longleftrightarrow> v \<noteq> '''' \<and> gm_get '''' (psLabels pod) LabelVersion \<notin> {'''', v}"

definition service_pods :: "'w cri_client \<Rightarrow> reference \<Rightarrow> 'w \<Rightarrow> error + pod_sandbox list" where
  "service_pods cl r w = clListPodSandboxes cl
     [(LabelProject, fst (splitContainerId (refId r))), (LabelService, snd (splitContainerId (refId r)))] w"

lemma container_status_cases:
  "\<exists>st. GetProviderStatusWithVersion (Some cl) r v w = Inr st \<and>
     (stShort st = RsDrifted \<longleftrightarrow> (\<exists>pod rest. service_pods cl r w = Inr (pod # rest) \<and> version_drifted v pod)) \<and>
     (stShort st = RsRunning \<longleftrightarrow> (\<exists>pod rest ctr more. service_pods cl r w = Inr (pod # rest) \<and> \<not> version_drifted v pod \<and>
        clListContainers cl (psId pod) w = Inr (ctr # more) \<and> crState ctr = 1))"
proof -
  note sts = PendingStatus_def RunningStatus_def DriftedStatus_def SucceededStatus_def ErrorStatus_def SimpleStatus_def rs_defs
  consider e where "service_pods cl r w = Inl e" | "service_pods cl r w = Inr []"
    | pod rest where "service_pods cl r w = Inr (pod # rest)"
    by (metis list.exhaust obj_sumE)
  then show ?thesis
  proof cases
    case 3
    show ?thesis
    proof (cases "version_drifted v pod")
      case True
      then show ?thesis using 3
        by (simp add: service_pods_def version_drifted_def GetProviderStatusWithVersion_def split_beta Let_def sts)
    next
      case False
      have st: "GetProviderStatusWithVersion (Some cl) r v w = (case clListContainers cl (psId pod) w of
           Inl e \<Rightarrow> Inr (ErrorStatus (error_text e)) | Inr [] \<Rightarrow> Inr PendingStatus
         | Inr (ctr # _) \<Rightarrow> containerStateStatus cl (crState ctr) (crId ctr) w)"
        using False 3 by (auto simp: service_pods_def version_drifted_def GetProviderStatusWithVersion_def split_beta Let_def)
      show ?thesis using exited_total [of cl _ w] False 3 unfolding st
        by (auto simp: containerStateStatus_def sts split: sum.splits list.splits)
    qed
  qed (simp_all add: service_pods_def GetProviderStatusWithVersion_def split_beta sts)
qed

lemma service_status_not_drifted:
  "\<exists>st. defGetProviderStatus (ServiceDefinition (Some cl) vols) r w = Inr st \<and> stShort st \<noteq> RsDrifted"
  using container_status_cases [of cl r "''''" w]
  by (auto simp: ServiceDefinition_def ContainerDefinition_def Let_def version_drifted_def)

text \<open>Asking for the status of a container never fails: runtime errors become an \<open>ERROR\<close> status.  The
  status is \<open>DRIFTED\<close> exactly when a version is expected and the pod carries another one, which no
  service resource ever asks for, and \<open>RUNNING\<close> exactly when the first container of the first pod
  runs and has not drifted.\<close>

theorem container_status_table:
  "\<exists>st. GetProviderStatusWithVersion (Some cl) r v w = Inr st \<and>
     (stShort st = RsDrifted \<longleftrightarrow> (\<exists>pod rest. service_pods cl r w = Inr (pod # rest) \<and> version_drifted v pod)) \<and>
     (stShort st = RsRunning \<longleftrightarrow> (\<exists>pod rest ctr more. service_pods cl r w = Inr (pod # rest) \<and> \<not> version_drifted v pod \<and>
        clListContainers cl (psId pod) w = Inr (ctr # more) \<and> crState ctr = 1)) \<and>
     (\<forall>vols. \<exists>st'. defGetProviderStatus (ServiceDefinition (Some cl) vols) r w = Inr st' \<and> stShort st' \<noteq> RsDrifted)"
  using container_status_cases [of cl r v w] service_status_not_drifted [of cl _ r w] by auto

end
