(* ===== verification/Convert.thy ===== *)
theory Convert
  imports Resources
begin

text \<open>
  \<open>src/pkg/orchestrate/convert\<close> and the manifests of \<open>src/pkg/orchestrate/manifest\<close>: a composition
  becomes manifests and dependency edges (\<open>Convert\<close>), and these become a deployment and the
  conditions that a dependent imposes (\<open>Bridge\<close>).

  The version of a service is \<open>hash\<close> of the service without its dependencies and profiles: the
  argument stands for the hexadecimal digits of the first eight bytes of the SHA-256 digest of
  its JSON text.
\<close>

subsection \<open>manifest.go\<close>

datatype spec =
    ProjectSpec string
  | NetworkSpec string
  | ImageSpec string
  | VolumeSpec string string
  | ServiceSpec container_spec

record metadata =
  mdName :: string
  mdNamespace :: string
  mdLabels :: "string gomap"

record manifest =
  mfAPIVersion :: string
  mfKind :: string
  mfMetadata :: metadata
  mfSpec :: spec

definition ManifestValidate :: "manifest \<Rightarrow> error list" where
  "ManifestValidate m =
     (if mfAPIVersion m = '''' then [Err ''apiVersion is required''] else []) @
     (if mfKind m = '''' then [Err ''kind is required''] else []) @
     (if mdName (mfMetadata m) = '''' then [Err ''metadata.name is required''] else [])"

fun validate_from :: "nat \<Rightarrow> manifest list \<Rightarrow> error list gomap \<Rightarrow> error list gomap" where
  "validate_from i [] result = result"
| "validate_from i (m # ms) result =
     (let errs = ManifestValidate m;
          key = (if mdName (mfMetadata m) \<noteq> '''' then mdName (mfMetadata m) else ''document '' @ show_nat (i + 1))
      in validate_from (i + 1) ms (if length errs > 0 then gm_put key errs result else result))"

definition ValidateAll :: "manifest list \<Rightarrow> error list gomap" where
  "ValidateAll ms = validate_from 0 ms []"

text \<open>\<open>json.Marshal(m.Spec)\<close>.\<close>

fun enc_spec :: "spec \<Rightarrow> json" where
  "enc_spec (ProjectSpec n) = JObj [(''name'', JStr n)]"
| "enc_spec (NetworkSpec p) = JObj [(''project'', JStr p)]"
| "enc_spec (ImageSpec i) = JObj [(''image'', JStr i)]"
| "enc_spec (VolumeSpec p n) = JObj [(''project'', JStr p), (''name'', JStr n)]"
| "enc_spec (ServiceSpec c) = enc_service_spec c"

subsection \<open>convert.go\<close>

definition apiVersion :: string where "apiVersion = ''cri.orchestrator.io/v1''"

record options =
  optProject :: string
  optUseCNI :: bool

record edge =
  edFrom :: reference
  edTo :: reference
  edCondition :: string

record conv_result =
  crManifests :: "manifest list"
  crEdges :: "edge list"

definition mk_manifest :: "string \<Rightarrow> string \<Rightarrow> spec \<Rightarrow> manifest" where
  "mk_manifest kind name spec =
     \<lparr>mfAPIVersion = apiVersion, mfKind = kind, mfMetadata = \<lparr>mdName = name, mdNamespace = '''', mdLabels = []\<rparr>, mfSpec = spec\<rparr>"

definition mapCondition :: "string \<Rightarrow> string" where
  "mapCondition condition =
     (if condition = ''service_started'' then ''started'' else if condition = ''service_healthy'' then ''healthy''
      else if condition = ''service_completed_successfully'' then ''completed'' else '''')"

definition extractVolumeName :: "string \<Rightarrow> string" where
  "extractVolumeName mnt =
     (let source = (case cut_char (CHR '':'') mnt of None \<Rightarrow> mnt | Some (a, b) \<Rightarrow> a)
      in if has_prefix source ''/'' \<or> has_prefix source ''./'' \<or> has_prefix source ''~'' \<or> has_prefix source ''..''
         then '''' else source)"

definition formatNamedPort :: "named_port \<Rightarrow> string" where
  "formatNamedPort np =
     (let proto = (if npProtocol np \<noteq> '''' \<and> npProtocol np \<noteq> ''tcp'' then ''/'' @ npProtocol np else '''')
      in if npHostPort np = 0 then show_int (npContainerPort np) @ proto
         else if npHostIP np \<noteq> ''''
         then npHostIP np @ '':'' @ show_int (npHostPort np) @ '':'' @ show_int (npContainerPort np) @ proto
         else show_int (npHostPort np) @ '':'' @ show_int (npContainerPort np) @ proto)"

definition buildPorts :: "service \<Rightarrow> string list" where
  "buildPorts svc =
     svcPorts svc @ (case svcXNixCompose svc of None \<Rightarrow> [] | Some x \<Rightarrow> map formatNamedPort (xNamedPorts x))"

definition buildVolumes :: "service \<Rightarrow> string list" where
  "buildVolumes svc =
     svcVolumes svc @
     (case svcXNixCompose svc of
        None \<Rightarrow> []
      | Some x \<Rightarrow> if xUseHostStore x then map (\<lambda>p. p @ '':'' @ p @ '':ro'') (xNixStorePaths x) else [])"

definition computeVersion :: "(service \<Rightarrow> string) \<Rightarrow> service \<Rightarrow> string" where
  "computeVersion hash svc = hash (svc\<lparr>svcDependsOn := zero_depends_on, svcProfiles := []\<rparr>)"

definition buildContainerSpec :: "(service \<Rightarrow> string) \<Rightarrow> string \<Rightarrow> service \<Rightarrow> composition \<Rightarrow> options \<Rightarrow> container_spec" where
  "buildContainerSpec hash name svc cmp opts =
     \<lparr>csProject = optProject opts, csService = name, csVersion = computeVersion hash svc, csImage = svcImage svc,
      csCommand = svcCommand svc, csEntrypoint = svcEntrypoint svc, csEnvironment = svcEnvironment svc,
      csPorts = buildPorts svc, csVolumes = buildVolumes svc, csCompVolumes = compVolumes cmp,
      csNetworkMode = svcNetworkMode svc, csWorkingDir = svcWorkingDir svc, csUser = svcUser svc,
      csPrivileged = svcPrivileged svc, csTmpfs = svcTmpfs svc, csStopSignal = svcStopSignal svc,
      csHostname = svcHostname svc, csUseCNI = (optUseCNI opts \<and> svcNetworkMode svc \<noteq> ''host''),
      csHealthcheck = svcHealthcheck svc\<rparr>"

text \<open>\<open>NewReference\<close> panics on an empty id only, and no id of the conversion is empty (lemma
  \<open>NewReference_ref_of\<close>): \<open>ref_of\<close> is the reference it returns.\<close>

definition ref_of :: "string \<Rightarrow> definition_key \<Rightarrow> reference" where
  "ref_of i key = \<lparr>refId = i, refKey = key, refBody = RNil\<rparr>"

definition needs_network :: "composition \<Rightarrow> bool" where
  "needs_network cmp = list_ex (\<lambda>(n, svc). svcNetworkMode svc \<noteq> ''host'') (compServices cmp)"

definition convertNetwork :: "composition \<Rightarrow> options \<Rightarrow> manifest list \<times> reference option" where
  "convertNetwork cmp opts =
     (if needs_network cmp
      then ([mk_manifest ''Network'' (optProject opts) (NetworkSpec (optProject opts))], Some (ref_of (optProject opts) NetworkKey))
      else ([], None))"

definition image_names :: "composition \<Rightarrow> string list \<Rightarrow> string list" where
  "image_names cmp serviceNames =
     sort_strings (remdups (filter (\<lambda>img. img \<noteq> '''')
       (map (\<lambda>n. svcImage (gm_get zero_service (compServices cmp) n)) serviceNames)))"

definition convertImages :: "composition \<Rightarrow> string list \<Rightarrow> manifest list \<times> reference gomap" where
  "convertImages cmp serviceNames =
     (let names = image_names cmp serviceNames
      in (map (\<lambda>img. mk_manifest ''Image'' (ResolvedImageRef img) (ImageSpec img)) names,
          map (\<lambda>img. (img, ref_of (ResolvedImageRef img) ImageKey)) names))"

definition convertVolumes :: "composition \<Rightarrow> options \<Rightarrow> manifest list \<times> reference gomap" where
  "convertVolumes cmp opts =
     (let names = sorted_keys (compVolumes cmp)
      in (map (\<lambda>n. mk_manifest ''Volume'' (optProject opts @ ''/'' @ n) (VolumeSpec (optProject opts) n)) names,
          map (\<lambda>n. (n, ref_of (optProject opts @ ''/'' @ n) VolumeKey)) names))"

definition mk_edge :: "reference \<Rightarrow> reference \<Rightarrow> string \<Rightarrow> edge" where
  "mk_edge from to cond = \<lparr>edFrom = from, edTo = to, edCondition = cond\<rparr>"

definition volume_edges :: "reference \<Rightarrow> reference gomap \<Rightarrow> string \<Rightarrow> edge list" where
  "volume_edges svcRef volumeRefs mnt =
     (let volName = extractVolumeName mnt
      in if volName \<noteq> '''' then (case map_of volumeRefs volName of Some r \<Rightarrow> [mk_edge svcRef r ''''] | None \<Rightarrow> [])
         else [])"

definition image_edges :: "service \<Rightarrow> reference \<Rightarrow> reference gomap \<Rightarrow> edge list" where
  "image_edges svc svcRef imageRefs =
     (if svcImage svc \<noteq> '''' then (case map_of imageRefs (svcImage svc) of Some r \<Rightarrow> [mk_edge svcRef r ''''] | None \<Rightarrow> []) else [])"

definition network_edges :: "service \<Rightarrow> reference \<Rightarrow> reference option \<Rightarrow> edge list" where
  "network_edges svc svcRef networkRef =
     (case networkRef of Some r \<Rightarrow> if svcNetworkMode svc \<noteq> ''host'' then [mk_edge svcRef r ''''] else [] | None \<Rightarrow> [])"

definition depends_on_edges :: "service \<Rightarrow> reference \<Rightarrow> options \<Rightarrow> edge list" where
  "depends_on_edges svc svcRef opts =
     (if \<not> depends_on_IsEmpty (svcDependsOn svc)
      then map (\<lambda>depName. mk_edge svcRef (ref_of (optProject opts @ ''/'' @ depName) ServiceKey)
             (mapCondition (doeCondition (gm_get \<lparr>doeCondition = ''''\<rparr> (dovEntries (svcDependsOn svc)) depName))))
           (sorted_keys (dovEntries (svcDependsOn svc)))
      else [])"

definition buildServiceEdges :: "service \<Rightarrow> reference \<Rightarrow> options \<Rightarrow> reference \<Rightarrow> reference option \<Rightarrow> reference gomap \<Rightarrow>
    reference gomap \<Rightarrow> edge list" where
  "buildServiceEdges svc svcRef opts projectRef networkRef imageRefs volumeRefs =
     [mk_edge svcRef projectRef ''''] @ image_edges svc svcRef imageRefs @ network_edges svc svcRef networkRef @
     concat (map (volume_edges svcRef volumeRefs) (svcVolumes svc)) @ depends_on_edges svc svcRef opts"

definition convertService :: "(service \<Rightarrow> string) \<Rightarrow> string \<Rightarrow> service \<Rightarrow> composition \<Rightarrow> options \<Rightarrow> reference \<Rightarrow> reference option \<Rightarrow>
    reference gomap \<Rightarrow> reference gomap \<Rightarrow> manifest \<times> edge list" where
  "convertService hash name svc cmp opts projectRef networkRef imageRefs volumeRefs =
     (let svcID = optProject opts @ ''/'' @ name
      in (mk_manifest ''Service'' svcID (ServiceSpec (buildContainerSpec hash name svc cmp opts)),
          buildServiceEdges svc (ref_of svcID ServiceKey) opts projectRef networkRef imageRefs volumeRefs))"

definition Convert :: "(service \<Rightarrow> string) \<Rightarrow> composition \<Rightarrow> options \<Rightarrow> error + conv_result" where
  "Convert hash cmp opts =
     (if optProject opts = '''' then Inl (Err ''project name is required'')
      else let projectRef = ref_of (optProject opts) ProjectKey;
               (netManifests, networkRef) = convertNetwork cmp opts;
               serviceNames = sorted_keys (compServices cmp);
               (imgManifests, imageRefs) = convertImages cmp serviceNames;
               (volManifests, volumeRefs) = convertVolumes cmp opts;
               svcs = map (\<lambda>name. convertService hash name (gm_get zero_service (compServices cmp) name) cmp opts
                        projectRef networkRef imageRefs volumeRefs) serviceNames
           in Inr \<lparr>crManifests = [mk_manifest ''Project'' (optProject opts) (ProjectSpec (optProject opts))] @ netManifests @
                    imgManifests @ volManifests @ map fst svcs,
                   crEdges = concat (map snd svcs)\<rparr>)"

subsection \<open>bridge.go\<close>

definition edge_index :: "edge list \<Rightarrow> reference list gomap" where
  "edge_index edges =
     fold (\<lambda>e m. gm_put (refId (edFrom e)) (gm_get [] m (refId (edFrom e)) @ [edTo e]) m) edges []"

definition bridge_conditions :: "edge list \<Rightarrow> condition_map" where
  "bridge_conditions edges =
     fold (\<lambda>e m. if edCondition e = '''' then m
                 else gm_put (refId (edTo e)) (gm_put (refId (edFrom e)) (edCondition e) (gm_get [] m (refId (edTo e)))) m)
       edges []"

fun bridge_loop :: "'w registry \<Rightarrow> reference list gomap \<Rightarrow> manifest list \<Rightarrow> deployment \<Rightarrow> error + deployment" where
  "bridge_loop reg edges [] d = Inr d"
| "bridge_loop reg edges (m # ms) d =
     (let key = mfAPIVersion m @ ''/'' @ mfKind m; body = RDoc (enc_spec (mfSpec m))
      in case Instantiate reg key body of
           Inl e \<Rightarrow> Inl e
         | Inr inst \<Rightarrow>
             (case AddCreation d inst body (gm_get [] edges (mdName (mfMetadata m))) of
                Inl e \<Rightarrow> Inl e
              | Inr d' \<Rightarrow> bridge_loop reg edges ms d'))"

definition Bridge :: "string \<Rightarrow> 'w registry \<Rightarrow> conv_result \<Rightarrow> error + deployment \<times> condition_map" where
  "Bridge uuid reg res =
     (case bridge_loop reg (edge_index (crEdges res)) (crManifests res) (NewDeployment uuid) of
        Inl e \<Rightarrow> Inl e
      | Inr d \<Rightarrow> Inr (d, bridge_conditions (crEdges res)))"

subsection \<open>Ids and keys\<close>

lemma NewReference_ref_of: "i \<noteq> '''' \<Longrightarrow> NewReference i k = Inr (ref_of i k)"
  by (simp add: NewReference_def ref_of_def)

lemma ref_of_sel [simp]: "refId (ref_of i k) = i" "refKey (ref_of i k) = k"
  by (simp_all add: ref_of_def)

lemma mk_edge_sel [simp]: "edFrom (mk_edge a b c) = a" "edTo (mk_edge a b c) = b" "edCondition (mk_edge a b c) = c"
  by (simp_all add: mk_edge_def)

lemma mk_manifest_sel [simp]: "mfAPIVersion (mk_manifest k n s) = apiVersion" "mfKind (mk_manifest k n s) = k"
  "mdName (mfMetadata (mk_manifest k n s)) = n" "mfSpec (mk_manifest k n s) = s"
  by (simp_all add: mk_manifest_def)

lemma ResolvedImageRef_not_Nil: "i \<noteq> '''' \<Longrightarrow> ResolvedImageRef i \<noteq> ''''"
  by (auto simp: ResolvedImageRef_def LocalImageDomain_def split: prod.splits)

text \<open>The name, kind and spec of a manifest that belong together.\<close>

fun spec_id :: "spec \<Rightarrow> string" where
  "spec_id (ProjectSpec n) = n"
| "spec_id (NetworkSpec p) = p"
| "spec_id (ImageSpec i) = ResolvedImageRef i"
| "spec_id (VolumeSpec p n) = p @ ''/'' @ n"
| "spec_id (ServiceSpec c) = csProject c @ ''/'' @ csService c"

fun spec_kind :: "spec \<Rightarrow> string" where
  "spec_kind (ProjectSpec n) = ''Project''"
| "spec_kind (NetworkSpec p) = ''Network''"
| "spec_kind (ImageSpec i) = ''Image''"
| "spec_kind (VolumeSpec p n) = ''Volume''"
| "spec_kind (ServiceSpec c) = ''Service''"

definition manifest_ok :: "manifest \<Rightarrow> bool" where
  "manifest_ok m \<longleftrightarrow> m = mk_manifest (spec_kind (mfSpec m)) (spec_id (mfSpec m)) (mfSpec m) \<and> spec_id (mfSpec m) \<noteq> '''' \<and>
     (case mfSpec m of ServiceSpec c \<Rightarrow> container_spec_ok c | _ \<Rightarrow> True)"

definition services_spec_ok :: "composition \<Rightarrow> bool" where
  "services_spec_ok cmp \<longleftrightarrow> gm_canonical (compVolumes cmp) \<and>
     list_all (\<lambda>(n, v). gm_canonical (volDriverOpts v)) (compVolumes cmp) \<and>
     list_all (\<lambda>(n, svc). gm_canonical (svcEnvironment svc) \<and>
       (case svcHealthcheck svc of None \<Rightarrow> True | Some h \<Rightarrow> - (2 ^ 63) \<le> hcRetries h \<and> hcRetries h < 2 ^ 63)) (compServices cmp)"

lemma buildContainerSpec_ok:
  assumes "services_spec_ok cmp" and "(n, svc) \<in> set (compServices cmp)"
  shows "container_spec_ok (buildContainerSpec hash n svc cmp opts)"
  using assms by (fastforce simp: services_spec_ok_def container_spec_ok_def buildContainerSpec_def list_all_iff)

lemma gm_get_mem: "n \<in> set (gm_keys m) \<Longrightarrow> (n, gm_get z m n) \<in> set m"
  by (auto simp: gm_keys_iff gm_get_def dest: map_of_SomeD)

lemma Convert_manifests:
  assumes "Convert hash cmp opts = Inr res"
  shows "optProject opts \<noteq> '''' \<and>
     crManifests res = [mk_manifest ''Project'' (optProject opts) (ProjectSpec (optProject opts))] @
       fst (convertNetwork cmp opts) @ fst (convertImages cmp (sorted_keys (compServices cmp))) @
       fst (convertVolumes cmp opts) @
       map (\<lambda>n. mk_manifest ''Service'' (optProject opts @ ''/'' @ n)
              (ServiceSpec (buildContainerSpec hash n (gm_get zero_service (compServices cmp) n) cmp opts)))
         (sorted_keys (compServices cmp))"
  using assms by (auto simp: Convert_def convertService_def Let_def comp_def split: if_splits prod.splits)

lemma Convert_manifest_ok:
  assumes "Convert hash cmp opts = Inr res" and "services_spec_ok cmp" and "m \<in> set (crManifests res)"
  shows "manifest_ok m"
proof -
  note c = Convert_manifests [OF assms(1)]
  have img: "i \<in> set (image_names cmp ns) \<Longrightarrow> i \<noteq> ''''" for i ns by (simp add: image_names_def sort_strings_def)
  from c assms(3) consider "m = mk_manifest ''Project'' (optProject opts) (ProjectSpec (optProject opts))"
    | "m \<in> set (fst (convertNetwork cmp opts))" | "m \<in> set (fst (convertImages cmp (sorted_keys (compServices cmp))))"
    | "m \<in> set (fst (convertVolumes cmp opts))"
    | n where "n \<in> set (gm_keys (compServices cmp))" "m = mk_manifest ''Service'' (optProject opts @ ''/'' @ n)
              (ServiceSpec (buildContainerSpec hash n (gm_get zero_service (compServices cmp) n) cmp opts))"
    by auto
  then show ?thesis
  proof cases
    case (5 n)
    then show ?thesis using buildContainerSpec_ok [OF assms(2) gm_get_mem [OF 5(1), of zero_service]]
      by (simp add: manifest_ok_def buildContainerSpec_def)
  qed (use c img ResolvedImageRef_not_Nil in \<open>auto simp: manifest_ok_def convertNetwork_def convertImages_def convertVolumes_def Let_def split: if_splits\<close>)
qed

lemma validate_from_keys:
  "validate_from i ms acc = [] \<longleftrightarrow> acc = [] \<and> (\<forall>m \<in> set ms. ManifestValidate m = [])"
proof (induction i ms acc rule: validate_from.induct)
  case (2 i m ms result)
  have "gm_put k v acc \<noteq> []" for k and v :: "error list" and acc by (cases acc) (auto simp: gm_put_def)
  then show ?case using 2 by (cases "ManifestValidate m = []") (simp_all add: Let_def)
qed simp

text \<open>Validation reports nothing exactly when every manifest has an API version, a kind and a name, and
  so nothing for the manifests of a conversion; the conversion itself fails exactly for an empty
  project name.\<close>

theorem Convert_valid:
  assumes "services_spec_ok cmp"
  shows "(\<forall>ms. ValidateAll ms = [] \<longleftrightarrow>
            (\<forall>m \<in> set ms. mfAPIVersion m \<noteq> '''' \<and> mfKind m \<noteq> '''' \<and> mdName (mfMetadata m) \<noteq> '''')) \<and>
         (optProject opts = '''' \<longleftrightarrow> (\<nexists>res. Convert hash cmp opts = Inr res)) \<and>
         (\<forall>res. Convert hash cmp opts = Inr res \<longrightarrow> ValidateAll (crManifests res) = [])"
proof -
  have v: "ValidateAll ms = [] \<longleftrightarrow>
      (\<forall>m \<in> set ms. mfAPIVersion m \<noteq> '''' \<and> mfKind m \<noteq> '''' \<and> mdName (mfMetadata m) \<noteq> '''')" for ms
    by (auto simp: ValidateAll_def validate_from_keys ManifestValidate_def)
  have "ValidateAll (crManifests res) = []" if "Convert hash cmp opts = Inr res" for res
    unfolding v
  proof
    fix m assume "m \<in> set (crManifests res)"
    from Convert_manifest_ok [OF that assms this]
    have m: "m = mk_manifest (spec_kind (mfSpec m)) (spec_id (mfSpec m)) (mfSpec m)" "spec_id (mfSpec m) \<noteq> ''''"
      by (simp_all add: manifest_ok_def)
    have "spec_kind s \<noteq> ''''" for s by (cases s) simp_all
    then show "mfAPIVersion m \<noteq> '''' \<and> mfKind m \<noteq> '''' \<and> mdName (mfMetadata m) \<noteq> ''''"
      using m(2) by (subst (1 2 3) m(1)) (simp add: apiVersion_def)
  qed
  moreover have "optProject opts = '''' \<longleftrightarrow> (\<nexists>res. Convert hash cmp opts = Inr res)"
    by (simp add: Convert_def Let_def split: prod.splits)
  ultimately show ?thesis using v by blast
qed

definition demo_comp :: composition where
  "demo_comp = \<lparr>compServices = [(''db'', zero_service\<lparr>svcImage := ''postgres''\<rparr>),
       (''web'', zero_service\<lparr>svcImage := ''nginx'', svcDependsOn := \<lparr>dovEntries = [(''db'', \<lparr>doeCondition = ''service_healthy''\<rparr>)]\<rparr>\<rparr>)],
     compNetworks = [], compVolumes = [], compMicroVM = None\<rparr>"

definition demo_opts :: options where
  "demo_opts = \<lparr>optProject = ''p'', optUseCNI = True\<rparr>"

lemma demo_comp_ok: "services_spec_ok demo_comp"
  by (simp add: services_spec_ok_def demo_comp_def zero_service_def gm_canonical_def sort_entries_def sorted_keys_def sort_strings_def)

text \<open>Witness of \<open>Convert_valid\<close>.\<close>

theorem Convert_valid_witness:
  "\<exists>res. Convert svcImage demo_comp demo_opts = Inr res \<and> ValidateAll (crManifests res) = []"
proof -
  have "optProject demo_opts \<noteq> ''''" by (simp add: demo_opts_def)
  then show ?thesis using Convert_valid [OF demo_comp_ok, of demo_opts svcImage] by blast
qed

subsection \<open>Bridge\<close>

text \<open>A registry that holds the definitions of the CRI provider.\<close>

definition cri_registry :: "'w cri_client option \<Rightarrow> 'w cni_store option \<Rightarrow> 'w ensure_volume option \<Rightarrow> 'w registry \<Rightarrow> bool" where
  "cri_registry client cniStore volStore reg \<longleftrightarrow>
     (\<forall>d \<in> set (NewCRIProvider_defs client cniStore volStore). GetDefinition reg (defKey d) = Inr d)"

definition manifest_key :: "manifest \<Rightarrow> definition_key" where
  "manifest_key m = mfAPIVersion m @ ''/'' @ mfKind m"

lemma instantiate_manifest:
  assumes "cri_registry cl cn vs reg" and "manifest_ok m"
  shows "\<exists>i. Instantiate reg (manifest_key m) (RDoc (enc_spec (mfSpec m))) = Inr i \<and>
     instId i = mdName (mfMetadata m) \<and> instKey i = manifest_key m"
proof -
  have m: "mfAPIVersion m = apiVersion" "mfKind m = spec_kind (mfSpec m)" "mdName (mfMetadata m) = spec_id (mfSpec m)"
    using assms(2) mk_manifest_sel unfolding manifest_ok_def by metis+
  have defs: "GetDefinition reg ProjectKey = Inr (ProjectDefinition cl)" "GetDefinition reg NetworkKey = Inr (NetworkDefinition cn)"
    "GetDefinition reg ImageKey = Inr (ImageDefinition cl)" "GetDefinition reg VolumeKey = Inr (VolumeDefinition vs)"
    "GetDefinition reg ServiceKey = Inr (ServiceDefinition cl vs)"
    using assms(1) unfolding cri_registry_def NewCRIProvider_defs_def
    by (auto simp: ProjectDefinition_def NetworkDefinition_def ImageDefinition_def VolumeDefinition_def ServiceDefinition_def Let_def)
  note simps = manifest_key_def m apiVersion_def Instantiate_def unmarshal_struct_def dec_field_def jfield_Cons dec_str_def Let_def
  show ?thesis
  proof (cases "mfSpec m")
    case (ProjectSpec n)
    then have "manifest_key m = ProjectKey" by (simp add: simps ProjectKey_def)
    then show ?thesis using ProjectSpec defs(1) by (simp add: simps ProjectDefinition_def)
  next
    case (NetworkSpec n)
    then have "manifest_key m = NetworkKey" by (simp add: simps NetworkKey_def)
    then show ?thesis using NetworkSpec defs(2) by (simp add: simps NetworkDefinition_def)
  next
    case (ImageSpec n)
    then have "manifest_key m = ImageKey" by (simp add: simps ImageKey_def)
    then show ?thesis using ImageSpec defs(3) by (simp add: simps ImageDefinition_def)
  next
    case (VolumeSpec p n)
    then have "manifest_key m = VolumeKey" by (simp add: simps VolumeKey_def)
    then show ?thesis using VolumeSpec defs(4)
      by (simp add: simps VolumeDefinition_def dec_volume_spec_def to_lower_def lower_char_def)
  next
    case (ServiceSpec c)
    then have "manifest_key m = ServiceKey" by (simp add: simps ServiceKey_def)
    moreover have "container_spec_ok c" using assms(2) ServiceSpec by (simp add: manifest_ok_def)
    ultimately show ?thesis using ServiceSpec defs(5) dec_service_spec_enc [of c]
      by (simp add: Instantiate_def ServiceDefinition_def enc_service_spec_def unmarshal_struct_def m Let_def)
  qed
qed

lemma new_links_map: "i \<noteq> '''' \<Longrightarrow>
  new_links i k deps = Inr (map (\<lambda>dep. \<lparr>lkSource = ref_of i k, lkTarget = ref_of (refId dep) (refKey dep)\<rparr>) deps)"
  by (induction deps) (simp_all add: NewLink_def ref_of_def)

definition manifest_links :: "reference list gomap \<Rightarrow> manifest \<Rightarrow> link list" where
  "manifest_links edges m = map (\<lambda>dep. \<lparr>lkSource = ref_of (mdName (mfMetadata m)) (manifest_key m),
     lkTarget = ref_of (refId dep) (refKey dep)\<rparr>) (gm_get [] edges (mdName (mfMetadata m)))"

definition manifest_request :: "manifest \<Rightarrow> request" where
  "manifest_request m = CreateRequest (mdName (mfMetadata m)) (RDoc (enc_spec (mfSpec m))) (manifest_key m)"

lemma bridge_loop_total:
  assumes "cri_registry cl cn vs reg" and "\<forall>m \<in> set ms. manifest_ok m"
  shows "\<exists>d'. bridge_loop reg edges ms d = Inr d' \<and> dpRequests d' = dpRequests d @ map manifest_request ms \<and>
     dpDependencies d' = dpDependencies d @ concat (map (manifest_links edges) ms)"
  using assms(2)
proof (induction ms arbitrary: d)
  case (Cons m ms)
  have ok: "manifest_ok m" using Cons.prems by simp
  obtain i where i: "Instantiate reg (manifest_key m) (RDoc (enc_spec (mfSpec m))) = Inr i"
    "instId i = mdName (mfMetadata m)" "instKey i = manifest_key m"
    using instantiate_manifest [OF assms(1) ok] by blast
  have "mdName (mfMetadata m) \<noteq> ''''" using ok mk_manifest_sel(3) unfolding manifest_ok_def by metis
  then obtain d1 where d1: "AddCreation d i (RDoc (enc_spec (mfSpec m))) (gm_get [] edges (mdName (mfMetadata m))) = Inr d1"
    "dpRequests d1 = dpRequests d @ [manifest_request m]" "dpDependencies d1 = dpDependencies d @ manifest_links edges m"
    using i by (simp add: AddCreation_def new_links_map manifest_request_def manifest_links_def)
  have "\<forall>m \<in> set ms. manifest_ok m" using Cons.prems by simp
  from Cons.IH [OF this, of d1] show ?case using d1 i by (auto simp: manifest_key_def Let_def)
qed simp

lemma gm_get_Nil [simp]: "gm_get z [] k = z"
  by (simp add: gm_get_def)

lemma edge_index_fold:
  "gm_get [] (fold (\<lambda>e m. gm_put (refId (edFrom e)) (gm_get [] m (refId (edFrom e)) @ [edTo e]) m) es m) i =
   gm_get [] m i @ map edTo (filter (\<lambda>e. refId (edFrom e) = i) es)"
proof (induction es arbitrary: m)
  case (Cons e es)
  have "gm_get [] (gm_put k v m) i = (if k = i then v else gm_get [] m i)" for k v
    by (simp add: gm_get_def gm_put_def update_conv')
  then show ?case using Cons by simp
qed simp

lemma edge_index_get: "gm_get [] (edge_index es) i = map edTo (filter (\<lambda>e. refId (edFrom e) = i) es)"
  by (simp add: edge_index_def edge_index_fold)

text \<open>The condition recorded for a pair of ids is the one of the last edge between them that has one.\<close>

lemma bridge_conditions_fold:
  "map_of (gm_get [] (fold (\<lambda>e m. if edCondition e = '''' then m
       else gm_put (refId (edTo e)) (gm_put (refId (edFrom e)) (edCondition e) (gm_get [] m (refId (edTo e)))) m) es m) t) f =
   (case filter (\<lambda>e. refId (edTo e) = t \<and> refId (edFrom e) = f \<and> edCondition e \<noteq> '''') (rev es) of
      e # _ \<Rightarrow> Some (edCondition e) | [] \<Rightarrow> map_of (gm_get [] m t) f)"
proof (induction es arbitrary: m)
  case (Cons e es)
  have "gm_get [] (gm_put k v m) i = (if k = i then v else gm_get [] m i)" for k v i and m :: condition_map
    by (simp add: gm_get_def gm_put_def update_conv')
  moreover have "map_of (gm_put k v q) i = (if k = i then Some v else map_of q i)" for k v i and q :: "string gomap"
    by (simp add: gm_put_def update_conv')
  ultimately show ?case using Cons by (auto split: list.splits)
qed simp

lemma bridge_conditions_get:
  "map_of (gm_get [] (bridge_conditions es) t) f =
   (case filter (\<lambda>e. refId (edTo e) = t \<and> refId (edFrom e) = f \<and> edCondition e \<noteq> '''') (rev es) of
      e # _ \<Rightarrow> Some (edCondition e) | [] \<Rightarrow> None)"
  unfolding bridge_conditions_def bridge_conditions_fold by (simp split: list.splits)

lemma Convert_edges:
  assumes "Convert hash cmp opts = Inr res"
  shows "\<exists>netRef imgRefs volRefs. crEdges res = concat (map (\<lambda>n. buildServiceEdges (gm_get zero_service (compServices cmp) n)
      (ref_of (optProject opts @ ''/'' @ n) ServiceKey) opts (ref_of (optProject opts) ProjectKey) netRef imgRefs volRefs)
      (sorted_keys (compServices cmp)))"
proof -
  have "crEdges res = concat (map (\<lambda>n. buildServiceEdges (gm_get zero_service (compServices cmp) n)
      (ref_of (optProject opts @ ''/'' @ n) ServiceKey) opts (ref_of (optProject opts) ProjectKey) (snd (convertNetwork cmp opts))
      (snd (convertImages cmp (sorted_keys (compServices cmp)))) (snd (convertVolumes cmp opts)))
      (sorted_keys (compServices cmp)))"
    using assms by (auto simp: Convert_def convertService_def Let_def comp_def split: if_splits prod.splits)
  then show ?thesis by blast
qed

lemma volume_edges_mem: "e \<in> set (volume_edges r vr m) \<Longrightarrow> edFrom e = r \<and> edCondition e = ''''"
  by (cases "extractVolumeName m = ''''"; cases "map_of vr (extractVolumeName m)") (simp_all add: volume_edges_def Let_def)

lemma image_edges_mem: "e \<in> set (image_edges svc r ir) \<Longrightarrow> edFrom e = r \<and> edCondition e = ''''"
  by (cases "svcImage svc = ''''"; cases "map_of ir (svcImage svc)") (simp_all add: image_edges_def)

lemma network_edges_mem: "e \<in> set (network_edges svc r nr) \<Longrightarrow> edFrom e = r \<and> edCondition e = ''''"
  by (cases "svcNetworkMode svc = ''host''"; cases nr) (simp_all add: network_edges_def)

lemma depends_on_edges_set:
  "set (depends_on_edges svc r opts) = (\<lambda>d. mk_edge r (ref_of (optProject opts @ ''/'' @ d) ServiceKey)
     (mapCondition (doeCondition (gm_get \<lparr>doeCondition = ''''\<rparr> (dovEntries (svcDependsOn svc)) d)))) ` set (dep_names svc)"
  by (cases "depends_on_IsEmpty (svcDependsOn svc)") (simp_all add: depends_on_edges_def dep_names_def depends_on_IsEmpty_def)

lemma service_edges_cases:
  assumes "e \<in> set (buildServiceEdges svc svcRef opts pr nr ir vr)"
  shows "edFrom e = svcRef \<and> (edCondition e = '''' \<or> e \<in> set (depends_on_edges svc svcRef opts))"
proof -
  from assms consider "e = mk_edge svcRef pr ''''" | "e \<in> set (image_edges svc svcRef ir)" | "e \<in> set (network_edges svc svcRef nr)"
    | m where "e \<in> set (volume_edges svcRef vr m)" | "e \<in> set (depends_on_edges svc svcRef opts)"
    unfolding buildServiceEdges_def by auto
  then show ?thesis
    by cases (auto dest: image_edges_mem network_edges_mem volume_edges_mem simp: depends_on_edges_set)
qed

text \<open>The edges of a service with a condition are its \<open>depends_on\<close> entries.\<close>

lemma conditional_edges:
  assumes "e \<in> set (buildServiceEdges svc svcRef opts pr nr ir vr)" and "edCondition e \<noteq> ''''"
  shows "edFrom e = svcRef \<and> (\<exists>d \<in> set (dep_names svc). edTo e = ref_of (optProject opts @ ''/'' @ d) ServiceKey \<and>
    edCondition e = mapCondition (doeCondition (gm_get \<lparr>doeCondition = ''''\<rparr> (dovEntries (svcDependsOn svc)) d)))"
proof -
  from service_edges_cases [OF assms(1)] assms(2) have "edFrom e = svcRef" "e \<in> set (depends_on_edges svc svcRef opts)" by auto
  moreover from this(2) obtain d where "d \<in> set (dep_names svc)" "e = mk_edge svcRef (ref_of (optProject opts @ ''/'' @ d) ServiceKey)
      (mapCondition (doeCondition (gm_get \<lparr>doeCondition = ''''\<rparr> (dovEntries (svcDependsOn svc)) d)))"
    unfolding depends_on_edges_set by blast
  ultimately show ?thesis by (intro conjI bexI [of _ d]) simp_all
qed

lemma dependency_edge:
  assumes "d \<in> set (dep_names svc)"
  shows "mk_edge svcRef (ref_of (optProject opts @ ''/'' @ d) ServiceKey)
      (mapCondition (doeCondition (gm_get \<lparr>doeCondition = ''''\<rparr> (dovEntries (svcDependsOn svc)) d)))
    \<in> set (buildServiceEdges svc svcRef opts pr nr ir vr)"
  using assms unfolding buildServiceEdges_def by (auto simp: depends_on_edges_set)

text \<open>Bridging the result of a conversion always succeeds.\<close>

lemma bridge_result:
  assumes "cri_registry cl cn vs reg" and "services_spec_ok cmp" and "Convert hash cmp opts = Inr res"
  shows "\<exists>d. Bridge uuid reg res = Inr (d, bridge_conditions (crEdges res)) \<and>
         dpRequests d = map manifest_request (crManifests res) \<and>
         dpDependencies d = concat (map (manifest_links (edge_index (crEdges res))) (crManifests res))"
proof -
  have ok: "\<forall>m \<in> set (crManifests res). manifest_ok m" using Convert_manifest_ok [OF assms(3,2)] by blast
  show ?thesis using bridge_loop_total [OF assms(1) ok, of "edge_index (crEdges res)" "NewDeployment uuid"]
    by (auto simp: NewDeployment_def Bridge_def)
qed

lemma edge_has_manifest:
  assumes "Convert hash cmp opts = Inr res" and "e \<in> set (crEdges res)"
  shows "\<exists>m \<in> set (crManifests res). mdName (mfMetadata m) = refId (edFrom e) \<and> manifest_key m = refKey (edFrom e)"
proof -
  obtain nr ir vr where es: "crEdges res = concat (map (\<lambda>n. buildServiceEdges (gm_get zero_service (compServices cmp) n)
    (ref_of (optProject opts @ ''/'' @ n) ServiceKey) opts (ref_of (optProject opts) ProjectKey) nr ir vr)
    (sorted_keys (compServices cmp)))" using Convert_edges [OF assms(1)] by blast
  then obtain n where n: "n \<in> set (gm_keys (compServices cmp))" "edFrom e = ref_of (optProject opts @ ''/'' @ n) ServiceKey"
    using assms(2) service_edges_cases by fastforce
  let ?m = "mk_manifest ''Service'' (optProject opts @ ''/'' @ n)
     (ServiceSpec (buildContainerSpec hash n (gm_get zero_service (compServices cmp) n) cmp opts))"
  have "?m \<in> set (crManifests res)" using Convert_manifests [OF assms(1)] n(1) by auto
  moreover have "mdName (mfMetadata ?m) = refId (edFrom e)" "manifest_key ?m = refKey (edFrom e)"
    using n(2) by (simp_all add: manifest_key_def ServiceKey_def apiVersion_def)
  ultimately show ?thesis by blast
qed

definition link_ends :: "link \<Rightarrow> (string \<times> string) \<times> string \<times> string" where
  "link_ends l = ((refId (lkSource l), refKey (lkSource l)), (refId (lkTarget l), refKey (lkTarget l)))"

definition edge_ends :: "edge \<Rightarrow> (string \<times> string) \<times> string \<times> string" where
  "edge_ends e = ((refId (edFrom e), refKey (edFrom e)), (refId (edTo e), refKey (edTo e)))"

lemma mset_filter_split:
  assumes "distinct xs" and "\<forall>e \<in> set es. f e \<in> set xs"
  shows "mset (concat (map (\<lambda>x. filter (\<lambda>e. f e = x) es) xs)) = mset es"
  using assms(2)
proof (induction es)
  case Nil
  then show ?case by (induction xs) simp_all
next
  case (Cons e es)
  have "mset (concat (map (\<lambda>x. filter (\<lambda>e. f e = x) (e # es)) ys)) =
      (if f e \<in> set ys then {#e#} else {#}) + mset (concat (map (\<lambda>x. filter (\<lambda>e. f e = x) es) ys))" if "distinct ys" for ys
    using that by (induction ys) auto
  then show ?case using Cons assms(1) by simp
qed

lemma edges_once:
  fixes ms :: "manifest list"
  assumes m: "\<And>e. e \<in> set es \<Longrightarrow> \<exists>m \<in> set ms. mdName (mfMetadata m) = refId (edFrom e) \<and> manifest_key m = refKey (edFrom e)"
    and d: "distinct (filter (\<lambda>i. i \<in> (refId \<circ> edFrom) ` set es) (map (mdName \<circ> mfMetadata) ms))"
  shows "mset (concat (map (\<lambda>m. map (\<lambda>e. ((mdName (mfMetadata m), manifest_key m), snd (edge_ends e)))
      (filter (\<lambda>e. refId (edFrom e) = mdName (mfMetadata m)) es)) ms)) = mset (map edge_ends es)"
proof -
  let ?n = "\<lambda>m. mdName (mfMetadata m)"
  define ms' where "ms' = filter (\<lambda>m. ?n m \<in> (refId \<circ> edFrom) ` set es) ms"
  have d': "distinct (map ?n ms')" using d by (simp add: ms'_def filter_map comp_def)
  have one: "manifest_key m = refKey (edFrom e)" if h: "m \<in> set ms" "e \<in> set es" "refId (edFrom e) = ?n m" for m e
  proof -
    obtain m' where m': "m' \<in> set ms" "?n m' = refId (edFrom e)" "manifest_key m' = refKey (edFrom e)" using m h(2) by blast
    have "?n m \<in> (refId \<circ> edFrom) ` set es" using h(2,3) by (metis comp_apply image_eqI)
    then have "m \<in> set ms'" "m' \<in> set ms'" "?n m = ?n m'" using h m' by (simp_all add: ms'_def)
    then have "m = m'" using d' by (auto simp: distinct_map dest: inj_onD)
    then show ?thesis using m'(3) by simp
  qed
  have same: "map (\<lambda>e. ((?n m, manifest_key m), snd (edge_ends e))) (filter (\<lambda>e. refId (edFrom e) = ?n m) es) =
      map edge_ends (filter (\<lambda>e. refId (edFrom e) = ?n m) es)" if "m \<in> set ms" for m
    by (rule map_cong [OF refl]) (use one [OF that] in \<open>auto simp: edge_ends_def\<close>)
  have eq: "map (\<lambda>m. map (\<lambda>e. ((?n m, manifest_key m), snd (edge_ends e))) (filter (\<lambda>e. refId (edFrom e) = ?n m) es)) ms =
      map (\<lambda>m. map edge_ends (filter (\<lambda>e. refId (edFrom e) = ?n m) es)) ms" by (rule map_cong [OF refl same])
  have "concat (map (\<lambda>m. map (\<lambda>e. ((?n m, manifest_key m), snd (edge_ends e))) (filter (\<lambda>e. refId (edFrom e) = ?n m) es)) ms) =
      map edge_ends (concat (map (\<lambda>m. filter (\<lambda>e. refId (edFrom e) = ?n m) es) ms))"
    unfolding eq by (simp add: map_concat comp_def)
  also have "concat (map (\<lambda>m. filter (\<lambda>e. refId (edFrom e) = ?n m) es) ms) =
      concat (map (\<lambda>m. filter (\<lambda>e. refId (edFrom e) = ?n m) es) ms')"
    unfolding ms'_def by (induction ms) (auto simp: filter_empty_conv image_iff)
  also have "\<dots> = concat (map (\<lambda>x. filter (\<lambda>e. refId (edFrom e) = x) es) (map ?n ms'))" by (simp add: comp_def)
  finally show ?thesis
    using mset_filter_split [OF d', of es "\<lambda>e. refId (edFrom e)"] m by (force simp: ms'_def)
qed

text \<open>C6: Bridging the result of a conversion with the definitions of the CRI provider always succeeds.  The
  deployment has one create request per manifest, in order, under the name and the kind of the manifest.  Its links
  are, for each manifest in order, one to the target of each edge that starts from a resource of the name of the
  manifest, in the order of the edges; so every edge becomes a link.  Since edges are looked up by name alone, a
  manifest of another kind that shares the name of a service gets links too; when no two manifests share a name that
  an edge starts from, the links are the edges, each once.\<close>

theorem Bridge_total:
  assumes "cri_registry cl cn vs reg" and "services_spec_ok cmp" and "Convert hash cmp opts = Inr res"
  shows "\<exists>d. Bridge uuid reg res = Inr (d, bridge_conditions (crEdges res)) \<and>
         dpRequests d = map manifest_request (crManifests res) \<and>
         map link_ends (dpDependencies d) =
           concat (map (\<lambda>m. map (\<lambda>e. ((mdName (mfMetadata m), manifest_key m), snd (edge_ends e)))
             (filter (\<lambda>e. refId (edFrom e) = mdName (mfMetadata m)) (crEdges res))) (crManifests res)) \<and>
         edge_ends ` set (crEdges res) \<subseteq> link_ends ` set (dpDependencies d) \<and>
         (distinct (filter (\<lambda>i. i \<in> (refId \<circ> edFrom) ` set (crEdges res)) (map (mdName \<circ> mfMetadata) (crManifests res))) \<longrightarrow>
            mset (map link_ends (dpDependencies d)) = mset (map edge_ends (crEdges res)))"
proof -
  let ?view = "\<lambda>m e. ((mdName (mfMetadata m), manifest_key m), snd (edge_ends e))"
  let ?of = "\<lambda>m. filter (\<lambda>e. refId (edFrom e) = mdName (mfMetadata m)) (crEdges res)"
  obtain d where d: "Bridge uuid reg res = Inr (d, bridge_conditions (crEdges res))"
    "dpRequests d = map manifest_request (crManifests res)"
    "dpDependencies d = concat (map (manifest_links (edge_index (crEdges res))) (crManifests res))"
    using bridge_result [OF assms] by blast
  have v: "map link_ends (manifest_links (edge_index (crEdges res)) m) = map (?view m) (?of m)" for m
    by (simp add: manifest_links_def edge_index_get link_ends_def edge_ends_def)
  have l: "map link_ends (dpDependencies d) = concat (map (\<lambda>m. map (?view m) (?of m)) (crManifests res))"
    unfolding d(3) map_concat by (simp add: comp_def v)
  have e: "edge_ends e \<in> link_ends ` set (dpDependencies d)" if h: "e \<in> set (crEdges res)" for e
  proof -
    obtain m where m: "m \<in> set (crManifests res)" "mdName (mfMetadata m) = refId (edFrom e)" "manifest_key m = refKey (edFrom e)"
      using edge_has_manifest [OF assms(3) h] by blast
    then have "edge_ends e = ?view m e" by (simp add: edge_ends_def)
    then have "edge_ends e \<in> set (map link_ends (dpDependencies d))" unfolding l using m h by force
    then show ?thesis by simp
  qed
  have once: "mset (map link_ends (dpDependencies d)) = mset (map edge_ends (crEdges res))"
    if "distinct (filter (\<lambda>i. i \<in> (refId \<circ> edFrom) ` set (crEdges res)) (map (mdName \<circ> mfMetadata) (crManifests res)))"
    unfolding l by (rule edges_once [OF edge_has_manifest [OF assms(3)] that])
  show ?thesis by (intro exI [of _ d] conjI impI subsetI once d(1,2) l) (auto intro: e)
qed

text \<open>A dependency with condition \<open>service_healthy\<close>, \<open>service_completed_successfully\<close> or
  \<open>service_started\<close> is recorded under the ids of the dependency and the dependent, and nothing
  else is: the wait after a resource is created knows exactly what its dependents ask for.\<close>

theorem Bridge_conditions_exact:
  assumes "Convert hash cmp opts = Inr res"
  shows "map_of (gm_get [] (bridge_conditions (crEdges res)) (optProject opts @ ''/'' @ dep)) (optProject opts @ ''/'' @ name) = Some c \<longleftrightarrow>
         (\<exists>svc entry. map_of (compServices cmp) name = Some svc \<and> map_of (dovEntries (svcDependsOn svc)) dep = Some entry \<and>
            mapCondition (doeCondition entry) = c \<and> c \<noteq> '''')"
proof -
  let ?p = "\<lambda>e. refId (edTo e) = optProject opts @ ''/'' @ dep \<and> refId (edFrom e) = optProject opts @ ''/'' @ name \<and> edCondition e \<noteq> ''''"
  obtain nr ir vr where es: "crEdges res = concat (map (\<lambda>n. buildServiceEdges (gm_get zero_service (compServices cmp) n)
      (ref_of (optProject opts @ ''/'' @ n) ServiceKey) opts (ref_of (optProject opts) ProjectKey) nr ir vr)
      (sorted_keys (compServices cmp)))" using Convert_edges [OF assms] by blast
  have only: "\<exists>svc entry. map_of (compServices cmp) name = Some svc \<and> map_of (dovEntries (svcDependsOn svc)) dep = Some entry \<and>
      mapCondition (doeCondition entry) = edCondition e" if e: "e \<in> set (crEdges res)" "?p e" for e
  proof -
    obtain n where n: "n \<in> set (gm_keys (compServices cmp))"
      "e \<in> set (buildServiceEdges (gm_get zero_service (compServices cmp) n)
        (ref_of (optProject opts @ ''/'' @ n) ServiceKey) opts (ref_of (optProject opts) ProjectKey) nr ir vr)"
      using e(1) es by auto
    from conditional_edges [OF n(2)] e(2) obtain d where d: "n = name" "d = dep"
      "d \<in> set (dep_names (gm_get zero_service (compServices cmp) n))"
      "edCondition e = mapCondition (doeCondition (gm_get \<lparr>doeCondition = ''''\<rparr> (dovEntries (svcDependsOn (gm_get zero_service (compServices cmp) n))) d))"
      by auto
    then show ?thesis using n(1) by (auto simp: gm_keys_iff gm_get_def dep_names_def)
  qed
  have some: "\<exists>e \<in> set (crEdges res). ?p e \<and> edCondition e = mapCondition (doeCondition entry)"
    if "map_of (compServices cmp) name = Some svc" "map_of (dovEntries (svcDependsOn svc)) dep = Some entry"
      "mapCondition (doeCondition entry) \<noteq> ''''" for svc entry
  proof -
    have "gm_get zero_service (compServices cmp) name = svc" "name \<in> set (gm_keys (compServices cmp))"
      "dep \<in> set (dep_names svc)" "gm_get \<lparr>doeCondition = ''''\<rparr> (dovEntries (svcDependsOn svc)) dep = entry"
      using that by (auto simp: gm_get_def gm_keys_iff dep_names_def)
    moreover note dependency_edge [of dep svc "ref_of (optProject opts @ ''/'' @ name) ServiceKey" opts "ref_of (optProject opts) ProjectKey" nr ir vr]
    ultimately have "mk_edge (ref_of (optProject opts @ ''/'' @ name) ServiceKey) (ref_of (optProject opts @ ''/'' @ dep) ServiceKey)
        (mapCondition (doeCondition entry)) \<in> set (crEdges res)" unfolding es by auto
    then show ?thesis using that(3) by force
  qed
  show ?thesis
  proof (cases "filter ?p (rev (crEdges res))")
    case Nil
    then have "\<forall>e \<in> set (crEdges res). \<not> ?p e" by (simp add: filter_empty_conv)
    then show ?thesis using some Nil unfolding bridge_conditions_get by auto
  next
    case (Cons e rest)
    then have "e \<in> set (filter ?p (rev (crEdges res)))" by simp
    then have "e \<in> set (crEdges res)" "?p e" by auto
    then show ?thesis using only [of e] Cons unfolding bridge_conditions_get by auto
  qed
qed

definition demo_registry :: "unit registry" where
  "demo_registry = map (\<lambda>d. (defKey d, d)) (NewCRIProvider_defs None None None)"

lemma demo_registry_ok: "cri_registry None None None demo_registry"
  unfolding cri_registry_def demo_registry_def NewCRIProvider_defs_def
  by (simp add: GetDefinition_def ImageDefinition_def NetworkDefinition_def VolumeDefinition_def ContainerDefinition_def
      ServiceDefinition_def ProjectDefinition_def Let_def ImageKey_def NetworkKey_def VolumeKey_def ContainerKey_def
      ServiceKey_def ProjectKey_def)

lemma demo_convert: "\<exists>res. Convert svcImage demo_comp demo_opts = Inr res"
  by (simp add: Convert_def demo_opts_def Let_def split: prod.splits)

text \<open>Witness of \<open>Bridge_total\<close>.\<close>

theorem Bridge_total_witness:
  "\<exists>res d. Convert svcImage demo_comp demo_opts = Inr res \<and>
     Bridge ''u'' demo_registry res = Inr (d, bridge_conditions (crEdges res)) \<and>
     dpRequests d = map manifest_request (crManifests res)"
proof -
  obtain res where "Convert svcImage demo_comp demo_opts = Inr res" using demo_convert by blast
  then show ?thesis using Bridge_total [OF demo_registry_ok demo_comp_ok, of svcImage demo_opts res "''u''"] by blast
qed

text \<open>Witness of \<open>Bridge_conditions_exact\<close>: \<open>web\<close> waits for a healthy \<open>db\<close>.\<close>

theorem Bridge_conditions_exact_witness:
  "\<exists>res. Convert svcImage demo_comp demo_opts = Inr res \<and>
     map_of (gm_get [] (bridge_conditions (crEdges res)) (optProject demo_opts @ ''/'' @ ''db'')) (optProject demo_opts @ ''/'' @ ''web'') = Some ''healthy''"
proof -
  obtain res where res: "Convert svcImage demo_comp demo_opts = Inr res" using demo_convert by blast
  have "\<exists>svc entry. map_of (compServices demo_comp) ''web'' = Some svc \<and> map_of (dovEntries (svcDependsOn svc)) ''db'' = Some entry \<and>
      mapCondition (doeCondition entry) = ''healthy'' \<and> ''healthy'' \<noteq> ''''"
    by (simp add: demo_comp_def mapCondition_def)
  then show ?thesis using Bridge_conditions_exact [OF res, of "''db''" "''web''" "''healthy''"] res by blast
qed

text \<open>A composition in which some service is not on the host network has two manifests of the same
  name, the project and the network, and a volume that is named like a service shares the name
  of the service: the deployment then holds several create requests for one id.\<close>

theorem Convert_id_collisions:
  assumes "Convert hash cmp opts = Inr res"
  shows "(needs_network cmp \<longrightarrow> (\<exists>m \<in> set (crManifests res). \<exists>m' \<in> set (crManifests res).
            mfKind m = ''Project'' \<and> mfKind m' = ''Network'' \<and> mdName (mfMetadata m) = mdName (mfMetadata m'))) \<and>
         (\<forall>n \<in> set (gm_keys (compServices cmp)) \<inter> set (gm_keys (compVolumes cmp)).
            \<exists>m \<in> set (crManifests res). \<exists>m' \<in> set (crManifests res).
              mfKind m = ''Service'' \<and> mfKind m' = ''Volume'' \<and> mdName (mfMetadata m) = mdName (mfMetadata m'))"
proof -
  let ?p = "optProject opts"
  note c = Convert_manifests [OF assms]
  have "mk_manifest ''Project'' ?p (ProjectSpec ?p) \<in> set (crManifests res)" using c by simp
  moreover have "needs_network cmp \<Longrightarrow> mk_manifest ''Network'' ?p (NetworkSpec ?p) \<in> set (crManifests res)"
    using c by (simp add: convertNetwork_def)
  moreover have "n \<in> set (gm_keys (compServices cmp)) \<Longrightarrow> mk_manifest ''Service'' (?p @ ''/'' @ n)
      (ServiceSpec (buildContainerSpec hash n (gm_get zero_service (compServices cmp) n) cmp opts)) \<in> set (crManifests res)" for n
    using c by simp
  moreover have "n \<in> set (gm_keys (compVolumes cmp)) \<Longrightarrow> mk_manifest ''Volume'' (?p @ ''/'' @ n) (VolumeSpec ?p n) \<in> set (crManifests res)" for n
    using c by (simp add: convertVolumes_def Let_def)
  ultimately show ?thesis using mk_manifest_sel by (metis IntE)
qed

text \<open>Witness of \<open>Convert_id_collisions\<close>.\<close>

theorem Convert_id_collisions_witness:
  "\<exists>res m m'. Convert svcImage demo_comp demo_opts = Inr res \<and> m \<in> set (crManifests res) \<and> m' \<in> set (crManifests res) \<and>
     mfKind m = ''Project'' \<and> mfKind m' = ''Network'' \<and> mdName (mfMetadata m) = mdName (mfMetadata m')"
proof -
  obtain res where res: "Convert svcImage demo_comp demo_opts = Inr res" using demo_convert by blast
  have "needs_network demo_comp" by (simp add: needs_network_def demo_comp_def zero_service_def)
  then show ?thesis using Convert_id_collisions [OF res] res by blast
qed

subsection \<open>The orchestrated service is the declared one\<close>

definition named_port_ok :: "named_port \<Rightarrow> bool" where
  "named_port_ok np \<longleftrightarrow> 0 \<le> npContainerPort np \<and> npContainerPort np \<le> 65535 \<and>
     0 \<le> npHostPort np \<and> npHostPort np \<le> 65535 \<and> (npHostPort np = 0 \<longrightarrow> npHostIP np = '''') \<and>
     CHR '':'' \<notin> set (npHostIP np) \<and> CHR ''/'' \<notin> set (npHostIP np) \<and>
     to_lower (npProtocol np) \<in> {'''', ''tcp'', ''udp'', ''sctp''}"

lemma lower_protocols [simp]: "to_lower ''tcp'' = ''tcp''" "to_lower ''udp'' = ''udp''" "to_lower ''sctp'' = ''sctp''" "to_lower '''' = ''''"
  by (simp_all add: to_lower_def lower_char_def)

lemma ParsePort_protos: "parseProto ''tcp'' = Inr Protocol_TCP" "parseProto ''udp'' = Inr Protocol_UDP" "parseProto ''sctp'' = Inr Protocol_SCTP"
  by (simp_all add: parseProto_def)

lemma show_int_nonneg: "0 \<le> i \<Longrightarrow> show_int i = show_nat (nat i)"
  by (simp add: show_int_def)

lemma ParsePort_named:
  assumes "named_port_ok np"
  shows "ParsePort (formatNamedPort np) = Inr (named_mapping np)"
proof -
  let ?c = "nat (npContainerPort np)" let ?h = "nat (npHostPort np)" let ?ip = "npHostIP np" let ?pr = "npProtocol np"
  have r: "?c < 2 ^ 31" "?h < 2 ^ 31" "CHR '':'' \<notin> set ?ip" "CHR ''/'' \<notin> set ?ip" using assms by (auto simp: named_port_ok_def)
  have shw: "show_int (npContainerPort np) = show_nat ?c" "show_int (npHostPort np) = show_nat ?h"
    using assms by (simp_all add: named_port_ok_def show_int_nonneg)
  have ports: "clampPort (npContainerPort np) = int ?c" "(if npHostPort np > 0 then clampPort (npHostPort np) else 0) = int ?h"
    using assms by (auto simp: named_port_ok_def clampPort_id)
  have zero: "npHostPort np = 0 \<Longrightarrow> ?ip = '''' \<and> ?h = 0" using assms by (simp add: named_port_ok_def)
  show ?thesis
  proof (cases "?pr \<in> {'''', ''tcp''}")
    case True
    then have fmt: "formatNamedPort np = (if npHostPort np = 0 then show_nat ?c else if ?ip \<noteq> '''' then ?ip @ '':'' @ show_nat ?h @ '':'' @ show_nat ?c
        else show_nat ?h @ '':'' @ show_nat ?c)" by (auto simp: formatNamedPort_def shw Let_def)
    have "parseProto (to_lower ''tcp'') = Inr Protocol_TCP" by (simp add: ParsePort_protos)
    note P = ParsePort_shapes [OF r(2,1,3,4) this]
    show ?thesis unfolding fmt named_mapping_def ports using P zero True by (auto simp: Let_def)
  next
    case False
    then have fmt: "formatNamedPort np = (if npHostPort np = 0 then show_nat ?c @ ''/'' @ ?pr else if ?ip \<noteq> ''''
        then ?ip @ '':'' @ show_nat ?h @ '':'' @ show_nat ?c @ ''/'' @ ?pr
        else show_nat ?h @ '':'' @ show_nat ?c @ ''/'' @ ?pr)" by (auto simp: formatNamedPort_def shw Let_def)
    have "to_lower ?pr \<in> {''tcp'', ''udp'', ''sctp''}" using assms False by (auto simp: named_port_ok_def to_lower_def)
    then have "parseProto (to_lower ?pr) = Inr (let l = to_lower ?pr in
        if l = ''udp'' then Protocol_UDP else if l = ''sctp'' then Protocol_SCTP else Protocol_TCP)"
      by (auto simp: parseProto_def)
    note P = ParsePort_shapes [OF r(2,1,3,4) this]
    show ?thesis unfolding fmt named_mapping_def ports using P zero by auto
  qed
qed

lemma parse_port_strings_append:
  "parse_port_strings (a @ b) = (case parse_port_strings a of Inl e \<Rightarrow> Inl e
     | Inr x \<Rightarrow> (case parse_port_strings b of Inl e \<Rightarrow> Inl e | Inr y \<Rightarrow> Inr (x @ y)))"
  by (induction a) (auto split: sum.splits)

lemma parse_named: "list_all named_port_ok nps \<Longrightarrow> parse_port_strings (map formatNamedPort nps) = Inr (map named_mapping nps)"
  by (induction nps) (simp_all add: ParsePort_named)

text \<open>C39: The pod of a service that goes through the orchestrator (named ports printed as port strings
  and parsed again) publishes the same ports as the pod of the declared service, when its named ports are in range,
  name no protocol or TCP, UDP or SCTP in any case, and give a host address, free of colons, only together with a host
  port.  Other named ports are published differently on the two paths.\<close>

theorem orchestrated_ports_agree:
  assumes "list_all named_port_ok (named_ports svc)"
  shows "pcPortMappings (BuildPodConfig uid p n (spec_service (buildContainerSpec hash n svc cmp opts)) v mode) =
         pcPortMappings (BuildPodConfig uid p n svc v mode)"
proof -
  have b: "buildPorts svc = svcPorts svc @ map formatNamedPort (named_ports svc)"
    by (simp add: buildPorts_def named_ports_def split: option.splits)
  have s: "svcPorts (spec_service (buildContainerSpec hash n svc cmp opts)) = buildPorts svc"
    "named_ports (spec_service (buildContainerSpec hash n svc cmp opts)) = []"
    by (simp_all add: spec_service_def buildContainerSpec_def named_ports_def zero_service_def)
  have "ParsePorts (buildPorts svc) [] = ParsePorts (svcPorts svc) (named_ports svc)"
    unfolding b ParsePorts_def parse_port_strings_append parse_named [OF assms] by (simp split: sum.splits)
  then show ?thesis by (simp add: BuildPodConfig_def s)
qed

text \<open>A host address without a host port is lost on the way, and a protocol that is not known, which the direct path
  takes for TCP, makes the orchestrated path publish nothing.\<close>

lemma orchestrated_ports_differ:
  "ParsePort (formatNamedPort \<lparr>npName = ''a'', npContainerPort = 80, npHostIP = ''127.0.0.1'', npHostPort = 0, npProtocol = ''''\<rparr>) =
     Inr \<lparr>pmProtocol = Protocol_TCP, pmContainerPort = 80, pmHostPort = 0, pmHostIp = ''''\<rparr> \<and>
   pmHostIp (named_mapping \<lparr>npName = ''a'', npContainerPort = 80, npHostIP = ''127.0.0.1'', npHostPort = 0, npProtocol = ''''\<rparr>) = ''127.0.0.1'' \<and>
   ParsePort (formatNamedPort \<lparr>npName = ''b'', npContainerPort = 80, npHostIP = '''', npHostPort = 0, npProtocol = ''quic''\<rparr>) =
     Inl (Err ''unknown protocol quic'')"
  by code_simp

text \<open>Witness of \<open>orchestrated_ports_agree\<close>.\<close>

theorem orchestrated_ports_agree_witness:
  "\<exists>svc. named_ports svc \<noteq> [] \<and>
     pcPortMappings (BuildPodConfig ''u'' ''p'' ''web'' (spec_service (buildContainerSpec svcImage ''web'' svc demo_comp demo_opts)) ''v'' PodNetworkCNI) =
     pcPortMappings (BuildPodConfig ''u'' ''p'' ''web'' svc ''v'' PodNetworkCNI)"
proof -
  let ?np = "\<lparr>npName = ''dns'', npContainerPort = 53, npHostIP = '''', npHostPort = 5353, npProtocol = ''UDP''\<rparr>"
  let ?svc = "zero_service\<lparr>svcXNixCompose := Some (zero_extended\<lparr>xNamedPorts := [?np]\<rparr>)\<rparr>"
  have np: "named_ports ?svc = [?np]" by (simp add: named_ports_def)
  have "to_lower ''UDP'' = ''udp''" by code_simp
  with np have "list_all named_port_ok (named_ports ?svc)" by (simp add: named_port_ok_def)
  from orchestrated_ports_agree [OF this, of "''u''" "''p''" "''web''" svcImage demo_comp demo_opts "''v''" PodNetworkCNI]
  show ?thesis using np by (intro exI [of _ ?svc]) simp
qed

lemma store_mount:
  assumes "has_prefix q ''/''" and "CHR '':'' \<notin> set q" and "clean_rooted q = q"
  shows "ParseVolumeMount cwd (q @ '':'' @ q @ '':ro'') p cvols res =
     Inr (Some \<lparr>mtContainerPath = q, mtHostPath = q, mtReadonly = True\<rparr>)"
proof -
  have "cut_char (CHR '':'') (q @ '':'' @ q @ '':ro'') = Some (q, q @ '':ro'')" using assms(2) by (simp add: cut_char_Some)
  moreover have "cut_char (CHR '':'') (q @ '':ro'') = Some (q, ''ro'')" using assms(2) by (simp add: cut_char_Some)
  ultimately have parts: "split3 (CHR '':'') (q @ '':'' @ q @ '':ro'') = [q, q, ''ro'']" unfolding split3_def by simp
  have "MountOptionsReadOnly ''ro''" by code_simp
  then show ?thesis unfolding ParseVolumeMount_def parts using assms(1,3)
    by (simp add: isHostPath_def filepath_Abs_def numeral_2_eq_2)
qed

lemma volume_mounts_append:
  "volume_mounts cwd p cv res (a @ b) = (case volume_mounts cwd p cv res a of Inl e \<Rightarrow> Inl e
     | Inr x \<Rightarrow> (case volume_mounts cwd p cv res b of Inl e \<Rightarrow> Inl e | Inr y \<Rightarrow> Inr (x @ y)))"
  by (induction a) (auto split: sum.splits option.splits)

lemma store_mounts:
  "list_all (\<lambda>q. has_prefix q ''/'' \<and> CHR '':'' \<notin> set q \<and> clean_rooted q = q) qs \<Longrightarrow>
   volume_mounts cwd p cv res (map (\<lambda>q. q @ '':'' @ q @ '':ro'') qs) =
   Inr (map (\<lambda>q. \<lparr>mtContainerPath = q, mtHostPath = q, mtReadonly = True\<rparr>) qs)"
  by (induction qs) (simp_all add: store_mount [simplified])

text \<open>The containers of a service that goes through the orchestrator get the same mounts as those of
  the declared service, up to their order, and the conversion fails for the one exactly when it
  fails for the other, when the store paths are absolute, clean and free of colons.\<close>

theorem orchestrated_mounts_agree:
  assumes "\<forall>x. svcXNixCompose svc = Some x \<longrightarrow>
      list_all (\<lambda>q. has_prefix q ''/'' \<and> CHR '':'' \<notin> set q \<and> clean_rooted q = q) (xNixStorePaths x)"
  shows "case BuildMounts cwd svc p cv res of
           Inl e \<Rightarrow> BuildMounts cwd (spec_service (buildContainerSpec hash n svc cmp opts)) p cv res = Inl e
         | Inr ms \<Rightarrow> (\<exists>ms'. BuildMounts cwd (spec_service (buildContainerSpec hash n svc cmp opts)) p cv res = Inr ms' \<and> mset ms' = mset ms)"
proof -
  let ?s = "spec_service (buildContainerSpec hash n svc cmp opts)"
  have s: "svcVolumes ?s = buildVolumes svc" "svcTmpfs ?s = svcTmpfs svc" "svcXNixCompose ?s = None"
    by (simp_all add: spec_service_def buildContainerSpec_def zero_service_def)
  define store where "store = (case svcXNixCompose svc of None \<Rightarrow> [] | Some x \<Rightarrow> if xUseHostStore x then xNixStorePaths x else [])"
  have ok: "list_all (\<lambda>q. has_prefix q ''/'' \<and> CHR '':'' \<notin> set q \<and> clean_rooted q = q) store"
    using assms by (auto simp: store_def split: option.splits)
  have b: "buildVolumes svc = svcVolumes svc @ map (\<lambda>q. q @ '':'' @ q @ '':ro'') store"
    by (simp add: buildVolumes_def store_def split: option.splits)
  have m: "BuildMounts cwd svc p cv res = (case volume_mounts cwd p cv res (svcVolumes svc) of Inl e \<Rightarrow> Inl e
     | Inr ms \<Rightarrow> Inr (ms @ map (\<lambda>path. \<lparr>mtContainerPath = path, mtHostPath = ''tmpfs'', mtReadonly = False\<rparr>) (svcTmpfs svc) @
         map (\<lambda>q. \<lparr>mtContainerPath = q, mtHostPath = q, mtReadonly = True\<rparr>) store))"
    unfolding BuildMounts_def store_def by (auto split: option.splits sum.splits)
  have m': "BuildMounts cwd ?s p cv res = (case volume_mounts cwd p cv res (svcVolumes svc) of Inl e \<Rightarrow> Inl e
     | Inr ms \<Rightarrow> Inr ((ms @ map (\<lambda>q. \<lparr>mtContainerPath = q, mtHostPath = q, mtReadonly = True\<rparr>) store) @
         map (\<lambda>path. \<lparr>mtContainerPath = path, mtHostPath = ''tmpfs'', mtReadonly = False\<rparr>) (svcTmpfs svc)))"
    unfolding BuildMounts_def s b volume_mounts_append store_mounts [OF ok] by (simp split: sum.splits)
  show ?thesis unfolding m m' by (cases "volume_mounts cwd p cv res (svcVolumes svc)") simp_all
qed

text \<open>Witness of \<open>orchestrated_mounts_agree\<close>.\<close>

theorem orchestrated_mounts_agree_witness:
  "\<exists>ms'. BuildMounts None (spec_service (buildContainerSpec svcImage ''web''
     (zero_service\<lparr>svcTmpfs := [''/tmp''], svcXNixCompose := Some (zero_extended\<lparr>xUseHostStore := True, xNixStorePaths := [''/nix/store/a'']\<rparr>)\<rparr>)
     demo_comp demo_opts)) ''p'' [] None = Inr ms' \<and> length ms' = 2"
proof -
  let ?svc = "zero_service\<lparr>svcTmpfs := [''/tmp''], svcXNixCompose := Some (zero_extended\<lparr>xUseHostStore := True, xNixStorePaths := [''/nix/store/a'']\<rparr>)\<rparr>"
  have "clean_rooted ''/nix/store/a'' = ''/nix/store/a''" by code_simp
  then have ok: "\<forall>x. svcXNixCompose ?svc = Some x \<longrightarrow>
      list_all (\<lambda>q. has_prefix q ''/'' \<and> CHR '':'' \<notin> set q \<and> clean_rooted q = q) (xNixStorePaths x)"
    by (simp add: has_prefix_def)
  obtain ms where ms: "BuildMounts None ?svc ''p'' [] None = Inr ms" "length ms = 2"
    by (simp add: BuildMounts_def zero_service_def)
  from orchestrated_mounts_agree [OF ok, of None svcImage "''web''" demo_comp demo_opts "''p''" "[]" None] ms(1)
  obtain ms' where "BuildMounts None (spec_service (buildContainerSpec svcImage ''web'' ?svc demo_comp demo_opts)) ''p'' [] None = Inr ms'"
    "mset ms' = mset ms" by auto
  then show ?thesis using ms(2) by (metis mset_eq_length)
qed

end
