(* ===== verification/Supervisor.thy ===== *)
theory Supervisor
  imports Cri_Convert
begin

text \<open>
  \<open>src/pkg/cri/supervisor.go\<close>: the restart loop of one service.

  The state is the set of registered services and the \<open>stopped\<close> flag.  \<open>watchService\<close> talks to
  the container runtime and to the clock; what they answer during one turn of its loop is a
  record \<open>turn\<close>, in which \<open>ctx.Err() != nil\<close> has one Boolean for each place that asks for it.
  The loop runs over a list of turns: it either returns or has used all of them (\<open>Running\<close>), and
  reports the delays it waited before its restarts.  Times are nanoseconds.
\<close>

definition second :: int where "second = 1000000000"

definition backoffMin :: int where "backoffMin = 1 * second"
definition backoffMax :: int where "backoffMax = 60 * second"
definition backoffFactor :: int where "backoffFactor = 2"
definition backoffResetThreshold :: int where "backoffResetThreshold = 30 * second"

record service_entry =
  seSvc :: service
  sePolicy :: restart_policy

record supervisor =
  supEntries :: "service_entry gomap"
  supStopped :: bool

definition NewSupervisor :: supervisor where
  "NewSupervisor = \<lparr>supEntries = [], supStopped = False\<rparr>"

definition SupervisorRegister :: "supervisor \<Rightarrow> string \<Rightarrow> service \<Rightarrow> supervisor" where
  "SupervisorRegister s name svc =
     s\<lparr>supEntries := gm_put name \<lparr>seSvc = svc, sePolicy = ParseRestartPolicy (svcRestart svc)\<rparr> (supEntries s)\<rparr>"

definition SupervisorStop :: "supervisor \<Rightarrow> supervisor" where
  "SupervisorStop s = s\<lparr>supStopped := True\<rparr>"

subsection \<open>Looking a container up\<close>

text \<open>\<open>ListPodSandboxes\<close> answers a label selector, \<open>ListContainers\<close> a pod id.\<close>

definition lookupContainer :: "(string gomap \<Rightarrow> error + string list) \<Rightarrow> (string \<Rightarrow> error + string list) \<Rightarrow>
    string \<Rightarrow> string \<Rightarrow> error + string" where
  "lookupContainer listPods listContainers project name =
     (case listPods [(LabelProject, project), (LabelService, name)] of
        Inl e \<Rightarrow> Inl e
      | Inr [] \<Rightarrow> Inl (Err (''no pods found for service '' @ name))
      | Inr (pod # _) \<Rightarrow>
          (case listContainers pod of
             Inl e \<Rightarrow> Inl e
           | Inr [] \<Rightarrow> Inl (Err (''no containers found for service '' @ name))
           | Inr (ctr # _) \<Rightarrow> Inr ctr))"

subsection \<open>The loop\<close>

record turn =
  tnCancelled :: bool
  tnLookup :: "error + string"
  tnLookupCancelled :: bool
  tnWaitExited :: "string \<Rightarrow> error + int"
  tnWaitCancelled :: bool
  tnStopped :: bool
  tnExitCancelled :: bool
  tnRan :: int
  tnBackoffCancelled :: bool
  tnServiceUp :: "service \<Rightarrow> error option"
  tnUpCancelled :: bool

definition waitForExit :: "turn \<Rightarrow> service_entry \<Rightarrow> error + (bool \<times> bool)" where
  "waitForExit t entry =
     (case tnLookup t of
        Inl e \<Rightarrow> if tnLookupCancelled t then Inr (False, False) else Inl e
      | Inr ctrID \<Rightarrow>
          (case tnWaitExited t ctrID of
             Inl e \<Rightarrow> if tnWaitCancelled t then Inr (False, False) else Inl e
           | Inr exitCode \<Rightarrow>
               if \<not> ShouldRestart (sePolicy entry) exitCode (tnStopped t) then Inr (False, False)
               else if tnExitCancelled t then Inr (False, False)
               else Inr (True, tnRan t > backoffResetThreshold)))"

text \<open>The second component says whether \<open>ServiceUp\<close> was called.\<close>

definition backoffAndRestart :: "turn \<Rightarrow> service_entry \<Rightarrow> error option \<times> bool" where
  "backoffAndRestart t entry =
     (if tnBackoffCancelled t then (None, False)
      else case tnServiceUp t (seSvc entry) of
             None \<Rightarrow> (None, True)
           | Some e \<Rightarrow> if tnUpCancelled t then (None, True) else (Some e, True))"

datatype outcome = Returned "error option" | Running

definition next_backoff :: "int \<Rightarrow> int" where
  "next_backoff b = (let b1 = b * backoffFactor in if b1 > backoffMax then backoffMax else b1)"

text \<open>Each entry of the trace is the delay of a turn and whether the service was restarted after it.\<close>

fun watch_loop :: "service_entry \<Rightarrow> int \<Rightarrow> turn list \<Rightarrow> outcome \<times> (int \<times> bool) list" where
  "watch_loop entry backoff [] = (Running, [])"
| "watch_loop entry backoff (t # ts) =
     (if tnCancelled t then (Returned None, [])
      else case waitForExit t entry of
             Inl e \<Rightarrow> (Returned (Some e), [])
           | Inr (shouldRestart, ranLong) \<Rightarrow>
               if \<not> shouldRestart then (Returned None, [])
               else let b = (if ranLong then backoffMin else backoff)
                    in case backoffAndRestart t entry of
                         (Some e, up) \<Rightarrow> (Returned (Some e), [(b, up)])
                       | (None, up) \<Rightarrow>
                           (case watch_loop entry (next_backoff b) ts of (r, tr) \<Rightarrow> (r, (b, up) # tr)))"

definition watchService :: "service_entry \<Rightarrow> turn list \<Rightarrow> outcome \<times> (int \<times> bool) list" where
  "watchService entry ts = watch_loop entry backoffMin ts"

subsection \<open>Delays\<close>

lemmas backoff_defs = backoffMin_def backoffMax_def backoffFactor_def backoffResetThreshold_def second_def

lemma next_backoff_range:
  "backoffMin \<le> b \<Longrightarrow> backoffMin \<le> next_backoff b \<and> next_backoff b \<le> backoffMax"
  by (simp add: next_backoff_def backoff_defs Let_def)

definition restarts_after :: "service_entry \<Rightarrow> turn \<Rightarrow> bool \<Rightarrow> bool" where
  "restarts_after entry t ranLong \<longleftrightarrow> \<not> tnCancelled t \<and> waitForExit t entry = Inr (True, ranLong)"

text \<open>One turn: the loop returns before it waits, or it waits and then fails or goes on.\<close>

lemma watch_loop_turn:
  assumes "watch_loop entry b (t # ts) = (r, tr)"
  shows "tr = [] \<and> r \<noteq> Running \<or>
    (\<exists>long up e. restarts_after entry t long \<and> backoffAndRestart t entry = (Some e, up) \<and>
       r = Returned (Some e) \<and> tr = [(if long then backoffMin else b, up)]) \<or>
    (\<exists>long up tr'. restarts_after entry t long \<and> backoffAndRestart t entry = (None, up) \<and>
       watch_loop entry (next_backoff (if long then backoffMin else b)) ts = (r, tr') \<and>
       tr = (if long then backoffMin else b, up) # tr')"
  using assms unfolding restarts_after_def
  by (auto simp: Let_def split: if_splits sum.splits prod.splits option.splits)

lemma watch_loop_turnE:
  assumes "watch_loop entry b (t # ts) = (r, tr)"
  obtains (return) "tr = []" "r \<noteq> Running"
    | (fail) long up e where "restarts_after entry t long" "r = Returned (Some e)" "tr = [(if long then backoffMin else b, up)]"
    | (more) long up tr' where "restarts_after entry t long"
        "watch_loop entry (next_backoff (if long then backoffMin else b)) ts = (r, tr')"
        "tr = (if long then backoffMin else b, up) # tr'"
  using watch_loop_turn [OF assms] by metis

text \<open>The delay of turn \<open>i\<close>: the minimum after a long run, otherwise the delay the loop arrives with.\<close>

lemma watch_loop_delay:
  "watch_loop entry b ts = (r, tr) \<Longrightarrow> i < length tr \<Longrightarrow>
   (\<exists>long. restarts_after entry (ts ! i) long \<and>
      fst (tr ! i) = (if long then backoffMin else if i = 0 then b else next_backoff (fst (tr ! (i - 1)))))"
proof (induction ts arbitrary: b r tr i)
  case (Cons t ts)
  from Cons.prems(1) show ?case
  proof (cases rule: watch_loop_turnE)
    case return
    then show ?thesis using Cons.prems(2) by simp
  next
    case (fail long up e)
    then have "i = 0" using Cons.prems(2) by simp
    with fail show ?thesis by (intro exI [of _ long]) simp
  next
    case (more long up tr')
    show ?thesis
    proof (cases i)
      case 0
      with more show ?thesis by (intro exI [of _ long]) simp
    next
      case (Suc k)
      then have "k < length tr'" using more Cons.prems(2) by simp
      from Cons.IH [OF more(2) this] obtain l where l: "restarts_after entry (ts ! k) l"
        "fst (tr' ! k) = (if l then backoffMin else if k = 0 then next_backoff (if long then backoffMin else b)
           else next_backoff (fst (tr' ! (k - 1))))" by blast
      show ?thesis unfolding more(3) Suc using l by (intro exI [of _ l]) (cases k, simp_all)
    qed
  qed
qed simp

lemma watch_loop_range:
  assumes "backoffMin \<le> b" and "b \<le> backoffMax" and "watch_loop entry b ts = (r, tr)" and "i < length tr"
  shows "backoffMin \<le> fst (tr ! i) \<and> fst (tr ! i) \<le> backoffMax"
  using assms(4)
proof (induction i)
  case 0
  then show ?case using watch_loop_delay [OF assms(3), of 0] assms(1,2) by (auto simp: backoff_defs)
next
  case (Suc i)
  then show ?case using watch_loop_delay [OF assms(3), of "Suc i"] next_backoff_range [of "fst (tr ! i)"]
    by (auto simp: backoff_defs)
qed

lemma next_backoff_pow: "next_backoff (min (2 ^ i * second) backoffMax) = min (2 ^ Suc i * second) backoffMax"
  by (simp add: next_backoff_def backoff_defs Let_def min_def)

lemma watch_loop_doubling:
  assumes "watch_loop entry backoffMin ts = (r, tr)" and "i < length tr"
    and "\<forall>j \<le> i. \<not> restarts_after entry (ts ! j) True"
  shows "fst (tr ! i) = min (2 ^ i * second) backoffMax"
  using assms(2,3)
proof (induction i)
  case 0
  then show ?case using watch_loop_delay [OF assms(1), of 0] by (auto simp: backoff_defs)
next
  case (Suc i)
  have "\<not> restarts_after entry (ts ! Suc i) True" using Suc.prems(2) by blast
  then have "fst (tr ! Suc i) = next_backoff (fst (tr ! i))"
    using watch_loop_delay [OF assms(1) Suc.prems(1)] by auto
  then show ?case using Suc by (simp add: next_backoff_pow del: power_Suc)
qed


definition crash_turn :: turn where
  "crash_turn = \<lparr>tnCancelled = False, tnLookup = Inr ''c'', tnLookupCancelled = False, tnWaitExited = (\<lambda>_. Inr 1),
     tnWaitCancelled = False, tnStopped = False, tnExitCancelled = False, tnRan = 5, tnBackoffCancelled = False,
     tnServiceUp = (\<lambda>_. None), tnUpCancelled = False\<rparr>"


subsection \<open>Policies\<close>

text \<open>A service is restarted only in a turn whose container exited and whose policy asks for it; when
  the loop returns without an error, the last turn was cancelled or its policy refused a restart.
  The stop flag is looked at by \<open>unless-stopped\<close> alone: a service with policy \<open>always\<close>, and a failed
  one with \<open>on-failure\<close>, is restarted after \<open>Stop\<close> as before.\<close>

theorem watchService_policy:
  assumes "watchService entry ts = (r, tr)"
  shows "(\<forall>i < length tr. \<exists>ctr code. tnLookup (ts ! i) = Inr ctr \<and> tnWaitExited (ts ! i) ctr = Inr code \<and>
            ShouldRestart (sePolicy entry) code (tnStopped (ts ! i))) \<and>
         (sePolicy entry = RestartNo \<longrightarrow> tr = []) \<and>
         (sePolicy entry \<in> {RestartAlways, RestartOnFailure} \<longrightarrow>
            watchService entry (map (\<lambda>t. t\<lparr>tnStopped := True\<rparr>) ts) = (r, tr))"
proof (intro conjI impI allI)
  have w: "watch_loop entry backoffMin ts = (r, tr)" using assms by (simp add: watchService_def)
  show asked: "\<exists>ctr code. tnLookup (ts ! i) = Inr ctr \<and> tnWaitExited (ts ! i) ctr = Inr code \<and>
      ShouldRestart (sePolicy entry) code (tnStopped (ts ! i))" if "i < length tr" for i
    using watch_loop_delay [OF w that]
    by (auto simp: restarts_after_def waitForExit_def split: sum.splits if_splits)
  show "tr = []" if "sePolicy entry = RestartNo"
    using asked [of 0] that by (cases tr) auto
  assume p: "sePolicy entry \<in> {RestartAlways, RestartOnFailure}"
  have turn: "waitForExit (t\<lparr>tnStopped := True\<rparr>) entry = waitForExit t entry"
    "backoffAndRestart (t\<lparr>tnStopped := True\<rparr>) entry = backoffAndRestart t entry" for t
    using p by (auto simp: waitForExit_def backoffAndRestart_def split: sum.splits option.splits)
  have "watch_loop entry b (map (\<lambda>t. t\<lparr>tnStopped := True\<rparr>) us) = watch_loop entry b us" for b us
    by (induction us arbitrary: b) (simp_all add: turn Let_def split: prod.splits sum.splits)
  then show "watchService entry (map (\<lambda>t. t\<lparr>tnStopped := True\<rparr>) ts) = (r, tr)" using w by (simp add: watchService_def)
qed

text \<open>Witness of \<open>watchService_policy\<close>: a crashing service is restarted after \<open>Stop\<close>.\<close>

theorem watchService_policy_witness:
  "watchService \<lparr>seSvc = zero_service, sePolicy = RestartOnFailure\<rparr> [crash_turn\<lparr>tnStopped := True\<rparr>] =
     (Running, [(backoffMin, True)])"
proof -
  let ?e = "\<lparr>seSvc = zero_service, sePolicy = RestartOnFailure\<rparr>"
  have "watchService ?e [crash_turn] = (Running, [(backoffMin, True)])"
    by (simp add: watchService_def crash_turn_def waitForExit_def backoffAndRestart_def backoff_defs Let_def)
  from watchService_policy [OF this] show ?thesis by simp
qed

end
