(* ===== verification/K8s_Names.thy ===== *)
theory K8s_Names
  imports Go_Paths
begin

text \<open>
  \<open>src/pkg/k8s/names.go\<close>: names of Kubernetes objects and keys of ConfigMaps.

  SHA-256 is the argument \<open>sha\<close>, which answers the digest in hexadecimal; \<open>sha_ok\<close> is what is used
  of it.  Names are byte strings; a rune outside ASCII is a lead byte with continuation bytes.
\<close>

definition maxLabelLen :: nat where "maxLabelLen = 63"
definition hashLen :: nat where "hashLen = 8"

definition is_hex :: "char \<Rightarrow> bool" where
  "is_hex c \<longleftrightarrow> CHR ''0'' \<le> c \<and> c \<le> CHR ''9'' \<or> CHR ''a'' \<le> c \<and> c \<le> CHR ''f''"

definition sha_ok :: "(string \<Rightarrow> string) \<Rightarrow> bool" where
  "sha_ok sha \<longleftrightarrow> (\<forall>s. length (sha s) = 64 \<and> (\<forall>c \<in> set (sha s). is_hex c))"

definition shortHash :: "(string \<Rightarrow> string) \<Rightarrow> string \<Rightarrow> string" where
  "shortHash sha s = take hashLen (sha s)"

definition trim_char :: "char \<Rightarrow> string \<Rightarrow> string" where
  "trim_char c s = rev (dropWhile (\<lambda>x. x = c) (rev (dropWhile (\<lambda>x. x = c) s)))"

definition is_lower_alnum :: "char \<Rightarrow> bool" where
  "is_lower_alnum c \<longleftrightarrow> CHR ''a'' \<le> c \<and> c \<le> CHR ''z'' \<or> CHR ''0'' \<le> c \<and> c \<le> CHR ''9''"

fun collapse :: "bool \<Rightarrow> string \<Rightarrow> string" where
  "collapse dashed [] = []"
| "collapse dashed (c # cs) =
     (if is_lower_alnum c then c # collapse False cs
      else if \<not> dashed then CHR ''-'' # collapse True cs
      else collapse True cs)"

text \<open>\<open>strings.ToLower\<close> sends exactly two letters outside ASCII to ASCII ones: U+0130 to i and U+212A (the
  Kelvin sign) to k.  All others stay outside ASCII, where the loop of \<open>sanitizeName\<close> sees no difference.\<close>

fun lower_special :: "string \<Rightarrow> string" where
  "lower_special (a # b # c # r) =
     (if (of_char a :: nat) = 0xC4 \<and> (of_char b :: nat) = 0xB0 then CHR ''i'' # lower_special (c # r)
      else if (of_char a :: nat) = 0xE2 \<and> (of_char b :: nat) = 0x84 \<and> (of_char c :: nat) = 0xAA then CHR ''k'' # lower_special r
      else a # lower_special (b # c # r))"
| "lower_special [a, b] = (if (of_char a :: nat) = 0xC4 \<and> (of_char b :: nat) = 0xB0 then ''i'' else [a, b])"
| "lower_special s = s"

definition withSuffix :: "string \<Rightarrow> string \<Rightarrow> string" where
  "withSuffix name suffix =
     (let name1 = trim_char (CHR ''-'') name
      in if name1 = '''' then ''v-'' @ suffix
         else let name2 = (if length name1 + length suffix + 1 > maxLabelLen
                then trim_char (CHR ''-'') (take (maxLabelLen - length suffix - 1) name1) else name1)
              in name2 @ ''-'' @ suffix)"

definition sanitizeName :: "(string \<Rightarrow> string) \<Rightarrow> string \<Rightarrow> string" where
  "sanitizeName sha s =
     (let name = trim_char (CHR ''-'') (collapse False (to_lower (lower_special s)))
      in if name = '''' then ''v-'' @ shortHash sha s
         else if length name > maxLabelLen then withSuffix (take (maxLabelLen - hashLen - 1) name) (shortHash sha s)
         else name)"

definition is_key_char :: "char \<Rightarrow> bool" where
  "is_key_char c \<longleftrightarrow> is_lower_alnum c \<or> CHR ''A'' \<le> c \<and> c \<le> CHR ''Z'' \<or> c \<in> set ''-_.''"

definition is_continuation :: "char \<Rightarrow> bool" where
  "is_continuation c \<longleftrightarrow> (let n = (of_char c :: nat) in 128 \<le> n \<and> n < 192)"

fun key_chars :: "string \<Rightarrow> string" where
  "key_chars [] = []"
| "key_chars (c # cs) =
     (if is_key_char c then c # key_chars cs
      else if is_continuation c then key_chars cs
      else CHR ''-'' # key_chars cs)"

definition configMapKey :: "(string \<Rightarrow> string) \<Rightarrow> string \<Rightarrow> string" where
  "configMapKey sha filename =
     (let key = trim_char (CHR ''.'') (key_chars filename)
      in if key = '''' then ''file-'' @ shortHash sha filename else key)"

subsection \<open>The names are RFC 1123 labels\<close>

definition valid_label :: "string \<Rightarrow> bool" where
  "valid_label s \<longleftrightarrow> s \<noteq> '''' \<and> length s \<le> maxLabelLen \<and> (\<forall>c \<in> set s. is_lower_alnum c \<or> c = CHR ''-'') \<and>
     hd s \<noteq> CHR ''-'' \<and> last s \<noteq> CHR ''-''"

lemma is_hex_alnum: "is_hex c \<Longrightarrow> is_lower_alnum c"
  by (auto simp: is_hex_def is_lower_alnum_def less_eq_char_def)

lemma dash_not_alnum: "\<not> is_lower_alnum (CHR ''-'')"
  by (simp add: is_lower_alnum_def less_eq_char_def)

lemma collapse_chars: "c \<in> set (collapse d s) \<Longrightarrow> is_lower_alnum c \<or> c = CHR ''-''"
  by (induction d s rule: collapse.induct) (auto split: if_splits)

lemma trim_char_props:
  shows "set (trim_char c s) \<subseteq> set s" and "length (trim_char c s) \<le> length s"
    and "trim_char c s \<noteq> [] \<Longrightarrow> hd (trim_char c s) \<noteq> c \<and> last (trim_char c s) \<noteq> c"
proof -
  let ?d = "dropWhile (\<lambda>x. x = c)"
  have mem: "set (?d xs) \<subseteq> set xs" for xs by (auto dest: set_dropWhileD)
  show "set (trim_char c s) \<subseteq> set s" unfolding trim_char_def using mem [of s] mem [of "rev (?d s)"] by auto
  have len: "length (?d xs) \<le> length xs" for xs by (rule length_dropWhile_le)
  show "length (trim_char c s) \<le> length s" unfolding trim_char_def using len [of s] len [of "rev (?d s)"] by simp
  assume ne: "trim_char c s \<noteq> []"
  let ?t = "?d (rev (?d s))"
  have t: "?t \<noteq> []" "trim_char c s = rev ?t" using ne by (simp_all add: trim_char_def)
  have "last (trim_char c s) = hd ?t" using t by (simp add: last_rev)
  moreover have "hd ?t \<noteq> c" using hd_dropWhile [of "\<lambda>x. x = c" "rev (?d s)"] t(1) by blast
  moreover have "hd (trim_char c s) \<noteq> c"
  proof -
    have "?d s \<noteq> []" using t(1) by (metis dropWhile.simps(1) rev.simps(1))
    then have "hd (?d s) \<noteq> c" using hd_dropWhile [of "\<lambda>x. x = c" s] by blast
    moreover have "last ?t = last (rev (?d s))"
    proof -
      obtain u where "rev (?d s) = u @ ?t" by (metis takeWhile_dropWhile_id)
      then show ?thesis using t(1) by (metis last_appendR)
    qed
    ultimately show ?thesis using t \<open>?d s \<noteq> []\<close> by (simp add: hd_rev last_rev)
  qed
  ultimately show "hd (trim_char c s) \<noteq> c \<and> last (trim_char c s) \<noteq> c" by simp
qed

lemma trim_Nil: "trim_char c [] = []"
  by (simp add: trim_char_def)

lemma trim_char_ne: "s \<noteq> [] \<Longrightarrow> hd s \<noteq> c \<Longrightarrow> trim_char c s \<noteq> []"
proof -
  assume s: "s \<noteq> []" "hd s \<noteq> c"
  then have d: "dropWhile (\<lambda>x. x = c) s = s" by (cases s) auto
  have "hd s \<in> set (rev s)" using s(1) by simp
  then show "trim_char c s \<noteq> []" using s(2) unfolding trim_char_def d by (auto simp: dropWhile_eq_Nil_conv)
qed

lemma shortHash_props:
  assumes "sha_ok sha"
  shows "length (shortHash sha s) = 8" and "c \<in> set (shortHash sha s) \<Longrightarrow> is_lower_alnum c"
  using assms by (auto simp: sha_ok_def shortHash_def hashLen_def dest!: in_set_takeD intro: is_hex_alnum)

lemma withSuffix_label:
  assumes chars: "\<forall>c \<in> set name. is_lower_alnum c \<or> c = CHR ''-''"
    and suf: "length suf = 8" "\<forall>c \<in> set suf. is_lower_alnum c"
  shows "valid_label (withSuffix name suf)"
proof -
  have last_suf: "suf \<noteq> []" "last suf \<noteq> CHR ''-''" using suf dash_not_alnum last_in_set by (fastforce, metis last_in_set length_0_conv zero_neq_numeral)
  let ?n1 = "trim_char (CHR ''-'') name"
  show ?thesis
  proof (cases "?n1 = ''''")
    case True
    then show ?thesis
      using suf last_suf by (auto simp: withSuffix_def valid_label_def maxLabelLen_def is_lower_alnum_def less_eq_char_def)
  next
    case False
    let ?n2 = "if length ?n1 + length suf + 1 > maxLabelLen
      then trim_char (CHR ''-'') (take (maxLabelLen - length suf - 1) ?n1) else ?n1"
    have n1: "hd ?n1 \<noteq> CHR ''-''" "\<forall>c \<in> set ?n1. is_lower_alnum c \<or> c = CHR ''-''"
      using trim_char_props(3) [OF False] trim_char_props(1) [of "CHR ''-''" name] chars by auto
    let ?t = "take (maxLabelLen - length suf - 1) ?n1"
    have t: "?t \<noteq> []" "hd ?t \<noteq> CHR ''-''" using False n1(1) suf(1) by (auto simp: maxLabelLen_def hd_take)
    have n2: "?n2 \<noteq> [] \<and> hd ?n2 \<noteq> CHR ''-'' \<and> length ?n2 + length suf + 1 \<le> maxLabelLen \<and>
        (\<forall>c \<in> set ?n2. is_lower_alnum c \<or> c = CHR ''-'')"
    proof (cases "length ?n1 + length suf + 1 > maxLabelLen")
      case True
      have "length (trim_char (CHR ''-'') ?t) \<le> maxLabelLen - length suf - 1"
        using trim_char_props(2) [of "CHR ''-''" ?t] by simp
      moreover have "trim_char (CHR ''-'') ?t \<noteq> []" using trim_char_ne [OF t] .
      moreover have "set (trim_char (CHR ''-'') ?t) \<subseteq> set ?n1"
        using trim_char_props(1) [of "CHR ''-''" ?t] set_take_subset [of _ ?n1] by blast
      ultimately show ?thesis
        using True trim_char_props(3) [of "CHR ''-''" ?t] n1(2) suf(1) by (auto simp: maxLabelLen_def)
    next
      case False
      with \<open>?n1 \<noteq> ''''\<close> n1 show ?thesis by auto
    qed
    have "withSuffix name suf = ?n2 @ ''-'' @ suf" using False by (simp add: withSuffix_def Let_def)
    with n2 suf last_suf show ?thesis by (auto simp: valid_label_def)
  qed
qed

lemma sanitizeName_valid':
  assumes "sha_ok sha"
  shows "valid_label (sanitizeName sha s)"
proof -
  let ?n = "trim_char (CHR ''-'') (collapse False (to_lower (lower_special s)))"
  have chars: "\<forall>c \<in> set ?n. is_lower_alnum c \<or> c = CHR ''-''"
    using trim_char_props(1) [of "CHR ''-''" "collapse False (to_lower (lower_special s))"] collapse_chars by blast
  have suf: "length (shortHash sha s) = 8" "\<forall>c \<in> set (shortHash sha s). is_lower_alnum c"
    using shortHash_props [OF assms] by blast+
  consider "?n = ''''" | "?n \<noteq> ''''" "length ?n > maxLabelLen" | "?n \<noteq> ''''" "length ?n \<le> maxLabelLen" by linarith
  then show ?thesis
  proof cases
    case 1
    then have eq: "sanitizeName sha s = withSuffix '''' (shortHash sha s)"
      by (simp add: sanitizeName_def withSuffix_def Let_def trim_Nil)
    have "\<forall>c \<in> set ''''. is_lower_alnum c \<or> c = CHR ''-''" by simp
    from withSuffix_label [OF this suf] show ?thesis unfolding eq .
  next
    case 2
    then have "sanitizeName sha s = withSuffix (take (maxLabelLen - hashLen - 1) ?n) (shortHash sha s)"
      by (simp add: sanitizeName_def)
    then show ?thesis using withSuffix_label [OF _ suf] chars by (metis in_set_takeD)
  next
    case 3
    then have "sanitizeName sha s = ?n" by (simp add: sanitizeName_def)
    then show ?thesis using 3 chars trim_char_props(3) [OF 3(1)] by (simp add: valid_label_def)
  qed
qed

text \<open>Every string becomes a valid RFC 1123 label: not empty, at most 63 characters, lower-case letters,
  digits and dashes only, and no dash at either end.\<close>

theorem sanitizeName_valid:
  assumes "sha_ok sha"
  shows "valid_label (sanitizeName sha s)"
  by (rule sanitizeName_valid' [OF assms])

theorem sanitizeName_valid_witness:
  "sha_ok (\<lambda>s. replicate 64 (CHR ''0'')) \<and> valid_label (sanitizeName (\<lambda>s. replicate 64 (CHR ''0'')) ''./Config File.yml'')"
proof -
  have "sha_ok (\<lambda>s. replicate 64 (CHR ''0''))" by (simp add: sha_ok_def is_hex_def)
  with sanitizeName_valid show ?thesis by blast
qed

end
