(* ===== verification/K8s_Volumes.thy ===== *)
theory K8s_Volumes
  imports K8s_Names Cri_Convert
begin

text \<open>
  \<open>src/pkg/k8s/volumes.go\<close> and the types it uses of \<open>types.go\<close>: from compose volume strings to pod volumes,
  container mounts and generated ConfigMaps.

  The filesystem is the record \<open>host_fs\<close> of the answers of \<open>Getwd\<close>, \<open>EvalSymlinks\<close>, \<open>Stat\<close> and
  \<open>ReadFile\<close>.  The plan that the methods update in place is passed along.  Messages are shortened.
\<close>

subsection \<open>Types\<close>

record object_meta =
  omName :: string
  omNamespace :: string
  omLabels :: "string gomap"

record volume_mount =
  vmName :: string
  vmMountPath :: string
  vmSubPath :: string
  vmReadOnly :: bool

record pod_volume =
  pvName :: string
  pvPersistentVolumeClaim :: "string option"
  pvConfigMap :: "string option"
  pvSecret :: "string option"
  pvEmptyDir :: bool

record type_meta =
  tmAPIVersion :: string
  tmKind :: string

record config_map =
  cmTypeMeta :: type_meta
  cmMetadata :: object_meta
  cmData :: "string gomap"

record render_options =
  rnNamespace :: string
  rnProjectDir :: string
  rnUnrepresentableMounts :: string
  rnSecretMaterial :: string

definition MountPolicyEmptyDir :: string where "MountPolicyEmptyDir = ''empty-dir''"
definition SecretMaterialConfigMap :: string where "SecretMaterialConfigMap = ''configmap''"

definition standardLabels :: "string \<Rightarrow> string gomap" where
  "standardLabels name = [(''app.kubernetes.io/name'', name), (''app.kubernetes.io/managed-by'', ''nix-compose'')]"

subsection \<open>Paths and files\<close>

text \<open>The elements of a cleaned path, \<open>filepath.Rel\<close> and \<open>utf8.Valid\<close>.\<close>

definition path_elems :: "string \<Rightarrow> string list" where
  "path_elems p =
     (if has_prefix p ''/'' then clean_elems [] (split_char (CHR ''/'') p)
      else clean_relative [] (split_char (CHR ''/'') p))"

fun strip_common :: "string list \<Rightarrow> string list \<Rightarrow> string list \<times> string list" where
  "strip_common (b # bs) (t # ts) = (if b = t then strip_common bs ts else (b # bs, t # ts))"
| "strip_common bs ts = (bs, ts)"

definition filepath_Rel :: "string \<Rightarrow> string \<Rightarrow> error + string list" where
  "filepath_Rel base targ =
     (if has_prefix base ''/'' \<noteq> has_prefix targ ''/'' then Inl (Err ''Rel'')
      else case strip_common (path_elems base) (path_elems targ) of
        (bs, ts) \<Rightarrow>
          if bs \<noteq> [] \<and> hd bs = ''..'' then Inl (Err ''Rel'')
          else Inr (replicate (length bs) ''..'' @ ts))"

definition cont_byte :: "nat \<Rightarrow> nat \<Rightarrow> nat \<Rightarrow> bool" where
  "cont_byte lo hi n \<longleftrightarrow> lo \<le> n \<and> n \<le> hi"

fun utf8_valid :: "nat list \<Rightarrow> bool" where
  "utf8_valid [] = True"
| "utf8_valid (a # r) =
     (if a < 0x80 then utf8_valid r
      else if 0xC2 \<le> a \<and> a \<le> 0xDF then
        (case r of b # r' \<Rightarrow> cont_byte 0x80 0xBF b \<and> utf8_valid r' | [] \<Rightarrow> False)
      else if 0xE0 \<le> a \<and> a \<le> 0xEF then
        (case r of
           b # c # r' \<Rightarrow> cont_byte (if a = 0xE0 then 0xA0 else 0x80) (if a = 0xED then 0x9F else 0xBF) b \<and>
             cont_byte 0x80 0xBF c \<and> utf8_valid r'
         | _ \<Rightarrow> False)
      else if 0xF0 \<le> a \<and> a \<le> 0xF4 then
        (case r of
           b # c # d # r' \<Rightarrow> cont_byte (if a = 0xF0 then 0x90 else 0x80) (if a = 0xF4 then 0x8F else 0xBF) b \<and>
             cont_byte 0x80 0xBF c \<and> cont_byte 0x80 0xBF d \<and> utf8_valid r'
         | _ \<Rightarrow> False)
      else False)"

record file_info =
  fiIsDir :: bool
  fiIsRegular :: bool
  fiSize :: int

record host_fs =
  hfGetwd :: "string option"
  hfEvalSymlinks :: "string \<Rightarrow> error + string"
  hfStat :: "string \<Rightarrow> error + file_info"
  hfReadFile :: "string \<Rightarrow> error + string"

definition maxConfigMapBytes :: int where "maxConfigMapBytes = 1048576"
definition pemPrivateKeyMarker :: string where "pemPrivateKeyMarker = ''PRIVATE KEY-----''"
definition nixStorePrefix :: string where "nixStorePrefix = ''/nix/store/''"

definition absReal :: "host_fs \<Rightarrow> string \<Rightarrow> string" where
  "absReal fs path =
     (case filepath_Abs (hfGetwd fs) path of
        Inl _ \<Rightarrow> path
      | Inr p \<Rightarrow> (case hfEvalSymlinks fs p of Inr resolved \<Rightarrow> resolved | Inl _ \<Rightarrow> p))"

definition resolveBindPath :: "host_fs \<Rightarrow> string \<Rightarrow> string \<Rightarrow> error + string" where
  "resolveBindPath fs source projectDir =
     (if has_prefix source ''~'' then Inl (Err ''relative to a home directory'')
      else if has_prefix source nixStorePrefix then Inr source
      else let root = absReal fs (if projectDir = '''' then ''.'' else projectDir);
               path = absReal fs (if has_prefix source ''/'' then source else join_path root source)
           in if has_prefix path nixStorePrefix then Inr path
              else case filepath_Rel root path of
                     Inl _ \<Rightarrow> Inl (Err ''outside the project directory'')
                   | Inr rel \<Rightarrow>
                       if rel \<noteq> [] \<and> hd rel = ''..'' then Inl (Err ''outside the project directory'') else Inr path)"

definition readBindSource :: "host_fs \<Rightarrow> string \<Rightarrow> string \<Rightarrow> error + string \<times> string" where
  "readBindSource fs source projectDir =
     (case resolveBindPath fs source projectDir of
        Inl e \<Rightarrow> Inl e
      | Inr path \<Rightarrow>
          (case hfStat fs path of
             Inl _ \<Rightarrow> Inl (Err ''cannot read host path'')
           | Inr info \<Rightarrow>
               if fiIsDir info then Inl (Err ''is a directory'')
               else if \<not> fiIsRegular info then Inl (Err ''not a regular file'')
               else if fiSize info > maxConfigMapBytes then Inl (Err ''over the ConfigMap limit'')
               else case hfReadFile fs path of
                      Inl _ \<Rightarrow> Inl (Err ''cannot read host path'')
                    | Inr data \<Rightarrow>
                        if \<not> utf8_valid (map of_char data) then Inl (Err ''not valid UTF-8'')
                        else Inr (data, filepath_Base path)))"

definition parseVolumeString :: "string \<Rightarrow> string \<times> string \<times> bool" where
  "parseVolumeString vol =
     (case split3 (CHR '':'') vol of
        [a] \<Rightarrow> (a, a, False) | [a, b] \<Rightarrow> (a, b, False) | a # b # c # _ \<Rightarrow> (a, b, MountOptionsReadOnly c) | [] \<Rightarrow> ('''', '''', False))"

definition isBindMount :: "string \<Rightarrow> bool" where
  "isBindMount source \<longleftrightarrow> has_prefix source ''/'' \<or> has_prefix source ''./'' \<or> has_prefix source ''~'' \<or> has_prefix source ''..''"

subsection \<open>The plan\<close>

record volume_plan =
  vpMounts :: "volume_mount gomap"
  vpPodVolumes :: "pod_volume list"
  vpConfigMaps :: "config_map list"
  vpWarnings :: "string list"
  vpRefusals :: "error list"
  vpOverrides :: "string list"
  vpMustFix :: bool
  vpNames :: "string gomap"
  vpSecrets :: "secret_mount gomap"
  vpUsedSecrets :: "string list"

definition secretMountsBySource :: "service \<Rightarrow> secret_mount gomap" where
  "secretMountsBySource svc =
     (case svcXNixCompose svc of
        None \<Rightarrow> [] | Some x \<Rightarrow> gm_put_all (map (\<lambda>sm. (smSource sm, sm)) (xSecretMounts x)) [])"

definition serviceVolumeStrings :: "service \<Rightarrow> string list" where
  "serviceVolumeStrings svc =
     svcVolumes svc @ (case svcXNixCompose svc of None \<Rightarrow> [] | Some x \<Rightarrow> concat (map icVolumes (xInitContainers x)))"

definition refuse :: "error \<Rightarrow> string \<Rightarrow> volume_plan \<Rightarrow> volume_plan" where
  "refuse err override p =
     (let p1 = p\<lparr>vpRefusals := vpRefusals p @ [err]\<rparr>
      in if override = '''' then p1\<lparr>vpMustFix := True\<rparr>
         else if override \<in> set (vpOverrides p) then p1
         else p1\<lparr>vpOverrides := vpOverrides p @ [override]\<rparr>)"

definition warn :: "string \<Rightarrow> volume_plan \<Rightarrow> volume_plan" where
  "warn msg p = p\<lparr>vpWarnings := vpWarnings p @ [msg]\<rparr>"

definition claimName :: "(string \<Rightarrow> string) \<Rightarrow> string \<Rightarrow> string \<Rightarrow> volume_plan \<Rightarrow> string \<times> volume_plan" where
  "claimName sha base source p =
     (if map_of (vpNames p) base = None \<or> map_of (vpNames p) base = Some source
      then (base, p\<lparr>vpNames := gm_put base source (vpNames p)\<rparr>)
      else let name = withSuffix base (shortHash sha source)
           in (name, p\<lparr>vpNames := gm_put name source (vpNames p)\<rparr>))"

definition addPodVolume :: "pod_volume \<Rightarrow> volume_plan \<Rightarrow> volume_plan" where
  "addPodVolume pv p =
     (if pvName pv \<in> pvName ` set (vpPodVolumes p) then p else p\<lparr>vpPodVolumes := vpPodVolumes p @ [pv]\<rparr>)"

definition hasConfigMap :: "string \<Rightarrow> volume_plan \<Rightarrow> bool" where
  "hasConfigMap name p \<longleftrightarrow> name \<in> (\<lambda>cm. omName (cmMetadata cm)) ` set (vpConfigMaps p)"

definition add_mount :: "string \<Rightarrow> volume_mount \<Rightarrow> volume_plan \<Rightarrow> volume_plan" where
  "add_mount vol m p = p\<lparr>vpMounts := gm_put vol m (vpMounts p)\<rparr>"

definition plain_volume :: "string \<Rightarrow> pod_volume" where
  "plain_volume name = \<lparr>pvName = name, pvPersistentVolumeClaim = None, pvConfigMap = None, pvSecret = None, pvEmptyDir = False\<rparr>"

definition addNamedVolume :: "(string \<Rightarrow> string) \<Rightarrow> string \<Rightarrow> string \<Rightarrow> string \<Rightarrow> bool \<Rightarrow> volume gomap \<Rightarrow> volume_plan \<Rightarrow> volume_plan" where
  "addNamedVolume sha vol source dest readOnly cvols p =
     (case claimName sha (sanitizeName sha source) source p of (name, p1) \<Rightarrow>
      let pv = (if gm_has cvols source then (plain_volume name)\<lparr>pvPersistentVolumeClaim := Some source\<rparr>
                else (plain_volume name)\<lparr>pvEmptyDir := True\<rparr>)
      in add_mount vol \<lparr>vmName = name, vmMountPath = dest, vmSubPath = '''', vmReadOnly = readOnly\<rparr> (addPodVolume pv p1))"

definition addSecretMount :: "(string \<Rightarrow> string) \<Rightarrow> string \<Rightarrow> string \<Rightarrow> string \<Rightarrow> secret_mount \<Rightarrow> volume_plan \<Rightarrow> volume_plan" where
  "addSecretMount sha vol source dest sm p =
     (let p0 = p\<lparr>vpUsedSecrets := source # vpUsedSecrets p\<rparr>;
          key = (if smKey sm = '''' then configMapKey sha (filepath_Base source) else smKey sm)
      in case claimName sha (sanitizeName sha (smSecretName sm)) source p0 of (name, p1) \<Rightarrow>
           add_mount vol \<lparr>vmName = name, vmMountPath = dest, vmSubPath = key, vmReadOnly = True\<rparr>
             (addPodVolume ((plain_volume name)\<lparr>pvSecret := Some (smSecretName sm)\<rparr>) p1))"

definition allowSecretMaterial :: "render_options \<Rightarrow> volume_plan \<Rightarrow> bool \<times> volume_plan" where
  "allowSecretMaterial opts p =
     (if rnSecretMaterial opts \<noteq> SecretMaterialConfigMap
      then (False, refuse (Err ''carries a private key'') (''--secret-material='' @ SecretMaterialConfigMap) p)
      else (True, warn ''ConfigMap carries a private key in plain text'' p))"

definition add_config_map :: "config_map \<Rightarrow> volume_plan \<Rightarrow> volume_plan" where
  "add_config_map cm p =
     (if hasConfigMap (omName (cmMetadata cm)) p then p else p\<lparr>vpConfigMaps := vpConfigMaps p @ [cm]\<rparr>)"

definition addConfigMap :: "(string \<Rightarrow> string) \<Rightarrow> string \<Rightarrow> string \<Rightarrow> string \<Rightarrow> string \<Rightarrow> string \<Rightarrow> string \<Rightarrow> render_options \<Rightarrow>
    volume_plan \<Rightarrow> volume_plan" where
  "addConfigMap sha svcName vol source dest content filename opts p =
     (case claimName sha (sanitizeName sha (svcName @ ''-'' @ filename)) source p of (name, p1) \<Rightarrow>
      let key = configMapKey sha filename
      in case (if contains_str content pemPrivateKeyMarker then allowSecretMaterial opts p1 else (True, p1)) of
           (False, p2) \<Rightarrow> p2
         | (True, p2) \<Rightarrow>
             add_mount vol \<lparr>vmName = name, vmMountPath = dest, vmSubPath = key, vmReadOnly = True\<rparr>
               (add_config_map \<lparr>cmTypeMeta = \<lparr>tmAPIVersion = ''v1'', tmKind = ''ConfigMap''\<rparr>,
                  cmMetadata = \<lparr>omName = name, omNamespace = rnNamespace opts, omLabels = standardLabels svcName\<rparr>,
                  cmData = [(key, content)]\<rparr>
                 (addPodVolume ((plain_volume name)\<lparr>pvConfigMap := Some name\<rparr>) p2)))"

definition addUnrepresentable :: "(string \<Rightarrow> string) \<Rightarrow> string \<Rightarrow> string \<Rightarrow> string \<Rightarrow> bool \<Rightarrow> error \<Rightarrow> render_options \<Rightarrow>
    volume_plan \<Rightarrow> volume_plan" where
  "addUnrepresentable sha vol source dest readOnly cause opts p =
     (if rnUnrepresentableMounts opts \<noteq> MountPolicyEmptyDir
      then refuse cause (''--unrepresentable-mounts='' @ MountPolicyEmptyDir) p
      else case claimName sha (sanitizeName sha source) source (warn ''rendered as an empty directory'' p) of (name, p1) \<Rightarrow>
        add_mount vol \<lparr>vmName = name, vmMountPath = dest, vmSubPath = '''', vmReadOnly = readOnly\<rparr>
          (addPodVolume ((plain_volume name)\<lparr>pvEmptyDir := True\<rparr>) p1))"

definition add_volume :: "(string \<Rightarrow> string) \<Rightarrow> host_fs \<Rightarrow> string \<Rightarrow> volume gomap \<Rightarrow> render_options \<Rightarrow> string \<Rightarrow> volume_plan \<Rightarrow> volume_plan" where
  "add_volume sha fs svcName cvols opts vol p =
     (if gm_has (vpMounts p) vol then p
      else case parseVolumeString vol of (source, dest, readOnly) \<Rightarrow>
        if dest = '''' then p
        else case map_of (vpSecrets p) source of
          Some sm \<Rightarrow> addSecretMount sha vol source dest sm p
        | None \<Rightarrow>
            if \<not> isBindMount source then addNamedVolume sha vol source dest readOnly cvols p
            else case readBindSource fs source (rnProjectDir opts) of
                   Inl e \<Rightarrow> addUnrepresentable sha vol source dest readOnly e opts p
                 | Inr (content, filename) \<Rightarrow> addConfigMap sha svcName vol source dest content filename opts p)"

definition reportUnmatchedSecretMounts :: "volume_plan \<Rightarrow> volume_plan" where
  "reportUnmatchedSecretMounts p =
     fold (\<lambda>(source, sm) q. if source \<in> set (vpUsedSecrets q) then q else refuse (Err ''not one of its volumes'') '''' q) (vpSecrets p) p"

definition empty_plan :: "service \<Rightarrow> volume_plan" where
  "empty_plan svc = \<lparr>vpMounts = [], vpPodVolumes = [], vpConfigMaps = [], vpWarnings = [], vpRefusals = [], vpOverrides = [],
     vpMustFix = False, vpNames = [], vpSecrets = secretMountsBySource svc, vpUsedSecrets = []\<rparr>"

definition planVolumes :: "(string \<Rightarrow> string) \<Rightarrow> host_fs \<Rightarrow> string \<Rightarrow> service \<Rightarrow> volume gomap \<Rightarrow> render_options \<Rightarrow> volume_plan" where
  "planVolumes sha fs svcName svc cvols opts =
     reportUnmatchedSecretMounts (fold (add_volume sha fs svcName cvols opts) (serviceVolumeStrings svc) (empty_plan svc))"

fun mounts_loop :: "volume_plan \<Rightarrow> string list \<Rightarrow> string list \<Rightarrow> volume_mount list" where
  "mounts_loop p seen [] = []"
| "mounts_loop p seen (vol # vols) =
     (case map_of (vpMounts p) vol of
        None \<Rightarrow> mounts_loop p seen vols
      | Some m \<Rightarrow> if vol \<in> set seen then mounts_loop p seen vols else m # mounts_loop p (vol # seen) vols)"

definition mountsFor :: "volume_plan \<Rightarrow> string list \<Rightarrow> volume_mount list" where
  "mountsFor p volumes = mounts_loop p [] volumes"


subsection \<open>What every plan satisfies\<close>

definition mount_dest :: "string \<Rightarrow> string" where
  "mount_dest vol = fst (snd (parseVolumeString vol))"

definition config_map_ok :: "host_fs \<Rightarrow> render_options \<Rightarrow> secret_mount gomap \<Rightarrow> config_map \<Rightarrow> bool" where
  "config_map_ok fs opts secrets cm \<longleftrightarrow> (\<exists>key content source filename.
     cmData cm = [(key, content)] \<and> isBindMount source \<and> map_of secrets source = None \<and>
     readBindSource fs source (rnProjectDir opts) = Inr (content, filename) \<and>
     (contains_str content pemPrivateKeyMarker \<longrightarrow> rnSecretMaterial opts = SecretMaterialConfigMap))"

definition plan_inv :: "host_fs \<Rightarrow> render_options \<Rightarrow> secret_mount gomap \<Rightarrow> volume_plan \<Rightarrow> bool" where
  "plan_inv fs opts secrets p \<longleftrightarrow>
     vpSecrets p = secrets \<and> distinct (map pvName (vpPodVolumes p)) \<and>
     (\<forall>pv \<in> set (vpPodVolumes p). valid_label (pvName pv)) \<and>
     (\<forall>vol m. map_of (vpMounts p) vol = Some m \<longrightarrow> vmName m \<in> pvName ` set (vpPodVolumes p) \<and> vmMountPath m = mount_dest vol) \<and>
     (\<forall>cm \<in> set (vpConfigMaps p). omName (cmMetadata cm) \<in> pvName ` set (vpPodVolumes p) \<and> config_map_ok fs opts secrets cm)"

lemma plan_inv_mount:
  assumes "plan_inv fs opts secrets p" and "valid_label (pvName pv)" and "vmName m = pvName pv" and "vmMountPath m = mount_dest vol"
  shows "plan_inv fs opts secrets (add_mount vol m (addPodVolume pv p))"
  using assms by (auto simp: plan_inv_def add_mount_def addPodVolume_def)

lemma plan_inv_config_map:
  assumes "plan_inv fs opts secrets p" and "omName (cmMetadata cm) \<in> pvName ` set (vpPodVolumes p)" and "config_map_ok fs opts secrets cm"
  shows "plan_inv fs opts secrets (add_config_map cm p)"
  using assms by (auto simp: plan_inv_def add_config_map_def)

lemma plan_inv_notes [simp]:
  "plan_inv fs opts secrets (refuse e o' p) = plan_inv fs opts secrets p"
  "plan_inv fs opts secrets (warn w p) = plan_inv fs opts secrets p"
  "plan_inv fs opts secrets (p\<lparr>vpUsedSecrets := u\<rparr>) = plan_inv fs opts secrets p"
  "plan_inv fs opts secrets (p\<lparr>vpNames := n\<rparr>) = plan_inv fs opts secrets p"
  by (auto simp: plan_inv_def refuse_def warn_def Let_def)

lemma claimName_valid:
  assumes "sha_ok sha" and "claimName sha (sanitizeName sha x) source p = (name, p1)"
  shows "valid_label name" and "plan_inv fs opts secrets p1 = plan_inv fs opts secrets p"
    and "\<exists>n. p1 = p\<lparr>vpNames := n\<rparr>"
proof -
  have base: "valid_label (sanitizeName sha x)" by (rule sanitizeName_valid' [OF assms(1)])
  have suf: "length (shortHash sha source) = 8" "\<forall>c \<in> set (shortHash sha source). is_lower_alnum c"
    using shortHash_props [OF assms(1)] by blast+
  have "\<forall>c \<in> set (sanitizeName sha x). is_lower_alnum c \<or> c = CHR ''-''" using base unfolding valid_label_def by blast
  then have "valid_label (withSuffix (sanitizeName sha x) (shortHash sha source))" by (rule withSuffix_label [OF _ suf])
  with assms(2) base show "valid_label name" "\<exists>n. p1 = p\<lparr>vpNames := n\<rparr>"
    by (auto simp: claimName_def Let_def split: if_splits)
  then show "plan_inv fs opts secrets p1 = plan_inv fs opts secrets p" by auto
qed

lemma add_mount_config_map: "add_mount vol m (add_config_map cm p) = add_config_map cm (add_mount vol m p)"
  by (simp add: add_mount_def add_config_map_def hasConfigMap_def)

lemma plan_inv_addConfigMap:
  assumes "sha_ok sha" and "plan_inv fs opts secrets p" and "dest = mount_dest vol" and "isBindMount source"
    and "map_of secrets source = None" and "readBindSource fs source (rnProjectDir opts) = Inr (content, filename)"
  shows "plan_inv fs opts secrets (addConfigMap sha svcName vol source dest content filename opts p)"
proof -
  obtain name p1 where c: "claimName sha (sanitizeName sha (svcName @ ''-'' @ filename)) source p = (name, p1)" by fastforce
  note v = claimName_valid(1) [OF assms(1) c] claimName_valid(2) [OF assms(1) c, of fs opts secrets]
  obtain ok p2 where p2: "(if contains_str content pemPrivateKeyMarker then allowSecretMaterial opts p1 else (True, p1)) = (ok, p2)"
    by fastforce
  have inv2: "plan_inv fs opts secrets p2" using p2 v(2) assms(2) by (auto simp: allowSecretMaterial_def split: if_splits)
  show ?thesis
  proof (cases ok)
    case False
    then show ?thesis using inv2 unfolding addConfigMap_def c prod.case Let_def p2 by simp
  next
    case True
    let ?key = "configMapKey sha filename"
    let ?m = "\<lparr>vmName = name, vmMountPath = dest, vmSubPath = ?key, vmReadOnly = True\<rparr>"
    let ?cm = "\<lparr>cmTypeMeta = \<lparr>tmAPIVersion = ''v1'', tmKind = ''ConfigMap''\<rparr>,
                  cmMetadata = \<lparr>omName = name, omNamespace = rnNamespace opts, omLabels = standardLabels svcName\<rparr>, cmData = [(?key, content)]\<rparr>"
    let ?q = "add_mount vol ?m (addPodVolume ((plain_volume name)\<lparr>pvConfigMap := Some name\<rparr>) p2)"
    have "contains_str content pemPrivateKeyMarker \<longrightarrow> rnSecretMaterial opts = SecretMaterialConfigMap"
      using p2 True by (auto simp: allowSecretMaterial_def split: if_splits)
    then have cm: "config_map_ok fs opts secrets ?cm" using assms(4-6) unfolding config_map_ok_def by auto
    have q: "plan_inv fs opts secrets ?q"
      using inv2 v(1) assms(3) by (intro plan_inv_mount) (simp_all add: plain_volume_def)
    have "name \<in> pvName ` set (vpPodVolumes ?q)" by (simp add: add_mount_def addPodVolume_def plain_volume_def)
    then have "plan_inv fs opts secrets (add_config_map ?cm ?q)" using plan_inv_config_map [OF q _ cm] by simp
    then show ?thesis using True unfolding addConfigMap_def c prod.case Let_def p2 by (simp add: add_mount_config_map)
  qed
qed

lemma plan_inv_add_volume:
  assumes "sha_ok sha" and "plan_inv fs opts secrets p"
  shows "plan_inv fs opts secrets (add_volume sha fs svcName cvols opts vol p)"
proof -
  obtain source dest ro where v: "parseVolumeString vol = (source, dest, ro)" by (metis surj_pair)
  have dest: "dest = mount_dest vol" by (simp add: mount_dest_def v)
  have s: "vpSecrets p = secrets" using assms(2) by (simp add: plan_inv_def)
  note mount = plan_inv_mount [of fs opts secrets]
  have named: "plan_inv fs opts secrets (addNamedVolume sha vol source dest ro cvols p)"
    using assms dest claimName_valid [OF assms(1), of source source p]
    by (auto simp: addNamedVolume_def Let_def plain_volume_def intro!: mount split: prod.splits)
  have sec: "plan_inv fs opts secrets (addSecretMount sha vol source dest sm p)" for sm
    using assms dest claimName_valid [OF assms(1), of "smSecretName sm" source "p\<lparr>vpUsedSecrets := source # vpUsedSecrets p\<rparr>"]
    by (auto simp: addSecretMount_def Let_def plain_volume_def intro!: mount split: prod.splits)
  have unrep: "plan_inv fs opts secrets (addUnrepresentable sha vol source dest ro e opts p)" for e
    using assms dest claimName_valid [OF assms(1), of source source "warn ''rendered as an empty directory'' p"]
    by (auto simp: addUnrepresentable_def Let_def plain_volume_def intro!: mount split: prod.splits)
  show ?thesis
    using assms named sec unrep plan_inv_addConfigMap [OF assms dest] s
    by (auto simp: add_volume_def v split: option.splits sum.splits)
qed

lemma plan_inv_report: "plan_inv fs opts secrets (reportUnmatchedSecretMounts p) = plan_inv fs opts secrets p"
proof -
  have "plan_inv fs opts secrets (fold (\<lambda>(source, sm) q. if source \<in> set (vpUsedSecrets q) then q
      else refuse (Err ''not one of its volumes'') '''' q) xs q) = plan_inv fs opts secrets q" for xs and q :: volume_plan
  proof (induction xs arbitrary: q)
    case (Cons x xs)
    obtain source sm where x: "x = (source, sm)" by (cases x)
    show ?case by (simp only: x fold.simps o_apply Cons.IH prod.case if_distrib [of "plan_inv fs opts secrets"] plan_inv_notes if_cancel)
  qed simp
  then show ?thesis by (simp add: reportUnmatchedSecretMounts_def)
qed

lemma fold_invariant_rule: "P s \<Longrightarrow> (\<And>x s. P s \<Longrightarrow> P (f x s)) \<Longrightarrow> P (fold f xs s)"
  by (induction xs arbitrary: s) auto

lemma planVolumes_inv:
  "sha_ok sha \<Longrightarrow> plan_inv fs opts (secretMountsBySource svc) (planVolumes sha fs svcName svc cvols opts)"
  unfolding planVolumes_def plan_inv_report
  by (rule fold_invariant_rule) (simp add: plan_inv_def empty_plan_def, rule plan_inv_add_volume)

text \<open>Every plan for the volumes of a service is consistent, whatever the files and the policies: each
  mount names a pod volume of the plan and keeps its destination, the names of the pod volumes
  are distinct and valid labels, and each generated ConfigMap is mounted and holds the content of
  one bind-mounted file that is not declared as a secret; it holds a private key only under the
  policy that asks for it.\<close>

theorem planVolumes_consistent:
  assumes "sha_ok sha"
  shows "plan_inv fs opts (secretMountsBySource svc) (planVolumes sha fs svcName svc cvols opts)"
  by (rule planVolumes_inv [OF assms])


theorem planVolumes_consistent_witness:
  "sha_ok (\<lambda>s. replicate 64 (CHR ''0'')) \<and>
   (\<forall>fs svcName svc cvols opts. plan_inv fs opts (secretMountsBySource svc)
      (planVolumes (\<lambda>s. replicate 64 (CHR ''0'')) fs svcName svc cvols opts))"
proof -
  have "sha_ok (\<lambda>s. replicate 64 (CHR ''0''))" by (simp add: sha_ok_def is_hex_def)
  with planVolumes_consistent show ?thesis by blast
qed

subsection \<open>Nothing is dropped without a refusal\<close>

text \<open>What one step of planning does to the plan: it keeps the mounts and the refusals it finds, and adds the
  mount of the volume unless it adds a refusal.\<close>

definition plan_step :: "string \<Rightarrow> volume_plan \<Rightarrow> volume_plan \<Rightarrow> bool" where
  "plan_step vol p q \<longleftrightarrow>
     (\<exists>r. vpRefusals q = vpRefusals p @ r \<and> (r = [] \<longrightarrow> gm_has (vpMounts q) vol)) \<and>
     (\<forall>v. gm_has (vpMounts p) v \<longrightarrow> gm_has (vpMounts q) v)"

lemma plan_fields [simp]:
  "vpRefusals (refuse e o' p) = vpRefusals p @ [e]" "vpMounts (refuse e o' p) = vpMounts p"
  "vpRefusals (warn w p) = vpRefusals p" "vpMounts (warn w p) = vpMounts p"
  "vpRefusals (addPodVolume pv p) = vpRefusals p" "vpMounts (addPodVolume pv p) = vpMounts p"
  "vpRefusals (add_config_map cm p) = vpRefusals p" "vpMounts (add_config_map cm p) = vpMounts p"
  "vpRefusals (add_mount vol m p) = vpRefusals p" "vpMounts (add_mount vol m p) = gm_put vol m (vpMounts p)"
  "vpRefusals (snd (claimName sha b s p)) = vpRefusals p" "vpMounts (snd (claimName sha b s p)) = vpMounts p"
  by (simp_all add: refuse_def warn_def addPodVolume_def add_config_map_def add_mount_def claimName_def Let_def)

lemma claimName_fields:
  "claimName sha b s p = (n, p1) \<Longrightarrow> vpRefusals p1 = vpRefusals p \<and> vpMounts p1 = vpMounts p"
  using plan_fields(11,12) [of sha b s p] by simp

lemma allow_fields:
  "allowSecretMaterial opts p = (ok, q) \<Longrightarrow> vpMounts q = vpMounts p \<and> (\<exists>r. vpRefusals q = vpRefusals p @ r \<and> (ok = (r = [])))"
  by (auto simp: allowSecretMaterial_def split: if_splits)

lemma plan_step_mount:
  assumes "vpRefusals p1 = vpRefusals p" and "vpMounts p1 = vpMounts p"
  shows "plan_step vol p (add_mount vol m (addPodVolume pv p1))"
  using assms by (simp add: plan_step_def gm_has_def)

lemma plan_step_refuse: "vpMounts p1 = vpMounts p \<Longrightarrow> vpRefusals p1 = vpRefusals p @ e # r \<Longrightarrow> plan_step vol p p1"
  by (simp add: plan_step_def)

lemma plan_step_addConfigMap: "plan_step vol p (addConfigMap sha svcName vol source dest content filename opts p)"
proof -
  obtain name p1 where c: "claimName sha (sanitizeName sha (svcName @ ''-'' @ filename)) source p = (name, p1)" by fastforce
  obtain ok p2 where p2: "(if contains_str content pemPrivateKeyMarker then allowSecretMaterial opts p1 else (True, p1)) = (ok, p2)"
    by fastforce
  obtain r where r: "vpMounts p2 = vpMounts p" "vpRefusals p2 = vpRefusals p @ r" "ok = (r = [])"
    using p2 claimName_fields [OF c] allow_fields [of opts p1 ok p2] by (auto split: if_splits)
  show ?thesis
  proof (cases ok)
    case True
    then show ?thesis using r unfolding addConfigMap_def c prod.case Let_def p2 by (simp add: plan_step_def gm_has_def)
  next
    case False
    then show ?thesis using r unfolding addConfigMap_def c prod.case Let_def p2 by (simp add: plan_step_def)
  qed
qed

lemma plan_step_add_volume:
  assumes "mount_dest vol \<noteq> ''''"
  shows "plan_step vol p (add_volume sha fs svcName cvols opts vol p)"
proof (cases "gm_has (vpMounts p) vol")
  case True
  then show ?thesis by (simp add: add_volume_def plan_step_def)
next
  case False
  obtain source dest ro where v: "parseVolumeString vol = (source, dest, ro)" by (metis surj_pair)
  have "dest \<noteq> ''''" using assms v by (simp add: mount_dest_def)
  moreover have "plan_step vol p (addNamedVolume sha vol source dest ro cvols p)"
    unfolding addNamedVolume_def Let_def
    by (simp split: prod.split) (intro allI conjI impI plan_step_mount; drule claimName_fields; simp)
  moreover have "plan_step vol p (addSecretMount sha vol source dest sm p)" for sm
    unfolding addSecretMount_def Let_def
    by (simp split: prod.split) (intro allI conjI impI plan_step_mount; drule claimName_fields; simp)
  moreover have "plan_step vol p (addUnrepresentable sha vol source dest ro e opts p)" for e
  proof (cases "rnUnrepresentableMounts opts = MountPolicyEmptyDir")
    case True
    then show ?thesis unfolding addUnrepresentable_def
      by (simp split: prod.split) (intro allI conjI impI plan_step_mount; drule claimName_fields; simp)
  next
    case False
    then show ?thesis unfolding addUnrepresentable_def by (simp add: plan_step_def)
  qed
  ultimately show ?thesis using False plan_step_addConfigMap
    by (simp add: add_volume_def v split: option.split sum.split)
qed

lemma add_volume_no_dest: "mount_dest vol = '''' \<Longrightarrow> add_volume sha fs svcName cvols opts vol p = p"
  by (auto simp: add_volume_def mount_dest_def split: prod.split)

lemma fold_plan_complete:
  assumes add: "add = add_volume sha fs svcName cvols opts"
  shows "(\<exists>r. vpRefusals (fold add vols p) = vpRefusals p @ r \<and>
      (r = [] \<longrightarrow> (\<forall>vol \<in> set vols. mount_dest vol \<noteq> '''' \<longrightarrow> gm_has (vpMounts (fold add vols p)) vol))) \<and>
    (\<forall>v. gm_has (vpMounts p) v \<longrightarrow> gm_has (vpMounts (fold add vols p)) v)"
proof (induction vols arbitrary: p)
  case (Cons vol vols)
  let ?q = "add vol p"
  have step: "(\<exists>r. vpRefusals ?q = vpRefusals p @ r \<and> (r = [] \<longrightarrow> mount_dest vol \<noteq> '''' \<longrightarrow> gm_has (vpMounts ?q) vol)) \<and>
      (\<forall>v. gm_has (vpMounts p) v \<longrightarrow> gm_has (vpMounts ?q) v)"
    using plan_step_add_volume [of vol p sha fs svcName cvols opts] add_volume_no_dest [of vol sha fs svcName cvols opts p]
    unfolding add plan_step_def by (cases "mount_dest vol = ''''") auto
  then obtain r where r: "vpRefusals ?q = vpRefusals p @ r" "r = [] \<longrightarrow> mount_dest vol \<noteq> '''' \<longrightarrow> gm_has (vpMounts ?q) vol" by blast
  obtain r' where r': "vpRefusals (fold add vols ?q) = vpRefusals ?q @ r'"
    "r' = [] \<longrightarrow> (\<forall>v \<in> set vols. mount_dest v \<noteq> '''' \<longrightarrow> gm_has (vpMounts (fold add vols ?q)) v)" using Cons.IH [of ?q] by blast
  have keep: "\<forall>v. gm_has (vpMounts ?q) v \<longrightarrow> gm_has (vpMounts (fold add vols ?q)) v" using Cons.IH [of ?q] by blast
  have "vpRefusals (fold add (vol # vols) p) = vpRefusals p @ (r @ r')" using r(1) r'(1) by simp
  moreover have "r @ r' = [] \<longrightarrow> (\<forall>v \<in> set (vol # vols). mount_dest v \<noteq> '''' \<longrightarrow> gm_has (vpMounts (fold add (vol # vols) p)) v)"
    using r(2) r'(2) keep by simp
  ultimately show ?case using step keep by (metis fold_simps(2))
qed simp


lemma report_fields:
  "(\<exists>r. vpRefusals (reportUnmatchedSecretMounts p) = vpRefusals p @ r) \<and> vpMounts (reportUnmatchedSecretMounts p) = vpMounts p"
proof -
  have "(\<exists>r. vpRefusals (fold (\<lambda>(source, sm) q. if source \<in> set (vpUsedSecrets q) then q
      else refuse (Err ''not one of its volumes'') '''' q) xs q) = vpRefusals q @ r) \<and>
    vpMounts (fold (\<lambda>(source, sm) q. if source \<in> set (vpUsedSecrets q) then q
      else refuse (Err ''not one of its volumes'') '''' q) xs q) = vpMounts q" for xs and q :: volume_plan
  proof (induction xs arbitrary: q)
    case (Cons x xs)
    obtain source sm where x: "x = (source, sm)" by (cases x)
    show ?case
    proof (cases "source \<in> set (vpUsedSecrets q)")
      case True
      then show ?thesis using Cons.IH [of q] by (simp add: x)
    next
      case False
      obtain r where "vpRefusals (fold (\<lambda>(source, sm) q. if source \<in> set (vpUsedSecrets q) then q
          else refuse (Err ''not one of its volumes'') '''' q) xs (refuse (Err ''not one of its volumes'') '''' q)) =
        (vpRefusals q @ [Err ''not one of its volumes'']) @ r"
        using Cons.IH [of "refuse (Err ''not one of its volumes'') '''' q"] by auto
      with False show ?thesis using Cons.IH [of "refuse (Err ''not one of its volumes'') '''' q"] by (simp add: x)
    qed
  qed simp
  then show ?thesis by (simp add: reportUnmatchedSecretMounts_def)
qed

lemma planVolumes_mounts_all:
  assumes "vpRefusals (planVolumes sha fs svcName svc cvols opts) = []" and "vol \<in> set (serviceVolumeStrings svc)"
    and "mount_dest vol \<noteq> ''''"
  shows "gm_has (vpMounts (planVolumes sha fs svcName svc cvols opts)) vol"
proof -
  let ?p = "fold (add_volume sha fs svcName cvols opts) (serviceVolumeStrings svc) (empty_plan svc)"
  have "vpRefusals ?p = []" using assms(1) report_fields [of ?p] by (auto simp: planVolumes_def)
  then have "gm_has (vpMounts ?p) vol"
    using fold_plan_complete [OF refl, of sha fs svcName cvols opts "serviceVolumeStrings svc" "empty_plan svc"] assms(2,3)
    by (metis append_is_Nil_conv)
  then show ?thesis using report_fields [of ?p] by (simp add: planVolumes_def)
qed

subsection \<open>Which files are read\<close>

lemma strip_common_spec: "strip_common bs ts = (bs', ts') \<Longrightarrow> \<exists>c. bs = c @ bs' \<and> ts = c @ ts'"
proof (induction bs ts rule: strip_common.induct)
  case (1 b bs t ts)
  show ?case
  proof (cases "b = t")
    case True
    with 1 obtain c where "bs = c @ bs'" "ts = c @ ts'" by auto
    then have "b # bs = (b # c) @ bs' \<and> t # ts = (b # c) @ ts'" using True by simp
    then show ?thesis by (rule exI)
  next
    case False
    with 1(2) show ?thesis by simp
  qed
qed simp_all

lemma filepath_Rel_inside:
  assumes "filepath_Rel base targ = Inr rel" and "\<not> (rel \<noteq> [] \<and> hd rel = ''..'')"
  shows "path_elems targ = path_elems base @ rel"
proof -
  obtain bs ts where s: "strip_common (path_elems base) (path_elems targ) = (bs, ts)" by fastforce
  have rel: "rel = replicate (length bs) ''..'' @ ts" using assms(1) s by (auto simp: filepath_Rel_def split: if_splits)
  have "bs = []" using assms(2) rel by (cases bs) auto
  with rel strip_common_spec [OF s] show ?thesis by auto
qed

text \<open>The renderer reads a file outside the Nix store only inside the project directory: the path that
  \<open>resolveBindPath\<close> answers has the prefix of the store, or its elements begin with those of the
  project directory, after symbolic links of both are resolved.\<close>

theorem resolveBindPath_confined:
  assumes "resolveBindPath fs source projectDir = Inr path"
  shows "has_prefix path nixStorePrefix \<or>
    (\<exists>rest. path_elems path = path_elems (absReal fs (if projectDir = '''' then ''.'' else projectDir)) @ rest)"
  using assms filepath_Rel_inside
  by (auto simp: resolveBindPath_def Let_def split: if_splits sum.splits)

theorem resolveBindPath_confined_witness:
  "let fs = \<lparr>hfGetwd = Some ''/home/u/app'', hfEvalSymlinks = Inr, hfStat = (\<lambda>p. Inl (Err p)), hfReadFile = (\<lambda>p. Inl (Err p))\<rparr>
   in resolveBindPath fs ''./conf/a.yml'' '''' = Inr ''/home/u/app/conf/a.yml'' \<and>
      (\<exists>rest. path_elems ''/home/u/app/conf/a.yml'' = path_elems (absReal fs ''.'') @ rest)"
proof -
  let ?fs = "\<lparr>hfGetwd = Some ''/home/u/app'', hfEvalSymlinks = Inr, hfStat = (\<lambda>p. Inl (Err p)), hfReadFile = (\<lambda>p. Inl (Err p))\<rparr>"
  have r: "resolveBindPath ?fs ''./conf/a.yml'' '''' = Inr ''/home/u/app/conf/a.yml''" by code_simp
  have "\<not> has_prefix ''/home/u/app/conf/a.yml'' nixStorePrefix" by code_simp
  with resolveBindPath_confined [OF r] r show ?thesis by simp
qed

text \<open>The prefix of the store is tested before the path is cleaned, so a source may leave the store again.\<close>

lemma store_source_escapes:
  "resolveBindPath fs ''/nix/store/../../etc/shadow'' projectDir = Inr ''/nix/store/../../etc/shadow'' \<and>
   path_elems ''/nix/store/../../etc/shadow'' = [''etc'', ''shadow'']"
proof -
  have "path_elems ''/nix/store/../../etc/shadow'' = [''etc'', ''shadow'']" by code_simp
  then show ?thesis by (simp add: resolveBindPath_def nixStorePrefix_def has_prefix_def)
qed


subsection \<open>The sources of the pod volumes exist\<close>

definition plan_refs :: "volume gomap \<Rightarrow> volume_plan \<Rightarrow> bool" where
  "plan_refs cvols p \<longleftrightarrow> (\<forall>pv \<in> set (vpPodVolumes p).
     (\<forall>n. pvConfigMap pv = Some n \<longrightarrow> hasConfigMap n p) \<and> (\<forall>c. pvPersistentVolumeClaim pv = Some c \<longrightarrow> gm_has cvols c))"

lemma plan_refs_notes [simp]:
  "plan_refs cvols (refuse e o' p) = plan_refs cvols p" "plan_refs cvols (warn w p) = plan_refs cvols p"
  "plan_refs cvols (p\<lparr>vpNames := n\<rparr>) = plan_refs cvols p" "plan_refs cvols (p\<lparr>vpUsedSecrets := u\<rparr>) = plan_refs cvols p"
  "plan_refs cvols (add_mount vol m p) = plan_refs cvols p" "plan_refs cvols (snd (claimName sha b s p)) = plan_refs cvols p"
  by (simp_all add: plan_refs_def refuse_def warn_def add_mount_def claimName_def hasConfigMap_def Let_def)

lemma plan_refs_claim: "claimName sha b s p = (n, p1) \<Longrightarrow> plan_refs cvols p1 = plan_refs cvols p"
  using plan_refs_notes(6) [of cvols sha b s p] by simp

lemma plan_refs_addPodVolume:
  "plan_refs cvols p \<Longrightarrow> pvConfigMap pv = None \<Longrightarrow> \<forall>c. pvPersistentVolumeClaim pv = Some c \<longrightarrow> gm_has cvols c \<Longrightarrow>
   plan_refs cvols (addPodVolume pv p)"
  by (auto simp: plan_refs_def addPodVolume_def hasConfigMap_def)

lemma plan_refs_config_map:
  assumes "plan_refs cvols p" and "pvConfigMap pv = Some (omName (cmMetadata cm))" and "pvPersistentVolumeClaim pv = None"
  shows "plan_refs cvols (add_config_map cm (addPodVolume pv p))"
  using assms by (auto simp: plan_refs_def add_config_map_def addPodVolume_def hasConfigMap_def)

lemma plan_refs_addConfigMap:
  assumes "plan_refs cvols p"
  shows "plan_refs cvols (addConfigMap sha svcName vol source dest content filename opts p)"
proof -
  obtain name p1 where c: "claimName sha (sanitizeName sha (svcName @ ''-'' @ filename)) source p = (name, p1)" by fastforce
  obtain ok p2 where p2: "(if contains_str content pemPrivateKeyMarker then allowSecretMaterial opts p1 else (True, p1)) = (ok, p2)"
    by fastforce
  have "plan_refs cvols p2"
    using p2 assms plan_refs_claim [OF c] by (auto simp: allowSecretMaterial_def split: if_splits)
  then show ?thesis unfolding addConfigMap_def c prod.case Let_def p2
    by (cases ok) (auto simp: plain_volume_def intro!: plan_refs_config_map)
qed

lemma plan_refs_add_volume:
  assumes "plan_refs cvols p"
  shows "plan_refs cvols (add_volume sha fs svcName cvols opts vol p)"
proof -
  obtain source dest ro where v: "parseVolumeString vol = (source, dest, ro)" by (metis surj_pair)
  have "plan_refs cvols (addNamedVolume sha vol source dest ro cvols p)"
    using assms plan_refs_claim [of sha _ source p]
    by (auto simp: addNamedVolume_def Let_def plain_volume_def intro!: plan_refs_addPodVolume split: prod.splits)
  moreover have "plan_refs cvols (addSecretMount sha vol source dest sm p)" for sm
    using assms plan_refs_claim [of sha _ source "p\<lparr>vpUsedSecrets := source # vpUsedSecrets p\<rparr>"]
    by (auto simp: addSecretMount_def Let_def plain_volume_def intro!: plan_refs_addPodVolume split: prod.splits)
  moreover have "plan_refs cvols (addUnrepresentable sha vol source dest ro e opts p)" for e
    using assms plan_refs_claim [of sha _ source "warn ''rendered as an empty directory'' p"]
    by (auto simp: addUnrepresentable_def plain_volume_def intro!: plan_refs_addPodVolume split: prod.splits)
  ultimately show ?thesis using assms plan_refs_addConfigMap [OF assms]
    by (auto simp: add_volume_def v split: option.split sum.split)
qed

lemma plan_refs_report: "plan_refs cvols (reportUnmatchedSecretMounts p) = plan_refs cvols p"
proof -
  have "plan_refs cvols (fold (\<lambda>(source, sm) q. if source \<in> set (vpUsedSecrets q) then q
      else refuse (Err ''not one of its volumes'') '''' q) xs q) = plan_refs cvols q" for xs and q :: volume_plan
  proof (induction xs arbitrary: q)
    case (Cons x xs)
    obtain source sm where x: "x = (source, sm)" by (cases x)
    show ?case by (simp only: x fold.simps o_apply Cons.IH prod.case if_distrib [of "plan_refs cvols"] plan_refs_notes if_cancel)
  qed simp
  then show ?thesis by (simp add: reportUnmatchedSecretMounts_def)
qed

lemma planVolumes_refs: "plan_refs cvols (planVolumes sha fs svcName svc cvols opts)"
  unfolding planVolumes_def plan_refs_report
  by (rule fold_invariant_rule) (simp add: plan_refs_def empty_plan_def, rule plan_refs_add_volume)

lemma mounts_loop_set: "m \<in> set (mounts_loop p seen vols) \<Longrightarrow> \<exists>vol \<in> set vols. map_of (vpMounts p) vol = Some m"
  by (induction p seen vols rule: mounts_loop.induct) (auto split: option.splits if_splits)

lemma mounts_loop_complete:
  "vol \<in> set vols \<Longrightarrow> vol \<notin> set seen \<Longrightarrow> map_of (vpMounts p) vol = Some m \<Longrightarrow> m \<in> set (mounts_loop p seen vols)"
proof (induction vols arbitrary: seen)
  case (Cons v vols)
  show ?case
  proof (cases "v = vol")
    case True
    with Cons.prems show ?thesis by simp
  next
    case False
    with Cons.prems have "vol \<in> set vols" "vol \<notin> set seen" "vol \<notin> set (v # seen)" by simp_all
    with Cons.IH [of seen] Cons.IH [of "v # seen"] Cons.prems(3) show ?thesis by (cases "map_of (vpMounts p) v") simp_all
  qed
qed simp


subsection \<open>What is refused, and which flag lifts it\<close>

definition unrepresentable_flag :: string where "unrepresentable_flag = ''--unrepresentable-mounts='' @ MountPolicyEmptyDir"
definition secret_flag :: string where "secret_flag = ''--secret-material='' @ SecretMaterialConfigMap"

text \<open>The reference: which flag, if any, the refusal of one volume string names.\<close>

definition vol_refusal :: "host_fs \<Rightarrow> secret_mount gomap \<Rightarrow> render_options \<Rightarrow> string \<Rightarrow> string option" where
  "vol_refusal fs secrets opts vol =
     (case parseVolumeString vol of (source, dest, readOnly) \<Rightarrow>
        if dest = '''' \<or> gm_has secrets source \<or> \<not> isBindMount source then None
        else case readBindSource fs source (rnProjectDir opts) of
          Inl _ \<Rightarrow> if rnUnrepresentableMounts opts = MountPolicyEmptyDir then None else Some unrepresentable_flag
        | Inr (content, _) \<Rightarrow>
            if contains_str content pemPrivateKeyMarker \<and> rnSecretMaterial opts \<noteq> SecretMaterialConfigMap
            then Some secret_flag else None)"

definition covers :: "string \<Rightarrow> string \<Rightarrow> bool" where
  "covers source vol \<longleftrightarrow> fst (parseVolumeString vol) = source \<and> mount_dest vol \<noteq> ''''"

definition refusal_inv :: "host_fs \<Rightarrow> secret_mount gomap \<Rightarrow> render_options \<Rightarrow> string list \<Rightarrow> volume_plan \<Rightarrow> bool" where
  "refusal_inv fs secrets opts visited p \<longleftrightarrow>
     vpSecrets p = secrets \<and> \<not> vpMustFix p \<and> (vpRefusals p = [] \<longleftrightarrow> vpOverrides p = []) \<and>
     (\<forall>vol. gm_has (vpMounts p) vol \<longrightarrow> vol \<in> set visited) \<and>
     (\<forall>vol. gm_has (vpMounts p) vol \<longrightarrow> vol_refusal fs secrets opts vol = None) \<and>
     set (vpOverrides p) = {ov. \<exists>vol \<in> set visited. vol_refusal fs secrets opts vol = Some ov} \<and>
     set (vpUsedSecrets p) = {source. gm_has secrets source \<and> (\<exists>vol \<in> set visited. covers source vol)}"

lemma refusal_inv_mounted:
  assumes "refusal_inv fs secrets opts visited p" and "vol_refusal fs secrets opts vol = None"
    and "vpMounts q = gm_put vol m (vpMounts p)" and "vpSecrets q = vpSecrets p" and "vpMustFix q = vpMustFix p"
    and "vpRefusals q = vpRefusals p" and "vpOverrides q = vpOverrides p"
    and "set (vpUsedSecrets q) = set (vpUsedSecrets p) \<union> {source. gm_has secrets source \<and> covers source vol}"
  shows "refusal_inv fs secrets opts (visited @ [vol]) q"
  using assms unfolding refusal_inv_def gm_has_def by (auto simp: gm_put_def update_conv')

lemma refusal_inv_refused:
  assumes "refusal_inv fs secrets opts visited p" and "vol_refusal fs secrets opts vol = Some ov" and "ov \<noteq> ''''"
    and "{source. gm_has secrets source \<and> covers source vol} = {}"
  shows "refusal_inv fs secrets opts (visited @ [vol]) (refuse e ov p)"
  using assms unfolding refusal_inv_def by (auto simp: refuse_def Let_def)

lemma refusal_inv_names [simp]: "refusal_inv fs secrets opts visited (p\<lparr>vpNames := n\<rparr>) = refusal_inv fs secrets opts visited p"
  by (simp add: refusal_inv_def)

lemma flags_nonempty: "unrepresentable_flag \<noteq> ''''" "secret_flag \<noteq> ''''"
  by (simp_all add: unrepresentable_flag_def secret_flag_def)

lemma plan_more_fields [simp]:
  "vpSecrets (warn w p) = vpSecrets p" "vpMustFix (warn w p) = vpMustFix p" "vpOverrides (warn w p) = vpOverrides p"
  "vpUsedSecrets (warn w p) = vpUsedSecrets p"
  "vpSecrets (addPodVolume pv p) = vpSecrets p" "vpMustFix (addPodVolume pv p) = vpMustFix p"
  "vpOverrides (addPodVolume pv p) = vpOverrides p" "vpUsedSecrets (addPodVolume pv p) = vpUsedSecrets p"
  "vpSecrets (add_config_map cm p) = vpSecrets p" "vpMustFix (add_config_map cm p) = vpMustFix p"
  "vpOverrides (add_config_map cm p) = vpOverrides p" "vpUsedSecrets (add_config_map cm p) = vpUsedSecrets p"
  "vpSecrets (add_mount vol m p) = vpSecrets p" "vpMustFix (add_mount vol m p) = vpMustFix p"
  "vpOverrides (add_mount vol m p) = vpOverrides p" "vpUsedSecrets (add_mount vol m p) = vpUsedSecrets p"
  by (simp_all add: warn_def addPodVolume_def add_config_map_def add_mount_def)

lemma claimName_only_names: "claimName sha b s p = (n, p1) \<Longrightarrow> \<exists>ns. p1 = p\<lparr>vpNames := ns\<rparr>"
  by (auto simp: claimName_def Let_def split: if_splits)

text \<open>The cases of \<open>add\<close>, for a volume string with a destination.\<close>

lemma refusal_inv_secret:
  assumes inv: "refusal_inv fs secrets opts visited p" and v: "parseVolumeString vol = (source, dest, ro)"
    and has: "dest \<noteq> ''''" "gm_has secrets source"
  shows "refusal_inv fs secrets opts (visited @ [vol]) (addSecretMount sha vol source dest sm p)"
proof -
  obtain n p1 where c: "claimName sha (sanitizeName sha (smSecretName sm)) source (p\<lparr>vpUsedSecrets := source # vpUsedSecrets p\<rparr>) = (n, p1)"
    by fastforce
  obtain ns where p1: "p1 = p\<lparr>vpUsedSecrets := source # vpUsedSecrets p, vpNames := ns\<rparr>" using claimName_only_names [OF c] by blast
  have ref: "vol_refusal fs secrets opts vol = None" using has by (simp add: vol_refusal_def v)
  show ?thesis unfolding addSecretMount_def Let_def c prod.case
    by (rule refusal_inv_mounted [OF inv ref]) (use has in \<open>auto simp: p1 covers_def mount_dest_def v\<close>)
qed

lemma refusal_inv_named:
  assumes inv: "refusal_inv fs secrets opts visited p" and v: "parseVolumeString vol = (source, dest, ro)"
    and has: "\<not> gm_has secrets source" "\<not> isBindMount source"
  shows "refusal_inv fs secrets opts (visited @ [vol]) (addNamedVolume sha vol source dest ro cvols p)"
proof -
  obtain n p1 where c: "claimName sha (sanitizeName sha source) source p = (n, p1)" by fastforce
  obtain ns where p1: "p1 = p\<lparr>vpNames := ns\<rparr>" using claimName_only_names [OF c] by blast
  have ref: "vol_refusal fs secrets opts vol = None" using has by (simp add: vol_refusal_def v)
  show ?thesis unfolding addNamedVolume_def Let_def c prod.case
    by (rule refusal_inv_mounted [OF inv ref]) (use has in \<open>auto simp: p1 covers_def mount_dest_def v\<close>)
qed

lemma refusal_inv_unrepresentable:
  assumes inv: "refusal_inv fs secrets opts visited p" and v: "parseVolumeString vol = (source, dest, ro)"
    and has: "dest \<noteq> ''''" "\<not> gm_has secrets source" "isBindMount source"
    and read: "readBindSource fs source (rnProjectDir opts) = Inl e"
  shows "refusal_inv fs secrets opts (visited @ [vol]) (addUnrepresentable sha vol source dest ro e opts p)"
proof (cases "rnUnrepresentableMounts opts = MountPolicyEmptyDir")
  case True
  obtain n p1 where c: "claimName sha (sanitizeName sha source) source (warn ''rendered as an empty directory'' p) = (n, p1)" by fastforce
  obtain ns where p1: "p1 = (warn ''rendered as an empty directory'' p)\<lparr>vpNames := ns\<rparr>" using claimName_only_names [OF c] by blast
  have ref: "vol_refusal fs secrets opts vol = None" using True read by (simp add: vol_refusal_def v)
  have eq: "addUnrepresentable sha vol source dest ro e opts p =
      add_mount vol \<lparr>vmName = n, vmMountPath = dest, vmSubPath = '''', vmReadOnly = ro\<rparr>
        (addPodVolume ((plain_volume n)\<lparr>pvEmptyDir := True\<rparr>) p1)"
    using True c by (simp add: addUnrepresentable_def)
  show ?thesis unfolding eq
    by (rule refusal_inv_mounted [OF inv ref]) (use has in \<open>auto simp: p1 covers_def mount_dest_def v\<close>)
next
  case False
  then have "vol_refusal fs secrets opts vol = Some unrepresentable_flag" using has read by (simp add: vol_refusal_def v)
  from refusal_inv_refused [OF inv this flags_nonempty(1), of e]
  have "refusal_inv fs secrets opts (visited @ [vol]) (refuse e unrepresentable_flag p)"
    using has by (auto simp: covers_def v)
  then show ?thesis using False by (simp add: addUnrepresentable_def unrepresentable_flag_def)
qed

lemma refusal_inv_content:
  assumes inv: "refusal_inv fs secrets opts visited p" and v: "parseVolumeString vol = (source, dest, ro)"
    and has: "dest \<noteq> ''''" "\<not> gm_has secrets source" "isBindMount source"
    and read: "readBindSource fs source (rnProjectDir opts) = Inr (content, filename)"
  shows "refusal_inv fs secrets opts (visited @ [vol]) (addConfigMap sha svcName vol source dest content filename opts p)"
proof -
  obtain n p1 where c: "claimName sha (sanitizeName sha (svcName @ ''-'' @ filename)) source p = (n, p1)" by fastforce
  obtain ns where p1: "p1 = p\<lparr>vpNames := ns\<rparr>" using claimName_only_names [OF c] by blast
  show ?thesis
  proof (cases "contains_str content pemPrivateKeyMarker \<and> rnSecretMaterial opts \<noteq> SecretMaterialConfigMap")
    case True
    then have ref: "vol_refusal fs secrets opts vol = Some secret_flag" using has read by (simp add: vol_refusal_def v)
    have "refusal_inv fs secrets opts visited p1" using inv p1 by simp
    from refusal_inv_refused [OF this ref flags_nonempty(2), of "Err ''carries a private key''"]
    have "refusal_inv fs secrets opts (visited @ [vol]) (refuse (Err ''carries a private key'') secret_flag p1)"
      using has by (auto simp: covers_def v)
    then show ?thesis using True unfolding addConfigMap_def c prod.case Let_def
      by (simp add: allowSecretMaterial_def secret_flag_def)
  next
    case False
    then have ref: "vol_refusal fs secrets opts vol = None" using read by (auto simp: vol_refusal_def v)
    have "\<exists>p2. (if contains_str content pemPrivateKeyMarker then allowSecretMaterial opts p1 else (True, p1)) = (True, p2) \<and>
        (p2 = p1 \<or> (\<exists>w. p2 = warn w p1))"
      using False by (cases "contains_str content pemPrivateKeyMarker") (auto simp: allowSecretMaterial_def)
    then obtain p2 where p2: "(if contains_str content pemPrivateKeyMarker then allowSecretMaterial opts p1 else (True, p1)) = (True, p2)"
      "p2 = p1 \<or> (\<exists>w. p2 = warn w p1)" by blast
    show ?thesis unfolding addConfigMap_def c prod.case Let_def p2(1) bool.case
      by (rule refusal_inv_mounted [OF inv ref]) (use has p2(2) in \<open>auto simp: p1 covers_def mount_dest_def v\<close>)
  qed
qed

lemma refusal_inv_add_volume:
  assumes inv: "refusal_inv fs secrets opts visited p"
  shows "refusal_inv fs secrets opts (visited @ [vol]) (add_volume sha fs svcName cvols opts vol p)"
proof -
  obtain source dest ro where v: "parseVolumeString vol = (source, dest, ro)" by (metis surj_pair)
  have sec: "vpSecrets p = secrets" using inv by (simp add: refusal_inv_def)
  consider "gm_has (vpMounts p) vol" | "\<not> gm_has (vpMounts p) vol" "dest = ''''" | "\<not> gm_has (vpMounts p) vol" "dest \<noteq> ''''" by blast
  then show ?thesis
  proof cases
    case 1
    then have "vol \<in> set visited" using inv by (simp add: refusal_inv_def)
    then have "set (visited @ [vol]) = set visited" by auto
    moreover have "add_volume sha fs svcName cvols opts vol p = p" using 1 by (simp add: add_volume_def)
    ultimately show ?thesis using inv unfolding refusal_inv_def by simp
  next
    case 2
    then have "vol_refusal fs secrets opts vol = None" "\<not> covers s vol" for s
      by (simp_all add: vol_refusal_def v covers_def mount_dest_def)
    moreover have "add_volume sha fs svcName cvols opts vol p = p" using 2 by (simp add: add_volume_def v)
    ultimately show ?thesis using inv unfolding refusal_inv_def by auto
  next
    case 3
    note step = refusal_inv_secret [OF inv v 3(2)] refusal_inv_named [OF inv v] refusal_inv_unrepresentable [OF inv v 3(2)]
      refusal_inv_content [OF inv v 3(2)]
    show ?thesis
    proof (cases "map_of secrets source")
      case (Some sm)
      then have "gm_has secrets source" unfolding gm_has_def by simp
      from step(1) [OF this] show ?thesis using 3 Some sec by (simp add: add_volume_def v)
    next
      case None
      then have "\<not> gm_has secrets source" unfolding gm_has_def by simp
      then show ?thesis using 3 None sec step(2-4)
        by (simp add: add_volume_def v split: sum.split prod.split)
    qed
  qed
qed

lemma refusal_inv_fold:
  "refusal_inv fs secrets opts visited p \<Longrightarrow>
   refusal_inv fs secrets opts (visited @ vols) (fold (add_volume sha fs svcName cvols opts) vols p)"
  using refusal_inv_add_volume by (induction vols arbitrary: visited p) (simp_all, metis append.assoc append_Cons append_Nil)


definition unmatched_secret :: "service \<Rightarrow> bool" where
  "unmatched_secret svc \<longleftrightarrow> (\<exists>source. gm_has (secretMountsBySource svc) source \<and>
     \<not> (\<exists>vol \<in> set (serviceVolumeStrings svc). covers source vol))"

lemma report_refusals:
  assumes "q = fold (\<lambda>(source, sm) q. if source \<in> set (vpUsedSecrets q) then q
      else refuse (Err ''not one of its volumes'') '''' q) xs p"
  shows "vpOverrides q = vpOverrides p \<and> vpUsedSecrets q = vpUsedSecrets p \<and>
    (vpMustFix q \<longleftrightarrow> vpMustFix p \<or> (\<exists>source \<in> set (gm_keys xs). source \<notin> set (vpUsedSecrets p))) \<and>
    (vpRefusals q = [] \<longleftrightarrow> vpRefusals p = [] \<and> (\<forall>source \<in> set (gm_keys xs). source \<in> set (vpUsedSecrets p)))"
  using assms
proof (induction xs arbitrary: p)
  case (Cons x xs)
  obtain source sm where x: "x = (source, sm)" by (cases x)
  let ?p = "if source \<in> set (vpUsedSecrets p) then p else refuse (Err ''not one of its volumes'') '''' p"
  have "vpOverrides ?p = vpOverrides p \<and> vpUsedSecrets ?p = vpUsedSecrets p \<and>
      (vpMustFix ?p \<longleftrightarrow> vpMustFix p \<or> source \<notin> set (vpUsedSecrets p)) \<and>
      (vpRefusals ?p = [] \<longleftrightarrow> vpRefusals p = [] \<and> source \<in> set (vpUsedSecrets p))"
    by (simp add: refuse_def Let_def)
  moreover have "q = fold (\<lambda>(source, sm) q. if source \<in> set (vpUsedSecrets q) then q
      else refuse (Err ''not one of its volumes'') '''' q) xs ?p" using Cons.prems by (simp add: x)
  ultimately show ?case using Cons.IH [of ?p] by (auto simp: x)
qed simp

lemma planVolumes_refusals':
  fixes sha fs svcName svc cvols opts
  defines "p \<equiv> planVolumes sha fs svcName svc cvols opts"
  shows "set (vpOverrides p) = {ov. \<exists>vol \<in> set (serviceVolumeStrings svc). vol_refusal fs (secretMountsBySource svc) opts vol = Some ov} \<and>
    (vpMustFix p \<longleftrightarrow> unmatched_secret svc) \<and>
    (vpRefusals p = [] \<longleftrightarrow> vpOverrides p = [] \<and> \<not> vpMustFix p)"
proof -
  let ?secrets = "secretMountsBySource svc"
  let ?q = "fold (add_volume sha fs svcName cvols opts) (serviceVolumeStrings svc) (empty_plan svc)"
  have "refusal_inv fs ?secrets opts [] (empty_plan svc)" by (simp add: refusal_inv_def empty_plan_def)
  from refusal_inv_fold [OF this, of "serviceVolumeStrings svc" sha svcName cvols]
  have inv: "refusal_inv fs ?secrets opts (serviceVolumeStrings svc) ?q" by simp
  then have q: "vpSecrets ?q = ?secrets" "\<not> vpMustFix ?q" "vpRefusals ?q = [] \<longleftrightarrow> vpOverrides ?q = []"
    "set (vpOverrides ?q) = {ov. \<exists>vol \<in> set (serviceVolumeStrings svc). vol_refusal fs ?secrets opts vol = Some ov}"
    "set (vpUsedSecrets ?q) = {source. gm_has ?secrets source \<and> (\<exists>vol \<in> set (serviceVolumeStrings svc). covers source vol)}"
    unfolding refusal_inv_def by blast+
  have p: "p = fold (\<lambda>(source, sm) q. if source \<in> set (vpUsedSecrets q) then q
      else refuse (Err ''not one of its volumes'') '''' q) ?secrets ?q"
    unfolding p_def planVolumes_def reportUnmatchedSecretMounts_def q(1) ..
  have un: "unmatched_secret svc \<longleftrightarrow> (\<exists>source \<in> set (gm_keys ?secrets). source \<notin> set (vpUsedSecrets ?q))"
    unfolding q(5) unmatched_secret_def gm_has_iff by blast
  show ?thesis using report_refusals [OF p] q(2-4) un by auto
qed

text \<open>The refusals of a service are exactly what the policies say of each volume on its own: the flags
  reported are those of the volumes refused, a refusal without a flag is reported exactly when a secret
  mount covers no volume, and there is no refusal beyond these.\<close>

theorem planVolumes_refusals:
  "let p = planVolumes sha fs svcName svc cvols opts
   in set (vpOverrides p) = {ov. \<exists>vol \<in> set (serviceVolumeStrings svc). vol_refusal fs (secretMountsBySource svc) opts vol = Some ov} \<and>
     (vpMustFix p \<longleftrightarrow> unmatched_secret svc) \<and>
     (vpRefusals p = [] \<longleftrightarrow> vpOverrides p = [] \<and> \<not> vpMustFix p)"
  unfolding Let_def by (rule planVolumes_refusals')

end
