(* ===== verification/K8s_Convert.thy ===== *)
theory K8s_Convert
  imports K8s_Volumes
begin

text \<open>
  \<open>src/pkg/k8s/convert.go\<close>, \<open>deployment.go\<close>, \<open>service.go\<close>, \<open>job.go\<close>, \<open>pvc.go\<close>, \<open>secret.go\<close> and the rest of
  \<open>types.go\<close>: a composition becomes Secrets, ConfigMaps, claims and workloads.

  The object of a manifest, an \<open>interface{}\<close> in the code, is the datatype of the kinds that are stored in
  it.  A nil slice and an empty one are both \<open>[]\<close>, since every such field is written with
  \<open>omitempty\<close>.  An \<open>EnvFromSource\<close> is the name of its secret reference.
\<close>

subsection \<open>Types\<close>

record container_port =
  cpName :: string
  cpContainerPort :: int
  cpProtocol :: string

record env_var =
  evName :: string
  evValue :: string

record resource_requirements =
  rrLimits :: "string gomap"
  rrRequests :: "string gomap"

record http_get_action =
  hgaPath :: string
  hgaPort :: int
  hgaScheme :: string

record probe_spec =
  psExec :: "string list option"
  psHTTPGet :: "http_get_action option"
  psInitialDelaySeconds :: int
  psPeriodSeconds :: int
  psTimeoutSeconds :: int
  psFailureThreshold :: int

record k8s_container =
  ctName :: string
  ctImage :: string
  ctCommand :: "string list"
  ctWorkingDir :: string
  ctPorts :: "container_port list"
  ctEnv :: "env_var list"
  ctEnvFrom :: "string option list"
  ctResources :: "resource_requirements option"
  ctLivenessProbe :: "probe_spec option"
  ctReadinessProbe :: "probe_spec option"
  ctVolumeMounts :: "volume_mount list"

record pod_spec =
  pspRestartPolicy :: string
  pspInitContainers :: "k8s_container list"
  pspContainers :: "k8s_container list"
  pspVolumes :: "pod_volume list"

record pod_template_spec =
  ptsMetadata :: object_meta
  ptsSpec :: pod_spec

record deployment_spec =
  dsReplicas :: int
  dsSelector :: "string gomap option"
  dsTemplate :: pod_template_spec

record k8s_deployment =
  kdTypeMeta :: type_meta
  kdMetadata :: object_meta
  kdSpec :: deployment_spec

record k8s_job =
  kjTypeMeta :: type_meta
  kjMetadata :: object_meta
  kjTemplate :: pod_template_spec

record service_port =
  spName :: string
  spPort :: int
  spTargetPort :: string
  spProtocol :: string

record k8s_service =
  ksTypeMeta :: type_meta
  ksMetadata :: object_meta
  ksSelector :: "string gomap"
  ksPorts :: "service_port list"

record k8s_secret =
  kseTypeMeta :: type_meta
  kseMetadata :: object_meta
  kseStringData :: "string gomap"

record k8s_pvc =
  kpTypeMeta :: type_meta
  kpMetadata :: object_meta
  kpAccessModes :: "string list"
  kpRequests :: "string gomap"

datatype k8s_object =
    ObjSecret k8s_secret
  | ObjConfigMap config_map
  | ObjPVC k8s_pvc
  | ObjDeployment k8s_deployment
  | ObjJob k8s_job
  | ObjService k8s_service

record k8s_manifest =
  mfObject :: k8s_object
  mfFilename :: string

record k8s_result =
  krManifests :: "k8s_manifest list"
  krWarnings :: "string list"

record mount_refusal =
  mrRefusals :: "error list"
  mrOverrides :: "string list"
  mrMustFix :: bool

definition type_of_kind :: "string \<Rightarrow> string \<Rightarrow> type_meta" where
  "type_of_kind v k = \<lparr>tmAPIVersion = v, tmKind = k\<rparr>"

subsection \<open>Ports, environment, resources, probes\<close>

text \<open>The value that \<open>strconv.Atoi\<close> returns when its error is ignored: 0 for a syntax error, the nearest
  bound for a value out of range.  \<open>ParseUint\<close> stops at the digit that overflows 64 bits.\<close>

fun uint_digits :: "int \<Rightarrow> string \<Rightarrow> int option" where
  "uint_digits acc [] = Some acc"
| "uint_digits acc (c # cs) =
     (case digit_val c of
        None \<Rightarrow> None
      | Some d \<Rightarrow> let n = 10 * acc + int d in if n > 2 ^ 64 - 1 then Some (2 ^ 64 - 1) else uint_digits n cs)"

definition atoi_value :: "string \<Rightarrow> int" where
  "atoi_value s =
     (let (neg, ds) = (case s of CHR ''-'' # r \<Rightarrow> (True, r) | CHR ''+'' # r \<Rightarrow> (False, r) | _ \<Rightarrow> (False, s))
      in if ds = '''' then 0
         else case uint_digits 0 ds of
                None \<Rightarrow> 0
              | Some un \<Rightarrow> if neg then (if un > 2 ^ 63 then - (2 ^ 63) else - un)
                           else if un \<ge> 2 ^ 63 then 2 ^ 63 - 1 else un)"

definition split_port :: "string \<Rightarrow> string \<times> int" where
  "split_port portStr =
     (let (base, protocol) = (case cut_last (CHR ''/'') portStr of Some (b, p) \<Rightarrow> (b, to_upper p) | None \<Rightarrow> (portStr, ''''))
      in (protocol, case cut_char (CHR '':'') base of Some (_, r) \<Rightarrow> atoi_value r | None \<Rightarrow> atoi_value base))"

definition parsePortString :: "string \<Rightarrow> container_port" where
  "parsePortString portStr =
     (case split_port portStr of (protocol, port) \<Rightarrow> \<lparr>cpName = '''', cpContainerPort = port, cpProtocol = protocol\<rparr>)"

definition convertStringPorts :: "string list \<Rightarrow> container_port list" where
  "convertStringPorts ports = filter (\<lambda>cp. cpContainerPort cp > 0) (map parsePortString ports)"

definition convertNamedPorts :: "named_port list \<Rightarrow> container_port list" where
  "convertNamedPorts nps =
     map (\<lambda>np. \<lparr>cpName = npName np, cpContainerPort = npContainerPort np,
       cpProtocol = (if npProtocol np \<noteq> '''' then to_upper (npProtocol np) else '''')\<rparr>) nps"

definition x_named_ports :: "service \<Rightarrow> named_port list" where
  "x_named_ports svc = (case svcXNixCompose svc of None \<Rightarrow> [] | Some x \<Rightarrow> xNamedPorts x)"

definition convertContainerPorts :: "service \<Rightarrow> container_port list" where
  "convertContainerPorts svc =
     (if x_named_ports svc \<noteq> [] then convertNamedPorts (x_named_ports svc) else convertStringPorts (svcPorts svc))"

definition convertEnvVars :: "string gomap \<Rightarrow> env_var list" where
  "convertEnvVars env = map (\<lambda>k. \<lparr>evName = k, evValue = gm_get '''' env k\<rparr>) (sorted_keys env)"

definition resourceSpecToMap :: "resource_spec \<Rightarrow> string gomap" where
  "resourceSpecToMap spec =
     (let m = (if rsCPU spec \<noteq> '''' then gm_put ''cpu'' (rsCPU spec) [] else [])
      in if rsMemory spec \<noteq> '''' then gm_put ''memory'' (rsMemory spec) m else m)"

definition convertResources :: "service \<Rightarrow> resource_requirements option" where
  "convertResources svc =
     (case svcXNixCompose svc of
        None \<Rightarrow> None
      | Some x \<Rightarrow> (case xResources x of
          None \<Rightarrow> None
        | Some res \<Rightarrow> Some \<lparr>rrLimits = (case resLimits res of None \<Rightarrow> [] | Some l \<Rightarrow> resourceSpecToMap l),
            rrRequests = (case resRequests res of None \<Rightarrow> [] | Some r \<Rightarrow> resourceSpecToMap r)\<rparr>))"

definition convertProbe :: "probe option \<Rightarrow> probe_spec option" where
  "convertProbe po = map_option (\<lambda>p.
     \<lparr>psExec = map_option peCommand (prExec p),
      psHTTPGet = map_option (\<lambda>h. \<lparr>hgaPath = phgPath h, hgaPort = phgPort h, hgaScheme = phgScheme h\<rparr>) (prHTTPGet p),
      psInitialDelaySeconds = prInitialDelaySeconds p, psPeriodSeconds = prPeriodSeconds p,
      psTimeoutSeconds = prTimeoutSeconds p, psFailureThreshold = prFailureThreshold p\<rparr>) po"

definition setProbes :: "service \<Rightarrow> k8s_container \<Rightarrow> k8s_container" where
  "setProbes svc c =
     (case svcXNixCompose svc of
        None \<Rightarrow> c
      | Some x \<Rightarrow> (case xProbes x of
          None \<Rightarrow> c
        | Some ps \<Rightarrow> c\<lparr>ctLivenessProbe := convertProbe (prbLiveness ps), ctReadinessProbe := convertProbe (prbReadiness ps)\<rparr>))"

definition setEnvFrom :: "string \<Rightarrow> service \<Rightarrow> k8s_container \<Rightarrow> k8s_container" where
  "setEnvFrom name svc c =
     (case svcXNixCompose svc of
        None \<Rightarrow> c
      | Some x \<Rightarrow> if xEnvFrom x = [] then c else c\<lparr>ctEnvFrom := [Some (name @ ''-secrets'')]\<rparr>)"

subsection \<open>Workloads\<close>

definition buildMainContainer :: "string \<Rightarrow> service \<Rightarrow> volume_plan \<Rightarrow> k8s_container" where
  "buildMainContainer name svc plan =
     (setEnvFrom name svc (setProbes svc
       \<lparr>ctName = name, ctImage = svcImage svc, ctCommand = cvParts (svcCommand svc), ctWorkingDir = svcWorkingDir svc,
        ctPorts = convertContainerPorts svc, ctEnv = convertEnvVars (svcEnvironment svc), ctEnvFrom = [],
        ctResources = convertResources svc, ctLivenessProbe = None, ctReadinessProbe = None, ctVolumeMounts = []\<rparr>))
      \<lparr>ctVolumeMounts := mountsFor plan (svcVolumes svc)\<rparr>"

definition convertInitContainers :: "service \<Rightarrow> volume_plan \<Rightarrow> k8s_container list" where
  "convertInitContainers svc plan =
     (case svcXNixCompose svc of
        None \<Rightarrow> []
      | Some x \<Rightarrow> map (\<lambda>ic.
          \<lparr>ctName = icName ic, ctImage = icImage ic, ctCommand = cvParts (icCommand ic), ctWorkingDir = '''', ctPorts = [],
           ctEnv = convertEnvVars (icEnvironment ic), ctEnvFrom = [], ctResources = None, ctLivenessProbe = None,
           ctReadinessProbe = None, ctVolumeMounts = mountsFor plan (icVolumes ic)\<rparr>) (xInitContainers x))"

definition convertDeployment :: "string \<Rightarrow> service \<Rightarrow> volume_plan \<Rightarrow> render_options \<Rightarrow> k8s_manifest" where
  "convertDeployment name svc plan opts =
     \<lparr>mfObject = ObjDeployment
        \<lparr>kdTypeMeta = type_of_kind ''apps/v1'' ''Deployment'',
         kdMetadata = \<lparr>omName = name, omNamespace = rnNamespace opts, omLabels = standardLabels name\<rparr>,
         kdSpec = \<lparr>dsReplicas = 1, dsSelector = Some [(''app.kubernetes.io/name'', name)],
           dsTemplate = \<lparr>ptsMetadata = \<lparr>omName = '''', omNamespace = '''', omLabels = standardLabels name\<rparr>,
             ptsSpec = \<lparr>pspRestartPolicy = '''', pspInitContainers = convertInitContainers svc plan,
               pspContainers = [buildMainContainer name svc plan], pspVolumes = vpPodVolumes plan\<rparr>\<rparr>\<rparr>\<rparr>,
      mfFilename = name @ ''-deployment.yaml''\<rparr>"

definition convertJob :: "string \<Rightarrow> service \<Rightarrow> volume_plan \<Rightarrow> render_options \<Rightarrow> k8s_manifest" where
  "convertJob name svc plan opts =
     \<lparr>mfObject = ObjJob
        \<lparr>kjTypeMeta = type_of_kind ''batch/v1'' ''Job'',
         kjMetadata = \<lparr>omName = name, omNamespace = rnNamespace opts, omLabels = standardLabels name\<rparr>,
         kjTemplate = \<lparr>ptsMetadata = \<lparr>omName = '''', omNamespace = '''', omLabels = standardLabels name\<rparr>,
           ptsSpec = \<lparr>pspRestartPolicy = (if svcRestart svc = ''on-failure'' then ''OnFailure'' else ''Never''),
             pspInitContainers = convertInitContainers svc plan,
             pspContainers = [buildMainContainer name svc plan], pspVolumes = vpPodVolumes plan\<rparr>\<rparr>\<rparr>,
      mfFilename = name @ ''-job.yaml''\<rparr>"

definition isJobService :: "service \<Rightarrow> bool" where
  "isJobService svc \<longleftrightarrow> svcRestart svc = ''no'' \<or> svcRestart svc = ''on-failure''"

subsection \<open>Services\<close>

definition namedToServicePorts :: "named_port list \<Rightarrow> service_port list" where
  "namedToServicePorts nps =
     map (\<lambda>np. \<lparr>spName = npName np, spPort = npContainerPort np, spTargetPort = npName np,
       spProtocol = (if npProtocol np \<noteq> '''' then to_upper (npProtocol np) else '''')\<rparr>) nps"

definition parseServicePort :: "string \<Rightarrow> service_port" where
  "parseServicePort portStr =
     (case split_port portStr of (protocol, port) \<Rightarrow>
        \<lparr>spName = '''', spPort = port, spTargetPort = show_int port, spProtocol = protocol\<rparr>)"

definition stringToServicePorts :: "string list \<Rightarrow> service_port list" where
  "stringToServicePorts ports = filter (\<lambda>sp. spPort sp > 0) (map parseServicePort ports)"

definition buildServicePorts :: "service \<Rightarrow> service_port list" where
  "buildServicePorts svc =
     (if x_named_ports svc \<noteq> [] then namedToServicePorts (x_named_ports svc) else stringToServicePorts (svcPorts svc))"

definition convertK8sService :: "string \<Rightarrow> service \<Rightarrow> render_options \<Rightarrow> k8s_manifest option" where
  "convertK8sService name svc opts =
     (let ports = buildServicePorts svc
      in if ports = [] then None
         else Some \<lparr>mfObject = ObjService
             \<lparr>ksTypeMeta = type_of_kind ''v1'' ''Service'',
              ksMetadata = \<lparr>omName = name, omNamespace = rnNamespace opts, omLabels = standardLabels name\<rparr>,
              ksSelector = [(''app.kubernetes.io/name'', name)], ksPorts = ports\<rparr>,
           mfFilename = name @ ''-service.yaml''\<rparr>)"

subsection \<open>Secrets, claims and the whole conversion\<close>

definition convertSecret :: "string \<Rightarrow> string gomap \<Rightarrow> render_options \<Rightarrow> k8s_manifest option" where
  "convertSecret name resolvedEnv opts =
     (if resolvedEnv = [] then None
      else Some \<lparr>mfObject = ObjSecret
          \<lparr>kseTypeMeta = type_of_kind ''v1'' ''Secret'',
           kseMetadata = \<lparr>omName = name @ ''-secrets'', omNamespace = rnNamespace opts, omLabels = standardLabels name\<rparr>,
           kseStringData = resolvedEnv\<rparr>,
        mfFilename = name @ ''-secret.yaml''\<rparr>)"

definition convertPVC :: "string \<Rightarrow> render_options \<Rightarrow> k8s_manifest" where
  "convertPVC name opts =
     \<lparr>mfObject = ObjPVC
        \<lparr>kpTypeMeta = type_of_kind ''v1'' ''PersistentVolumeClaim'',
         kpMetadata = \<lparr>omName = name, omNamespace = rnNamespace opts, omLabels = [(''app.kubernetes.io/managed-by'', ''nix-compose'')]\<rparr>,
         kpAccessModes = [''ReadWriteOnce''], kpRequests = [(''storage'', ''1Gi'')]\<rparr>,
      mfFilename = name @ ''-pvc.yaml''\<rparr>"

definition sortedServiceNames :: "composition \<Rightarrow> string list" where
  "sortedServiceNames c = sorted_keys (compServices c)"

definition sortedVolumeNames :: "composition \<Rightarrow> string list" where
  "sortedVolumeNames c = sorted_keys (compVolumes c)"

definition svc_of :: "composition \<Rightarrow> string \<Rightarrow> service" where
  "svc_of c name = gm_get zero_service (compServices c) name"

definition convertSecrets :: "composition \<Rightarrow> string gomap gomap \<Rightarrow> render_options \<Rightarrow> k8s_manifest list" where
  "convertSecrets c resolvedSecrets opts =
     concat (map (\<lambda>name. case convertSecret name (gm_get [] resolvedSecrets name) opts of Some m \<Rightarrow> [m] | None \<Rightarrow> [])
       (sortedServiceNames c))"

definition convertConfigMaps :: "composition \<Rightarrow> (string \<Rightarrow> volume_plan) \<Rightarrow> k8s_manifest list" where
  "convertConfigMaps c plans =
     concat (map (\<lambda>name. map (\<lambda>cm. \<lparr>mfObject = ObjConfigMap cm, mfFilename = omName (cmMetadata cm) @ ''-configmap.yaml''\<rparr>)
       (vpConfigMaps (plans name))) (sortedServiceNames c))"

definition convertPVCs :: "composition \<Rightarrow> render_options \<Rightarrow> k8s_manifest list" where
  "convertPVCs c opts = map (\<lambda>name. convertPVC name opts) (sortedVolumeNames c)"

definition convertWorkload :: "composition \<Rightarrow> (string \<Rightarrow> volume_plan) \<Rightarrow> render_options \<Rightarrow> string \<Rightarrow> k8s_manifest list" where
  "convertWorkload c plans opts name =
     (let svc = svc_of c name
      in if isJobService svc then [convertJob name svc (plans name) opts]
         else convertDeployment name svc (plans name) opts #
           (case convertK8sService name svc opts of Some m \<Rightarrow> [m] | None \<Rightarrow> []))"

definition convertWorkloads :: "composition \<Rightarrow> (string \<Rightarrow> volume_plan) \<Rightarrow> render_options \<Rightarrow> k8s_manifest list" where
  "convertWorkloads c plans opts = concat (map (convertWorkload c plans opts) (sortedServiceNames c))"

definition mergeOverrides :: "string list \<Rightarrow> string list \<Rightarrow> string list" where
  "mergeOverrides into from = fold (\<lambda>ov acc. if ov \<in> set acc then acc else acc @ [ov]) from into"

text \<open>The map of plans that the loop fills has an entry for every service; it is passed on as the function
  from the name of a service to its plan.\<close>

definition planCompositionVolumes :: "(string \<Rightarrow> string) \<Rightarrow> host_fs \<Rightarrow> composition \<Rightarrow> render_options \<Rightarrow>
    mount_refusal + (string \<Rightarrow> volume_plan) \<times> string list" where
  "planCompositionVolumes sha fs c opts =
     (let plan = (\<lambda>name. planVolumes sha fs name (svc_of c name) (compVolumes c) opts);
          plans = map plan (sortedServiceNames c);
          refusals = concat (map vpRefusals plans)
      in if refusals \<noteq> [] then
           Inl \<lparr>mrRefusals = refusals, mrOverrides = fold (\<lambda>p acc. mergeOverrides acc (vpOverrides p)) plans [],
             mrMustFix = list_ex vpMustFix plans\<rparr>
         else Inr (plan, concat (map vpWarnings plans)))"

definition default_options :: "render_options \<Rightarrow> render_options" where
  "default_options opts = opts
     \<lparr>rnNamespace := (if rnNamespace opts = '''' then ''default'' else rnNamespace opts),
      rnProjectDir := (if rnProjectDir opts = '''' then ''.'' else rnProjectDir opts)\<rparr>"

definition Convert :: "(string \<Rightarrow> string) \<Rightarrow> host_fs \<Rightarrow> composition \<Rightarrow> string gomap gomap \<Rightarrow> render_options \<Rightarrow>
    mount_refusal + k8s_result" where
  "Convert sha fs c resolvedSecrets opts0 =
     (let opts = default_options opts0
      in case planCompositionVolumes sha fs c opts of
           Inl e \<Rightarrow> Inl e
         | Inr (plans, warnings) \<Rightarrow>
             Inr \<lparr>krManifests = convertSecrets c resolvedSecrets opts @ convertConfigMaps c plans @ convertPVCs c opts @
                    convertWorkloads c plans opts,
                  krWarnings = warnings\<rparr>)"

definition refusal_message :: "mount_refusal \<Rightarrow> string" where
  "refusal_message e =
     (if length (mrRefusals e) = 1 then ''1 bind mount cannot be rendered:''
      else show_nat (length (mrRefusals e)) @ '' bind mounts cannot be rendered:'') @
     concat (map (\<lambda>r. [CHR 0x0A] @ ''  - '' @ (case r of Err m \<Rightarrow> m | Panic m \<Rightarrow> m)) (mrRefusals e))"


subsection \<open>When the conversion refuses\<close>

abbreviation comp_plan :: "(string \<Rightarrow> string) \<Rightarrow> host_fs \<Rightarrow> composition \<Rightarrow> render_options \<Rightarrow> string \<Rightarrow> volume_plan" where
  "comp_plan sha fs c opts name \<equiv> planVolumes sha fs name (svc_of c name) (compVolumes c) (default_options opts)"

text \<open>The options with the flags of a refusal added.\<close>

definition with_overrides :: "string list \<Rightarrow> render_options \<Rightarrow> render_options" where
  "with_overrides flags opts = opts
     \<lparr>rnUnrepresentableMounts := (if unrepresentable_flag \<in> set flags then MountPolicyEmptyDir else rnUnrepresentableMounts opts),
      rnSecretMaterial := (if secret_flag \<in> set flags then SecretMaterialConfigMap else rnSecretMaterial opts)\<rparr>"

lemma set_mergeOverrides [simp]: "set (mergeOverrides into from) = set into \<union> set from"
proof -
  have "set (fold (\<lambda>ov acc. if ov \<in> set acc then acc else acc @ [ov]) from acc) = set acc \<union> set from" for acc
    by (induction "from" arbitrary: acc) auto
  then show ?thesis by (simp add: mergeOverrides_def)
qed

lemma set_fold_overrides:
  "set (fold (\<lambda>p acc. mergeOverrides acc (vpOverrides p)) plans acc) = set acc \<union> (\<Union>p \<in> set plans. set (vpOverrides p))"
  by (induction plans arbitrary: acc) auto

lemma Convert_Inl:
  "Convert sha fs c rs opts = Inl e \<longleftrightarrow>
     planCompositionVolumes sha fs c (default_options opts) = Inl e"
  by (auto simp: Convert_def Let_def split: sum.split)

lemma Convert_fails_iff:
  "(\<exists>e. Convert sha fs c rs opts = Inl e) \<longleftrightarrow> (\<exists>name \<in> set (gm_keys (compServices c)). vpRefusals (comp_plan sha fs c opts name) \<noteq> [])"
  unfolding Convert_Inl by (auto simp: planCompositionVolumes_def Let_def sortedServiceNames_def)

lemma Convert_error_fields:
  assumes "Convert sha fs c rs opts = Inl e"
  shows "mrRefusals e = concat (map (\<lambda>name. vpRefusals (comp_plan sha fs c opts name)) (sortedServiceNames c)) \<and>
    set (mrOverrides e) = (\<Union>name \<in> set (gm_keys (compServices c)). set (vpOverrides (comp_plan sha fs c opts name))) \<and>
    (mrMustFix e \<longleftrightarrow> (\<exists>name \<in> set (gm_keys (compServices c)). vpMustFix (comp_plan sha fs c opts name)))"
proof -
  let ?plans = "map (comp_plan sha fs c opts) (sortedServiceNames c)"
  have e: "e = \<lparr>mrRefusals = concat (map vpRefusals ?plans),
      mrOverrides = fold (\<lambda>p acc. mergeOverrides acc (vpOverrides p)) ?plans [], mrMustFix = list_ex vpMustFix ?plans\<rparr>"
    using assms unfolding Convert_Inl planCompositionVolumes_def Let_def by (simp split: if_splits)
  show ?thesis unfolding e
    by (simp add: set_fold_overrides sortedServiceNames_def list_ex_iff comp_def)
qed

lemma default_with_overrides: "default_options (with_overrides flags opts) = with_overrides flags (default_options opts)"
  by (simp add: default_options_def with_overrides_def)

lemma vol_refusal_with_overrides:
  "vol_refusal fs secrets (with_overrides flags opts) vol =
     (case vol_refusal fs secrets opts vol of None \<Rightarrow> None | Some ov \<Rightarrow> if ov \<in> set flags then None else Some ov)"
  by (simp add: vol_refusal_def with_overrides_def split: prod.split sum.split)



definition key_app :: composition where
  "key_app = \<lparr>compServices = [(''web'', zero_service\<lparr>svcVolumes := [''./key.pem:/etc/key.pem'', ''data:/var/lib'']\<rparr>)],
     compNetworks = [], compVolumes = [], compMicroVM = None\<rparr>"

definition key_fs :: host_fs where
  "key_fs = \<lparr>hfGetwd = Some ''/app'', hfEvalSymlinks = Inr,
     hfStat = (\<lambda>p. if p = ''/app/key.pem'' then Inr \<lparr>fiIsDir = False, fiIsRegular = True, fiSize = 20\<rparr> else Inl (Err ''stat'')),
     hfReadFile = (\<lambda>p. if p = ''/app/key.pem'' then Inr ''PRIVATE KEY-----'' else Inl (Err ''open''))\<rparr>"

definition zero_options :: render_options where
  "zero_options = \<lparr>rnNamespace = '''', rnProjectDir = '''', rnUnrepresentableMounts = '''', rnSecretMaterial = ''''\<rparr>"

definition zero_sha :: "string \<Rightarrow> string" where
  "zero_sha s = replicate 64 (CHR ''0'')"

lemma zero_sha_ok: "sha_ok zero_sha"
  by (simp add: sha_ok_def zero_sha_def is_hex_def)



subsection \<open>What a rendering consists of\<close>

definition pod_of :: "k8s_object \<Rightarrow> pod_spec option" where
  "pod_of ob = (case ob of ObjDeployment d \<Rightarrow> Some (ptsSpec (dsTemplate (kdSpec d))) | ObjJob j \<Rightarrow> Some (ptsSpec (kjTemplate j)) | _ \<Rightarrow> None)"

text \<open>Every reference of one object to another is resolved within the manifests.\<close>

definition pod_closed :: "k8s_manifest list \<Rightarrow> pod_spec \<Rightarrow> bool" where
  "pod_closed ms pod \<longleftrightarrow>
     (\<forall>ct \<in> set (pspInitContainers pod @ pspContainers pod). \<forall>m \<in> set (ctVolumeMounts ct). vmName m \<in> pvName ` set (pspVolumes pod)) \<and>
     distinct (map pvName (pspVolumes pod)) \<and> (\<forall>pv \<in> set (pspVolumes pod). valid_label (pvName pv)) \<and>
     (\<forall>pv \<in> set (pspVolumes pod). \<forall>n. pvConfigMap pv = Some n \<longrightarrow>
        (\<exists>cm. ObjConfigMap cm \<in> mfObject ` set ms \<and> omName (cmMetadata cm) = n)) \<and>
     (\<forall>pv \<in> set (pspVolumes pod). \<forall>n. pvPersistentVolumeClaim pv = Some n \<longrightarrow>
        (\<exists>pvc. ObjPVC pvc \<in> mfObject ` set ms \<and> omName (kpMetadata pvc) = n))"

definition service_closed :: "k8s_manifest list \<Rightarrow> k8s_service \<Rightarrow> bool" where
  "service_closed ms s \<longleftrightarrow> ksPorts s \<noteq> [] \<and>
     (\<exists>d. ObjDeployment d \<in> mfObject ` set ms \<and> omNamespace (kdMetadata d) = omNamespace (ksMetadata s) \<and>
        (\<forall>k v. map_of (ksSelector s) k = Some v \<longrightarrow> map_of (omLabels (ptsMetadata (dsTemplate (kdSpec d)))) k = Some v))"

lemma Convert_Inr:
  assumes "Convert sha fs c rs opts = Inr r"
  shows "krManifests r = convertSecrets c rs (default_options opts) @ convertConfigMaps c (comp_plan sha fs c opts) @
      convertPVCs c (default_options opts) @ convertWorkloads c (comp_plan sha fs c opts) (default_options opts)"
    and "\<forall>name \<in> set (gm_keys (compServices c)). vpRefusals (comp_plan sha fs c opts name) = []"
  using assms by (auto simp: Convert_def planCompositionVolumes_def Let_def sortedServiceNames_def split: if_splits)

lemma mounts_of_pod:
  assumes "plan_inv fs opts secrets plan"
    and "ct \<in> set (convertInitContainers svc plan @ [buildMainContainer name svc plan])" and "m \<in> set (ctVolumeMounts ct)"
  shows "vmName m \<in> pvName ` set (vpPodVolumes plan)"
proof -
  obtain vols where "m \<in> set (mountsFor plan vols)"
    using assms(2,3) by (auto simp: convertInitContainers_def buildMainContainer_def split: option.splits)
  then obtain vol where "map_of (vpMounts plan) vol = Some m"
    using mounts_loop_set [of m plan "[]" vols] by (auto simp: mountsFor_def)
  then show ?thesis using assms(1) unfolding plan_inv_def by blast
qed

lemma pod_closedI:
  assumes inv: "plan_inv fs opts secrets plan" and refs: "plan_refs cvols plan"
    and cms: "\<And>cm. cm \<in> set (vpConfigMaps plan) \<Longrightarrow> ObjConfigMap cm \<in> mfObject ` set ms"
    and pvcs: "\<And>n. n \<in> set (gm_keys cvols) \<Longrightarrow> \<exists>pvc. ObjPVC pvc \<in> mfObject ` set ms \<and> omName (kpMetadata pvc) = n"
    and pod: "pspInitContainers pod = convertInitContainers svc plan" "pspContainers pod = [buildMainContainer name svc plan]"
      "pspVolumes pod = vpPodVolumes plan"
  shows "pod_closed ms pod"
  unfolding pod_closed_def pod
proof (intro conjI ballI allI impI)
  show "vmName m \<in> pvName ` set (vpPodVolumes plan)"
    if "ct \<in> set (convertInitContainers svc plan @ [buildMainContainer name svc plan])" "m \<in> set (ctVolumeMounts ct)" for ct m
    by (rule mounts_of_pod [OF inv that])
  show "distinct (map pvName (vpPodVolumes plan))" using inv by (simp add: plan_inv_def)
  show "valid_label (pvName pv)" if "pv \<in> set (vpPodVolumes plan)" for pv using inv that by (simp add: plan_inv_def)
  show "\<exists>cm. ObjConfigMap cm \<in> mfObject ` set ms \<and> omName (cmMetadata cm) = n"
    if "pv \<in> set (vpPodVolumes plan)" "pvConfigMap pv = Some n" for pv n
  proof -
    have "hasConfigMap n plan" using refs that by (simp add: plan_refs_def)
    then obtain cm where "cm \<in> set (vpConfigMaps plan)" "omName (cmMetadata cm) = n" by (auto simp: hasConfigMap_def)
    with cms show ?thesis by blast
  qed
  show "\<exists>pvc. ObjPVC pvc \<in> mfObject ` set ms \<and> omName (kpMetadata pvc) = n"
    if "pv \<in> set (vpPodVolumes plan)" "pvPersistentVolumeClaim pv = Some n" for pv n
    using refs that by (intro pvcs) (simp add: plan_refs_def)
qed

lemma workload_objects:
  assumes "m \<in> set (convertWorkload c plans opts name)"
  shows "(\<exists>pod. pod_of (mfObject m) = Some pod \<and> pspInitContainers pod = convertInitContainers (svc_of c name) (plans name) \<and>
      pspContainers pod = [buildMainContainer name (svc_of c name) (plans name)] \<and> pspVolumes pod = vpPodVolumes (plans name)) \<or>
    (\<exists>s. mfObject m = ObjService s \<and> ksPorts s \<noteq> [] \<and> ksSelector s = [(''app.kubernetes.io/name'', name)] \<and>
       omNamespace (ksMetadata s) = rnNamespace opts \<and>
       convertDeployment name (svc_of c name) (plans name) opts \<in> set (convertWorkload c plans opts name))"
  using assms
  by (auto simp: convertWorkload_def Let_def convertJob_def convertDeployment_def convertK8sService_def pod_of_def split: if_splits)

text \<open>C14: Every rendering is closed: each mount of each container names a volume of its pod, the volumes of a
  pod have distinct valid names, each ConfigMap or claim that a volume names is among the manifests, and each
  Service selects the pods of a Deployment among them in its namespace and has a port.\<close>

theorem Convert_closed:
  assumes "sha_ok sha" and "Convert sha fs c rs opts = Inr r" and "m \<in> set (krManifests r)"
  shows "(\<forall>pod. pod_of (mfObject m) = Some pod \<longrightarrow> pod_closed (krManifests r) pod) \<and>
    (\<forall>s. mfObject m = ObjService s \<longrightarrow> service_closed (krManifests r) s)"
proof -
  let ?plan = "comp_plan sha fs c opts" and ?o = "default_options opts"
  note ms = Convert_Inr(1) [OF assms(2)]
  have others: "pod_of (mfObject m') = None \<and> (\<forall>s. mfObject m' \<noteq> ObjService s)"
    if "m' \<in> set (convertSecrets c rs ?o @ convertConfigMaps c ?plan @ convertPVCs c ?o)" for m'
    using that by (auto simp: convertSecrets_def convertSecret_def convertConfigMaps_def convertPVCs_def convertPVC_def pod_of_def split: if_splits)
  show ?thesis
  proof (cases "m \<in> set (convertWorkloads c ?plan ?o)")
    case False
    then show ?thesis using assms(3) others [of m] unfolding ms by auto
  next
    case True
    then obtain name where name: "name \<in> set (gm_keys (compServices c))" "m \<in> set (convertWorkload c ?plan ?o name)"
      by (auto simp: convertWorkloads_def sortedServiceNames_def)
    have inv: "plan_inv fs ?o (secretMountsBySource (svc_of c name)) (?plan name)" by (rule planVolumes_inv [OF assms(1)])
    have refs: "plan_refs (compVolumes c) (?plan name)" by (rule planVolumes_refs)
    have cms: "ObjConfigMap cm \<in> mfObject ` set (krManifests r)" if "cm \<in> set (vpConfigMaps (?plan name))" for cm
      using that name(1) unfolding ms by (force simp: convertConfigMaps_def sortedServiceNames_def)
    have pvcs: "\<exists>pvc. ObjPVC pvc \<in> mfObject ` set (krManifests r) \<and> omName (kpMetadata pvc) = n" if "n \<in> set (gm_keys (compVolumes c))" for n
      using that unfolding ms by (force simp: convertPVCs_def convertPVC_def sortedVolumeNames_def)
    note closed = pod_closedI [OF inv refs cms pvcs]
    have svc: "service_closed (krManifests r) s" if "ksPorts s \<noteq> []" "ksSelector s = [(''app.kubernetes.io/name'', name)]"
        "omNamespace (ksMetadata s) = rnNamespace ?o"
        "convertDeployment name (svc_of c name) (?plan name) ?o \<in> set (convertWorkload c ?plan ?o name)" for s
    proof -
      have "convertDeployment name (svc_of c name) (?plan name) ?o \<in> set (krManifests r)"
        using that(4) name(1) unfolding ms by (auto simp: convertWorkloads_def sortedServiceNames_def)
      then show ?thesis using that(1-3) unfolding service_closed_def
        by (force simp: convertDeployment_def standardLabels_def)
    qed
    show ?thesis using workload_objects [OF name(2)] closed svc by (auto simp: pod_of_def)
  qed
qed


definition shop_app :: composition where
  "shop_app = \<lparr>compServices =
       [(''web'', zero_service\<lparr>svcPorts := [''8080:80''], svcVolumes := [''data:/var/lib'']\<rparr>)],
     compNetworks = [], compVolumes = [(''data'', \<lparr>volDriver = '''', volDriverOpts = [], volExternal = False\<rparr>)], compMicroVM = None\<rparr>"

theorem Convert_closed_witness:
  "\<exists>r m s. sha_ok zero_sha \<and> Convert zero_sha key_fs shop_app [] zero_options = Inr r \<and> m \<in> set (krManifests r) \<and>
     mfObject m = ObjService s \<and> service_closed (krManifests r) s"
proof -
  let ?r = "Convert zero_sha key_fs shop_app [] zero_options"
  have "vpRefusals (comp_plan zero_sha key_fs shop_app zero_options ''web'') = []" by code_simp
  then obtain r where r: "?r = Inr r"
    using Convert_fails_iff [of zero_sha key_fs shop_app "[]" zero_options]
    by (cases ?r) (simp_all add: shop_app_def)
  let ?svc = "svc_of shop_app ''web''"
  obtain m s where m: "convertK8sService ''web'' ?svc (default_options zero_options) = Some m" "mfObject m = ObjService s"
  proof -
    have "buildServicePorts ?svc \<noteq> []" by code_simp
    then show thesis using that by (simp add: convertK8sService_def Let_def)
  qed
  have names: "sortedServiceNames shop_app = [''web'']" "\<not> isJobService ?svc" by code_simp+
  then have "m \<in> set (krManifests r)"
    using m(1) unfolding Convert_Inr(1) [OF r] by (simp add: convertWorkloads_def convertWorkload_def Let_def)
  with Convert_closed [OF zero_sha_ok r this] m(2) r zero_sha_ok show ?thesis by blast
qed

text \<open>The workload of a service: a Job when it restarts never or on failure and a Deployment otherwise, with one
  container that runs its image and mounts something at the destination of each of its volumes that has one.\<close>

definition workload_of :: "string \<Rightarrow> service \<Rightarrow> k8s_manifest \<Rightarrow> bool" where
  "workload_of name svc m \<longleftrightarrow>
     (\<exists>pod ct. pod_of (mfObject m) = Some pod \<and>
        (if svcRestart svc \<in> {''no'', ''on-failure''} then \<exists>j. mfObject m = ObjJob j \<and> omName (kjMetadata j) = name
         else \<exists>d. mfObject m = ObjDeployment d \<and> omName (kdMetadata d) = name) \<and>
        pspContainers pod = [ct] \<and> ctName ct = name \<and> ctImage ct = svcImage svc \<and>
        (\<forall>vol \<in> set (svcVolumes svc). mount_dest vol \<noteq> '''' \<longrightarrow> mount_dest vol \<in> vmMountPath ` set (ctVolumeMounts ct)))"

definition is_workload :: "k8s_manifest \<Rightarrow> bool" where
  "is_workload m \<longleftrightarrow> pod_of (mfObject m) \<noteq> None"

lemma main_container_mounts:
  assumes "sha_ok sha" and "vpRefusals (comp_plan sha fs c opts name) = []" and "vol \<in> set (svcVolumes (svc_of c name))"
    and "mount_dest vol \<noteq> ''''"
  shows "mount_dest vol \<in> vmMountPath ` set (ctVolumeMounts (buildMainContainer name (svc_of c name) (comp_plan sha fs c opts name)))"
proof -
  let ?plan = "comp_plan sha fs c opts name" and ?svc = "svc_of c name"
  have "vol \<in> set (serviceVolumeStrings ?svc)" using assms(3) by (simp add: serviceVolumeStrings_def)
  then have "gm_has (vpMounts ?plan) vol" using planVolumes_mounts_all assms(2,4) by blast
  then obtain vm where vm: "map_of (vpMounts ?plan) vol = Some vm" unfolding gm_has_def by blast
  then have "vm \<in> set (mountsFor ?plan (svcVolumes ?svc))"
    using mounts_loop_complete [OF assms(3), of "[]"] by (simp add: mountsFor_def)
  moreover have "vmMountPath vm = mount_dest vol"
    using planVolumes_inv [OF assms(1)] vm unfolding plan_inv_def by blast
  moreover have "ctVolumeMounts (buildMainContainer name ?svc ?plan) = mountsFor ?plan (svcVolumes ?svc)"
    by (simp add: buildMainContainer_def setEnvFrom_def setProbes_def split: option.split)
  ultimately show ?thesis by force
qed

lemma convertWorkload_one:
  assumes "sha_ok sha" and "vpRefusals (comp_plan sha fs c opts name) = []"
  shows "\<exists>m. filter is_workload (convertWorkload c (comp_plan sha fs c opts) o' name) = [m] \<and> workload_of name (svc_of c name) m"
proof -
  let ?plan = "comp_plan sha fs c opts" and ?svc = "svc_of c name"
  have mounts: "\<forall>vol \<in> set (svcVolumes ?svc). mount_dest vol \<noteq> '''' \<longrightarrow>
      mount_dest vol \<in> vmMountPath ` set (ctVolumeMounts (buildMainContainer name ?svc (?plan name)))"
    using main_container_mounts [OF assms] by blast
  have ct: "ctName (buildMainContainer name ?svc (?plan name)) = name" "ctImage (buildMainContainer name ?svc (?plan name)) = svcImage ?svc"
    by (simp_all add: buildMainContainer_def setEnvFrom_def setProbes_def split: option.split)
  have svc: "\<forall>m. convertK8sService name ?svc o' = Some m \<longrightarrow> \<not> is_workload m"
    by (auto simp: convertK8sService_def is_workload_def pod_of_def Let_def split: if_splits)
  have job: "is_workload (convertJob name ?svc (?plan name) o')" "isJobService ?svc \<Longrightarrow> workload_of name ?svc (convertJob name ?svc (?plan name) o')"
    using mounts ct by (auto simp: convertJob_def is_workload_def workload_of_def pod_of_def isJobService_def)
  have dep: "is_workload (convertDeployment name ?svc (?plan name) o')"
    "\<not> isJobService ?svc \<Longrightarrow> workload_of name ?svc (convertDeployment name ?svc (?plan name) o')"
    using mounts ct by (auto simp: convertDeployment_def is_workload_def workload_of_def pod_of_def isJobService_def)
  show ?thesis using job dep svc by (cases "isJobService ?svc") (auto simp: convertWorkload_def Let_def split: option.split)
qed

lemma filter_concat_one:
  "\<forall>x \<in> set xs. \<exists>m. filter P (f x) = [m] \<and> Q x m \<Longrightarrow> list_all2 (\<lambda>m x. Q x m) (filter P (concat (map f xs))) xs"
  by (induction xs) auto

text \<open>C16: The workloads of a rendering are, in the order of the names of the services, exactly one for each service: a
  Job when it restarts never or on failure and a Deployment otherwise, with the name of the service and one
  container, which runs the image of the service and mounts something at the destination of each of its volumes
  that has one.  No other manifest is a workload.\<close>

theorem Convert_mounts_everything:
  assumes "Convert sha fs c rs opts = Inr r" and "sha_ok sha"
  shows "list_all2 (\<lambda>m name. workload_of name (svc_of c name) m) (filter is_workload (krManifests r)) (sorted_keys (compServices c))"
proof -
  let ?plan = "comp_plan sha fs c opts" and ?o = "default_options opts"
  have others: "filter is_workload (convertSecrets c rs ?o @ convertConfigMaps c ?plan @ convertPVCs c ?o) = []"
    unfolding filter_empty_conv
    by (auto simp: convertSecrets_def convertSecret_def convertConfigMaps_def convertPVCs_def convertPVC_def pod_of_def is_workload_def
        split: if_splits)
  then have "filter is_workload (krManifests r) = filter is_workload (convertWorkloads c ?plan ?o)"
    unfolding Convert_Inr(1) [OF assms(1)] by simp
  moreover have "\<forall>name \<in> set (sorted_keys (compServices c)). \<exists>m. filter is_workload (convertWorkload c ?plan ?o name) = [m] \<and>
      workload_of name (svc_of c name) m"
    using convertWorkload_one [OF assms(2)] Convert_Inr(2) [OF assms(1)] by simp
  note one = filter_concat_one [OF this]
  ultimately show ?thesis unfolding convertWorkloads_def sortedServiceNames_def by simp
qed

theorem Convert_mounts_everything_witness:
  "\<exists>r m. Convert zero_sha key_fs shop_app [] zero_options = Inr r \<and> filter is_workload (krManifests r) = [m] \<and>
     workload_of ''web'' (svc_of shop_app ''web'') m"
proof -
  let ?r = "Convert zero_sha key_fs shop_app [] zero_options"
  have "vpRefusals (comp_plan zero_sha key_fs shop_app zero_options ''web'') = []" by code_simp
  then obtain r where r: "?r = Inr r"
    using Convert_fails_iff [of zero_sha key_fs shop_app "[]" zero_options]
    by (cases ?r) (simp_all add: shop_app_def)
  have "sorted_keys (compServices shop_app) = [''web'']" by code_simp
  with Convert_mounts_everything [OF r zero_sha_ok] r show ?thesis by (auto simp: list_all2_Cons2)
qed
text \<open>The manifests do not depend on the order in which Go iterates over the services, the volumes and the resolved variables.\<close>

theorem Convert_deterministic:
  assumes "gm_same (compServices c) (compServices c')" and "gm_same (compVolumes c) (compVolumes c')" and "gm_same rs rs'"
  shows "Convert sha fs c rs opts = Convert sha fs c' rs' opts"
proof -
  have names: "sortedServiceNames c = sortedServiceNames c'" "sortedVolumeNames c = sortedVolumeNames c'"
    using assms sorted_keys_same by (auto simp: sortedServiceNames_def sortedVolumeNames_def)
  have svc: "svc_of c = svc_of c'" "gm_get [] rs = gm_get [] rs'"
    using assms by (auto simp: svc_of_def gm_get_def gm_same_def fun_eq_iff)
  have vols: "gm_has (compVolumes c) = gm_has (compVolumes c')" using assms(2) by (auto simp: gm_same_def gm_has_def fun_eq_iff simp del: gm_has_iff)
  have "add_volume sha fs n (compVolumes c) o' = add_volume sha fs n (compVolumes c') o'" for n o'
    unfolding add_volume_def addNamedVolume_def vols ..
  then have plan: "planVolumes sha fs n s (compVolumes c) o' = planVolumes sha fs n s (compVolumes c') o'" for n s o'
    by (simp add: planVolumes_def)
  show ?thesis
    unfolding Convert_def planCompositionVolumes_def convertSecrets_def convertConfigMaps_def convertPVCs_def
      convertWorkloads_def convertWorkload_def names svc plan ..
qed


definition swap_app :: composition where
  "swap_app = \<lparr>compServices = [(''b'', zero_service\<lparr>svcImage := ''busybox''\<rparr>), (''a'', zero_service)],
     compNetworks = [], compVolumes = [], compMicroVM = None\<rparr>"

theorem Convert_deterministic_witness:
  "gm_same (compServices swap_app) (rev (compServices swap_app)) \<and>
   Convert zero_sha key_fs swap_app [] zero_options =
     Convert zero_sha key_fs (swap_app\<lparr>compServices := rev (compServices swap_app)\<rparr>) [] zero_options"
proof -
  have s: "gm_same (compServices swap_app) (rev (compServices swap_app))"
    by (auto simp: gm_same_def swap_app_def fun_eq_iff)
  have "gm_same (compServices swap_app) (compServices (swap_app\<lparr>compServices := rev (compServices swap_app)\<rparr>))"
    "gm_same (compVolumes swap_app) (compVolumes (swap_app\<lparr>compServices := rev (compServices swap_app)\<rparr>))"
    "gm_same ([] :: string gomap gomap) []"
    using s by (simp_all add: swap_app_def)
  from Convert_deterministic [OF this] s show ?thesis by blast
qed

subsection \<open>Where a rendering can go wrong\<close>

text \<open>Names of ConfigMaps are claimed per service, so two services can generate the same one with
  different contents: the files have the same name too, and the second overwrites the first.\<close>

definition clash_app :: composition where
  "clash_app = \<lparr>compServices =
       [(''web'', zero_service\<lparr>svcVolumes := [''./app-conf:/etc/a'']\<rparr>), (''web-app'', zero_service\<lparr>svcVolumes := [''./conf:/etc/b'']\<rparr>)],
     compNetworks = [], compVolumes = [], compMicroVM = None\<rparr>"

definition clash_fs :: host_fs where
  "clash_fs = \<lparr>hfGetwd = Some ''/app'', hfEvalSymlinks = Inr,
     hfStat = (\<lambda>p. Inr \<lparr>fiIsDir = False, fiIsRegular = True, fiSize = 20\<rparr>), hfReadFile = Inr\<rparr>"

lemma config_maps_collide:
  "map (\<lambda>name. map (\<lambda>cm. (omName (cmMetadata cm), cmData cm)) (vpConfigMaps (comp_plan zero_sha clash_fs clash_app zero_options name)))
     (sortedServiceNames clash_app) =
   [[(''web-app-conf'', [(''app-conf'', ''/app/app-conf'')])], [(''web-app-conf'', [(''conf'', ''/app/conf'')])]]"
  by code_simp

text \<open>A service with \<open>envFrom\<close> always refers to its secret, but the secret is written only when some
  variable was resolved.\<close>

lemma env_from_dangling:
  assumes "svcXNixCompose svc = Some x" and "xEnvFrom x \<noteq> []"
  shows "ctEnvFrom (buildMainContainer name svc plan) = [Some (name @ ''-secrets'')] \<and> convertSecret name [] opts = None"
  using assms by (simp add: buildMainContainer_def setEnvFrom_def convertSecret_def)

text \<open>A port published on one address loses its mapping, and an entry point is not rendered.\<close>

lemma address_port_dropped: "convertStringPorts [''127.0.0.1:8080:80''] = [] \<and> stringToServicePorts [''127.0.0.1:8080:80''] = []"
  by code_simp

lemma entrypoint_not_rendered:
  "buildMainContainer name (svc\<lparr>svcEntrypoint := e\<rparr>) plan = buildMainContainer name svc plan"
  by (simp add: buildMainContainer_def setEnvFrom_def setProbes_def convertContainerPorts_def x_named_ports_def convertResources_def
      split: option.split)

end
