(* ===== verification/Lifecycle.thy ===== *)
theory Lifecycle
  imports Resources
begin

text \<open>
  \<open>src/pkg/cri/lifecycle.go\<close>, \<open>containers.go\<close> and \<open>cgroups.go\<close>: bringing services up and down through the
  container runtime.

  The runtime is a gRPC service and a parameter: \<open>runtime\<close> is the record of its calls, over the
  state \<open>'w\<close> of the world, which also holds the memory of the client (\<open>cgroupState\<close>).  What the
  CRI documentation promises of the calls is the hypothesis \<open>runtime_ok\<close>, stated with a view of the
  pods and containers that exist.
\<close>

subsection \<open>The calls of the runtime\<close>

record cgroup_state =
  cgOnce :: bool
  cgSlice :: string

record 'w runtime =
  rtListPodSandbox :: "string gomap \<Rightarrow> 'w \<Rightarrow> error + pod_sandbox list"
  rtListContainers :: "string \<Rightarrow> 'w \<Rightarrow> error + cri_container list"
  rtRunPodSandbox :: "pod_config \<Rightarrow> string \<Rightarrow> 'w \<Rightarrow> (error + string) \<times> 'w"
  rtStopPodSandbox :: "string \<Rightarrow> 'w \<Rightarrow> error option \<times> 'w"
  rtRemovePodSandbox :: "string \<Rightarrow> 'w \<Rightarrow> error option \<times> 'w"
  rtCreateContainer :: "string \<Rightarrow> container_config \<Rightarrow> pod_config \<Rightarrow> string \<Rightarrow> 'w \<Rightarrow> (error + string) \<times> 'w"
  rtStartContainer :: "string \<Rightarrow> 'w \<Rightarrow> error option \<times> 'w"
  rtStopContainer :: "string \<Rightarrow> int \<Rightarrow> 'w \<Rightarrow> error option \<times> 'w"
  rtRemoveContainer :: "string \<Rightarrow> 'w \<Rightarrow> error option \<times> 'w"
  rtContainerStatus :: "string \<Rightarrow> 'w \<Rightarrow> error + (int \<times> int) option"
  rtPodSandboxIp :: "string \<Rightarrow> 'w \<Rightarrow> error + string option"
  rtRuntimeConfig :: "'w \<Rightarrow> error + bool"
  rtCgroup :: "'w \<Rightarrow> cgroup_state"
  rtSetCgroup :: "cgroup_state \<Rightarrow> 'w \<Rightarrow> 'w"
  rtMkdirAll :: "string \<Rightarrow> 'w \<Rightarrow> error option \<times> 'w"
  rtImageEnv :: "'w \<Rightarrow> image_env"
  rtImageOps :: "image_op list \<Rightarrow> 'w \<Rightarrow> 'w"
  rtRandomUID :: "'w \<Rightarrow> string"
  rtGetwd :: "'w \<Rightarrow> string option"
  rtSignals :: "string \<Rightarrow> int option"

subsection \<open>cgroups.go\<close>

definition SystemdSlice :: string where "SystemdSlice = ''nix-compose.slice''"

text \<open>The answer of \<open>RuntimeConfig\<close> is whether the driver is systemd.\<close>

definition cgroupParent :: "'w runtime \<Rightarrow> 'w \<Rightarrow> string \<times> 'w" where
  "cgroupParent rt w =
     (let cg = rtCgroup rt w
      in if cgOnce cg then (cgSlice cg, w)
         else let slice = (case rtRuntimeConfig rt w of
                  Inl _ \<Rightarrow> cgSlice cg | Inr systemd \<Rightarrow> if systemd then SystemdSlice else cgSlice cg)
              in (slice, rtSetCgroup rt \<lparr>cgOnce = True, cgSlice = slice\<rparr> w))"

definition CgroupDriver :: "'w runtime \<Rightarrow> 'w \<Rightarrow> string \<times> 'w" where
  "CgroupDriver rt w =
     (case cgroupParent rt w of (parent, w') \<Rightarrow>
        (if parent = SystemdSlice then ''systemd''
         else if parent = '''' then (case rtRuntimeConfig rt w' of Inl _ \<Rightarrow> ''unknown'' | Inr _ \<Rightarrow> ''cgroupfs'')
         else ''unknown'', w'))"

subsection \<open>containers.go\<close>

text \<open>The pod configurations of \<open>BuildPodConfig\<close> have Linux options and no cgroup parent, so
  \<open>applyCgroupParent\<close> always sets it; the second component is the parent that the configuration now has.\<close>

definition RunPodSandbox :: "'w runtime \<Rightarrow> pod_config \<Rightarrow> 'w \<Rightarrow> (error + string) \<times> string \<times> 'w" where
  "RunPodSandbox rt config w =
     (case cgroupParent rt w of (parent, w1) \<Rightarrow>
      (case rtRunPodSandbox rt config parent w1 of (r, w2) \<Rightarrow> (r, parent, w2)))"

text \<open>\<open>WaitExited\<close> polls; \<open>tick\<close> is what the world does during a poll interval and \<open>rounds\<close> the number of
  intervals before the context ends.  State 2 is \<open>CONTAINER_EXITED\<close>.\<close>

definition exited_code :: "(int \<times> int) option \<Rightarrow> int option" where
  "exited_code st = (case st of Some (state, code) \<Rightarrow> if state = 2 then Some code else None | None \<Rightarrow> None)"

fun WaitExited :: "'w runtime \<Rightarrow> ('w \<Rightarrow> 'w) \<Rightarrow> nat \<Rightarrow> string \<Rightarrow> 'w \<Rightarrow> (error + int) \<times> 'w" where
  "WaitExited rt tick rounds containerID w =
     (case rtContainerStatus rt containerID w of
        Inl e \<Rightarrow> (Inl e, w)
      | Inr st \<Rightarrow>
          (case exited_code st of
             Some code \<Rightarrow> (Inr code, w)
           | None \<Rightarrow>
               (case rounds of
                  0 \<Rightarrow> (Inl (Err ''waiting for container exit''), w)
                | Suc n \<Rightarrow> WaitExited rt tick n containerID (tick w))))"

subsection \<open>lifecycle.go\<close>

definition resolveNetworkMode :: "service \<Rightarrow> bool \<Rightarrow> pod_network_mode" where
  "resolveNetworkMode svc useCNI =
     (if svcNetworkMode svc = ''host'' then PodNetworkHost else if useCNI then PodNetworkCNI else PodNetworkHost)"

fun stop_containers :: "'w runtime \<Rightarrow> int \<Rightarrow> cri_container list \<Rightarrow> 'w \<Rightarrow> error option \<times> 'w" where
  "stop_containers rt timeout [] w = (None, w)"
| "stop_containers rt timeout (ctr # ctrs) w =
     (case rtStopContainer rt (crId ctr) timeout w of
        (Some e, w1) \<Rightarrow> (Some e, w1)
      | (None, w1) \<Rightarrow>
          (case rtRemoveContainer rt (crId ctr) w1 of
             (Some e, w2) \<Rightarrow> (Some e, w2)
           | (None, w2) \<Rightarrow> stop_containers rt timeout ctrs w2))"

definition teardownPod :: "'w runtime \<Rightarrow> string \<Rightarrow> int \<Rightarrow> 'w \<Rightarrow> error option \<times> 'w" where
  "teardownPod rt podID timeout w =
     (case rtListContainers rt podID w of
        Inl e \<Rightarrow> (Some e, w)
      | Inr ctrs \<Rightarrow>
          (case stop_containers rt timeout ctrs w of
             (Some e, w1) \<Rightarrow> (Some e, w1)
           | (None, w1) \<Rightarrow>
               (case rtStopPodSandbox rt podID w1 of
                  (Some e, w2) \<Rightarrow> (Some e, w2)
                | (None, w2) \<Rightarrow> rtRemovePodSandbox rt podID w2)))"

fun teardown_pods :: "'w runtime \<Rightarrow> int \<Rightarrow> pod_sandbox list \<Rightarrow> 'w \<Rightarrow> error option \<times> 'w" where
  "teardown_pods rt timeout [] w = (None, w)"
| "teardown_pods rt timeout (pod # pods) w =
     (case teardownPod rt (psId pod) timeout w of
        (Some e, w1) \<Rightarrow> (Some e, w1)
      | (None, w1) \<Rightarrow> teardown_pods rt timeout pods w1)"

definition pods_down :: "'w runtime \<Rightarrow> string gomap \<Rightarrow> int \<Rightarrow> 'w \<Rightarrow> error option \<times> 'w" where
  "pods_down rt labels timeout w =
     (case rtListPodSandbox rt labels w of Inl e \<Rightarrow> (Some e, w) | Inr pods \<Rightarrow> teardown_pods rt timeout pods w)"

definition ServiceDown :: "'w runtime \<Rightarrow> string \<Rightarrow> string \<Rightarrow> int \<Rightarrow> 'w \<Rightarrow> error option \<times> 'w" where
  "ServiceDown rt project service timeout w =
     pods_down rt [(LabelProject, project), (LabelService, service)] timeout w"

definition ProjectDown :: "'w runtime \<Rightarrow> string \<Rightarrow> int \<Rightarrow> 'w \<Rightarrow> error option \<times> 'w" where
  "ProjectDown rt project timeout w = pods_down rt [(LabelProject, project)] timeout w"

text \<open>The volume strings are resolved one after the other; a named volume calls the resolver.\<close>

definition volume_call :: "volume gomap \<Rightarrow> string \<Rightarrow> string option" where
  "volume_call cvols vol =
     (let parts = split3 (CHR '':'') vol
      in if length parts = 1 \<or> isHostPath (parts ! 0) \<or> \<not> isNamedVolume (parts ! 0) cvols then None
         else Some (parts ! 0))"

fun volume_mounts_w :: "string option \<Rightarrow> string \<Rightarrow> volume gomap \<Rightarrow> 'w ensure_volume option \<Rightarrow> string list \<Rightarrow> 'w \<Rightarrow>
    (error + mount list) \<times> 'w" where
  "volume_mounts_w cwd project cvols ens [] w = (Inr [], w)"
| "volume_mounts_w cwd project cvols ens (vol # vols) w =
     (let r = ParseVolumeMount cwd vol project cvols (map_option (\<lambda>f p n. fst (f p n w)) ens);
          w1 = (case (ens, volume_call cvols vol) of (Some f, Some n) \<Rightarrow> snd (f project n w) | _ \<Rightarrow> w)
      in case r of
           Inl e \<Rightarrow> (Inl e, w1)
         | Inr m \<Rightarrow>
             (case volume_mounts_w cwd project cvols ens vols w1 of
                (Inl e, w2) \<Rightarrow> (Inl e, w2)
              | (Inr ms, w2) \<Rightarrow> (Inr (case m of None \<Rightarrow> ms | Some x \<Rightarrow> x # ms), w2)))"

definition BuildMounts_w :: "string option \<Rightarrow> service \<Rightarrow> string \<Rightarrow> volume gomap \<Rightarrow> 'w ensure_volume option \<Rightarrow> 'w \<Rightarrow>
    (error + mount list) \<times> 'w" where
  "BuildMounts_w cwd svc project cvols ens w =
     (case volume_mounts_w cwd project cvols ens (svcVolumes svc) w of
        (Inl e, w1) \<Rightarrow> (Inl e, w1)
      | (Inr ms, w1) \<Rightarrow>
          (case BuildMounts cwd (svc\<lparr>svcVolumes := []\<rparr>) project cvols None of
             Inl e \<Rightarrow> (Inl e, w1) | Inr rest \<Rightarrow> (Inr (ms @ rest), w1)))"

text \<open>After the image is there: the pod, the mounts, the container and its start.\<close>

definition start_service :: "'w runtime \<Rightarrow> string \<Rightarrow> service \<Rightarrow> 'w service_up_options \<Rightarrow> 'w \<Rightarrow> error option \<times> 'w" where
  "start_service rt name svc opts w =
     (let podConfig = BuildPodConfig (rtRandomUID rt w) (suProject opts) name svc (suVersion opts)
            (resolveNetworkMode svc (suUseCNI opts))
      in case RunPodSandbox rt podConfig w of
           (Inl e, parent, w1) \<Rightarrow> (Some e, w1)
         | (Inr podID, parent, w1) \<Rightarrow>
             (case BuildMounts_w (rtGetwd rt w1) svc (suProject opts) (suCompVolumes opts) (suVolumeResolver opts) w1 of
                (Inl e, w2) \<Rightarrow> (Some e, w2)
              | (Inr mounts, w2) \<Rightarrow>
                  (case rtCreateContainer rt podID
                      (BuildContainerConfig (rtSignals rt) name svc (suProject opts) (suVersion opts) mounts) podConfig parent w2 of
                     (Inl e, w3) \<Rightarrow> (Some e, w3)
                   | (Inr ctrID, w3) \<Rightarrow> rtStartContainer rt ctrID w3)))"

definition ServiceUp :: "'w runtime \<Rightarrow> string \<Rightarrow> service \<Rightarrow> 'w service_up_options \<Rightarrow> 'w \<Rightarrow> error option \<times> 'w" where
  "ServiceUp rt name svc opts w =
     (case rtListPodSandbox rt [(LabelProject, suProject opts), (LabelService, name)] w of
        Inl e \<Rightarrow> (Some e, w)
      | Inr existing \<Rightarrow>
          (case teardown_pods rt 10 existing w of
             (Some e, w1) \<Rightarrow> (Some e, w1)
           | (None, w1) \<Rightarrow>
               (case rtMkdirAll rt (''/tmp/nix-compose-logs/'' @ suProject opts @ ''/'' @ name) w1 of
                  (Some e, w2) \<Rightarrow> (Some e, w2)
                | (None, w2) \<Rightarrow>
                    (case EnsureImage (rtImageEnv rt w2) (svcImage svc) of
                       (Inl e, ops) \<Rightarrow> (Some e, rtImageOps rt ops w2)
                     | (Inr img, ops) \<Rightarrow>
                         start_service rt name (svc\<lparr>svcImage := img\<rparr>) opts (rtImageOps rt ops w2)))))"

text \<open>A Go map of volumes that is nil is the empty map here.\<close>

fun up_loop :: "'w runtime \<Rightarrow> service gomap \<Rightarrow> 'w service_up_options \<Rightarrow> 'w \<Rightarrow> error option \<times> 'w" where
  "up_loop rt [] opts w = (None, w)"
| "up_loop rt ((name, svc) # services) opts w =
     (case ServiceUp rt name svc opts w of
        (Some e, w1) \<Rightarrow> (Some e, w1)
      | (None, w1) \<Rightarrow> up_loop rt services opts w1)"

definition CompositionUp :: "'w runtime \<Rightarrow> composition \<Rightarrow> bool \<Rightarrow> 'w service_up_options \<Rightarrow> 'w \<Rightarrow> error option \<times> 'w" where
  "CompositionUp rt c volumesNil opts w =
     up_loop rt (compServices c) (if volumesNil then opts\<lparr>suCompVolumes := compVolumes c\<rparr> else opts) w"


subsection \<open>What the runtime promises\<close>

record rt_ctr =
  rcPod :: string
  rcConfig :: container_config
  rcStarted :: bool

record rt_view =
  rvPods :: "string \<Rightarrow> pod_config option"
  rvCtrs :: "string \<Rightarrow> rt_ctr option"

definition label_match :: "string gomap \<Rightarrow> string gomap \<Rightarrow> bool" where
  "label_match sel labels \<longleftrightarrow> (\<forall>(k, v) \<in> set sel. map_of labels k = Some v)"

definition selected :: "string gomap \<Rightarrow> rt_view \<Rightarrow> string set" where
  "selected sel v = {i. \<exists>cfg. rvPods v i = Some cfg \<and> label_match sel (pcLabels cfg)}"

definition remove_pods :: "string set \<Rightarrow> rt_view \<Rightarrow> rt_view" where
  "remove_pods S v = v\<lparr>rvPods := \<lambda>i. if i \<in> S then None else rvPods v i,
     rvCtrs := \<lambda>c. case rvCtrs v c of None \<Rightarrow> None | Some x \<Rightarrow> if rcPod x \<in> S then None else Some x\<rparr>"

definition update_ctrs :: "(string \<Rightarrow> rt_ctr \<Rightarrow> rt_ctr option) \<Rightarrow> rt_view \<Rightarrow> rt_view" where
  "update_ctrs f v = v\<lparr>rvCtrs := \<lambda>c. Option.bind (rvCtrs v c) (f c)\<rparr>"

text \<open>\<open>runtime_queries\<close>: lists answer the pods that carry the labels and the containers of a pod.
  \<open>runtime_calls\<close>: a call that reports success has done what it is for and nothing else.
  \<open>runtime_frame\<close>: files, images and the memory of the client are no pods or containers.\<close>

definition runtime_queries :: "'w runtime \<Rightarrow> ('w \<Rightarrow> rt_view) \<Rightarrow> bool" where
  "runtime_queries rt V \<longleftrightarrow>
     (\<forall>sel w ps. rtListPodSandbox rt sel w = Inr ps \<longrightarrow> psId ` set ps = selected sel (V w)) \<and>
     (\<forall>p w cs. rtListContainers rt p w = Inr cs \<longrightarrow> crId ` set cs = {c. \<exists>x. rvCtrs (V w) c = Some x \<and> rcPod x = p})"

definition runtime_calls :: "'w runtime \<Rightarrow> ('w \<Rightarrow> rt_view) \<Rightarrow> bool" where
  "runtime_calls rt V \<longleftrightarrow>
     (\<forall>cfg parent w i w'. rtRunPodSandbox rt cfg parent w = (Inr i, w') \<longrightarrow>
        rvPods (V w) i = None \<and> (\<forall>c x. rvCtrs (V w) c = Some x \<longrightarrow> rcPod x \<noteq> i) \<and>
        V w' = (V w)\<lparr>rvPods := (rvPods (V w))(i \<mapsto> cfg)\<rparr>) \<and>
     (\<forall>p cfg pcfg parent w c w'. rtCreateContainer rt p cfg pcfg parent w = (Inr c, w') \<longrightarrow>
        rvCtrs (V w) c = None \<and>
        V w' = (V w)\<lparr>rvCtrs := (rvCtrs (V w))(c \<mapsto> \<lparr>rcPod = p, rcConfig = cfg, rcStarted = False\<rparr>)\<rparr>) \<and>
     (\<forall>c w w'. rtStartContainer rt c w = (None, w') \<longrightarrow>
        V w' = update_ctrs (\<lambda>d x. Some (if d = c then x\<lparr>rcStarted := True\<rparr> else x)) (V w)) \<and>
     (\<forall>c t w w'. rtStopContainer rt c t w = (None, w') \<longrightarrow>
        V w' = update_ctrs (\<lambda>d x. Some (if d = c then x\<lparr>rcStarted := False\<rparr> else x)) (V w)) \<and>
     (\<forall>c w w'. rtRemoveContainer rt c w = (None, w') \<longrightarrow>
        V w' = update_ctrs (\<lambda>d x. if d = c then None else Some x) (V w)) \<and>
     (\<forall>p w w'. rtStopPodSandbox rt p w = (None, w') \<longrightarrow>
        V w' = update_ctrs (\<lambda>d x. Some (if rcPod x = p then x\<lparr>rcStarted := False\<rparr> else x)) (V w)) \<and>
     (\<forall>p w w'. rtRemovePodSandbox rt p w = (None, w') \<longrightarrow> V w' = remove_pods {p} (V w))"

definition runtime_frame :: "'w runtime \<Rightarrow> ('w \<Rightarrow> rt_view) \<Rightarrow> bool" where
  "runtime_frame rt V \<longleftrightarrow>
     (\<forall>cg w. V (rtSetCgroup rt cg w) = V w) \<and> (\<forall>path w. V (snd (rtMkdirAll rt path w)) = V w) \<and>
     (\<forall>ops w. V (rtImageOps rt ops w) = V w)"

definition runtime_ok :: "'w runtime \<Rightarrow> ('w \<Rightarrow> rt_view) \<Rightarrow> bool" where
  "runtime_ok rt V \<longleftrightarrow> runtime_queries rt V \<and> runtime_calls rt V \<and> runtime_frame rt V"

definition resolver_frame :: "'w ensure_volume option \<Rightarrow> ('w \<Rightarrow> rt_view) \<Rightarrow> bool" where
  "resolver_frame ens V \<longleftrightarrow> (\<forall>f p n w. ens = Some f \<longrightarrow> V (snd (f p n w)) = V w)"

lemma runtime_okD:
  assumes "runtime_ok rt V"
  shows "rtListPodSandbox rt sel w = Inr ps \<Longrightarrow> psId ` set ps = selected sel (V w)"
    and "rtListContainers rt p w = Inr cs \<Longrightarrow> crId ` set cs = {c. \<exists>x. rvCtrs (V w) c = Some x \<and> rcPod x = p}"
    and "rtRunPodSandbox rt cfg parent w = (Inr i, w') \<Longrightarrow>
        rvPods (V w) i = None \<and> (\<forall>c x. rvCtrs (V w) c = Some x \<longrightarrow> rcPod x \<noteq> i) \<and>
        V w' = (V w)\<lparr>rvPods := (rvPods (V w))(i \<mapsto> cfg)\<rparr>"
    and "rtCreateContainer rt p ccfg cfg parent w = (Inr c, w') \<Longrightarrow>
        rvCtrs (V w) c = None \<and>
        V w' = (V w)\<lparr>rvCtrs := (rvCtrs (V w))(c \<mapsto> \<lparr>rcPod = p, rcConfig = ccfg, rcStarted = False\<rparr>)\<rparr>"
    and "rtStartContainer rt c w = (None, w') \<Longrightarrow>
        V w' = update_ctrs (\<lambda>d x. Some (if d = c then x\<lparr>rcStarted := True\<rparr> else x)) (V w)"
    and "rtStopContainer rt c t w = (None, w') \<Longrightarrow>
        V w' = update_ctrs (\<lambda>d x. Some (if d = c then x\<lparr>rcStarted := False\<rparr> else x)) (V w)"
    and "rtRemoveContainer rt c w = (None, w') \<Longrightarrow> V w' = update_ctrs (\<lambda>d x. if d = c then None else Some x) (V w)"
    and "rtStopPodSandbox rt p w = (None, w') \<Longrightarrow>
        V w' = update_ctrs (\<lambda>d x. Some (if rcPod x = p then x\<lparr>rcStarted := False\<rparr> else x)) (V w)"
    and "rtRemovePodSandbox rt p w = (None, w') \<Longrightarrow> V w' = remove_pods {p} (V w)"
    and "V (rtSetCgroup rt cg w) = V w"
    and "V (snd (rtMkdirAll rt path w)) = V w"
    and "V (rtImageOps rt ops w) = V w"
proof -
  have Q: "runtime_queries rt V" and C: "runtime_calls rt V" and F: "runtime_frame rt V"
    using assms by (simp_all add: runtime_ok_def)
  note q = Q [unfolded runtime_queries_def] and c = C [unfolded runtime_calls_def] and f = F [unfolded runtime_frame_def]
  note c2 = conjunct2 [OF c] note c3 = conjunct2 [OF c2] note c4 = conjunct2 [OF c3] note c5 = conjunct2 [OF c4]
  note c6 = conjunct2 [OF c5]
  show "rtListPodSandbox rt sel w = Inr ps \<Longrightarrow> psId ` set ps = selected sel (V w)"
    by (rule conjunct1 [OF q, rule_format])
  show "rtListContainers rt p w = Inr cs \<Longrightarrow> crId ` set cs = {c. \<exists>x. rvCtrs (V w) c = Some x \<and> rcPod x = p}"
    by (rule conjunct2 [OF q, rule_format])
  show "rtRunPodSandbox rt cfg parent w = (Inr i, w') \<Longrightarrow>
        rvPods (V w) i = None \<and> (\<forall>c x. rvCtrs (V w) c = Some x \<longrightarrow> rcPod x \<noteq> i) \<and>
        V w' = (V w)\<lparr>rvPods := (rvPods (V w))(i \<mapsto> cfg)\<rparr>"
    by (rule conjunct1 [OF c, rule_format])
  show "rtCreateContainer rt p ccfg cfg parent w = (Inr c, w') \<Longrightarrow>
        rvCtrs (V w) c = None \<and>
        V w' = (V w)\<lparr>rvCtrs := (rvCtrs (V w))(c \<mapsto> \<lparr>rcPod = p, rcConfig = ccfg, rcStarted = False\<rparr>)\<rparr>"
    by (rule conjunct1 [OF c2, rule_format])
  show "rtStartContainer rt c w = (None, w') \<Longrightarrow>
        V w' = update_ctrs (\<lambda>d x. Some (if d = c then x\<lparr>rcStarted := True\<rparr> else x)) (V w)"
    by (rule conjunct1 [OF c3, rule_format])
  show "rtStopContainer rt c t w = (None, w') \<Longrightarrow>
        V w' = update_ctrs (\<lambda>d x. Some (if d = c then x\<lparr>rcStarted := False\<rparr> else x)) (V w)"
    by (rule conjunct1 [OF c4, rule_format])
  show "rtRemoveContainer rt c w = (None, w') \<Longrightarrow> V w' = update_ctrs (\<lambda>d x. if d = c then None else Some x) (V w)"
    by (rule conjunct1 [OF c5, rule_format])
  show "rtStopPodSandbox rt p w = (None, w') \<Longrightarrow>
        V w' = update_ctrs (\<lambda>d x. Some (if rcPod x = p then x\<lparr>rcStarted := False\<rparr> else x)) (V w)"
    by (rule conjunct1 [OF c6, rule_format])
  show "rtRemovePodSandbox rt p w = (None, w') \<Longrightarrow> V w' = remove_pods {p} (V w)"
    by (rule conjunct2 [OF c6, rule_format])
  show "V (rtSetCgroup rt cg w) = V w"
    by (rule conjunct1 [OF f, rule_format])
  show "V (snd (rtMkdirAll rt path w)) = V w"
    by (rule conjunct1 [OF conjunct2 [OF f], rule_format])
  show "V (rtImageOps rt ops w) = V w"
    by (rule conjunct2 [OF conjunct2 [OF f], rule_format])
qed


subsection \<open>Taking pods down\<close>

lemma update_ctrs_update: "update_ctrs g (update_ctrs f v) = update_ctrs (\<lambda>c x. Option.bind (f c x) (g c)) v"
  by (simp add: update_ctrs_def)

lemma update_ctrs_cong:
  "(\<And>c x. rvCtrs v c = Some x \<Longrightarrow> f c x = g c x) \<Longrightarrow> update_ctrs f v = update_ctrs g v"
proof -
  assume fg: "\<And>c x. rvCtrs v c = Some x \<Longrightarrow> f c x = g c x"
  have "Option.bind (rvCtrs v c) (f c) = Option.bind (rvCtrs v c) (g c)" for c
    by (cases "rvCtrs v c") (simp_all add: fg)
  then show ?thesis by (simp add: update_ctrs_def)
qed

lemma remove_pods_update:
  "remove_pods S v = (update_ctrs (\<lambda>c x. if rcPod x \<in> S then None else Some x) v)\<lparr>rvPods := \<lambda>i. if i \<in> S then None else rvPods v i\<rparr>"
  by (auto simp: remove_pods_def update_ctrs_def fun_eq_iff split: option.splits)

lemma remove_pods_simps:
  "rvPods (remove_pods S v) i = (if i \<in> S then None else rvPods v i)"
  "rvCtrs (remove_pods S v) c = Some x \<longleftrightarrow> rvCtrs v c = Some x \<and> rcPod x \<notin> S"
  by (auto simp: remove_pods_def split: option.splits)

lemma remove_pods_remove: "remove_pods S (remove_pods T v) = remove_pods (T \<union> S) v"
  by (auto simp: remove_pods_def fun_eq_iff split: option.splits)

lemma remove_pods_empty [simp]: "remove_pods {} v = v"
proof -
  have "rvCtrs (remove_pods {} v) = rvCtrs v" "rvPods (remove_pods {} v) = rvPods v"
    by (auto simp: remove_pods_def fun_eq_iff split: option.splits)
  then show ?thesis by simp
qed

lemma stop_containers_view:
  assumes "runtime_ok rt V" and "stop_containers rt t cs w = (None, w')"
  shows "V w' = update_ctrs (\<lambda>d x. if d \<in> crId ` set cs then None else Some x) (V w)"
  using assms(2)
proof (induction cs arbitrary: w)
  case Nil
  then show ?case by (simp add: update_ctrs_def)
next
  case (Cons ctr cs)
  then obtain w1 w2 where w: "rtStopContainer rt (crId ctr) t w = (None, w1)" "rtRemoveContainer rt (crId ctr) w1 = (None, w2)"
    "stop_containers rt t cs w2 = (None, w')"
    by (auto split: prod.splits option.splits)
  show ?case
    unfolding Cons.IH [OF w(3)] runtime_okD(7) [OF assms(1) w(2)] runtime_okD(6) [OF assms(1) w(1)] update_ctrs_update
    by (rule update_ctrs_cong) auto
qed

lemma teardownPod_view:
  assumes "runtime_ok rt V" and "teardownPod rt p t w = (None, w')"
  shows "V w' = remove_pods {p} (V w)"
proof -
  obtain cs w1 w2 where w: "rtListContainers rt p w = Inr cs" "stop_containers rt t cs w = (None, w1)"
    "rtStopPodSandbox rt p w1 = (None, w2)" "rtRemovePodSandbox rt p w2 = (None, w')"
    using assms(2) by (auto simp: teardownPod_def split: sum.splits prod.splits option.splits)
  have cs: "crId ` set cs = {c. \<exists>x. rvCtrs (V w) c = Some x \<and> rcPod x = p}" by (rule runtime_okD(2) [OF assms(1) w(1)])
  have "V w2 = update_ctrs (\<lambda>c x. if rcPod x = p then None else Some x) (V w)"
    unfolding runtime_okD(8) [OF assms(1) w(3)] stop_containers_view [OF assms(1) w(2)] update_ctrs_update
    by (rule update_ctrs_cong) (auto simp: cs)
  then show ?thesis
    unfolding runtime_okD(9) [OF assms(1) w(4)] by (auto simp: remove_pods_def update_ctrs_def fun_eq_iff split: option.splits bind_splits)
qed

lemma teardown_pods_view:
  assumes "runtime_ok rt V" and "teardown_pods rt t ps w = (None, w')"
  shows "V w' = remove_pods (psId ` set ps) (V w)"
  using assms(2)
proof (induction ps arbitrary: w)
  case (Cons pod ps)
  then obtain w1 where w: "teardownPod rt (psId pod) t w = (None, w1)" "teardown_pods rt t ps w1 = (None, w')"
    by (auto split: prod.splits option.splits)
  show ?case
    unfolding Cons.IH [OF w(2)] teardownPod_view [OF assms(1) w(1)] remove_pods_remove by simp
qed simp

lemma pods_down_view:
  assumes "runtime_ok rt V" and "pods_down rt sel t w = (None, w')"
  shows "V w' = remove_pods (selected sel (V w)) (V w)"
proof -
  obtain ps where ps: "rtListPodSandbox rt sel w = Inr ps" "teardown_pods rt t ps w = (None, w')"
    using assms(2) by (auto simp: pods_down_def split: sum.splits)
  show ?thesis
    unfolding teardown_pods_view [OF assms(1) ps(2)] runtime_okD(1) [OF assms(1) ps(1)] ..
qed

subsection \<open>Bringing a service up\<close>

lemma cgroupParent_view: "runtime_ok rt V \<Longrightarrow> cgroupParent rt w = (parent, w') \<Longrightarrow> V w' = V w"
  by (auto simp: cgroupParent_def Let_def runtime_okD(10) split: if_splits)

lemma volume_mounts_w_view:
  assumes "resolver_frame ens V"
  shows "V (snd (volume_mounts_w cwd project cvols ens vols w)) = V w"
proof (induction vols arbitrary: w)
  case (Cons vol vols)
  let ?w1 = "case (ens, volume_call cvols vol) of (Some f, Some n) \<Rightarrow> snd (f project n w) | _ \<Rightarrow> w"
  have "V ?w1 = V w" using assms by (auto simp: resolver_frame_def split: option.splits)
  then show ?case using Cons.IH [of ?w1]
    by (auto simp: Let_def split: sum.splits prod.splits)
qed simp

lemma BuildMounts_w_view:
  assumes "resolver_frame ens V" and "BuildMounts_w cwd svc project cvols ens w = (r, w')"
  shows "V w' = V w"
  using volume_mounts_w_view [OF assms(1), of cwd project cvols "svcVolumes svc" w] assms(2)
  by (auto simp: BuildMounts_w_def split: sum.splits prod.splits)

definition add_service :: "string \<Rightarrow> string \<Rightarrow> pod_config \<Rightarrow> container_config \<Rightarrow> rt_view \<Rightarrow> rt_view" where
  "add_service pid cid pod cfg v =
     v\<lparr>rvPods := (rvPods v)(pid \<mapsto> pod), rvCtrs := (rvCtrs v)(cid \<mapsto> \<lparr>rcPod = pid, rcConfig = cfg, rcStarted = True\<rparr>)\<rparr>"

lemma start_service_view:
  assumes ok: "runtime_ok rt V" and fr: "resolver_frame (suVolumeResolver opts) V"
    and up: "start_service rt name svc opts w = (None, w')"
  shows "\<exists>uid u u' pid cid mounts. BuildMounts_w (rtGetwd rt u) svc (suProject opts) (suCompVolumes opts) (suVolumeResolver opts) u = (Inr mounts, u') \<and>
    rvPods (V w) pid = None \<and> (\<forall>c x. rvCtrs (V w) c = Some x \<longrightarrow> rcPod x \<noteq> pid) \<and> rvCtrs (V w) cid = None \<and>
    V w' = add_service pid cid (BuildPodConfig uid (suProject opts) name svc (suVersion opts) (resolveNetworkMode svc (suUseCNI opts)))
      (BuildContainerConfig (rtSignals rt) name svc (suProject opts) (suVersion opts) mounts) (V w)"
proof -
  let ?cfg = "BuildPodConfig (rtRandomUID rt w) (suProject opts) name svc (suVersion opts) (resolveNetworkMode svc (suUseCNI opts))"
  let ?ctr = "BuildContainerConfig (rtSignals rt) name svc (suProject opts) (suVersion opts)"
  obtain pid parent w1 mounts w2 cid w3 where w: "RunPodSandbox rt ?cfg w = (Inr pid, parent, w1)"
    "BuildMounts_w (rtGetwd rt w1) svc (suProject opts) (suCompVolumes opts) (suVolumeResolver opts) w1 = (Inr mounts, w2)"
    "rtCreateContainer rt pid (?ctr mounts) ?cfg parent w2 = (Inr cid, w3)" "rtStartContainer rt cid w3 = (None, w')"
    using up by (auto simp: start_service_def Let_def split: sum.splits prod.splits)
  obtain w0 where w0: "cgroupParent rt w = (parent, w0)" "rtRunPodSandbox rt ?cfg parent w0 = (Inr pid, w1)"
    using w(1) by (auto simp: RunPodSandbox_def split: prod.splits)
  have v0: "V w0 = V w" by (rule cgroupParent_view [OF ok w0(1)])
  note v1 = runtime_okD(3) [OF ok w0(2), unfolded v0]
  have v2: "V w2 = V w1" by (rule BuildMounts_w_view [OF fr w(2)])
  note v3 = runtime_okD(4) [OF ok w(3), unfolded v2]
  note v4 = runtime_okD(5) [OF ok w(4)]
  have "V w' = add_service pid cid ?cfg (?ctr mounts) (V w)"
    unfolding v4 using v1 v3 by (auto simp: add_service_def update_ctrs_def fun_eq_iff)
  moreover have "rvCtrs (V w) cid = None" using v1 v3 by simp
  ultimately show ?thesis using v1 w(2) by blast
qed


lemma EnsureImage_resolved: "EnsureImage env ref = (Inr r, ops) \<Longrightarrow> r = ResolvedImageRef ref"
  by (auto simp: EnsureImage_def ParseLocalImage_def ResolvedImageRef_def Let_def split: if_splits option.splits sum.splits)

definition service_config :: "'w runtime \<Rightarrow> string \<Rightarrow> service \<Rightarrow> 'w service_up_options \<Rightarrow> mount list \<Rightarrow> container_config" where
  "service_config rt name svc opts mounts =
     BuildContainerConfig (rtSignals rt) name (svc\<lparr>svcImage := ResolvedImageRef (svcImage svc)\<rparr>) (suProject opts) (suVersion opts) mounts"

text \<open>The configuration of its pod, and the mounts that its volumes give in some state of the volume store.\<close>

definition service_pod :: "string \<Rightarrow> string \<Rightarrow> service \<Rightarrow> 'w service_up_options \<Rightarrow> pod_config" where
  "service_pod uid name svc opts =
     (let resolved = svc\<lparr>svcImage := ResolvedImageRef (svcImage svc)\<rparr>
      in BuildPodConfig uid (suProject opts) name resolved (suVersion opts) (resolveNetworkMode resolved (suUseCNI opts)))"

definition service_mounts :: "'w runtime \<Rightarrow> service \<Rightarrow> 'w service_up_options \<Rightarrow> mount list \<Rightarrow> bool" where
  "service_mounts rt svc opts mounts \<longleftrightarrow>
     (\<exists>u u'. BuildMounts_w (rtGetwd rt u) (svc\<lparr>svcImage := ResolvedImageRef (svcImage svc)\<rparr>) (suProject opts) (suCompVolumes opts)
        (suVolumeResolver opts) u = (Inr mounts, u'))"

lemma service_pod_labels [simp]: "pcLabels (service_pod uid name svc opts) = ServiceLabels (suProject opts) name (suVersion opts)"
  by (simp add: service_pod_def BuildPodConfig_def Let_def)

abbreviation service_labels :: "string \<Rightarrow> string \<Rightarrow> string gomap" where
  "service_labels project name \<equiv> [(LabelProject, project), (LabelService, name)]"

lemma ServiceUp_view:
  assumes ok: "runtime_ok rt V" and fr: "resolver_frame (suVolumeResolver opts) V"
    and up: "ServiceUp rt name svc opts w = (None, w')"
  shows "\<exists>uid pid cid mounts. let v = remove_pods (selected (service_labels (suProject opts) name) (V w)) (V w) in
    service_mounts rt svc opts mounts \<and> rvPods v pid = None \<and> (\<forall>c x. rvCtrs v c = Some x \<longrightarrow> rcPod x \<noteq> pid) \<and> rvCtrs v cid = None \<and>
    V w' = add_service pid cid (service_pod uid name svc opts) (service_config rt name svc opts mounts) v"
proof -
  let ?sel = "service_labels (suProject opts) name"
  obtain ps w1 where ps: "rtListPodSandbox rt ?sel w = Inr ps" "teardown_pods rt 10 ps w = (None, w1)"
    using up by (auto simp: ServiceUp_def split: sum.splits prod.splits option.splits)
  obtain w2 where w2: "rtMkdirAll rt (''/tmp/nix-compose-logs/'' @ suProject opts @ ''/'' @ name) w1 = (None, w2)"
    using up ps by (auto simp: ServiceUp_def split: sum.splits prod.splits option.splits)
  obtain img ops where img: "EnsureImage (rtImageEnv rt w2) (svcImage svc) = (Inr img, ops)"
    "start_service rt name (svc\<lparr>svcImage := img\<rparr>) opts (rtImageOps rt ops w2) = (None, w')"
    using up ps w2 by (auto simp: ServiceUp_def split: sum.splits prod.splits)
  have v1: "V w1 = remove_pods (selected ?sel (V w)) (V w)"
    unfolding teardown_pods_view [OF ok ps(2)] runtime_okD(1) [OF ok ps(1)] ..
  have "V w2 = V w1" using runtime_okD(11) [OF ok, of "''/tmp/nix-compose-logs/'' @ suProject opts @ ''/'' @ name" w1] w2 by simp
  then have v2: "V (rtImageOps rt ops w2) = remove_pods (selected ?sel (V w)) (V w)"
    by (simp add: runtime_okD(12) [OF ok] v1)
  show ?thesis
    using start_service_view [OF ok fr img(2), unfolded v2]
    by (simp add: Let_def service_config_def service_pod_def service_mounts_def EnsureImage_resolved [OF img(1)]) blast
qed

lemma label_match_service:
  "label_match (service_labels project name) (ServiceLabels project' name' version) \<longleftrightarrow> project = project' \<and> name = name'"
  "label_match [(LabelProject, project)] (ServiceLabels project' name' version) \<longleftrightarrow> project = project'"
  by (auto simp: label_match_def ServiceLabels_def LabelProject_def LabelService_def)

lemma label_match_two: "label_match (service_labels project name) labels \<Longrightarrow> label_match (service_labels project name') labels \<Longrightarrow> name = name'"
  by (auto simp: label_match_def)

lemma label_match_project: "label_match (service_labels project name) labels \<Longrightarrow> label_match [(LabelProject, project)] labels"
  by (auto simp: label_match_def)

text \<open>A service that runs once: one pod carries its labels and has the configuration of the service, and that pod
  has one container, started, with the configuration of the service and the mounts of its volumes.\<close>

definition runs_once :: "'w runtime \<Rightarrow> string \<Rightarrow> service \<Rightarrow> 'w service_up_options \<Rightarrow> rt_view \<Rightarrow> bool" where
  "runs_once rt name svc opts v \<longleftrightarrow> (\<exists>uid pid cid mounts.
     service_mounts rt svc opts mounts \<and>
     selected (service_labels (suProject opts) name) v = {pid} \<and>
     rvPods v pid = Some (service_pod uid name svc opts) \<and>
     (\<forall>c x. rvCtrs v c = Some x \<and> rcPod x = pid \<longleftrightarrow>
        c = cid \<and> x = \<lparr>rcPod = pid, rcConfig = service_config rt name svc opts mounts, rcStarted = True\<rparr>))"

definition same_pods :: "string set \<Rightarrow> rt_view \<Rightarrow> rt_view \<Rightarrow> bool" where
  "same_pods S v v' \<longleftrightarrow>
     (\<forall>i \<in> S. rvPods v' i = rvPods v i \<and> (\<forall>c x. rcPod x = i \<longrightarrow> (rvCtrs v' c = Some x \<longleftrightarrow> rvCtrs v c = Some x)))"

lemma add_service_selected:
  "rvPods v pid = None \<Longrightarrow> selected sel (add_service pid cid pod cfg v) =
     selected sel v \<union> (if label_match sel (pcLabels pod) then {pid} else {})"
  by (auto simp: selected_def add_service_def)

lemma selected_remove: "selected sel (remove_pods S v) = selected sel v - S"
  by (auto simp: selected_def remove_pods_simps split: if_splits)

lemma ServiceUp_outcome:
  assumes "runtime_ok rt V" and "resolver_frame (suVolumeResolver opts) V" and "ServiceUp rt name svc opts w = (None, w')"
  shows "runs_once rt name svc opts (V w')"
    and "same_pods ({i. rvPods (V w) i \<noteq> None} - selected (service_labels (suProject opts) name) (V w)) (V w) (V w')"
    and "selected sel (V w') = selected sel (V w) - selected (service_labels (suProject opts) name) (V w) \<union>
      (if label_match sel (ServiceLabels (suProject opts) name (suVersion opts))
       then selected (service_labels (suProject opts) name) (V w') else {})"
proof -
  let ?S = "selected (service_labels (suProject opts) name) (V w)"
  let ?L = "ServiceLabels (suProject opts) name (suVersion opts)"
  from ServiceUp_view [OF assms] obtain uid pid cid mounts where
    f: "rvPods (remove_pods ?S (V w)) pid = None" "\<forall>c x. rvCtrs (remove_pods ?S (V w)) c = Some x \<longrightarrow> rcPod x \<noteq> pid"
      "rvCtrs (remove_pods ?S (V w)) cid = None" "service_mounts rt svc opts mounts"
    and v': "V w' = add_service pid cid (service_pod uid name svc opts) (service_config rt name svc opts mounts) (remove_pods ?S (V w))"
    by (auto simp: Let_def)
  have sel: "selected s (V w') = selected s (V w) - ?S \<union> (if label_match s ?L then {pid} else {})" for s
    unfolding v' add_service_selected [OF f(1)] selected_remove service_pod_labels ..
  have own: "selected (service_labels (suProject opts) name) (V w') = {pid}"
    using sel [of "service_labels (suProject opts) name"] by (simp add: label_match_service)
  show "selected sel (V w') = selected sel (V w) - ?S \<union>
      (if label_match sel ?L then selected (service_labels (suProject opts) name) (V w') else {})"
    unfolding sel [of sel] own ..
  have "rvPods (V w') pid = Some (service_pod uid name svc opts)" by (simp add: v' add_service_def)
  moreover have "rvCtrs (V w') c = Some x \<and> rcPod x = pid \<longleftrightarrow>
      c = cid \<and> x = \<lparr>rcPod = pid, rcConfig = service_config rt name svc opts mounts, rcStarted = True\<rparr>" for c x
    using f(2) by (auto simp: v' add_service_def)
  ultimately show "runs_once rt name svc opts (V w')" using own f(4) unfolding runs_once_def by blast
  show "same_pods ({i. rvPods (V w) i \<noteq> None} - ?S) (V w) (V w')"
    unfolding same_pods_def
  proof (intro ballI conjI allI impI)
    fix i
    assume i: "i \<in> {i. rvPods (V w) i \<noteq> None} - ?S"
    then have "i \<noteq> pid" using f(1) by (auto simp: remove_pods_simps)
    then show "rvPods (V w') i = rvPods (V w) i" using i by (simp add: v' add_service_def remove_pods_simps)
    fix c and x :: rt_ctr
    assume "rcPod x = i"
    then show "rvCtrs (V w') c = Some x \<longleftrightarrow> rvCtrs (V w) c = Some x"
      using i \<open>i \<noteq> pid\<close> f(3) by (auto simp: v' add_service_def remove_pods_simps) (metis remove_pods_simps(2) option.distinct(1))+
  qed
qed


definition without_project :: "string \<Rightarrow> rt_view \<Rightarrow> rt_view" where
  "without_project project v = remove_pods (selected [(LabelProject, project)] v) v"

lemma rt_view_eqI:
  fixes v v' :: rt_view
  assumes "\<And>i. rvPods v i = rvPods v' i" and "\<And>c x. rvCtrs v c = Some x \<longleftrightarrow> rvCtrs v' c = Some x"
  shows "v = v'"
proof -
  have "rvCtrs v c = rvCtrs v' c" for c
  proof (cases "rvCtrs v c")
    case None
    then show ?thesis using assms(2) [of c "the (rvCtrs v' c)"] by (cases "rvCtrs v' c") simp_all
  next
    case (Some x)
    then show ?thesis using assms(2) [of c x] by simp
  qed
  with assms(1) show ?thesis by (simp add: fun_eq_iff)
qed

lemma ServiceUp_without_project:
  assumes "runtime_ok rt V" and "resolver_frame (suVolumeResolver opts) V" and "ServiceUp rt name svc opts w = (None, w')"
  shows "without_project (suProject opts) (V w') = without_project (suProject opts) (V w)"
proof -
  let ?S = "selected (service_labels (suProject opts) name) (V w)" and ?P = "[(LabelProject, suProject opts)]"
  let ?L = "ServiceLabels (suProject opts) name (suVersion opts)"
  from ServiceUp_view [OF assms] obtain uid pid cid mounts where
    f: "rvPods (remove_pods ?S (V w)) pid = None" "\<forall>c x. rvCtrs (remove_pods ?S (V w)) c = Some x \<longrightarrow> rcPod x \<noteq> pid"
      "rvCtrs (remove_pods ?S (V w)) cid = None" "service_mounts rt svc opts mounts"
    and v': "V w' = add_service pid cid (service_pod uid name svc opts) (service_config rt name svc opts mounts) (remove_pods ?S (V w))"
    by (auto simp: Let_def)
  have SP: "?S \<subseteq> selected ?P (V w)" by (auto simp: selected_def dest: label_match_project)
  have P: "selected ?P (V w') = selected ?P (V w) - ?S \<union> {pid}"
    unfolding v' add_service_selected [OF f(1)] selected_remove by (simp add: label_match_service)
  have pid: "pid \<in> ?S \<or> rvPods (V w) pid = None" using f(1) by (simp add: remove_pods_simps split: if_splits)
  have cid: "rvCtrs (V w) cid = Some x \<Longrightarrow> rcPod x \<in> ?S" for x using f(3) remove_pods_simps(2) [of ?S "V w" cid x] by auto
  show ?thesis
    unfolding without_project_def P
  proof (rule rt_view_eqI)
    fix i
    show "rvPods (remove_pods (selected ?P (V w) - ?S \<union> {pid}) (V w')) i = rvPods (remove_pods (selected ?P (V w)) (V w)) i"
      using pid SP by (auto simp: remove_pods_simps v' add_service_def)
  next
    fix c x
    show "rvCtrs (remove_pods (selected ?P (V w) - ?S \<union> {pid}) (V w')) c = Some x \<longleftrightarrow>
        rvCtrs (remove_pods (selected ?P (V w)) (V w)) c = Some x"
      using f(2) cid SP by (auto simp: remove_pods_simps v' add_service_def split: if_splits)
  qed
qed

lemma up_loop_without_project:
  assumes "runtime_ok rt V" and "resolver_frame (suVolumeResolver opts) V" and "up_loop rt services opts w = (None, w')"
  shows "without_project (suProject opts) (V w') = without_project (suProject opts) (V w)"
  using assms(3)
proof (induction services arbitrary: w)
  case (Cons s services)
  obtain name svc where s: "s = (name, svc)" by (cases s)
  with Cons.prems obtain w1 where w1: "ServiceUp rt name svc opts w = (None, w1)" "up_loop rt services opts w1 = (None, w')"
    by (auto split: prod.splits option.splits)
  with Cons.IH [OF w1(2)] ServiceUp_without_project [OF assms(1,2) w1(1)] show ?case by simp
qed simp

text \<open>Another service of the project is left as it is, whatever options it was started with.\<close>

lemma runs_once_kept:
  assumes "runtime_ok rt V" and "resolver_frame (suVolumeResolver opts) V" and "ServiceUp rt name svc opts w = (None, w')"
    and "runs_once rt other osvc oopts (V w)" and "other \<noteq> name" and "suProject oopts = suProject opts"
  shows "runs_once rt other osvc oopts (V w')"
proof -
  let ?S = "selected (service_labels (suProject opts) name) (V w)"
  from assms(4) obtain uid pid cid mounts where r: "selected (service_labels (suProject opts) other) (V w) = {pid}"
    "rvPods (V w) pid = Some (service_pod uid other osvc oopts)"
    "\<forall>c x. rvCtrs (V w) c = Some x \<and> rcPod x = pid \<longleftrightarrow>
      c = cid \<and> x = \<lparr>rcPod = pid, rcConfig = service_config rt other osvc oopts mounts, rcStarted = True\<rparr>"
    "service_mounts rt osvc oopts mounts"
    unfolding runs_once_def assms(6) by (elim exE conjE)
  have "pid \<notin> ?S" using r(2) assms(5) by (auto simp: selected_def label_match_service)
  then have "pid \<in> {i. rvPods (V w) i \<noteq> None} - ?S" using r(2) by simp
  then have same: "rvPods (V w') pid = rvPods (V w) pid" "rcPod x = pid \<Longrightarrow> rvCtrs (V w') c = Some x \<longleftrightarrow> rvCtrs (V w) c = Some x" for c x
    using ServiceUp_outcome(2) [OF assms(1-3)] unfolding same_pods_def by blast+
  have "selected (service_labels (suProject opts) other) (V w') = {pid}"
    using ServiceUp_outcome(3) [OF assms(1-3), of "service_labels (suProject opts) other"] r(1) \<open>pid \<notin> ?S\<close> assms(5)
    by (simp only: label_match_service(1) if_False if_True simp_thms Un_empty_right) auto
  moreover have "rvCtrs (V w') c = Some x \<and> rcPod x = pid \<longleftrightarrow>
      c = cid \<and> x = \<lparr>rcPod = pid, rcConfig = service_config rt other osvc oopts mounts, rcStarted = True\<rparr>" for c x
    using same(2) [of x c] r(3) by blast
  ultimately show ?thesis using same(1) r(2,4) unfolding runs_once_def assms(6) by metis
qed

lemma up_loop_kept:
  assumes "runtime_ok rt V" and "resolver_frame (suVolumeResolver opts) V" and "up_loop rt services opts w = (None, w')"
    and "runs_once rt other osvc opts (V w)" and "other \<notin> fst ` set services"
  shows "runs_once rt other osvc opts (V w')"
  using assms(3-5)
proof (induction services arbitrary: w)
  case (Cons s services)
  obtain name svc where s: "s = (name, svc)" by (cases s)
  with Cons.prems obtain w1 where w1: "ServiceUp rt name svc opts w = (None, w1)" "up_loop rt services opts w1 = (None, w')"
    by (auto split: prod.splits option.splits)
  have "runs_once rt other osvc opts (V w1)"
    using runs_once_kept [OF assms(1,2) w1(1) Cons.prems(2) _ refl] Cons.prems(3) s by auto
  with Cons.IH [OF w1(2)] Cons.prems(3) show ?case by simp
qed simp

lemma up_loop_runs:
  assumes "runtime_ok rt V" and "resolver_frame (suVolumeResolver opts) V" and "up_loop rt services opts w = (None, w')"
    and "distinct (map fst services)" and "(name, svc) \<in> set services"
  shows "runs_once rt name svc opts (V w')"
  using assms(3-5)
proof (induction services arbitrary: w)
  case (Cons s services)
  obtain n sv where s: "s = (n, sv)" by (cases s)
  with Cons.prems obtain w1 where w1: "ServiceUp rt n sv opts w = (None, w1)" "up_loop rt services opts w1 = (None, w')"
    by (auto split: prod.splits option.splits)
  show ?case
  proof (cases "(name, svc) = s")
    case True
    then have "runs_once rt name svc opts (V w1)" using ServiceUp_outcome(1) [OF assms(1,2) w1(1)] s by simp
    with True s Cons.prems(2) show ?thesis by (intro up_loop_kept [OF assms(1,2) w1(2)]) auto
  next
    case False
    with Cons show ?thesis using Cons.IH [OF w1(2)] by simp
  qed
qed simp

text \<open>When \<open>ServiceUp\<close> succeeds, exactly one pod carries the labels of the service, with exactly one
  container, which has been started with the configuration built from the service and the image
  reference it resolves to, whatever pods of the service there were before; pods of other
  services and their containers are untouched.\<close>

theorem ServiceUp_runs_once:
  assumes "runtime_ok rt V" and "resolver_frame (suVolumeResolver opts) V" and "ServiceUp rt name svc opts w = (None, w')"
  shows "runs_once rt name svc opts (V w') \<and>
    same_pods ({i. rvPods (V w) i \<noteq> None} - selected (service_labels (suProject opts) name) (V w)) (V w) (V w')"
  using ServiceUp_outcome(1,2) [OF assms] by blast

text \<open>C28: After \<open>CompositionUp\<close> every service of the composition runs once.  A \<open>ProjectDown\<close> that follows
  leaves exactly the pods and containers that were there before and do not belong to the project:
  nothing of the project stays and nothing of another project is touched.\<close>

theorem CompositionUp_ProjectDown:
  assumes "runtime_ok rt V" and "resolver_frame (suVolumeResolver opts) V" and "gm_ok (compServices c)"
    and "CompositionUp rt c volumesNil opts w = (None, w1)" and "ProjectDown rt (suProject opts) timeout w1 = (None, w2)"
  shows "(\<forall>(name, svc) \<in> set (compServices c).
      runs_once rt name svc (if volumesNil then opts\<lparr>suCompVolumes := compVolumes c\<rparr> else opts) (V w1)) \<and>
    V w2 = without_project (suProject opts) (V w)"
proof -
  let ?o = "if volumesNil then opts\<lparr>suCompVolumes := compVolumes c\<rparr> else opts"
  have o: "resolver_frame (suVolumeResolver ?o) V" "suProject ?o = suProject opts" using assms(2) by simp_all
  have up: "up_loop rt (compServices c) ?o w = (None, w1)" using assms(4) by (simp add: CompositionUp_def)
  have "V w2 = without_project (suProject opts) (V w1)"
    using pods_down_view [OF assms(1)] assms(5) by (simp add: ProjectDown_def without_project_def)
  moreover have "distinct (map fst (compServices c))" using assms(3) by (simp add: gm_ok_def)
  ultimately show ?thesis
    using up_loop_without_project [OF assms(1) o(1) up] up_loop_runs [OF assms(1) o(1) up] o(2) by auto
qed


text \<open>When the mounts of a service cannot be built, \<open>ServiceUp\<close> fails after it has started the pod and does
  not take the pod down: a pod with the labels of the service and without a container stays behind.\<close>

theorem start_service_leaks_pod:
  assumes "runtime_ok rt V" and "resolver_frame (suVolumeResolver opts) V"
    and "RunPodSandbox rt (BuildPodConfig (rtRandomUID rt w) (suProject opts) name svc (suVersion opts)
      (resolveNetworkMode svc (suUseCNI opts))) w = (Inr pid, parent, w1)"
    and "BuildMounts_w (rtGetwd rt w1) svc (suProject opts) (suCompVolumes opts) (suVolumeResolver opts) w1 = (Inl e, w2)"
  shows "start_service rt name svc opts w = (Some e, w2) \<and> pid \<in> selected (service_labels (suProject opts) name) (V w2) \<and>
    (\<forall>c x. rvCtrs (V w2) c = Some x \<longrightarrow> rcPod x \<noteq> pid)"
proof -
  let ?cfg = "BuildPodConfig (rtRandomUID rt w) (suProject opts) name svc (suVersion opts) (resolveNetworkMode svc (suUseCNI opts))"
  obtain w0 where w0: "cgroupParent rt w = (parent, w0)" "rtRunPodSandbox rt ?cfg parent w0 = (Inr pid, w1)"
    using assms(3) by (auto simp: RunPodSandbox_def split: prod.splits)
  have v2: "V w2 = V w1" by (rule BuildMounts_w_view [OF assms(2,4)])
  have labels: "pcLabels ?cfg = ServiceLabels (suProject opts) name (suVersion opts)" by (simp add: BuildPodConfig_def)
  note v1 = runtime_okD(3) [OF assms(1) w0(2)]
  show ?thesis
    using assms(3,4) v1 unfolding v2 by (auto simp: start_service_def Let_def selected_def labels label_match_service)
qed

subsection \<open>A runtime in memory\<close>

text \<open>A runtime that meets the hypotheses, for the witnesses: tables of pods and containers and a counter for
  new identifiers.\<close>

record rt_mem =
  mmPods :: "pod_config gomap"
  mmCtrs :: "rt_ctr gomap"
  mmNext :: nat
  mmCgroup :: cgroup_state

definition mem_view :: "rt_mem \<Rightarrow> rt_view" where
  "mem_view m = \<lparr>rvPods = map_of (mmPods m), rvCtrs = map_of (mmCtrs m)\<rparr>"

definition new_id :: "rt_mem \<Rightarrow> string" where "new_id m = replicate (Suc (mmNext m)) (CHR ''x'')"

definition map_ctrs :: "(string \<Rightarrow> rt_ctr \<Rightarrow> rt_ctr) \<Rightarrow> rt_mem \<Rightarrow> error option \<times> rt_mem" where
  "map_ctrs f m = (None, m\<lparr>mmCtrs := map (\<lambda>(c, x). (c, f c x)) (mmCtrs m)\<rparr>)"

definition keep_ctrs :: "(string \<Rightarrow> bool) \<Rightarrow> rt_mem \<Rightarrow> rt_mem" where
  "keep_ctrs P m = m\<lparr>mmCtrs := filter (\<lambda>(c, x). P c) (mmCtrs m)\<rparr>"

definition mem_run :: "pod_config \<Rightarrow> rt_mem \<Rightarrow> (error + string) \<times> rt_mem" where
  "mem_run cfg m =
     (let i = new_id m
      in if map_of (mmPods m) i = None \<and> list_all (\<lambda>(c, x). rcPod x \<noteq> i) (mmCtrs m)
         then (Inr i, m\<lparr>mmPods := (i, cfg) # mmPods m, mmNext := Suc (mmNext m)\<rparr>)
         else (Inl (Err ''id in use''), m))"

definition mem_create :: "string \<Rightarrow> container_config \<Rightarrow> rt_mem \<Rightarrow> (error + string) \<times> rt_mem" where
  "mem_create p cfg m =
     (let i = new_id m
      in if map_of (mmCtrs m) i = None
         then (Inr i, m\<lparr>mmCtrs := (i, \<lparr>rcPod = p, rcConfig = cfg, rcStarted = False\<rparr>) # mmCtrs m, mmNext := Suc (mmNext m)\<rparr>)
         else (Inl (Err ''id in use''), m))"

definition mem_runtime :: "rt_mem runtime" where
  "mem_runtime = \<lparr>
     rtListPodSandbox = (\<lambda>sel m. Inr (map (\<lambda>(i, cfg). \<lparr>psId = i, psLabels = pcLabels cfg\<rparr>)
       (filter (\<lambda>(i, cfg). label_match sel (pcLabels cfg) \<and> map_of (mmPods m) i = Some cfg) (mmPods m)))),
     rtListContainers = (\<lambda>p m. Inr (map (\<lambda>(c, x). \<lparr>crId = c, crState = (if rcStarted x then 1 else 2)\<rparr>)
       (filter (\<lambda>(c, x). rcPod x = p \<and> map_of (mmCtrs m) c = Some x) (mmCtrs m)))),
     rtRunPodSandbox = (\<lambda>cfg parent. mem_run cfg),
     rtStopPodSandbox = (\<lambda>p. map_ctrs (\<lambda>c x. if rcPod x = p then x\<lparr>rcStarted := False\<rparr> else x)),
     rtRemovePodSandbox = (\<lambda>p m. (None, (keep_ctrs (\<lambda>c. case map_of (mmCtrs m) c of Some x \<Rightarrow> rcPod x \<noteq> p | None \<Rightarrow> True) m)
       \<lparr>mmPods := filter (\<lambda>(i, l). i \<noteq> p) (mmPods m)\<rparr>)),
     rtCreateContainer = (\<lambda>p cfg pcfg parent. mem_create p cfg),
     rtStartContainer = (\<lambda>c. map_ctrs (\<lambda>d x. if d = c then x\<lparr>rcStarted := True\<rparr> else x)),
     rtStopContainer = (\<lambda>c t. map_ctrs (\<lambda>d x. if d = c then x\<lparr>rcStarted := False\<rparr> else x)),
     rtRemoveContainer = (\<lambda>c m. (None, keep_ctrs (\<lambda>d. d \<noteq> c) m)),
     rtContainerStatus = (\<lambda>c m. Inr (map_option (\<lambda>x. (if rcStarted x then 1 else 2, 0)) (map_of (mmCtrs m) c))),
     rtPodSandboxIp = (\<lambda>p m. Inr None), rtRuntimeConfig = (\<lambda>m. Inr True), rtCgroup = mmCgroup,
     rtSetCgroup = (\<lambda>cg m. m\<lparr>mmCgroup := cg\<rparr>), rtMkdirAll = (\<lambda>path m. (None, m)),
     rtImageEnv = (\<lambda>m. \<lparr>ieStat = (\<lambda>_. Inr False), ieImageStatus = (\<lambda>i. Inr (Some i)), iePullImage = (\<lambda>_. None), ieImport = (\<lambda>_. None)\<rparr>),
     rtImageOps = (\<lambda>ops m. m), rtRandomUID = (\<lambda>m. ''uid''), rtGetwd = (\<lambda>m. Some ''/''), rtSignals = (\<lambda>s. None)\<rparr>"

lemma map_of_map_key: "map_of (map (\<lambda>(c, x). (c, f c x)) xs) k = map_option (f k) (map_of xs k)"
  by (induction xs) auto

lemma map_of_keep_key: "map_of (filter (\<lambda>(c, x). P c) xs) k = (if P k then map_of xs k else None)"
  by (induction xs) auto

lemma map_ctrs_view: "map_ctrs f m = (None, m') \<Longrightarrow> mem_view m' = update_ctrs (\<lambda>d x. Some (f d x)) (mem_view m)"
  by (auto simp: map_ctrs_def mem_view_def update_ctrs_def map_of_map_key fun_eq_iff split: bind_splits option.splits)

lemma mem_runtime_queries: "runtime_queries mem_runtime mem_view"
  unfolding runtime_queries_def selected_def
  by (auto simp: mem_runtime_def mem_view_def image_image dest: map_of_SomeD) (force dest: map_of_SomeD)+

lemma mem_runtime_calls: "runtime_calls mem_runtime mem_view"
  unfolding runtime_calls_def
proof (intro conjI allI impI)
  fix cfg parent w i w'
  assume "rtRunPodSandbox mem_runtime cfg parent w = (Inr i, w')"
  then have "mem_run cfg w = (Inr i, w')" by (simp add: mem_runtime_def)
  then show "rvPods (mem_view w) i = None" "\<And>c x. rvCtrs (mem_view w) c = Some x \<Longrightarrow> rcPod x \<noteq> i"
    "mem_view w' = (mem_view w)\<lparr>rvPods := (rvPods (mem_view w))(i \<mapsto> cfg)\<rparr>"
    by (auto simp: mem_run_def Let_def mem_view_def list_all_iff fun_eq_iff split: if_splits dest!: map_of_SomeD)
next
  fix p cfg pcfg parent w c w'
  assume "rtCreateContainer mem_runtime p cfg pcfg parent w = (Inr c, w')"
  then have "mem_create p cfg w = (Inr c, w')" by (simp add: mem_runtime_def)
  then show "rvCtrs (mem_view w) c = None"
    "mem_view w' = (mem_view w)\<lparr>rvCtrs := (rvCtrs (mem_view w))(c \<mapsto> \<lparr>rcPod = p, rcConfig = cfg, rcStarted = False\<rparr>)\<rparr>"
    by (auto simp: mem_create_def Let_def mem_view_def fun_eq_iff split: if_splits)
qed (auto simp: mem_runtime_def keep_ctrs_def mem_view_def update_ctrs_def remove_pods_def map_of_keep_key map_of_map_key
      map_ctrs_def fun_eq_iff split: option.splits bind_splits)

lemma mem_runtime_ok: "runtime_ok mem_runtime mem_view"
  by (simp add: runtime_ok_def mem_runtime_queries mem_runtime_calls runtime_frame_def) (simp add: mem_runtime_def mem_view_def)


definition old_pod :: "string \<Rightarrow> string \<Rightarrow> string \<Rightarrow> pod_config" where
  "old_pod project name version = BuildPodConfig ''u'' project name zero_service version PodNetworkHost"

lemma old_pod_labels [simp]: "pcLabels (old_pod project name version) = ServiceLabels project name version"
  by (simp add: old_pod_def BuildPodConfig_def)

definition demo_mem :: rt_mem where
  "demo_mem = \<lparr>mmPods = [(''old'', old_pod ''p'' ''web'' ''v0''), (''q'', old_pod ''q'' ''db'' ''v'')],
     mmCtrs = [], mmNext = 0, mmCgroup = \<lparr>cgOnce = False, cgSlice = ''''\<rparr>\<rparr>"

definition demo_opts :: "rt_mem service_up_options" where
  "demo_opts = \<lparr>suProject = ''p'', suVersion = ''v1'', suCompVolumes = [], suVolumeResolver = None, suUseCNI = False\<rparr>"

definition demo_service :: service where "demo_service = zero_service\<lparr>svcImage := ''nginx''\<rparr>"

lemma demo_resolver: "resolver_frame (suVolumeResolver demo_opts) V"
  by (simp add: resolver_frame_def demo_opts_def)

theorem ServiceUp_runs_once_witness:
  "\<exists>w'. ServiceUp mem_runtime ''web'' demo_service demo_opts demo_mem = (None, w') \<and>
     runs_once mem_runtime ''web'' demo_service demo_opts (mem_view w')"
proof -
  have "fst (ServiceUp mem_runtime ''web'' demo_service demo_opts demo_mem) = None" by code_simp
  then obtain w' where "ServiceUp mem_runtime ''web'' demo_service demo_opts demo_mem = (None, w')"
    by (metis prod.collapse)
  with ServiceUp_runs_once [OF mem_runtime_ok demo_resolver] show ?thesis by blast
qed

definition demo_comp :: composition where
  "demo_comp = \<lparr>compServices = [(''web'', demo_service), (''api'', demo_service)], compNetworks = [], compVolumes = [], compMicroVM = None\<rparr>"

theorem CompositionUp_ProjectDown_witness:
  "\<exists>w1 w2. CompositionUp mem_runtime demo_comp True demo_opts demo_mem = (None, w1) \<and>
     ProjectDown mem_runtime ''p'' 10 w1 = (None, w2) \<and> mem_view w2 = without_project ''p'' (mem_view demo_mem)"
proof -
  have "fst (CompositionUp mem_runtime demo_comp True demo_opts demo_mem) = None \<and>
      fst (ProjectDown mem_runtime ''p'' 10 (snd (CompositionUp mem_runtime demo_comp True demo_opts demo_mem))) = None"
    by code_simp
  then obtain w1 w2 where w: "CompositionUp mem_runtime demo_comp True demo_opts demo_mem = (None, w1)"
    "ProjectDown mem_runtime (suProject demo_opts) 10 w1 = (None, w2)"
    by (auto simp: demo_opts_def prod_eq_iff)
  have "gm_ok (compServices demo_comp)" by (simp add: gm_ok_def demo_comp_def)
  with CompositionUp_ProjectDown [OF mem_runtime_ok demo_resolver _ w] w show ?thesis by (auto simp: demo_opts_def)
qed

theorem start_service_leaks_pod_witness:
  "\<exists>e w2. start_service mem_runtime ''web'' (demo_service\<lparr>svcVolumes := [''data:/data'']\<rparr>) demo_opts demo_mem = (Some e, w2) \<and>
     selected (service_labels ''p'' ''web'') (mem_view w2) \<noteq> {}"
proof -
  let ?svc = "demo_service\<lparr>svcVolumes := [''data:/data'']\<rparr>"
  let ?run = "RunPodSandbox mem_runtime (BuildPodConfig (rtRandomUID mem_runtime demo_mem) (suProject demo_opts) ''web'' ?svc
      (suVersion demo_opts) (resolveNetworkMode ?svc (suUseCNI demo_opts))) demo_mem"
  let ?w1 = "snd (snd ?run)"
  let ?mounts = "BuildMounts_w (rtGetwd mem_runtime ?w1) ?svc (suProject demo_opts) (suCompVolumes demo_opts) (suVolumeResolver demo_opts) ?w1"
  have "isl (fst ?run) = False \<and> isl (fst ?mounts)" by code_simp
  then obtain pid e where "?run = (Inr pid, fst (snd ?run), ?w1)" "?mounts = (Inl e, snd ?mounts)"
    by (metis isl_def sum.exhaust_sel prod.collapse sum.disc(2))
  from start_service_leaks_pod [OF mem_runtime_ok demo_resolver this] show ?thesis by (auto simp: demo_opts_def)
qed

end
