(* ===== verification/Transition.thy ===== *)
theory Transition
  imports Main
begin

text \<open>
  Labelled transition systems for the concurrent parts of the program: reachability from an
  initial state, and the interface of an inductive invariant.  Each label is one atomic step of
  one goroutine, so a list of labels is one interleaving.
\<close>

inductive reach :: "'s \<Rightarrow> ('s \<Rightarrow> 'l \<Rightarrow> 's \<Rightarrow> bool) \<Rightarrow> 'l list \<Rightarrow> 's \<Rightarrow> bool"
  for init :: 's and step :: "'s \<Rightarrow> 'l \<Rightarrow> 's \<Rightarrow> bool" where
  start: "reach init step [] init"
| more: "reach init step ls s \<Longrightarrow> step s l s' \<Longrightarrow> reach init step (ls @ [l]) s'"

lemma reach_trans: "reach b st ks c \<Longrightarrow> reach a st ls b \<Longrightarrow> reach a st (ls @ ks) c"
proof (induction rule: reach.induct)
  case (more ks c l c')
  then show ?case using reach.more[of a st "ls @ ks" c l c'] by simp
qed simp

text \<open>The interface of an invariant: it holds at the start and every step keeps it.\<close>

locale invariant_system =
  fixes init :: 's and step :: "'s \<Rightarrow> 'l \<Rightarrow> 's \<Rightarrow> bool" and inv :: "'s \<Rightarrow> bool"
  assumes inv_init: "inv init"
    and inv_step: "inv s \<Longrightarrow> step s l s' \<Longrightarrow> inv s'"
begin

lemma inv_reach: "reach init step ls s \<Longrightarrow> inv s"
  by (induction rule: reach.induct) (auto intro: inv_init inv_step)

end

text \<open>An invariant and a property of single steps that, once true, stays true.\<close>

locale monotone_system = invariant_system +
  fixes fact :: "'s \<Rightarrow> bool"
  assumes fact_step: "inv s \<Longrightarrow> fact s \<Longrightarrow> step s l s' \<Longrightarrow> fact s'"
begin

lemma fact_reach: "reach s step ls s' \<Longrightarrow> inv s \<Longrightarrow> fact s \<Longrightarrow> inv s' \<and> fact s'"
  by (induction rule: reach.induct) (auto intro: inv_step fact_step)

end

end
