(* ===== verification/Pool.thy ===== *)
theory Pool
  imports Deploy Transition
begin

text \<open>
  \<open>src/pkg/orchestrate/deploy/pool.go\<close> and \<open>worker.go\<close>: the asynchronous execution of deployments.

  The goroutines (the callers of \<open>Add\<close>, \<open>Cancel\<close> and \<open>Stop\<close>, the scheduler, the workers) communicate
  by two buffered channels.  Each channel operation, each critical section and each call of
  \<open>Process\<close> is one step of a transition system; a send on a closed channel panics.  Rate limiting
  only delays steps.  The lists \<open>plAdded\<close>, \<open>plSucceeded\<close> and \<open>plSkipped\<close> record what happened and
  are not part of the program.
\<close>

definition poolCapacity :: nat where "poolCapacity = 1024"

definition DefaultNrWorkers :: nat where "DefaultNrWorkers = 2"

datatype worker_state = WIdle | WBusy request | WResend request | WDone

datatype sched_state = SIdle | SHold request | SDone

record ('b, 'w) pool =
  plWorkers :: "worker_state list"
  plSched :: sched_state
  plQueue :: "request list"
  plFeedback :: "request list"
  plClosed :: bool
  plQueueClosed :: bool
  plFeedbackClosed :: bool
  plCancelled :: "string list"
  plState :: "'b db \<times> 'w"
  plPanicked :: bool
  plAdded :: "request list"
  plSucceeded :: "request list"
  plSkipped :: "request list"

definition NewPool :: "'b db \<times> 'w \<Rightarrow> ('b, 'w) pool" where
  "NewPool st = \<lparr>plWorkers = replicate DefaultNrWorkers WIdle, plSched = SIdle, plQueue = [], plFeedback = [],
     plClosed = False, plQueueClosed = False, plFeedbackClosed = False, plCancelled = [], plState = st, plPanicked = False,
     plAdded = [], plSucceeded = [], plSkipped = []\<rparr>"

subsection \<open>The steps\<close>

text \<open>\<open>Add\<close> saves the deployment and then sends its requests one by one.\<close>

definition PoolAdd_save :: "'b bolt \<Rightarrow> deployment \<Rightarrow> ('b, 'w) pool \<Rightarrow> error + ('b, 'w) pool" where
  "PoolAdd_save B d p =
     (case plState p of (db, w) \<Rightarrow>
      (case SaveDeployment B d db of Inl e \<Rightarrow> Inl e | Inr db' \<Rightarrow> Inr (p\<lparr>plState := (db', w)\<rparr>)))"

definition send_feedback :: "request \<Rightarrow> ('b, 'w) pool \<Rightarrow> ('b, 'w) pool option" where
  "send_feedback r p =
     (if plFeedbackClosed p then Some (p\<lparr>plPanicked := True\<rparr>)
      else if length (plFeedback p) < poolCapacity then Some (p\<lparr>plFeedback := plFeedback p @ [r]\<rparr>)
      else None)"

definition PoolCancel :: "deployment \<Rightarrow> ('b, 'w) pool \<Rightarrow> ('b, 'w) pool" where
  "PoolCancel d p = p\<lparr>plCancelled := map GetSubjectId (dpRequests d) @ plCancelled p\<rparr>"

definition IsCancelled :: "('b, 'w) pool \<Rightarrow> request \<Rightarrow> bool" where
  "IsCancelled p r \<longleftrightarrow> GetSubjectId r \<in> set (plCancelled p)"

text \<open>The scheduler: a receive from \<open>feedback\<close> (a closed and empty channel yields nil), then a send to
  \<open>queue\<close> unless the request is cancelled.\<close>

definition sched_receive :: "('b, 'w) pool \<Rightarrow> ('b, 'w) pool option" where
  "sched_receive p =
     (case plFeedback p of
        [] \<Rightarrow> if plFeedbackClosed p then Some (p\<lparr>plSched := SDone\<rparr>) else None
      | r # rs \<Rightarrow>
          if IsCancelled p r then Some (p\<lparr>plFeedback := rs, plSkipped := plSkipped p @ [r]\<rparr>)
          else Some (p\<lparr>plFeedback := rs, plSched := SHold r\<rparr>))"

definition sched_send :: "request \<Rightarrow> ('b, 'w) pool \<Rightarrow> ('b, 'w) pool option" where
  "sched_send r p =
     (if plQueueClosed p then Some (p\<lparr>plPanicked := True\<rparr>)
      else if length (plQueue p) < poolCapacity then Some (p\<lparr>plQueue := plQueue p @ [r], plSched := SIdle\<rparr>)
      else None)"

text \<open>A worker: a receive from \<open>queue\<close>, the processing of the request, and for a failed request a send
  back to \<open>feedback\<close>.\<close>

definition worker_receive :: "nat \<Rightarrow> ('b, 'w) pool \<Rightarrow> ('b, 'w) pool option" where
  "worker_receive i p =
     (case plQueue p of
        [] \<Rightarrow> if plQueueClosed p then Some (p\<lparr>plWorkers := (plWorkers p)[i := WDone]\<rparr>) else None
      | r # rs \<Rightarrow> Some (p\<lparr>plQueue := rs, plWorkers := (plWorkers p)[i := WBusy r]\<rparr>))"

definition worker_process :: "('b, 'w) request_context \<Rightarrow> nat \<Rightarrow> request \<Rightarrow> ('b, 'w) pool \<Rightarrow> ('b, 'w) pool" where
  "worker_process ctx i r p =
     (case Process ctx r (plState p) of
        (None, st) \<Rightarrow> p\<lparr>plState := st, plWorkers := (plWorkers p)[i := WIdle], plSucceeded := plSucceeded p @ [r]\<rparr>
      | (Some (Err _), st) \<Rightarrow> p\<lparr>plState := st, plWorkers := (plWorkers p)[i := WResend r]\<rparr>
      | (Some (Panic _), st) \<Rightarrow> p\<lparr>plState := st, plPanicked := True\<rparr>)"

datatype pool_event =
    PeAdd request | PeCancel deployment | PeSchedReceive | PeSchedSend | PeSchedStop
  | PeWorkerReceive nat | PeWorkerProcess nat | PeWorkerResend nat
  | PeClose | PeCloseQueue | PeCloseFeedback

inductive pool_step :: "('b, 'w) request_context \<Rightarrow> ('b, 'w) pool \<Rightarrow> pool_event \<Rightarrow> ('b, 'w) pool \<Rightarrow> bool"
  for ctx :: "('b, 'w) request_context" where
  add: "\<not> plPanicked p \<Longrightarrow> send_feedback r p = Some p' \<Longrightarrow>
    pool_step ctx p (PeAdd r) (p'\<lparr>plAdded := plAdded p' @ [r]\<rparr>)"
| cancel: "\<not> plPanicked p \<Longrightarrow> pool_step ctx p (PeCancel d) (PoolCancel d p)"
| sched_receive: "\<not> plPanicked p \<Longrightarrow> plSched p = SIdle \<Longrightarrow> sched_receive p = Some p' \<Longrightarrow>
    pool_step ctx p PeSchedReceive p'"
| sched_send: "\<not> plPanicked p \<Longrightarrow> plSched p = SHold r \<Longrightarrow> sched_send r p = Some p' \<Longrightarrow>
    pool_step ctx p PeSchedSend p'"
| sched_stop: "\<not> plPanicked p \<Longrightarrow> plClosed p \<Longrightarrow> plSched p \<noteq> SDone \<Longrightarrow>
    pool_step ctx p PeSchedStop (p\<lparr>plSched := SDone\<rparr>)"
| worker_receive: "\<not> plPanicked p \<Longrightarrow> i < length (plWorkers p) \<Longrightarrow> plWorkers p ! i = WIdle \<Longrightarrow>
    worker_receive i p = Some p' \<Longrightarrow> pool_step ctx p (PeWorkerReceive i) p'"
| worker_process: "\<not> plPanicked p \<Longrightarrow> i < length (plWorkers p) \<Longrightarrow> plWorkers p ! i = WBusy r \<Longrightarrow>
    pool_step ctx p (PeWorkerProcess i) (worker_process ctx i r p)"
| worker_resend: "\<not> plPanicked p \<Longrightarrow> i < length (plWorkers p) \<Longrightarrow> plWorkers p ! i = WResend r \<Longrightarrow>
    send_feedback r p = Some p' \<Longrightarrow> pool_step ctx p (PeWorkerResend i) (p'\<lparr>plWorkers := (plWorkers p')[i := WIdle]\<rparr>)"
| stop_close: "\<not> plPanicked p \<Longrightarrow> \<not> plClosed p \<Longrightarrow> pool_step ctx p PeClose (p\<lparr>plClosed := True\<rparr>)"
| stop_queue: "\<not> plPanicked p \<Longrightarrow> plClosed p \<Longrightarrow> \<not> plQueueClosed p \<Longrightarrow>
    pool_step ctx p PeCloseQueue (p\<lparr>plQueueClosed := True\<rparr>)"
| stop_feedback: "\<not> plPanicked p \<Longrightarrow> plQueueClosed p \<Longrightarrow> \<not> plFeedbackClosed p \<Longrightarrow>
    pool_step ctx p PeCloseFeedback (p\<lparr>plFeedbackClosed := True\<rparr>)"

inductive_cases pool_stepE: "pool_step ctx p ev p'"

text \<open>The tracker reads every stored rollout, asks its provider for the status and changes the decoded
  copy, which it never writes back: the result here is that copy.\<close>

definition trackRollout :: "('b, 'w) request_context \<Rightarrow> raw \<Rightarrow> 'w \<Rightarrow> error + rollout option" where
  "trackRollout ctx value w =
     (case DeserializeRollout value of
        Inl e \<Rightarrow> Inr None
      | Inr ro \<Rightarrow>
          (case ForKey (rcProviders ctx) (roInstanceKey ro) of
             Inl e \<Rightarrow> Inr None
           | Inr prov \<Rightarrow>
               (case NewReference (roInstanceId ro) (roInstanceKey ro) of
                  Inl e \<Rightarrow> Inl e
                | Inr ref \<Rightarrow>
                    Inr (Some (case prGetStatus prov ref w of
                       Inl e \<Rightarrow> ro\<lparr>roStatus := Some \<lparr>rsShort = RsError, rsDetails = RNil\<rparr>\<rparr>
                     | Inr None \<Rightarrow> ro\<lparr>roStatus := Some \<lparr>rsShort = RsPending, rsDetails = RNil\<rparr>\<rparr>
                     | Inr (Some st) \<Rightarrow>
                         if roStatus ro \<noteq> None \<and> GetShort (roStatus ro) \<noteq> stShort st then UpdateStatus ro st else ro)))))"

subsection \<open>No request is lost\<close>

fun held :: "worker_state \<Rightarrow> request list" where
  "held (WBusy r) = [r]" | "held (WResend r) = [r]" | "held WIdle = []" | "held WDone = []"

fun held_sched :: "sched_state \<Rightarrow> request list" where
  "held_sched (SHold r) = [r]" | "held_sched SIdle = []" | "held_sched SDone = []"

definition in_flight :: "('b, 'w) pool \<Rightarrow> request multiset" where
  "in_flight p = mset (plFeedback p) + mset (held_sched (plSched p)) + mset (plQueue p) + mset (concat (map held (plWorkers p)))"

definition pool_inv :: "('b, 'w) pool \<Rightarrow> bool" where
  "pool_inv p \<longleftrightarrow>
     (plQueueClosed p \<longrightarrow> plClosed p) \<and> (plFeedbackClosed p \<longrightarrow> plQueueClosed p) \<and>
     length (plQueue p) \<le> poolCapacity \<and> length (plFeedback p) \<le> poolCapacity \<and>
     (\<not> plClosed p \<and> \<not> plPanicked p \<longrightarrow>
        plSched p \<noteq> SDone \<and> WDone \<notin> set (plWorkers p) \<and>
        mset (plAdded p) = mset (plSucceeded p) + mset (plSkipped p) + in_flight p)"

lemma mset_workers_update:
  "i < length ws \<Longrightarrow> mset (concat (map held (ws[i := x]))) + mset (held (ws ! i)) = mset (concat (map held ws)) + mset (held x)"
proof (induction ws arbitrary: i)
  case (Cons a ws)
  then show ?case by (cases i) (auto simp: algebra_simps)
qed simp

lemma worker_update:
  assumes "i < length ws" and "held (ws ! i) = [r]"
  shows "mset (concat (map held ws)) = add_mset r (mset (concat (map held (ws[i := WIdle]))))"
  using mset_workers_update [OF assms(1), of WIdle] assms(2) by simp

lemma worker_same:
  assumes "i < length ws" and "held (ws ! i) = held x"
  shows "mset (concat (map held (ws[i := x]))) = mset (concat (map held ws))"
  using mset_workers_update [OF assms(1), of x] assms(2) by simp

lemma worker_take:
  assumes "i < length ws" and "ws ! i = WIdle"
  shows "mset (concat (map held (ws[i := WBusy r]))) = add_mset r (mset (concat (map held ws)))"
  using mset_workers_update [OF assms(1), of "WBusy r"] assms(2) by simp

lemma not_done_update: "WDone \<notin> set ws \<Longrightarrow> x \<noteq> WDone \<Longrightarrow> WDone \<notin> set (ws[i := x])"
  using set_update_subset_insert [of ws i x] by auto

lemma send_feedback_cases:
  "send_feedback r p = Some p' \<Longrightarrow>
   plFeedbackClosed p \<and> p' = p\<lparr>plPanicked := True\<rparr> \<or>
   \<not> plFeedbackClosed p \<and> length (plFeedback p) < poolCapacity \<and> p' = p\<lparr>plFeedback := plFeedback p @ [r]\<rparr>"
  by (auto simp: send_feedback_def split: if_splits)

lemma pool_inv_step:
  assumes inv: "pool_inv p" and st: "pool_step ctx p ev p'"
  shows "pool_inv p'"
  using st
proof cases
  case (add r q)
  from send_feedback_cases [OF add(4)] show ?thesis
    using inv add(2) by (auto simp: pool_inv_def in_flight_def)
next
  case (cancel d)
  then show ?thesis using inv by (simp add: pool_inv_def PoolCancel_def in_flight_def)
next
  case sched_receive
  then show ?thesis using inv
    by (auto simp: pool_inv_def sched_receive_def in_flight_def split: list.splits if_splits)
next
  case (sched_send r)
  then show ?thesis using inv
    by (auto simp: pool_inv_def sched_send_def in_flight_def split: if_splits)
next
  case sched_stop
  then show ?thesis using inv by (auto simp: pool_inv_def)
next
  case (worker_receive i)
  then show ?thesis using inv
    by (auto simp: pool_inv_def worker_receive_def in_flight_def worker_take split: list.splits if_splits
        dest!: set_update_subset_insert [THEN subsetD])
next
  case (worker_process i r)
  have "held (plWorkers p ! i) = [r]" using worker_process by simp
  note w = worker_update [OF worker_process(4) this] worker_same [OF worker_process(4), of "WResend r"]
  show ?thesis using inv worker_process w not_done_update [of "plWorkers p"]
    by (auto simp: pool_inv_def worker_process_def in_flight_def split: option.splits error.splits prod.splits)
next
  case (worker_resend i r q)
  have "held (plWorkers p ! i) = [r]" using worker_resend by simp
  note w = worker_update [OF worker_resend(4) this]
  from send_feedback_cases [OF worker_resend(6)] show ?thesis
    using inv worker_resend(2) w not_done_update [of "plWorkers p" WIdle i] by (auto simp: pool_inv_def in_flight_def)
next
  case stop_close
  then show ?thesis using inv by (auto simp: pool_inv_def)
next
  case stop_queue
  then show ?thesis using inv by (simp add: pool_inv_def)
next
  case stop_feedback
  then show ?thesis using inv by (simp add: pool_inv_def)
qed

lemma pool_inv_NewPool: "pool_inv (NewPool st)"
  by (simp add: pool_inv_def NewPool_def in_flight_def DefaultNrWorkers_def numeral_2_eq_2)

interpretation wp: invariant_system "NewPool st" "pool_step ctx" pool_inv for st ctx
  by unfold_locales (rule pool_inv_NewPool, rule pool_inv_step)

text \<open>C31: As long as the pool has not been stopped, every request that was added is accounted for: it has
  succeeded, was skipped because it was cancelled, or is still in exactly one of the channels or
  held by one goroutine; the channels never exceed their capacity.\<close>

theorem pool_conserves_requests:
  assumes "reach (NewPool st) (pool_step ctx) evs p" and "\<not> plClosed p" and "\<not> plPanicked p"
  shows "mset (plAdded p) = mset (plSucceeded p) + mset (plSkipped p) + in_flight p \<and>
         length (plQueue p) \<le> poolCapacity \<and> length (plFeedback p) \<le> poolCapacity"
  using wp.inv_reach [OF assms(1)] assms(2,3) by (simp add: pool_inv_def)

text \<open>Witness of \<open>pool_conserves_requests\<close>: one added request waits in the feedback channel.\<close>

theorem pool_conserves_requests_witness:
  "\<exists>ctx :: (unit, unit) request_context. \<exists>p. \<exists>st. reach (NewPool st) (pool_step ctx) [PeAdd (DeleteRequest ''a'' ''k'')] p \<and>
     mset (plAdded p) = mset (plSucceeded p) + mset (plSkipped p) + in_flight p"
proof -
  let ?r = "DeleteRequest ''a'' ''k''"
  fix ctx :: "(unit, unit) request_context" and st :: "unit db \<times> unit"
  let ?q = "(NewPool st)\<lparr>plFeedback := [?r]\<rparr>" let ?p = "?q\<lparr>plAdded := plAdded ?q @ [?r]\<rparr>"
  have "send_feedback ?r (NewPool st) = Some ?q" by (simp add: send_feedback_def NewPool_def poolCapacity_def)
  then have "pool_step ctx (NewPool st) (PeAdd ?r) ?p" by (intro pool_step.add) (simp add: NewPool_def)
  then have "reach (NewPool st) (pool_step ctx) ([] @ [PeAdd ?r]) ?p"
    by (rule reach.more [where step = "pool_step ctx", OF reach.start])
  moreover from this have "mset (plAdded ?p) = mset (plSucceeded ?p) + mset (plSkipped ?p) + in_flight ?p"
    using pool_conserves_requests [of st ctx "[] @ [PeAdd ?r]" ?p] by (simp add: NewPool_def)
  ultimately show ?thesis by (intro exI [of _ ctx] exI [of _ ?p] exI [of _ st]) simp
qed

text \<open>A failing request is never given up: it goes round between the worker and the channels until the
  pool stops.  Stopping closes the channels while workers may still send to them.\<close>

definition failing_ctx :: "(unit, unit) request_context" where
  "failing_ctx = \<lparr>rcBolt = \<lparr>bGet = \<lambda>b k. None, bPut = \<lambda>b k v. Inr b, bDelete = \<lambda>b k. Inr b, bKeys = \<lambda>b. []\<rparr>,
     rcRegistry = [], rcProviders = NewProviderRegistry []\<rparr>"

definition bad_request :: request where
  "bad_request = CreateRequest ''a'' RNil ''unknown/v1/Kind''"

lemma bad_request_fails: "\<exists>s. Process failing_ctx bad_request st = (Some (Err s), st)"
  by (cases st) (simp add: bad_request_def failing_ctx_def ProcessCreate_def LoadInstance_def GetDefinition_def)

text \<open>Stopping the pool while a worker handles a request that fails panics: the worker sends the
  request back on a channel that \<open>Stop\<close> has closed.\<close>

theorem pool_stop_panics:
  "\<exists>evs p. reach (NewPool st) (pool_step failing_ctx) evs p \<and> PeClose \<in> set evs \<and> plPanicked p"
proof -
  let ?r = bad_request
  obtain s where fails: "Process failing_ctx ?r st = (Some (Err s), st)" using bad_request_fails by blast
  define p0 where "p0 = NewPool st"
  define p1 where "p1 = p0\<lparr>plFeedback := [?r], plAdded := [?r]\<rparr>"
  define p2 where "p2 = p1\<lparr>plFeedback := [], plSched := SHold ?r\<rparr>"
  define p3 where "p3 = p2\<lparr>plQueue := [?r], plSched := SIdle\<rparr>"
  define p4 where "p4 = p3\<lparr>plQueue := [], plWorkers := [WBusy ?r, WIdle]\<rparr>"
  define p5 where "p5 = p4\<lparr>plWorkers := [WResend ?r, WIdle]\<rparr>"
  define p6 where "p6 = p5\<lparr>plClosed := True\<rparr>"
  define p7 where "p7 = p6\<lparr>plQueueClosed := True\<rparr>"
  define p8 where "p8 = p7\<lparr>plFeedbackClosed := True\<rparr>"
  define p9 where "p9 = p8\<lparr>plPanicked := True, plWorkers := [WIdle, WIdle]\<rparr>"
  note defs = p0_def p1_def p2_def p3_def p4_def p5_def p6_def p7_def p8_def p9_def NewPool_def DefaultNrWorkers_def
    poolCapacity_def numeral_2_eq_2
  have s1: "pool_step failing_ctx p0 (PeAdd ?r) p1"
    using pool_step.add [of p0 ?r "p0\<lparr>plFeedback := [?r]\<rparr>"] by (simp add: defs send_feedback_def)
  have s2: "pool_step failing_ctx p1 PeSchedReceive p2"
    by (rule pool_step.sched_receive) (simp_all add: defs sched_receive_def IsCancelled_def)
  have s3: "pool_step failing_ctx p2 PeSchedSend p3"
    by (rule pool_step.sched_send [where r = ?r]) (simp_all add: defs sched_send_def)
  have s4: "pool_step failing_ctx p3 (PeWorkerReceive 0) p4"
    by (rule pool_step.worker_receive) (simp_all add: defs worker_receive_def)
  have "worker_process failing_ctx 0 ?r p4 = p5" using fails by (simp add: worker_process_def defs)
  then have s5: "pool_step failing_ctx p4 (PeWorkerProcess 0) p5"
    using pool_step.worker_process [of p4 0 ?r failing_ctx] by (simp add: defs)
  have s6: "pool_step failing_ctx p5 PeClose p6" unfolding p6_def by (rule pool_step.stop_close) (simp_all add: defs)
  have s7: "pool_step failing_ctx p6 PeCloseQueue p7" unfolding p7_def by (rule pool_step.stop_queue) (simp_all add: defs)
  have s8: "pool_step failing_ctx p7 PeCloseFeedback p8" unfolding p8_def by (rule pool_step.stop_feedback) (simp_all add: defs)
  have s9: "pool_step failing_ctx p8 (PeWorkerResend 0) p9"
    using pool_step.worker_resend [of p8 0 ?r "p8\<lparr>plPanicked := True\<rparr>"] by (simp add: defs send_feedback_def)
  note more = reach.more [where init = p0 and step = "pool_step failing_ctx"]
  have "reach p0 (pool_step failing_ctx) ((((((((([] @ [PeAdd ?r]) @ [PeSchedReceive]) @ [PeSchedSend]) @ [PeWorkerReceive 0]) @
      [PeWorkerProcess 0]) @ [PeClose]) @ [PeCloseQueue]) @ [PeCloseFeedback]) @ [PeWorkerResend 0]) p9"
    by (intro more [OF _ s9] more [OF _ s8] more [OF _ s7] more [OF _ s6] more [OF _ s5] more [OF _ s4] more [OF _ s3]
        more [OF _ s2] more [OF _ s1] reach.start)
  moreover have "plPanicked p9" by (simp add: p9_def)
  ultimately show ?thesis unfolding p0_def by (intro exI conjI) auto
qed

end
