(* ===== verification/Engine.thy ===== *)
theory Engine
  imports Resources Pool
begin

text \<open>
  \<open>src/pkg/orchestrate/engine.go\<close> and \<open>graph.go\<close>: the engine puts the database, the registry and
  the planner together, looks for drift, rolls back to an earlier deployment and answers queries
  on the stored dependency graph.
\<close>

subsection \<open>State, plans and deployments\<close>

fun collect_rollouts :: "'b bolt \<Rightarrow> 'b db \<Rightarrow> string list \<Rightarrow> rollout list" where
  "collect_rollouts B db [] = []"
| "collect_rollouts B db (key # keys) =
     (case LoadRollout B db key of
        Inr (Some r) \<Rightarrow> r # collect_rollouts B db keys
      | _ \<Rightarrow> collect_rollouts B db keys)"

definition EngineState :: "'b bolt \<Rightarrow> 'b db \<Rightarrow> rollout list" where
  "EngineState B db = collect_rollouts B db (Keys B db RolloutsById)"

definition EnginePlan :: "'b bolt \<Rightarrow> 'b db \<Rightarrow> string \<Rightarrow> deployment \<Rightarrow> condition_map \<Rightarrow> error + plan" where
  "EnginePlan B db uid desired conditions = ComputePlan uid desired (EngineState B db) conditions"

text \<open>\<open>Apply\<close> checks the references, stores the links and hands the deployment to the pool.\<close>

definition EngineApply :: "('b, 'w) request_context \<Rightarrow> deployment \<Rightarrow> ('b, 'w) pool \<Rightarrow> error option \<times> ('b, 'w) pool \<times> request list" where
  "EngineApply ctx d p =
     (case plState p of (db, w) \<Rightarrow>
      (case CheckReferences ctx db d of
         Inl e \<Rightarrow> (Some e, p, [])
       | Inr errs \<Rightarrow>
           if length errs > 0 then (Some (Err ''reference check failed''), p, [])
           else case PersistLinks (rcBolt ctx) d db of
             (Some e, db1) \<Rightarrow> (Some e, p\<lparr>plState := (db1, w)\<rparr>, [])
           | (None, db1) \<Rightarrow>
               (case PoolAdd_save (rcBolt ctx) d (p\<lparr>plState := (db1, w)\<rparr>) of
                  Inl e \<Rightarrow> (Some e, p\<lparr>plState := (db1, w)\<rparr>, [])
                | Inr p' \<Rightarrow> (None, p', dpRequests d))))"

fun collect_deployments :: "'b bolt \<Rightarrow> 'b db \<Rightarrow> string list \<Rightarrow> deployment list" where
  "collect_deployments B db [] = []"
| "collect_deployments B db (key # keys) =
     (case LoadDeployment B db key of
        Inr d \<Rightarrow> d # collect_deployments B db keys
      | Inl e \<Rightarrow> collect_deployments B db keys)"

definition ListDeployments :: "'b bolt \<Rightarrow> 'b db \<Rightarrow> deployment list" where
  "ListDeployments B db = collect_deployments B db (Keys B db DeploymentsById)"

definition rollback_desired :: "string \<Rightarrow> deployment \<Rightarrow> deployment" where
  "rollback_desired uid d =
     (NewDeployment uid)\<lparr>dpRequests := filter (\<lambda>req. GetType req = RequestTypeCreate) (dpRequests d),
        dpDependencies := dpDependencies d, dpReferences := dpReferences d\<rparr>"

definition EngineRollback :: "(nat \<Rightarrow> bool) \<Rightarrow> ('b, 'w) request_context \<Rightarrow> ('b, 'w) waits \<Rightarrow> string \<Rightarrow> string \<Rightarrow> string \<Rightarrow> bool \<Rightarrow>
    'b db \<times> 'w \<Rightarrow> (error + plan) \<times> 'b db \<times> 'w" where
  "EngineRollback cancelled ctx W uid1 uid2 deploymentID dryRun st =
     (case st of (db, w) \<Rightarrow>
      (case LoadDeployment (rcBolt ctx) db deploymentID of
         Inl e \<Rightarrow> (Inl e, db, w)
       | Inr d \<Rightarrow>
           (case ComputePlan uid2 (rollback_desired uid1 d) (EngineState (rcBolt ctx) db) [] of
              Inl e \<Rightarrow> (Inl e, db, w)
            | Inr plan \<Rightarrow>
                if dryRun then (Inr plan, db, w)
                else case ApplySync cancelled ctx W plan (db, w) of
                       (Some e, db', w') \<Rightarrow> (Inl e, db', w')
                     | (None, db', w') \<Rightarrow> (Inr plan, db', w'))))"

subsection \<open>Drift\<close>

record drift_result =
  drResourceID :: string
  drKey :: definition_key
  drExpected :: rollout_short
  drActual :: rollout_short
  drReason :: string

text \<open>Both attempts decode the body into a struct with one relevant field.\<close>

definition dec_version :: "(string \<times> json) list \<Rightarrow> string option" where
  "dec_version kvs = dec_field dec_str '''' ''version'' kvs"

definition extractVersionFromBody :: "raw \<Rightarrow> string" where
  "extractVersionFromBody body =
     (case unmarshal_struct ''version'' dec_version body of
        Inr v \<Rightarrow> if v \<noteq> '''' then v else
          (case unmarshal_struct ''container'' (dec_field (\<lambda>j. case j of JObj kvs \<Rightarrow> dec_version kvs | _ \<Rightarrow> None) '''' ''container'') body of
             Inr v' \<Rightarrow> v' | Inl _ \<Rightarrow> '''')
      | Inl _ \<Rightarrow>
          (case unmarshal_struct ''container'' (dec_field (\<lambda>j. case j of JObj kvs \<Rightarrow> dec_version kvs | _ \<Rightarrow> None) '''' ''container'') body of
             Inr v' \<Rightarrow> v' | Inl _ \<Rightarrow> ''''))"

text \<open>The type switch on \<open>*ContainerDefinition\<close> is a test of the key: no other definition has it.\<close>

definition getProviderStatus :: "'w cri_client option \<Rightarrow> 'w rdef \<Rightarrow> rollout \<Rightarrow> 'w \<Rightarrow> error + status" where
  "getProviderStatus client def r w =
     (case NewReference (roInstanceId r) (roInstanceKey r) of
        Inl e \<Rightarrow> Inl e
      | Inr ref \<Rightarrow>
          if defKey def = ContainerKey then GetProviderStatusWithVersion client ref (extractVersionFromBody (roBody r)) w
          else defGetProviderStatus def ref w)"

definition status_message :: "status \<Rightarrow> string" where
  "status_message s = (case stDetails s of RDoc (JStr m) \<Rightarrow> m | _ \<Rightarrow> '''')"

definition checkRolloutDrift :: "'w cri_client option \<Rightarrow> 'w registry \<Rightarrow> rollout \<Rightarrow> 'w \<Rightarrow> drift_result option" where
  "checkRolloutDrift client reg r w =
     (case roStatus r of
        None \<Rightarrow> None
      | Some st \<Rightarrow>
          if rsShort st \<noteq> RsSuccess \<and> rsShort st \<noteq> RsRunning then None
          else case GetDefinition reg (roInstanceKey r) of
            Inl e \<Rightarrow> None
          | Inr def \<Rightarrow>
              (case getProviderStatus client def r w of
                 Inl e \<Rightarrow> None
               | Inr act \<Rightarrow>
                   if stShort act = RsSuccess \<or> stShort act = RsRunning then None
                   else Some \<lparr>drResourceID = roInstanceId r, drKey = roInstanceKey r, drExpected = rsShort st,
                          drActual = stShort act, drReason = status_message act\<rparr>))"

definition DriftCheck :: "'w cri_client option \<Rightarrow> 'w registry \<Rightarrow> 'b bolt \<Rightarrow> 'b db \<Rightarrow> 'w \<Rightarrow> drift_result list" where
  "DriftCheck client reg B db w = List.map_filter (\<lambda>r. checkRolloutDrift client reg r w) (EngineState B db)"

subsection \<open>Graph queries\<close>

record graph_node =
  gnID :: string
  gnKind :: string
  gnStatus :: string

definition kindFromKey :: "definition_key \<Rightarrow> error + string" where
  "kindFromKey key = (case GetGVK key of Inl e \<Rightarrow> Inl e | Inr g \<Rightarrow> Inr (gvkKind g))"

definition rolloutToNode :: "rollout \<Rightarrow> error + graph_node" where
  "rolloutToNode r =
     (case kindFromKey (roInstanceKey r) of
        Inl e \<Rightarrow> Inl e
      | Inr kind \<Rightarrow> Inr \<lparr>gnID = roInstanceId r, gnKind = kind, gnStatus = GetShort (roStatus r)\<rparr>)"

text \<open>\<open>lookupNode\<close>: \<open>None\<close> for a rollout that is not found, an error for a key that makes \<open>GetGVK\<close> panic.\<close>

definition lookupNode :: "'b bolt \<Rightarrow> 'b db \<Rightarrow> string \<Rightarrow> error + graph_node option" where
  "lookupNode B db i =
     (case LoadRollout B db i of
        Inr (Some r) \<Rightarrow> (case rolloutToNode r of Inl e \<Rightarrow> Inl e | Inr n \<Rightarrow> Inr (Some n))
      | _ \<Rightarrow> Inr None)"

definition node_for :: "'b bolt \<Rightarrow> 'b db \<Rightarrow> reference \<Rightarrow> error + graph_node" where
  "node_for B db r =
     (case lookupNode B db (refId r) of
        Inl e \<Rightarrow> Inl e
      | Inr (Some n) \<Rightarrow> Inr n
      | Inr None \<Rightarrow> Inr \<lparr>gnID = refId r, gnKind = refKey r, gnStatus = ''UNKNOWN''\<rparr>)"

text \<open>The traversal, over any neighbour function and any lookup of nodes.  A round takes one id from the
  queue; the number of rounds is bounded by fuel, and theorem \<open>bfsTraverse_reachable\<close> says how much is
  enough.\<close>

fun visit_refs :: "(reference \<Rightarrow> error + 'n) \<Rightarrow> reference list \<Rightarrow> string list \<Rightarrow> string list \<Rightarrow> 'n list \<Rightarrow>
    error + string list \<times> string list \<times> 'n list" where
  "visit_refs node [] visited queue result = Inr (visited, queue, result)"
| "visit_refs node (r # rs) visited queue result =
     (if refId r \<in> set visited then visit_refs node rs visited queue result
      else case node r of
             Inl e \<Rightarrow> Inl e
           | Inr n \<Rightarrow> visit_refs node rs (visited @ [refId r]) (queue @ [refId r]) (result @ [n]))"

fun bfs_loop :: "(string \<Rightarrow> error + reference list) \<Rightarrow> (reference \<Rightarrow> error + 'n) \<Rightarrow> nat \<Rightarrow> string list \<Rightarrow> string list \<Rightarrow> 'n list \<Rightarrow>
    (error + 'n list) option" where
  "bfs_loop neighbors node fuel visited [] result = Some (Inr result)"
| "bfs_loop neighbors node 0 visited (current # queue) result = None"
| "bfs_loop neighbors node (Suc fuel) visited (current # queue) result =
     (if current = '''' then Some (Inl (Panic ''reference has no id''))
      else case neighbors current of
        Inl e \<Rightarrow> bfs_loop neighbors node fuel visited queue result
      | Inr refs \<Rightarrow>
          (case visit_refs node refs visited queue result of
             Inl e \<Rightarrow> Some (Inl e)
           | Inr (visited', queue', result') \<Rightarrow> bfs_loop neighbors node fuel visited' queue' result'))"

definition bfsTraverse :: "(string \<Rightarrow> error + reference list) \<Rightarrow> (reference \<Rightarrow> error + 'n) \<Rightarrow> nat \<Rightarrow> string \<Rightarrow> (error + 'n list) option" where
  "bfsTraverse neighbors node fuel resourceID = bfs_loop neighbors node fuel [resourceID] [resourceID] []"

definition TransitiveDeps :: "'b bolt \<Rightarrow> 'b db \<Rightarrow> nat \<Rightarrow> string \<Rightarrow> (error + graph_node list) option" where
  "TransitiveDeps B db fuel resourceID = bfsTraverse (GetDependencies B db) (node_for B db) fuel resourceID"

definition TransitiveDependents :: "'b bolt \<Rightarrow> 'b db \<Rightarrow> nat \<Rightarrow> string \<Rightarrow> (error + graph_node list) option" where
  "TransitiveDependents B db fuel resourceID = bfsTraverse (GetDepending B db) (node_for B db) fuel resourceID"

fun all_nodes :: "rollout list \<Rightarrow> error + graph_node list" where
  "all_nodes [] = Inr []"
| "all_nodes (r # rs) =
     (case rolloutToNode r of
        Inl e \<Rightarrow> Inl e
      | Inr n \<Rightarrow> (case all_nodes rs of Inl e \<Rightarrow> Inl e | Inr ns \<Rightarrow> Inr (n # ns)))"

definition EngineGraph :: "'b bolt \<Rightarrow> 'b db \<Rightarrow> error + graph_node list \<times> (string \<times> string) list" where
  "EngineGraph B db =
     (case all_nodes (EngineState B db) of
        Inl e \<Rightarrow> Inl e
      | Inr nodes \<Rightarrow>
          (case loadLinks B db of
             Inl e \<Rightarrow> Inl e
           | Inr ls \<Rightarrow> Inr (nodes, map (\<lambda>l. (refId (lkSource l), refId (lkTarget l))) ls)))"


subsection \<open>The traversal finds what is reachable, each resource once\<close>

definition succ_ids :: "(string \<Rightarrow> error + reference list) \<Rightarrow> string \<Rightarrow> string set" where
  "succ_ids neighbors i = (case neighbors i of Inl e \<Rightarrow> {} | Inr refs \<Rightarrow> refId ` set refs)"

definition nodes_of :: "(reference \<Rightarrow> error + 'n) \<Rightarrow> string list \<Rightarrow> 'n list \<Rightarrow> bool" where
  "nodes_of node = list_all2 (\<lambda>j n. \<exists>r. refId r = j \<and> node r = Inr n)"

lemma nodes_of_append: "nodes_of node js ns \<Longrightarrow> nodes_of node js' ns' \<Longrightarrow> nodes_of node (js @ js') (ns @ ns')"
  by (simp add: nodes_of_def list_all2_appendI)

lemma visit_refs_new:
  assumes "\<And>r. \<exists>n. node r = Inr n"
  shows "\<exists>new ns. visit_refs node rs visited queue result = Inr (visited @ new, queue @ new, result @ ns) \<and>
    distinct new \<and> set new = refId ` set rs - set visited \<and> nodes_of node new ns"
proof (induction rs arbitrary: visited queue result)
  case Nil
  show ?case by (auto simp: nodes_of_def)
next
  case (Cons r rs)
  show ?case
  proof (cases "refId r \<in> set visited")
    case True
    with Cons.IH [of visited queue result] show ?thesis by auto
  next
    case False
    obtain n where n: "node r = Inr n" using assms by blast
    from Cons.IH [of "visited @ [refId r]" "queue @ [refId r]" "result @ [n]"] obtain new ns where
      v: "visit_refs node rs (visited @ [refId r]) (queue @ [refId r]) (result @ [n]) =
          Inr ((visited @ [refId r]) @ new, (queue @ [refId r]) @ new, (result @ [n]) @ ns)"
      and "distinct new" "set new = refId ` set rs - set (visited @ [refId r])" "nodes_of node new ns"
      by blast
    then have "distinct (refId r # new)" "set (refId r # new) = refId ` set (r # rs) - set visited"
      "nodes_of node (refId r # new) (n # ns)"
      using False n by (auto simp: nodes_of_def)
    moreover have "visit_refs node (r # rs) visited queue result =
        Inr (visited @ (refId r # new), queue @ (refId r # new), result @ (n # ns))"
      using False n v by simp
    ultimately show ?thesis by blast
  qed
qed

text \<open>The state of the loop: the ids taken from the queue, followed by the queue, are the visited ids.\<close>

definition bfs_state :: "(string \<Rightarrow> error + reference list) \<Rightarrow> (reference \<Rightarrow> error + 'n) \<Rightarrow> string \<Rightarrow>
    string list \<Rightarrow> string list \<Rightarrow> 'n list \<Rightarrow> bool" where
  "bfs_state neighbors node s taken queue result \<longleftrightarrow>
     (\<exists>js. taken @ queue = s # js \<and> distinct (taken @ queue) \<and> nodes_of node js result \<and>
        set js \<subseteq> {(i, j). j \<in> succ_ids neighbors i}\<^sup>* `` {s} \<and>
        (\<forall>i\<in>set taken. succ_ids neighbors i \<subseteq> set (taken @ queue)))"

lemma bfs_stateI:
  assumes "taken @ queue = s # js" and "distinct (s # js)" and "nodes_of node js result"
    and "set js \<subseteq> {(i, j). j \<in> succ_ids neighbors i}\<^sup>* `` {s}"
    and "\<forall>i\<in>set taken. succ_ids neighbors i \<subseteq> set (s # js)"
  shows "bfs_state neighbors node s taken queue result"
  unfolding bfs_state_def assms(1) using assms(2-) by blast

lemma bfs_state_step:
  assumes "bfs_state neighbors node s taken (current # queue) result"
    and "distinct new" and "set new = succ_ids neighbors current - set (taken @ current # queue)"
    and "nodes_of node new ns"
  shows "bfs_state neighbors node s (taken @ [current]) (queue @ new) (result @ ns)"
proof -
  let ?R = "{(i, j). j \<in> succ_ids neighbors i}"
  from assms(1) obtain js where js: "taken @ current # queue = s # js" "distinct (s # js)" "nodes_of node js result"
    "set js \<subseteq> ?R\<^sup>* `` {s}" "\<forall>i\<in>set taken. succ_ids neighbors i \<subseteq> set (s # js)"
    unfolding bfs_state_def by metis
  have new: "set new = succ_ids neighbors current - set (s # js)" using assms(3) js(1) by metis
  have "current \<in> set (s # js)" by (metis js(1) in_set_conv_decomp)
  then have "(s, current) \<in> ?R\<^sup>*" using js(4) by auto
  then have "set new \<subseteq> ?R\<^sup>* `` {s}" using new by (auto intro: rtrancl_into_rtrancl)
  moreover have "(taken @ [current]) @ (queue @ new) = s # (js @ new)" using js(1) by simp
  moreover have "distinct (s # js @ new)" using js(2) assms(2) new by auto
  moreover have "\<forall>i\<in>set (taken @ [current]). succ_ids neighbors i \<subseteq> set (s # js @ new)" using js(5) new by auto
  moreover have "nodes_of node (js @ new) (result @ ns)" by (rule nodes_of_append [OF js(3) assms(4)])
  ultimately show ?thesis
    using js(4) by (intro bfs_stateI [of _ _ s "js @ new"]) auto
qed

lemma bfs_state_end:
  assumes "bfs_state neighbors node s taken [] result"
  shows "\<exists>js. distinct js \<and> set js = {(i, j). j \<in> succ_ids neighbors i}\<^sup>* `` {s} - {s} \<and> nodes_of node js result"
proof -
  let ?R = "{(i, j). j \<in> succ_ids neighbors i}"
  from assms obtain js where js: "taken = s # js" "distinct (s # js)" "nodes_of node js result"
    "set js \<subseteq> ?R\<^sup>* `` {s}" "\<forall>i\<in>set (s # js). succ_ids neighbors i \<subseteq> set (s # js)"
    unfolding bfs_state_def by auto
  have "j \<in> set (s # js)" if "(s, j) \<in> ?R\<^sup>*" for j
    using that
  proof induction
    case base
    show ?case by simp
  next
    case (step y z)
    then show ?case using js(5) by blast
  qed
  then have "set js = ?R\<^sup>* `` {s} - {s}" using js(2,4) by auto
  with js(2,3) show ?thesis by auto
qed

lemma bfs_loop_complete:
  assumes "\<And>r. \<exists>n. node r = Inr n" and "'''' \<notin> U" and "finite U" and "s \<in> U"
    and "\<And>i. i \<in> U \<Longrightarrow> succ_ids neighbors i \<subseteq> U"
    and "bfs_state neighbors node s taken queue result" and "set (taken @ queue) \<subseteq> U"
    and "card U \<le> fuel + length taken"
  shows "\<exists>js ns. bfs_loop neighbors node fuel (taken @ queue) queue result = Some (Inr ns) \<and> distinct js \<and>
    set js = {(i, j). j \<in> succ_ids neighbors i}\<^sup>* `` {s} - {s} \<and> nodes_of node js ns"
  using assms(6-)
proof (induction fuel arbitrary: taken queue result)
  case 0
  have "distinct (taken @ queue)" using "0.prems"(1) by (auto simp: bfs_state_def)
  then have "length (taken @ queue) \<le> card U"
    using "0.prems"(2) assms(3) by (metis card_mono distinct_card)
  with "0.prems"(3) have "queue = []" by (cases queue) auto
  with "0.prems"(1) bfs_state_end show ?case by fastforce
next
  case (Suc fuel)
  show ?case
  proof (cases queue)
    case Nil
    with Suc.prems(1) bfs_state_end show ?thesis by fastforce
  next
    case (Cons current queue')
    then have cur: "current \<in> U" "current \<noteq> ''''" using Suc.prems(2) assms(2) by auto
    obtain refs where refs: "set refs = (case neighbors current of Inl e \<Rightarrow> {} | Inr rs \<Rightarrow> set rs)"
      "\<forall>rs. neighbors current = Inr rs \<longrightarrow> refs = rs"
      by (cases "neighbors current") auto
    have succ: "refId ` set refs = succ_ids neighbors current"
      using refs(1) by (auto simp: succ_ids_def split: sum.splits)
    obtain new ns where new: "visit_refs node refs (taken @ queue) queue' result =
          Inr ((taken @ queue) @ new, queue' @ new, result @ ns)" "distinct new"
      "set new = refId ` set refs - set (taken @ queue)" "nodes_of node new ns"
      using visit_refs_new [of node refs "taken @ queue" queue' result, OF assms(1)] by blast
    have loop: "bfs_loop neighbors node (Suc fuel) (taken @ queue) queue result =
        bfs_loop neighbors node fuel ((taken @ [current]) @ (queue' @ new)) (queue' @ new) (result @ ns)"
    proof (cases "neighbors current")
      case (Inl e)
      then have "refs = []" using refs(1) by simp
      with new have "new = []" "ns = []" by auto
      with Inl Cons cur show ?thesis by simp
    next
      case (Inr rs)
      with refs(2) have "refs = rs" by simp
      with Inr Cons cur new(1) show ?thesis by simp
    qed
    have "bfs_state neighbors node s (taken @ [current]) (queue' @ new) (result @ ns)"
      using bfs_state_step [of neighbors node s taken current queue' result new ns] Suc.prems(1) new(2-4) Cons succ by simp
    moreover have "set ((taken @ [current]) @ (queue' @ new)) \<subseteq> U"
      using Suc.prems(2) Cons new(3) succ assms(5) [OF cur(1)] by auto
    ultimately show ?thesis
      using Suc.IH [of "taken @ [current]" "queue' @ new" "result @ ns"] Suc.prems(3) loop by simp
  qed
qed


lemma edges_of_finite:
  assumes "bolt_ok B"
  shows "finite (edges_of B b)"
proof -
  let ?T = "\<lambda>k. case loadTargets B b k of Inl _ \<Rightarrow> {} | Inr rl \<Rightarrow> refId ` set rl"
  have "edges_of B b \<subseteq> Sigma (set (bKeys B b)) ?T"
  proof (clarsimp simp: edges_of_def)
    fix x r rl
    assume "loadTargets B b x = Inr rl" "r \<in> set rl"
    moreover from this have "x \<in> dom (bGet B b)" by (auto simp: loadTargets_def split: option.splits)
    ultimately show "x \<in> set (bKeys B b)" using assms by (auto simp: bolt_ok_def)
  qed
  moreover have "finite (Sigma (set (bKeys B b)) ?T)" by (intro finite_SigmaI) (auto split: sum.splits)
  ultimately show ?thesis by (rule finite_subset)
qed

lemma succ_ids_links:
  assumes "links_ok B d"
  shows "{(i, j). j \<in> succ_ids (GetDependencies B d) i} = links B d"
    and "{(i, j). j \<in> succ_ids (GetDepending B d) i} = (links B d)\<inverse>"
proof -
  have "succ_ids (GetDependencies B d) i = links B d `` {i} \<and> succ_ids (GetDepending B d) i = (links B d)\<inverse> `` {i}" for i
    using link_queries_correct [OF assms, of i] by (auto simp: succ_ids_def)
  then show "{(i, j). j \<in> succ_ids (GetDependencies B d) i} = links B d"
    and "{(i, j). j \<in> succ_ids (GetDepending B d) i} = (links B d)\<inverse>" by auto
qed

text \<open>What the traversal answers for an id: the node of its rollout, or one made from the reference.\<close>

definition stored_node :: "'b bolt \<Rightarrow> 'b db \<Rightarrow> string \<Rightarrow> graph_node \<Rightarrow> bool" where
  "stored_node B db j n \<longleftrightarrow>
     lookupNode B db j = Inr (Some n) \<or> lookupNode B db j = Inr None \<and> gnID n = j \<and> gnStatus n = ''UNKNOWN''"

lemma node_for_stored: "node_for B db r = Inr n \<Longrightarrow> stored_node B db (refId r) n"
  by (cases "lookupNode B db (refId r)") (auto simp: node_for_def stored_node_def split: option.splits)

lemma nodes_of_stored: "nodes_of (node_for B db) js ns \<Longrightarrow> list_all2 (stored_node B db) js ns"
  unfolding nodes_of_def by (erule list_all2_mono) (auto dest: node_for_stored)

lemma bfsTraverse_finds:
  assumes "finite R" and "{(i, j). j \<in> succ_ids neighbors i} = R" and "'''' \<notin> insert s (Field R)"
    and "\<And>i. \<exists>n. lookupNode B db i = Inr n" and "card (Field R) < fuel"
  shows "\<exists>js ns. bfsTraverse neighbors (node_for B db) fuel s = Some (Inr ns) \<and> distinct js \<and>
    set js = R\<^sup>* `` {s} - {s} \<and> list_all2 (stored_node B db) js ns"
proof -
  let ?U = "insert s (Field R)"
  have succ: "succ_ids neighbors i \<subseteq> ?U" for i using assms(2) by (auto simp: Field_def)
  have node: "\<exists>n. node_for B db r = Inr n" for r
    using assms(4) [of "refId r"] by (auto simp: node_for_def split: option.splits)
  have "finite (Field R)" using assms(1) by (rule finite_Field)
  then have "card ?U \<le> fuel" using assms(5) by (simp add: card_insert_if)
  moreover have "bfs_state neighbors (node_for B db) s [] [s] []" by (simp add: bfs_state_def nodes_of_def)
  ultimately show ?thesis
    using bfs_loop_complete [of "node_for B db" ?U s neighbors "[]" "[s]" "[]" fuel] node assms(2,3) succ
      \<open>finite (Field R)\<close> nodes_of_stored by (auto simp: bfsTraverse_def) blast
qed

text \<open>C30: On a database with consistent link indexes the two graph queries end, with fuel for one round
  per linked resource: \<open>TransitiveDeps\<close> answers exactly the resources that can be reached over stored
  links, \<open>TransitiveDependents\<close> exactly those that reach the resource, each of them once, without the
  resource itself, and each as the node of its rollout or as an \<open>UNKNOWN\<close> node.\<close>

theorem TransitiveDeps_reachable:
  assumes "bolt_ok B" and "links_ok B db" and "'''' \<notin> insert resourceID (Field (links B db))"
    and "\<And>i. \<exists>n. lookupNode B db i = Inr n" and "card (Field (links B db)) < fuel"
  shows "(\<exists>js ns. TransitiveDeps B db fuel resourceID = Some (Inr ns) \<and> distinct js \<and>
      set js = (links B db)\<^sup>* `` {resourceID} - {resourceID} \<and> list_all2 (stored_node B db) js ns) \<and>
    (\<exists>js ns. TransitiveDependents B db fuel resourceID = Some (Inr ns) \<and> distinct js \<and>
      set js = ((links B db)\<inverse>)\<^sup>* `` {resourceID} - {resourceID} \<and> list_all2 (stored_node B db) js ns)"
proof (intro conjI)
  have fin: "finite (links B db)" unfolding links_def by (rule edges_of_finite [OF assms(1)])
  show "\<exists>js ns. TransitiveDeps B db fuel resourceID = Some (Inr ns) \<and> distinct js \<and>
      set js = (links B db)\<^sup>* `` {resourceID} - {resourceID} \<and> list_all2 (stored_node B db) js ns"
    unfolding TransitiveDeps_def
    by (rule bfsTraverse_finds [OF fin succ_ids_links(1) [OF assms(2)] assms(3-)])
  show "\<exists>js ns. TransitiveDependents B db fuel resourceID = Some (Inr ns) \<and> distinct js \<and>
      set js = ((links B db)\<inverse>)\<^sup>* `` {resourceID} - {resourceID} \<and> list_all2 (stored_node B db) js ns"
    unfolding TransitiveDependents_def
    using bfsTraverse_finds [of "(links B db)\<inverse>", OF _ succ_ids_links(2) [OF assms(2)] _ assms(4)] fin assms(3,5) by simp
qed

theorem TransitiveDeps_reachable_witness:
  "\<exists>js ns. TransitiveDeps mem_bolt linked_db 3 ''p/web'' = Some (Inr ns) \<and> distinct js \<and>
     set js = (links mem_bolt linked_db)\<^sup>* `` {''p/web''} - {''p/web''} \<and> list_all2 (stored_node mem_bolt linked_db) js ns"
proof (rule conjunct1 [OF TransitiveDeps_reachable [OF mem_bolt_ok]])
  have "links_ok mem_bolt linked_db \<and> links mem_bolt linked_db = {(''p/web'', ''p/db'')}"
    using AddLink_links [OF mem_bolt_ok empty_db_links(1) linked_db_add]
    by (simp add: empty_db_links(2) web_db_link_def plain_ref_def)
  then show "links_ok mem_bolt linked_db" "'''' \<notin> insert ''p/web'' (Field (links mem_bolt linked_db))"
    "card (Field (links mem_bolt linked_db)) < 3"
    by (auto simp: Field_def card_insert_if)
  have "dbRollouts linked_db = []" by code_simp
  then show "\<exists>n. lookupNode mem_bolt linked_db i = Inr n" for i
    by (simp add: lookupNode_def LoadRollout_def Load_def mem_bolt_def)
qed


subsection \<open>What a rollback restores\<close>

text \<open>The ids of the desired resources that a plan has to create or replace.\<close>

definition changed_ids :: "deployment \<Rightarrow> rollout list \<Rightarrow> string list" where
  "changed_ids desired rollouts =
     map GetSubjectId (filter (\<lambda>r. requests_for (recorded rollouts) r \<noteq> []) (create_requests desired))"

lemma requests_for_creates:
  assumes "GetType r = RequestTypeCreate"
  shows "filter (\<lambda>q. GetType q = RequestTypeCreate) (requests_for cur r) = (if requests_for cur r = [] then [] else [r])"
proof -
  obtain i b k where r: "r = CreateRequest i b k" using create_request_shape [OF assms] by blast
  show ?thesis
  proof (cases "cur i")
    case None
    then show ?thesis by (simp add: r requests_for_simps)
  next
    case (Some x)
    then show ?thesis by (cases "bodyEqual b (roBody x)") (simp_all add: r requests_for_simps)
  qed
qed

lemma concat_creates:
  "\<forall>r \<in> set rs. GetType r = RequestTypeCreate \<Longrightarrow>
   filter (\<lambda>q. GetType q = RequestTypeCreate) (concat (map (requests_for cur) rs)) = filter (\<lambda>r. requests_for cur r \<noteq> []) rs"
  by (induction rs) (auto simp: requests_for_creates)

lemma planned_creates:
  assumes "plan_inputs_ok desired rollouts" and "ComputePlan uid desired rollouts conditions = Inr p"
  shows "dpId (plDeployment p) = uid"
    and "map GetSubjectId (create_requests (rollback_desired u (stored_deployment (plDeployment p)))) = changed_ids desired rollouts"
proof -
  have p: "create_requests (plDeployment p) = filter (\<lambda>r. requests_for (recorded rollouts) r \<noteq> []) (create_requests desired)"
    "dpId (plDeployment p) = uid"
    using assms(2) concat_creates [of "create_requests desired" "recorded rollouts"]
    unfolding plan_spec [OF assms(1)] by (auto simp: create_requests_def filter_empty_conv)
  have "create_requests (rollback_desired u (stored_deployment d)) = map stored_request (create_requests d)" for d
    by (simp add: create_requests_def rollback_desired_def stored_deployment_def filter_map comp_def)
  then show "map GetSubjectId (create_requests (rollback_desired u (stored_deployment (plDeployment p)))) = changed_ids desired rollouts"
    by (simp add: p(1) changed_ids_def comp_def)
  show "dpId (plDeployment p) = uid" by (rule p(2))
qed

lemma classify_not_destroy: "acType (classify cur r) \<noteq> ActionDestroy"
  by (auto simp: classify_def split: option.splits request.splits)

lemma classify_id: "GetType r = RequestTypeCreate \<Longrightarrow> acResourceID (classify cur r) = GetSubjectId r"
  by (cases r) (auto simp: classify_def split: option.splits)

lemma plan_action_ids:
  assumes "plan_inputs_ok desired rollouts" and "ComputePlan uid desired rollouts conditions = Inr p"
  shows "map acResourceID (filter (\<lambda>a. acType a \<noteq> ActionDestroy) (plActions p)) = map GetSubjectId (create_requests desired)"
    and "map acResourceID (filter (\<lambda>a. acType a = ActionDestroy) (plActions p)) = orphans desired rollouts"
proof -
  have p: "plActions p = map (classify (recorded rollouts)) (create_requests desired) @
      map (destroy_action (recorded rollouts)) (orphans desired rollouts)"
    using assms(2) unfolding plan_spec [OF assms(1)] by auto
  have "filter (\<lambda>a. acType a \<noteq> ActionDestroy) (plActions p) = map (classify (recorded rollouts)) (create_requests desired)"
    "filter (\<lambda>a. acType a = ActionDestroy) (plActions p) = map (destroy_action (recorded rollouts)) (orphans desired rollouts)"
    unfolding p by (simp_all add: filter_map comp_def classify_not_destroy destroy_action_def)
  then show "map acResourceID (filter (\<lambda>a. acType a \<noteq> ActionDestroy) (plActions p)) = map GetSubjectId (create_requests desired)"
    "map acResourceID (filter (\<lambda>a. acType a = ActionDestroy) (plActions p)) = orphans desired rollouts"
    by (simp_all add: create_requests_def classify_id destroy_action_def comp_def)
qed

text \<open>Rolling back to the deployment that a plan was saved as, with the dry-run flag: the state is left
  as it is and a plan is answered.  It restores exactly the resources that the earlier plan
  created or replaced, and destroys every other recorded resource, those that were part of the
  composition and unchanged at that time included.\<close>

theorem rollback_restores_changes_only:
  assumes "bolt_ok (rcBolt ctx)" and "plan_inputs_ok desired rollouts"
    and "ComputePlan uid desired rollouts conditions = Inr p0"
    and "SaveDeployment (rcBolt ctx) (plDeployment p0) db0 = Inr db1" and "dbDeployments db = dbDeployments db1"
    and "distinct (map roInstanceId (EngineState (rcBolt ctx) db))" and "'''' \<notin> roInstanceId ` set (EngineState (rcBolt ctx) db)"
  shows "\<exists>p. EngineRollback cancelled ctx W u1 u2 uid True (db, w) = (Inr p, db, w) \<and>
    map acResourceID (filter (\<lambda>a. acType a \<noteq> ActionDestroy) (plActions p)) = changed_ids desired rollouts \<and>
    map acResourceID (filter (\<lambda>a. acType a = ActionDestroy) (plActions p)) =
      sort_strings (filter (\<lambda>i. i \<notin> set (changed_ids desired rollouts)) (map roInstanceId (EngineState (rcBolt ctx) db)))"
proof -
  let ?B = "rcBolt ctx" let ?d = "rollback_desired u1 (stored_deployment (plDeployment p0))"
  note ids = planned_creates(1) [OF assms(2,3)] planned_creates(2) [OF assms(2,3), of u1]
  have "LoadDeployment ?B db uid = LoadDeployment ?B db1 uid" by (simp add: LoadDeployment_def Load_def assms(5))
  then have load: "LoadDeployment ?B db uid = Inr (stored_deployment (plDeployment p0))"
    using LoadDeployment_saved [OF assms(1,4)] ids(1) by simp
  have "distinct (changed_ids desired rollouts)" "'''' \<notin> set (changed_ids desired rollouts)"
    using assms(2) unfolding changed_ids_def plan_inputs_ok_def
    by (simp add: distinct_map_filter, auto simp: create_requests_def)
  moreover have "create_requests ?d = dpRequests ?d" by (simp add: create_requests_def rollback_desired_def)
  ultimately have ok: "plan_inputs_ok ?d (EngineState ?B db)"
    using assms(6,7) ids(2) unfolding plan_inputs_ok_def by (metis image_eqI list.set_map)
  then obtain p where p: "ComputePlan u2 ?d (EngineState ?B db) [] = Inr p" using plan_spec by blast
  have "EngineRollback cancelled ctx W u1 u2 uid True (db, w) = (Inr p, db, w)"
    by (simp add: EngineRollback_def load p)
  moreover have "orphans ?d (EngineState ?B db) =
      sort_strings (filter (\<lambda>i. i \<notin> set (changed_ids desired rollouts)) (map roInstanceId (EngineState ?B db)))"
    unfolding orphans_def ids(2) [symmetric] by simp
  ultimately show ?thesis using plan_action_ids [OF ok p] ids(2) by simp
qed


lemma EngineState_cong:
  assumes "dbRollouts db = dbRollouts db'"
  shows "EngineState B db = EngineState B db'"
proof -
  have "LoadRollout B db k = LoadRollout B db' k" for k by (simp add: LoadRollout_def Load_def assms)
  then have "collect_rollouts B db ks = collect_rollouts B db' ks" for ks 
    by (induction ks) (simp_all split: sum.split option.split)
  then show ?thesis by (simp add: EngineState_def Keys_def assms)
qed

text \<open>Witness of \<open>rollback_restores_changes_only\<close>: the recorded web service is unchanged, and going back to the
  deployment of that plan would destroy it.\<close>

definition recorded_db :: "raw gomap db" where
  "recorded_db = empty_db\<lparr>dbRollouts := [(''p/web'', RDoc (the (enc_rollout web_rollout)))]\<rparr>"

definition empty_plan_deployment :: deployment where
  "empty_plan_deployment = \<lparr>dpId = ''u'', dpRequests = [], dpDependencies = [], dpDepending = [], dpReferences = []\<rparr>"

lemma recorded_db_state: "EngineState mem_bolt recorded_db = [stored_rollout web_rollout]"
proof -
  obtain j where j: "enc_rollout web_rollout = Some j"
    by (simp add: enc_rollout_def enc_raw_def enc_status_def web_rollout_def)
  then have "Save mem_bolt empty_db RolloutsById (roInstanceId web_rollout) (enc_rollout web_rollout) = Inr recorded_db"
    by (simp add: Save_def mem_bolt_def recorded_db_def empty_db_def gm_put_def web_rollout_def)
  from LoadRollout_save [OF mem_bolt_ok this, of "''p/web''"]
  have "LoadRollout mem_bolt recorded_db ''p/web'' = Inr (Some (stored_rollout web_rollout))"
    by (simp add: web_rollout_def)
  moreover have "Keys mem_bolt recorded_db RolloutsById = [''p/web'']"
    by (simp add: Keys_def recorded_db_def mem_bolt_def gm_keys_def)
  ultimately show ?thesis by (simp add: EngineState_def)
qed

theorem rollback_restores_changes_only_witness:
  "\<forall>W. \<exists>db p. EngineRollback (\<lambda>n. False) widget_ctx W ''u1'' ''u2'' ''u'' True (db, 0) = (Inr p, db, 0) \<and>
     map acResourceID (filter (\<lambda>a. acType a = ActionDestroy) (plActions p)) = [''p/web'']"
proof (rule allI)
  fix W :: "(raw gomap, nat) waits"
  have same: "json_norm (JObj [(''b'', JNum 2), (''a'', JNum 1)]) = json_norm (JObj [(''a'', JNum 1), (''b'', JNum 2)])"
    by (rule json_norm_perm) simp_all
  then have none: "requests_for (recorded [web_rollout]) (CreateRequest ''p/web'' (RDoc (JObj [(''b'', JNum 2), (''a'', JNum 1)])) ''g/v1/W'') = []"
    by (intro requests_for_simps(2) [of _ _ web_rollout])
      (simp_all add: recorded_def web_rollout_def bodyEqual_def del: json_norm.simps)
  obtain p0 where p0: "ComputePlan ''u'' web_desired [web_rollout] [] = Inr p0" "plDeployment p0 = empty_plan_deployment"
    using plan_spec [OF web_inputs_ok(1), of "''u''" "[]"] none
    by (auto simp: web_desired_def NewDeployment_def create_requests_def orphans_def web_rollout_def empty_plan_deployment_def
        sort_strings_def)
  obtain db1 where db1: "SaveDeployment (rcBolt widget_ctx) (plDeployment p0) recorded_db = Inr db1"
    by (simp add: p0(2) SaveDeployment_def Save_def empty_plan_deployment_def enc_deployment_def MarshalRequests_def widget_ctx_simps(2) mem_bolt_def)
  have "dbRollouts db1 = dbRollouts recorded_db" using db1
    by (auto simp: SaveDeployment_def Save_def widget_ctx_simps(2) mem_bolt_def split: option.splits if_splits)
  then have "EngineState mem_bolt db1 = EngineState mem_bolt recorded_db" by (rule EngineState_cong)
  then have st: "EngineState (rcBolt widget_ctx) db1 = [stored_rollout web_rollout]"
    by (simp add: recorded_db_state widget_ctx_simps(2))
  have "changed_ids web_desired [web_rollout] = []"
    using none by (simp add: changed_ids_def web_desired_def NewDeployment_def create_requests_def)
  moreover have "roInstanceId (stored_rollout web_rollout) = ''p/web''" by (simp add: stored_rollout_def web_rollout_def)
  ultimately have "\<exists>p. EngineRollback (\<lambda>n. False) widget_ctx W ''u1'' ''u2'' ''u'' True (db1, 0) = (Inr p, db1, 0) \<and>
      map acResourceID (filter (\<lambda>a. acType a = ActionDestroy) (plActions p)) = sort_strings [''p/web'']"
    using rollback_restores_changes_only [OF widget_ctx_simps(1) web_inputs_ok(1) p0(1) db1 refl,
      of "\<lambda>n. False" W "''u1''" "''u2''" 0] st by (simp del: map_eq_Cons_conv) blast
  then show "\<exists>db p. EngineRollback (\<lambda>n. False) widget_ctx W ''u1'' ''u2'' ''u'' True (db, 0) = (Inr p, db, 0) \<and>
     map acResourceID (filter (\<lambda>a. acType a = ActionDestroy) (plActions p)) = [''p/web'']"
    by (intro exI [of _ db1]) (simp add: sort_strings_def del: map_eq_Cons_conv)
qed


subsection \<open>What a drift check reports\<close>

text \<open>The drift check of a deployed resource, for the definitions of the CRI provider.  A container is
  reported as \<open>DRIFTED\<close> exactly when the rollout names a version and its pod carries another one; a
  running container of the recorded version is never reported; for a service, whose rollout
  names a version just the same, no difference of versions is ever reported.\<close>

theorem checkRolloutDrift_versions:
  assumes "roStatus r = Some st" and "rsShort st \<in> {RsSuccess, RsRunning}"
    and "NewReference (roInstanceId r) (roInstanceKey r) = Inr ref"
  shows "(GetDefinition reg (roInstanceKey r) = Inr (ContainerDefinition (Some cl) vols) \<longrightarrow>
      ((\<exists>dr. checkRolloutDrift (Some cl) reg r w = Some dr \<and> drActual dr = RsDrifted) \<longleftrightarrow>
        (\<exists>pod rest. service_pods cl ref w = Inr (pod # rest) \<and> version_drifted (extractVersionFromBody (roBody r)) pod)) \<and>
      (\<forall>pod rest ctr more. service_pods cl ref w = Inr (pod # rest) \<and>
        \<not> version_drifted (extractVersionFromBody (roBody r)) pod \<and>
        clListContainers cl (psId pod) w = Inr (ctr # more) \<and> crState ctr = 1 \<longrightarrow>
        checkRolloutDrift (Some cl) reg r w = None)) \<and>
    (GetDefinition reg (roInstanceKey r) = Inr (ServiceDefinition (Some cl) vols) \<longrightarrow>
      (\<forall>dr. checkRolloutDrift (Some cl) reg r w = Some dr \<longrightarrow> drActual dr \<noteq> RsDrifted))"
proof (intro conjI impI)
  let ?v = "extractVersionFromBody (roBody r)"
  obtain act where act: "GetProviderStatusWithVersion (Some cl) ref ?v w = Inr act"
    "stShort act = RsDrifted \<longleftrightarrow> (\<exists>pod rest. service_pods cl ref w = Inr (pod # rest) \<and> version_drifted ?v pod)"
    "stShort act = RsRunning \<longleftrightarrow> (\<exists>pod rest ctr more. service_pods cl ref w = Inr (pod # rest) \<and>
       \<not> version_drifted ?v pod \<and> clListContainers cl (psId pod) w = Inr (ctr # more) \<and> crState ctr = 1)"
    using container_status_cases [of cl ref ?v w] by (elim exE conjE)
  have st: "rsShort st = RsSuccess \<or> rsShort st = RsRunning" using assms(2) by simp
  {
    assume "GetDefinition reg (roInstanceKey r) = Inr (ContainerDefinition (Some cl) vols)"
    then have "checkRolloutDrift (Some cl) reg r w = (if stShort act = RsSuccess \<or> stShort act = RsRunning then None
        else Some \<lparr>drResourceID = roInstanceId r, drKey = roInstanceKey r, drExpected = rsShort st,
          drActual = stShort act, drReason = status_message act\<rparr>)"
      using st by (auto simp: checkRolloutDrift_def assms(1,3) getProviderStatus_def act(1) ContainerDefinition_def Let_def)
    then show "(\<exists>dr. checkRolloutDrift (Some cl) reg r w = Some dr \<and> drActual dr = RsDrifted) \<longleftrightarrow>
        (\<exists>pod rest. service_pods cl ref w = Inr (pod # rest) \<and> version_drifted ?v pod)"
      and "\<forall>pod rest ctr more. service_pods cl ref w = Inr (pod # rest) \<and> \<not> version_drifted ?v pod \<and>
        clListContainers cl (psId pod) w = Inr (ctr # more) \<and> crState ctr = 1 \<longrightarrow> checkRolloutDrift (Some cl) reg r w = None"
      unfolding act(2) [symmetric] using act(3) by (auto simp: rs_defs)
  }
  assume "GetDefinition reg (roInstanceKey r) = Inr (ServiceDefinition (Some cl) vols)"
  moreover have "defKey (ServiceDefinition (Some cl) vols) \<noteq> ContainerKey"
    by (simp add: ServiceDefinition_def Let_def ContainerKey_def ServiceKey_def)
  ultimately show "\<forall>dr. checkRolloutDrift (Some cl) reg r w = Some dr \<longrightarrow> drActual dr \<noteq> RsDrifted"
    using service_status_not_drifted [of cl vols ref w] st
    by (auto simp: checkRolloutDrift_def assms(1,3) getProviderStatus_def split: if_splits)
qed


text \<open>Witness of \<open>checkRolloutDrift_versions\<close>: a container recorded with version v2 whose pod is labelled v1.\<close>

definition drift_rollout :: rollout where
  "drift_rollout = \<lparr>roInstanceId = ''p/web'', roInstanceKey = ContainerKey, roBody = RDoc (JObj [(''version'', JStr ''v2'')]),
     roMessages = [], roErrors = [], roStatus = Some \<lparr>rsShort = RsSuccess, rsDetails = RNil\<rparr>\<rparr>"

theorem checkRolloutDrift_versions_witness:
  "\<exists>dr. checkRolloutDrift (Some log_client) [(ContainerKey, ContainerDefinition (Some log_client) None)] drift_rollout [] =
     Some dr \<and> drActual dr = RsDrifted"
proof -
  let ?reg = "[(ContainerKey, ContainerDefinition (Some log_client) None)]"
  let ?ref = "\<lparr>refId = ''p/web'', refKey = ContainerKey, refBody = RNil\<rparr>"
  have "extractVersionFromBody (roBody drift_rollout) = ''v2''" by code_simp
  then have "service_pods log_client ?ref [] = Inr [\<lparr>psId = ''pod'', psLabels = [(LabelVersion, ''v1'')]\<rparr>] \<and>
      version_drifted (extractVersionFromBody (roBody drift_rollout)) \<lparr>psId = ''pod'', psLabels = [(LabelVersion, ''v1'')]\<rparr>"
    by (simp add: service_pods_def log_client_def version_drifted_def gm_get_def)
  moreover have "GetDefinition ?reg (roInstanceKey drift_rollout) = Inr (ContainerDefinition (Some log_client) None)"
    by (simp add: GetDefinition_def drift_rollout_def)
  moreover have "NewReference (roInstanceId drift_rollout) (roInstanceKey drift_rollout) = Inr ?ref"
    by (simp add: NewReference_def drift_rollout_def)
  moreover have "roStatus drift_rollout = Some \<lparr>rsShort = RsSuccess, rsDetails = RNil\<rparr>" by (simp add: drift_rollout_def)
  ultimately show ?thesis
    using checkRolloutDrift_versions [of drift_rollout "\<lparr>rsShort = RsSuccess, rsDetails = RNil\<rparr>" ?ref ?reg log_client None "[]"]
    by auto
qed

end
