(* ===== verification/Go_Time.thy ===== *)
theory Go_Time
  imports Go_Strings
begin

text \<open>
  Go's \<open>time.Duration\<close>, a signed 64-bit count of nanoseconds, and \<open>time.ParseDuration\<close>.

  The parser follows the one of the Go library: a sign, then numbers with units.  Arithmetic on
  durations wraps (\<open>wrap64\<close>); the parser itself rejects values that do not fit.  The library
  computes the fraction of a unit in floating point; the model takes its integer part exactly.
\<close>

definition wrap64 :: "int \<Rightarrow> int" where
  "wrap64 i = (i + 2 ^ 63) mod 2 ^ 64 - 2 ^ 63"

definition Nanosecond :: int where "Nanosecond = 1"
definition Microsecond :: int where "Microsecond = 1000"
definition Millisecond :: int where "Millisecond = 1000000"
definition Second :: int where "Second = 1000000000"
definition Minute :: int where "Minute = 60000000000"
definition Hour :: int where "Hour = 3600000000000"

lemmas time_units = Nanosecond_def Microsecond_def Millisecond_def Second_def Minute_def Hour_def

definition unit_value :: "string \<Rightarrow> nat option" where
  "unit_value u =
     (if u = ''ns'' then Some 1
      else if u = ''us'' \<or> u = [CHR 0xC2, CHR 0xB5, CHR ''s''] \<or> u = [CHR 0xCE, CHR 0xBC, CHR ''s''] then Some 1000
      else if u = ''ms'' then Some 1000000 else if u = ''s'' then Some 1000000000
      else if u = ''m'' then Some 60000000000 else if u = ''h'' then Some 3600000000000 else None)"

definition limit63 :: nat where "limit63 = 2 ^ 63"

definition is_digit :: "char \<Rightarrow> bool" where
  "is_digit c \<longleftrightarrow> digit_val c \<noteq> None"

text \<open>\<open>leadingInt\<close> fails above \<open>2^63\<close>; \<open>leadingFraction\<close> stops counting digits there.\<close>

fun leading_int :: "nat \<Rightarrow> string \<Rightarrow> (nat \<times> string) option" where
  "leading_int x [] = Some (x, [])"
| "leading_int x (c # cs) =
     (case digit_val c of
        None \<Rightarrow> Some (x, c # cs)
      | Some d \<Rightarrow> if x > limit63 div 10 then None
          else if 10 * x + d > limit63 then None else leading_int (10 * x + d) cs)"

fun leading_fraction :: "nat \<Rightarrow> nat \<Rightarrow> bool \<Rightarrow> string \<Rightarrow> nat \<times> nat \<times> string" where
  "leading_fraction x scale overflow [] = (x, scale, [])"
| "leading_fraction x scale overflow (c # cs) =
     (case digit_val c of
        None \<Rightarrow> (x, scale, c # cs)
      | Some d \<Rightarrow>
          if overflow then leading_fraction x scale True cs
          else if x > (limit63 - 1) div 10 then leading_fraction x scale True cs
          else if 10 * x + d > limit63 then leading_fraction x scale True cs
          else leading_fraction (10 * x + d) (10 * scale) False cs)"

definition is_unit_char :: "char \<Rightarrow> bool" where
  "is_unit_char c \<longleftrightarrow> c \<noteq> CHR ''.'' \<and> \<not> is_digit c"

text \<open>One number with its unit: its value in nanoseconds and the rest of the text.\<close>

definition parse_term :: "string \<Rightarrow> (nat \<times> string) option" where
  "parse_term s =
     (if s = [] \<or> \<not> (hd s = CHR ''.'' \<or> is_digit (hd s)) then None
      else case leading_int 0 s of
        None \<Rightarrow> None
      | Some (v, s1) \<Rightarrow>
          let pre = (length s1 \<noteq> length s);
              (f, scale, s2) = (if s1 \<noteq> [] \<and> hd s1 = CHR ''.'' then leading_fraction 0 1 False (tl s1) else (0, 1, s1));
              post = (s1 \<noteq> [] \<and> hd s1 = CHR ''.'' \<and> length s2 \<noteq> length (tl s1));
              u = takeWhile is_unit_char s2; s3 = dropWhile is_unit_char s2
          in if \<not> pre \<and> \<not> post then None
             else if u = [] then None
             else case unit_value u of
                    None \<Rightarrow> None
                  | Some unit \<Rightarrow>
                      if v > limit63 div unit then None
                      else let total = v * unit + (if f > 0 then f * unit div scale else 0)
                           in if total > limit63 then None else Some (total, s3))"

lemma leading_int_length: "leading_int x s = Some (v, r) \<Longrightarrow> length r \<le> length s"
  by (induction x s rule: leading_int.induct) (auto split: option.splits if_splits)

lemma leading_fraction_length: "leading_fraction x sc ov s = (f, k, r) \<Longrightarrow> length r \<le> length s"
proof (induction x sc ov s rule: leading_fraction.induct)
  case (2 x sc ov c cs)
  then show ?case by (fastforce split: option.splits if_splits)
qed simp

lemma dropWhile_shorter: "takeWhile P s \<noteq> [] \<Longrightarrow> length (dropWhile P s) < length s"
proof -
  assume "takeWhile P s \<noteq> []"
  moreover have "length s = length (takeWhile P s) + length (dropWhile P s)"
    by (metis length_append takeWhile_dropWhile_id)
  ultimately show ?thesis by simp
qed

lemma parse_term_shorter:
  assumes "parse_term s = Some (d, r)"
  shows "length r < length s"
proof -
  obtain v s1 where s1: "leading_int 0 s = Some (v, s1)"
    using assms by (auto simp: parse_term_def split: if_splits option.splits)
  obtain f k s2 where s2: "(if s1 \<noteq> [] \<and> hd s1 = CHR ''.'' then leading_fraction 0 1 False (tl s1) else (0, 1, s1)) = (f, k, s2)"
    by (metis prod_cases3)
  have "takeWhile is_unit_char s2 \<noteq> [] \<and> r = dropWhile is_unit_char s2"
    using assms unfolding parse_term_def s1 Let_def option.case prod.case s2
    by (auto split: if_splits option.splits)
  then have "length r < length s2" using dropWhile_shorter by blast
  moreover have "length s2 \<le> length s1"
    using s2 leading_fraction_length [of 0 1 False "tl s1" f k s2] by (auto split: if_splits)
  ultimately show ?thesis using leading_int_length [OF s1] by linarith
qed

function parse_terms :: "nat \<Rightarrow> string \<Rightarrow> nat option" where
  "parse_terms acc s =
     (if s = [] then Some acc
      else case parse_term s of
             None \<Rightarrow> None
           | Some (d, r) \<Rightarrow> if acc + d > limit63 then None else parse_terms (acc + d) r)"
  by pat_completeness auto
termination
  by (relation "measure (\<lambda>(acc, s). length s)") (auto dest: parse_term_shorter)

declare parse_terms.simps [simp del]

definition ParseDuration :: "string \<Rightarrow> int option" where
  "ParseDuration s =
     (let (neg, r) = (case s of CHR ''-'' # t \<Rightarrow> (True, t) | CHR ''+'' # t \<Rightarrow> (False, t) | _ \<Rightarrow> (False, s))
      in if r = ''0'' then Some 0
         else if r = '''' then None
         else case parse_terms 0 r of
                None \<Rightarrow> None
              | Some d \<Rightarrow> if neg then Some (- int d) else if d > limit63 - 1 then None else Some (int d))"

subsection \<open>Laws\<close>

lemma wrap64_range: "- (2 ^ 63) \<le> wrap64 i \<and> wrap64 i < 2 ^ 63"
  unfolding wrap64_def using pos_mod_bound [of "2 ^ 64" "i + 2 ^ 63"] pos_mod_sign [of "2 ^ 64" "i + 2 ^ 63"] by simp

lemma wrap64_id: "- (2 ^ 63) \<le> i \<Longrightarrow> i < 2 ^ 63 \<Longrightarrow> wrap64 i = i"
  unfolding wrap64_def by (simp add: mod_pos_pos_trivial)

lemma parse_terms_bound: "parse_terms acc s = Some d \<Longrightarrow> acc \<le> limit63 \<Longrightarrow> d \<le> limit63"
proof (induction acc s rule: parse_terms.induct)
  case (1 acc s)
  from "1.prems" show ?case
    by (subst (asm) parse_terms.simps) (auto split: if_splits option.splits intro: "1.IH")
qed

lemma ParseDuration_range: "ParseDuration s = Some d \<Longrightarrow> - (2 ^ 63) \<le> d \<and> d < 2 ^ 63"
proof -
  assume a: "ParseDuration s = Some d"
  have "parse_terms 0 r = Some n \<Longrightarrow> int n \<le> 2 ^ 63" for r n
    using parse_terms_bound [of 0 r n] by (simp add: limit63_def)
  with a show ?thesis
    by (fastforce simp: ParseDuration_def Let_def limit63_def split: prod.splits if_splits option.splits)
qed

lemma ParseDuration_0s: "ParseDuration ''0s'' = Some 0"
proof -
  have "leading_int 0 ''0s'' = Some (0, ''s'')" by (simp add: digit_val_def)
  moreover have "takeWhile is_unit_char ''s'' = ''s''" "dropWhile is_unit_char ''s'' = []"
    by (simp_all add: is_unit_char_def is_digit_def digit_val_def)
  moreover have "unit_value ''s'' = Some 1000000000" by (simp add: unit_value_def)
  ultimately have "parse_term ''0s'' = Some (0, [])"
    by (simp add: parse_term_def is_digit_def digit_val_def)
  then have "parse_terms 0 ''0s'' = Some 0" by (simp add: parse_terms.simps)
  then show ?thesis by (simp add: ParseDuration_def limit63_def)
qed

end
