(* ===== verification/Health.thy ===== *)
theory Health
  imports Eval_Types Go_Time Transition
begin

text \<open>
  \<open>src/pkg/health\<close>: the resolution of a service's health check (\<open>probe.go\<close>) and the monitor that
  runs the probes (\<open>monitor.go\<close>).

  A check is shared between the map of the monitor and the goroutine that probes it, and
  \<open>Register\<close> replaces the pointer in the map while an older goroutine keeps its own: checks
  live in a heap, addressed by their index.  The critical sections under \<open>Monitor.mu\<close> are the
  atomic steps.  \<open>close\<close> of a closed channel panics.
\<close>

subsection \<open>Probes\<close>

datatype probe_type = ProbeExec | ProbeHTTP | ProbeTCP

definition DefaultInterval :: int where "DefaultInterval = 10 * Second"
definition DefaultTimeout :: int where "DefaultTimeout = 5 * Second"
definition DefaultInitialDelay :: int where "DefaultInitialDelay = 0"
definition DefaultFailureThreshold :: int where "DefaultFailureThreshold = 3"

record probe_config =
  pcfType :: probe_type
  pcfExecCommand :: "string list"
  pcfHTTPScheme :: string
  pcfHTTPPort :: int
  pcfHTTPPath :: string
  pcfTCPPort :: int
  pcfInterval :: int
  pcfTimeout :: int
  pcfInitialDelay :: int
  pcfFailureThreshold :: int

definition applyDuration :: "int \<Rightarrow> int \<Rightarrow> int" where
  "applyDuration seconds def = (if seconds > 0 then wrap64 (seconds * Second) else def)"

definition applyThreshold :: "int \<Rightarrow> int \<Rightarrow> int" where
  "applyThreshold val def = (if val > 0 then val else def)"

definition parseDurationOrDefault :: "string \<Rightarrow> int \<Rightarrow> int" where
  "parseDurationOrDefault s def =
     (if s = '''' then def else case ParseDuration s of None \<Rightarrow> def | Some d \<Rightarrow> d)"

definition resolveK8sProbe :: "probe \<Rightarrow> probe_config option" where
  "resolveK8sProbe p =
     (let cfg = \<lparr>pcfType = ProbeExec, pcfExecCommand = [], pcfHTTPScheme = '''', pcfHTTPPort = 0, pcfHTTPPath = '''',
            pcfTCPPort = 0,
            pcfInterval = applyDuration (prPeriodSeconds p) DefaultInterval,
            pcfTimeout = applyDuration (prTimeoutSeconds p) DefaultTimeout,
            pcfInitialDelay = applyDuration (prInitialDelaySeconds p) DefaultInitialDelay,
            pcfFailureThreshold = applyThreshold (prFailureThreshold p) DefaultFailureThreshold\<rparr>;
          http = (case prHTTPGet p of
                    None \<Rightarrow> None
                  | Some h \<Rightarrow> Some (cfg\<lparr>pcfType := ProbeHTTP, pcfHTTPPort := phgPort h,
                      pcfHTTPPath := (if phgPath h = '''' then ''/'' else phgPath h),
                      pcfHTTPScheme := (if phgScheme h = '''' then ''http'' else phgScheme h)\<rparr>))
      in case prExec p of
           Some ex \<Rightarrow> if length (peCommand ex) > 0
             then Some (cfg\<lparr>pcfType := ProbeExec, pcfExecCommand := peCommand ex\<rparr>) else http
         | None \<Rightarrow> http)"

definition resolveComposeHealthcheck :: "healthcheck \<Rightarrow> probe_config" where
  "resolveComposeHealthcheck hc =
     (let parts = cvParts (hcTest hc);
          cmd = (if length parts > 1 \<and> (parts ! 0 = ''CMD'' \<or> parts ! 0 = ''CMD-SHELL'') then tl parts else parts)
      in \<lparr>pcfType = ProbeExec, pcfExecCommand = cmd, pcfHTTPScheme = '''', pcfHTTPPort = 0, pcfHTTPPath = '''',
          pcfTCPPort = 0,
          pcfInterval = parseDurationOrDefault (hcInterval hc) DefaultInterval,
          pcfTimeout = parseDurationOrDefault (hcTimeout hc) DefaultTimeout,
          pcfInitialDelay = parseDurationOrDefault (hcStartPeriod hc) DefaultInitialDelay,
          pcfFailureThreshold = (if hcRetries hc \<le> 0 then DefaultFailureThreshold else hcRetries hc)\<rparr>)"

definition ResolveProbe :: "service \<Rightarrow> probe_config option" where
  "ResolveProbe svc =
     (let compose = (case svcHealthcheck svc of
            None \<Rightarrow> None
          | Some hc \<Rightarrow> if length (cvParts (hcTest hc)) > 0 then Some (resolveComposeHealthcheck hc) else None)
      in case svcXNixCompose svc of
           None \<Rightarrow> compose
         | Some x \<Rightarrow>
             (case xProbes x of
                None \<Rightarrow> compose
              | Some ps \<Rightarrow>
                  (case prbReadiness ps of
                     Some p \<Rightarrow> resolveK8sProbe p
                   | None \<Rightarrow> (case prbLiveness ps of Some p \<Rightarrow> resolveK8sProbe p | None \<Rightarrow> compose))))"

subsection \<open>The monitor\<close>

datatype health_state = StateStarting | StateHealthy | StateUnhealthy

record check =
  ckContainerID :: string
  ckPodIP :: string
  ckCfg :: probe_config
  ckState :: health_state
  ckFailures :: int
  ckReadyClosed :: bool
  ckReadyOnce :: bool

record monitor =
  monChecks :: "nat gomap"
  monHeap :: "check list"
  monRunning :: "nat list"

definition NewMonitor :: monitor where
  "NewMonitor = \<lparr>monChecks = [], monHeap = [], monRunning = []\<rparr>"

definition MonitorRegister :: "monitor \<Rightarrow> string \<Rightarrow> string \<Rightarrow> string \<Rightarrow> probe_config \<Rightarrow> monitor" where
  "MonitorRegister m service containerID podIP cfg =
     m\<lparr>monChecks := gm_put service (length (monHeap m)) (monChecks m),
       monHeap := monHeap m @ [\<lparr>ckContainerID = containerID, ckPodIP = podIP, ckCfg = cfg,
         ckState = StateStarting, ckFailures = 0, ckReadyClosed = False, ckReadyOnce = False\<rparr>]\<rparr>"

definition MonitorStart :: "monitor \<Rightarrow> string \<Rightarrow> monitor" where
  "MonitorStart m service =
     (case map_of (monChecks m) service of None \<Rightarrow> m | Some a \<Rightarrow> m\<lparr>monRunning := a # monRunning m\<rparr>)"

definition MonitorState :: "monitor \<Rightarrow> string \<Rightarrow> health_state" where
  "MonitorState m service =
     (case map_of (monChecks m) service of None \<Rightarrow> StateStarting | Some a \<Rightarrow> ckState (monHeap m ! a))"

text \<open>\<open>close(c.ready)\<close> under \<open>readyOnce\<close>.\<close>

definition close_ready :: "check \<Rightarrow> error + check" where
  "close_ready c =
     (if ckReadyOnce c then Inr c
      else if ckReadyClosed c then Inl (Panic ''close of closed channel'')
      else Inr (c\<lparr>ckReadyClosed := True, ckReadyOnce := True\<rparr>))"

text \<open>The critical section of \<open>run\<close> after a probe; \<open>c.failures++\<close> wraps at 64 bits.\<close>

definition record_probe :: "bool \<Rightarrow> check \<Rightarrow> error + check" where
  "record_probe ok c =
     (if ok then close_ready (c\<lparr>ckFailures := 0, ckState := StateHealthy\<rparr>)
      else let f = wrap64 (ckFailures c + 1)
           in Inr (if f \<ge> pcfFailureThreshold (ckCfg c) then c\<lparr>ckFailures := f, ckState := StateUnhealthy\<rparr>
                   else c\<lparr>ckFailures := f\<rparr>))"

text \<open>The probes themselves, with the executor, the HTTP client and the dialer as arguments.\<close>

definition runExecProbe :: "(string \<Rightarrow> string list \<Rightarrow> int \<Rightarrow> error + int) \<Rightarrow> check \<Rightarrow> bool" where
  "runExecProbe execSync c =
     (case execSync (ckContainerID c) (pcfExecCommand (ckCfg c))
         (if pcfTimeout (ckCfg c) < 0 then - ((- pcfTimeout (ckCfg c)) div Second) else pcfTimeout (ckCfg c) div Second) of
        Inl _ \<Rightarrow> False | Inr code \<Rightarrow> code = 0)"

definition runHTTPProbe :: "(string \<Rightarrow> error + int) \<Rightarrow> check \<Rightarrow> bool" where
  "runHTTPProbe httpGet c =
     (case httpGet (pcfHTTPScheme (ckCfg c) @ ''://'' @ ckPodIP c @ '':'' @ show_int (pcfHTTPPort (ckCfg c)) @
         pcfHTTPPath (ckCfg c)) of
        Inl _ \<Rightarrow> False | Inr status \<Rightarrow> 200 \<le> status \<and> status < 400)"

definition runTCPProbe :: "(string \<Rightarrow> error option) \<Rightarrow> check \<Rightarrow> bool" where
  "runTCPProbe dial c =
     (case dial (ckPodIP c @ '':'' @ show_int (pcfTCPPort (ckCfg c))) of Some _ \<Rightarrow> False | None \<Rightarrow> True)"

definition runProbe :: "(string \<Rightarrow> string list \<Rightarrow> int \<Rightarrow> error + int) \<Rightarrow> (string \<Rightarrow> error + int) \<Rightarrow>
    (string \<Rightarrow> error option) \<Rightarrow> check \<Rightarrow> bool" where
  "runProbe execSync httpGet dial c =
     (case pcfType (ckCfg c) of
        ProbeExec \<Rightarrow> runExecProbe execSync c | ProbeHTTP \<Rightarrow> runHTTPProbe httpGet c | ProbeTCP \<Rightarrow> runTCPProbe dial c)"

text \<open>\<open>time.NewTicker\<close> at the start of \<open>run\<close> panics for an interval that is not positive.\<close>

definition run_ticker :: "check \<Rightarrow> error option" where
  "run_ticker c =
     (if pcfInterval (ckCfg c) \<le> 0 then Some (Panic ''non-positive interval for NewTicker'') else None)"

datatype mon_event =
    EvRegister string string string probe_config
  | EvStart string
  | EvProbe nat bool

inductive mon_step :: "monitor \<Rightarrow> mon_event \<Rightarrow> monitor \<Rightarrow> bool" where
  register: "mon_step m (EvRegister s cid ip cfg) (MonitorRegister m s cid ip cfg)"
| begin_run: "mon_step m (EvStart s) (MonitorStart m s)"
| probe: "a \<in> set (monRunning m) \<Longrightarrow> record_probe ok (monHeap m ! a) = Inr c \<Longrightarrow>
    mon_step m (EvProbe a ok) (m\<lparr>monHeap := (monHeap m)[a := c]\<rparr>)"

inductive_cases mon_stepE: "mon_step m ev m'"

text \<open>What \<open>WaitHealthy\<close> returns: it takes the check from the map when it is called in state \<open>m\<close>, and
  returns in a later state \<open>m'\<close> when the channel is closed or the context is done.\<close>

inductive WaitHealthy :: "monitor \<Rightarrow> string \<Rightarrow> monitor \<Rightarrow> bool \<Rightarrow> error option \<Rightarrow> bool" where
  unknown: "map_of (monChecks m) s = None \<Longrightarrow> WaitHealthy m s m' done (Some (Err ''not registered''))"
| ready: "map_of (monChecks m) s = Some a \<Longrightarrow> ckReadyClosed (monHeap m' ! a) \<Longrightarrow> WaitHealthy m s m' done None"
| cancelled: "map_of (monChecks m) s = Some a \<Longrightarrow> WaitHealthy m s m' True (Some (Err ''context done''))"

inductive_simps WaitHealthy_None: "WaitHealthy m s m' d None"

subsection \<open>Resolved probes\<close>

text \<open>C40: Every resolved probe has a positive failure threshold, is an exec probe with a command or an
  HTTP probe with a scheme and a path, never a TCP probe; a readiness probe wins over a liveness
  probe and both over the compose health check; and a probe given in whole seconds within the
  range of a duration has a positive interval and timeout.\<close>

theorem ResolveProbe_wellformed:
  assumes "ResolveProbe svc = Some cfg"
  shows "0 < pcfFailureThreshold cfg \<and>
         (pcfType cfg = ProbeExec \<and> pcfExecCommand cfg \<noteq> [] \<or>
          pcfType cfg = ProbeHTTP \<and> pcfHTTPScheme cfg \<noteq> '''' \<and> pcfHTTPPath cfg \<noteq> '''') \<and>
         (\<forall>x ps p. svcXNixCompose svc = Some x \<and> xProbes x = Some ps \<and>
            (prbReadiness ps = Some p \<or> prbReadiness ps = None \<and> prbLiveness ps = Some p) \<longrightarrow>
            resolveK8sProbe p = Some cfg \<and>
            (prPeriodSeconds p < 2 ^ 33 \<and> prTimeoutSeconds p < 2 ^ 33 \<longrightarrow> 0 < pcfInterval cfg \<and> 0 < pcfTimeout cfg))"
proof -
  have pos: "0 < applyDuration s d" if "s < 2 ^ 33" "0 < d" for s d
  proof (cases "0 < s")
    case True
    then have "wrap64 (s * Second) = s * Second" using that by (intro wrap64_id) (simp_all add: Second_def)
    then show ?thesis using True by (simp add: applyDuration_def Second_def)
  qed (use that in \<open>simp add: applyDuration_def\<close>)
  have k8s: "0 < pcfFailureThreshold cfg \<and>
      (pcfType cfg = ProbeExec \<and> pcfExecCommand cfg \<noteq> [] \<or>
       pcfType cfg = ProbeHTTP \<and> pcfHTTPScheme cfg \<noteq> '''' \<and> pcfHTTPPath cfg \<noteq> '''') \<and>
      (prPeriodSeconds p < 2 ^ 33 \<and> prTimeoutSeconds p < 2 ^ 33 \<longrightarrow> 0 < pcfInterval cfg \<and> 0 < pcfTimeout cfg)"
    if "resolveK8sProbe p = Some cfg" for p
  proof -
    have "pcfInterval cfg = applyDuration (prPeriodSeconds p) DefaultInterval \<and>
        pcfTimeout cfg = applyDuration (prTimeoutSeconds p) DefaultTimeout"
      using that by (auto simp: resolveK8sProbe_def Let_def split: option.splits if_splits)
    moreover have "0 < DefaultInterval" "0 < DefaultTimeout"
      by (simp_all add: DefaultInterval_def DefaultTimeout_def Second_def)
    ultimately have "prPeriodSeconds p < 2 ^ 33 \<and> prTimeoutSeconds p < 2 ^ 33 \<longrightarrow> 0 < pcfInterval cfg \<and> 0 < pcfTimeout cfg"
      using pos by simp
    moreover have "0 < pcfFailureThreshold cfg \<and>
      (pcfType cfg = ProbeExec \<and> pcfExecCommand cfg \<noteq> [] \<or>
       pcfType cfg = ProbeHTTP \<and> pcfHTTPScheme cfg \<noteq> '''' \<and> pcfHTTPPath cfg \<noteq> '''')"
      using that by (auto simp: resolveK8sProbe_def Let_def applyThreshold_def DefaultFailureThreshold_def
          split: option.splits if_splits)
    ultimately show ?thesis by blast
  qed
  have compose: "0 < pcfFailureThreshold (resolveComposeHealthcheck hc) \<and>
      pcfType (resolveComposeHealthcheck hc) = ProbeExec \<and> pcfExecCommand (resolveComposeHealthcheck hc) \<noteq> []"
    if "cvParts (hcTest hc) \<noteq> []" for hc
    using that by (cases "cvParts (hcTest hc)") (auto simp: resolveComposeHealthcheck_def Let_def DefaultFailureThreshold_def)
  show ?thesis
  proof (cases "\<exists>p. resolveK8sProbe p = Some cfg")
    case True
    then show ?thesis using assms k8s unfolding ResolveProbe_def Let_def by (auto split: option.splits)
  next
    case False
    then show ?thesis using assms compose unfolding ResolveProbe_def Let_def by (auto split: option.splits if_splits)
  qed
qed

definition demo_probe :: probe where
  "demo_probe = \<lparr>prHTTPGet = Some \<lparr>phgPath = '''', phgPort = 8080, phgScheme = ''''\<rparr>, prExec = None,
     prInitialDelaySeconds = 0, prPeriodSeconds = 2, prTimeoutSeconds = 0, prFailureThreshold = 0\<rparr>"

text \<open>Witness of \<open>ResolveProbe_wellformed\<close>: an HTTP readiness probe.\<close>

theorem ResolveProbe_wellformed_witness:
  "\<exists>cfg. ResolveProbe (zero_service\<lparr>svcXNixCompose := Some (zero_extended\<lparr>xProbes :=
      Some \<lparr>prbLiveness = None, prbReadiness = Some demo_probe\<rparr>\<rparr>)\<rparr>) = Some cfg \<and>
     resolveK8sProbe demo_probe = Some cfg \<and> 0 < pcfInterval cfg \<and> 0 < pcfTimeout cfg"
proof -
  let ?svc = "zero_service\<lparr>svcXNixCompose := Some (zero_extended\<lparr>xProbes := Some \<lparr>prbLiveness = None, prbReadiness = Some demo_probe\<rparr>\<rparr>)\<rparr>"
  obtain cfg where "ResolveProbe ?svc = Some cfg"
    by (simp add: ResolveProbe_def resolveK8sProbe_def demo_probe_def)
  moreover have "prPeriodSeconds demo_probe < 2 ^ 33 \<and> prTimeoutSeconds demo_probe < 2 ^ 33" by (simp add: demo_probe_def)
  ultimately show ?thesis using ResolveProbe_wellformed [of ?svc cfg] by simp
qed

text \<open>A compose health check keeps its command without the \<open>CMD\<close> or \<open>CMD-SHELL\<close> marker, so a shell
  test is executed as a single program name, without a shell; and an interval of \<open>0s\<close>, which parses,
  makes the probe goroutine panic when it creates its ticker.\<close>

theorem compose_healthcheck_pitfalls:
  "pcfExecCommand (resolveComposeHealthcheck (hc\<lparr>hcTest := \<lparr>cvParts = [''CMD-SHELL'', script]\<rparr>\<rparr>)) = [script] \<and>
   run_ticker (c\<lparr>ckCfg := resolveComposeHealthcheck (hc\<lparr>hcInterval := ''0s''\<rparr>)\<rparr>) =
     Some (Panic ''non-positive interval for NewTicker'')"
  by (simp add: ParseDuration_0s resolveComposeHealthcheck_def run_ticker_def parseDurationOrDefault_def Let_def)

subsection \<open>The monitor keeps its invariant\<close>

definition monitor_inv :: "monitor \<Rightarrow> bool" where
  "monitor_inv m \<longleftrightarrow> list_all (\<lambda>(s, a). a < length (monHeap m)) (monChecks m) \<and>
     list_all (\<lambda>a. a < length (monHeap m)) (monRunning m) \<and>
     list_all (\<lambda>c. ckReadyOnce c = ckReadyClosed c) (monHeap m)"

lemma record_probe_total:
  "ckReadyOnce c = ckReadyClosed c \<Longrightarrow> \<exists>c'. record_probe ok c = Inr c'"
  by (simp add: record_probe_def close_ready_def Let_def)

lemma record_probe_keeps:
  "record_probe ok c = Inr c' \<Longrightarrow> ckReadyOnce c = ckReadyClosed c \<Longrightarrow>
   ckReadyOnce c' = ckReadyClosed c' \<and> ckCfg c' = ckCfg c \<and> ckContainerID c' = ckContainerID c \<and>
   ckReadyClosed c' = (ok \<or> ckReadyClosed c)"
  by (auto simp: record_probe_def close_ready_def Let_def split: if_splits)

lemma monitor_inv_step:
  assumes "monitor_inv m" and "mon_step m ev m'"
  shows "monitor_inv m'"
  using assms(2)
proof cases
  case (register s cid ip cfg)
  have "(x, y) \<in> set (gm_put s (length (monHeap m)) (monChecks m)) \<Longrightarrow> y < Suc (length (monHeap m))" for x y
    using assms(1) gm_put_memD by (fastforce simp: monitor_inv_def list_all_iff)
  then show ?thesis using assms(1) register by (auto simp: monitor_inv_def MonitorRegister_def list_all_iff)
next
  case (begin_run s)
  have "map_of (monChecks m) s = Some a \<Longrightarrow> a < length (monHeap m)" for a
    using assms(1) map_of_SomeD by (fastforce simp: monitor_inv_def list_all_iff)
  then show ?thesis using assms(1) begin_run by (auto simp: monitor_inv_def MonitorStart_def split: option.splits)
next
  case (probe a ok c)
  have "a < length (monHeap m)" using assms(1) probe by (auto simp: monitor_inv_def list_all_iff)
  then have "ckReadyOnce c = ckReadyClosed c"
    using assms(1) record_probe_keeps [OF probe(4)] by (simp add: monitor_inv_def list_all_iff)
  then show ?thesis using assms(1) probe set_update_subset_insert [of "monHeap m" a c]
    by (auto simp: monitor_inv_def list_all_iff)
qed

definition ready_at :: "nat \<Rightarrow> monitor \<Rightarrow> bool" where
  "ready_at a m \<longleftrightarrow> a < length (monHeap m) \<and> ckReadyClosed (monHeap m ! a)"

interpretation mon: monotone_system NewMonitor mon_step monitor_inv "ready_at a" for a
proof
  show "monitor_inv NewMonitor" by (simp add: monitor_inv_def NewMonitor_def)
  show "monitor_inv s \<Longrightarrow> mon_step s l s' \<Longrightarrow> monitor_inv s'" for s l s' by (rule monitor_inv_step)
  fix m ev m' assume inv: "monitor_inv m" and r: "ready_at a m" and st: "mon_step m ev m'"
  from st show "ready_at a m'"
  proof cases
    case (probe b ok c)
    have "b < length (monHeap m)" using inv probe by (auto simp: monitor_inv_def list_all_iff)
    then have "ckReadyOnce (monHeap m ! b) = ckReadyClosed (monHeap m ! b)" using inv by (simp add: monitor_inv_def list_all_iff)
    from record_probe_keeps [OF probe(4) this] r probe(2) show ?thesis
      by (cases "a = b") (auto simp: ready_at_def)
  qed (use r in \<open>auto simp: ready_at_def MonitorRegister_def MonitorStart_def nth_append split: option.splits\<close>)
qed

subsection \<open>Health is a function of the probe history\<close>

text \<open>The results of the probes of one check, in order, and what they say: the number of failures since
  the last success, and the state a monitor should report.\<close>

fun probe_results :: "nat \<Rightarrow> mon_event list \<Rightarrow> bool list" where
  "probe_results a [] = []"
| "probe_results a (EvProbe b ok # evs) = (if b = a then ok # probe_results a evs else probe_results a evs)"
| "probe_results a (_ # evs) = probe_results a evs"

definition trailing_failures :: "bool list \<Rightarrow> nat" where
  "trailing_failures h = length (takeWhile Not (rev h))"

definition health_spec :: "int \<Rightarrow> bool list \<Rightarrow> health_state" where
  "health_spec threshold h =
     (if int (trailing_failures h) \<ge> threshold then StateUnhealthy
      else if True \<in> set h then StateHealthy else StateStarting)"

lemma probe_results_append: "probe_results a (xs @ ys) = probe_results a xs @ probe_results a ys"
  by (induction a xs rule: probe_results.induct) simp_all

lemma trailing_failures_snoc [simp]:
  "trailing_failures (h @ [ok]) = (if ok then 0 else Suc (trailing_failures h))"
  by (simp add: trailing_failures_def)

lemma trailing_failures_le: "trailing_failures h \<le> length h"
  unfolding trailing_failures_def using length_takeWhile_le [of Not "rev h"] by simp

text \<open>A fresh check has no history: no goroutine holds its address before it is allocated.\<close>

lemma mon_probe_fresh:
  assumes "reach NewMonitor mon_step evs m" and "length (monHeap m) \<le> a"
  shows "probe_results a evs = []"
  using assms
proof (induction rule: reach.induct)
  case (more evs m ev m')
  have inv: "monitor_inv m" using mon.inv_reach [OF more.hyps(1)] .
  from more.hyps(2) show ?case
  proof cases
    case (probe b ok c)
    have "b < length (monHeap m)" using inv probe by (auto simp: monitor_inv_def list_all_iff)
    then show ?thesis using more probe by (simp add: probe_results_append)
  qed (use more in \<open>auto simp: probe_results_append MonitorRegister_def MonitorStart_def split: option.splits\<close>)
qed simp

definition tracks :: "check \<Rightarrow> bool list \<Rightarrow> bool" where
  "tracks c h \<longleftrightarrow> (0 < pcfFailureThreshold (ckCfg c) \<and> int (length h) < 2 ^ 63 \<longrightarrow>
     ckState c = health_spec (pcfFailureThreshold (ckCfg c)) h \<and> ckFailures c = int (trailing_failures h) \<and>
     ckReadyClosed c = (True \<in> set h))"

lemma tracks_probe:
  assumes "tracks c h" and "record_probe ok c = Inr c'" and "ckReadyOnce c = ckReadyClosed c"
  shows "tracks c' (h @ [ok])"
proof (cases ok)
  case True
  then show ?thesis using assms by (auto simp: tracks_def record_probe_def close_ready_def health_spec_def split: if_splits)
next
  case False
  have "wrap64 (int (trailing_failures h) + 1) = int (trailing_failures h) + 1" if "int (length h) + 1 < 2 ^ 63"
    using that trailing_failures_le [of h] by (intro wrap64_id) (simp_all flip: of_nat_le_iff)
  then show ?thesis using False assms
    by (auto simp: tracks_def record_probe_def health_spec_def Let_def split: if_splits)
qed

lemma mon_tracks:
  assumes "reach NewMonitor mon_step evs m" and "a < length (monHeap m)"
  shows "tracks (monHeap m ! a) (probe_results a evs)"
  using assms
proof (induction rule: reach.induct)
  case start
  then show ?case by (simp add: NewMonitor_def)
next
  case (more evs m ev m')
  have inv: "monitor_inv m" using mon.inv_reach [OF more.hyps(1)] .
  from more.hyps(2) show ?case
  proof cases
    case (probe b ok c)
    have b: "b < length (monHeap m)" using inv probe by (auto simp: monitor_inv_def list_all_iff)
    then have once: "ckReadyOnce (monHeap m ! b) = ckReadyClosed (monHeap m ! b)" using inv by (simp add: monitor_inv_def list_all_iff)
    show ?thesis
    proof (cases "a = b")
      case True
      then have "tracks (monHeap m ! b) (probe_results a evs)" using more.IH b by simp
      from tracks_probe [OF this probe(4) once] show ?thesis using True b probe(1,2)
        by (simp add: probe_results_append)
    qed (use more probe in \<open>simp add: probe_results_append\<close>)
  next
    case (register s cid ip cfg)
    show ?thesis
    proof (cases "a < length (monHeap m)")
      case False
      then have "a = length (monHeap m)" using more.prems register by (simp add: MonitorRegister_def)
      then show ?thesis using mon_probe_fresh [OF more.hyps(1), of a] register
        by (simp add: probe_results_append MonitorRegister_def tracks_def health_spec_def trailing_failures_def)
    qed (use more register in \<open>simp add: probe_results_append MonitorRegister_def nth_append\<close>)
  next
    case (begin_run s)
    then show ?thesis using more by (auto simp: probe_results_append MonitorStart_def split: option.splits)
  qed
qed

text \<open>C5: In every interleaving of registrations, starts and probes, the state of a check is the
  function of its own probe history that the comments promise: unhealthy exactly when the last
  \<open>FailureThreshold\<close> probes failed, healthy otherwise once a probe has succeeded, starting before;
  the channel is closed exactly when some probe has succeeded.\<close>

theorem monitor_history:
  assumes "reach NewMonitor mon_step evs m" and "a < length (monHeap m)"
    and "0 < pcfFailureThreshold (ckCfg (monHeap m ! a))" and "int (length evs) < 2 ^ 63"
  shows "ckState (monHeap m ! a) = health_spec (pcfFailureThreshold (ckCfg (monHeap m ! a))) (probe_results a evs) \<and>
         ckFailures (monHeap m ! a) = int (trailing_failures (probe_results a evs)) \<and>
         (ckReadyClosed (monHeap m ! a) \<longleftrightarrow> True \<in> set (probe_results a evs))"
proof -
  have "length (probe_results a evs) \<le> length evs" by (induction a evs rule: probe_results.induct) auto
  then have "int (length (probe_results a evs)) < 2 ^ 63" using assms(4) by linarith
  then show ?thesis using mon_tracks [OF assms(1,2)] assms(3) by (simp add: tracks_def)
qed

lemma heap_grows: "reach m mon_step evs m' \<Longrightarrow> length (monHeap m) \<le> length (monHeap m')"
proof (induction rule: reach.induct)
  case (more evs m' ev m'')
  from more.hyps(2) have "length (monHeap m') \<le> length (monHeap m'')"
    by cases (auto simp: MonitorRegister_def MonitorStart_def split: option.splits)
  with more.IH show ?case by simp
qed simp

text \<open>The channel of a check is closed exactly when one of its probes has succeeded.\<close>

lemma ready_iff_probed:
  assumes "reach NewMonitor mon_step evs m" and "a < length (monHeap m)"
  shows "ckReadyClosed (monHeap m ! a) \<longleftrightarrow> EvProbe a True \<in> set evs"
  using assms
proof (induction rule: reach.induct)
  case start
  then show ?case by (simp add: NewMonitor_def)
next
  case (more evs m ev m')
  have inv: "monitor_inv m" using mon.inv_reach [OF more.hyps(1)] .
  have fresh: "EvProbe a True \<notin> set evs" if "length (monHeap m) \<le> a"
  proof -
    have "EvProbe a True \<in> set evs \<Longrightarrow> True \<in> set (probe_results a evs)" for evs
      by (induction a evs rule: probe_results.induct) auto
    from this [of evs] show ?thesis using mon_probe_fresh [OF more.hyps(1) that] by auto
  qed
  from more.hyps(2) show ?case
  proof cases
    case (probe b ok c)
    have b: "b < length (monHeap m)" using inv probe by (auto simp: monitor_inv_def list_all_iff)
    then have "ckReadyOnce (monHeap m ! b) = ckReadyClosed (monHeap m ! b)" using inv by (simp add: monitor_inv_def list_all_iff)
    from record_probe_keeps [OF probe(4) this] show ?thesis using more probe b by (cases "a = b") auto
  next
    case (register s cid ip cfg)
    show ?thesis
    proof (cases "a < length (monHeap m)")
      case False
      then have "a = length (monHeap m)" using more.prems register by (simp add: MonitorRegister_def)
      then show ?thesis using fresh register by (simp add: MonitorRegister_def)
    qed (use more register in \<open>simp add: MonitorRegister_def nth_append\<close>)
  next
    case (begin_run s)
    then show ?thesis using more by (auto simp: MonitorStart_def split: option.splits)
  qed
qed

text \<open>C37: No reachable probe panics by closing the channel twice, and a service that has been ready stays
  ready for every waiter, whatever happens later.  A call of \<open>WaitHealthy\<close> that is made after some events and
  looked at after some more can return success exactly when one of the probes of the check that was registered for
  the service when it was called has succeeded among all these events.\<close>

theorem monitor_ready_safe:
  assumes "reach NewMonitor mon_step evs m"
  shows "(\<forall>a \<in> set (monRunning m). \<forall>ok. \<exists>c. record_probe ok (monHeap m ! a) = Inr c) \<and>
         (\<forall>s evs' m' a. map_of (monChecks m) s = Some a \<and> ckReadyClosed (monHeap m ! a) \<and> reach m mon_step evs' m' \<longrightarrow>
            WaitHealthy m s m' done None) \<and>
         (\<forall>s evs' m'. reach m mon_step evs' m' \<longrightarrow>
            (WaitHealthy m s m' done None \<longleftrightarrow> (\<exists>a. map_of (monChecks m) s = Some a \<and> EvProbe a True \<in> set (evs @ evs'))))"
proof (intro conjI allI ballI impI)
  have inv: "monitor_inv m" using mon.inv_reach [OF assms] .
  have addr: "a < length (monHeap m)" if "map_of (monChecks m) s = Some a" for s a
    using inv that map_of_SomeD [of "monChecks m" s a] by (auto simp: monitor_inv_def list_all_iff)
  show "\<exists>c. record_probe ok (monHeap m ! a) = Inr c" if "a \<in> set (monRunning m)" for a ok
    using inv that by (intro record_probe_total) (auto simp: monitor_inv_def list_all_iff)
  show "WaitHealthy m s m' done None"
    if h: "map_of (monChecks m) s = Some a \<and> ckReadyClosed (monHeap m ! a) \<and> reach m mon_step evs' m'" for s evs' m' a
  proof -
    have "a < length (monHeap m)" using h addr by blast
    then have "ready_at a m'" using mon.fact_reach [of m evs' m' a] inv h by (simp add: ready_at_def)
    then show ?thesis using h by (auto simp: ready_at_def intro: WaitHealthy.ready)
  qed
  show "WaitHealthy m s m' done None \<longleftrightarrow> (\<exists>a. map_of (monChecks m) s = Some a \<and> EvProbe a True \<in> set (evs @ evs'))"
    if r: "reach m mon_step evs' m'" for s evs' m'
  proof -
    have all: "reach NewMonitor mon_step (evs @ evs') m'" using r assms by (rule reach_trans)
    have "ckReadyClosed (monHeap m' ! a) \<longleftrightarrow> EvProbe a True \<in> set (evs @ evs')" if "map_of (monChecks m) s = Some a" for a
    proof (rule ready_iff_probed [OF all])
      show "a < length (monHeap m')" using heap_grows [OF r] addr [OF that] by simp
    qed
    then show ?thesis by (auto simp: WaitHealthy_None)
  qed
qed
text \<open>A run of the monitor: one service, a failed probe, then a successful one.\<close>

definition demo_cfg :: probe_config where
  "demo_cfg = \<lparr>pcfType = ProbeExec, pcfExecCommand = [''true''], pcfHTTPScheme = '''', pcfHTTPPort = 0, pcfHTTPPath = '''',
     pcfTCPPort = 0, pcfInterval = DefaultInterval, pcfTimeout = DefaultTimeout, pcfInitialDelay = 0, pcfFailureThreshold = 1\<rparr>"

definition demo_check :: "health_state \<Rightarrow> int \<Rightarrow> bool \<Rightarrow> check" where
  "demo_check st f r = \<lparr>ckContainerID = ''c'', ckPodIP = ''ip'', ckCfg = demo_cfg, ckState = st, ckFailures = f,
     ckReadyClosed = r, ckReadyOnce = r\<rparr>"

definition demo_events :: "mon_event list" where
  "demo_events = [EvRegister ''db'' ''c'' ''ip'' demo_cfg, EvStart ''db'', EvProbe 0 False, EvProbe 0 True]"

definition demo_monitor :: "check \<Rightarrow> monitor" where
  "demo_monitor c = \<lparr>monChecks = [(''db'', 0)], monHeap = [c], monRunning = [0]\<rparr>"

lemma demo_reach: "reach NewMonitor mon_step demo_events (demo_monitor (demo_check StateHealthy 0 True))"
proof -
  let ?reg = "MonitorRegister NewMonitor ''db'' ''c'' ''ip'' demo_cfg"
  have "reach NewMonitor mon_step ([] @ [EvRegister ''db'' ''c'' ''ip'' demo_cfg]) ?reg"
    by (rule reach.more, rule reach.start, rule mon_step.register)
  then have "reach NewMonitor mon_step (([] @ [EvRegister ''db'' ''c'' ''ip'' demo_cfg]) @ [EvStart ''db'']) (MonitorStart ?reg ''db'')"
    by (rule reach.more) (rule mon_step.begin_run)
  moreover have "MonitorStart ?reg ''db'' = demo_monitor (demo_check StateStarting 0 False)"
    by (simp add: MonitorStart_def MonitorRegister_def NewMonitor_def demo_monitor_def demo_check_def gm_put_def)
  moreover have "mon_step (demo_monitor (demo_check StateStarting 0 False)) (EvProbe 0 False) (demo_monitor (demo_check StateUnhealthy 1 False))"
    using mon_step.probe [of 0 "demo_monitor (demo_check StateStarting 0 False)" False "demo_check StateUnhealthy 1 False"]
    by (simp add: demo_monitor_def demo_check_def record_probe_def demo_cfg_def wrap64_def)
  moreover have "mon_step (demo_monitor (demo_check StateUnhealthy 1 False)) (EvProbe 0 True) (demo_monitor (demo_check StateHealthy 0 True))"
    using mon_step.probe [of 0 "demo_monitor (demo_check StateUnhealthy 1 False)" True "demo_check StateHealthy 0 True"]
    by (simp add: demo_monitor_def demo_check_def record_probe_def close_ready_def demo_cfg_def)
  ultimately have "reach NewMonitor mon_step (((([] @ [EvRegister ''db'' ''c'' ''ip'' demo_cfg]) @ [EvStart ''db'']) @ [EvProbe 0 False]) @ [EvProbe 0 True])
      (demo_monitor (demo_check StateHealthy 0 True))" by (metis reach.more)
  then show ?thesis by (simp add: demo_events_def)
qed

text \<open>Witness of \<open>monitor_history\<close>.\<close>

theorem monitor_history_witness:
  "ckState (monHeap (demo_monitor (demo_check StateHealthy 0 True)) ! 0) = health_spec 1 [False, True]"
proof -
  have "probe_results 0 demo_events = [False, True]" by (simp add: demo_events_def)
  then show ?thesis using monitor_history [OF demo_reach, of 0]
    by (simp add: demo_monitor_def demo_check_def demo_cfg_def demo_events_def)
qed

text \<open>Witness of \<open>monitor_ready_safe\<close>.\<close>

theorem monitor_ready_safe_witness:
  "WaitHealthy (demo_monitor (demo_check StateHealthy 0 True)) ''db'' (demo_monitor (demo_check StateHealthy 0 True)) False None"
proof -
  let ?m = "demo_monitor (demo_check StateHealthy 0 True)"
  have "map_of (monChecks ?m) ''db'' = Some 0 \<and> ckReadyClosed (monHeap ?m ! 0) \<and> reach ?m mon_step [] ?m"
    by (simp add: demo_monitor_def demo_check_def reach.start)
  then show ?thesis using monitor_ready_safe [OF demo_reach, of False] by blast
qed

end
