(* ===== verification/Conditions.thy ===== *)
theory Conditions
  imports Lifecycle Engine Health
begin

text \<open>
  \<open>src/pkg/orchestrate/conditions.go\<close>: the waits of the engine for a started, a healthy and a completed
  dependency, put together from the runtime client (\<open>Lifecycle\<close>), the probes and the monitor
  (\<open>Health\<close>) and the records of the engine.

  Time and the context are the record \<open>wait_env\<close>: what the world is after a delay, how many waits of a
  length end before the context does, and what a probe sees.  The monitor of a wait is a local
  variable with one check and one goroutine, so the goroutine and the waiting caller run as one
  loop here: the wait returns when the goroutine closes the channel or when the context ends.
\<close>

subsection \<open>The client that the resources call\<close>

definition CriClient :: "'w runtime \<Rightarrow> (string \<Rightarrow> 'w \<Rightarrow> error option \<times> 'w) \<Rightarrow> 'w cri_client" where
  "CriClient rt removeImage = \<lparr>clServiceUp = ServiceUp rt, clServiceDown = ServiceDown rt, clProjectDown = ProjectDown rt,
     clEnsureImage = (\<lambda>i w. case EnsureImage (rtImageEnv rt w) i of (r, ops) \<Rightarrow> (r, rtImageOps rt ops w)),
     clRemoveImage = removeImage, clImageStatus = (\<lambda>i w. ieImageStatus (rtImageEnv rt w) i),
     clListPodSandboxes = rtListPodSandbox rt, clListContainers = rtListContainers rt,
     clContainerStatus = (\<lambda>c w. case rtContainerStatus rt c w of Inl e \<Rightarrow> Inl e | Inr st \<Rightarrow> Inr (map_option snd st))\<rparr>"

subsection \<open>Reading the specification and the container\<close>

text \<open>A rollout body that is absent does not decode.\<close>

definition loadContainerSpec :: "'b bolt \<Rightarrow> 'b db \<Rightarrow> string \<Rightarrow> error + container_spec option" where
  "loadContainerSpec B db resourceID =
     (case Load B db RolloutsById resourceID of
        None \<Rightarrow> Inr None
      | Some rollout \<Rightarrow>
          (case unmarshal_struct ''rollout'' (\<lambda>kvs. Some (dec_raw_field ''body'' kvs)) rollout of
             Inl e \<Rightarrow> Inl e
           | Inr body \<Rightarrow>
               let direct = (case unmarshal_struct ''container spec'' dec_container_spec body of
                     Inr c \<Rightarrow> if csService c \<noteq> '''' then Inr (Some c) else Inr None
                   | Inl _ \<Rightarrow> Inr None)
               in case unmarshal_struct ''service spec'' dec_service_spec body of
                    Inr c \<Rightarrow> if csService c \<noteq> '''' then Inr (Some c) else direct
                  | Inl _ \<Rightarrow> direct))"

definition evalServiceFromSpec :: "container_spec \<Rightarrow> service" where
  "evalServiceFromSpec s = zero_service\<lparr>svcHealthcheck := csHealthcheck s\<rparr>"

definition lookupContainerInfo :: "'w runtime \<Rightarrow> string \<Rightarrow> string \<Rightarrow> 'w \<Rightarrow> error + string \<times> string" where
  "lookupContainerInfo rt project service w =
     (case rtListPodSandbox rt [(LabelProject, project), (LabelService, service)] w of
        Inl e \<Rightarrow> Inl e
      | Inr [] \<Rightarrow> Inl (Err ''no pods found'')
      | Inr (pod # _) \<Rightarrow>
          (case rtListContainers rt (psId pod) w of
             Inl e \<Rightarrow> Inl e
           | Inr [] \<Rightarrow> Inl (Err ''no containers found'')
           | Inr (ctr # _) \<Rightarrow>
               Inr (crId ctr, case rtPodSandboxIp rt (psId pod) w of Inr (Some ip) \<Rightarrow> ip | _ \<Rightarrow> '''')))"

subsection \<open>The waits\<close>

record 'w wait_env =
  weAfter :: "int \<Rightarrow> 'w \<Rightarrow> 'w"
  weRounds :: "int \<Rightarrow> 'w \<Rightarrow> nat"
  weExecSync :: "'w \<Rightarrow> string \<Rightarrow> string list \<Rightarrow> int \<Rightarrow> error + int"
  weHTTPGet :: "'w \<Rightarrow> string \<Rightarrow> error + int"
  weDial :: "'w \<Rightarrow> string \<Rightarrow> error option"

definition pollInterval :: int where "pollInterval = 2 * Second"

definition engine_waitStarted :: "'w wait_env \<Rightarrow> 'w registry \<Rightarrow> string \<Rightarrow> 'w \<Rightarrow> error option \<times> 'w" where
  "engine_waitStarted env reg resourceID w =
     waitStarted reg (weAfter env pollInterval) (weRounds env pollInterval w) resourceID w"

definition env_probe :: "'w wait_env \<Rightarrow> check \<Rightarrow> 'w \<Rightarrow> bool" where
  "env_probe env c w = runProbe (weExecSync env w) (weHTTPGet env w) (weDial env w) c"

fun probe_rounds :: "'w wait_env \<Rightarrow> nat \<Rightarrow> check \<Rightarrow> 'w \<Rightarrow> error option \<times> 'w" where
  "probe_rounds env n c w =
     (case record_probe (env_probe env c w) c of
        Inl e \<Rightarrow> (Some e, w)
      | Inr c' \<Rightarrow>
          if ckReadyClosed c' then (None, w)
          else case n of
                 0 \<Rightarrow> (Some (Err ''context done''), w)
               | Suc k \<Rightarrow> probe_rounds env k c' (weAfter env (pcfInterval (ckCfg c)) w))"

definition monitor_wait :: "'w wait_env \<Rightarrow> check \<Rightarrow> 'w \<Rightarrow> error option \<times> 'w" where
  "monitor_wait env c w =
     (let delay = pcfInitialDelay (ckCfg c)
      in if 0 < delay \<and> weRounds env delay w = 0 then (Some (Err ''context done''), w)
         else let w1 = (if 0 < delay then weAfter env delay w else w)
              in case run_ticker c of
                   Some e \<Rightarrow> (Some e, w1)
                 | None \<Rightarrow> probe_rounds env (weRounds env (pcfInterval (ckCfg c)) w1) c w1)"

definition waitHealthy :: "'w wait_env \<Rightarrow> 'w registry \<Rightarrow> 'w runtime option \<Rightarrow> 'b bolt \<Rightarrow> string \<Rightarrow> 'b db \<Rightarrow> 'w \<Rightarrow>
    error option \<times> 'w" where
  "waitHealthy env reg client B resourceID db w =
     (case client of
        None \<Rightarrow> engine_waitStarted env reg resourceID w
      | Some rt \<Rightarrow>
          (case loadContainerSpec B db resourceID of
             Inr (Some s) \<Rightarrow>
               if csHealthcheck s = None then engine_waitStarted env reg resourceID w
               else (case engine_waitStarted env reg resourceID w of
                  (Some e, w1) \<Rightarrow> (Some e, w1)
                | (None, w1) \<Rightarrow>
                    (case splitResourceID resourceID of (project, service) \<Rightarrow>
                     (case lookupContainerInfo rt project service w1 of
                        Inl e \<Rightarrow> (Some e, w1)
                      | Inr (containerID, podIP) \<Rightarrow>
                          (case ResolveProbe (evalServiceFromSpec s) of
                             None \<Rightarrow> (None, w1)
                           | Some probe \<Rightarrow>
                               let m = MonitorStart (MonitorRegister NewMonitor service containerID podIP probe) service
                               in case map_of (monChecks m) service of
                                    None \<Rightarrow> (Some (Err ''not registered''), w1)
                                  | Some a \<Rightarrow> monitor_wait env (monHeap m ! a) w1))))
           | _ \<Rightarrow> engine_waitStarted env reg resourceID w))"

definition waitCompleted :: "'w wait_env \<Rightarrow> 'w registry \<Rightarrow> 'w runtime option \<Rightarrow> string \<Rightarrow> 'w \<Rightarrow> error option \<times> 'w" where
  "waitCompleted env reg client resourceID w =
     (case client of
        None \<Rightarrow> (Some (Err ''waitCompleted requires CRI client''), w)
      | Some rt \<Rightarrow>
          (case engine_waitStarted env reg resourceID w of
             (Some e, w1) \<Rightarrow> (Some e, w1)
           | (None, w1) \<Rightarrow>
               (case splitResourceID resourceID of (project, service) \<Rightarrow>
                (case lookupContainerInfo rt project service w1 of
                   Inl e \<Rightarrow> (Some e, w1)
                 | Inr (containerID, _) \<Rightarrow>
                     (case WaitExited rt (weAfter env pollInterval) (weRounds env pollInterval w1) containerID w1 of
                        (Inl e, w2) \<Rightarrow> (Some e, w2)
                      | (Inr code, w2) \<Rightarrow> (if code \<noteq> 0 then Some (Err (resourceID @ '' exited'')) else None, w2))))))"

definition engine_waits :: "'w wait_env \<Rightarrow> 'w registry \<Rightarrow> 'w runtime option \<Rightarrow> 'b bolt \<Rightarrow> ('b, 'w) waits" where
  "engine_waits env reg client B = \<lparr>wtHealthy = waitHealthy env reg client B,
     wtCompleted = (\<lambda>i db. waitCompleted env reg client i), wtStarted = (\<lambda>i db. engine_waitStarted env reg i)\<rparr>"


subsection \<open>When the waits succeed\<close>

text \<open>The check that a wait probes: as registered, and never ready before its first success.\<close>

lemma record_probe_fresh:
  assumes "\<not> ckReadyOnce c" and "\<not> ckReadyClosed c"
  shows "\<exists>c'. record_probe ok c = Inr c' \<and> ckReadyClosed c' = ok \<and> ckReadyOnce c' = ok \<and>
    ckCfg c' = ckCfg c \<and> ckContainerID c' = ckContainerID c \<and> ckPodIP c' = ckPodIP c"
  using assms by (simp add: record_probe_def close_ready_def Let_def)

lemma env_probe_cong:
  "ckCfg c' = ckCfg c \<Longrightarrow> ckContainerID c' = ckContainerID c \<Longrightarrow> ckPodIP c' = ckPodIP c \<Longrightarrow> env_probe env c' = env_probe env c"
  by (simp add: env_probe_def runProbe_def runExecProbe_def runHTTPProbe_def runTCPProbe_def fun_eq_iff split: probe_type.split)

lemma probe_rounds_iff:
  assumes "\<not> ckReadyOnce c" and "\<not> ckReadyClosed c"
  shows "fst (probe_rounds env n c w) = None \<longleftrightarrow>
    (\<exists>k \<le> n. env_probe env c ((weAfter env (pcfInterval (ckCfg c)) ^^ k) w))"
  using assms
proof (induction n arbitrary: c w)
  case 0
  then obtain c' where "record_probe (env_probe env c w) c = Inr c'" "ckReadyClosed c' = env_probe env c w"
    using record_probe_fresh by blast
  then show ?case by simp
next
  case (Suc n)
  let ?t = "weAfter env (pcfInterval (ckCfg c))"
  from Suc.prems obtain c' where c': "record_probe (env_probe env c w) c = Inr c'" "ckReadyClosed c' = env_probe env c w"
    "ckReadyOnce c' = env_probe env c w" and same: "ckCfg c' = ckCfg c" "env_probe env c' = env_probe env c"
    using record_probe_fresh [of c "env_probe env c w"] env_probe_cong by metis
  show ?case
  proof (cases "env_probe env c w")
    case True
    with c' show ?thesis by (auto intro: exI [of _ 0])
  next
    case False
    then have "fst (probe_rounds env (Suc n) c w) = fst (probe_rounds env n c' (?t w))" using c' by simp
    also have "\<dots> = None \<longleftrightarrow> (\<exists>k \<le> n. env_probe env c ((?t ^^ k) (?t w)))"
      using Suc.IH [of c' "?t w"] c' False same by simp
    also have "\<dots> \<longleftrightarrow> (\<exists>k \<le> Suc n. env_probe env c ((?t ^^ k) w))"
    proof
      assume "\<exists>k \<le> n. env_probe env c ((?t ^^ k) (?t w))"
      then obtain k where "k \<le> n" "env_probe env c ((?t ^^ Suc k) w)" by (auto simp: funpow_swap1)
      then show "\<exists>k \<le> Suc n. env_probe env c ((?t ^^ k) w)" by (meson Suc_le_mono)
    next
      assume "\<exists>k \<le> Suc n. env_probe env c ((?t ^^ k) w)"
      then obtain k where k: "k \<le> Suc n" "env_probe env c ((?t ^^ k) w)" by blast
      with False obtain j where "k = Suc j" by (cases k) auto
      with k show "\<exists>k \<le> n. env_probe env c ((?t ^^ k) (?t w))" by (auto simp: funpow_swap1)
    qed
    finally show ?thesis .
  qed
qed

definition wait_check :: "string \<Rightarrow> string \<Rightarrow> probe_config \<Rightarrow> check" where
  "wait_check containerID podIP cfg = \<lparr>ckContainerID = containerID, ckPodIP = podIP, ckCfg = cfg,
     ckState = StateStarting, ckFailures = 0, ckReadyClosed = False, ckReadyOnce = False\<rparr>"

lemma monitor_wait_iff:
  fixes cid ip cfg defines "c \<equiv> wait_check cid ip cfg"
  shows "fst (monitor_wait env c w) = None \<longleftrightarrow>
    (0 < pcfInitialDelay cfg \<longrightarrow> weRounds env (pcfInitialDelay cfg) w \<noteq> 0) \<and> 0 < pcfInterval cfg \<and>
    (let w1 = (if 0 < pcfInitialDelay cfg then weAfter env (pcfInitialDelay cfg) w else w)
     in \<exists>k \<le> weRounds env (pcfInterval cfg) w1. env_probe env c ((weAfter env (pcfInterval cfg) ^^ k) w1))"
proof -
  have c: "ckCfg c = cfg" "\<not> ckReadyOnce c" "\<not> ckReadyClosed c" by (simp_all add: c_def wait_check_def)
  show ?thesis
    using probe_rounds_iff [OF c(2,3), of env] c(1)
    by (auto simp: monitor_wait_def run_ticker_def Let_def simp del: probe_rounds.simps)
qed

lemma registered_check:
  "map_of (monChecks (MonitorStart (MonitorRegister NewMonitor s cid ip cfg) s)) s = Some 0"
  "monHeap (MonitorStart (MonitorRegister NewMonitor s cid ip cfg) s) ! 0 = wait_check cid ip cfg"
  by (simp_all add: MonitorStart_def MonitorRegister_def NewMonitor_def gm_put_def wait_check_def)

text \<open>Without a compose health check in the recorded specification the wait for a healthy dependency is the
  wait for a start: probes in the other notation are not part of the specification.\<close>

theorem waitHealthy_ignores_probes:
  assumes "\<forall>s. loadContainerSpec B db i = Inr (Some s) \<longrightarrow> csHealthcheck s = None"
  shows "waitHealthy env reg (Some rt) B i db w = engine_waitStarted env reg i w"
  using assms by (auto simp: waitHealthy_def split: sum.splits option.splits)

lemma ResolveProbe_spec:
  "csHealthcheck s = Some hc \<Longrightarrow> cvParts (hcTest hc) \<noteq> [] \<Longrightarrow>
   ResolveProbe (evalServiceFromSpec s) = Some (resolveComposeHealthcheck hc)"
  by (simp add: ResolveProbe_def evalServiceFromSpec_def Let_def zero_service_def command_IsEmpty_def)

text \<open>The health check that the engine has recorded for a resource, when there is one that can be read.\<close>

definition recorded_healthcheck :: "'b bolt \<Rightarrow> 'b db \<Rightarrow> string \<Rightarrow> healthcheck option" where
  "recorded_healthcheck B db i = (case loadContainerSpec B db i of Inr (Some s) \<Rightarrow> csHealthcheck s | _ \<Rightarrow> None)"

lemma recorded_healthcheck_Some:
  "recorded_healthcheck B db i = Some hc \<longleftrightarrow> (\<exists>s. loadContainerSpec B db i = Inr (Some s) \<and> csHealthcheck s = Some hc)"
  by (auto simp: recorded_healthcheck_def split: sum.splits option.splits)

lemma waitHealthy_unchecked:
  "client = None \<or> recorded_healthcheck B db i = None \<Longrightarrow> waitHealthy env reg client B i db w = engine_waitStarted env reg i w"
  by (auto simp: waitHealthy_def recorded_healthcheck_def split: sum.splits option.splits)

lemma waitHealthy_checked:
  assumes "recorded_healthcheck B db i = Some hc"
  shows "fst (waitHealthy env reg (Some rt) B i db w) = None \<longleftrightarrow>
    (\<exists>w1 cid ip. engine_waitStarted env reg i w = (None, w1) \<and>
      lookupContainerInfo rt (fst (splitResourceID i)) (snd (splitResourceID i)) w1 = Inr (cid, ip) \<and>
      (cvParts (hcTest hc) \<noteq> [] \<longrightarrow> fst (monitor_wait env (wait_check cid ip (resolveComposeHealthcheck hc)) w1) = None))"
proof -
  obtain s where s: "loadContainerSpec B db i = Inr (Some s)" "csHealthcheck s = Some hc"
    using assms by (auto simp: recorded_healthcheck_Some)
  have "cvParts (hcTest hc) = [] \<Longrightarrow> ResolveProbe (evalServiceFromSpec s) = None"
    using s(2) by (simp add: ResolveProbe_def evalServiceFromSpec_def Let_def zero_service_def command_IsEmpty_def)
  with s ResolveProbe_spec [OF s(2)] show ?thesis
    by (cases "cvParts (hcTest hc) = []")
      (auto simp: waitHealthy_def Let_def registered_check split: sum.splits option.splits prod.splits)
qed

text \<open>C29: The engine's wait for a healthy dependency succeeds exactly when the resource starts before the context
  ends and, when there is a runtime client and a compose health check is recorded for the resource, its container can
  be looked up and, when that check has a test, one of the probes that run before the context ends succeeds: the
  first after the initial delay, then one per interval.  Whatever the number of retries says, failed probes alone
  never end the wait; and without a client, without a readable record of a compose health check or without a test in
  it, a resource counts as healthy without any probe.\<close>

theorem waitHealthy_correct:
  "fst (waitHealthy env reg client B i db w) = None \<longleftrightarrow>
    (\<exists>w1. engine_waitStarted env reg i w = (None, w1) \<and>
      (\<forall>rt hc. client = Some rt \<longrightarrow> recorded_healthcheck B db i = Some hc \<longrightarrow>
        (\<exists>cid ip. lookupContainerInfo rt (fst (splitResourceID i)) (snd (splitResourceID i)) w1 = Inr (cid, ip) \<and>
          (cvParts (hcTest hc) \<noteq> [] \<longrightarrow>
            (let cfg = resolveComposeHealthcheck hc;
                 w2 = (if 0 < pcfInitialDelay cfg then weAfter env (pcfInitialDelay cfg) w1 else w1)
             in (0 < pcfInitialDelay cfg \<longrightarrow> weRounds env (pcfInitialDelay cfg) w1 \<noteq> 0) \<and> 0 < pcfInterval cfg \<and>
               (\<exists>k \<le> weRounds env (pcfInterval cfg) w2.
                 env_probe env (wait_check cid ip cfg) ((weAfter env (pcfInterval cfg) ^^ k) w2)))))))"
proof (cases "client = None \<or> recorded_healthcheck B db i = None")
  case True
  then show ?thesis unfolding waitHealthy_unchecked [OF True]
    by (cases "engine_waitStarted env reg i w") auto
next
  case False
  then obtain rt hc where rt: "client = Some rt" and hc: "recorded_healthcheck B db i = Some hc" by auto
  show ?thesis unfolding rt hc waitHealthy_checked [OF hc] monitor_wait_iff
    by (auto simp: Let_def)
qed

lemma WaitExited_iff:
  "fst (WaitExited rt tick n c w) = Inr code \<longleftrightarrow>
   (\<exists>k \<le> n. (\<exists>st. rtContainerStatus rt c ((tick ^^ k) w) = Inr st \<and> exited_code st = Some code) \<and>
     (\<forall>j < k. \<exists>st. rtContainerStatus rt c ((tick ^^ j) w) = Inr st \<and> exited_code st = None))"
proof (induction n arbitrary: w)
  case 0
  show ?case by (cases "rtContainerStatus rt c w") (auto split: option.splits)
next
  case (Suc n)
  let ?exit = "\<lambda>k w. \<exists>st. rtContainerStatus rt c ((tick ^^ k) w) = Inr st \<and> exited_code st = Some code"
  let ?run = "\<lambda>j w. \<exists>st. rtContainerStatus rt c ((tick ^^ j) w) = Inr st \<and> exited_code st = None"
  show ?case
  proof (cases "\<exists>st. rtContainerStatus rt c w = Inr st \<and> exited_code st = None")
    case True
    then have "fst (WaitExited rt tick (Suc n) c w) = fst (WaitExited rt tick n c (tick w))" by auto
    also have "\<dots> = Inr code \<longleftrightarrow> (\<exists>k \<le> n. ?exit (Suc k) w \<and> (\<forall>j < k. ?run (Suc j) w))"
      unfolding Suc.IH by (simp add: funpow_swap1)
    also have "\<dots> \<longleftrightarrow> (\<exists>k \<le> Suc n. ?exit k w \<and> (\<forall>j < k. ?run j w))"
    proof
      assume "\<exists>k \<le> n. ?exit (Suc k) w \<and> (\<forall>j < k. ?run (Suc j) w)"
      then obtain k where k: "k \<le> n" "?exit (Suc k) w" "\<forall>j < k. ?run (Suc j) w" by blast
      have "\<forall>j < Suc k. ?run j w" using k(3) True by (simp add: All_less_Suc2)
      with k show "\<exists>k \<le> Suc n. ?exit k w \<and> (\<forall>j < k. ?run j w)" by (intro exI [of _ "Suc k"]) simp
    next
      assume "\<exists>k \<le> Suc n. ?exit k w \<and> (\<forall>j < k. ?run j w)"
      then obtain k where k: "k \<le> Suc n" "?exit k w" "\<forall>j < k. ?run j w" by blast
      with True obtain m where "k = Suc m" by (cases k) auto
      with k show "\<exists>k \<le> n. ?exit (Suc k) w \<and> (\<forall>j < k. ?run (Suc j) w)" 
        by (intro exI [of _ m]) (simp add: All_less_Suc2)
    qed
    finally show ?thesis .
  next
    case False
    then have f: "fst (WaitExited rt tick (Suc n) c w) =
        (case rtContainerStatus rt c w of Inl e \<Rightarrow> Inl e | Inr st \<Rightarrow> Inr (the (exited_code st)))"
      by (auto split: sum.splits option.splits)
    have "\<not> (\<forall>j < k. ?run j w)" if "k \<noteq> 0" for k using that False by auto
    then have "(\<exists>k \<le> Suc n. ?exit k w \<and> (\<forall>j < k. ?run j w)) \<longleftrightarrow> ?exit 0 w" by (metis less_nat_zero_code zero_le)
    then show ?thesis unfolding f using False by (auto split: sum.splits)
  qed
qed

text \<open>The wait for completion succeeds exactly when the container starts, can be looked up, and a poll
  before the context ends finds that it has exited with code 0.\<close>

theorem waitCompleted_correct:
  "fst (waitCompleted env reg (Some rt) i w) = None \<longleftrightarrow>
   (\<exists>w1 cid ip. engine_waitStarted env reg i w = (None, w1) \<and>
     lookupContainerInfo rt (fst (splitResourceID i)) (snd (splitResourceID i)) w1 = Inr (cid, ip) \<and>
     (\<exists>k \<le> weRounds env pollInterval w1.
       (\<exists>st. rtContainerStatus rt cid ((weAfter env pollInterval ^^ k) w1) = Inr st \<and> exited_code st = Some 0) \<and>
       (\<forall>j < k. \<exists>st. rtContainerStatus rt cid ((weAfter env pollInterval ^^ j) w1) = Inr st \<and> exited_code st = None)))"
proof -
  have "fst (waitCompleted env reg (Some rt) i w) = None \<longleftrightarrow>
   (\<exists>w1 cid ip. engine_waitStarted env reg i w = (None, w1) \<and>
     lookupContainerInfo rt (fst (splitResourceID i)) (snd (splitResourceID i)) w1 = Inr (cid, ip) \<and>
     fst (WaitExited rt (weAfter env pollInterval) (weRounds env pollInterval w1) cid w1) = Inr 0)"
    by (auto simp: waitCompleted_def simp del: WaitExited.simps split: sum.splits option.splits prod.splits)
  then show ?thesis unfolding WaitExited_iff .
qed


text \<open>The service resource over the runtime: applying it brings its service up exactly once, deleting it
  removes exactly the pods of that service, and both leave other pods alone.\<close>

theorem service_resource_lifecycle:
  fixes s :: container_spec and vols :: "'w ensure_volume option"
  defines "opts \<equiv> \<lparr>suProject = csProject s, suVersion = csVersion s, suCompVolumes = csCompVolumes s,
    suVolumeResolver = vols, suUseCNI = csUseCNI s\<rparr>"
  assumes "runtime_ok rt V" and "container_spec_ok s" and "resolver_frame vols V" and "CHR ''/'' \<notin> set (csProject s)"
    and "defInstantiate (ServiceDefinition (Some (CriClient rt rm)) vols) (RDoc (enc_service_spec s)) = Inr i"
  shows "(instApply i w = (None, w') \<longrightarrow>
      runs_once rt (csService s) (spec_service s) opts (V w') \<and>
      same_pods ({k. rvPods (V w) k \<noteq> None} - selected (service_labels (csProject s) (csService s)) (V w)) (V w) (V w')) \<and>
    (defDelete (ServiceDefinition (Some (CriClient rt rm)) vols) \<lparr>refId = instId i, refKey = ServiceKey, refBody = RNil\<rparr> w = (None, w') \<longrightarrow>
      V w' = remove_pods (selected (service_labels (csProject s) (csService s)) (V w)) (V w))"
proof (intro conjI impI)
  have i: "instId i = csProject s @ ''/'' @ csService s"
    "instApply i w = ServiceUp rt (csService s) (spec_service s) opts w"
    using assms(6) dec_service_spec_enc [OF assms(3)]
    by (auto simp: ServiceDefinition_def enc_service_spec_def unmarshal_struct_def container_apply_def CriClient_def opts_def Let_def)
  have fr: "resolver_frame (suVolumeResolver opts) V" using assms(4) by (simp add: opts_def)
  have p: "suProject opts = csProject s" by (simp add: opts_def)
  have client: "clServiceDown (CriClient rt rm) = ServiceDown rt" by (simp add: CriClient_def)
  show "runs_once rt (csService s) (spec_service s) opts (V w')"
    "same_pods ({k. rvPods (V w) k \<noteq> None} - selected (service_labels (csProject s) (csService s)) (V w)) (V w) (V w')"
    if "instApply i w = (None, w')"
    using ServiceUp_outcome(1,2) [OF assms(2) fr that [unfolded i(2)]] p by simp_all
  assume "defDelete (ServiceDefinition (Some (CriClient rt rm)) vols) \<lparr>refId = instId i, refKey = ServiceKey, refBody = RNil\<rparr> w = (None, w')"
  then have "ServiceDown rt (csProject s) (csService s) 10 w = (None, w')"
    using splitContainerId_inverse [OF assms(5), of "\<lparr>refId = instId i, refKey = ServiceKey, refBody = RNil\<rparr>" "csService s"
      "CriClient rt rm" vols w] i(1) client by simp
  then show "V w' = remove_pods (selected (service_labels (csProject s) (csService s)) (V w)) (V w)"
    using pods_down_view [OF assms(2)] by (simp add: ServiceDown_def)
qed

subsection \<open>Witnesses\<close>

theorem service_resource_lifecycle_witness:
  "\<exists>i w'. defInstantiate (ServiceDefinition (Some (CriClient mem_runtime (\<lambda>i w. (None, w)))) None) (RDoc (enc_service_spec demo_spec)) = Inr i \<and>
     instApply i demo_mem = (None, w') \<and> selected (service_labels ''p'' ''web'') (mem_view w') \<noteq> {}"
proof -
  let ?def = "ServiceDefinition (Some (CriClient mem_runtime (\<lambda>i w. (None, w)))) None"
  obtain i where i: "defInstantiate ?def (RDoc (enc_service_spec demo_spec)) = Inr i"
    using dec_service_spec_enc [OF demo_spec_ok]
    by (simp add: ServiceDefinition_def enc_service_spec_def unmarshal_struct_def Let_def)
  have "instApply i demo_mem = ServiceUp mem_runtime (csService demo_spec) (spec_service demo_spec)
      \<lparr>suProject = csProject demo_spec, suVersion = csVersion demo_spec, suCompVolumes = csCompVolumes demo_spec,
       suVolumeResolver = None, suUseCNI = csUseCNI demo_spec\<rparr> demo_mem"
    using i dec_service_spec_enc [OF demo_spec_ok]
    by (auto simp: ServiceDefinition_def enc_service_spec_def unmarshal_struct_def container_apply_def CriClient_def Let_def)
  moreover have "fst (ServiceUp mem_runtime (csService demo_spec) (spec_service demo_spec)
      \<lparr>suProject = csProject demo_spec, suVersion = csVersion demo_spec, suCompVolumes = csCompVolumes demo_spec,
       suVolumeResolver = None, suUseCNI = csUseCNI demo_spec\<rparr> demo_mem) = None" by code_simp
  ultimately obtain w' where w': "instApply i demo_mem = (None, w')" by (metis prod.collapse)
  have "CHR ''/'' \<notin> set (csProject demo_spec)" "csProject demo_spec = ''p''" "csService demo_spec = ''web''"
    by (simp_all add: demo_spec_def)
  then show ?thesis
    using service_resource_lifecycle [OF mem_runtime_ok demo_spec_ok, of None, OF _ _ i, of demo_mem w'] i w'
    by (auto simp: resolver_frame_def runs_once_def)
qed

text \<open>A web service with a health check whose container runs; the check passes after two intervals.\<close>

definition healthy_spec :: container_spec where
  "healthy_spec = demo_spec\<lparr>csHealthcheck := Some \<lparr>hcTest = \<lparr>cvParts = [''CMD'', ''true'']\<rparr>, hcInterval = '''', hcTimeout = '''',
     hcRetries = 0, hcStartPeriod = ''''\<rparr>\<rparr>"

definition healthy_db :: "raw gomap db" where
  "healthy_db = empty_db\<lparr>dbRollouts := [(''p/web'', RDoc (JObj [(''body'', enc_service_spec healthy_spec)]))]\<rparr>"

definition running_mem :: rt_mem where
  "running_mem = demo_mem\<lparr>mmCtrs := [(''c'', \<lparr>rcPod = ''old'', rcConfig = service_config mem_runtime ''web'' demo_service demo_opts [],
     rcStarted = True\<rparr>)]\<rparr>"

definition slow_env :: "rt_mem wait_env" where
  "slow_env = \<lparr>weAfter = (\<lambda>d m. m\<lparr>mmNext := Suc (mmNext m)\<rparr>), weRounds = (\<lambda>d m. 5),
     weExecSync = (\<lambda>m c cmd t. Inr (if mmNext m < 2 then 1 else 0)), weHTTPGet = (\<lambda>m u. Inl (Err '''')), weDial = (\<lambda>m a. None)\<rparr>"

definition service_registry :: "rt_mem registry" where
  "service_registry = [(ServiceKey, ServiceDefinition (Some (CriClient mem_runtime (\<lambda>i w. (None, w)))) None)]"

lemma healthy_load: "loadContainerSpec mem_bolt healthy_db ''p/web'' = Inr (Some healthy_spec)"
proof -
  have "container_spec_ok healthy_spec"
    by (simp add: healthy_spec_def demo_spec_def container_spec_ok_def zero_container_spec_def gm_canonical_def sort_entries_def
        sorted_keys_def sort_strings_def)
  note dec = dec_service_spec_enc [OF this]
  have "csService healthy_spec = ''web''" by (simp add: healthy_spec_def demo_spec_def)
  then show ?thesis
    by (simp add: loadContainerSpec_def Load_def healthy_db_def mem_bolt_def unmarshal_struct_def dec_raw_field_def jfield_Cons
        enc_service_spec_def dec)
qed

theorem waitHealthy_correct_witness:
  "fst (waitHealthy slow_env service_registry (Some mem_runtime) mem_bolt ''p/web'' healthy_db running_mem) = None \<and>
   (\<exists>w1 cid ip. engine_waitStarted slow_env service_registry ''p/web'' running_mem = (None, w1) \<and>
      lookupContainerInfo mem_runtime ''p'' ''web'' w1 = Inr (cid, ip))"
proof -
  have l: "loadContainerSpec mem_bolt healthy_db ''p/web'' = Inr (Some healthy_spec)" by (rule healthy_load)
  have ok: "fst (waitHealthy slow_env service_registry (Some mem_runtime) mem_bolt ''p/web'' healthy_db running_mem) = None"
    unfolding waitHealthy_def l by code_simp
  obtain hc where hc: "recorded_healthcheck mem_bolt healthy_db ''p/web'' = Some hc"
    using l by (auto simp: recorded_healthcheck_def healthy_spec_def)
  have "splitResourceID ''p/web'' = (''p'', ''web'')" by code_simp
  with hc ok waitHealthy_correct [of slow_env service_registry "Some mem_runtime" mem_bolt "''p/web''" healthy_db running_mem]
  show ?thesis by auto
qed

end
