(* ===== verification/Go_Scanner.thy ===== *)
theory Go_Scanner
  imports Go_Strings
begin

text \<open>
  \<open>bufio.Scanner\<close> with its default split function and buffer, and \<open>strings.TrimSpace\<close>, which the readers of
  environment files and logs use.
\<close>

subsection \<open>Lines\<close>

text \<open>A line with 64 KiB or more does not fit into the buffer and ends the scan with an error; the lines before
  it have been delivered.  The second component is that error.\<close>

definition maxScanTokenSize :: int where "maxScanTokenSize = 65536"

definition newline :: char where "newline = CHR 0x0A"

definition raw_lines :: "string \<Rightarrow> string list" where
  "raw_lines s = (let ls = split_char newline s in if last ls = '''' then butlast ls else ls)"

definition drop_cr :: "string \<Rightarrow> string" where
  "drop_cr l = (if l \<noteq> '''' \<and> last l = CHR 0x0D then butlast l else l)"

fun scan_from :: "string list \<Rightarrow> string list \<times> bool" where
  "scan_from [] = ([], False)"
| "scan_from (l # ls) =
     (if int (length l) \<ge> maxScanTokenSize then ([], True) else case scan_from ls of (ts, e) \<Rightarrow> (drop_cr l # ts, e))"

definition scan_lines :: "string \<Rightarrow> string list \<times> bool" where
  "scan_lines s = scan_from (raw_lines s)"

subsection \<open>Space\<close>

text \<open>The encodings of the characters that \<open>unicode.IsSpace\<close> accepts.\<close>

definition is_space_rune :: "string \<Rightarrow> bool" where
  "is_space_rune x =
     (case map of_char x :: nat list of
        [a] \<Rightarrow> a \<in> {9, 10, 11, 12, 13, 32}
      | [a, b] \<Rightarrow> a = 0xC2 \<and> (b = 0x85 \<or> b = 0xA0)
      | [a, b, c] \<Rightarrow>
          a = 0xE1 \<and> b = 0x9A \<and> c = 0x80 \<or>
          a = 0xE2 \<and> b = 0x80 \<and> (0x80 \<le> c \<and> c \<le> 0x8A \<or> c \<in> {0xA8, 0xA9, 0xAF}) \<or>
          a = 0xE2 \<and> b = 0x81 \<and> c = 0x9F \<or> a = 0xE3 \<and> b = 0x80 \<and> c = 0x80
      | _ \<Rightarrow> False)"

lemma not_space_Nil [simp]: "\<not> is_space_rune []"
  by (simp add: is_space_rune_def)

text \<open>The length of the space at the front, or at the end of the reversed string: 0 when there is none.\<close>

definition space_len :: "bool \<Rightarrow> string \<Rightarrow> nat" where
  "space_len rv s =
     (let space = (\<lambda>n. is_space_rune (if rv then rev (take n s) else take n s))
      in if space 1 then 1 else if space 2 then 2 else if space 3 then 3 else 0)"

lemma space_len_Nil [simp]: "space_len rv [] = 0"
  by (simp add: space_len_def)

function trim_by :: "bool \<Rightarrow> string \<Rightarrow> string" where
  "trim_by rv s = (if space_len rv s = 0 then s else trim_by rv (drop (space_len rv s) s))"
  by auto

termination
proof (relation "measure (length \<circ> snd)")
  show "((rv, drop (space_len rv s) s), (rv, s)) \<in> measure (length \<circ> snd)" if "space_len rv s \<noteq> 0" for rv s
    using that by (cases s) auto
qed simp

declare trim_by.simps [simp del]

definition TrimSpace :: "string \<Rightarrow> string" where
  "TrimSpace s = rev (trim_by True (rev (trim_by False s)))"

lemma no_space_ends:
  assumes "s \<noteq> ''''" and "(of_char (hd s) :: nat) \<in> {33..127}" and "(of_char (last s) :: nat) \<in> {33..127}"
  shows "TrimSpace s = s"
proof -
  have front: "space_len False t = 0" if "t \<noteq> ''''" "(of_char (hd t) :: nat) \<in> {33..127}" for t
    using that by (cases t) (auto simp: space_len_def is_space_rune_def take_Cons' split: list.splits)
  have rear: "space_len True t = 0" if t0: "t \<noteq> ''''" "(of_char (hd t) :: nat) \<in> {33..127}" for t
  proof -
    obtain c t' where t: "t = c # t'" using t0(1) by (cases t) auto
    have "\<not> is_space_rune (rev (take n t))" if n0: "0 < n" "n \<le> 3" for n
    proof -
      obtain k where "n = Suc k" using n0(1) by (cases n) auto
      then have "rev (take n t) = rev (take k t') @ [c]" by (simp add: t)
      moreover have "length (take k t') \<le> 2" using n0(2) \<open>n = Suc k\<close> by simp
      ultimately show ?thesis using t0(2) t
        by (cases "rev (take k t')"; cases "tl (rev (take k t'))") (auto simp: is_space_rune_def split: list.splits)
    qed
    then show ?thesis by (simp add: space_len_def)
  qed
  have "trim_by False s = s" using front [OF assms(1,2)] by (simp add: trim_by.simps)
  moreover have "trim_by True (rev s) = rev s"
    using rear [of "rev s"] assms by (simp add: trim_by.simps hd_rev)
  ultimately show ?thesis by (simp add: TrimSpace_def)
qed

end
