(* ===== verification/Env_From.thy ===== *)
theory Env_From
  imports Go_Scanner Go_Paths Eval_Types
begin

text \<open>
  \<open>src/pkg/envfrom/envfrom.go\<close>: variables from secret files.

  Reading a file and running a command are fields of the resolver record.  The composition is changed in
  place, so \<open>ResolveEnvFrom\<close> returns it also when it fails.
\<close>

subsection \<open>The code\<close>

definition stripQuotes :: "string \<Rightarrow> string" where
  "stripQuotes s =
     (if length s \<ge> 2 \<and> (hd s = CHR 0x22 \<and> last s = CHR 0x22 \<or> hd s = CHR 0x27 \<and> last s = CHR 0x27)
      then butlast (tl s) else s)"

definition parseEnvLine :: "string \<Rightarrow> (string \<times> string) option" where
  "parseEnvLine line =
     (case cut_char (CHR ''='') line of
        None \<Rightarrow> None
      | Some (a, b) \<Rightarrow>
          let key = TrimSpace a
          in if key = '''' then None else Some (key, stripQuotes (TrimSpace b)))"

definition env_step :: "string \<Rightarrow> string gomap \<Rightarrow> string gomap" where
  "env_step l env =
     (let line = TrimSpace l
      in if line = '''' \<or> has_prefix line ''#'' then env
         else case parseEnvLine line of None \<Rightarrow> env | Some (key, val) \<Rightarrow> gm_put key val env)"

definition parseEnvFile :: "string \<Rightarrow> error + string gomap" where
  "parseEnvFile data =
     (case scan_lines data of (ls, failed) \<Rightarrow>
        if failed then Inl (Err ''scanning env file'') else Inr (fold env_step ls []))"

definition applyPrefix :: "string gomap \<Rightarrow> string \<Rightarrow> string gomap" where
  "applyPrefix env prefix = (if prefix = '''' then env else gm_put_all (map (\<lambda>(k, v). (prefix @ k, v)) env) [])"

record resolver =
  rvProjectDir :: string
  rvReadFile :: "string \<Rightarrow> error + string"
  rvRunner :: "(string list \<Rightarrow> error + string) option"

definition resolvePath :: "resolver \<Rightarrow> string \<Rightarrow> string" where
  "resolvePath r path = (if has_prefix path ''/'' then path else join_path (rvProjectDir r) path)"

definition decryptSops :: "resolver \<Rightarrow> string \<Rightarrow> error + string" where
  "decryptSops r sopsFile =
     (case rvRunner r of
        None \<Rightarrow> Inl (Err ''sops decryption requires a command runner'')
      | Some run \<Rightarrow> run [''sops'', ''--decrypt'', resolvePath r sopsFile])"

definition loadSource :: "resolver \<Rightarrow> env_from_source \<Rightarrow> error + string option" where
  "loadSource r src =
     (if efSecretFile src \<noteq> '''' then map_sum id Some (rvReadFile r (resolvePath r (efSecretFile src)))
      else if efSopsFile src \<noteq> '''' then map_sum id Some (decryptSops r (efSopsFile src))
      else Inr None)"

fun resolve_sources :: "resolver \<Rightarrow> env_from_source list \<Rightarrow> string gomap \<Rightarrow> error + string gomap" where
  "resolve_sources r [] merged = Inr merged"
| "resolve_sources r (src # srcs) merged =
     (case loadSource r src of
        Inl e \<Rightarrow> Inl e
      | Inr None \<Rightarrow> resolve_sources r srcs merged
      | Inr (Some data) \<Rightarrow>
          (case parseEnvFile data of
             Inl e \<Rightarrow> Inl e
           | Inr env \<Rightarrow> resolve_sources r srcs (gm_put_all (applyPrefix env (efPrefix src)) merged)))"

definition Resolve :: "resolver \<Rightarrow> env_from_source list \<Rightarrow> error + string gomap" where
  "Resolve r sources = resolve_sources r sources []"

definition merge_missing :: "string gomap \<Rightarrow> string gomap \<Rightarrow> string gomap" where
  "merge_missing resolved env = fold (\<lambda>(k, v) m. if gm_has m k then m else gm_put k v m) resolved env"

definition service_env_from :: "service \<Rightarrow> env_from_source list" where
  "service_env_from svc = (case svcXNixCompose svc of None \<Rightarrow> [] | Some x \<Rightarrow> xEnvFrom x)"

fun resolve_services :: "resolver \<Rightarrow> service gomap \<Rightarrow> composition \<Rightarrow> error option \<times> composition" where
  "resolve_services r [] c = (None, c)"
| "resolve_services r ((name, svc) # rest) c =
     (if service_env_from svc = [] then resolve_services r rest c
      else case Resolve r (service_env_from svc) of
             Inl e \<Rightarrow> (Some e, c)
           | Inr resolved \<Rightarrow>
               resolve_services r rest
                 (c\<lparr>compServices := gm_put name (svc\<lparr>svcEnvironment := merge_missing resolved (svcEnvironment svc)\<rparr>) (compServices c)\<rparr>))"

definition ResolveEnvFrom :: "resolver option \<Rightarrow> composition \<Rightarrow> error option \<times> composition" where
  "ResolveEnvFrom ro c = (case ro of None \<Rightarrow> (None, c) | Some r \<Rightarrow> resolve_services r (compServices c) c)"

subsection \<open>Reading back what is written\<close>

definition env_key_ok :: "string \<Rightarrow> bool" where
  "env_key_ok k \<longleftrightarrow> k \<noteq> '''' \<and> (\<forall>c \<in> set k. (of_char c :: nat) \<in> {33..127} - {35, 61})"

definition env_line :: "string \<times> string \<Rightarrow> string" where
  "env_line kv = fst kv @ ''='' @ [CHR 0x22] @ snd kv @ [CHR 0x22]"

definition env_entry_ok :: "string \<times> string \<Rightarrow> bool" where
  "env_entry_ok kv \<longleftrightarrow> env_key_ok (fst kv) \<and> newline \<notin> set (snd kv) \<and> int (length (env_line kv)) < maxScanTokenSize"

lemma env_key_chars: "env_key_ok k \<Longrightarrow> CHR ''='' \<notin> set k \<and> CHR ''#'' \<notin> set k \<and> newline \<notin> set k"
  by (auto simp: env_key_ok_def newline_def)

lemma env_key_trim: "env_key_ok k \<Longrightarrow> TrimSpace k = k"
  by (rule no_space_ends) (auto simp: env_key_ok_def)

lemma env_line_parse:
  assumes "env_entry_ok kv"
  shows "env_step (drop_cr (env_line kv)) env = gm_put (fst kv) (snd kv) env"
proof -
  obtain k v where kv: "kv = (k, v)" by (cases kv)
  have k: "env_key_ok k" "k \<noteq> ''''" using assms kv by (auto simp: env_entry_ok_def env_key_ok_def)
  have line: "env_line kv = k @ ''='' @ [CHR 0x22] @ v @ [CHR 0x22]" by (simp add: env_line_def kv)
  have "(of_char (hd k) :: nat) \<in> {33..127}" using k by (auto simp: env_key_ok_def)
  then have t1: "TrimSpace (env_line kv) = env_line kv" unfolding line using k(2) by (intro no_space_ends) auto
  have t2: "TrimSpace ([CHR 0x22] @ v @ [CHR 0x22]) = [CHR 0x22] @ v @ [CHR 0x22]" by (rule no_space_ends) auto
  have cr: "drop_cr (env_line kv) = env_line kv" by (simp add: drop_cr_def line)
  have cut: "cut_char (CHR ''='') (env_line kv) = Some (k, [CHR 0x22] @ v @ [CHR 0x22])"
    unfolding cut_char_Some line using env_key_chars [OF k(1)] by simp
  have q: "stripQuotes ([CHR 0x22] @ v @ [CHR 0x22]) = v" by (simp add: stripQuotes_def)
  have "\<not> has_prefix (env_line kv) ''#''"
    using k env_key_chars [OF k(1)] by (cases k) (auto simp: line has_prefix_def)
  moreover have "env_line kv \<noteq> ''''" using k(2) by (simp add: line)
  ultimately show ?thesis
    using cut t2 q env_key_trim [OF k(1)] k(2) by (simp add: env_step_def cr t1 parseEnvLine_def Let_def) (simp add: kv)
qed

lemma raw_lines_concat:
  assumes "\<forall>l \<in> set ls. newline \<notin> set l"
  shows "raw_lines (concat (map (\<lambda>l. l @ [newline]) ls)) = ls"
proof -
  have "split_char newline (concat (map (\<lambda>l. l @ [newline]) ls)) = ls @ ['''']"
    using assms by (induction ls) (simp_all add: split_char_append)
  then show ?thesis by (simp add: raw_lines_def)
qed

lemma scan_from_short: "\<forall>l \<in> set ls. int (length l) < maxScanTokenSize \<Longrightarrow> scan_from ls = (map drop_cr ls, False)"
  by (induction ls) auto

text \<open>C20: Every environment can be written as a file that reads back: quoted values may hold anything but a line
  break, and the map that \<open>parseEnvFile\<close> returns is the map of the entries, the last one of a key winning.\<close>

theorem parseEnvFile_roundtrip:
  assumes "\<forall>kv \<in> set kvs. env_entry_ok kv"
  shows "parseEnvFile (concat (map (\<lambda>kv. env_line kv @ [newline]) kvs)) = Inr (gm_put_all kvs [])"
proof -
  have lines: "raw_lines (concat (map (\<lambda>kv. env_line kv @ [newline]) kvs)) = map env_line kvs"
  proof -
    have "\<forall>l \<in> set (map env_line kvs). newline \<notin> set l"
      using assms env_key_chars by (fastforce simp: env_entry_ok_def env_line_def newline_def)
    from raw_lines_concat [OF this] show ?thesis by (simp add: comp_def)
  qed
  have "scan_from (map env_line kvs) = (map drop_cr (map env_line kvs), False)"
    using assms by (intro scan_from_short) (auto simp: env_entry_ok_def)
  moreover have "fold env_step (map (drop_cr \<circ> env_line) kvs) env = gm_put_all kvs env" for env
    using assms
  proof (induction kvs arbitrary: env)
    case (Cons kv kvs)
    then show ?case by (cases kv) (simp add: env_line_parse gm_put_all_Cons)
  qed (simp add: gm_put_all_def)
  ultimately show ?thesis by (simp add: parseEnvFile_def scan_lines_def lines)
qed

theorem parseEnvFile_roundtrip_witness:
  "env_entry_ok (''DB_URL'', ''postgres://u:p@h/db?x=1 # y'') \<and>
   parseEnvFile (env_line (''DB_URL'', ''postgres://u:p@h/db?x=1 # y'') @ [newline]) = Inr [(''DB_URL'', ''postgres://u:p@h/db?x=1 # y'')]"
proof -
  have ok: "env_entry_ok (''DB_URL'', ''postgres://u:p@h/db?x=1 # y'')"
    by (simp add: env_entry_ok_def env_key_ok_def newline_def env_line_def maxScanTokenSize_def)
  have "gm_put_all [(''DB_URL'', ''postgres://u:p@h/db?x=1 # y'')] [] = [(''DB_URL'', ''postgres://u:p@h/db?x=1 # y'')]"
    by (simp add: gm_put_all_def gm_put_def)
  with ok parseEnvFile_roundtrip [of "[(''DB_URL'', ''postgres://u:p@h/db?x=1 # y'')]"] show ?thesis by simp
qed


subsection \<open>Which value a variable gets\<close>

text \<open>The variables of one source, and the reference for a list of sources: the last source that has the
  variable decides.\<close>

definition source_vars :: "resolver \<Rightarrow> env_from_source \<Rightarrow> error + string gomap" where
  "source_vars r src =
     (case loadSource r src of
        Inl e \<Rightarrow> Inl e
      | Inr None \<Rightarrow> Inr []
      | Inr (Some data) \<Rightarrow> (case parseEnvFile data of Inl e \<Rightarrow> Inl e | Inr env \<Rightarrow> Inr (applyPrefix env (efPrefix src))))"

fun last_source :: "resolver \<Rightarrow> env_from_source list \<Rightarrow> string \<Rightarrow> string option" where
  "last_source r [] k = None"
| "last_source r (src # srcs) k =
     (case last_source r srcs k of
        Some v \<Rightarrow> Some v
      | None \<Rightarrow> (case source_vars r src of Inl _ \<Rightarrow> None | Inr env \<Rightarrow> map_of env k))"

lemma env_step_ok: "gm_ok env \<Longrightarrow> gm_ok (env_step l env)"
  by (auto simp: env_step_def Let_def split: option.split)

lemma parseEnvFile_ok: "parseEnvFile data = Inr env \<Longrightarrow> gm_ok env"
proof -
  have "gm_ok (fold env_step ls env)" if "gm_ok env" for ls env
    using that by (induction ls arbitrary: env) (auto intro: env_step_ok)
  then show "parseEnvFile data = Inr env \<Longrightarrow> gm_ok env"
    by (auto simp: parseEnvFile_def split: prod.splits if_splits)
qed

lemma source_vars_ok: "source_vars r src = Inr env \<Longrightarrow> gm_ok env"
  using parseEnvFile_ok
  by (auto simp: source_vars_def applyPrefix_def split: sum.splits option.splits if_splits intro: gm_ok_put_all)

lemma resolve_sources_step:
  "resolve_sources r (src # srcs) merged =
     (case source_vars r src of Inl e \<Rightarrow> Inl e | Inr env \<Rightarrow> resolve_sources r srcs (gm_put_all env merged))"
  by (simp add: source_vars_def gm_put_all_def split: sum.split option.split)

lemma map_of_rev_distinct: "distinct (map fst xs) \<Longrightarrow> map_of (rev xs) = map_of xs"
  by (rule map_of_inject_set [THEN iffD2]) (simp_all add: rev_map [symmetric])

lemma resolve_sources_map:
  "resolve_sources r srcs merged = Inr env \<Longrightarrow>
   map_of env k = (case last_source r srcs k of Some v \<Rightarrow> Some v | None \<Rightarrow> map_of merged k)"
proof (induction srcs arbitrary: merged)
  case (Cons src srcs)
  from Cons.prems obtain e where e: "source_vars r src = Inr e" "resolve_sources r srcs (gm_put_all e merged) = Inr env"
    unfolding resolve_sources_step by (auto split: sum.splits)
  show ?case
  proof -
    have "map_of (rev e) = map_of e" using source_vars_ok [OF e(1)] by (simp add: gm_ok_def map_of_rev_distinct)
    then show ?thesis
      using Cons.IH [OF e(2)] e(1) by (simp add: map_of_put_all map_add_def split: option.split)
  qed
qed simp

lemma resolve_sources_fails: "(\<exists>e. resolve_sources r srcs merged = Inl e) \<longleftrightarrow> (\<exists>src \<in> set srcs. \<exists>e. source_vars r src = Inl e)"
proof (induction srcs arbitrary: merged)
  case (Cons src srcs)
  then show ?case unfolding resolve_sources_step by (auto split: sum.split)
qed simp

lemma merge_missing_map:
  "map_of (merge_missing resolved env) k = (case map_of env k of Some v \<Rightarrow> Some v | None \<Rightarrow> map_of resolved k)"
proof -
  have "map_of (fold (\<lambda>(k, v) m. if gm_has m k then m else gm_put k v m) kvs m) k =
      (case map_of m k of Some v \<Rightarrow> Some v | None \<Rightarrow> map_of kvs k)" for kvs m
  proof (induction kvs arbitrary: m)
    case (Cons kv kvs)
    obtain a b where kv: "kv = (a, b)" by (cases kv)
    show ?case
    proof (cases "gm_has m a")
      case True
      then have "map_of m a \<noteq> None" unfolding gm_has_def .
      with True show ?thesis unfolding kv using Cons.IH [of m] by (auto simp del: gm_has_iff split: option.split)
    next
      case False
      then have "map_of m a = None" unfolding gm_has_def by blast
      with False show ?thesis unfolding kv using Cons.IH [of "gm_put a b m"]
        by (auto simp: gm_put_def update_conv' simp del: gm_has_iff split: option.split)
    qed
  qed (simp split: option.split)
  then show ?thesis by (simp add: merge_missing_def)
qed


definition resolved_env :: "resolver \<Rightarrow> service \<Rightarrow> string \<Rightarrow> string option" where
  "resolved_env r svc k =
     (case map_of (svcEnvironment svc) k of Some v \<Rightarrow> Some v | None \<Rightarrow> last_source r (service_env_from svc) k)"

lemma resolve_services_spec:
  assumes "resolve_services r rest c = (None, c')" and "gm_ok rest"
  shows "map_of (compServices c') name =
      (case map_of rest name of
         None \<Rightarrow> map_of (compServices c) name
       | Some svc \<Rightarrow> if service_env_from svc = [] then map_of (compServices c) name
           else (case Resolve r (service_env_from svc) of
                   Inr resolved \<Rightarrow> Some (svc\<lparr>svcEnvironment := merge_missing resolved (svcEnvironment svc)\<rparr>) | Inl _ \<Rightarrow> None)) \<and>
    (\<forall>svc \<in> snd ` set rest. \<exists>env. Resolve r (service_env_from svc) = Inr env)"
  using assms
proof (induction rest arbitrary: c)
  case (Cons p rest)
  obtain n svc where p: "p = (n, svc)" by (cases p)
  show ?case
  proof (cases "service_env_from svc = []")
    case True
    with Cons.prems p have "resolve_services r rest c = (None, c')" "gm_ok rest" "map_of rest n = None"
      by (auto simp: map_of_eq_None_iff gm_keys_def)
    with Cons.IH [of c] True p show ?thesis by (auto simp: Resolve_def)
  next
    case False
    with Cons.prems p obtain env where e: "Resolve r (service_env_from svc) = Inr env"
      "resolve_services r rest (c\<lparr>compServices := gm_put n (svc\<lparr>svcEnvironment := merge_missing env (svcEnvironment svc)\<rparr>) (compServices c)\<rparr>) = (None, c')"
      by (auto split: sum.splits)
    have "gm_ok rest" "map_of rest n = None" using Cons.prems(2) p by (auto simp: map_of_eq_None_iff gm_keys_def)
    with Cons.IH [OF e(2)] e(1) False p show ?thesis by (auto simp: gm_put_def update_conv' split: option.split)
  qed
qed simp

lemma resolve_services_values:
  assumes ok: "gm_ok (compServices c)" and run: "resolve_services r (compServices c) c = (None, c')"
  shows "case map_of (compServices c) name of
       None \<Rightarrow> map_of (compServices c') name = None
     | Some svc \<Rightarrow> \<exists>env. map_of (compServices c') name = Some (svc\<lparr>svcEnvironment := env\<rparr>) \<and> (\<forall>k. map_of env k = resolved_env r svc k)"
proof (cases "map_of (compServices c) name")
  case None
  then show ?thesis using resolve_services_spec [of r "compServices c" c c' name] run ok by simp
next
  case (Some svc)
  then have "svc \<in> snd ` set (compServices c)" by (force dest: map_of_SomeD)
  with resolve_services_spec [OF run ok] obtain env where env: "Resolve r (service_env_from svc) = Inr env" by blast
  have last: "last_source r (service_env_from svc) k = map_of env k" for k
    using resolve_sources_map [of r "service_env_from svc" "[]" env k] env by (simp add: Resolve_def split: option.splits)
  show ?thesis
  proof (cases "service_env_from svc = []")
    case True
    then have "map_of (compServices c') name = Some (svc\<lparr>svcEnvironment := svcEnvironment svc\<rparr>)"
      using resolve_services_spec [of r "compServices c" c c' name] run ok Some by simp
    moreover have "\<forall>k. map_of (svcEnvironment svc) k = resolved_env r svc k"
      using True by (simp add: resolved_env_def split: option.split)
    ultimately show ?thesis unfolding Some option.case by (intro exI [of _ "svcEnvironment svc"] conjI)
  next
    case False
    then have "map_of (compServices c') name = Some (svc\<lparr>svcEnvironment := merge_missing env (svcEnvironment svc)\<rparr>)"
      using resolve_services_spec [of r "compServices c" c c' name] run ok Some env by simp
    moreover have "\<forall>k. map_of (merge_missing env (svcEnvironment svc)) k = resolved_env r svc k"
      by (simp add: resolved_env_def merge_missing_map last split: option.split)
    ultimately show ?thesis unfolding Some option.case
      by (intro exI [of _ "merge_missing env (svcEnvironment svc)"] conjI)
  qed
qed

text \<open>C19: A successful \<open>ResolveEnvFrom\<close> gives every variable of every service its documented value: the one
  written in the service if there is one, else the one of the last source that has it; nothing else of a
  service changes and no service is added.  It succeeds exactly when every source of every service can be
  read and parsed.\<close>

theorem ResolveEnvFrom_precedence:
  assumes "gm_ok (compServices c)" and "ResolveEnvFrom (Some r) c = (res, c')"
  shows "(res = None \<longleftrightarrow> (\<forall>svc \<in> snd ` set (compServices c). \<forall>src \<in> set (service_env_from svc). \<exists>env. source_vars r src = Inr env)) \<and>
    (res = None \<longrightarrow> (\<forall>name. case map_of (compServices c) name of
       None \<Rightarrow> map_of (compServices c') name = None
     | Some svc \<Rightarrow> \<exists>env. map_of (compServices c') name = Some (svc\<lparr>svcEnvironment := env\<rparr>) \<and> (\<forall>k. map_of env k = resolved_env r svc k)))"
proof -
  have run: "resolve_services r (compServices c) c = (res, c')" using assms(2) by (simp add: ResolveEnvFrom_def)
  have Resolve_fails: "(\<exists>e. Resolve r srcs = Inl e) \<longleftrightarrow> (\<exists>src \<in> set srcs. \<exists>e. source_vars r src = Inl e)" for srcs
    unfolding Resolve_def by (rule resolve_sources_fails)
  have succeed: "res = None" if "\<forall>svc \<in> snd ` set rest. \<exists>env. Resolve r (service_env_from svc) = Inr env"
      "resolve_services r rest d = (res, c')" for rest d
    using that by (induction rest arbitrary: d) (auto split: if_splits)
  have ok_iff: "(\<exists>env. Resolve r srcs = Inr env) \<longleftrightarrow> (\<forall>src \<in> set srcs. \<exists>env. source_vars r src = Inr env)" for srcs
    using Resolve_fails [of srcs] by (metis Inl_Inr_False obj_sumE)
  have iff: "res = None \<longleftrightarrow> (\<forall>svc \<in> snd ` set (compServices c). \<exists>env. Resolve r (service_env_from svc) = Inr env)"
    using succeed [OF _ run] resolve_services_spec [of r "compServices c" c c'] run assms(1) by blast
  then show ?thesis
    using resolve_services_values [OF assms(1)] run unfolding ok_iff by blast
qed


definition secret_resolver :: resolver where
  "secret_resolver = \<lparr>rvProjectDir = ''/app'',
     rvReadFile = (\<lambda>p. if p = ''/app/a.env'' then Inr (''TOKEN=1'' @ [newline] @ ''PORT=80'') else Inl (Err ''open'')), rvRunner = None\<rparr>"

definition secret_app :: composition where
  "secret_app = \<lparr>compServices = [(''web'', zero_service\<lparr>svcEnvironment := [(''PORT'', ''8080'')],
       svcXNixCompose := Some (zero_extended\<lparr>xEnvFrom := [\<lparr>efSecretFile = ''a.env'', efSopsFile = '''', efPrefix = ''''\<rparr>]\<rparr>)\<rparr>)],
     compNetworks = [], compVolumes = [], compMicroVM = None\<rparr>"

theorem ResolveEnvFrom_precedence_witness:
  "\<exists>c'. ResolveEnvFrom (Some secret_resolver) secret_app = (None, c') \<and>
     (\<exists>svc env. map_of (compServices secret_app) ''web'' = Some svc \<and>
        map_of (compServices c') ''web'' = Some (svc\<lparr>svcEnvironment := env\<rparr>) \<and>
        map_of env ''PORT'' = Some ''8080'' \<and> map_of env ''TOKEN'' = Some ''1'')"
proof -
  obtain res c' where run: "ResolveEnvFrom (Some secret_resolver) secret_app = (res, c')" by fastforce
  have ok: "gm_ok (compServices secret_app)" by (simp add: secret_app_def)
  obtain svc where svc: "map_of (compServices secret_app) ''web'' = Some svc" by (simp add: secret_app_def)
  have "fst (ResolveEnvFrom (Some secret_resolver) secret_app) = None" by code_simp
  then have res: "res = None" using run by simp
  have env: "map_option (\<lambda>s. resolved_env secret_resolver s ''PORT'') (map_of (compServices secret_app) ''web'') = Some (Some ''8080'')"
    "map_option (\<lambda>s. resolved_env secret_resolver s ''TOKEN'') (map_of (compServices secret_app) ''web'') = Some (Some ''1'')"
    by code_simp+
  have "case map_of (compServices secret_app) ''web'' of
       None \<Rightarrow> map_of (compServices c') ''web'' = None
     | Some svc \<Rightarrow> \<exists>env. map_of (compServices c') ''web'' = Some (svc\<lparr>svcEnvironment := env\<rparr>) \<and> (\<forall>k. map_of env k = resolved_env secret_resolver svc k)"
    using ResolveEnvFrom_precedence [OF ok run] res by blast
  then obtain env' where "map_of (compServices c') ''web'' = Some (svc\<lparr>svcEnvironment := env'\<rparr>)"
    "\<forall>k. map_of env' k = resolved_env secret_resolver svc k" using svc by auto
  with run res svc env show ?thesis by auto
qed

end
