(* ===== verification/Watch.thy ===== *)
theory Watch
  imports Eval_Types Go_Strings
begin

text \<open>
  \<open>src/pkg/watch/diff.go\<close> and \<open>watch.go\<close>: what changed between two compositions, and the loop that applies it.

  \<open>json.Marshal\<close> of a service is the argument \<open>marshal\<close>.  The watcher is the record of its callbacks over the
  state \<open>'w\<close> of the world; one tick of the loop is \<open>watch_tick\<close>.  Reading the directory is a callback as well.
\<close>

subsection \<open>diff.go\<close>

record diff_result =
  drAdded :: "string list"
  drRemoved :: "string list"
  drChanged :: "string list"

definition diff_IsEmpty :: "diff_result \<Rightarrow> bool" where
  "diff_IsEmpty d \<longleftrightarrow> length (drAdded d) = 0 \<and> length (drRemoved d) = 0 \<and> length (drChanged d) = 0"

fun marshal_all :: "(service \<Rightarrow> error + string) \<Rightarrow> service gomap \<Rightarrow> string gomap \<Rightarrow> error + string gomap" where
  "marshal_all marshal [] m = Inr m"
| "marshal_all marshal ((name, svc) # services) m =
     (case marshal svc of Inl e \<Rightarrow> Inl e | Inr data \<Rightarrow> marshal_all marshal services (gm_put name data m))"

definition marshalServices :: "(service \<Rightarrow> error + string) \<Rightarrow> service gomap \<Rightarrow> error + string gomap" where
  "marshalServices marshal services = marshal_all marshal services []"

definition diff_json :: "string gomap \<Rightarrow> string gomap \<Rightarrow> diff_result" where
  "diff_json oldJSON newJSON =
     \<lparr>drAdded = sort_strings (filter (\<lambda>n. \<not> gm_has oldJSON n) (gm_keys newJSON)),
      drRemoved = sort_strings (filter (\<lambda>n. \<not> gm_has newJSON n) (gm_keys oldJSON)),
      drChanged = sort_strings (filter (\<lambda>n. gm_has oldJSON n \<and> gm_get '''' oldJSON n \<noteq> gm_get '''' newJSON n) (gm_keys newJSON))\<rparr>"

definition DiffCompositions :: "(service \<Rightarrow> error + string) \<Rightarrow> composition \<Rightarrow> composition \<Rightarrow> error + diff_result" where
  "DiffCompositions marshal old new =
     (case marshalServices marshal (compServices old) of
        Inl e \<Rightarrow> Inl e
      | Inr oldJSON \<Rightarrow>
          (case marshalServices marshal (compServices new) of
             Inl e \<Rightarrow> Inl e
           | Inr newJSON \<Rightarrow> Inr (diff_json oldJSON newJSON)))"

subsection \<open>watch.go\<close>

record dir_entry =
  deName :: string
  deIsDir :: bool
  deModTime :: "int option"

record 'w watcher =
  wtrEval :: "'w \<Rightarrow> (error + composition) \<times> 'w"
  wtrRestart :: "string list \<Rightarrow> 'w \<Rightarrow> error option \<times> 'w"
  wtrRemove :: "string list \<Rightarrow> 'w \<Rightarrow> error option \<times> 'w"
  wtrReadDir :: "'w \<Rightarrow> error + dir_entry list"
  wtrDebounce :: "'w \<Rightarrow> 'w"

definition collectMtimes :: "error + dir_entry list \<Rightarrow> int gomap" where
  "collectMtimes r =
     (case r of
        Inl _ \<Rightarrow> []
      | Inr entries \<Rightarrow>
          fold (\<lambda>e m. if deIsDir e \<or> \<not> has_suffix (deName e) ''.nix'' then m
             else case deModTime e of None \<Rightarrow> m | Some t \<Rightarrow> gm_put (deName e) t m) entries [])"

definition mtimesChanged :: "int gomap \<Rightarrow> int gomap \<Rightarrow> bool" where
  "mtimesChanged old new \<longleftrightarrow> length old \<noteq> length new \<or> list_ex (\<lambda>(name, t). map_of new name \<noteq> Some t) old"

definition applyChanges :: "'w watcher \<Rightarrow> diff_result \<Rightarrow> 'w \<Rightarrow> error option \<times> 'w" where
  "applyChanges wt d w =
     (case (if drRemoved d \<noteq> [] then wtrRemove wt (drRemoved d) w else (None, w)) of
        (Some e, w1) \<Rightarrow> (Some e, w1)
      | (None, w1) \<Rightarrow>
          let restart = drChanged d @ drAdded d
          in if restart \<noteq> [] then wtrRestart wt restart w1 else (None, w1))"

definition reEvalAndRestart :: "(service \<Rightarrow> error + string) \<Rightarrow> 'w watcher \<Rightarrow> composition \<Rightarrow> 'w \<Rightarrow> (error + composition) \<times> 'w" where
  "reEvalAndRestart marshal wt current w =
     (case wtrEval wt w of
        (Inl e, w1) \<Rightarrow> (Inl e, w1)
      | (Inr newComp, w1) \<Rightarrow>
          (case DiffCompositions marshal current newComp of
             Inl e \<Rightarrow> (Inl e, w1)
           | Inr d \<Rightarrow>
               if diff_IsEmpty d then (Inr current, w1)
               else (case applyChanges wt d w1 of
                  (Some e, w2) \<Rightarrow> (Inl e, w2)
                | (None, w2) \<Rightarrow> (Inr newComp, w2))))"

text \<open>The state of the loop: the composition that is up and the times seen last.\<close>

definition watch_tick :: "(service \<Rightarrow> error + string) \<Rightarrow> 'w watcher \<Rightarrow> composition \<times> int gomap \<Rightarrow> 'w \<Rightarrow>
    (composition \<times> int gomap) \<times> 'w" where
  "watch_tick marshal wt st w =
     (case st of (current, lastMtimes) \<Rightarrow>
      let newMtimes = collectMtimes (wtrReadDir wt w)
      in if \<not> mtimesChanged lastMtimes newMtimes then ((current, lastMtimes), w)
         else case reEvalAndRestart marshal wt current (wtrDebounce wt w) of
                (Inl e, w1) \<Rightarrow> ((current, newMtimes), w1)
              | (Inr updated, w1) \<Rightarrow> ((updated, newMtimes), w1))"

fun watch_run :: "(service \<Rightarrow> error + string) \<Rightarrow> 'w watcher \<Rightarrow> ('w \<Rightarrow> 'w) list \<Rightarrow> composition \<times> int gomap \<Rightarrow> 'w \<Rightarrow>
    (composition \<times> int gomap) \<times> 'w" where
  "watch_run marshal wt [] st w = (st, w)"
| "watch_run marshal wt (pass # ticks) st w =
     (case watch_tick marshal wt st (pass w) of (st1, w1) \<Rightarrow> watch_run marshal wt ticks st1 w1)"

definition Watcher_Run :: "(service \<Rightarrow> error + string) \<Rightarrow> 'w watcher \<Rightarrow> ('w \<Rightarrow> 'w) list \<Rightarrow> composition \<Rightarrow> 'w \<Rightarrow>
    (composition \<times> int gomap) \<times> 'w" where
  "Watcher_Run marshal wt ticks initial w = watch_run marshal wt ticks (initial, collectMtimes (wtrReadDir wt w)) w"

subsection \<open>The diff is exact\<close>

lemma marshal_all_spec:
  "marshal_all marshal services m = Inr j \<Longrightarrow> gm_ok services \<Longrightarrow>
   map_of j n = (case map_of services n of None \<Rightarrow> map_of m n | Some svc \<Rightarrow> (case marshal svc of Inr d \<Rightarrow> Some d | Inl _ \<Rightarrow> None)) \<and>
   (\<forall>svc \<in> snd ` set services. \<exists>d. marshal svc = Inr d)"
proof (induction services arbitrary: m)
  case (Cons p services)
  obtain k svc where p: "p = (k, svc)" by (cases p)
  from Cons.prems(1) p obtain d where d: "marshal svc = Inr d" "marshal_all marshal services (gm_put k d m) = Inr j"
    by (auto split: sum.splits)
  have "gm_ok services" "map_of services k = None" using Cons.prems(2) p by (auto simp: map_of_eq_None_iff gm_keys_def)
  with Cons.IH [OF d(2)] d(1) p show ?case by (auto simp: gm_put_def update_conv' split: option.split)
qed simp

lemma marshalServices_spec:
  assumes "marshalServices marshal services = Inr j" and "gm_ok services"
  shows "map_of j n = map_option (projr \<circ> marshal) (map_of services n)"
proof -
  note spec = marshal_all_spec [OF assms(1) [unfolded marshalServices_def] assms(2), of n]
  show ?thesis
  proof (cases "map_of services n")
    case (Some svc)
    then have "svc \<in> snd ` set services" by (force dest: map_of_SomeD)
    with spec Some show ?thesis by auto
  qed (use spec in simp)
qed

lemma marshal_all_ok: "marshal_all marshal services m = Inr j \<Longrightarrow> gm_ok m \<Longrightarrow> gm_ok j"
  by (induction marshal services m rule: marshal_all.induct) (auto split: sum.splits)

text \<open>The reference: a service has changed when both compositions have it and its JSON differs.\<close>

definition service_changed :: "(service \<Rightarrow> error + string) \<Rightarrow> composition \<Rightarrow> composition \<Rightarrow> string \<Rightarrow> bool" where
  "service_changed marshal old new n \<longleftrightarrow>
     (\<exists>s s'. map_of (compServices old) n = Some s \<and> map_of (compServices new) n = Some s' \<and> marshal s \<noteq> marshal s')"

lemma DiffCompositions_sets:
  assumes "gm_ok (compServices old)" and "gm_ok (compServices new)" and "DiffCompositions marshal old new = Inr d"
  shows "set (drAdded d) = set (gm_keys (compServices new)) - set (gm_keys (compServices old))"
    and "set (drRemoved d) = set (gm_keys (compServices old)) - set (gm_keys (compServices new))"
    and "set (drChanged d) = {n. service_changed marshal old new n}"
    and "sorted (drAdded d) \<and> sorted (drRemoved d) \<and> sorted (drChanged d)"
    and "distinct (drAdded d) \<and> distinct (drRemoved d) \<and> distinct (drChanged d)"
proof -
  obtain jo jn where j: "marshalServices marshal (compServices old) = Inr jo" "marshalServices marshal (compServices new) = Inr jn"
    "d = diff_json jo jn" using assms(3) by (auto simp: DiffCompositions_def split: sum.splits)
  note mo = marshalServices_spec [OF j(1) assms(1)] and mn = marshalServices_spec [OF j(2) assms(2)]
  have keys: "set (gm_keys jo) = set (gm_keys (compServices old))" "set (gm_keys jn) = set (gm_keys (compServices new))"
    using mo mn by (auto simp: gm_keys_dom dom_def)
  show "set (drAdded d) = set (gm_keys (compServices new)) - set (gm_keys (compServices old))"
    "set (drRemoved d) = set (gm_keys (compServices old)) - set (gm_keys (compServices new))"
    by (auto simp: j(3) diff_json_def keys)
  have inr: "\<exists>x. marshal s = Inr x" if "map_of (compServices c) n = Some s" "marshalServices marshal (compServices c) = Inr jj" "gm_ok (compServices c)"
    for c n s jj
  proof -
    have "s \<in> snd ` set (compServices c)" using map_of_SomeD [OF that(1)] by force
    then show ?thesis using marshal_all_spec [OF that(2) [unfolded marshalServices_def] that(3)] by blast
  qed
  have diff_iff: "marshal s \<noteq> marshal s' \<longleftrightarrow> projr (marshal s) \<noteq> projr (marshal s')"
    if "map_of (compServices old) n = Some s" "map_of (compServices new) n = Some s'" for n s s'
    using inr [OF that(1) j(1) assms(1)] inr [OF that(2) j(2) assms(2)] by auto
  have "n \<in> set (drChanged d) \<longleftrightarrow> service_changed marshal old new n" for n
  proof -
    have "n \<in> set (drChanged d) \<longleftrightarrow> map_of jo n \<noteq> None \<and> map_of jn n \<noteq> None \<and> map_of jo n \<noteq> map_of jn n"
      by (auto simp: j(3) diff_json_def gm_get_def gm_keys_dom dom_def)
    also have "\<dots> \<longleftrightarrow> service_changed marshal old new n"
      unfolding mo mn service_changed_def using diff_iff by auto
    finally show ?thesis .
  qed
  then show "set (drChanged d) = {n. service_changed marshal old new n}" by blast
  have "distinct (gm_keys jo)" "distinct (gm_keys jn)"
    using marshal_all_ok j(1,2) by (auto simp: marshalServices_def gm_ok_def gm_keys_def)
  then show "sorted (drAdded d) \<and> sorted (drRemoved d) \<and> sorted (drChanged d)"
    "distinct (drAdded d) \<and> distinct (drRemoved d) \<and> distinct (drChanged d)"
    by (simp_all add: j(3) diff_json_def sort_strings_def)
qed


text \<open>The diff of two compositions is exact and sorted: added and removed are the services that only one of
  them has, changed are those whose JSON differs, and it is empty exactly when both have the same services
  with the same JSON.\<close>

theorem DiffCompositions_exact:
  assumes "gm_ok (compServices old)" and "gm_ok (compServices new)" and "DiffCompositions marshal old new = Inr d"
  shows "drAdded d = sorted_list_of_set (set (gm_keys (compServices new)) - set (gm_keys (compServices old))) \<and>
    drRemoved d = sorted_list_of_set (set (gm_keys (compServices old)) - set (gm_keys (compServices new))) \<and>
    set (drChanged d) = {n. service_changed marshal old new n} \<and>
    (diff_IsEmpty d \<longleftrightarrow> set (gm_keys (compServices old)) = set (gm_keys (compServices new)) \<and> (\<forall>n. \<not> service_changed marshal old new n))"
proof -
  note s = DiffCompositions_sets [OF assms]
  have eq: "xs = sorted_list_of_set A" if "sorted xs" "distinct xs" "set xs = A" for xs and A :: "string set"
    using that sorted_list_of_set.idem_if_sorted_distinct by metis
  have "diff_IsEmpty d \<longleftrightarrow> set (drAdded d) = {} \<and> set (drRemoved d) = {} \<and> set (drChanged d) = {}"
    by (simp add: diff_IsEmpty_def)
  then show ?thesis using s eq [OF _ _ s(1)] eq [OF _ _ s(2)] by auto
qed

definition one_app :: "string \<Rightarrow> composition" where
  "one_app i = \<lparr>compServices = [(''web'', zero_service\<lparr>svcImage := i\<rparr>)], compNetworks = [], compVolumes = [], compMicroVM = None\<rparr>"

theorem DiffCompositions_exact_witness:
  "\<exists>d. DiffCompositions (\<lambda>s. Inr (svcImage s)) (one_app ''a'') (one_app ''b'') = Inr d \<and> drAdded d = [] \<and> \<not> diff_IsEmpty d"
proof -
  have ok: "gm_ok (compServices (one_app i))" for i by (simp add: one_app_def)
  obtain d where d: "DiffCompositions (\<lambda>s. Inr (svcImage s)) (one_app ''a'') (one_app ''b'') = Inr d"
    by (simp add: DiffCompositions_def marshalServices_def one_app_def)
  have "service_changed (\<lambda>s. Inr (svcImage s)) (one_app ''a'') (one_app ''b'') ''web''"
    by (simp add: service_changed_def one_app_def)
  moreover have "set (gm_keys (compServices (one_app ''b''))) - set (gm_keys (compServices (one_app ''a''))) = {}"
    by (simp add: one_app_def)
  ultimately show ?thesis using DiffCompositions_exact [OF ok ok d] d by force
qed

subsection \<open>What one step does\<close>

text \<open>A successful step brings the services to the evaluated composition: the callbacks are called for
  exactly the removed services, then for exactly the changed and added ones, and not at all without a
  difference; the composition that is remembered then has no difference to the evaluated one.\<close>

theorem watch_step_applies:
  assumes "gm_ok (compServices current)" and "gm_ok (compServices new)" and "wtrEval wt w = (Inr new, w1)"
    and "reEvalAndRestart marshal wt current w = (Inr c', w2)"
  shows "(\<forall>n. n \<in> set (gm_keys (compServices c')) \<longleftrightarrow> n \<in> set (gm_keys (compServices new))) \<and>
    (\<forall>n. \<not> service_changed marshal c' new n) \<and>
    (\<exists>removed restarted w'. set removed = set (gm_keys (compServices current)) - set (gm_keys (compServices new)) \<and>
       set restarted = {n. service_changed marshal current new n} \<union> (set (gm_keys (compServices new)) - set (gm_keys (compServices current))) \<and>
       (if removed = [] then (None, w1) else wtrRemove wt removed w1) = (None, w') \<and>
       (if restarted = [] then (None, w') else wtrRestart wt restarted w') = (None, w2))"
proof -
  obtain d where d: "DiffCompositions marshal current new = Inr d"
    using assms(3,4) by (auto simp: reEvalAndRestart_def split: sum.splits)
  note s = DiffCompositions_sets [OF assms(1,2) d]
  have calls: "\<exists>removed restarted w'. set removed = set (drRemoved d) \<and> set restarted = set (drChanged d) \<union> set (drAdded d) \<and>
       (if removed = [] then (None, w1) else wtrRemove wt removed w1) = (None, w') \<and>
       (if restarted = [] then (None, w') else wtrRestart wt restarted w') = (None, w2)"
  proof (cases "diff_IsEmpty d")
    case True
    then show ?thesis using assms(3,4) d
      by (intro exI [of _ "[]"] exI [of _ w1]) (simp add: reEvalAndRestart_def diff_IsEmpty_def)
  next
    case False
    then have "applyChanges wt d w1 = (None, w2)"
      using assms(3,4) d by (auto simp: reEvalAndRestart_def split: prod.splits option.splits)
    then show ?thesis
      by (intro exI [of _ "drRemoved d"] exI [of _ "drChanged d @ drAdded d"])
        (auto simp: applyChanges_def Let_def split: prod.splits option.splits if_splits)
  qed
  have "c' = new \<or> diff_IsEmpty d \<and> c' = current"
    using assms(3,4) d by (auto simp: reEvalAndRestart_def split: if_splits prod.splits option.splits)
  then have "set (gm_keys (compServices c')) = set (gm_keys (compServices new)) \<and> (\<forall>n. \<not> service_changed marshal c' new n)"
  proof
    assume "diff_IsEmpty d \<and> c' = current"
    then have "set (drAdded d) = {} \<and> set (drRemoved d) = {} \<and> set (drChanged d) = {} \<and> c' = current" by (simp add: diff_IsEmpty_def)
    then show ?thesis using s(1-3) by auto
  qed (auto simp: service_changed_def)
  with calls show ?thesis unfolding s(1-3) by auto
qed

definition calm_watcher :: "nat watcher" where
  "calm_watcher = \<lparr>wtrEval = (\<lambda>w. (Inr (one_app ''b''), w)), wtrRestart = (\<lambda>ss w. (None, w + length ss)), wtrRemove = (\<lambda>ss w. (None, w)),
     wtrReadDir = (\<lambda>w. Inr []), wtrDebounce = id\<rparr>"

theorem watch_step_applies_witness:
  "reEvalAndRestart (\<lambda>s. Inr (svcImage s)) calm_watcher (one_app ''a'') 0 = (Inr (one_app ''b''), 1) \<and>
   (\<exists>restarted. set restarted = {n. service_changed (\<lambda>s. Inr (svcImage s) :: error + string) (one_app ''a'') (one_app ''b'') n})"
proof -
  have ok: "gm_ok (compServices (one_app i))" for i by (simp add: one_app_def)
  have ev: "wtrEval calm_watcher 0 = (Inr (one_app ''b''), 0)" by (simp add: calm_watcher_def)
  have run: "reEvalAndRestart (\<lambda>s. Inr (svcImage s)) calm_watcher (one_app ''a'') 0 = (Inr (one_app ''b''), 1)" by code_simp
  have keys: "set (gm_keys (compServices (one_app ''b''))) - set (gm_keys (compServices (one_app ''a''))) = {}" by (simp add: one_app_def)
  show ?thesis using watch_step_applies [OF ok ok ev run] run unfolding keys by auto
qed

subsection \<open>What the loop misses\<close>

text \<open>The times are recorded before the change is applied: after a failed step nothing is tried again until a file
  changes once more.\<close>

lemma watch_failure_not_retried:
  assumes "mtimesChanged seen (collectMtimes (wtrReadDir wt w))" and "reEvalAndRestart marshal wt current (wtrDebounce wt w) = (Inl e, w1)"
    and "watch_tick marshal wt (current, seen) w = (st, w2)" and "gm_ok (collectMtimes (wtrReadDir wt w))"
    and "wtrReadDir wt w2 = wtrReadDir wt w"
  shows "st = (current, collectMtimes (wtrReadDir wt w)) \<and> watch_tick marshal wt st w2 = (st, w2)"
proof -
  have st: "st = (current, collectMtimes (wtrReadDir wt w))" using assms(1-3) by (simp add: watch_tick_def Let_def)
  have "\<not> mtimesChanged m m" if "gm_ok m" for m :: "int gomap"
    using that by (auto simp: mtimesChanged_def list_ex_iff gm_ok_def)
  then show ?thesis using assms(4,5) by (simp add: st watch_tick_def Let_def)
qed

text \<open>Only files that end in .nix are looked at, so a project file in YAML is never seen to change.\<close>

lemma watch_ignores_yaml:
  "collectMtimes (Inr (es @ [\<lparr>deName = ''nix-compose.yaml'', deIsDir = False, deModTime = Some t\<rparr>])) = collectMtimes (Inr es)"
  by (simp add: collectMtimes_def has_suffix_def has_prefix_def)

end
