(* ===== verification/Dep_Graph.thy ===== *)
theory Dep_Graph
  imports Go_Prelude
begin

text \<open>
  The abstract dependency graph that the ordering components implement: a finite set of nodes
  and the dependencies of each node.  \<open>peel\<close> is the specification of levelled topological
  sorting: a level holds, in sorted order, the nodes whose dependencies all lie in earlier
  levels.  The locale \<open>dep_graph\<close> holds the facts that its clients (service start order,
  request ordering) share.
\<close>

definition dep_rel :: "'a set \<Rightarrow> ('a \<Rightarrow> 'a set) \<Rightarrow> ('a \<times> 'a) set" where
  "dep_rel V D = {(n, d). n \<in> V \<and> d \<in> D n}"

definition closed_graph :: "'a set \<Rightarrow> ('a \<Rightarrow> 'a set) \<Rightarrow> bool" where
  "closed_graph V D \<longleftrightarrow> (\<forall>n \<in> V. D n \<subseteq> V)"

definition frontier :: "'a::linorder set \<Rightarrow> ('a \<Rightarrow> 'a set) \<Rightarrow> 'a set \<Rightarrow> 'a list" where
  "frontier V D seen = sorted_list_of_set {n \<in> V - seen. D n \<subseteq> seen}"

lemma set_frontier [simp]: "finite V \<Longrightarrow> set (frontier V D seen) = {n \<in> V - seen. D n \<subseteq> seen}"
  by (simp add: frontier_def)

lemma frontier_Nil: "finite V \<Longrightarrow> frontier V D seen = [] \<longleftrightarrow> {n \<in> V - seen. D n \<subseteq> seen} = {}"
  by (simp add: frontier_def)

function peel :: "'a::linorder set \<Rightarrow> ('a \<Rightarrow> 'a set) \<Rightarrow> 'a set \<Rightarrow> 'a list list" where
  "peel V D seen =
     (if infinite V \<or> frontier V D seen = [] then []
      else frontier V D seen # peel V D (seen \<union> set (frontier V D seen)))"
  by pat_completeness auto
termination
proof (relation "measure (\<lambda>(V, D, seen). card (V - seen))", goal_cases)
  case 1
  show ?case by simp
next
  case (2 V D seen)
  then have "V - (seen \<union> set (frontier V D seen)) \<subset> V - seen"
    by (auto simp: frontier_Nil)
  with 2 show ?case
    by (auto intro!: psubset_card_mono)
qed

declare peel.simps [simp del]

text \<open>
  What a levelled order promises: every node once, in sorted levels, and every dependency of a
  node in a strictly earlier level.
\<close>

definition levelled :: "'a::linorder set \<Rightarrow> ('a \<Rightarrow> 'a set) \<Rightarrow> 'a list list \<Rightarrow> bool" where
  "levelled V D levels \<longleftrightarrow>
     distinct (concat levels) \<and> set (concat levels) = V \<and>
     (\<forall>l \<in> set levels. sorted l \<and> l \<noteq> []) \<and>
     (\<forall>i < length levels. \<forall>n \<in> set (levels ! i). D n \<subseteq> set (concat (take i levels)))"

text \<open>No node waits longer than it has to: a node of a later level has a dependency in the level
  right before its own.\<close>

definition tight :: "('a \<Rightarrow> 'a set) \<Rightarrow> 'a list list \<Rightarrow> bool" where
  "tight D levels \<longleftrightarrow>
     (\<forall>i. Suc i < length levels \<longrightarrow> (\<forall>n \<in> set (levels ! Suc i). D n \<inter> set (levels ! i) \<noteq> {}))"

subsection \<open>Facts on every finite graph\<close>

locale dep_graph =
  fixes V :: "'a::linorder set" and D :: "'a \<Rightarrow> 'a set"
  assumes finite_V: "finite V"
begin

lemma peel_Nil: "frontier V D seen = [] \<Longrightarrow> peel V D seen = []"
  by (simp add: peel.simps [of V D seen])

lemma peel_Cons:
  "frontier V D seen \<noteq> [] \<Longrightarrow>
   peel V D seen = frontier V D seen # peel V D (seen \<union> set (frontier V D seen))"
  using finite_V by (subst peel.simps) simp

lemma peel_induct [case_names stop step]:
  assumes "\<And>seen. frontier V D seen = [] \<Longrightarrow> P seen"
    and "\<And>seen. frontier V D seen \<noteq> [] \<Longrightarrow> P (seen \<union> set (frontier V D seen)) \<Longrightarrow> P seen"
  shows "P seen"
proof (induction "card (V - seen)" arbitrary: seen rule: less_induct)
  case less
  show ?case
  proof (cases "frontier V D seen = []")
    case True
    then show ?thesis by (rule assms(1))
  next
    case False
    then have "V - (seen \<union> set (frontier V D seen)) \<subset> V - seen"
      using finite_V by (auto simp: frontier_Nil)
    then have "card (V - (seen \<union> set (frontier V D seen))) < card (V - seen)"
      using finite_V by (intro psubset_card_mono) auto
    then have "P (seen \<union> set (frontier V D seen))" by (rule less.hyps)
    with False show ?thesis by (rule assms(2))
  qed
qed

lemma peel_parts:
  "distinct (concat (peel V D seen)) \<and> set (concat (peel V D seen)) \<subseteq> V - seen \<and>
   (\<forall>l \<in> set (peel V D seen). sorted l \<and> l \<noteq> [])"
proof (induction seen rule: peel_induct)
  case (stop seen)
  then show ?case by (simp add: peel_Nil)
next
  case (step seen)
  have "distinct (frontier V D seen)" "sorted (frontier V D seen)"
    by (simp_all add: frontier_def)
  with step show ?case
    using finite_V by (fastforce simp: peel_Cons)
qed

lemmas peel_distinct = peel_parts [THEN conjunct1]
lemmas peel_subset = peel_parts [THEN conjunct2, THEN conjunct1]

lemma peel_before:
  "i < length (peel V D seen) \<Longrightarrow> n \<in> set (peel V D seen ! i) \<Longrightarrow>
   D n \<subseteq> seen \<union> set (concat (take i (peel V D seen)))"
proof (induction seen arbitrary: i rule: peel_induct)
  case (stop seen)
  then show ?case by (simp add: peel_Nil)
next
  case (step seen)
  show ?case
  proof (cases i)
    case 0
    with step finite_V show ?thesis by (simp add: peel_Cons)
  next
    case (Suc j)
    with step show ?thesis by (auto simp: peel_Cons Un_assoc)
  qed
qed

lemma peel_stuck:
  "n \<in> V \<Longrightarrow> n \<notin> seen \<Longrightarrow> n \<notin> set (concat (peel V D seen)) \<Longrightarrow>
   \<not> D n \<subseteq> seen \<union> set (concat (peel V D seen))"
proof (induction seen rule: peel_induct)
  case (stop seen)
  then show ?case using finite_V by (auto simp: peel_Nil frontier_Nil)
next
  case (step seen)
  then show ?case by (auto simp: peel_Cons Un_assoc)
qed

lemma peel_tight: "tight D (peel V D seen)"
proof (induction seen rule: peel_induct)
  case (stop seen)
  then show ?case by (simp add: peel_Nil tight_def)
next
  case (step seen)
  let ?F = "set (frontier V D seen)"
  have "D n \<inter> ?F \<noteq> {}" if n: "n \<in> set (peel V D (seen \<union> ?F) ! 0)"
    and len: "0 < length (peel V D (seen \<union> ?F))" for n
  proof -
    from peel_before [OF len n] have sub: "D n \<subseteq> seen \<union> ?F" by simp
    from n len have "n \<in> set (concat (peel V D (seen \<union> ?F)))"
      unfolding in_concat_nth by blast
    then have "n \<in> V - (seen \<union> ?F)"
      by (rule subsetD [OF peel_subset])
    then have "\<not> D n \<subseteq> seen" using finite_V by auto
    with sub show ?thesis by blast
  qed
  with step show ?case
    by (auto simp: peel_Cons tight_def nth_Cons split: nat.splits)
qed

lemma peel_covers:
  assumes "acyclic (dep_rel V D)" and "closed_graph V D"
  shows "set (concat (peel V D {})) = V"
proof (rule ccontr)
  let ?C = "set (concat (peel V D {}))"
  assume "?C \<noteq> V"
  then have ne: "V - ?C \<noteq> {}" using peel_subset [of "{}"] by blast
  have "dep_rel V D \<subseteq> V \<times> V"
    using assms(2) by (auto simp: dep_rel_def closed_graph_def)
  then have "finite (dep_rel V D)"
    using finite_V by (meson finite_SigmaI finite_subset)
  then have wf: "wf ((dep_rel V D)\<inverse>)"
    using assms(1) by (rule finite_acyclic_wf_converse)
  from ne obtain x where "x \<in> V - ?C" by blast
  from wfE_min [OF wf this] obtain z where z: "z \<in> V - ?C"
    and min: "\<And>y. (y, z) \<in> (dep_rel V D)\<inverse> \<Longrightarrow> y \<notin> V - ?C" by blast
  from z peel_stuck [of z "{}"] obtain d where d: "d \<in> D z" "d \<notin> ?C" by auto
  with z assms(2) have "d \<in> V" "(d, z) \<in> (dep_rel V D)\<inverse>"
    by (auto simp: closed_graph_def dep_rel_def)
  with min d show False by blast
qed

lemma levelled_peel:
  "set (concat (peel V D {})) = V \<Longrightarrow> levelled V D (peel V D {})"
  using peel_parts [of "{}"] peel_before [of _ "{}"] by (auto simp: levelled_def)

lemma levelled_acyclic:
  assumes lv: "levelled V D levels"
  shows "acyclic (dep_rel V D) \<and> closed_graph V D"
proof
  let ?idx = "\<lambda>n. LEAST i. i < length levels \<and> n \<in> set (levels ! i)"
  have "(dep_rel V D)\<inverse> \<subseteq> measure ?idx"
  proof (rule subrelI)
    fix d n assume "(d, n) \<in> (dep_rel V D)\<inverse>"
    then have n: "n \<in> V" "d \<in> D n" by (auto simp: dep_rel_def)
    with lv have "\<exists>i. i < length levels \<and> n \<in> set (levels ! i)"
      unfolding levelled_def in_concat_nth [symmetric] by simp
    then have i: "?idx n < length levels" "n \<in> set (levels ! ?idx n)"
      by (metis (mono_tags, lifting) LeastI)+
    with lv n have "d \<in> set (concat (take (?idx n) levels))"
      unfolding levelled_def by blast
    then obtain j where j: "j < ?idx n" "d \<in> set (levels ! j)"
      unfolding in_concat_take by auto
    then have "j < length levels \<and> d \<in> set (levels ! j)" using i(1) by simp
    then have "?idx d \<le> j" by (rule Least_le)
    with j show "(d, n) \<in> measure ?idx" by simp
  qed
  then have "wf ((dep_rel V D)\<inverse>)" by (rule wf_subset [OF wf_measure])
  then have "acyclic ((dep_rel V D)\<inverse>)" by (rule wf_acyclic)
  then show "acyclic (dep_rel V D)" by (simp only: acyclic_converse)
  show "closed_graph V D"
    unfolding closed_graph_def
  proof
    fix n assume "n \<in> V"
    with lv obtain i where i: "i < length levels" "n \<in> set (levels ! i)"
      unfolding levelled_def by (metis in_concat_nth)
    with lv have "D n \<subseteq> set (concat (take i levels))"
      unfolding levelled_def by blast
    also have "\<dots> \<subseteq> set (concat levels)" by (auto dest: in_set_takeD)
    finally show "D n \<subseteq> V" using lv by (simp add: levelled_def)
  qed
qed

lemma peel_complete_iff:
  "set (concat (peel V D {})) = V \<longleftrightarrow> acyclic (dep_rel V D) \<and> closed_graph V D"
  using levelled_acyclic levelled_peel peel_covers by blast

end

end
