(* ===== verification/Depgraph.thy ===== *)
theory Depgraph
  imports Eval_Types Dep_Graph
begin

text \<open>
  \<open>src/pkg/depgraph/order.go\<close>: the start and stop order of services.  \<open>buildGraph\<close> counts the
  dependencies of every service and inverts the edges, \<open>StartOrder\<close> is Kahn's algorithm grouped
  by rounds, \<open>StopOrder\<close> its reverse.  The main lemma is the refinement
  \<open>StartOrder_peel\<close>: the mutable in-degree map computes the abstract \<open>peel\<close>.
\<close>

datatype order_error = DependencyCycleDetected

subsection \<open>The code\<close>

text \<open>\<open>inDegree[name]++; dependents[dep] = append(dependents[dep], name)\<close>\<close>

definition add_edge ::
    "string \<Rightarrow> string \<Rightarrow> int gomap \<times> string list gomap \<Rightarrow> int gomap \<times> string list gomap" where
  "add_edge name dep = (\<lambda>(inDegree, dependents).
     (gm_put name (gm_get 0 inDegree name + 1) inDegree,
      gm_put dep (gm_get [] dependents dep @ [name]) dependents))"

definition buildGraph :: "composition \<Rightarrow> int gomap \<times> string list gomap" where
  "buildGraph cmp =
     (let inDegree = map (\<lambda>(name, svc). (name, 0)) (compServices cmp)
      in fold (\<lambda>(name, svc) g. fold (add_edge name) (dep_names svc) g)
           (compServices cmp) (inDegree, []))"

text \<open>One round: the names of in-degree zero, sorted; then each is deleted and its dependents
  are decremented (\<open>inDegree[dep]--\<close> on an absent key would store \<open>-1\<close>).\<close>

definition zero_level :: "int gomap \<Rightarrow> string list" where
  "zero_level inDegree = sort_strings (map fst (filter (\<lambda>(name, deg). deg = 0) inDegree))"

definition decrement :: "string \<Rightarrow> int gomap \<Rightarrow> int gomap" where
  "decrement dep inDegree = gm_put dep (gm_get 0 inDegree dep - 1) inDegree"

definition finish_node :: "string list gomap \<Rightarrow> string \<Rightarrow> int gomap \<Rightarrow> int gomap" where
  "finish_node dependents name inDegree =
     fold decrement (gm_get [] dependents name) (gm_del name inDegree)"

definition finish_level :: "string list gomap \<Rightarrow> string list \<Rightarrow> int gomap \<Rightarrow> int gomap" where
  "finish_level dependents level inDegree = fold (finish_node dependents) level inDegree"

text \<open>
  The round loop always ends, whatever the maps hold: a round deletes at least one key whose
  count is zero, and a decrement never makes a count non-negative.
\<close>

definition live_count :: "int gomap \<Rightarrow> nat" where
  "live_count m = length (filter (\<lambda>(k, d). 0 \<le> d) m)"

lemma live_count_decrement: "live_count (decrement k m) \<le> live_count m"
  by (induction m) (auto simp: live_count_def decrement_def gm_put_def gm_get_def split: option.splits)

lemma live_count_fold_decrement: "live_count (fold decrement ks m) \<le> live_count m"
  by (induction ks arbitrary: m) (auto intro: order_trans live_count_decrement)

lemma live_count_del: "live_count (gm_del k m) \<le> live_count m"
  by (induction m) (auto simp: live_count_def gm_del_def)

lemma live_count_del_less: "(k, 0) \<in> set m \<Longrightarrow> live_count (gm_del k m) < live_count m"
proof (induction m)
  case Nil
  then show ?case by simp
next
  case (Cons p m)
  then show ?case
    using live_count_del [of k m] by (cases p) (auto simp: live_count_def gm_del_def)
qed

lemma live_count_finish_node: "live_count (finish_node dependents name m) \<le> live_count m"
  unfolding finish_node_def by (rule order_trans [OF live_count_fold_decrement live_count_del])

lemma live_count_finish_level: "live_count (finish_level dependents level m) \<le> live_count m"
  unfolding finish_level_def
  by (induction level arbitrary: m) (auto intro: order_trans live_count_finish_node)

lemma finish_level_less:
  assumes "zero_level m \<noteq> []"
  shows "live_count (finish_level dependents (zero_level m) m) < live_count m"
proof -
  obtain k ks where ks: "zero_level m = k # ks"
    using assms by (cases "zero_level m") auto
  then have "k \<in> set (zero_level m)" by simp
  then have "(k, 0) \<in> set m" by (auto simp: zero_level_def)
  then have "live_count (finish_node dependents k m) < live_count m"
    unfolding finish_node_def
    by (meson le_less_trans live_count_del_less live_count_fold_decrement)
  then show ?thesis
    using live_count_finish_level [of dependents ks "finish_node dependents k m"] ks
    by (simp add: finish_level_def)
qed

function start_rounds :: "string list gomap \<Rightarrow> int gomap \<Rightarrow> string list list \<times> int gomap" where
  "start_rounds dependents inDegree =
     (let level = zero_level inDegree
      in if length level = 0 then ([], inDegree)
         else (case start_rounds dependents (finish_level dependents level inDegree) of
                 (levels, rest) \<Rightarrow> (level # levels, rest)))"
  by pat_completeness auto
termination
  by (relation "measure (\<lambda>(dependents, inDegree). live_count inDegree)") (auto intro: finish_level_less)

declare start_rounds.simps [simp del]

definition StartOrder :: "composition \<Rightarrow> order_error + string list list" where
  "StartOrder cmp =
     (case buildGraph cmp of (inDegree, dependents) \<Rightarrow>
        (case start_rounds dependents inDegree of (levels, rest) \<Rightarrow>
           if length rest > 0 then Inl DependencyCycleDetected else Inr levels))"

definition StopOrder :: "composition \<Rightarrow> order_error + string list list" where
  "StopOrder cmp =
     (case StartOrder cmp of Inl err \<Rightarrow> Inl err | Inr levels \<Rightarrow> Inr (rev levels))"

subsection \<open>What \<open>buildGraph\<close> computes\<close>

definition service_deps :: "composition \<Rightarrow> string \<Rightarrow> string set" where
  "service_deps cmp n = set (deps_of (compServices cmp) n)"

definition service_names :: "composition \<Rightarrow> string set" where
  "service_names cmp = set (gm_keys (compServices cmp))"

interpretation sg: dep_graph "service_names cmp" "service_deps cmp" for cmp
  by unfold_locales (simp add: service_names_def)

lemma finite_service_deps [simp]: "finite (service_deps cmp n)"
  by (simp add: service_deps_def)

lemma finite_service_names [simp]: "finite (service_names cmp)"
  by (simp add: service_names_def)

lemma fold_add_edge:
  assumes "fold (add_edge name) ds (i, e) = (i', e')" and "distinct ds" and "gm_ok i"
    and "name \<in> set (gm_keys i)"
  shows "gm_ok i' \<and> set (gm_keys i') = set (gm_keys i) \<and>
    (\<forall>n. gm_get 0 i' n = gm_get 0 i n + (if n = name then int (length ds) else 0)) \<and>
    (\<forall>x. gm_get [] e' x = gm_get [] e x @ (if x \<in> set ds then [name] else []))"
  using assms
proof (induction ds arbitrary: i e)
  case Nil
  then show ?case by simp
next
  case (Cons d ds)
  let ?i = "gm_put name (gm_get 0 i name + 1) i" and ?e = "gm_put d (gm_get [] e d @ [name]) e"
  have "fold (add_edge name) ds (?i, ?e) = (i', e')"
    using Cons.prems(1) by (simp add: add_edge_def [of name d])
  then have "gm_ok i' \<and> set (gm_keys i') = set (gm_keys ?i) \<and>
    (\<forall>n. gm_get 0 i' n = gm_get 0 ?i n + (if n = name then int (length ds) else 0)) \<and>
    (\<forall>x. gm_get [] e' x = gm_get [] ?e x @ (if x \<in> set ds then [name] else []))"
    using Cons.prems by (intro Cons.IH) auto
  with Cons.prems show ?case by (auto simp: gomap_simps)
qed

definition edge_counts :: "service gomap \<Rightarrow> int gomap \<Rightarrow> string list gomap \<Rightarrow>
    int gomap \<Rightarrow> string list gomap \<Rightarrow> bool" where
  "edge_counts S i e i' e' \<longleftrightarrow> gm_ok i' \<and> set (gm_keys i') = set (gm_keys i) \<and>
    (\<forall>n. gm_get 0 i' n = gm_get 0 i n + int (length (deps_of S n))) \<and>
    (\<forall>x. gm_get [] e' x = gm_get [] e x @ filter (\<lambda>n. x \<in> set (deps_of S n)) (gm_keys S))"

lemma deps_of_Cons: "deps_of ((name, svc) # S) n = (if n = name then dep_names svc else deps_of S n)"
  by (simp add: deps_of_def)

lemma filter_deps_of_Cons:
  "name \<notin> set ks \<Longrightarrow>
   filter (\<lambda>n. x \<in> set (if n = name then ds else deps_of S n)) ks = filter (\<lambda>n. x \<in> set (deps_of S n)) ks"
  by (rule filter_cong) auto

lemma fold_buildGraph:
  assumes "fold (\<lambda>(name, svc) g. fold (add_edge name) (dep_names svc) g) S (i, e) = (i', e')"
    and "services_ok S" and "gm_ok i" and "set (gm_keys S) \<subseteq> set (gm_keys i)"
  shows "edge_counts S i e i' e'"
  using assms
proof (induction S arbitrary: i e)
  case Nil
  then show ?case by (simp add: edge_counts_def deps_of_def)
next
  case (Cons p S)
  obtain name svc where p: "p = (name, svc)" by (cases p)
  obtain j f where jf: "fold (add_edge name) (dep_names svc) (i, e) = (j, f)"
    by (cases "fold (add_edge name) (dep_names svc) (i, e)")
  have ok: "services_ok S" "distinct (dep_names svc)" "name \<notin> set (gm_keys S)"
    using Cons.prems(2) by (auto simp: p services_ok_def dep_names_def)
  have first: "gm_ok j \<and> set (gm_keys j) = set (gm_keys i) \<and>
    (\<forall>n. gm_get 0 j n = gm_get 0 i n + (if n = name then int (length (dep_names svc)) else 0)) \<and>
    (\<forall>x. gm_get [] f x = gm_get [] e x @ (if x \<in> set (dep_names svc) then [name] else []))"
    using Cons.prems ok by (intro fold_add_edge [OF jf]) (auto simp: p)
  have "edge_counts S j f i' e'"
    using Cons.prems ok first by (intro Cons.IH) (auto simp: p jf)
  with first ok show ?case
    by (auto simp: edge_counts_def p deps_of_Cons filter_deps_of_Cons)
qed

lemma gm_get_zero_init: "gm_get 0 (map (\<lambda>(name, svc). (name, 0)) S) n = (0::int)"
  by (simp add: gm_get_def split: option.splits)

lemma buildGraph_spec:
  assumes "buildGraph cmp = (i, e)" and "services_ok (compServices cmp)"
  shows "gm_ok i \<and> set (gm_keys i) = service_names cmp \<and>
    (\<forall>n. gm_get 0 i n = int (card (service_deps cmp n))) \<and>
    (\<forall>x. distinct (gm_get [] e x) \<and> set (gm_get [] e x) = {n \<in> service_names cmp. x \<in> service_deps cmp n})"
proof -
  let ?i0 = "map (\<lambda>(name, svc). (name, 0::int)) (compServices cmp)"
  have "edge_counts (compServices cmp) ?i0 [] i e"
    using assms by (intro fold_buildGraph) (auto simp: buildGraph_def)
  then show ?thesis
    using assms(2)
    by (auto simp: edge_counts_def gm_get_zero_init service_names_def service_deps_def
        distinct_card gm_get_def [of "[]" "[]"])
qed

subsection \<open>The rounds compute the abstract peeling\<close>

text \<open>The state between rounds: the names not yet finished, each with the number of its
  unfinished dependencies; what is finished has its dependencies finished.\<close>

definition round_inv :: "composition \<Rightarrow> string set \<Rightarrow> int gomap \<Rightarrow> bool" where
  "round_inv cmp seen m \<longleftrightarrow> gm_ok m \<and> set (gm_keys m) = service_names cmp - seen \<and>
     (\<forall>n \<in> service_names cmp - seen. gm_get 0 m n = int (card (service_deps cmp n - seen))) \<and>
     (\<forall>n \<in> seen. service_deps cmp n \<subseteq> seen)"

definition dependents_of :: "composition \<Rightarrow> string list gomap \<Rightarrow> bool" where
  "dependents_of cmp e \<longleftrightarrow> (\<forall>x. distinct (gm_get [] e x) \<and>
     set (gm_get [] e x) = {n \<in> service_names cmp. x \<in> service_deps cmp n})"

lemma fold_decrement:
  assumes "distinct ds" "set ds \<subseteq> set (gm_keys m)" "gm_ok m"
  shows "gm_ok (fold decrement ds m) \<and> set (gm_keys (fold decrement ds m)) = set (gm_keys m) \<and>
    (\<forall>n. gm_get 0 (fold decrement ds m) n = gm_get 0 m n - (if n \<in> set ds then 1 else 0))"
  using assms
proof (induction ds arbitrary: m)
  case Nil
  then show ?case by simp
next
  case (Cons d ds)
  then have "set ds \<subseteq> set (gm_keys (decrement d m))" "gm_ok (decrement d m)"
    by (auto simp: decrement_def)
  with Cons.IH [of "decrement d m"] Cons.prems show ?case
    by (auto simp: decrement_def gomap_simps)
qed

lemma card_Diff_insert:
  assumes "finite A" and "x \<notin> S"
  shows "int (card (A - insert x S)) = int (card (A - S)) - (if x \<in> A then 1 else 0)"
proof -
  have eq: "A - insert x S = (A - S) - {x}" by auto
  show ?thesis
  proof (cases "x \<in> A")
    case True
    with assms have "card (A - S) = Suc (card ((A - S) - {x}))"
      by (intro card_Suc_Diff1 [symmetric]) auto
    with True show ?thesis by (simp add: eq)
  next
    case False
    then have "(A - S) - {x} = A - S" by auto
    with False show ?thesis by (simp add: eq)
  qed
qed

lemma finish_node_inv:
  assumes inv: "round_inv cmp seen m" and e: "dependents_of cmp e"
    and name: "name \<in> service_names cmp - seen" "service_deps cmp name \<subseteq> seen"
  shows "round_inv cmp (insert name seen) (finish_node e name m)"
proof -
  let ?ds = "gm_get [] e name" and ?m = "gm_del name m"
  have ds: "distinct ?ds" "set ?ds = {n \<in> service_names cmp. name \<in> service_deps cmp n}"
    using e by (auto simp: dependents_of_def)
  have "n \<notin> insert name seen" if "name \<in> service_deps cmp n" for n
    using inv name that unfolding round_inv_def by blast
  with ds inv have sub: "set ?ds \<subseteq> set (gm_keys ?m)" and ok: "gm_ok ?m"
    by (auto simp: round_inv_def)
  have keys: "gm_ok (finish_node e name m)"
    "set (gm_keys (finish_node e name m)) = service_names cmp - insert name seen"
    using fold_decrement [OF ds(1) sub ok] inv by (auto simp: finish_node_def round_inv_def)
  have "gm_get 0 (finish_node e name m) n = int (card (service_deps cmp n - insert name seen))"
    if n: "n \<in> service_names cmp - insert name seen" for n
  proof -
    have "gm_get 0 (finish_node e name m) n = gm_get 0 m n - (if n \<in> set ?ds then 1 else 0)"
      using fold_decrement [OF ds(1) sub ok] n by (auto simp: finish_node_def gomap_simps)
    also have "\<dots> = int (card (service_deps cmp n - insert name seen))"
      using inv n ds(2) name(1) by (auto simp: round_inv_def card_Diff_insert)
    finally show ?thesis .
  qed
  with keys inv name(2) show ?thesis by (auto simp: round_inv_def)
qed

lemma finish_level_inv:
  assumes "round_inv cmp seen m" "dependents_of cmp e" "distinct level"
    "\<forall>n \<in> set level. n \<in> service_names cmp - seen \<and> service_deps cmp n \<subseteq> seen"
  shows "round_inv cmp (seen \<union> set level) (finish_level e level m)"
  using assms
proof (induction level arbitrary: seen m)
  case Nil
  then show ?case by (simp add: finish_level_def)
next
  case (Cons x xs)
  then have "round_inv cmp (insert x seen) (finish_node e x m)"
    by (intro finish_node_inv) auto
  then have "round_inv cmp (insert x seen \<union> set xs) (finish_level e xs (finish_node e x m))"
    using Cons.prems by (intro Cons.IH) auto
  then show ?case by (simp add: finish_level_def)
qed

lemma zero_level_frontier:
  assumes "round_inv cmp seen m"
  shows "zero_level m = frontier (service_names cmp) (service_deps cmp) seen"
proof -
  let ?zs = "map fst (filter (\<lambda>(name, deg). deg = 0) m)"
  have "gm_ok (filter (\<lambda>(name, deg). deg = 0) m)"
    using assms by (simp add: round_inv_def)
  then have "distinct ?zs" by (simp add: gm_ok_def)
  moreover have "n \<in> set ?zs \<longleftrightarrow> n \<in> service_names cmp - seen \<and> service_deps cmp n \<subseteq> seen" for n
  proof -
    have "n \<in> set ?zs \<longleftrightarrow> (n, 0) \<in> set m" by force
    also have "\<dots> \<longleftrightarrow> map_of m n = Some 0"
      using assms by (simp add: round_inv_def gm_ok_mem)
    also have "\<dots> \<longleftrightarrow> n \<in> set (gm_keys m) \<and> gm_get 0 m n = 0"
      by (auto simp: gm_get_def gm_keys_iff)
    also have "\<dots> \<longleftrightarrow> n \<in> service_names cmp - seen \<and> service_deps cmp n \<subseteq> seen"
      using assms by (auto simp: round_inv_def)
    finally show ?thesis .
  qed
  then have "set ?zs = {n \<in> service_names cmp - seen. service_deps cmp n \<subseteq> seen}" by blast
  ultimately show ?thesis
    by (simp only: zero_level_def sort_strings_set frontier_def)
qed

lemma start_rounds_peel:
  assumes "round_inv cmp seen m" and "dependents_of cmp e"
  shows "fst (start_rounds e m) = peel (service_names cmp) (service_deps cmp) seen \<and>
    round_inv cmp (seen \<union> set (concat (fst (start_rounds e m)))) (snd (start_rounds e m))"
  using assms
proof (induction e m arbitrary: seen rule: start_rounds.induct)
  case (1 e m)
  let ?F = "frontier (service_names cmp) (service_deps cmp) seen"
  have zl: "zero_level m = ?F" using "1.prems"(1) by (rule zero_level_frontier)
  show ?case
  proof (cases "?F = []")
    case True
    with zl "1.prems" show ?thesis
      by (simp add: start_rounds.simps [of e m] sg.peel_Nil)
  next
    case False
    let ?m = "finish_level e ?F m"
    have inv: "round_inv cmp (seen \<union> set ?F) ?m"
      using "1.prems" by (intro finish_level_inv) (auto simp: frontier_def)
    obtain L rest where run: "start_rounds e ?m = (L, rest)" by (cases "start_rounds e ?m")
    have IH: "L = peel (service_names cmp) (service_deps cmp) (seen \<union> set ?F)"
      "round_inv cmp (seen \<union> set ?F \<union> set (concat L)) rest"
      using "1.IH" [OF refl, unfolded zl, OF _ inv "1.prems"(2)] False run by auto
    have "start_rounds e m = (?F # L, rest)"
      using False zl run by (simp add: start_rounds.simps [of e m] Let_def)
    moreover have "seen \<union> set (concat (?F # L)) = seen \<union> set ?F \<union> set (concat L)"
      by auto
    ultimately show ?thesis
      using IH sg.peel_Cons [OF False] by (metis fst_conv snd_conv)
  qed
qed

text \<open>The refinement: on well-formed maps \<open>StartOrder\<close> returns the peeling of the dependency
  graph when that covers every service, and the error otherwise.\<close>

lemma StartOrder_peel:
  assumes "services_ok (compServices cmp)"
  shows "StartOrder cmp =
    (let levels = peel (service_names cmp) (service_deps cmp) {}
     in if set (concat levels) = service_names cmp then Inr levels else Inl DependencyCycleDetected)"
proof -
  obtain i e where g: "buildGraph cmp = (i, e)" by (cases "buildGraph cmp")
  from buildGraph_spec [OF g assms] have inv: "round_inv cmp {} i" "dependents_of cmp e"
    by (auto simp: round_inv_def dependents_of_def)
  let ?L = "peel (service_names cmp) (service_deps cmp) {}"
  obtain rest where run: "start_rounds e i = (?L, rest)" and rest: "round_inv cmp (set (concat ?L)) rest"
    using start_rounds_peel [OF inv] by (cases "start_rounds e i") auto
  have "set (gm_keys rest) = service_names cmp - set (concat ?L)"
    using rest by (simp add: round_inv_def)
  moreover have "set (concat ?L) \<subseteq> service_names cmp" using sg.peel_subset [of cmp "{}"] by blast
  ultimately have "rest = [] \<longleftrightarrow> set (concat ?L) = service_names cmp"
    by (cases rest) (auto simp: gm_keys_def)
  then show ?thesis by (simp add: StartOrder_def g run Let_def)
qed

subsection \<open>A sample composition\<close>

text \<open>Three services: \<open>web\<close> needs \<open>db\<close> and \<open>cache\<close>, \<open>cache\<close> needs \<open>db\<close>.  The map lists
  \<open>web\<close> first, an iteration order Go may produce.\<close>

definition depending_on :: "string list \<Rightarrow> service" where
  "depending_on names = zero_service\<lparr>svcDependsOn :=
     \<lparr>dovEntries = map (\<lambda>n. (n, \<lparr>doeCondition = ''service_started''\<rparr>)) names\<rparr>\<rparr>"

definition sample_app :: composition where
  "sample_app = \<lparr>compServices = [(''web'', depending_on [''db'', ''cache'']), (''db'', depending_on []),
     (''cache'', depending_on [''db''])], compNetworks = [], compVolumes = [], compMicroVM = None\<rparr>"

definition sample_app_reordered :: composition where
  "sample_app_reordered = \<lparr>compServices = [(''cache'', depending_on [''db'']), (''db'', depending_on []),
     (''web'', depending_on [''cache'', ''db''])], compNetworks = [], compVolumes = [], compMicroVM = None\<rparr>"

lemma dep_names_depending_on [simp]: "dep_names (depending_on names) = names"
  by (simp add: dep_names_def depending_on_def gm_keys_def comp_def)

lemma gm_ok_depending_on [simp]:
  "gm_ok (dovEntries (svcDependsOn (depending_on names))) \<longleftrightarrow> distinct names"
  by (simp add: depending_on_def gm_ok_def comp_def)

lemma sample_app_ok: "services_ok (compServices sample_app)"
  by (simp add: sample_app_def services_ok_def)

lemma sample_app_reordered_ok: "services_ok (compServices sample_app_reordered)"
  by (simp add: sample_app_reordered_def services_ok_def)

lemma sample_app_order: "StartOrder sample_app = Inr [[''db''], [''cache''], [''web'']]"
  by code_simp

subsection \<open>Properties\<close>

lemma StartOrder_levels:
  assumes "services_ok (compServices cmp)" and "StartOrder cmp = Inr levels"
  shows "peel (service_names cmp) (service_deps cmp) {} = levels" "set (concat levels) = service_names cmp"
  using assms StartOrder_peel [OF assms(1)] by (auto simp: Let_def split: if_splits)

text \<open>C1: Whenever \<open>StartOrder\<close> succeeds, its levels hold every service exactly once, each level is
  non-empty and sorted by name, every dependency of a service lies in a strictly earlier level,
  and a service that is not in the first level has a dependency in the level right before its
  own, so no service is started later than its dependencies force.\<close>

theorem StartOrder_sound:
  assumes "services_ok (compServices cmp)" and "StartOrder cmp = Inr levels"
  shows "levelled (service_names cmp) (service_deps cmp) levels \<and> tight (service_deps cmp) levels"
  using sg.levelled_peel [of cmp] sg.peel_tight [of cmp "{}"] StartOrder_levels(2) [OF assms]
  unfolding StartOrder_levels(1) [OF assms] by blast

theorem StartOrder_sound_witness:
  "levelled (service_names sample_app) (service_deps sample_app) [[''db''], [''cache''], [''web'']]
   \<and> tight (service_deps sample_app) [[''db''], [''cache''], [''web'']]"
  by (rule StartOrder_sound [OF sample_app_ok sample_app_order])

text \<open>C2: \<open>StartOrder\<close> succeeds exactly on the compositions whose dependency graph has no cycle and
  no reference to a service that does not exist; the code's only error is the other case.\<close>

theorem StartOrder_complete:
  assumes "services_ok (compServices cmp)"
  shows "(\<exists>levels. StartOrder cmp = Inr levels) \<longleftrightarrow>
    acyclic (dep_rel (service_names cmp) (service_deps cmp)) \<and>
    closed_graph (service_names cmp) (service_deps cmp)"
  using StartOrder_peel [OF assms] sg.peel_complete_iff [of cmp] by (auto simp: Let_def)

theorem StartOrder_complete_witness:
  "acyclic (dep_rel (service_names sample_app) (service_deps sample_app)) \<and>
   closed_graph (service_names sample_app) (service_deps sample_app)"
  using StartOrder_complete [OF sample_app_ok] sample_app_order by blast

text \<open>The start order does not depend on the iteration order of Go's maps: two association
  lists for the same dependency graph give the same levels, or both give the error.\<close>

theorem StartOrder_deterministic:
  assumes "services_ok (compServices c1)" and "services_ok (compServices c2)"
    and "service_names c1 = service_names c2"
    and "\<And>n. service_deps c1 n = service_deps c2 n"
  shows "StartOrder c1 = StartOrder c2"
proof -
  have "service_deps c1 = service_deps c2" using assms(4) by (rule ext)
  then show ?thesis
    by (simp only: StartOrder_peel [OF assms(1)] StartOrder_peel [OF assms(2)] assms(3))
qed

theorem StartOrder_deterministic_witness:
  "StartOrder sample_app_reordered = Inr [[''db''], [''cache''], [''web'']]"
proof -
  have "service_names sample_app = service_names sample_app_reordered"
    by (auto simp: service_names_def sample_app_def sample_app_reordered_def)
  moreover have "service_deps sample_app n = service_deps sample_app_reordered n" for n
    by (auto simp: service_deps_def deps_of_def sample_app_def sample_app_reordered_def)
  ultimately have "StartOrder sample_app = StartOrder sample_app_reordered"
    by (rule StartOrder_deterministic [OF sample_app_ok sample_app_reordered_ok])
  then show ?thesis by (simp add: sample_app_order)
qed

text \<open>\<open>StopOrder\<close> stops dependents first: it lists every service exactly once, and a service
  stands in a strictly earlier group than each of its dependencies.\<close>

theorem StopOrder_sound:
  assumes ok: "services_ok (compServices cmp)" and stop: "StopOrder cmp = Inr groups"
  shows "distinct (concat groups) \<and> set (concat groups) = service_names cmp \<and>
    (\<forall>i < length groups. \<forall>n \<in> set (groups ! i). \<forall>d \<in> service_deps cmp n.
       \<exists>j < length groups. i < j \<and> d \<in> set (groups ! j))"
proof -
  from stop obtain levels where st: "StartOrder cmp = Inr levels" and g: "groups = rev levels"
    by (auto simp: StopOrder_def split: sum.splits)
  note lv = StartOrder_levels [OF ok st]
  have "\<exists>j < length groups. i < j \<and> d \<in> set (groups ! j)"
    if i: "i < length groups" and n: "n \<in> set (groups ! i)" and d: "d \<in> service_deps cmp n" for i n d
  proof -
    let ?k = "length levels - Suc i"
    have k: "?k < length levels" "n \<in> set (levels ! ?k)" using i n by (auto simp: g rev_nth)
    then have "d \<in> set (concat (take ?k levels))"
      using sg.peel_before [of ?k cmp "{}" n] d unfolding lv(1) by auto
    then obtain j where j: "j < ?k" "d \<in> set (levels ! j)" unfolding in_concat_take by auto
    then have "d \<in> set (groups ! (length levels - Suc j))" using k(1) by (simp add: g rev_nth)
    with j k(1) show ?thesis by (intro exI [of _ "length levels - Suc j"]) (auto simp: g)
  qed
  moreover have "distinct (concat levels)" using sg.peel_distinct [of cmp "{}"] unfolding lv(1) .
  then have "distinct (concat groups)" by (simp add: g distinct_concat_rev)
  ultimately show ?thesis using lv(2) by (simp add: g)
qed

theorem StopOrder_sound_witness:
  "distinct (concat [[''web''], [''cache''], [''db'']]) \<and>
   set (concat [[''web''], [''cache''], [''db'']]) = service_names sample_app"
  using StopOrder_sound [OF sample_app_ok, of "[[''web''], [''cache''], [''db'']]"]
  by (simp add: StopOrder_def sample_app_order)

end
