(* ===== verification/Dep_Cycles.thy ===== *)
theory Dep_Cycles
  imports Depgraph
begin

text \<open>
  \<open>src/pkg/depgraph/depgraph.go\<close>: validation of the dependency graph.  \<open>validateReferences\<close>
  reports dangling references; \<open>detectCycles\<close> is the white/gray/black depth-first search.

  The color map is a total function, since \<open>colors[dep]\<close> of an absent key is the zero value
  \<open>white\<close> and the map is never iterated.  The recursion is bounded by a fuel argument: every
  nested call colours one more node of the graph gray, so a depth of one more than the number
  of names that occur (\<open>dfs_fuel\<close>) is never exceeded (\<open>detectCycles_total\<close>).  After an error
  the search leaves the nodes of the failed path gray, as the code does.
\<close>

datatype dep_error =
    MissingService string string \<comment> \<open>service, and the dependency that does not exist\<close>
  | CycleInvolving string string

datatype color = White | Gray | Black

subsection \<open>The code\<close>

definition validateReferences :: "service gomap \<Rightarrow> dep_error list" where
  "validateReferences services =
     concat (map (\<lambda>(name, svc).
       concat (map (\<lambda>dep. if gm_has services dep then [] else [MissingService name dep])
         (dep_names svc))) services)"

fun dfsVisit :: "nat \<Rightarrow> string \<Rightarrow> service gomap \<Rightarrow> (string \<Rightarrow> color) \<Rightarrow>
      (dep_error option \<times> (string \<Rightarrow> color)) option"
and dfs_deps :: "nat \<Rightarrow> string \<Rightarrow> string list \<Rightarrow> service gomap \<Rightarrow> (string \<Rightarrow> color) \<Rightarrow>
      (dep_error option \<times> (string \<Rightarrow> color)) option" where
  "dfsVisit 0 node services colors = None"
| "dfsVisit (Suc fuel) node services colors =
     (case dfs_deps fuel node (deps_of services node) services (colors(node := Gray)) of
        None \<Rightarrow> None
      | Some (Some err, colors') \<Rightarrow> Some (Some err, colors')
      | Some (None, colors') \<Rightarrow> Some (None, colors'(node := Black)))"
| "dfs_deps fuel node [] services colors = Some (None, colors)"
| "dfs_deps fuel node (dep # deps) services colors =
     (if colors dep = Gray then Some (Some (CycleInvolving node dep), colors)
      else if colors dep = White then
        (case dfsVisit fuel dep services colors of
           None \<Rightarrow> None
         | Some (Some err, colors') \<Rightarrow> Some (Some err, colors')
         | Some (None, colors') \<Rightarrow> dfs_deps fuel node deps services colors')
      else dfs_deps fuel node deps services colors)"

definition all_names :: "service gomap \<Rightarrow> string list" where
  "all_names services = gm_keys services @ concat (map (\<lambda>(name, svc). dep_names svc) services)"

definition dfs_fuel :: "service gomap \<Rightarrow> nat" where
  "dfs_fuel services = Suc (length (all_names services))"

fun detect_from :: "string list \<Rightarrow> service gomap \<Rightarrow> (string \<Rightarrow> color) \<Rightarrow> dep_error list option" where
  "detect_from [] services colors = Some []"
| "detect_from (name # names) services colors =
     (if colors name = White then
        (case dfsVisit (dfs_fuel services) name services colors of
           None \<Rightarrow> None
         | Some (Some err, colors') \<Rightarrow> map_option (\<lambda>errs. err # errs) (detect_from names services colors')
         | Some (None, colors') \<Rightarrow> detect_from names services colors')
      else detect_from names services colors)"

definition detectCycles :: "service gomap \<Rightarrow> dep_error list option" where
  "detectCycles services = detect_from (gm_keys services) services (\<lambda>_. White)"

definition Validate :: "composition \<Rightarrow> dep_error list option" where
  "Validate cmp =
     map_option (\<lambda>errs. validateReferences (compServices cmp) @ errs) (detectCycles (compServices cmp))"

subsection \<open>Enough fuel\<close>

text \<open>The edges of the search: from a service to what it depends on, missing names included.\<close>

definition dep_edges :: "service gomap \<Rightarrow> (string \<times> string) set" where
  "dep_edges S = {(n, d). d \<in> set (deps_of S n)}"

definition whites :: "service gomap \<Rightarrow> (string \<Rightarrow> color) \<Rightarrow> string set" where
  "whites S c = {n \<in> set (all_names S). c n = White}"

lemma finite_whites [simp]: "finite (whites S c)"
  by (simp add: whites_def)

lemma deps_of_all_names: "d \<in> set (deps_of S n) \<Longrightarrow> d \<in> set (all_names S)"
proof (cases "map_of S n")
  case (Some svc)
  assume "d \<in> set (deps_of S n)"
  with Some map_of_SomeD [OF Some] show ?thesis
    by (auto simp: all_names_def deps_of_def intro!: bexI [of _ "(n, svc)"])
qed (simp add: deps_of_def)

lemma whites_gray: "c n = White \<Longrightarrow> n \<in> set (all_names S) \<Longrightarrow>
    card (whites S (c(n := Gray))) < card (whites S c)"
  by (rule psubset_card_mono) (auto simp: whites_def)

lemma dfs_whites:
  "dfsVisit k n S c = Some (r, c') \<Longrightarrow> whites S c' \<subseteq> whites S c"
  "dfs_deps k n ds S c = Some (r, c') \<Longrightarrow> whites S c' \<subseteq> whites S c"
proof (induction k n S c and k n ds S c arbitrary: r c' and r c' rule: dfsVisit_dfs_deps.induct)
  case (2 k n S c)
  then obtain r1 c1 where d: "dfs_deps k n (deps_of S n) S (c(n := Gray)) = Some (r1, c1)"
    by (auto split: option.splits)
  with 2 have "whites S c1 \<subseteq> whites S (c(n := Gray))" by blast
  moreover have "whites S (c(n := Gray)) \<subseteq> whites S c" by (auto simp: whites_def)
  moreover have "whites S c' \<subseteq> whites S c1" using 2(2) d by (auto simp: whites_def split: option.splits if_splits)
  ultimately show ?case by blast
next
  case (4 k n d ds S c)
  show ?case
  proof (cases "c d = White")
    case True
    with 4(4) obtain r1 c1 where v: "dfsVisit k d S c = Some (r1, c1)" by (auto split: option.splits)
    with 4(1) True have "whites S c1 \<subseteq> whites S c" by auto
    with 4(2) [OF _ True v] 4(4) True v show ?thesis by (cases r1) (simp, blast, simp)
  next
    case False
    with 4(3,4) show ?thesis by (auto split: if_splits)
  qed
qed auto

lemma dfs_total:
  "card (whites S c) \<le> k \<Longrightarrow> c n = White \<Longrightarrow> n \<in> set (all_names S) \<Longrightarrow> \<exists>r. dfsVisit k n S c = Some r"
  "card (whites S c) \<le> k \<Longrightarrow> set ds \<subseteq> set (all_names S) \<Longrightarrow> \<exists>r. dfs_deps k n ds S c = Some r"
proof (induction k n S c and k n ds S c rule: dfsVisit_dfs_deps.induct)
  case (1 n S c)
  then have "n \<in> whites S c" by (simp add: whites_def)
  with 1 show ?case by (metis card_0_eq empty_iff finite_whites le_zero_eq)
next
  case (2 k n S c)
  have "card (whites S (c(n := Gray))) \<le> k" using whites_gray [of c n S] 2 by linarith
  with 2(1) obtain r where "dfs_deps k n (deps_of S n) S (c(n := Gray)) = Some r"
    using deps_of_all_names by blast
  then show ?case by (auto split: option.splits prod.splits)
next
  case (4 k n d ds S c)
  show ?case
  proof (cases "c d = White")
    case True
    with 4 obtain r1 c1 where v: "dfsVisit k d S c = Some (r1, c1)" by force
    then have "card (whites S c1) \<le> k"
      using dfs_whites(1) [OF v] 4(4) by (meson card_mono finite_whites le_trans)
    with 4(2) [OF _ True v] 4(5) v True show ?thesis by (cases r1) auto
  next
    case False
    with 4 show ?thesis by simp
  qed
qed auto

subsection \<open>The colors between calls\<close>

text \<open>A call that reports no error leaves the gray nodes as they were and turns white nodes black.\<close>

definition frame :: "(string \<Rightarrow> color) \<Rightarrow> (string \<Rightarrow> color) \<Rightarrow> bool" where
  "frame c c' \<longleftrightarrow> (\<forall>x. (c x \<noteq> White \<longrightarrow> c' x = c x) \<and> (c' x = Gray \<longrightarrow> c x = Gray))"

lemma frame_refl [simp]: "frame c c"
  by (simp add: frame_def)

lemma frame_trans: "frame c c' \<Longrightarrow> frame c' c'' \<Longrightarrow> frame c c''"
  unfolding frame_def by metis

lemma frame_keep: "frame c c' \<Longrightarrow> c x \<noteq> White \<Longrightarrow> c' x = c x"
  unfolding frame_def by blast

lemma frame_gray: "frame c c' \<Longrightarrow> c' x = Gray \<Longrightarrow> c x = Gray"
  unfolding frame_def by blast

lemma frame_finish: "frame (c(n := Gray)) c' \<Longrightarrow> c n = White \<Longrightarrow> frame c (c'(n := Black))"
  unfolding frame_def by (metis color.distinct(1,5) fun_upd_other fun_upd_same)

lemma dfs_frame:
  "dfsVisit k n S c = Some (None, c') \<Longrightarrow> c n = White \<Longrightarrow> frame c c' \<and> c' n = Black"
  "dfs_deps k n ds S c = Some (None, c') \<Longrightarrow> frame c c' \<and> (\<forall>d \<in> set ds. c' d = Black)"
proof (induction k n S c and k n ds S c arbitrary: c' and c' rule: dfsVisit_dfs_deps.induct)
  case (2 k n S c)
  then obtain c1 where d: "dfs_deps k n (deps_of S n) S (c(n := Gray)) = Some (None, c1)"
    and c': "c' = c1(n := Black)" by (auto split: option.splits)
  from 2(1) [OF d] have "frame (c(n := Gray)) c1" by blast
  from frame_finish [OF this 2(3)] have "frame c c'" by (simp only: c')
  moreover have "c' n = Black" by (simp add: c')
  ultimately show ?case ..
next
  case (4 k n d ds S c)
  show ?case
  proof (cases "c d = White")
    case True
    with 4(4) obtain c1 where v: "dfsVisit k d S c = Some (None, c1)"
      and rest: "dfs_deps k n ds S c1 = Some (None, c')" by (auto split: option.splits)
    from 4(1) [OF _ True v True] True have f1: "frame c c1" "c1 d = Black" by auto
    from 4(2) [OF _ True v _ _ rest] True have f2: "frame c1 c'" "\<forall>x \<in> set ds. c' x = Black" by auto
    have "c' d = Black" using frame_keep [OF f2(1)] f1(2) by simp
    with f2(2) frame_trans [OF f1(1) f2(1)] show ?thesis by simp
  next
    case False
    with 4(4) have black: "c d = Black" and rest: "dfs_deps k n ds S c = Some (None, c')"
      by (cases "c d"; simp)+
    with 4(3) have "frame c c' \<and> (\<forall>x \<in> set ds. c' x = Black)" by auto
    moreover from this black have "c' d = Black" using frame_keep [of c c' d] by simp
    ultimately show ?thesis by simp
  qed
qed auto

text \<open>Black nodes depend on black nodes only, and none of them lies on a cycle.\<close>

definition black_inv :: "service gomap \<Rightarrow> (string \<Rightarrow> color) \<Rightarrow> bool" where
  "black_inv S c \<longleftrightarrow> (\<forall>b. c b = Black \<longrightarrow>
     (\<forall>d \<in> set (deps_of S b). c d = Black) \<and> (b, b) \<notin> (dep_edges S)\<^sup>+)"

lemma black_closed:
  assumes "(x, y) \<in> (dep_edges S)\<^sup>*" "black_inv S c" "c x = Black"
  shows "c y = Black"
  using assms by (induction rule: rtrancl_induct) (auto simp: black_inv_def dep_edges_def)

lemma black_inv_finish:
  assumes inv: "black_inv S c" and n: "c n \<noteq> Black" and deps: "\<forall>d \<in> set (deps_of S n). c d = Black"
  shows "black_inv S (c(n := Black))"
proof -
  have "(n, n) \<notin> (dep_edges S)\<^sup>+"
  proof
    assume "(n, n) \<in> (dep_edges S)\<^sup>+"
    then obtain d where "(n, d) \<in> dep_edges S" "(d, n) \<in> (dep_edges S)\<^sup>*" by (meson tranclD)
    with deps inv n show False using black_closed by (auto simp: dep_edges_def)
  qed
  with inv deps show ?thesis by (auto simp: black_inv_def)
qed

lemma dfs_black:
  "dfsVisit k n S c = Some (None, c') \<Longrightarrow> c n = White \<Longrightarrow> black_inv S c \<Longrightarrow> black_inv S c'"
  "dfs_deps k n ds S c = Some (None, c') \<Longrightarrow> black_inv S c \<Longrightarrow> black_inv S c'"
proof (induction k n S c and k n ds S c arbitrary: c' and c' rule: dfsVisit_dfs_deps.induct)
  case (2 k n S c)
  then obtain c1 where d: "dfs_deps k n (deps_of S n) S (c(n := Gray)) = Some (None, c1)"
    and c': "c' = c1(n := Black)" by (auto split: option.splits)
  have "black_inv S (c(n := Gray))" using 2(3,4) by (auto simp: black_inv_def)
  with 2(1) [OF d] have "black_inv S c1" by blast
  moreover have "c1 n = Gray" using frame_keep [of "c(n := Gray)" c1 n] dfs_frame(2) [OF d] by simp
  ultimately show ?case
    unfolding c' using dfs_frame(2) [OF d] by (intro black_inv_finish) simp_all
next
  case (4 k n d ds S c)
  show ?case
  proof (cases "c d = White")
    case True
    with 4(4) obtain c1 where v: "dfsVisit k d S c = Some (None, c1)"
      and rest: "dfs_deps k n ds S c1 = Some (None, c')" by (auto split: option.splits)
    from 4(1) [OF _ True v True 4(5)] True have "black_inv S c1" by simp
    with 4(2) [OF _ True v _ _ rest] True show ?thesis by simp
  next
    case False
    with 4(3,4,5) show ?thesis by (auto split: if_splits)
  qed
qed auto

subsection \<open>Errors are real cycles\<close>

lemma edge_back_cycle: "(n, d) \<in> dep_edges S \<Longrightarrow> (d, n) \<in> (dep_edges S)\<^sup>* \<Longrightarrow> \<not> acyclic (dep_edges S)"
  by (meson acyclic_def rtrancl_into_trancl2)

lemma dfs_error:
  "dfsVisit k n S c = Some (Some e, c') \<Longrightarrow> c n = White \<Longrightarrow>
     \<forall>g. c g = Gray \<longrightarrow> (g, n) \<in> (dep_edges S)\<^sup>* \<Longrightarrow> \<not> acyclic (dep_edges S)"
  "dfs_deps k n ds S c = Some (Some e, c') \<Longrightarrow> set ds \<subseteq> set (deps_of S n) \<Longrightarrow>
     \<forall>g. c g = Gray \<longrightarrow> (g, n) \<in> (dep_edges S)\<^sup>* \<Longrightarrow> \<not> acyclic (dep_edges S)"
proof (induction k n S c and k n ds S c arbitrary: c' and c' rule: dfsVisit_dfs_deps.induct)
  case (2 k n S c)
  then have "dfs_deps k n (deps_of S n) S (c(n := Gray)) = Some (Some e, c')"
    by (auto split: option.splits)
  moreover have "\<forall>g. (c(n := Gray)) g = Gray \<longrightarrow> (g, n) \<in> (dep_edges S)\<^sup>*" using 2(4) by simp
  ultimately show ?case using 2(1) by blast
next
  case (4 k n d ds S c)
  have edge: "(n, d) \<in> dep_edges S" using 4(5) by (auto simp: dep_edges_def)
  consider "c d = Gray" | "c d = White" | "c d = Black" by (cases "c d")
  then show ?case
  proof cases
    case 1
    then show ?thesis using edge 4(6) edge_back_cycle by blast
  next
    case 2
    have gd: "\<forall>g. c g = Gray \<longrightarrow> (g, d) \<in> (dep_edges S)\<^sup>*"
      using 4(6) edge by (meson rtrancl.rtrancl_into_rtrancl)
    from 2 4(4) obtain r1 c1 where v: "dfsVisit k d S c = Some (r1, c1)" by (auto split: option.splits)
    show ?thesis
    proof (cases r1)
      case None
      with 2 v 4(4) have rest: "dfs_deps k n ds S c1 = Some (Some e, c')" by simp
      have "\<forall>g. c1 g = Gray \<longrightarrow> (g, n) \<in> (dep_edges S)\<^sup>*"
        using dfs_frame(1) [of k d S c c1] frame_gray [of c c1] v None 2 4(6) by blast
      with 4(2) [OF _ 2 v _ None rest] 2 4(5) show ?thesis by auto
    next
      case (Some e1)
      with 2 v 4(4) have "dfsVisit k d S c = Some (Some e, c')" by simp
      with 4(1) [OF _ 2 this 2 gd] 2 show ?thesis by simp
    qed
  next
    case 3
    with 4(3-6) show ?thesis by auto
  qed
qed auto

subsection \<open>The whole search\<close>

definition no_gray :: "(string \<Rightarrow> color) \<Rightarrow> bool" where
  "no_gray c \<longleftrightarrow> (\<forall>x. c x \<noteq> Gray)"

lemma no_gray_frame: "no_gray c \<Longrightarrow> frame c c' \<Longrightarrow> no_gray c'"
  unfolding no_gray_def using frame_gray by blast

lemma detect_from_clean:
  "detect_from names S c = Some [] \<Longrightarrow> no_gray c \<Longrightarrow> black_inv S c \<Longrightarrow>
   \<exists>c'. black_inv S c' \<and> frame c c' \<and> (\<forall>n \<in> set names. c' n = Black)"
proof (induction names arbitrary: c)
  case Nil
  then show ?case by auto
next
  case (Cons n names)
  show ?case
  proof (cases "c n = White")
    case True
    with Cons.prems obtain c1 where v: "dfsVisit (dfs_fuel S) n S c = Some (None, c1)"
      and rest: "detect_from names S c1 = Some []" by (auto split: option.splits)
    have f: "frame c c1" "c1 n = Black" using dfs_frame(1) [OF v True] by auto
    from Cons.IH [OF rest no_gray_frame [OF Cons.prems(2) f(1)] dfs_black(1) [OF v True Cons.prems(3)]]
    obtain c2 where "black_inv S c2" "frame c1 c2" "\<forall>x \<in> set names. c2 x = Black" by blast
    with f frame_trans [of c c1 c2] frame_keep [of c1 c2 n] show ?thesis by auto
  next
    case False
    with Cons.prems have "c n = Black" by (cases "c n") (auto simp: no_gray_def)
    moreover from False Cons.prems Cons.IH [of c] obtain c2 where "black_inv S c2" "frame c c2"
      "\<forall>x \<in> set names. c2 x = Black" by auto
    ultimately show ?thesis using frame_keep [of c c2 n] by auto
  qed
qed

lemma detect_from_error:
  "detect_from names S c = Some errs \<Longrightarrow> errs \<noteq> [] \<Longrightarrow> no_gray c \<Longrightarrow> \<not> acyclic (dep_edges S)"
proof (induction names arbitrary: c)
  case Nil
  then show ?case by simp
next
  case (Cons n names)
  show ?case
  proof (cases "c n = White")
    case True
    with Cons.prems(1) obtain r c1 where v: "dfsVisit (dfs_fuel S) n S c = Some (r, c1)"
      by (auto split: option.splits)
    show ?thesis
    proof (cases r)
      case None
      with True v Cons.prems(1) have "detect_from names S c1 = Some errs" by simp
      with Cons.IH Cons.prems(2,3) show ?thesis
        using no_gray_frame dfs_frame(1) [OF v [unfolded None] True] by blast
    next
      case (Some e)
      then show ?thesis
        using dfs_error(1) [of "dfs_fuel S" n S c e c1] v True Cons.prems(3) by (simp add: no_gray_def)
    qed
  next
    case False
    with Cons show ?thesis by simp
  qed
qed

lemma card_whites_fuel: "card (whites S c) \<le> dfs_fuel S"
proof -
  have "card (whites S c) \<le> card (set (all_names S))"
    by (rule card_mono) (auto simp: whites_def)
  also have "\<dots> \<le> length (all_names S)" by (rule card_length)
  finally show ?thesis by (simp add: dfs_fuel_def)
qed

lemma detect_from_total: "set names \<subseteq> set (all_names S) \<Longrightarrow> \<exists>errs. detect_from names S c = Some errs"
proof (induction names arbitrary: c)
  case Nil
  then show ?case by simp
next
  case (Cons n names)
  show ?case
  proof (cases "c n = White")
    case True
    then obtain r c1 where v: "dfsVisit (dfs_fuel S) n S c = Some (r, c1)"
      using dfs_total(1) [OF card_whites_fuel, of c n S] True Cons.prems by force
    from Cons obtain errs where "detect_from names S c1 = Some errs" by auto
    with True v show ?thesis by (cases r) auto
  next
    case False
    with Cons show ?thesis by simp
  qed
qed

lemma detectCycles_total: "\<exists>errs. detectCycles S = Some errs"
  unfolding detectCycles_def by (rule detect_from_total) (simp add: all_names_def)

lemma dep_edges_rel: "dep_edges (compServices cmp) = dep_rel (service_names cmp) (service_deps cmp)"
  by (auto simp: dep_edges_def dep_rel_def service_names_def service_deps_def dest: deps_of_key)

lemma detectCycles_iff: "detectCycles S = Some [] \<longleftrightarrow> acyclic (dep_edges S)"
proof
  assume "detectCycles S = Some []"
  then obtain c where c: "black_inv S c" "\<forall>n \<in> set (gm_keys S). c n = Black"
    using detect_from_clean [of "gm_keys S" S "\<lambda>_. White"]
    by (auto simp: detectCycles_def no_gray_def black_inv_def)
  show "acyclic (dep_edges S)"
    unfolding acyclic_def
  proof (intro allI notI)
    fix n assume n: "(n, n) \<in> (dep_edges S)\<^sup>+"
    then obtain d where "(n, d) \<in> dep_edges S" by (meson tranclD)
    then have "c n = Black" using c(2) deps_of_key by (auto simp: dep_edges_def)
    with c(1) n show False by (simp add: black_inv_def)
  qed
next
  assume ac: "acyclic (dep_edges S)"
  obtain errs where "detectCycles S = Some errs" using detectCycles_total by blast
  with ac detect_from_error [of "gm_keys S" S "\<lambda>_. White" errs] show "detectCycles S = Some []"
    by (auto simp: detectCycles_def no_gray_def)
qed

lemma validateReferences_iff:
  assumes "services_ok (compServices cmp)"
  shows "validateReferences (compServices cmp) = [] \<longleftrightarrow> closed_graph (service_names cmp) (service_deps cmp)"
proof -
  let ?S = "compServices cmp"
  have "validateReferences ?S = [] \<longleftrightarrow> (\<forall>n svc. (n, svc) \<in> set ?S \<longrightarrow> set (dep_names svc) \<subseteq> set (gm_keys ?S))"
    by (fastforce simp: validateReferences_def split: if_splits)
  also have "\<dots> \<longleftrightarrow> (\<forall>n svc. map_of ?S n = Some svc \<longrightarrow> set (dep_names svc) \<subseteq> set (gm_keys ?S))"
    using assms by (simp only: gm_ok_mem services_okD)
  also have "\<dots> \<longleftrightarrow> closed_graph (service_names cmp) (service_deps cmp)"
    unfolding closed_graph_def service_names_def service_deps_def
    by (metis deps_of_Some gm_keys_iff)
  finally show ?thesis .
qed

subsection \<open>Properties\<close>

text \<open>C35: The depth-first search always returns (its recursion never exceeds the fuel, which stands
  for no bound of the code), and it reports no error exactly when no service depends on itself,
  directly or through others; names that are not services take part in the search.\<close>

theorem detectCycles_correct:
  "(\<exists>errs. detectCycles S = Some errs) \<and> (detectCycles S = Some [] \<longleftrightarrow> acyclic (dep_edges S))"
  using detectCycles_total detectCycles_iff by blast

text \<open>C36: \<open>Validate\<close> and \<open>StartOrder\<close>, two independent algorithms, agree on every composition: the
  validation reports nothing exactly when a start order exists, so a validated composition is
  never refused later with \<open>dependency cycle detected\<close>.\<close>

theorem Validate_iff_StartOrder:
  assumes "services_ok (compServices cmp)"
  shows "Validate cmp = Some [] \<longleftrightarrow> (\<exists>levels. StartOrder cmp = Inr levels)"
proof -
  obtain errs where "detectCycles (compServices cmp) = Some errs"
    using detectCycles_total by blast
  then have "Validate cmp = Some [] \<longleftrightarrow>
      validateReferences (compServices cmp) = [] \<and> detectCycles (compServices cmp) = Some []"
    by (auto simp: Validate_def)
  also have "\<dots> \<longleftrightarrow> closed_graph (service_names cmp) (service_deps cmp) \<and>
      acyclic (dep_rel (service_names cmp) (service_deps cmp))"
    using validateReferences_iff [OF assms] detectCycles_iff [of "compServices cmp"]
    by (simp add: dep_edges_rel)
  also have "\<dots> \<longleftrightarrow> (\<exists>levels. StartOrder cmp = Inr levels)"
    using StartOrder_peel [OF assms] sg.peel_complete_iff [of cmp] by (auto simp: Let_def)
  finally show ?thesis .
qed

theorem Validate_iff_StartOrder_witness: "Validate sample_app = Some []"
  using Validate_iff_StartOrder [OF sample_app_ok] sample_app_order by blast

end
