(* ===== verification/Profiles.thy ===== *)
theory Profiles
  imports Dep_Cycles
begin

text \<open>
  \<open>src/pkg/composition/filter.go\<close>: selection of services by profile.  \<open>matched\<close> is the list of
  names the code has set to true in its \<open>map[string]bool\<close>; no name is ever set to false.
\<close>

subsection \<open>The code\<close>

definition serviceProfiles :: "service \<Rightarrow> string list" where
  "serviceProfiles svc =
     (if length (svcProfiles svc) > 0 then svcProfiles svc
      else (case svcXNixCompose svc of
              None \<Rightarrow> []
            | Some x \<Rightarrow> if length (xProfiles x) > 0 then xProfiles x else []))"

definition serviceMatchesProfile :: "service \<Rightarrow> string list \<Rightarrow> bool" where
  "serviceMatchesProfile svc profiles =
     (let sp = serviceProfiles svc
      in if length sp = 0 then True
         else list_ex (\<lambda>s. list_ex (\<lambda>p. s = p) profiles) sp)"

text \<open>The inner loop of \<open>includeDepsTransitive\<close> over the dependencies of one service, then the
  queue loop.\<close>

fun enqueue_deps :: "service gomap \<Rightarrow> string list \<Rightarrow> string list \<times> string list \<Rightarrow> string list \<times> string list" where
  "enqueue_deps services [] (queue, matched) = (queue, matched)"
| "enqueue_deps services (dep # deps) (queue, matched) =
     (if dep \<notin> set matched \<and> gm_has services dep
      then enqueue_deps services deps (queue @ [dep], matched @ [dep])
      else enqueue_deps services deps (queue, matched))"

lemma enqueue_deps_measure:
  "enqueue_deps S ds (q, m) = (q', m') \<Longrightarrow>
   2 * card (set (gm_keys S) - set m') + length q' \<le> 2 * card (set (gm_keys S) - set m) + length q"
proof (induction S ds "(q, m)" arbitrary: q m rule: enqueue_deps.induct)
  case (1 S q m)
  then show ?case by simp
next
  case (2 S d ds q m)
  show ?case
  proof (cases "d \<notin> set m \<and> gm_has S d")
    case True
    then have "card (set (gm_keys S) - set (m @ [d])) < card (set (gm_keys S) - set m)"
      by (intro psubset_card_mono) auto
    with 2(1) [OF True] 2(3) True show ?thesis by fastforce
  next
    case False
    with 2 show ?thesis by auto
  qed
qed

function include_loop :: "service gomap \<Rightarrow> string list \<Rightarrow> string list \<Rightarrow> string list" where
  "include_loop services [] matched = matched"
| "include_loop services (name # queue) matched =
     (case map_of services name of
        None \<Rightarrow> include_loop services queue matched
      | Some svc \<Rightarrow>
          (case enqueue_deps services (dep_names svc) (queue, matched) of
             (queue', matched') \<Rightarrow> include_loop services queue' matched'))"
  by pat_completeness auto
termination
proof (relation "measure (\<lambda>(S, q, m). 2 * card (set (gm_keys S) - set m) + length q)", goal_cases)
  case (3 S n q m svc q' m')
  have "2 * card (set (gm_keys S) - set m') + length q' \<le> 2 * card (set (gm_keys S) - set m) + length q"
    by (rule enqueue_deps_measure [OF 3(2) [symmetric]])
  then show ?case by simp
qed auto

definition includeDepsTransitive :: "composition \<Rightarrow> string list \<Rightarrow> string list" where
  "includeDepsTransitive cmp matched = include_loop (compServices cmp) matched matched"

definition prune_service :: "service gomap \<Rightarrow> service \<Rightarrow> service" where
  "prune_service services svc =
     (if depends_on_IsEmpty (svcDependsOn svc) then svc
      else let pruned = filter (\<lambda>(dep, entry). gm_has services dep) (dovEntries (svcDependsOn svc))
           in if length pruned = 0 then svc\<lparr>svcDependsOn := zero_depends_on\<rparr>
              else svc\<lparr>svcDependsOn := \<lparr>dovEntries = pruned\<rparr>\<rparr>)"

definition pruneDanglingDeps :: "composition \<Rightarrow> composition" where
  "pruneDanglingDeps cmp = cmp\<lparr>compServices :=
     map (\<lambda>(name, svc). (name, prune_service (compServices cmp) svc)) (compServices cmp)\<rparr>"

definition FilterByProfiles :: "composition \<Rightarrow> string list \<Rightarrow> composition" where
  "FilterByProfiles cmp profiles =
     (let matched = gm_keys (filter (\<lambda>(name, svc). serviceMatchesProfile svc profiles) (compServices cmp));
          matched' = includeDepsTransitive cmp matched;
          filtered = \<lparr>compServices = map (\<lambda>name. (name, gm_get zero_service (compServices cmp) name)) matched',
             compNetworks = compNetworks cmp, compVolumes = compVolumes cmp, compMicroVM = None\<rparr>
      in pruneDanglingDeps filtered)"

definition WarnDeprecatedProfiles :: "composition \<Rightarrow> string list" where
  "WarnDeprecatedProfiles cmp =
     gm_keys (filter (\<lambda>(name, svc). length (svcProfiles svc) = 0 \<and>
       (case svcXNixCompose svc of None \<Rightarrow> False | Some x \<Rightarrow> length (xProfiles x) > 0)) (compServices cmp))"

subsection \<open>The transitive inclusion\<close>

text \<open>The dependency edges between services that exist.\<close>

definition live_edges :: "service gomap \<Rightarrow> (string \<times> string) set" where
  "live_edges S = {(n, d). d \<in> set (deps_of S n) \<and> d \<in> set (gm_keys S)}"

lemma live_edges_key: "(n, d) \<in> live_edges S \<Longrightarrow> n \<in> set (gm_keys S) \<and> d \<in> set (gm_keys S)"
  by (auto simp: live_edges_def dest: deps_of_key)

lemma enqueue_deps_spec:
  "enqueue_deps S ds (q, m) = (q', m') \<Longrightarrow>
   set m' = set m \<union> (set ds \<inter> set (gm_keys S)) \<and> set q' = set q \<union> (set m' - set m) \<and>
   (distinct m \<longrightarrow> distinct m')"
  by (induction S ds "(q, m)" arbitrary: q m rule: enqueue_deps.induct) (auto split: if_splits)

definition closed_but :: "service gomap \<Rightarrow> string list \<Rightarrow> string list \<Rightarrow> bool" where
  "closed_but S q m \<longleftrightarrow> (\<forall>n d. n \<in> set m \<longrightarrow> n \<notin> set q \<longrightarrow> (n, d) \<in> live_edges S \<longrightarrow> d \<in> set m)"

lemma include_loop_spec:
  assumes "closed_but S q m" and "set q \<subseteq> set m" and "set m \<subseteq> set (gm_keys S)" and "distinct m"
  shows "set (include_loop S q m) = (live_edges S)\<^sup>* `` set m \<and> distinct (include_loop S q m)"
  using assms
proof (induction S q m rule: include_loop.induct)
  case (1 S m)
  have "d \<in> set m" if "(n, d) \<in> (live_edges S)\<^sup>*" "n \<in> set m" for n d
    using that 1(1) by (induction rule: rtrancl_induct) (auto simp: closed_but_def)
  then show ?case using 1(4) by auto
next
  case (2 S n q m)
  show ?case
  proof (cases "map_of S n")
    case None
    then have "n \<notin> set (gm_keys S)" by (simp add: gm_keys_None)
    with 2 show ?thesis by auto
  next
    case (Some svc)
    obtain q' m' where e: "enqueue_deps S (dep_names svc) (q, m) = (q', m')"
      by (cases "enqueue_deps S (dep_names svc) (q, m)")
    note sp = enqueue_deps_spec [OF e]
    have dn: "dep_names svc = deps_of S n" using Some by (simp add: deps_of_Some)
    have new: "set m' = set m \<union> live_edges S `` {n}" using sp dn by (auto simp: live_edges_def)
    have cl: "closed_but S q' m'"
      using 2(3) sp new by (auto simp: closed_but_def)
    have sub: "set q' \<subseteq> set m'" using sp 2(4) by auto
    have keys: "set m' \<subseteq> set (gm_keys S)" using sp 2(5) by blast
    have dist: "distinct m'" using sp 2(6) by blast
    have IH: "set (include_loop S q' m') = (live_edges S)\<^sup>* `` set m' \<and> distinct (include_loop S q' m')"
      by (rule 2(2) [OF Some e [symmetric] cl sub keys dist])
    have "n \<in> set m" using 2(4) by simp
    then have "(live_edges S)\<^sup>* `` set m' = (live_edges S)\<^sup>* `` set m"
      unfolding new by (auto intro: converse_rtrancl_into_rtrancl)
    with IH Some e show ?thesis by simp
  qed
qed

subsection \<open>The filtered composition\<close>

definition enabled_services :: "composition \<Rightarrow> string list \<Rightarrow> string set" where
  "enabled_services cmp profiles =
     {n. \<exists>svc. map_of (compServices cmp) n = Some svc \<and> serviceMatchesProfile svc profiles}"

definition kept_names :: "composition \<Rightarrow> string list \<Rightarrow> string list" where
  "kept_names cmp profiles = includeDepsTransitive cmp
     (gm_keys (filter (\<lambda>(name, svc). serviceMatchesProfile svc profiles) (compServices cmp)))"

lemma matched_enabled:
  "gm_ok (compServices cmp) \<Longrightarrow>
   set (gm_keys (filter (\<lambda>(name, svc). serviceMatchesProfile svc profiles) (compServices cmp)))
     = enabled_services cmp profiles"
  by (force simp: gm_keys_def enabled_services_def gm_ok_mem [symmetric])

lemma kept_names_spec:
  assumes "gm_ok (compServices cmp)"
  shows "set (kept_names cmp profiles) = (live_edges (compServices cmp))\<^sup>* `` enabled_services cmp profiles"
    and "distinct (kept_names cmp profiles)"
proof -
  let ?m = "gm_keys (filter (\<lambda>(name, svc). serviceMatchesProfile svc profiles) (compServices cmp))"
  have "distinct ?m" using assms by simp
  moreover have "set ?m \<subseteq> set (gm_keys (compServices cmp))" by (auto simp: gm_keys_def)
  ultimately have "set (include_loop (compServices cmp) ?m ?m) = (live_edges (compServices cmp))\<^sup>* `` set ?m \<and>
      distinct (include_loop (compServices cmp) ?m ?m)"
    by (intro include_loop_spec) (auto simp: closed_but_def)
  with matched_enabled [OF assms] show
    "set (kept_names cmp profiles) = (live_edges (compServices cmp))\<^sup>* `` enabled_services cmp profiles"
    "distinct (kept_names cmp profiles)" by (simp_all add: kept_names_def includeDepsTransitive_def)
qed

lemma kept_names_sub: "gm_ok (compServices cmp) \<Longrightarrow> set (kept_names cmp profiles) \<subseteq> service_names cmp"
proof
  fix x assume "gm_ok (compServices cmp)" "x \<in> set (kept_names cmp profiles)"
  then obtain n where n: "n \<in> enabled_services cmp profiles" and r: "(n, x) \<in> (live_edges (compServices cmp))\<^sup>*"
    using kept_names_spec(1) by blast
  from r n show "x \<in> service_names cmp"
    by (cases rule: rtranclE) (auto simp: enabled_services_def service_names_def gm_keys_iff dest: live_edges_key)
qed

definition kept_services :: "composition \<Rightarrow> string list \<Rightarrow> service gomap" where
  "kept_services cmp profiles =
     map (\<lambda>name. (name, gm_get zero_service (compServices cmp) name)) (kept_names cmp profiles)"

lemma gm_keys_kept [simp]: "gm_keys (kept_services cmp profiles) = kept_names cmp profiles"
  by (simp add: kept_services_def gm_keys_def comp_def)

lemma map_of_kept:
  "map_of (kept_services cmp profiles) n =
     (if n \<in> set (kept_names cmp profiles) then Some (gm_get zero_service (compServices cmp) n) else None)"
  by (simp add: kept_services_def map_of_map_restrict restrict_map_def)

lemma Filter_services:
  "compServices (FilterByProfiles cmp profiles) =
     map (\<lambda>(name, svc). (name, prune_service (kept_services cmp profiles) svc)) (kept_services cmp profiles)"
  by (simp add: FilterByProfiles_def Let_def pruneDanglingDeps_def kept_services_def kept_names_def)

lemma service_names_Filter: "service_names (FilterByProfiles cmp profiles) = set (kept_names cmp profiles)"
  by (simp add: service_names_def Filter_services)

lemma prune_service_deps: "dep_names (prune_service S svc) = filter (\<lambda>d. d \<in> set (gm_keys S)) (dep_names svc)"
  by (auto simp: prune_service_def dep_names_def depends_on_IsEmpty_def zero_depends_on_def Let_def
      gm_keys_def filter_map comp_def split_def)

lemma gm_ok_prune_service:
  "gm_ok (dovEntries (svcDependsOn svc)) \<Longrightarrow> gm_ok (dovEntries (svcDependsOn (prune_service S svc)))"
  by (simp add: prune_service_def Let_def zero_depends_on_def)

lemma deps_of_Filter:
  assumes "gm_ok (compServices cmp)" and "n \<in> set (kept_names cmp profiles)"
  shows "deps_of (compServices (FilterByProfiles cmp profiles)) n =
     filter (\<lambda>d. d \<in> set (kept_names cmp profiles)) (deps_of (compServices cmp) n)"
proof -
  from assms kept_names_sub have "n \<in> service_names cmp" by blast
  then obtain svc where "map_of (compServices cmp) n = Some svc"
    by (auto simp: service_names_def gm_keys_iff)
  with assms show ?thesis
    by (simp add: deps_of_def Filter_services map_of_kept gm_get_def prune_service_deps)
qed

lemma service_deps_Filter:
  assumes "gm_ok (compServices cmp)" and "n \<in> set (kept_names cmp profiles)"
  shows "service_deps (FilterByProfiles cmp profiles) n = service_deps cmp n \<inter> service_names cmp"
proof -
  have "d \<in> set (kept_names cmp profiles)" if "d \<in> service_deps cmp n" "d \<in> service_names cmp" for d
  proof -
    from that have "(n, d) \<in> live_edges (compServices cmp)"
      by (simp add: live_edges_def service_deps_def service_names_def)
    with assms(2) show ?thesis
      using kept_names_spec(1) [OF assms(1)] by (auto intro: rtrancl_into_rtrancl)
  qed
  moreover have "service_deps (FilterByProfiles cmp profiles) n =
      {d \<in> service_deps cmp n. d \<in> set (kept_names cmp profiles)}"
    by (auto simp: service_deps_def deps_of_Filter [OF assms])
  ultimately show ?thesis using kept_names_sub [OF assms(1)] by blast
qed

lemma services_ok_Filter:
  assumes "services_ok (compServices cmp)"
  shows "services_ok (compServices (FilterByProfiles cmp profiles))"
proof -
  have "gm_ok (kept_services cmp profiles)"
    using kept_names_spec(2) [OF services_okD [OF assms]]
    by (simp add: gm_ok_def gm_keys_def [symmetric])
  then have "gm_ok (compServices (FilterByProfiles cmp profiles))" by (simp add: Filter_services)
  moreover have "gm_ok (dovEntries (svcDependsOn (gm_get zero_service (compServices cmp) n)))" for n
    using services_ok_entries [OF assms, of n]
    by (cases "map_of (compServices cmp) n") (simp_all add: gm_get_def zero_service_def zero_depends_on_def)
  ultimately show ?thesis
    by (auto simp: services_ok_def list_all_iff Filter_services kept_services_def gm_ok_prune_service)
qed

lemma Filter_closed:
  assumes "gm_ok (compServices cmp)"
  shows "closed_graph (service_names (FilterByProfiles cmp profiles)) (service_deps (FilterByProfiles cmp profiles))"
  using deps_of_Filter [OF assms] by (auto simp: closed_graph_def service_names_Filter service_deps_def)

subsection \<open>Properties\<close>

text \<open>C9: \<open>FilterByProfiles\<close> keeps exactly the services enabled by the active profiles together with
  everything they need, directly or through others; a kept service keeps each of its
  dependencies that names an existing service, so pruning removes only references that were
  dangling in the source composition.\<close>

theorem FilterByProfiles_closure:
  assumes "services_ok (compServices cmp)"
  shows "service_names (FilterByProfiles cmp profiles)
      = (live_edges (compServices cmp))\<^sup>* `` enabled_services cmp profiles \<and>
    (\<forall>n \<in> service_names (FilterByProfiles cmp profiles).
       service_deps (FilterByProfiles cmp profiles) n = service_deps cmp n \<inter> service_names cmp)"
  using kept_names_spec(1) service_deps_Filter services_okD [OF assms]
  by (simp add: service_names_Filter)

text \<open>A composition for the witnesses: \<open>debug\<close> has a profile and needs \<open>tools\<close>, which has another
  profile, and \<open>gone\<close>, which does not exist.\<close>

definition profiled_app :: composition where
  "profiled_app = \<lparr>compServices = [(''debug'', (depending_on [''tools'', ''gone''])\<lparr>svcProfiles := [''dev'']\<rparr>),
     (''tools'', (depending_on [])\<lparr>svcProfiles := [''ops'']\<rparr>), (''web'', depending_on [])],
     compNetworks = [], compVolumes = [], compMicroVM = None\<rparr>"

lemma profiled_app_ok: "services_ok (compServices profiled_app)"
  by (simp add: profiled_app_def services_ok_def depending_on_def)

theorem FilterByProfiles_closure_witness:
  "service_names (FilterByProfiles profiled_app [''dev'']) = {''debug'', ''tools'', ''web''} \<and>
   service_deps (FilterByProfiles profiled_app [''dev'']) ''debug'' = {''tools''}"
proof -
  have names: "service_names (FilterByProfiles profiled_app [''dev'']) = {''debug'', ''tools'', ''web''}"
    unfolding service_names_def by code_simp
  moreover have "service_deps profiled_app ''debug'' \<inter> service_names profiled_app = {''tools''}"
    unfolding service_deps_def service_names_def by code_simp
  ultimately show ?thesis
    using FilterByProfiles_closure [OF profiled_app_ok, of "[''dev'']"] by simp
qed

text \<open>Filtering never breaks a composition: when the source composition passes validation, so does
  the filtered one, whatever the profiles, and it therefore has a start order.\<close>

theorem FilterByProfiles_keeps_valid:
  assumes "services_ok (compServices cmp)" and "Validate cmp = Some []"
  shows "Validate (FilterByProfiles cmp profiles) = Some []"
proof -
  let ?F = "FilterByProfiles cmp profiles"
  have "acyclic (dep_edges (compServices cmp))"
    using assms(2) detectCycles_total [of "compServices cmp"]
    by (auto simp: Validate_def simp flip: detectCycles_iff)
  moreover have "dep_edges (compServices ?F) \<subseteq> dep_edges (compServices cmp)"
  proof (rule subrelI)
    fix n d assume "(n, d) \<in> dep_edges (compServices ?F)"
    then have d: "d \<in> set (deps_of (compServices ?F) n)" by (simp add: dep_edges_def)
    then have "n \<in> set (kept_names cmp profiles)"
      using deps_of_key [OF d] service_names_Filter by (simp add: service_names_def)
    with d deps_of_Filter [OF services_okD [OF assms(1)]] show "(n, d) \<in> dep_edges (compServices cmp)"
      by (simp add: dep_edges_def)
  qed
  ultimately have "detectCycles (compServices ?F) = Some []"
    using acyclic_subset by (auto simp: detectCycles_iff)
  moreover have "validateReferences (compServices ?F) = []"
    using validateReferences_iff [OF services_ok_Filter [OF assms(1)]] Filter_closed assms(1)
    by simp
  ultimately show ?thesis by (simp add: Validate_def)
qed

theorem FilterByProfiles_keeps_valid_witness:
  "Validate (FilterByProfiles sample_app [''dev'']) = Some []"
  by (rule FilterByProfiles_keeps_valid [OF sample_app_ok]) code_simp

text \<open>After profile filtering the reference check of \<open>Validate\<close> can never fail: a service that names
  a dependency which does not exist anywhere (a misspelled \<open>depends_on\<close>) is accepted, because
  the reference has been pruned before the validation runs.\<close>

theorem FilterByProfiles_hides_missing:
  assumes "services_ok (compServices cmp)"
  shows "validateReferences (compServices (FilterByProfiles cmp profiles)) = []"
  using validateReferences_iff [OF services_ok_Filter [OF assms]] Filter_closed assms by simp

theorem FilterByProfiles_hides_missing_witness:
  "validateReferences (compServices profiled_app) = [MissingService ''debug'' ''gone''] \<and>
   validateReferences (compServices (FilterByProfiles profiled_app [''dev''])) = []"
  using FilterByProfiles_hides_missing [OF profiled_app_ok, of "[''dev'']"]
  by (simp add: profiled_app_def validateReferences_def dep_names_def depending_on_def)

end
