(* ===== verification/Init_Containers.thy ===== *)
theory Init_Containers
  imports Profiles
begin

text \<open>
  \<open>src/pkg/composition/initcontainers.go\<close>: expansion of the init containers of a service into
  services of their own, chained by \<open>depends_on\<close>.  The source writes the new dependency of the
  main service into the map it shares with the input composition; callers go on with the
  returned composition only, which is the one modelled.
\<close>

subsection \<open>The code\<close>

definition initServiceName :: "string \<Rightarrow> string \<Rightarrow> string" where
  "initServiceName serviceName initName = serviceName @ ''-init-'' @ initName"

definition completed_entry :: depends_on_entry where
  "completed_entry = \<lparr>doeCondition = ''service_completed_successfully''\<rparr>"

definition init_deps :: "service \<Rightarrow> nat \<Rightarrow> string \<Rightarrow> depends_on_entry gomap" where
  "init_deps svc i prevInitName =
     (if i = 0 then gm_put_all (dovEntries (svcDependsOn svc)) []
      else [(prevInitName, completed_entry)])"

definition init_service :: "service \<Rightarrow> nat \<Rightarrow> string \<Rightarrow> init_container \<Rightarrow> service" where
  "init_service svc i prevInitName ic =
     (let initSvc = zero_service\<lparr>svcImage := icImage ic, svcCommand := icCommand ic,
            svcEnvironment := icEnvironment ic, svcVolumes := icVolumes ic, svcRestart := ''no''\<rparr>;
          initDeps = init_deps svc i prevInitName
      in if length initDeps > 0 then initSvc\<lparr>svcDependsOn := \<lparr>dovEntries = initDeps\<rparr>\<rparr> else initSvc)"

fun synth_loop :: "string \<Rightarrow> service \<Rightarrow> nat \<Rightarrow> string \<Rightarrow> init_container list \<Rightarrow> service gomap \<Rightarrow>
    service gomap \<times> string" where
  "synth_loop name svc i prevInitName [] services = (services, prevInitName)"
| "synth_loop name svc i prevInitName (ic # inits) services =
     (let initName = initServiceName name (icName ic)
      in synth_loop name svc (Suc i) initName inits
           (gm_put initName (init_service svc i prevInitName ic) services))"

definition service_inits :: "service \<Rightarrow> init_container list" where
  "service_inits svc = (case svcXNixCompose svc of None \<Rightarrow> [] | Some x \<Rightarrow> xInitContainers x)"

definition synthesizeForService :: "string \<Rightarrow> service \<Rightarrow> service gomap \<times> depends_on_value" where
  "synthesizeForService name svc =
     (case synth_loop name svc 0 '''' (service_inits svc) [] of
        (services, prevInitName) \<Rightarrow> (services, \<lparr>dovEntries = [(prevInitName, completed_entry)]\<rparr>))"

definition synth_step :: "composition \<Rightarrow> string \<Rightarrow> service gomap \<Rightarrow> service gomap" where
  "synth_step cmp name newServices =
     (let svc = gm_get zero_service (compServices cmp) name
      in if svcXNixCompose svc = None \<or> length (service_inits svc) = 0 then gm_put name svc newServices
         else case synthesizeForService name svc of
           (initSvcs, mainDeps) \<Rightarrow>
             let newServices' = gm_put_all initSvcs newServices;
                 entries = gm_put_all (dovEntries mainDeps) (dovEntries (svcDependsOn svc))
             in gm_put name (svc\<lparr>svcDependsOn := \<lparr>dovEntries = entries\<rparr>\<rparr>) newServices')"

definition SynthesizeInitContainers :: "composition \<Rightarrow> composition" where
  "SynthesizeInitContainers cmp =
     \<lparr>compServices = fold (synth_step cmp) (sorted_keys (compServices cmp)) [],
      compNetworks = compNetworks cmp, compVolumes = compVolumes cmp, compMicroVM = None\<rparr>"

subsection \<open>What each service contributes\<close>

definition init_name :: "string \<Rightarrow> service \<Rightarrow> nat \<Rightarrow> string" where
  "init_name s svc i = initServiceName s (icName (service_inits svc ! i))"

definition init_at :: "string \<Rightarrow> service \<Rightarrow> nat \<Rightarrow> service" where
  "init_at s svc i = init_service svc i (init_name s svc (i - 1)) (service_inits svc ! i)"

definition main_service :: "string \<Rightarrow> service \<Rightarrow> service" where
  "main_service s svc =
     (if service_inits svc = [] then svc
      else svc\<lparr>svcDependsOn := \<lparr>dovEntries =
        gm_put (init_name s svc (length (service_inits svc) - 1)) completed_entry (dovEntries (svcDependsOn svc))\<rparr>\<rparr>)"

lemma synth_loop_spec:
  "service_inits svc = done @ rest \<Longrightarrow> i = length done \<Longrightarrow>
   (i = 0 \<or> prev = init_name s svc (i - 1)) \<Longrightarrow>
   synth_loop s svc i prev rest acc =
     (gm_put_all (map (\<lambda>j. (init_name s svc j, init_at s svc j)) [i..<length (service_inits svc)]) acc,
      if rest = [] then prev else init_name s svc (length (service_inits svc) - 1))"
proof (induction rest arbitrary: "done" i prev acc)
  case Nil
  then show ?case by simp
next
  case (Cons ic rest)
  have ic: "service_inits svc ! i = ic" using Cons.prems by simp
  have nm: "initServiceName s (icName ic) = init_name s svc i" by (simp add: init_name_def ic)
  have at: "init_service svc i prev ic = init_at s svc i"
    using Cons.prems(3) by (auto simp: init_at_def ic init_service_def init_deps_def)
  have up: "[i..<length (service_inits svc)] = i # [Suc i..<length (service_inits svc)]"
    using Cons.prems by (intro upt_conv_Cons) simp
  have IH: "synth_loop s svc (Suc i) (init_name s svc i) rest acc' =
     (gm_put_all (map (\<lambda>j. (init_name s svc j, init_at s svc j)) [Suc i..<length (service_inits svc)]) acc',
      if rest = [] then init_name s svc i else init_name s svc (length (service_inits svc) - 1))" for acc'
    by (rule Cons.IH [of "done @ [ic]"]) (use Cons.prems in simp_all)
  have last: "rest = [] \<Longrightarrow> length (service_inits svc) - 1 = i" using Cons.prems by simp
  show ?case
    unfolding synth_loop.simps Let_def nm at IH up list.map gm_put_all_Cons using last by simp
qed

lemma synthesizeForService_spec:
  assumes "service_inits svc \<noteq> []"
  shows "synthesizeForService s svc =
    (gm_put_all (map (\<lambda>j. (init_name s svc j, init_at s svc j)) [0..<length (service_inits svc)]) [],
     \<lparr>dovEntries = [(init_name s svc (length (service_inits svc) - 1), completed_entry)]\<rparr>)"
  using synth_loop_spec [of svc "[]" "service_inits svc" 0 "''''" s "[]"] assms
  by (simp add: synthesizeForService_def)

lemma service_inits_None: "svcXNixCompose svc = None \<Longrightarrow> service_inits svc = []"
  by (simp add: service_inits_def)

text \<open>The entries a service contributes, and their keys and origins.\<close>

definition origin :: "service gomap \<Rightarrow> string \<Rightarrow> service \<Rightarrow> bool" where
  "origin S k v \<longleftrightarrow>
     (\<exists>svc. map_of S k = Some svc \<and> v = main_service k svc) \<or>
     (\<exists>s svc i. map_of S s = Some svc \<and> i < length (service_inits svc) \<and> k = init_name s svc i \<and> v = init_at s svc i)"

definition init_names :: "string \<times> service \<Rightarrow> string list" where
  "init_names = (\<lambda>(s, svc). map (init_name s svc) [0..<length (service_inits svc)])"

lemma synth_step_shape:
  assumes "map_of (compServices cmp) s = Some svc"
  shows "synth_step cmp s acc =
    gm_put s (main_service s svc)
      (gm_put_all (gm_put_all (map (\<lambda>j. (init_name s svc j, init_at s svc j)) [0..<length (service_inits svc)]) []) acc)"
  using assms service_inits_None [of svc]
  by (auto simp: synth_step_def Let_def gm_get_def main_service_def synthesizeForService_spec gm_put_all_def)

lemma origin_step:
  assumes "map_of (compServices cmp) s = Some svc" and "\<forall>(k, v) \<in> set acc. origin (compServices cmp) k v"
  shows "\<forall>(k, v) \<in> set (synth_step cmp s acc). origin (compServices cmp) k v"
proof (clarsimp simp: synth_step_shape [OF assms(1)])
  fix k v
  let ?es = "map (\<lambda>j. (init_name s svc j, init_at s svc j)) [0..<length (service_inits svc)]"
  assume "(k, v) \<in> set (gm_put s (main_service s svc) (gm_put_all (gm_put_all ?es []) acc))"
  then consider "k = s \<and> v = main_service s svc" | "(k, v) \<in> set ?es" | "(k, v) \<in> set acc"
    by (auto dest!: gm_put_memD gm_put_all_memD)
  then show "origin (compServices cmp) k v"
  proof cases
    case 1
    with assms(1) show ?thesis by (auto simp: origin_def)
  next
    case 2
    then obtain j where "j < length (service_inits svc)" "k = init_name s svc j" "v = init_at s svc j" by auto
    with assms(1) show ?thesis unfolding origin_def by blast
  next
    case 3
    with assms(2) show ?thesis by blast
  qed
qed

lemma origin_init:
  "origin S k v \<Longrightarrow> map_of S k = None \<Longrightarrow> \<exists>s svc i. map_of S s = Some svc \<and> i < length (service_inits svc) \<and>
     k = init_name s svc i \<and> v = init_at s svc i"
  by (simp add: origin_def)

lemma gm_keys_pairs [simp]: "gm_keys (map (\<lambda>j. (f j, g j)) xs) = map f xs"
  by (simp add: gm_keys_def comp_def)

lemma keys_step:
  assumes "map_of (compServices cmp) s = Some svc"
  shows "set (gm_keys (synth_step cmp s acc)) = insert s (set (init_names (s, svc)) \<union> set (gm_keys acc))"
  by (auto simp: synth_step_shape [OF assms] init_names_def)

lemma ok_step: "gm_ok acc \<Longrightarrow> map_of (compServices cmp) s = Some svc \<Longrightarrow> gm_ok (synth_step cmp s acc)"
  by (simp add: synth_step_shape gm_ok_put_all)

lemma synth_fold:
  assumes "set ns \<subseteq> set (gm_keys (compServices cmp))" and "gm_ok acc"
    and "\<forall>(k, v) \<in> set acc. origin (compServices cmp) k v"
  shows "gm_ok (fold (synth_step cmp) ns acc) \<and>
    (\<forall>(k, v) \<in> set (fold (synth_step cmp) ns acc). origin (compServices cmp) k v) \<and>
    set (gm_keys (fold (synth_step cmp) ns acc)) = set (gm_keys acc) \<union> set ns \<union>
      (\<Union>s \<in> set ns. set (init_names (s, the (map_of (compServices cmp) s))))"
  using assms
proof (induction ns arbitrary: acc)
  case Nil
  then show ?case by simp
next
  case (Cons s ns)
  then obtain svc where s: "map_of (compServices cmp) s = Some svc" by (auto simp: gm_keys_iff)
  show ?case
    using Cons.IH [OF _ ok_step [OF Cons.prems(2) s] origin_step [OF s Cons.prems(3)]] Cons.prems(1)
    by (auto simp: keys_step [OF s] s)
qed

lemma synth_services:
  assumes "gm_ok (compServices cmp)"
  shows "gm_ok (compServices (SynthesizeInitContainers cmp))"
    and "map_of (compServices (SynthesizeInitContainers cmp)) k = Some v \<Longrightarrow> origin (compServices cmp) k v"
    and "service_names (SynthesizeInitContainers cmp) =
      service_names cmp \<union> (\<Union>e \<in> set (compServices cmp). set (init_names e))"
proof -
  let ?S = "compServices cmp" and ?R = "fold (synth_step cmp) (sorted_keys (compServices cmp)) []"
  have f: "gm_ok ?R \<and> (\<forall>(k, v) \<in> set ?R. origin ?S k v) \<and>
    set (gm_keys ?R) = set (gm_keys []) \<union> set (sorted_keys ?S) \<union>
      (\<Union>s \<in> set (sorted_keys ?S). set (init_names (s, the (map_of ?S s))))"
    using synth_fold [of "sorted_keys ?S" cmp "[]"] by simp
  then show "gm_ok (compServices (SynthesizeInitContainers cmp))" by (simp add: SynthesizeInitContainers_def)
  show "origin ?S k v" if "map_of (compServices (SynthesizeInitContainers cmp)) k = Some v"
    using f map_of_SomeD [OF that] by (auto simp: SynthesizeInitContainers_def)
  have im: "set ?S = (\<lambda>s. (s, the (map_of ?S s))) ` set (gm_keys ?S)"
    using gm_ok_mem [OF assms] by (force simp: gm_keys_iff)
  have "(\<Union>s \<in> set (gm_keys ?S). set (init_names (s, the (map_of ?S s)))) = (\<Union>e \<in> set ?S. set (init_names e))"
    by (simp only: im image_image)
  with f show "service_names (SynthesizeInitContainers cmp) =
      service_names cmp \<union> (\<Union>e \<in> set ?S. set (init_names e))"
    by (simp add: SynthesizeInitContainers_def service_names_def)
qed

subsection \<open>Fresh names\<close>

text \<open>No generated name is the name of a service or of another init container.  Nothing in the
  code checks this: \<open>newServices[initName] = initSvc\<close> overwrites silently.\<close>

definition fresh_inits :: "composition \<Rightarrow> bool" where
  "fresh_inits cmp \<longleftrightarrow> distinct (gm_keys (compServices cmp) @ concat (map init_names (compServices cmp)))"

definition place_table :: "composition \<Rightarrow> (string \<times> string \<times> nat) list" where
  "place_table cmp = concat (map (\<lambda>(s, svc). map (\<lambda>i. (init_name s svc i, s, i)) [0..<length (service_inits svc)])
     (compServices cmp))"

definition place :: "composition \<Rightarrow> string \<Rightarrow> string \<times> nat" where
  "place cmp k = (case map_of (compServices cmp) k of
     Some svc \<Rightarrow> (k, length (service_inits svc)) | None \<Rightarrow> the (map_of (place_table cmp) k))"

lemma place_table_keys: "map fst (place_table cmp) = concat (map init_names (compServices cmp))"
  by (simp add: place_table_def init_names_def map_concat comp_def split_def)

lemma place_init:
  assumes "fresh_inits cmp" and "map_of (compServices cmp) s = Some svc" and "i < length (service_inits svc)"
  shows "place cmp (init_name s svc i) = (s, i)" and "map_of (compServices cmp) (init_name s svc i) = None"
proof -
  have "(s, svc) \<in> set (compServices cmp)" using assms(2) by (rule map_of_SomeD)
  with assms(3) have mem: "(init_name s svc i, s, i) \<in> set (place_table cmp)"
    by (auto simp: place_table_def intro!: bexI [of _ "(s, svc)"])
  then have "init_name s svc i \<in> set (map fst (place_table cmp))" by force
  with assms(1) show none: "map_of (compServices cmp) (init_name s svc i) = None"
    by (auto simp: fresh_inits_def place_table_keys simp flip: gm_keys_None)
  have "distinct (map fst (place_table cmp))" using assms(1) by (simp add: fresh_inits_def place_table_keys)
  with mem have "map_of (place_table cmp) (init_name s svc i) = Some (s, i)" by simp
  with none show "place cmp (init_name s svc i) = (s, i)" by (simp add: place_def)
qed

text \<open>The services of the result, by name.\<close>

lemma synth_main:
  assumes "gm_ok (compServices cmp)" and "fresh_inits cmp" and "map_of (compServices cmp) s = Some svc"
  shows "map_of (compServices (SynthesizeInitContainers cmp)) s = Some (main_service s svc)"
proof -
  have "s \<in> service_names (SynthesizeInitContainers cmp)"
    using assms(3) synth_services(3) [OF assms(1)] by (auto simp: service_names_def gm_keys_iff)
  then obtain v where v: "map_of (compServices (SynthesizeInitContainers cmp)) s = Some v"
    by (auto simp: service_names_def gm_keys_iff)
  from synth_services(2) [OF assms(1) v] assms(3) place_init(2) [OF assms(2)] v show ?thesis
    by (auto simp: origin_def)
qed

lemma synth_init:
  assumes "gm_ok (compServices cmp)" and "fresh_inits cmp" and "map_of (compServices cmp) s = Some svc"
    and "i < length (service_inits svc)"
  shows "map_of (compServices (SynthesizeInitContainers cmp)) (init_name s svc i) = Some (init_at s svc i)"
proof -
  have "init_name s svc i \<in> set (init_names (s, svc))" using assms(4) by (simp add: init_names_def)
  with map_of_SomeD [OF assms(3)] have "init_name s svc i \<in> service_names (SynthesizeInitContainers cmp)"
    using synth_services(3) [OF assms(1)] by blast
  then obtain v where v: "map_of (compServices (SynthesizeInitContainers cmp)) (init_name s svc i) = Some v"
    by (auto simp: service_names_def gm_keys_iff)
  from origin_init [OF synth_services(2) [OF assms(1) v] place_init(2) [OF assms(2-4)]]
  obtain s' svc' j where o: "map_of (compServices cmp) s' = Some svc'" "j < length (service_inits svc')"
    "init_name s svc i = init_name s' svc' j" "v = init_at s' svc' j"
    by (elim exE conjE) (rule that)
  have "(s, i) = (s', j)" using place_init(1) [OF assms(2-4)] place_init(1) [OF assms(2) o(1,2)] o(3) by simp
  then have eq: "s' = s" "j = i" by simp_all
  have "svc' = svc" using o(1) assms(3) by (simp add: eq)
  with v show ?thesis by (simp only: o(4) eq)
qed

lemma dep_names_main:
  "set (dep_names (main_service s svc)) = set (dep_names svc) \<union>
     (if service_inits svc = [] then {} else {init_name s svc (length (service_inits svc) - 1)})"
  by (auto simp: main_service_def dep_names_def)

lemma dep_names_init:
  "set (dep_names (init_at s svc i)) = (if i = 0 then set (dep_names svc) else {init_name s svc (i - 1)})"
proof (cases "init_deps svc i (init_name s svc (i - 1))")
  case Nil
  moreover from this have "i = 0" and "gm_put_all (dovEntries (svcDependsOn svc)) [] = []"
    by (simp_all add: init_deps_def split: if_splits)
  moreover from this(2) gm_keys_put_all [of "dovEntries (svcDependsOn svc)" "[]"]
  have "set (gm_keys (dovEntries (svcDependsOn svc))) = {}" by (simp only: gm_keys_Nil) auto
  ultimately show ?thesis
    by (simp add: init_at_def init_service_def dep_names_def zero_service_def zero_depends_on_def)
next
  case (Cons e es)
  then have "dep_names (init_at s svc i) = gm_keys (init_deps svc i (init_name s svc (i - 1)))"
    by (simp add: init_at_def init_service_def dep_names_def Let_def)
  then show ?thesis by (simp add: init_deps_def dep_names_def)
qed

lemma dep_edges_main:
  assumes "gm_ok (compServices cmp)" and "fresh_inits cmp" and "map_of (compServices cmp) s = Some svc"
  shows "service_deps (SynthesizeInitContainers cmp) s = service_deps cmp s \<union>
     (if service_inits svc = [] then {} else {init_name s svc (length (service_inits svc) - 1)})"
  by (simp only: service_deps_def deps_of_Some [OF synth_main [OF assms]] deps_of_Some [OF assms(3)] dep_names_main)

lemma dep_edges_init:
  assumes "gm_ok (compServices cmp)" and "fresh_inits cmp" and "map_of (compServices cmp) s = Some svc"
    and "i < length (service_inits svc)"
  shows "service_deps (SynthesizeInitContainers cmp) (init_name s svc i) =
     (if i = 0 then service_deps cmp s else {init_name s svc (i - 1)})"
  by (simp only: service_deps_def deps_of_Some [OF synth_init [OF assms]] deps_of_Some [OF assms(3)] dep_names_init)

lemma synth_names_cases:
  assumes "gm_ok (compServices cmp)" and "k \<in> service_names (SynthesizeInitContainers cmp)"
  obtains (main) svc where "map_of (compServices cmp) k = Some svc"
  | (init) s svc i where "map_of (compServices cmp) s = Some svc" "i < length (service_inits svc)" "k = init_name s svc i"
proof (cases "map_of (compServices cmp) k")
  case None
  from assms(2) obtain v where v: "map_of (compServices (SynthesizeInitContainers cmp)) k = Some v"
    by (auto simp: service_names_def gm_keys_iff)
  from origin_init [OF synth_services(2) [OF assms(1) v] None] show ?thesis
    by (elim exE conjE) (rule init)
next
  case (Some svc)
  then show ?thesis by (rule main)
qed

text \<open>Every edge of the result goes down in the lexicographic order of the source's edges and the
  position in the chain of one service.\<close>

lemma synth_edge_decreases:
  assumes "gm_ok (compServices cmp)" and "fresh_inits cmp"
    and "d \<in> service_deps (SynthesizeInitContainers cmp) n"
    and "closed_graph (service_names cmp) (service_deps cmp)"
  shows "(place cmp d, place cmp n) \<in> (dep_edges (compServices cmp))\<inverse> <*lex*> less_than"
proof -
  have n: "n \<in> service_names (SynthesizeInitContainers cmp)"
    using assms(3) by (auto simp: service_deps_def service_names_def dest: deps_of_key)
  have pl: "fst (place cmp k) = k" if "k \<in> service_names cmp" for k
    using that by (auto simp: place_def service_names_def gm_keys_iff)
  have src: "(place cmp k, s, j) \<in> (dep_edges (compServices cmp))\<inverse> <*lex*> less_than"
    if "k \<in> service_deps cmp s" "s \<in> service_names cmp" for k s j
  proof -
    have "k \<in> service_names cmp" using that assms(4) by (auto simp: closed_graph_def)
    with pl [of k] that(1) show ?thesis
      by (cases "place cmp k") (simp add: dep_edges_def service_deps_def)
  qed
  from assms(1) n show ?thesis
  proof (cases rule: synth_names_cases)
    case (main svc)
    have sn: "n \<in> service_names cmp" using main by (auto simp: service_names_def gm_keys_iff)
    have pn: "place cmp n = (n, length (service_inits svc))" by (simp add: place_def main)
    show ?thesis
    proof (cases "d \<in> service_deps cmp n")
      case True
      then show ?thesis using src [OF True sn] pn by simp
    next
      case False
      with assms(3) dep_edges_main [OF assms(1,2) main]
      have d: "d = init_name n svc (length (service_inits svc) - 1)" and ne: "service_inits svc \<noteq> []"
        by (auto split: if_splits)
      then show ?thesis using place_init(1) [OF assms(2) main, of "length (service_inits svc) - 1"] pn
        by simp
    qed
  next
    case (init s svc i)
    have ss: "s \<in> service_names cmp" using init(1) by (auto simp: service_names_def gm_keys_iff)
    have pn: "place cmp n = (s, i)" using place_init(1) [OF assms(2) init(1,2)] init(3) by simp
    have dd: "if i = 0 then d \<in> service_deps cmp s else d = init_name s svc (i - 1)"
      using assms(3) dep_edges_init [OF assms(1,2) init(1,2)] init(3) by (simp split: if_splits)
    show ?thesis
    proof (cases "i = 0")
      case True
      with dd src [OF _ ss] pn show ?thesis by simp
    next
      case False
      with dd place_init(1) [OF assms(2) init(1), of "i - 1"] init(2) pn show ?thesis by simp
    qed
  qed
qed

lemma synth_acyclic:
  assumes "gm_ok (compServices cmp)" and "fresh_inits cmp" and "acyclic (dep_edges (compServices cmp))"
    and "closed_graph (service_names cmp) (service_deps cmp)"
  shows "acyclic (dep_edges (compServices (SynthesizeInitContainers cmp)))"
proof -
  let ?R = "dep_edges (compServices cmp)" and ?N = "dep_edges (compServices (SynthesizeInitContainers cmp))"
  have "?R \<subseteq> service_names cmp \<times> service_names cmp"
    using assms(4) by (auto simp: dep_edges_def closed_graph_def service_names_def service_deps_def dest: deps_of_key)
  then have "finite ?R" by (rule finite_subset) (simp add: service_names_def)
  with assms(3) have "wf (?R\<inverse>)" by (simp add: finite_acyclic_wf_converse)
  then have "wf (inv_image (?R\<inverse> <*lex*> less_than) (place cmp))" by (intro wf_inv_image wf_lex_prod) simp_all
  moreover have "?N\<inverse> \<subseteq> inv_image (?R\<inverse> <*lex*> less_than) (place cmp)"
    using synth_edge_decreases [OF assms(1,2) _ assms(4)] by (auto simp: dep_edges_def service_deps_def simp del: in_lex_prod)
  ultimately have "wf (?N\<inverse>)" by (rule wf_subset)
  then have "acyclic (?N\<inverse>)" by (rule wf_acyclic)
  then show ?thesis by (simp only: acyclic_converse)
qed

lemma synth_closed:
  assumes "gm_ok (compServices cmp)" and "fresh_inits cmp" and "closed_graph (service_names cmp) (service_deps cmp)"
  shows "closed_graph (service_names (SynthesizeInitContainers cmp)) (service_deps (SynthesizeInitContainers cmp))"
  unfolding closed_graph_def
proof
  fix n assume n: "n \<in> service_names (SynthesizeInitContainers cmp)"
  have old: "service_names cmp \<subseteq> service_names (SynthesizeInitContainers cmp)" using synth_services(3) [OF assms(1)] by blast
  have new: "init_name s svc i \<in> service_names (SynthesizeInitContainers cmp)"
    if "map_of (compServices cmp) s = Some svc" "i < length (service_inits svc)" for s svc i
    unfolding service_names_def gm_keys_iff by (rule exI, rule synth_init [OF assms(1,2) that])
  have src: "service_deps cmp s \<subseteq> service_names (SynthesizeInitContainers cmp)"
    if "map_of (compServices cmp) s = Some svc" for s svc
  proof -
    from that have "s \<in> service_names cmp" by (simp add: service_names_def gm_keys_iff)
    with assms(3) old show ?thesis by (auto simp: closed_graph_def)
  qed
  from assms(1) n show "service_deps (SynthesizeInitContainers cmp) n \<subseteq> service_names (SynthesizeInitContainers cmp)"
  proof (cases rule: synth_names_cases)
    case (main svc)
    have "init_name n svc (length (service_inits svc) - 1) \<in> service_names (SynthesizeInitContainers cmp)"
      if "service_inits svc \<noteq> []" using that by (intro new [OF main]) simp
    then show ?thesis using src [OF main] by (simp add: dep_edges_main [OF assms(1,2) main])
  next
    case (init s svc i)
    have "init_name s svc (i - 1) \<in> service_names (SynthesizeInitContainers cmp)"
      using init(2) by (intro new [OF init(1)]) simp
    then show ?thesis using src [OF init(1)] by (simp add: init(3) dep_edges_init [OF assms(1,2) init(1,2)])
  qed
qed

lemma gm_ok_init_deps: "gm_ok (init_deps svc i prev)"
  by (simp add: init_deps_def)

lemma services_ok_synth:
  assumes "services_ok (compServices cmp)"
  shows "services_ok (compServices (SynthesizeInitContainers cmp))"
proof -
  note ok = services_okD [OF assms]
  have "gm_ok (dovEntries (svcDependsOn v))"
    if "map_of (compServices (SynthesizeInitContainers cmp)) k = Some v" for k v
  proof -
    have m: "gm_ok (dovEntries (svcDependsOn (main_service k svc)))"
      if "map_of (compServices cmp) k = Some svc" for svc
      using services_ok_entries [OF assms that] by (simp add: main_service_def)
    have i: "gm_ok (dovEntries (svcDependsOn (init_at s svc j)))" for s svc j
      by (simp add: init_at_def init_service_def Let_def gm_ok_init_deps zero_service_def zero_depends_on_def)
    from synth_services(2) [OF ok that] show ?thesis
      unfolding origin_def by (elim disjE exE conjE) (simp_all only: m i)
  qed
  then show ?thesis
    using synth_services(1) [OF ok] by (auto simp: services_ok_def list_all_iff gm_ok_mem)
qed

subsection \<open>Properties\<close>

text \<open>The dependencies of a service with what it asks of each.\<close>

definition waits_of :: "composition \<Rightarrow> string \<Rightarrow> string \<Rightarrow> depends_on_entry option" where
  "waits_of cmp n = (case map_of (compServices cmp) n of None \<Rightarrow> Map.empty | Some svc \<Rightarrow> map_of (dovEntries (svcDependsOn svc)))"

lemma waits_of_main:
  "map_of (dovEntries (svcDependsOn (main_service s svc))) =
   (if service_inits svc = [] then map_of (dovEntries (svcDependsOn svc))
    else (map_of (dovEntries (svcDependsOn svc)))(init_name s svc (length (service_inits svc) - 1) \<mapsto> completed_entry))"
  by (rule ext) (simp add: main_service_def gm_put_def update_conv')

lemma waits_of_init:
  assumes "gm_ok (dovEntries (svcDependsOn svc))"
  shows "map_of (dovEntries (svcDependsOn (init_at s svc i))) =
     (if i = 0 then map_of (dovEntries (svcDependsOn svc)) else [init_name s svc (i - 1) \<mapsto> completed_entry])"
proof (cases "i = 0")
  case True
  have "map_of (gm_put_all (dovEntries (svcDependsOn svc)) []) = map_of (dovEntries (svcDependsOn svc))"
    using map_of_rev_ok [OF assms] by (simp add: map_of_put_all)
  moreover from this have "gm_put_all (dovEntries (svcDependsOn svc)) [] = [] \<Longrightarrow> map_of (dovEntries (svcDependsOn svc)) = Map.empty"
    by simp
  ultimately show ?thesis using True
    by (simp add: init_at_def init_service_def init_deps_def Let_def zero_service_def zero_depends_on_def)
next
  case False
  then show ?thesis by (simp add: init_at_def init_service_def init_deps_def Let_def zero_service_def)
qed

text \<open>C10: When no init container gets the name of a service or of another init container, the result holds exactly
  the source services and one service per init container, which runs its image and command and never restarts.  The
  first init container of a service waits for what the service waits for, under the same conditions; each later one
  waits for the one before it to complete successfully and for nothing else; and the service keeps what it waits for and
  waits for the last init container to complete successfully.\<close>

theorem SynthesizeInitContainers_chain:
  assumes "services_ok (compServices cmp)" and "fresh_inits cmp" and "map_of (compServices cmp) s = Some svc"
  shows "service_names (SynthesizeInitContainers cmp) =
      service_names cmp \<union> (\<Union>e \<in> set (compServices cmp). set (init_names e)) \<and>
    waits_of (SynthesizeInitContainers cmp) s =
      (if service_inits svc = [] then waits_of cmp s
       else (waits_of cmp s)(init_name s svc (length (service_inits svc) - 1) \<mapsto> \<lparr>doeCondition = ''service_completed_successfully''\<rparr>)) \<and>
    (\<forall>i < length (service_inits svc).
      waits_of (SynthesizeInitContainers cmp) (init_name s svc i) =
        (if i = 0 then waits_of cmp s else [init_name s svc (i - 1) \<mapsto> \<lparr>doeCondition = ''service_completed_successfully''\<rparr>]) \<and>
      (\<exists>v. map_of (compServices (SynthesizeInitContainers cmp)) (init_name s svc i) = Some v \<and>
        svcImage v = icImage (service_inits svc ! i) \<and> svcCommand v = icCommand (service_inits svc ! i) \<and>
        svcEnvironment v = icEnvironment (service_inits svc ! i) \<and> svcVolumes v = icVolumes (service_inits svc ! i) \<and>
        svcRestart v = ''no''))"
proof -
  note ok = services_okD [OF assms(1)]
  have init: "map_of (compServices (SynthesizeInitContainers cmp)) (init_name s svc i) = Some (init_at s svc i)"
    if "i < length (service_inits svc)" for i by (rule synth_init [OF ok assms(2,3) that])
  have run: "svcImage (init_at s svc i) = icImage (service_inits svc ! i)" "svcCommand (init_at s svc i) = icCommand (service_inits svc ! i)"
    "svcEnvironment (init_at s svc i) = icEnvironment (service_inits svc ! i)" "svcVolumes (init_at s svc i) = icVolumes (service_inits svc ! i)"
    "svcRestart (init_at s svc i) = ''no''" for i
    by (simp_all add: init_at_def init_service_def Let_def)
  show ?thesis
    using synth_services(3) [OF ok] synth_main [OF ok assms(2,3)] init run assms(3)
      waits_of_main [of s svc] waits_of_init [OF services_ok_entries [OF assms(1,3)]]
    by (simp add: waits_of_def completed_entry_def)
qed

definition init_ct :: "string \<Rightarrow> init_container" where
  "init_ct n = \<lparr>icName = n, icImage = ''busybox'', icCommand = zero_command, icEnvironment = [], icVolumes = []\<rparr>"

definition init_app :: composition where
  "init_app = \<lparr>compServices = [(''web'', (depending_on [''db''])\<lparr>svcXNixCompose :=
       Some (zero_extended\<lparr>xInitContainers := [init_ct ''schema'', init_ct ''seed'']\<rparr>)\<rparr>), (''db'', depending_on [])],
     compNetworks = [], compVolumes = [], compMicroVM = None\<rparr>"

lemma init_app_ok: "services_ok (compServices init_app)" "fresh_inits init_app"
  "map_of (compServices init_app) ''web'' = Some ((depending_on [''db''])\<lparr>svcXNixCompose :=
       Some (zero_extended\<lparr>xInitContainers := [init_ct ''schema'', init_ct ''seed'']\<rparr>)\<rparr>)"
  by (simp_all add: init_app_def services_ok_def depending_on_def fresh_inits_def init_names_def init_name_def
      initServiceName_def service_inits_def zero_extended_def init_ct_def zero_service_def)

theorem SynthesizeInitContainers_chain_witness:
  "waits_of (SynthesizeInitContainers init_app) ''web'' =
     [''db'' \<mapsto> \<lparr>doeCondition = ''service_started''\<rparr>, ''web-init-seed'' \<mapsto> \<lparr>doeCondition = ''service_completed_successfully''\<rparr>] \<and>
   waits_of (SynthesizeInitContainers init_app) ''web-init-seed'' =
     [''web-init-schema'' \<mapsto> \<lparr>doeCondition = ''service_completed_successfully''\<rparr>] \<and>
   waits_of (SynthesizeInitContainers init_app) ''web-init-schema'' = [''db'' \<mapsto> \<lparr>doeCondition = ''service_started''\<rparr>]"
  using SynthesizeInitContainers_chain [OF init_app_ok]
  by (simp add: init_name_def initServiceName_def service_inits_def zero_extended_def init_ct_def
      init_app_def depending_on_def waits_of_def All_less_Suc numeral_2_eq_2)

text \<open>Expanding init containers keeps a valid composition valid: when the names are fresh and
  \<open>Validate\<close> reports nothing, it reports nothing on the expanded composition, so the start order
  that the rest of the pipeline needs exists.\<close>

theorem SynthesizeInitContainers_keeps_valid:
  assumes "services_ok (compServices cmp)" and "fresh_inits cmp" and "Validate cmp = Some []"
  shows "Validate (SynthesizeInitContainers cmp) = Some []"
proof -
  have c: "closed_graph (service_names cmp) (service_deps cmp)" and a: "acyclic (dep_edges (compServices cmp))"
    using assms(3) validateReferences_iff [OF assms(1)] detectCycles_total [of "compServices cmp"]
    by (auto simp: Validate_def simp flip: detectCycles_iff)
  note ok = services_okD [OF assms(1)]
  have "validateReferences (compServices (SynthesizeInitContainers cmp)) = []"
    using validateReferences_iff [OF services_ok_synth [OF assms(1)]] synth_closed [OF ok assms(2) c] by simp
  moreover have "detectCycles (compServices (SynthesizeInitContainers cmp)) = Some []"
    using synth_acyclic [OF ok assms(2) a c] by (simp add: detectCycles_iff)
  ultimately show ?thesis by (simp add: Validate_def)
qed

theorem SynthesizeInitContainers_keeps_valid_witness:
  "Validate (SynthesizeInitContainers init_app) = Some []"
  by (rule SynthesizeInitContainers_keeps_valid [OF init_app_ok(1,2)]) code_simp

end
