(* ===== verification/Cli_Up.thy ===== *)
theory Cli_Up
  imports Conditions Env_From Watch Init_Containers Dep_Cycles
begin

text \<open>
  \<open>src/pkg/cli/up.go\<close> and \<open>down.go\<close>: the commands that put the components together: transform the evaluated
  composition, start its services in dependency order with the waits between them, watch for changes,
  and take everything down again.

  The evaluator, the volume store, the CNI setup, the realisation of images and the garbage collector root
  are parameters (record \<open>up_env\<close>); the runtime and the waits are those of \<open>Lifecycle\<close> and \<open>Conditions\<close>.  The
  monitor has one check per service that nothing else touches, so each wait is modelled with a monitor of
  its own.  Messages to the terminal are left out.
\<close>

subsection \<open>Profiles and the transformation of a composition\<close>

fun add_unseen :: "string list \<Rightarrow> string list \<Rightarrow> string list" where
  "add_unseen result [] = result"
| "add_unseen result (p # ps) = add_unseen (if p \<in> set result then result else result @ [p]) ps"

definition mergeProfiles :: "string \<Rightarrow> string list \<Rightarrow> string list" where
  "mergeProfiles composeProfiles flags =
     (let result = add_unseen [] flags
      in if composeProfiles = '''' then result
         else add_unseen result (filter (\<lambda>p. p \<noteq> '''') (map TrimSpace (split_char (CHR '','') composeProfiles))))"

definition transformComposition :: "resolver option \<Rightarrow> string list \<Rightarrow> composition \<Rightarrow> error + composition" where
  "transformComposition ro profiles c =
     (case ResolveEnvFrom ro (SynthesizeInitContainers (FilterByProfiles c profiles)) of
        (Some e, _) \<Rightarrow> Inl e
      | (None, c') \<Rightarrow> Inr c')"

subsection \<open>Waiting for a dependency\<close>

definition condPriority :: "string \<Rightarrow> int" where
  "condPriority cond =
     (if cond = ''service_healthy'' then 3 else if cond = ''service_completed_successfully'' then 2
      else if cond = ''service_started'' then 1 else 0)"

definition condition_step :: "string \<Rightarrow> string \<times> service \<Rightarrow> string \<Rightarrow> string" where
  "condition_step name entry highest =
     (case map_of (dovEntries (svcDependsOn (snd entry))) name of
        None \<Rightarrow> highest
      | Some e \<Rightarrow>
          let cond = (if doeCondition e = '''' then ''service_started'' else doeCondition e)
          in if condPriority cond > condPriority highest then cond else highest)"

definition highestConditionOf :: "string \<Rightarrow> composition \<Rightarrow> string" where
  "highestConditionOf name c = fold (condition_step name) (compServices c) ''''"

definition lookupContainerID :: "'w runtime \<Rightarrow> string \<Rightarrow> string \<Rightarrow> 'w \<Rightarrow> error + string" where
  "lookupContainerID rt project service w =
     (case rtListPodSandbox rt [(LabelProject, project), (LabelService, service)] w of
        Inl e \<Rightarrow> Inl e
      | Inr [] \<Rightarrow> Inl (Err ''no pods found'')
      | Inr (pod # _) \<Rightarrow>
          (case rtListContainers rt (psId pod) w of
             Inl e \<Rightarrow> Inl e | Inr [] \<Rightarrow> Inl (Err ''no containers found'') | Inr (ctr # _) \<Rightarrow> Inr (crId ctr)))"

definition lookupPodIP :: "'w runtime \<Rightarrow> string \<Rightarrow> string \<Rightarrow> 'w \<Rightarrow> error + string" where
  "lookupPodIP rt project service w =
     (case rtListPodSandbox rt [(LabelProject, project), (LabelService, service)] w of
        Inl e \<Rightarrow> Inl e
      | Inr [] \<Rightarrow> Inl (Err ''no pods found'')
      | Inr (pod # _) \<Rightarrow>
          (case rtPodSandboxIp rt (psId pod) w of
             Inl e \<Rightarrow> Inl e | Inr None \<Rightarrow> Inl (Err ''no network info'') | Inr (Some ip) \<Rightarrow> Inr ip))"

definition waitExited :: "'w wait_env \<Rightarrow> 'w runtime \<Rightarrow> string \<Rightarrow> string \<Rightarrow> 'w \<Rightarrow> error option \<times> 'w" where
  "waitExited env rt project name w =
     (case lookupContainerID rt project name w of
        Inl e \<Rightarrow> (Some e, w)
      | Inr ctrID \<Rightarrow>
          (case WaitExited rt (weAfter env (2 * Second)) (weRounds env (2 * Second) w) ctrID w of
             (Inl e, w1) \<Rightarrow> (Some e, w1)
           | (Inr exitCode, w1) \<Rightarrow> (if exitCode \<noteq> 0 then Some (Err (''service '' @ name @ '' exited'')) else None, w1)))"

definition waitHealthy :: "'w wait_env \<Rightarrow> 'w runtime \<Rightarrow> string \<Rightarrow> string \<Rightarrow> service \<Rightarrow> 'w \<Rightarrow> error option \<times> 'w" where
  "waitHealthy env rt project name svc w =
     (case ResolveProbe svc of
        None \<Rightarrow> (Some (Err (''service '' @ name @ '' has no health check'')), w)
      | Some probe \<Rightarrow>
          (case lookupContainerID rt project name w of
             Inl e \<Rightarrow> (Some e, w)
           | Inr ctrID \<Rightarrow>
               (case lookupPodIP rt project name w of
                  Inl e \<Rightarrow> (Some e, w)
                | Inr podIP \<Rightarrow>
                    let m = MonitorStart (MonitorRegister NewMonitor name ctrID podIP probe) name
                    in case map_of (monChecks m) name of
                         None \<Rightarrow> (Some (Err ''not registered''), w)
                       | Some a \<Rightarrow> monitor_wait env (monHeap m ! a) w)))"

definition waitCondition :: "'w wait_env \<Rightarrow> 'w runtime \<Rightarrow> string \<Rightarrow> string \<Rightarrow> string \<Rightarrow> service \<Rightarrow> 'w \<Rightarrow> error option \<times> 'w" where
  "waitCondition env rt project name cond svc w =
     (if cond = ''service_completed_successfully'' then waitExited env rt project name w
      else if cond = ''service_healthy'' then waitHealthy env rt project name svc w
      else (None, w))"

subsection \<open>Up\<close>

record 'w up_env =
  ueRuntime :: "'w runtime"
  ueWait :: "'w wait_env"
  ueEval :: "'w \<Rightarrow> (error + composition) \<times> 'w"
  ueNewStore :: "'w \<Rightarrow> error + 'w ensure_volume"
  ueSetupCNI :: "string \<Rightarrow> 'w \<Rightarrow> bool \<times> 'w"
  ueGCRoot :: "'w \<Rightarrow> 'w"
  ueRealise :: "composition \<Rightarrow> 'w \<Rightarrow> error option \<times> 'w"
  ueResolver :: "resolver option"

definition criServiceOpts :: "'w up_env \<Rightarrow> string \<Rightarrow> composition \<Rightarrow> 'w \<Rightarrow> (error + 'w service_up_options) \<times> 'w" where
  "criServiceOpts env project c w =
     (case ueNewStore env w of
        Inl e \<Rightarrow> (Inl e, w)
      | Inr store \<Rightarrow>
          (case ueSetupCNI env project w of (useCNI, w1) \<Rightarrow>
             (Inr \<lparr>suProject = project, suVersion = ''1'', suCompVolumes = compVolumes c, suVolumeResolver = Some store,
                suUseCNI = useCNI\<rparr>, w1)))"

fun up_services :: "'w up_env \<Rightarrow> string \<Rightarrow> 'w service_up_options \<Rightarrow> composition \<Rightarrow> string list \<Rightarrow> 'w \<Rightarrow> error option \<times> 'w" where
  "up_services env project opts c [] w = (None, w)"
| "up_services env project opts c (name # names) w =
     (let svc = gm_get zero_service (compServices c) name
      in case ServiceUp (ueRuntime env) name svc opts w of
           (Some e, w1) \<Rightarrow> (Some e, w1)
         | (None, w1) \<Rightarrow>
             (case waitCondition (ueWait env) (ueRuntime env) project name (highestConditionOf name c) svc w1 of
                (Some e, w2) \<Rightarrow> (Some e, w2)
              | (None, w2) \<Rightarrow> up_services env project opts c names w2))"

text \<open>The loops over the levels and over the names of a level.\<close>

definition criUp :: "'w up_env \<Rightarrow> string \<Rightarrow> composition \<Rightarrow> 'w \<Rightarrow> error option \<times> 'w" where
  "criUp env project c w =
     (case criServiceOpts env project c w of
        (Inl e, w1) \<Rightarrow> (Some e, w1)
      | (Inr opts, w1) \<Rightarrow>
          (case StartOrder c of
             Inl _ \<Rightarrow> (Some (Err ''dependency ordering''), w1)
           | Inr levels \<Rightarrow> up_services env project opts c (concat levels) w1))"

definition prepareCRIImages :: "'w up_env \<Rightarrow> composition \<Rightarrow> 'w \<Rightarrow> error option \<times> 'w" where
  "prepareCRIImages env c w = (case ValidateImages c of Some e \<Rightarrow> (Some e, w) | None \<Rightarrow> ueRealise env c w)"

text \<open>\<open>DoUp\<close> with a runtime client and without the orchestration engine.  The search for cycles always has an
  answer (\<open>Dep_Cycles\<close>).\<close>

definition DoUp :: "'w up_env \<Rightarrow> string \<Rightarrow> string list \<Rightarrow> 'w \<Rightarrow> (error + composition) \<times> 'w" where
  "DoUp env project profiles w =
     (case ueEval env w of
        (Inl e, w1) \<Rightarrow> (Inl e, w1)
      | (Inr c0, w1) \<Rightarrow>
          (case transformComposition (ueResolver env) profiles c0 of
             Inl e \<Rightarrow> (Inl e, w1)
           | Inr c \<Rightarrow>
               if Validate c \<noteq> Some [] then (Inl (Err ''dependency validation failed''), w1)
               else (case prepareCRIImages env c (ueGCRoot env w1) of
                  (Some e, w2) \<Rightarrow> (Inl e, w2)
                | (None, w2) \<Rightarrow>
                    (case criUp env project c w2 of (Some e, w3) \<Rightarrow> (Inl e, w3) | (None, w3) \<Rightarrow> (Inr c, w3)))))"

subsection \<open>Down\<close>

fun down_services :: "'w runtime \<Rightarrow> string \<Rightarrow> int \<Rightarrow> string list \<Rightarrow> 'w \<Rightarrow> error option \<times> 'w" where
  "down_services rt project timeout [] w = (None, w)"
| "down_services rt project timeout (name # names) w =
     (case ServiceDown rt project name timeout w of
        (Some e, w1) \<Rightarrow> (Some e, w1)
      | (None, w1) \<Rightarrow> down_services rt project timeout names w1)"

definition shutdownServices :: "'w runtime \<Rightarrow> string \<Rightarrow> int \<Rightarrow> composition option \<Rightarrow> 'w \<Rightarrow> error option \<times> 'w" where
  "shutdownServices rt project timeout co w =
     (case (case co of None \<Rightarrow> Inl DependencyCycleDetected | Some c \<Rightarrow> StopOrder c) of
        Inr levels \<Rightarrow> down_services rt project timeout (concat levels) w
      | Inl _ \<Rightarrow> ProjectDown rt project timeout w)"

text \<open>\<open>cleanup\<close> removes files of the project: its CNI configuration, volumes and garbage collector root.\<close>

definition CRIDownOrdered :: "'w runtime \<Rightarrow> ('w \<Rightarrow> 'w) \<Rightarrow> string \<Rightarrow> int \<Rightarrow> composition option \<Rightarrow> 'w \<Rightarrow> error option \<times> 'w" where
  "CRIDownOrdered rt cleanup project timeout co w =
     (case shutdownServices rt project timeout co w of (Some e, w1) \<Rightarrow> (Some e, w1) | (None, w1) \<Rightarrow> (None, cleanup w1))"

text \<open>The \<open>down\<close> command evaluates the project, and goes on without a composition when that fails.\<close>

definition runDown :: "'w up_env \<Rightarrow> ('w \<Rightarrow> 'w) \<Rightarrow> string \<Rightarrow> int \<Rightarrow> 'w \<Rightarrow> error option \<times> 'w" where
  "runDown env cleanup project downTimeout w =
     (let timeout = (if downTimeout = 0 then 10 else downTimeout)
      in case ueEval env w of
           (Inl _, w1) \<Rightarrow> CRIDownOrdered (ueRuntime env) cleanup project timeout None w1
         | (Inr c, w1) \<Rightarrow> CRIDownOrdered (ueRuntime env) cleanup project timeout (Some c) w1)"

subsection \<open>Watch mode\<close>

fun restart_services :: "'w up_env \<Rightarrow> string \<Rightarrow> string list \<Rightarrow> 'w \<Rightarrow> error option \<times> 'w" where
  "restart_services env project [] w = (None, w)"
| "restart_services env project (svc # svcs) w =
     (case ServiceDown (ueRuntime env) project svc 10 w of
        (Some e, w1) \<Rightarrow> (Some e, w1)
      | (None, w1) \<Rightarrow>
          (case ueEval env w1 of
             (Inl e, w2) \<Rightarrow> (Some e, w2)
           | (Inr c, w2) \<Rightarrow>
               (case map_of (compServices c) svc of
                  None \<Rightarrow> restart_services env project svcs w2
                | Some svcDef \<Rightarrow>
                    (case criServiceOpts env project c w2 of
                       (Inl e, w3) \<Rightarrow> (Some e, w3)
                     | (Inr opts, w3) \<Rightarrow>
                         (case ServiceUp (ueRuntime env) svc svcDef opts w3 of
                            (Some e, w4) \<Rightarrow> (Some e, w4)
                          | (None, w4) \<Rightarrow> restart_services env project svcs w4)))))"

definition runWatcherCRI :: "'w up_env \<Rightarrow> string \<Rightarrow> ('w \<Rightarrow> error + dir_entry list) \<Rightarrow> ('w \<Rightarrow> 'w) \<Rightarrow> 'w watcher" where
  "runWatcherCRI env project readDir debounce =
     \<lparr>wtrEval = ueEval env, wtrRestart = restart_services env project, wtrRemove = down_services (ueRuntime env) project 10,
      wtrReadDir = readDir, wtrDebounce = debounce\<rparr>"


subsection \<open>Services start after what they depend on\<close>

lemma levelled_concat_order:
  assumes "levelled N D levels" and "i < length (concat levels)" and "d \<in> D (concat levels ! i)"
  shows "\<exists>j < i. concat levels ! j = d"
proof -
  let ?n = "concat levels ! i"
  have "?n \<in> set (concat levels)" using assms(2) by (rule nth_mem)
  then obtain l where "l \<in> set levels" "?n \<in> set l" by auto
  then obtain k where k: "k < length levels" "?n \<in> set (levels ! k)" by (metis in_set_conv_nth)
  define a where "a = concat (take k levels)"
  have split: "concat levels = a @ levels ! k @ concat (drop (Suc k) levels)"
    unfolding a_def using k(1) by (metis concat.simps(2) concat_append id_take_nth_drop)
  have dist: "distinct (concat levels)" using assms(1) by (simp add: levelled_def)
  have "length a \<le> i"
  proof (rule ccontr)
    assume "\<not> length a \<le> i"
    then have "?n \<in> set a" unfolding split by (simp add: nth_append)
    moreover have "set a \<inter> set (levels ! k) = {}" using dist unfolding split by auto
    ultimately show False using k(2) by blast
  qed
  have "D ?n \<subseteq> set a" using assms(1) k unfolding levelled_def a_def by blast
  then obtain j where "j < length a" "a ! j = d" using assms(3) by (meson in_set_conv_nth subsetD)
  with \<open>length a \<le> i\<close> show ?thesis unfolding split by (intro exI [of _ j]) (simp add: nth_append)
qed

text \<open>One service is up: it was started, and then its wait succeeded.\<close>

definition service_step :: "'w up_env \<Rightarrow> string \<Rightarrow> 'w service_up_options \<Rightarrow> composition \<Rightarrow> string \<Rightarrow> 'w \<Rightarrow> 'w \<Rightarrow> bool" where
  "service_step env project opts c name w w' \<longleftrightarrow>
     (\<exists>w1. ServiceUp (ueRuntime env) name (gm_get zero_service (compServices c) name) opts w = (None, w1) \<and>
        waitCondition (ueWait env) (ueRuntime env) project name (highestConditionOf name c) (gm_get zero_service (compServices c) name) w1 = (None, w'))"

fun steps_through :: "('a \<Rightarrow> 'w \<Rightarrow> 'w \<Rightarrow> bool) \<Rightarrow> 'a list \<Rightarrow> 'w list \<Rightarrow> bool" where
  "steps_through R [] ws = (length ws = 1)"
| "steps_through R (x # xs) ws = (case ws of w # w' # rest \<Rightarrow> R x w w' \<and> steps_through R xs (w' # rest) | _ \<Rightarrow> False)"

lemma steps_through_nth:
  "steps_through R xs ws \<longleftrightarrow> length ws = Suc (length xs) \<and> (\<forall>i < length xs. R (xs ! i) (ws ! i) (ws ! Suc i))"
proof (induction R xs ws rule: steps_through.induct)
  case (2 R x xs ws)
  show ?case
  proof (cases ws)
    case (Cons w rest)
    then show ?thesis
    proof (cases rest)
      case (Cons w' rest')
      have IH: "steps_through R xs (w' # rest') \<longleftrightarrow> length (w' # rest') = Suc (length xs) \<and>
          (\<forall>i < length xs. R (xs ! i) ((w' # rest') ! i) ((w' # rest') ! Suc i))" using 2 \<open>ws = w # rest\<close> Cons by blast
      have all: "(\<forall>i < Suc n. P i) \<longleftrightarrow> P 0 \<and> (\<forall>i < n. P (Suc i))" for n and P :: "nat \<Rightarrow> bool" using less_Suc_eq_0_disj by auto
      show ?thesis using IH \<open>ws = w # rest\<close> Cons by (auto simp: all)
    qed auto
  qed auto
qed simp

lemma up_services_steps:
  "up_services env project opts c names w = (None, w') \<Longrightarrow>
   \<exists>ws. steps_through (service_step env project opts c) names ws \<and> hd ws = w \<and> last ws = w'"
proof (induction names arbitrary: w)
  case Nil
  then show ?case by (intro exI [of _ "[w]"]) simp
next
  case (Cons name names)
  let ?svc = "gm_get zero_service (compServices c) name"
  from Cons.prems obtain w1 w2 where w: "ServiceUp (ueRuntime env) name ?svc opts w = (None, w1)"
    "waitCondition (ueWait env) (ueRuntime env) project name (highestConditionOf name c) ?svc w1 = (None, w2)"
    "up_services env project opts c names w2 = (None, w')" by (auto simp: Let_def split: prod.splits option.splits)
  from Cons.IH [OF w(3)] obtain ws where ws: "steps_through (service_step env project opts c) names ws" "hd ws = w2" "last ws = w'" by blast
  then have "ws \<noteq> []" by (auto simp: steps_through_nth)
  then obtain rest where rest: "ws = w2 # rest" using ws(2) by (cases ws) auto
  have "service_step env project opts c name w w2" using w(1,2) unfolding service_step_def by blast
  then show ?case using ws rest by (intro exI [of _ "w # ws"]) simp
qed


text \<open>What a dependent asks of a dependency; an empty condition means started.\<close>

definition asked_condition :: "composition \<Rightarrow> string \<Rightarrow> string \<Rightarrow> string option" where
  "asked_condition c name dep =
     map_option (\<lambda>e. if doeCondition e = '''' then ''service_started'' else doeCondition e)
       (Option.bind (map_of (compServices c) name) (\<lambda>svc. map_of (dovEntries (svcDependsOn svc)) dep))"

lemma highest_fold:
  "condPriority (fold (condition_step name) S h0) \<ge> condPriority h0 \<and>
    (\<forall>(k, svc) \<in> set S. \<forall>e. map_of (dovEntries (svcDependsOn svc)) name = Some e \<longrightarrow>
       condPriority (if doeCondition e = '''' then ''service_started'' else doeCondition e) \<le> condPriority (fold (condition_step name) S h0))"
proof (induction S arbitrary: h0)
  case (Cons p S)
  obtain k svc where p: "p = (k, svc)" by (cases p)
  have one: "condPriority h0 \<le> condPriority (condition_step name p h0)"
    "map_of (dovEntries (svcDependsOn svc)) name = Some e \<Longrightarrow>
     condPriority (if doeCondition e = '''' then ''service_started'' else doeCondition e) \<le> condPriority (condition_step name p h0)" for e
    by (auto simp: condition_step_def p Let_def split: option.split)
  show ?case using Cons.IH [of "condition_step name p h0"] one unfolding p by fastforce
qed simp

lemma highestConditionOf_covers:
  assumes "gm_ok (compServices c)" and "asked_condition c name dep = Some cond"
  shows "condPriority cond \<le> condPriority (highestConditionOf dep c)"
proof -
  obtain svc e where s: "map_of (compServices c) name = Some svc" "map_of (dovEntries (svcDependsOn svc)) dep = Some e"
    "cond = (if doeCondition e = '''' then ''service_started'' else doeCondition e)"
    using assms(2) by (auto simp: asked_condition_def bind_eq_Some_conv)
  show ?thesis
    using highest_fold [where name = dep and S = "compServices c" and ?h0.0 = "''''"] map_of_SomeD [OF s(1)] s(2,3) unfolding highestConditionOf_def by fastforce
qed

lemma condPriority_values: "3 \<le> condPriority c \<longleftrightarrow> c = ''service_healthy''"
  "2 \<le> condPriority c \<longleftrightarrow> c = ''service_healthy'' \<or> c = ''service_completed_successfully''"
  by (simp_all add: condPriority_def)

lemma highest_fold_asked:
  "fold (condition_step name) S h0 = h0 \<or>
    (\<exists>(k, svc) \<in> set S. \<exists>e. map_of (dovEntries (svcDependsOn svc)) name = Some e \<and>
       fold (condition_step name) S h0 = (if doeCondition e = '''' then ''service_started'' else doeCondition e))"
proof (induction S arbitrary: h0)
  case (Cons p S)
  obtain k svc where p: "p = (k, svc)" by (cases p)
  have "condition_step name p h0 = h0 \<or> (\<exists>e. map_of (dovEntries (svcDependsOn svc)) name = Some e \<and>
      condition_step name p h0 = (if doeCondition e = '''' then ''service_started'' else doeCondition e))"
    by (auto simp: condition_step_def p Let_def split: option.split)
  with Cons.IH [of "condition_step name p h0"] show ?case unfolding p by fastforce
qed simp

text \<open>The highest condition is the strictest one that some service asks for.\<close>

lemma highestConditionOf_strictest:
  assumes "gm_ok (compServices c)"
  shows "highestConditionOf dep c = ''service_healthy'' \<longleftrightarrow> (\<exists>n. asked_condition c n dep = Some ''service_healthy'')"
    and "highestConditionOf dep c = ''service_completed_successfully'' \<longleftrightarrow>
      \<not> (\<exists>n. asked_condition c n dep = Some ''service_healthy'') \<and> (\<exists>n. asked_condition c n dep = Some ''service_completed_successfully'')"
proof -
  have asked: "highestConditionOf dep c = '''' \<or> (\<exists>n. asked_condition c n dep = Some (highestConditionOf dep c))"
  proof (cases "highestConditionOf dep c = ''''")
    case False
    then obtain k svc e where s: "(k, svc) \<in> set (compServices c)" "map_of (dovEntries (svcDependsOn svc)) dep = Some e"
      "highestConditionOf dep c = (if doeCondition e = '''' then ''service_started'' else doeCondition e)"
      using highest_fold_asked [where name = dep and S = "compServices c" and ?h0.0 = "''''"] unfolding highestConditionOf_def by blast
    have "map_of (compServices c) k = Some svc" using s(1) assms by (simp add: gm_ok_def)
    with s(2,3) have "asked_condition c k dep = Some (highestConditionOf dep c)" by (simp add: asked_condition_def)
    then show ?thesis by blast
  qed simp
  note covers = highestConditionOf_covers [OF assms, where dep = dep]
  have h: "highestConditionOf dep c = ''service_healthy''" if "asked_condition c n dep = Some ''service_healthy''" for n
    using covers [OF that] condPriority_values(1) by (simp add: condPriority_def split: if_splits)
  show healthy: "highestConditionOf dep c = ''service_healthy'' \<longleftrightarrow> (\<exists>n. asked_condition c n dep = Some ''service_healthy'')"
    using h asked by auto
  have "highestConditionOf dep c \<in> {''service_healthy'', ''service_completed_successfully''}"
    if "asked_condition c n dep = Some ''service_completed_successfully''" for n
    using covers [OF that] condPriority_values(2) [of "highestConditionOf dep c"] by (simp add: condPriority_def split: if_splits)
  with healthy asked show "highestConditionOf dep c = ''service_completed_successfully'' \<longleftrightarrow>
      \<not> (\<exists>n. asked_condition c n dep = Some ''service_healthy'') \<and> (\<exists>n. asked_condition c n dep = Some ''service_completed_successfully'')"
    by auto
qed

lemma service_step_waits:
  assumes "gm_ok (compServices c)" and "service_step env project opts c dep w w'"
  shows "\<exists>w1. ServiceUp (ueRuntime env) dep (gm_get zero_service (compServices c) dep) opts w = (None, w1) \<and>
    (if \<exists>n. asked_condition c n dep = Some ''service_healthy''
     then waitHealthy (ueWait env) (ueRuntime env) project dep (gm_get zero_service (compServices c) dep) w1 = (None, w')
     else if \<exists>n. asked_condition c n dep = Some ''service_completed_successfully''
     then waitExited (ueWait env) (ueRuntime env) project dep w1 = (None, w')
     else w' = w1)"
  using assms(2) highestConditionOf_strictest [OF assms(1), of dep]
  unfolding service_step_def waitCondition_def by (elim exE conjE) (auto split: if_splits)

text \<open>C7: When \<open>criUp\<close> succeeds, it has started every service of the composition exactly once and one after the
  other, each after everything it depends on.  After each start it has waited as the strictest condition demands
  that any service of the composition puts on the started one: its wait for health has succeeded when some
  service wants it healthy; otherwise it has exited with success when some service wants it completed; otherwise
  there is no wait.  The next service is started in the state that wait left.\<close>

theorem criUp_follows_dependencies:
  assumes "services_ok (compServices c)" and "criUp env project c w = (None, w')"
  shows "\<exists>opts names ws. criServiceOpts env project c w = (Inr opts, ws ! 0) \<and> distinct names \<and> set names = service_names c \<and>
    length ws = Suc (length names) \<and> ws ! length names = w' \<and>
    (\<forall>j < length names. \<exists>w1.
       ServiceUp (ueRuntime env) (names ! j) (gm_get zero_service (compServices c) (names ! j)) opts (ws ! j) = (None, w1) \<and>
       (if \<exists>n. asked_condition c n (names ! j) = Some ''service_healthy''
        then waitHealthy (ueWait env) (ueRuntime env) project (names ! j) (gm_get zero_service (compServices c) (names ! j)) w1 = (None, ws ! Suc j)
        else if \<exists>n. asked_condition c n (names ! j) = Some ''service_completed_successfully''
        then waitExited (ueWait env) (ueRuntime env) project (names ! j) w1 = (None, ws ! Suc j)
        else ws ! Suc j = w1)) \<and>
    (\<forall>i < length names. \<forall>dep. asked_condition c (names ! i) dep \<noteq> None \<longrightarrow> (\<exists>j < i. names ! j = dep))"
proof -
  obtain opts w1 levels where up: "criServiceOpts env project c w = (Inr opts, w1)" "StartOrder c = Inr levels"
    "up_services env project opts c (concat levels) w1 = (None, w')"
    using assms(2) by (auto simp: criUp_def split: sum.splits prod.splits)
  have lv: "levelled (service_names c) (service_deps c) levels"
    using sg.levelled_peel [of c] StartOrder_levels [OF assms(1) up(2)] by auto
  have names: "distinct (concat levels)" "set (concat levels) = service_names c" using lv by (simp_all add: levelled_def)
  obtain ws where ws: "steps_through (service_step env project opts c) (concat levels) ws" "hd ws = w1" "last ws = w'"
    using up_services_steps [OF up(3)] by blast
  have len: "length ws = Suc (length (concat levels))" using ws(1) by (simp add: steps_through_nth)
  have ends: "ws ! 0 = w1" "ws ! length (concat levels) = w'"
    using ws(2,3) len hd_conv_nth [of ws] last_conv_nth [of ws] by fastforce+
  have ok: "gm_ok (compServices c)" using assms(1) by (simp add: services_ok_def)
  have before: "\<exists>j < i. concat levels ! j = dep" if "i < length (concat levels)" "asked_condition c (concat levels ! i) dep \<noteq> None" for i dep
  proof (rule levelled_concat_order [OF lv that(1)])
    show "dep \<in> service_deps c (concat levels ! i)"
      using that(2) by (auto simp: asked_condition_def service_deps_def deps_of_def dep_names_def bind_eq_Some_conv gm_keys_dom dom_def)
  qed
  have "service_step env project opts c (concat levels ! j) (ws ! j) (ws ! Suc j)" if "j < length (concat levels)" for j
    using ws(1) that unfolding steps_through_nth by blast
  note waits = service_step_waits [OF ok this]
  from up(1) names len ends waits before show ?thesis
    by (intro exI [of _ opts] exI [of _ "concat levels"] exI [of _ ws]) blast
qed


definition demo_env :: "rt_mem up_env" where
  "demo_env = \<lparr>ueRuntime = mem_runtime, ueWait = slow_env, ueEval = (\<lambda>w. (Inr demo_comp, w)), ueNewStore = (\<lambda>w. Inr (\<lambda>p n w. (Inr n, w))),
     ueSetupCNI = (\<lambda>p w. (False, w)), ueGCRoot = id, ueRealise = (\<lambda>c w. (None, w)), ueResolver = None\<rparr>"

definition pair_comp :: composition where
  "pair_comp = \<lparr>compServices = [(''web'', demo_service\<lparr>svcDependsOn := \<lparr>dovEntries = [(''db'', \<lparr>doeCondition = ''''\<rparr>)]\<rparr>\<rparr>), (''db'', demo_service)],
     compNetworks = [], compVolumes = [], compMicroVM = None\<rparr>"

lemma pair_comp_ok: "services_ok (compServices pair_comp)"
  by (simp add: services_ok_def pair_comp_def demo_service_def zero_service_def zero_depends_on_def)

theorem criUp_follows_dependencies_witness:
  "\<exists>w' names. criUp demo_env ''p'' pair_comp demo_mem = (None, w') \<and> distinct names \<and> set names = {''web'', ''db''} \<and>
     (\<forall>i < length names. names ! i = ''web'' \<longrightarrow> (\<exists>j < i. names ! j = ''db''))"
proof -
  have "fst (criUp demo_env ''p'' pair_comp demo_mem) = None" by code_simp
  then obtain w' where run: "criUp demo_env ''p'' pair_comp demo_mem = (None, w')" by (metis prod.collapse)
  have asked: "asked_condition pair_comp ''web'' ''db'' \<noteq> None"
    by (simp add: asked_condition_def pair_comp_def)
  have "service_names pair_comp = {''web'', ''db''}" by (auto simp: service_names_def pair_comp_def)
  with criUp_follows_dependencies [OF pair_comp_ok run] run asked show ?thesis by metis
qed

subsection \<open>Down removes what it knows\<close>

definition pods_of_services :: "string \<Rightarrow> string set \<Rightarrow> rt_view \<Rightarrow> string set" where
  "pods_of_services project names v = (\<Union>n \<in> names. selected (service_labels project n) v)"

lemma down_services_view:
  assumes "runtime_ok rt V"
  shows "down_services rt project t names w = (None, w') \<Longrightarrow>
    V w' = remove_pods (pods_of_services project (set names) (V w)) (V w)"
proof (induction names arbitrary: w)
  case (Cons n names)
  then obtain w1 where w: "ServiceDown rt project n t w = (None, w1)" "down_services rt project t names w1 = (None, w')"
    by (auto split: prod.splits option.splits)
  have v1: "V w1 = remove_pods (selected (service_labels project n) (V w)) (V w)"
    using pods_down_view [OF assms] w(1) by (simp add: ServiceDown_def)
  have "selected (service_labels project n) (V w) \<union> pods_of_services project (set names) (V w1) = pods_of_services project (set (n # names)) (V w)"
    unfolding pods_of_services_def v1 selected_remove by auto
  then show ?case unfolding Cons.IH [OF w(2)] v1 remove_pods_remove by simp
qed (simp add: pods_of_services_def)

text \<open>C18: A successful shutdown removes exactly the pods of the services of the composition it is given; without a
  composition, or when its dependencies have a cycle, it removes exactly the pods of the project.\<close>

theorem shutdownServices_removes:
  assumes "runtime_ok rt V" and "shutdownServices rt project t co w = (None, w')"
    and "case co of None \<Rightarrow> True | Some c \<Rightarrow> services_ok (compServices c)"
  shows "V w' = (case co of
      Some c \<Rightarrow> (case StopOrder c of
        Inr levels \<Rightarrow> remove_pods (pods_of_services project (service_names c) (V w)) (V w)
      | Inl _ \<Rightarrow> without_project project (V w))
    | None \<Rightarrow> without_project project (V w))"
proof -
  have project: "V w' = without_project project (V w)" if "ProjectDown rt project t w = (None, w')"
    using pods_down_view [OF assms(1)] that by (simp add: ProjectDown_def without_project_def)
  have services: "V w' = remove_pods (pods_of_services project (service_names c) (V w)) (V w)"
    if down: "down_services rt project t (concat levels) w = (None, w')" "StopOrder c = Inr levels" "services_ok (compServices c)" for c levels
  proof -
    obtain ls where ls: "StartOrder c = Inr ls" "levels = rev ls" using down(2) by (auto simp: StopOrder_def split: sum.splits)
    then have "set (concat levels) = service_names c" using StartOrder_levels(2) [OF down(3) ls(1)] by simp
    with down_services_view [OF assms(1) down(1)] show ?thesis by simp
  qed
  show ?thesis using assms(2,3) project services by (auto simp: shutdownServices_def split: sum.splits option.splits)
qed

theorem shutdownServices_removes_witness:
  "\<exists>w'. shutdownServices mem_runtime ''p'' 10 (Some pair_comp) demo_mem = (None, w') \<and>
     mem_view w' = remove_pods (pods_of_services ''p'' {''web'', ''db''} (mem_view demo_mem)) (mem_view demo_mem)"
proof -
  have "fst (shutdownServices mem_runtime ''p'' 10 (Some pair_comp) demo_mem) = None" by code_simp
  then obtain w' where run: "shutdownServices mem_runtime ''p'' 10 (Some pair_comp) demo_mem = (None, w')" by (metis prod.collapse)
  have order: "StopOrder pair_comp = Inr [[''web''], [''db'']]" by code_simp
  have names: "service_names pair_comp = {''web'', ''db''}" by (auto simp: service_names_def pair_comp_def)
  show ?thesis using shutdownServices_removes [OF mem_runtime_ok run] pair_comp_ok run order names by simp
qed


text \<open>The \<open>down\<close> command evaluates the project but does not transform the composition as \<open>up\<close> does: the pods of
  the services that \<open>up\<close> made of init containers stay.\<close>

lemma shutdown_keeps_other_pods:
  assumes "runtime_ok rt V" and "services_ok (compServices c)" and "StopOrder c = Inr levels"
    and "shutdownServices rt project t (Some c) w = (None, w')" and "name \<notin> service_names c"
    and "pod \<in> selected (service_labels project name) (V w)"
  shows "pod \<in> selected (service_labels project name) (V w')"
proof -
  obtain ls where ls: "StartOrder c = Inr ls" "levels = rev ls" using assms(3) by (auto simp: StopOrder_def split: sum.splits)
  then have names: "set (concat levels) = service_names c" using StartOrder_levels(2) [OF assms(2) ls(1)] by simp
  have "down_services rt project t (concat levels) w = (None, w')" using assms(3,4) by (simp add: shutdownServices_def)
  from down_services_view [OF assms(1) this] names
  have v: "V w' = remove_pods (pods_of_services project (service_names c) (V w)) (V w)" by simp
  have "pod \<notin> pods_of_services project (service_names c) (V w)"
    using assms(5,6) by (auto simp: pods_of_services_def selected_def dest: label_match_two)
  then show ?thesis unfolding v selected_remove using assms(6) by blast
qed

definition init_comp :: composition where
  "init_comp = \<lparr>compServices = [(''web'', demo_service\<lparr>svcXNixCompose := Some (zero_extended\<lparr>xInitContainers :=
       [\<lparr>icName = ''migrate'', icImage = ''nginx'', icCommand = zero_command, icEnvironment = [], icVolumes = []\<rparr>]\<rparr>)\<rparr>)],
     compNetworks = [], compVolumes = [], compMicroVM = None\<rparr>"

definition init_pods :: rt_mem where
  "init_pods = demo_mem\<lparr>mmPods := [(''m'', old_pod ''p'' ''web-init-migrate'' ''1''), (''w'', old_pod ''p'' ''web'' ''1'')]\<rparr>"

lemma down_leaves_init_pods:
  "gm_has (compServices (SynthesizeInitContainers init_comp)) ''web-init-migrate'' \<and>
   (case runDown (demo_env\<lparr>ueEval := (\<lambda>w. (Inr init_comp, w))\<rparr>) id ''p'' 0 init_pods of
      (res, w') \<Rightarrow> res = None \<and> mmPods w' = [(''m'', old_pod ''p'' ''web-init-migrate'' ''1'')])"
  by code_simp

text \<open>Watch mode compares the transformed composition that is up with the evaluated one as it is: the first change to any
  file takes the services of init containers down, and starts services of profiles that were not selected.\<close>

definition debug_comp :: composition where
  "debug_comp = init_comp\<lparr>compServices := compServices init_comp @ [(''debug'', demo_service\<lparr>svcProfiles := [''debug'']\<rparr>)]\<rparr>"

lemma watch_undoes_transformation:
  "map_sum id (\<lambda>d. (drAdded d, drRemoved d))
     (case transformComposition None [] debug_comp of
        Inl e \<Rightarrow> Inl e | Inr c \<Rightarrow> DiffCompositions (\<lambda>s. Inr (svcImage s)) c debug_comp) =
   Inr ([''debug''], [''web-init-migrate''])"
  by code_simp


subsection \<open>What watch mode leaves running\<close>

lemma runs_once_remove:
  assumes "runs_once rt name svc opts v" and "other \<noteq> name"
  shows "runs_once rt name svc opts (remove_pods (selected (service_labels (suProject opts) other) v) v)"
proof -
  let ?S = "selected (service_labels (suProject opts) other) v"
  obtain uid pid cid mounts where r: "selected (service_labels (suProject opts) name) v = {pid}"
    "rvPods v pid = Some (service_pod uid name svc opts)"
    "\<forall>c x. rvCtrs v c = Some x \<and> rcPod x = pid \<longleftrightarrow>
        c = cid \<and> x = \<lparr>rcPod = pid, rcConfig = service_config rt name svc opts mounts, rcStarted = True\<rparr>"
    and m: "service_mounts rt svc opts mounts"
    using assms(1) unfolding runs_once_def by (elim exE conjE)
  have pid: "pid \<notin> ?S" using r(2) assms(2) by (auto simp: selected_def label_match_service)
  have sel: "selected (service_labels (suProject opts) name) (remove_pods ?S v) = {pid}"
    unfolding selected_remove r(1) using pid by blast
  have ctr: "rvCtrs (remove_pods ?S v) c = Some x \<and> rcPod x = pid \<longleftrightarrow> rvCtrs v c = Some x \<and> rcPod x = pid" for c x
    using pid by (auto simp: remove_pods_def split: option.splits if_splits)
  have "rvPods (remove_pods ?S v) pid = Some (service_pod uid name svc opts)"
    using pid r(2) by (simp add: remove_pods_def)
  then show ?thesis unfolding runs_once_def using sel ctr r(3) m
    by (intro exI [of _ uid] exI [of _ pid] exI [of _ cid] exI [of _ mounts]) simp
qed

text \<open>The callbacks of an environment leave pods and containers alone, and the evaluator answers the same
  composition throughout.\<close>

definition env_frame :: "'w up_env \<Rightarrow> composition \<Rightarrow> ('w \<Rightarrow> rt_view) \<Rightarrow> bool" where
  "env_frame env c V \<longleftrightarrow>
     runtime_ok (ueRuntime env) V \<and> (\<forall>w. \<exists>w'. ueEval env w = (Inr c, w') \<and> V w' = V w) \<and>
     (\<forall>w store. ueNewStore env w = Inr store \<longrightarrow> resolver_frame (Some store) V) \<and> (\<forall>p w. V (snd (ueSetupCNI env p w)) = V w)"

text \<open>A service is as the composition says: it runs once with its definition, or has no pods when it is not in it.\<close>

definition as_composed :: "'w up_env \<Rightarrow> string \<Rightarrow> composition \<Rightarrow> string \<Rightarrow> rt_view \<Rightarrow> bool" where
  "as_composed env project c name v \<longleftrightarrow>
     (case map_of (compServices c) name of
        None \<Rightarrow> selected (service_labels project name) v = {}
      | Some svc \<Rightarrow> \<exists>opts. suProject opts = project \<and> suVersion opts = ''1'' \<and> runs_once (ueRuntime env) name svc opts v)"

lemma as_composed_remove:
  assumes "as_composed env project c name v" and "other \<noteq> name"
  shows "as_composed env project c name (remove_pods (selected (service_labels project other) v) v)"
proof (cases "map_of (compServices c) name")
  case None
  then show ?thesis using assms by (simp add: as_composed_def selected_remove)
next
  case (Some svc)
  then obtain opts where opts: "suProject opts = project" "suVersion opts = ''1''" "runs_once (ueRuntime env) name svc opts v"
    using assms(1) by (auto simp: as_composed_def)
  from runs_once_remove [OF opts(3) assms(2)] opts Some show ?thesis by (auto simp: as_composed_def)
qed

lemma as_composed_up:
  assumes "runtime_ok (ueRuntime env) V" and "resolver_frame (suVolumeResolver opts) V" and "suProject opts = project" "suVersion opts = ''1''"
    and "ServiceUp (ueRuntime env) other svc opts w = (None, w')" and "as_composed env project c name (V w)" and "name \<noteq> other"
  shows "as_composed env project c name (V w')"
proof (cases "map_of (compServices c) name")
  case None
  then have "selected (service_labels project name) (V w) = {}" using assms(6) by (simp add: as_composed_def)
  then have "selected (service_labels project name) (V w') = {}"
    using ServiceUp_outcome(3) [OF assms(1,2,5), of "service_labels project name"] assms(3,7) by (simp add: label_match_service)
  then show ?thesis using None by (simp add: as_composed_def)
next
  case (Some sv)
  then obtain o' where o': "suProject o' = project" "suVersion o' = ''1''" "runs_once (ueRuntime env) name sv o' (V w)"
    using assms(6) by (auto simp: as_composed_def)
  from runs_once_kept [OF assms(1,2,5) o'(3) assms(7)] o'(1,2) Some assms(3) show ?thesis by (auto simp: as_composed_def)
qed

text \<open>The pods of a service are left alone: it has the same ones, with the same labels and the same containers.\<close>

definition left_alone :: "string \<Rightarrow> string \<Rightarrow> rt_view \<Rightarrow> rt_view \<Rightarrow> bool" where
  "left_alone project name v v' \<longleftrightarrow>
     selected (service_labels project name) v' = selected (service_labels project name) v \<and>
     same_pods (selected (service_labels project name) v) v v'"

lemma left_alone_refl [simp]: "left_alone project name v v"
  by (simp add: left_alone_def same_pods_def)

lemma left_alone_trans: "left_alone project name u v \<Longrightarrow> left_alone project name v z \<Longrightarrow> left_alone project name u z"
  by (simp add: left_alone_def same_pods_def)

lemma selected_distinct_services:
  "n \<noteq> m \<Longrightarrow> i \<in> selected (service_labels project n) v \<Longrightarrow> i \<notin> selected (service_labels project m) v"
  using label_match_two by (fastforce simp: selected_def)

lemma left_alone_down:
  assumes "n \<noteq> m"
  shows "left_alone project n v (remove_pods (selected (service_labels project m) v) v)"
  using selected_distinct_services [OF assms]
  by (auto simp: left_alone_def selected_remove same_pods_def remove_pods_simps)

lemma left_alone_up:
  assumes "runtime_ok (ueRuntime env) V" and "resolver_frame (suVolumeResolver opts) V" and "suProject opts = project"
    and "ServiceUp (ueRuntime env) m svc opts w = (None, w')" and "n \<noteq> m"
  shows "left_alone project n (V w) (V w')"
proof -
  have "selected (service_labels project n) (V w') = selected (service_labels project n) (V w) - selected (service_labels project m) (V w)"
    using ServiceUp_outcome(3) [OF assms(1,2,4), of "service_labels project n"] assms(3,5) by (simp add: label_match_service)
  moreover have "selected (service_labels project n) (V w) \<subseteq> {i. rvPods (V w) i \<noteq> None}" by (auto simp: selected_def)
  ultimately show ?thesis
    using ServiceUp_outcome(2) [OF assms(1,2,4)] selected_distinct_services [OF assms(5), where project = project and v = "V w"] assms(3)
    unfolding left_alone_def same_pods_def by blast
qed

lemma criServiceOpts_frame:
  assumes "env_frame env c V" and "criServiceOpts env project c' w = (Inr opts, w')"
  shows "suProject opts = project \<and> suVersion opts = ''1'' \<and> resolver_frame (suVolumeResolver opts) V \<and> V w' = V w"
proof -
  obtain store where store: "ueNewStore env w = Inr store" using assms(2) by (auto simp: criServiceOpts_def split: sum.splits)
  obtain cni w1 where cni: "ueSetupCNI env project w = (cni, w1)" by fastforce
  have "V w1 = V w" using assms(1) cni unfolding env_frame_def by (metis snd_conv)
  moreover have "resolver_frame (Some store) V" using assms(1) store unfolding env_frame_def by blast
  ultimately show ?thesis using assms(2) store cni by (auto simp: criServiceOpts_def)
qed

lemma restart_services_step:
  assumes fr: "env_frame env c V" and run: "restart_services env project (s # svcs) w = (None, w')"
  obtains w1 where "as_composed env project c s (V w1)" "restart_services env project svcs w1 = (None, w')"
    "\<And>n. n \<noteq> s \<Longrightarrow> as_composed env project c n (V w) \<Longrightarrow> as_composed env project c n (V w1)"
    "\<And>n. n \<noteq> s \<Longrightarrow> left_alone project n (V w) (V w1)"
proof -
  have ok: "runtime_ok (ueRuntime env) V" using fr by (simp add: env_frame_def)
  obtain wd where down: "ServiceDown (ueRuntime env) project s 10 w = (None, wd)"
    using run by (auto split: prod.splits option.splits)
  have vd: "V wd = remove_pods (selected (service_labels project s) (V w)) (V w)"
    using pods_down_view [OF ok] down by (simp add: ServiceDown_def)
  obtain we where ev: "ueEval env wd = (Inr c, we)" "V we = V wd" using fr unfolding env_frame_def by metis
  show thesis
  proof (cases "map_of (compServices c) s")
    case None
    show thesis
    proof (rule that)
      show "as_composed env project c s (V we)" using None by (simp add: as_composed_def ev(2) vd selected_remove)
      show "restart_services env project svcs we = (None, w')" using run down ev None by simp
      show "as_composed env project c n (V we)" if n: "n \<noteq> s" "as_composed env project c n (V w)" for n
        unfolding ev(2) vd by (rule as_composed_remove [OF n(2) n(1) [symmetric]])
      show "left_alone project n (V w) (V we)" if "n \<noteq> s" for n unfolding ev(2) vd by (rule left_alone_down [OF that])
    qed
  next
    case (Some svc)
    obtain opts wo wu where up: "criServiceOpts env project c we = (Inr opts, wo)" "ServiceUp (ueRuntime env) s svc opts wo = (None, wu)"
      "restart_services env project svcs wu = (None, w')" using run down ev Some by (auto split: prod.splits sum.splits option.splits)
    have o: "suProject opts = project" "suVersion opts = ''1''" "resolver_frame (suVolumeResolver opts) V" "V wo = V we"
      using criServiceOpts_frame [OF fr up(1)] by simp_all
    show thesis
    proof (rule that)
      show "as_composed env project c s (V wu)"
        using ServiceUp_outcome(1) [OF ok o(3) up(2)] Some o(1,2) by (auto simp: as_composed_def)
      show "restart_services env project svcs wu = (None, w')" by (rule up(3))
      show "as_composed env project c n (V wu)" if n: "n \<noteq> s" "as_composed env project c n (V w)" for n
      proof -
        have "as_composed env project c n (V wo)" unfolding o(4) ev(2) vd by (rule as_composed_remove [OF n(2) n(1) [symmetric]])
        then show ?thesis by (rule as_composed_up [OF ok o(3,1,2) up(2) _ n(1)])
      qed
      show "left_alone project n (V w) (V wu)" if n: "n \<noteq> s" for n
      proof -
        have "left_alone project n (V w) (V wo)" unfolding o(4) ev(2) vd by (rule left_alone_down [OF n])
        then show ?thesis by (rule left_alone_trans) (rule left_alone_up [OF ok o(3,1) up(2) n])
      qed
    qed
  qed
qed

lemma restart_services_running:
  assumes "env_frame env c V"
  shows "restart_services env project svcs w = (None, w') \<Longrightarrow> distinct svcs \<Longrightarrow>
    (\<forall>s \<in> set svcs. as_composed env project c s (V w')) \<and>
    (\<forall>n. n \<notin> set svcs \<longrightarrow> as_composed env project c n (V w) \<longrightarrow> as_composed env project c n (V w')) \<and>
    (\<forall>n. n \<notin> set svcs \<longrightarrow> left_alone project n (V w) (V w'))"
proof (induction svcs arbitrary: w)
  case (Cons s svcs)
  from restart_services_step [OF assms Cons.prems(1)] obtain w1 where w1: "as_composed env project c s (V w1)"
    "restart_services env project svcs w1 = (None, w')"
    "\<And>n. n \<noteq> s \<Longrightarrow> as_composed env project c n (V w) \<Longrightarrow> as_composed env project c n (V w1)"
    "\<And>n. n \<noteq> s \<Longrightarrow> left_alone project n (V w) (V w1)" by blast
  have "left_alone project n (V w) (V w')" if "n \<notin> set (s # svcs)" for n
    using that Cons.IH [OF w1(2)] Cons.prems(2) left_alone_trans [OF w1(4)] by auto
  then show ?case using Cons.IH [OF w1(2)] Cons.prems(2) w1(1,3) by auto
qed simp


lemma down_services_keeps:
  assumes "runtime_ok (ueRuntime env) V"
  shows "down_services (ueRuntime env) project t names w = (None, w') \<Longrightarrow> n \<notin> set names \<Longrightarrow>
    (as_composed env project c n (V w) \<longrightarrow> as_composed env project c n (V w')) \<and> left_alone project n (V w) (V w')"
proof (induction names arbitrary: w)
  case (Cons m names)
  then obtain w1 where w: "ServiceDown (ueRuntime env) project m t w = (None, w1)" "down_services (ueRuntime env) project t names w1 = (None, w')"
    by (auto split: prod.splits option.splits)
  have "V w1 = remove_pods (selected (service_labels project m) (V w)) (V w)"
    using pods_down_view [OF assms] w(1) by (simp add: ServiceDown_def)
  moreover have "m \<noteq> n" using Cons.prems(2) by auto
  ultimately have "as_composed env project c n (V w) \<longrightarrow> as_composed env project c n (V w1)" "left_alone project n (V w) (V w1)"
    using as_composed_remove left_alone_down by metis+
  with Cons.IH [OF w(2)] Cons.prems(2) left_alone_trans show ?case by auto
qed simp

text \<open>C17: After a successful step of watch mode in which the evaluator keeps answering the new composition, every
  service that the change adds, changes or removes is as the new composition says: it runs once with its new
  definition, or none of its pods is left.  Every other service is left alone: it has the very pods it had, with
  their labels and containers.\<close>

theorem watch_step_running:
  assumes "env_frame env new V" and "gm_ok (compServices current)" and "gm_ok (compServices new)"
    and "reEvalAndRestart marshal (runWatcherCRI env project readDir debounce) current w = (Inr c', w')"
  shows "(\<forall>n. service_changed marshal current new n \<or> (n \<in> service_names current) \<noteq> (n \<in> service_names new) \<or>
      as_composed env project new n (V w) \<longrightarrow> as_composed env project new n (V w')) \<and>
    (\<forall>n. \<not> service_changed marshal current new n \<and> (n \<in> service_names current) = (n \<in> service_names new) \<longrightarrow>
      left_alone project n (V w) (V w'))"
proof -
  let ?wt = "runWatcherCRI env project readDir debounce"
  have ok: "runtime_ok (ueRuntime env) V" using assms(1) by (simp add: env_frame_def)
  obtain w1 where ev: "ueEval env w = (Inr new, w1)" "V w1 = V w" using assms(1) unfolding env_frame_def by metis
  then obtain d where d: "DiffCompositions marshal current new = Inr d"
    using assms(4) by (auto simp: reEvalAndRestart_def runWatcherCRI_def split: sum.splits)
  note s = DiffCompositions_sets [OF assms(2,3) d]
  obtain w2 where rm: "down_services (ueRuntime env) project 10 (drRemoved d) w1 = (None, w2)"
    and up: "restart_services env project (drChanged d @ drAdded d) w2 = (None, w')"
  proof (cases "diff_IsEmpty d")
    case True
    with ev d assms(4) that show thesis by (auto simp: reEvalAndRestart_def runWatcherCRI_def diff_IsEmpty_def)
  next
    case False
    then have "applyChanges ?wt d w1 = (None, w')"
      using ev d assms(4) by (auto simp: reEvalAndRestart_def runWatcherCRI_def split: prod.splits option.splits)
    with that show thesis
      by (auto simp: applyChanges_def Let_def runWatcherCRI_def split: prod.splits option.splits if_splits)
  qed
  have dist: "distinct (drChanged d @ drAdded d)" using s(1,3,5) by (auto simp: service_changed_def gm_keys_dom)
  note running = restart_services_running [OF assms(1) up dist]
  have new: "service_names c = set (gm_keys (compServices c))" for c by (simp add: service_names_def)
  have "as_composed env project new n (V w')" if "n \<in> set (drRemoved d)" for n
  proof -
    have "V w2 = remove_pods (pods_of_services project (set (drRemoved d)) (V w)) (V w)"
      using down_services_view [OF ok rm] ev(2) by simp
    then have "selected (service_labels project n) (V w2) = {}" using that by (auto simp: selected_remove pods_of_services_def)
    moreover have "map_of (compServices new) n = None" using that s(2) by (auto simp: gm_keys_dom)
    ultimately have "as_composed env project new n (V w2)" by (simp add: as_composed_def)
    moreover have "n \<notin> set (drChanged d @ drAdded d)" using that s(1-3) by (auto simp: service_changed_def gm_keys_dom)
    ultimately show ?thesis using running by blast
  qed
  moreover have "as_composed env project new n (V w')" if "n \<notin> set (drRemoved d)" "as_composed env project new n (V w)" for n
  proof (cases "n \<in> set (drChanged d @ drAdded d)")
    case False
    have "as_composed env project new n (V w2)" using down_services_keeps [OF ok rm that(1), where c = new] that(2) ev(2) by simp
    with running False show ?thesis by blast
  qed (use running in blast)
  moreover have "n \<in> set (drChanged d @ drAdded d) \<or> n \<in> set (drRemoved d)"
    if "service_changed marshal current new n \<or> (n \<in> service_names current) \<noteq> (n \<in> service_names new)" for n
    using that s(1-3) unfolding new by auto
  ultimately have updated: "\<forall>n. service_changed marshal current new n \<or> (n \<in> service_names current) \<noteq> (n \<in> service_names new) \<or>
      as_composed env project new n (V w) \<longrightarrow> as_composed env project new n (V w')" using running by blast
  have "left_alone project n (V w) (V w')" if "n \<notin> set (drRemoved d)" "n \<notin> set (drChanged d @ drAdded d)" for n
    using down_services_keeps [OF ok rm that(1), where c = new] running that(2) left_alone_trans ev(2) by metis
  moreover have "n \<notin> set (drRemoved d) \<and> n \<notin> set (drChanged d @ drAdded d)"
    if "\<not> service_changed marshal current new n" "(n \<in> service_names current) = (n \<in> service_names new)" for n
    using that s(1-3) unfolding new by auto
  ultimately show ?thesis using updated by blast
qed

lemma demo_env_frame: "env_frame (demo_env\<lparr>ueEval := (\<lambda>w. (Inr c, w))\<rparr>) c mem_view"
  by (simp add: env_frame_def demo_env_def mem_runtime_ok resolver_frame_def)

theorem watch_step_running_witness:
  "\<exists>c' w'. reEvalAndRestart (\<lambda>s. Inr (svcImage s)) (runWatcherCRI (demo_env\<lparr>ueEval := (\<lambda>w. (Inr pair_comp, w))\<rparr>) ''p'' (\<lambda>w. Inr []) id)
       demo_comp demo_mem = (Inr c', w') \<and>
     as_composed demo_env ''p'' pair_comp ''db'' (mem_view w') \<and> as_composed demo_env ''p'' pair_comp ''api'' (mem_view w')"
proof -
  let ?env = "demo_env\<lparr>ueEval := (\<lambda>w. (Inr pair_comp, w))\<rparr>"
  let ?r = "reEvalAndRestart (\<lambda>s. Inr (svcImage s)) (runWatcherCRI ?env ''p'' (\<lambda>w. Inr []) id) demo_comp demo_mem"
  have "(case fst ?r of Inl e \<Rightarrow> False | Inr c \<Rightarrow> True)" by code_simp
  then obtain c' w' where run: "?r = (Inr c', w')" by (cases ?r) (auto split: sum.splits)
  have ok: "gm_ok (compServices demo_comp)" "gm_ok (compServices pair_comp)" by (simp_all add: demo_comp_def pair_comp_def)
  have rt: "as_composed ?env = as_composed demo_env" by (simp add: as_composed_def fun_eq_iff split: option.split)
  have "''db'' \<notin> service_names demo_comp" "''db'' \<in> service_names pair_comp" "''api'' \<in> service_names demo_comp" "''api'' \<notin> service_names pair_comp"
    by (simp_all add: service_names_def demo_comp_def pair_comp_def)
  with watch_step_running [OF demo_env_frame ok run] run show ?thesis unfolding rt by blast
qed

end
