(* ===== verification/Yaml_Doc.thy ===== *)
theory Yaml_Doc
  imports Go_Paths
begin

text \<open>
  YAML projects (\<open>eval/yaml.go\<close>): the keys a document may have, its validation, and the decision whether
  it needs an evaluation by Nix.  A document is the value that \<open>yaml.Unmarshal\<close> leaves in a variable of type
  \<open>map[string]any\<close>; the parser itself, the files and the processes are parameters.
\<close>

text \<open>The Go values of an \<open>any\<close>: \<open>YOther\<close> is one of a type that the sources never match on (floating-point
  numbers, timestamps, maps with other keys), with its printed form.\<close>

datatype yaml = YNull | YBool bool | YInt int | YStr string | YSeq "yaml list" | YMap "(string \<times> yaml) list"
  | YOther string

type_synonym ydoc = "yaml gomap"

text \<open>The type assertions \<open>v.(map[string]any)\<close> and \<open>v.(string)\<close> on the value of a key.\<close>

definition as_map :: "yaml option \<Rightarrow> ydoc option" where
  "as_map v = (case v of Some (YMap m) \<Rightarrow> Some m | _ \<Rightarrow> None)"

definition as_str :: "yaml option \<Rightarrow> string option" where
  "as_str v = (case v of Some (YStr s) \<Rightarrow> Some s | _ \<Rightarrow> None)"

text \<open>The maps at the levels that the sources look at are Go maps.\<close>

definition ydoc_ok :: "ydoc \<Rightarrow> bool" where
  "ydoc_ok doc \<longleftrightarrow> gm_ok doc \<and>
     (case as_map (map_of doc ''services'') of None \<Rightarrow> True
      | Some services \<Rightarrow> gm_ok services \<and> list_all (\<lambda>(_, v). case v of YMap m \<Rightarrow> gm_ok m | _ \<Rightarrow> True) services)"

subsection \<open>Keys\<close>

definition topLevelKeys :: "string gomap" where
  "topLevelKeys =
     [(''services'', ''''), (''networks'', ''''), (''volumes'', ''''), (''name'', ''''), (''nixpkgs'', ''''),
      (''version'', ''accepted and ignored''), (''x-nix-compose-microvm'', '''')]"

text \<open>The \<open>json\<close> tags of the struct \<open>Service\<close>, field by field.\<close>

definition service_tags :: "string list" where
  "service_tags =
     [''image,omitempty'', ''build,omitempty'', ''command,omitempty'', ''ports,omitempty'', ''environment,omitempty'',
      ''volumes,omitempty'', ''tmpfs,omitempty'', ''depends_on,omitempty'', ''healthcheck,omitempty'',
      ''restart,omitempty'', ''working_dir,omitempty'', ''entrypoint,omitempty'', ''user,omitempty'',
      ''privileged,omitempty'', ''hostname,omitempty'', ''network_mode,omitempty'', ''networks,omitempty'',
      ''extra_hosts,omitempty'', ''profiles,omitempty'', ''labels,omitempty'', ''stop_signal,omitempty'',
      ''x-nix-compose,omitempty'']"

definition tag_name :: "string \<Rightarrow> string" where
  "tag_name tag = (case cut_char (CHR '','') tag of None \<Rightarrow> tag | Some (name, _) \<Rightarrow> name)"

definition serviceKeys :: "bool gomap" where
  "serviceKeys =
     fold (\<lambda>tag keys. let name = tag_name tag in if name \<noteq> '''' \<and> name \<noteq> ''-'' then gm_put name True keys else keys)
       service_tags [(''package'', True)]"

definition ServiceKeys :: "bool gomap" where
  "ServiceKeys = serviceKeys"

definition known_key :: "string \<Rightarrow> bool" where
  "known_key key = gm_get False serviceKeys key"

subsection \<open>Validation\<close>

text \<open>The messages of \<open>validateYAML\<close>, by what they report.\<close>

datatype problem = UnknownTopLevelKey string | NameNotString | NameEmpty | NameInvalid string | NoServices
  | ServicesNotMapping | ServicesEmpty | ServiceNotMapping string | UnknownServiceKey string string
  | ImageAndPackage string

text \<open>The pattern \<open>^[a-z0-9][a-z0-9_-]*$\<close>.\<close>

definition project_char :: "char \<Rightarrow> bool" where
  "project_char c \<longleftrightarrow> (let n = (of_char c :: nat) in 97 \<le> n \<and> n \<le> 122 \<or> 48 \<le> n \<and> n \<le> 57)"

definition projectNamePattern :: "string \<Rightarrow> bool" where
  "projectNamePattern name =
     (case name of [] \<Rightarrow> False
      | c # cs \<Rightarrow> project_char c \<and> list_all (\<lambda>x. project_char x \<or> x = CHR ''_'' \<or> x = CHR ''-'') cs)"

definition projectNameProblems :: "ydoc \<Rightarrow> problem list" where
  "projectNameProblems doc =
     (case map_of doc ''name'' of
        None \<Rightarrow> []
      | Some raw \<Rightarrow>
          (case as_str (Some raw) of
             None \<Rightarrow> [NameNotString]
           | Some name \<Rightarrow>
               if name = '''' then [NameEmpty]
               else if \<not> projectNamePattern name then [NameInvalid name] else []))"

definition services_problems :: "ydoc \<Rightarrow> problem list" where
  "services_problems doc =
     (case map_of doc ''services'' of
        None \<Rightarrow> [NoServices]
      | Some YNull \<Rightarrow> [NoServices]
      | Some v \<Rightarrow>
          (case as_map (Some v) of
             None \<Rightarrow> [ServicesNotMapping]
           | Some services \<Rightarrow> if services = [] then [ServicesEmpty] else []))"

definition service_problems :: "ydoc \<Rightarrow> string \<Rightarrow> problem list" where
  "service_problems services name =
     (case as_map (map_of services name) of
        None \<Rightarrow> [ServiceNotMapping name]
      | Some svc \<Rightarrow>
          map (UnknownServiceKey name) (filter (\<lambda>key. \<not> known_key key) (sorted_keys svc)) @
          (if gm_has svc ''image'' \<and> gm_has svc ''package'' then [ImageAndPackage name] else []))"

text \<open>The answer is the list of problems; no error is the empty list.\<close>

definition validateYAML :: "ydoc \<Rightarrow> problem list" where
  "validateYAML doc =
     (let problems = map UnknownTopLevelKey (filter (\<lambda>key. \<not> gm_has topLevelKeys key) (gm_keys doc)) @
            projectNameProblems doc @ services_problems doc;
          services = (case as_map (map_of doc ''services'') of None \<Rightarrow> [] | Some m \<Rightarrow> m)
      in if problems \<noteq> [] \<and> services = [] then problems
         else problems @ concat (map (service_problems services) (sorted_keys services)))"

definition ValidateDoc :: "ydoc \<Rightarrow> problem list" where
  "ValidateDoc doc = validateYAML doc"

subsection \<open>Loading\<close>

definition yamlUsesNix :: "ydoc \<Rightarrow> bool" where
  "yamlUsesNix doc =
     (case as_map (map_of doc ''services'') of
        None \<Rightarrow> False
      | Some services \<Rightarrow>
          list_ex (\<lambda>(_, raw). case as_map (Some raw) of None \<Rightarrow> False | Some svc \<Rightarrow> gm_has svc ''package'') services)"

datatype load_error = ReadError error | ParseError error | EmptyDoc | Invalid "problem list"

text \<open>The file system answers for a path: \<open>yf_stat\<close> whether \<open>os.Stat\<close> succeeds, \<open>yf_read\<close> what
  \<open>os.ReadFile\<close> returns.  \<open>unmarshal\<close> is \<open>yaml.Unmarshal\<close>: an error, no document, or a document.\<close>

record yaml_fs =
  yf_stat :: "string \<Rightarrow> bool"
  yf_read :: "string \<Rightarrow> error + string"

type_synonym yaml_parser = "string \<Rightarrow> error + ydoc option"

definition LoadYAML :: "yaml_parser \<Rightarrow> yaml_fs \<Rightarrow> string \<Rightarrow> load_error + ydoc \<times> bool" where
  "LoadYAML unmarshal fs path =
     (case yf_read fs path of
        Inl e \<Rightarrow> Inl (ReadError e)
      | Inr data \<Rightarrow>
          (case unmarshal data of
             Inl e \<Rightarrow> Inl (ParseError e)
           | Inr None \<Rightarrow> Inl EmptyDoc
           | Inr (Some doc) \<Rightarrow>
               (let problems = validateYAML doc
                in if problems \<noteq> [] then Inl (Invalid problems) else Inr (doc, yamlUsesNix doc))))"

definition YAMLFileNames :: "string list" where
  "YAMLFileNames = [''nix-compose.yaml'', ''nix-compose.yml'']"

definition FindYAMLFile :: "yaml_fs \<Rightarrow> string \<Rightarrow> string" where
  "FindYAMLFile fs dir =
     (case find (\<lambda>name. yf_stat fs (join_path dir name)) YAMLFileNames of
        None \<Rightarrow> '''' | Some name \<Rightarrow> join_path dir name)"

text \<open>\<open>pin\<close> is the reference that the binary carries.\<close>

definition NixpkgsRefFor :: "string \<Rightarrow> ydoc \<Rightarrow> string" where
  "NixpkgsRefFor pin doc =
     (case as_str (map_of doc ''nixpkgs'') of None \<Rightarrow> pin | Some ref \<Rightarrow> if ref \<noteq> '''' then ref else pin)"

definition ProjectNameFor :: "ydoc \<Rightarrow> string" where
  "ProjectNameFor doc = (case as_str (map_of doc ''name'') of None \<Rightarrow> '''' | Some name \<Rightarrow> name)"

definition ProjectNameFromDir :: "yaml_parser \<Rightarrow> yaml_fs \<Rightarrow> string \<Rightarrow> string" where
  "ProjectNameFromDir unmarshal fs dir =
     (let path = FindYAMLFile fs dir
      in if path = '''' then ''''
         else case LoadYAML unmarshal fs path of Inl e \<Rightarrow> '''' | Inr (doc, _) \<Rightarrow> ProjectNameFor doc)"

datatype eval_error = NoProject | LoadFailed load_error | MarshalFailed error | NixFailed error

text \<open>\<open>evalYAML\<close>, with \<open>json.Marshal\<close> and \<open>resolveYAMLWithNix\<close>, which runs Nix on a reference and the
  marshalled document, as arguments.  The second component of a result is the standard error of Nix.\<close>

definition evalYAML :: "yaml_parser \<Rightarrow> (ydoc \<Rightarrow> error + string) \<Rightarrow> (string \<Rightarrow> string \<Rightarrow> error + string \<times> string) \<Rightarrow>
    string \<Rightarrow> yaml_fs \<Rightarrow> string \<Rightarrow> eval_error + string \<times> string" where
  "evalYAML unmarshal marshal resolve pin fs dir =
     (let path = FindYAMLFile fs dir
      in if path = '''' then Inl NoProject
         else case LoadYAML unmarshal fs path of
           Inl e \<Rightarrow> Inl (LoadFailed e)
         | Inr (doc, usesNix) \<Rightarrow>
             (let ref = NixpkgsRefFor pin doc;
                  stripped = gm_del ''name'' (gm_del ''version'' (gm_del ''nixpkgs'' doc))
              in case marshal stripped of
                   Inl e \<Rightarrow> Inl (MarshalFailed e)
                 | Inr raw \<Rightarrow>
                     if \<not> usesNix then Inr (raw, '''')
                     else case resolve ref raw of Inl e \<Rightarrow> Inl (NixFailed e) | Inr r \<Rightarrow> Inr r))"

subsection \<open>What is reported\<close>

text \<open>The reference: the problems of a document, one by one, without order and without early returns.\<close>

fun doc_problem :: "ydoc \<Rightarrow> problem \<Rightarrow> bool" where
  "doc_problem doc (UnknownTopLevelKey k) \<longleftrightarrow> k \<in> set (gm_keys doc) \<and> k \<notin> set (gm_keys topLevelKeys)"
| "doc_problem doc NameNotString \<longleftrightarrow> (\<exists>v. map_of doc ''name'' = Some v \<and> v \<notin> range YStr)"
| "doc_problem doc NameEmpty \<longleftrightarrow> map_of doc ''name'' = Some (YStr '''')"
| "doc_problem doc (NameInvalid n) \<longleftrightarrow>
     map_of doc ''name'' = Some (YStr n) \<and> n \<noteq> '''' \<and> \<not> projectNamePattern n"
| "doc_problem doc NoServices \<longleftrightarrow> map_of doc ''services'' = None \<or> map_of doc ''services'' = Some YNull"
| "doc_problem doc ServicesNotMapping \<longleftrightarrow>
     (\<exists>v. map_of doc ''services'' = Some v \<and> v \<noteq> YNull \<and> v \<notin> range YMap)"
| "doc_problem doc ServicesEmpty \<longleftrightarrow> map_of doc ''services'' = Some (YMap [])"
| "doc_problem doc (ServiceNotMapping n) \<longleftrightarrow>
     (\<exists>services v. map_of doc ''services'' = Some (YMap services) \<and> map_of services n = Some v \<and> v \<notin> range YMap)"
| "doc_problem doc (UnknownServiceKey n k) \<longleftrightarrow>
     (\<exists>services svc. map_of doc ''services'' = Some (YMap services) \<and> map_of services n = Some (YMap svc) \<and>
        k \<in> set (gm_keys svc) \<and> \<not> known_key k)"
| "doc_problem doc (ImageAndPackage n) \<longleftrightarrow>
     (\<exists>services svc. map_of doc ''services'' = Some (YMap services) \<and> map_of services n = Some (YMap svc) \<and>
        ''image'' \<in> set (gm_keys svc) \<and> ''package'' \<in> set (gm_keys svc))"

lemma as_map_Some [simp]: "as_map v = Some m \<longleftrightarrow> v = Some (YMap m)"
  by (auto simp: as_map_def split: option.splits yaml.splits)

lemma as_map_None: "as_map v = None \<longleftrightarrow> (\<forall>m. v \<noteq> Some (YMap m))"
  by (auto simp: as_map_def split: option.splits yaml.splits)

lemma as_str_Some [simp]: "as_str v = Some s \<longleftrightarrow> v = Some (YStr s)"
  by (auto simp: as_str_def split: option.splits yaml.splits)

lemma as_str_YStr [simp]: "as_str (Some (YStr s)) = Some s"
  by simp

lemma as_map_YMap [simp]: "as_map (Some (YMap m)) = Some m"
  by simp

text \<open>The service that a problem is about.\<close>

fun problem_service :: "problem \<Rightarrow> string option" where
  "problem_service (ServiceNotMapping n) = Some n"
| "problem_service (UnknownServiceKey n k) = Some n"
| "problem_service (ImageAndPackage n) = Some n"
| "problem_service p = None"

lemma document_problems_set:
  "set (map UnknownTopLevelKey (filter (\<lambda>key. \<not> gm_has topLevelKeys key) (gm_keys doc)) @
      projectNameProblems doc @ services_problems doc) = {p. doc_problem doc p \<and> problem_service p = None}"
  (is "set ?l = _")
proof (rule set_eqI)
  show "p \<in> set ?l \<longleftrightarrow> p \<in> {p. doc_problem doc p \<and> problem_service p = None}" for p
    by (cases "map_of doc ''name''"; cases "map_of doc ''services''"; cases p)
      (auto simp: projectNameProblems_def services_problems_def as_str_def as_map_def split: yaml.splits)
qed

lemma service_problems_set:
  assumes "map_of doc ''services'' = Some (YMap services)" and "n \<in> set (gm_keys services)"
  shows "set (service_problems services n) = {p. doc_problem doc p \<and> problem_service p = Some n}"
proof -
  obtain v where v: "map_of services n = Some v" using assms(2) by (auto simp: gm_keys_iff)
  have "p \<in> set (service_problems services n) \<longleftrightarrow> doc_problem doc p \<and> problem_service p = Some n" for p
    using v assms(1) by (cases v; cases p) (auto simp: service_problems_def as_map_def)
  then show ?thesis by blast
qed

lemma service_problem_key:
  assumes "doc_problem doc p" and "problem_service p = Some n"
  obtains services where "map_of doc ''services'' = Some (YMap services)" and "n \<in> set (gm_keys services)"
  using assms by (cases p) (auto simp: gm_keys_iff)

lemma validateYAML_problems: "set (validateYAML doc) = {p. doc_problem doc p}"
proof -
  define services where "services = (case as_map (map_of doc ''services'') of None \<Rightarrow> [] | Some m \<Rightarrow> m)"
  have services: "map_of doc ''services'' = Some (YMap services)" if "n \<in> set (gm_keys services)" for n
    using that by (auto simp: services_def split: option.splits)
  have "set (validateYAML doc) = {p. doc_problem doc p \<and> problem_service p = None} \<union>
      (\<Union>n \<in> set (gm_keys services). set (service_problems services n))"
    unfolding document_problems_set [symmetric] by (auto simp: validateYAML_def Let_def services_def [symmetric])
  also have "(\<Union>n \<in> set (gm_keys services). set (service_problems services n)) =
      {p. doc_problem doc p \<and> problem_service p \<noteq> None}"
    (is "?l = ?r")
  proof (rule set_eqI)
    fix p
    have "p \<in> ?l" if p: "doc_problem doc p" "problem_service p = Some n" for n
    proof -
      obtain m where m: "map_of doc ''services'' = Some (YMap m)" "n \<in> set (gm_keys m)"
        by (rule service_problem_key [OF p])
      then have n: "n \<in> set (gm_keys services)" by (simp add: services_def)
      show ?thesis
        by (rule UN_I [OF n]) (simp add: service_problems_set [OF services [OF n] n] p)
    qed
    moreover have "p \<in> ?r" if "n \<in> set (gm_keys services)" "p \<in> set (service_problems services n)" for n
      using service_problems_set [OF services [OF that(1)] that(1)] that(2) by auto
    ultimately show "p \<in> ?l \<longleftrightarrow> p \<in> ?r" by (cases "problem_service p") auto
  qed
  finally show ?thesis by auto
qed

lemma validateYAML_empty: "validateYAML doc = [] \<longleftrightarrow> (\<forall>p. \<not> doc_problem doc p)"
  using validateYAML_problems [of doc] by (metis empty_Collect_eq set_empty2)

lemma serviceKeys_eval: "gm_keys serviceKeys = ''package'' # map tag_name service_tags"
  by code_simp

lemma map_of_const: "list_all (\<lambda>(_, v). v = c) m \<Longrightarrow> map_of m k = (if k \<in> set (gm_keys m) then Some c else None)"
  by (induction m) auto

lemma known_key_iff: "known_key k \<longleftrightarrow> k \<in> set (gm_keys serviceKeys)"
proof -
  have "list_all (\<lambda>(_, v). v = True) serviceKeys" by code_simp
  from map_of_const [OF this, of k] show ?thesis by (simp add: known_key_def gm_get_def)
qed

text \<open>C25: \<open>validateYAML\<close> reports exactly the problems of a document: every key, name and service that is wrong
  is reported, whatever else is wrong with the document, and nothing else is.\<close>

theorem validateYAML_exact: "set (validateYAML doc) = {p. doc_problem doc p}"
  by (rule validateYAML_problems)

text \<open>A document that names no package is evaluated without Nix: the answer does not depend on it.\<close>

lemma evalYAML_registry_only:
  assumes "LoadYAML unmarshal fs (FindYAMLFile fs dir) = Inr (doc, usesNix)"
    and "\<forall>services name svc. map_of doc ''services'' = Some (YMap services) \<and> (name, YMap svc) \<in> set services \<longrightarrow>
      ''package'' \<notin> set (gm_keys svc)"
  shows "evalYAML unmarshal marshal resolve pin fs dir = evalYAML unmarshal marshal resolve' pin' fs dir"
proof -
  have "usesNix = yamlUsesNix doc"
    using assms(1) by (auto simp: LoadYAML_def Let_def split: sum.splits option.splits if_splits)
  also have "\<dots> = False"
    using assms(2) by (auto simp: yamlUsesNix_def list_ex_iff split: option.splits prod.splits)
  finally show ?thesis using assms(1) by (simp add: evalYAML_def Let_def split: sum.splits)
qed

end
