(* ===== verification/Compose_Import.thy ===== *)
theory Compose_Import
  imports Yaml_Doc Json Go_Scanner
begin

text \<open>
  The importer of compose files (\<open>composeimport\<close>): the conversion of a document (\<open>import.go\<close>), the order in
  which a converted service is written and the header of the file (\<open>render.go\<close>), and the suggestion of
  packages for images (\<open>suggest.go\<close>).  \<open>quote\<close> is \<open>strconv.Quote\<close>.
\<close>

record import_note =
  ntService :: string
  ntKey :: string
  ntDetail :: string

record import_result =
  irDoc :: ydoc
  irNotes :: "import_note list"
  irServices :: "string list"
  irNeedsImage :: "string list"

definition em_dash :: string where
  "em_dash = map char_of [226 :: nat, 128, 148]"

definition note_string :: "(string \<Rightarrow> string) \<Rightarrow> import_note \<Rightarrow> string" where
  "note_string quote n =
     (let place = (if ntService n \<noteq> '''' then ''service '' @ quote (ntService n) else ''top level'')
      in if ntKey n = '''' then place @ '': '' @ ntDetail n
         else place @ '': `'' @ ntKey n @ ''` '' @ em_dash @ '' '' @ ntDetail n)"

definition Note :: "string \<Rightarrow> string \<Rightarrow> string \<Rightarrow> import_result \<Rightarrow> import_result" where
  "Note service key detail r = r\<lparr>irNotes := irNotes r @ [\<lparr>ntService = service, ntKey = key, ntDetail = detail\<rparr>]\<rparr>"

text \<open>The verb \<open>%v\<close> of \<open>fmt\<close>: maps are printed in the order of their keys.\<close>

fun fmt_v :: "yaml \<Rightarrow> string" where
  "fmt_v YNull = ''<nil>''"
| "fmt_v (YBool b) = (if b then ''true'' else ''false'')"
| "fmt_v (YInt i) = show_int i"
| "fmt_v (YStr s) = s"
| "fmt_v (YSeq xs) = ''['' @ join_with '' '' (map fmt_v xs) @ '']''"
| "fmt_v (YMap m) = ''map['' @ join_with '' '' (map (\<lambda>(k, s). k @ '':'' @ s)
     (sort_entries (map (\<lambda>(k, v). (k, fmt_v v)) m))) @ '']''"
| "fmt_v (YOther s) = s"

subsection \<open>Values of a service\<close>

definition scalarString :: "yaml option \<Rightarrow> string option" where
  "scalarString v =
     (case v of
        Some (YStr s) \<Rightarrow> if s = '''' then None else Some s
      | Some (YInt i) \<Rightarrow> Some (show_int i)
      | _ \<Rightarrow> None)"

definition longPortToShort :: "ydoc \<Rightarrow> string + string" where
  "longPortToShort p =
     (case scalarString (map_of p ''target'') of
        None \<Rightarrow> Inl ''long syntax without a `target`''
      | Some target \<Rightarrow>
          (let short = (case scalarString (map_of p ''published'') of
                 None \<Rightarrow> target | Some published \<Rightarrow> published @ '':'' @ target);
               short' = (case as_str (map_of p ''protocol'') of
                 None \<Rightarrow> short
               | Some proto \<Rightarrow> if proto \<noteq> '''' \<and> proto \<noteq> ''tcp'' then short @ ''/'' @ proto else short)
           in if as_str (map_of p ''mode'') = Some ''host'' then Inr short' else Inr short'))"

text \<open>One entry of \<open>ports:\<close> or \<open>volumes:\<close>, as the detail of a note (\<open>Inl\<close>) or as a converted entry.\<close>

definition convertPort :: "yaml \<Rightarrow> string + yaml" where
  "convertPort item =
     (case item of
        YStr p \<Rightarrow> Inr (YStr p)
      | YInt p \<Rightarrow> Inr (YStr (show_int p))
      | YMap p \<Rightarrow>
          (case longPortToShort p of
             Inl err \<Rightarrow> Inl (fmt_v (YMap p) @ '' '' @ em_dash @ '' '' @ err @ ''; dropped'')
           | Inr short \<Rightarrow> Inr (YStr short))
      | _ \<Rightarrow> Inl (''entry '' @ fmt_v item @ '' has an unexpected type; dropped''))"

definition convertVolume :: "(string \<Rightarrow> string) \<Rightarrow> yaml \<Rightarrow> string + yaml" where
  "convertVolume quote item =
     (case item of
        YStr v \<Rightarrow> Inr (YStr v)
      | YMap v \<Rightarrow>
          (let typ = (case as_str (map_of v ''type'') of None \<Rightarrow> '''' | Some t \<Rightarrow> t)
           in case scalarString (map_of v ''target'') of
                None \<Rightarrow> Inl (fmt_v (YMap v) @ '' '' @ em_dash @ '' long syntax without a `target`; dropped'')
              | Some target \<Rightarrow>
                  if typ \<in> {'''', ''volume'', ''bind''} then
                    (case scalarString (map_of v ''source'') of
                       None \<Rightarrow> Inr (YStr target)
                     | Some source \<Rightarrow>
                         (let mount = source @ '':'' @ target
                          in Inr (YStr (if map_of v ''read_only'' = Some (YBool True) then mount @ '':ro'' else mount))))
                  else if typ = ''tmpfs'' then
                    Inl (target @ '' is a tmpfs mount; move it to `tmpfs: ['' @ [CHR 0x22] @ target @ [CHR 0x22] @ '']`'')
                  else Inl (''mount type '' @ quote typ @ '' has no short form; dropped''))
      | _ \<Rightarrow> Inl (''entry '' @ fmt_v item @ '' has an unexpected type; dropped''))"

fun convert_items :: "(yaml \<Rightarrow> string + yaml) \<Rightarrow> string \<Rightarrow> string \<Rightarrow> yaml list \<Rightarrow> yaml list \<Rightarrow> import_result \<Rightarrow>
    yaml list \<times> import_result" where
  "convert_items conv svc key [] out r = (out, r)"
| "convert_items conv svc key (item # items) out r =
     (case conv item of
        Inl detail \<Rightarrow> convert_items conv svc key items out (Note svc key detail r)
      | Inr y \<Rightarrow> convert_items conv svc key items (out @ [y]) r)"

definition convertPorts :: "string \<Rightarrow> yaml \<Rightarrow> import_result \<Rightarrow> yaml \<times> import_result" where
  "convertPorts svc v r =
     (case v of
        YSeq items \<Rightarrow> (case convert_items convertPort svc ''ports'' items [] r of (out, r') \<Rightarrow> (YSeq out, r'))
      | _ \<Rightarrow> (v, r))"

definition convertVolumes :: "(string \<Rightarrow> string) \<Rightarrow> string \<Rightarrow> yaml \<Rightarrow> import_result \<Rightarrow> yaml \<times> import_result" where
  "convertVolumes quote svc v r =
     (case v of
        YSeq items \<Rightarrow> (case convert_items (convertVolume quote) svc ''volumes'' items [] r of (out, r') \<Rightarrow> (YSeq out, r'))
      | _ \<Rightarrow> (v, r))"

text \<open>\<open>strings.Cut(entry, "=")\<close> gives the whole entry as the key when there is no \<open>=\<close>.\<close>

fun env_items :: "string \<Rightarrow> yaml list \<Rightarrow> ydoc \<Rightarrow> import_result \<Rightarrow> ydoc \<times> import_result" where
  "env_items svc [] out r = (out, r)"
| "env_items svc (item # items) out r =
     (case item of
        YStr entry \<Rightarrow>
          (case cut_char (CHR ''='') entry of
             None \<Rightarrow> env_items svc items out (Note svc ''environment'' (''`'' @ entry @
               ''` takes its value from the host environment, which a composition cannot express; set it explicitly'') r)
           | Some (key, val) \<Rightarrow> env_items svc items (gm_put key (YStr val) out) r)
      | _ \<Rightarrow> env_items svc items out (Note svc ''environment'' (''entry '' @ fmt_v item @ '' is not a string; dropped'') r))"

definition convertEnvironment :: "string \<Rightarrow> yaml \<Rightarrow> import_result \<Rightarrow> yaml \<times> import_result" where
  "convertEnvironment svc v r =
     (case v of
        YSeq items \<Rightarrow> (case env_items svc items [] r of (out, r') \<Rightarrow> (YMap out, r'))
      | _ \<Rightarrow> (v, r))"

subsection \<open>Services\<close>

definition convert_key :: "(string \<Rightarrow> string) \<Rightarrow> string \<Rightarrow> string \<Rightarrow> yaml \<Rightarrow> ydoc \<times> import_result \<Rightarrow> ydoc \<times> import_result" where
  "convert_key quote name key v = (\<lambda>(out, r).
     if key = ''build'' then
       (out, Note name ''build'' (''CRI has no build API. Replace it with `package: <nixpkgs attribute>` to build '' @
          ''the image from a Nix closure, or keep a prebuilt `image:`'') r)
     else if key = ''package'' then
       (gm_put key v out, Note name ''package'' ''already a nix-compose key; kept as written'' r)
     else if key = ''environment'' then (case convertEnvironment name v r of (y, r') \<Rightarrow> (gm_put key y out, r'))
     else if key = ''ports'' then (case convertPorts name v r of (y, r') \<Rightarrow> (gm_put key y out, r'))
     else if key = ''volumes'' then (case convertVolumes quote name v r of (y, r') \<Rightarrow> (gm_put key y out, r'))
     else if \<not> gm_get False ServiceKeys key then (out, Note name key ''no equivalent in nix-compose; dropped'' r)
     else (gm_put key v out, r))"

definition convertService :: "(string \<Rightarrow> string) \<Rightarrow> string \<Rightarrow> ydoc \<Rightarrow> import_result \<Rightarrow> ydoc \<times> import_result" where
  "convertService quote name svc r =
     fold (\<lambda>key. convert_key quote name key (the (map_of svc key))) (sorted_keys svc) ([], r)"

subsection \<open>Documents\<close>

definition topLevelDropped :: "string gomap" where
  "topLevelDropped =
     [(''version'', ''obsolete in the compose spec and unused here; removed''),
      (''configs'', ''no equivalent '' @ em_dash @ '' mount the file with `volumes:` instead''),
      (''secrets'', ''no equivalent '' @ em_dash @ '' use `x-nix-compose.envFrom` or `volumes:`''),
      (''include'', ''no equivalent '' @ em_dash @ '' merge the files by hand''),
      (''profiles'', ''set profiles per service, not at the top level'')]"

definition convert_top :: "ydoc \<Rightarrow> string \<Rightarrow> import_result \<Rightarrow> import_result" where
  "convert_top doc key r =
     (if key = ''services'' then r
      else if key = ''networks'' \<or> key = ''volumes'' then r\<lparr>irDoc := gm_put key (the (map_of doc key)) (irDoc r)\<rparr>
      else Note '''' key (case map_of topLevelDropped key of
        None \<Rightarrow> ''not a key nix-compose understands; dropped'' | Some detail \<Rightarrow> detail) r)"

definition convert_one :: "(string \<Rightarrow> string) \<Rightarrow> ydoc \<Rightarrow> string \<Rightarrow> ydoc \<times> import_result \<Rightarrow> ydoc \<times> import_result" where
  "convert_one quote raw name = (\<lambda>(services, r).
     case as_map (map_of raw name) of
       None \<Rightarrow> (services, Note name '''' ''service is not a mapping; skipped'' r)
     | Some svc \<Rightarrow>
         (case convertService quote name svc r of (converted, r1) \<Rightarrow>
            let r2 = (if \<not> gm_has converted ''image'' \<and> \<not> gm_has converted ''package'' then
                  (Note name '''' (''nothing to run '' @ em_dash @ '' add `package:` or `image:` before this service can start'')
                    r1)\<lparr>irNeedsImage := irNeedsImage r1 @ [name]\<rparr>
                else r1)
            in (gm_put name (YMap converted) services, r2\<lparr>irServices := irServices r2 @ [name]\<rparr>)))"

datatype import_error = ComposeParse error | ComposeEmpty | ComposeNoServices | ConversionBug "problem list"

text \<open>The argument is what \<open>yaml.Unmarshal\<close> returns for the file.\<close>

definition Convert :: "(string \<Rightarrow> string) \<Rightarrow> error + ydoc option \<Rightarrow> import_error + import_result" where
  "Convert quote parsed =
     (case parsed of
        Inl e \<Rightarrow> Inl (ComposeParse e)
      | Inr None \<Rightarrow> Inl ComposeEmpty
      | Inr (Some doc) \<Rightarrow>
          (let r1 = fold (convert_top doc) (sorted_keys doc)
                 \<lparr>irDoc = [], irNotes = [], irServices = [], irNeedsImage = []\<rparr>
           in case as_map (map_of doc ''services'') of
                None \<Rightarrow> Inl ComposeNoServices
              | Some raw \<Rightarrow>
                  if raw = [] then Inl ComposeNoServices
                  else (case fold (convert_one quote raw) (sorted_keys raw) ([], r1) of (services, r2) \<Rightarrow>
                    let r3 = r2\<lparr>irDoc := gm_put ''services'' (YMap services) (irDoc r2)\<rparr>;
                        problems = ValidateDoc (irDoc r3)
                    in if problems \<noteq> [] then Inl (ConversionBug problems) else Inr r3)))"

subsection \<open>What becomes of a key\<close>

definition noted :: "import_note list \<Rightarrow> string \<Rightarrow> string \<Rightarrow> nat" where
  "noted ns svc key = length (filter (\<lambda>n. ntService n = svc \<and> ntKey n = key) ns)"

lemma noted_append [simp]: "noted (ns @ ms) svc key = noted ns svc key + noted ms svc key"
  by (simp add: noted_def)

lemma noted_Nil [simp]: "noted [] svc key = 0"
  by (simp add: noted_def)

lemma noted_one [simp]: "noted [\<lparr>ntService = s, ntKey = k, ntDetail = d\<rparr>] svc key = (if s = svc \<and> k = key then 1 else 0)"
  by (simp add: noted_def)

lemma noted_all: "noted (map (\<lambda>d. \<lparr>ntService = svc, ntKey = key, ntDetail = d\<rparr>) ds) svc key = length ds"
  by (simp add: noted_def comp_def filter_map)

definition lefts :: "('a + 'b) list \<Rightarrow> 'a list" where
  "lefts xs = concat (map (\<lambda>x. case x of Inl a \<Rightarrow> [a] | Inr _ \<Rightarrow> []) xs)"

definition rights :: "('a + 'b) list \<Rightarrow> 'b list" where
  "rights xs = concat (map (\<lambda>x. case x of Inl _ \<Rightarrow> [] | Inr b \<Rightarrow> [b]) xs)"

lemma convert_items_eq:
  "convert_items conv svc key items out r =
     (out @ rights (map conv items),
      r\<lparr>irNotes := irNotes r @ map (\<lambda>d. \<lparr>ntService = svc, ntKey = key, ntDetail = d\<rparr>) (lefts (map conv items))\<rparr>)"
  by (induction conv svc key items out r rule: convert_items.induct)
    (auto simp: rights_def lefts_def Note_def split: sum.splits)

text \<open>The entries of an environment list that set a variable.\<close>

definition env_entry :: "yaml \<Rightarrow> (string \<times> yaml) list" where
  "env_entry item =
     (case item of
        YStr entry \<Rightarrow> (case cut_char (CHR ''='') entry of None \<Rightarrow> [] | Some (k, v) \<Rightarrow> [(k, YStr v)])
      | _ \<Rightarrow> [])"

lemma env_items_eq:
  "\<exists>ds. env_items svc items out r =
     (gm_put_all (concat (map env_entry items)) out,
      r\<lparr>irNotes := irNotes r @ map (\<lambda>d. \<lparr>ntService = svc, ntKey = ''environment'', ntDetail = d\<rparr>) ds\<rparr>) \<and>
     length ds = length (filter (\<lambda>i. env_entry i = []) items)"
proof (induction items arbitrary: out r)
  case (Cons item items)
  show ?case
  proof (cases "env_entry item")
    case Nil
    then obtain d where "env_items svc (item # items) out r = env_items svc items out (Note svc ''environment'' d r)"
      by (auto simp: env_entry_def split: yaml.splits option.splits)
    moreover obtain ds where "env_items svc items out (Note svc ''environment'' d r) =
        (gm_put_all (concat (map env_entry items)) out, (Note svc ''environment'' d r)\<lparr>irNotes :=
          irNotes (Note svc ''environment'' d r) @ map (\<lambda>d. \<lparr>ntService = svc, ntKey = ''environment'', ntDetail = d\<rparr>) ds\<rparr>)"
      "length ds = length (filter (\<lambda>i. env_entry i = []) items)"
      using Cons.IH by blast
    ultimately show ?thesis using Nil by (intro exI [of _ "d # ds"]) (simp add: Note_def)
  next
    case (Cons e es)
    then obtain k v where e: "env_entry item = [(k, YStr v)]"
      "env_items svc (item # items) out r = env_items svc items (gm_put k (YStr v) out) r"
      by (auto simp: env_entry_def split: yaml.splits option.splits)
    show ?thesis using Cons.IH [of "gm_put k (YStr v) out" r] unfolding e(2) by (simp add: e(1))
  qed
qed simp

text \<open>An entry of a list is kept when the converted value holds what it says.\<close>

definition kept_env :: "yaml \<Rightarrow> yaml \<Rightarrow> yaml list \<Rightarrow> bool" where
  "kept_env item y items \<longleftrightarrow> (\<exists>k v v' m. item = YStr (k @ ''='' @ v) \<and> CHR ''='' \<notin> set k \<and> y = YMap m \<and>
     map_of m k = Some (YStr v') \<and> YStr (k @ ''='' @ v') \<in> set items)"

text \<open>A field of an entry in the long syntax holds a text: a string that is not empty, or an integer.\<close>

definition holds :: "ydoc \<Rightarrow> string \<Rightarrow> string \<Rightarrow> bool" where
  "holds m field s \<longleftrightarrow> map_of m field = Some (YStr s) \<and> s \<noteq> '''' \<or> (\<exists>i. map_of m field = Some (YInt i) \<and> s = show_int i)"

lemma scalarString_holds: "scalarString (map_of m field) = Some s \<longleftrightarrow> holds m field s"
  by (auto simp: scalarString_def holds_def split: option.splits yaml.splits)

lemma scalarString_None: "scalarString (map_of m field) = None \<longleftrightarrow> (\<forall>s. \<not> holds m field s)"
  unfolding scalarString_holds [symmetric] by simp

text \<open>The short syntax of a port is \<open>[published:]target[/protocol]\<close>, that of a mount \<open>[source:]target[:ro]\<close>; the
  protocol is left out when it is \<open>tcp\<close>.\<close>

definition short_port :: "ydoc \<Rightarrow> string \<Rightarrow> bool" where
  "short_port p s \<longleftrightarrow> (\<exists>before target after. s = before @ target @ after \<and> holds p ''target'' target \<and>
     ((\<exists>published. holds p ''published'' published \<and> before = published @ '':'') \<or>
      (\<forall>published. \<not> holds p ''published'' published) \<and> before = '''') \<and>
     ((\<exists>protocol. map_of p ''protocol'' = Some (YStr protocol) \<and> protocol \<notin> {'''', ''tcp''} \<and> after = ''/'' @ protocol) \<or>
      (\<forall>protocol. map_of p ''protocol'' = Some (YStr protocol) \<longrightarrow> protocol \<in> {'''', ''tcp''}) \<and> after = ''''))"

definition short_mount :: "ydoc \<Rightarrow> string \<Rightarrow> bool" where
  "short_mount m s \<longleftrightarrow> (\<forall>typ. map_of m ''type'' = Some (YStr typ) \<longrightarrow> typ \<in> {'''', ''volume'', ''bind''}) \<and>
     (\<exists>target. holds m ''target'' target \<and>
       ((\<exists>source. holds m ''source'' source \<and>
           s = source @ '':'' @ target @ (if map_of m ''read_only'' = Some (YBool True) then '':ro'' else '''')) \<or>
        (\<forall>source. \<not> holds m ''source'' source) \<and> s = target))"

definition kept_port :: "yaml \<Rightarrow> yaml \<Rightarrow> bool" where
  "kept_port item y \<longleftrightarrow> (\<exists>out s. y = YSeq out \<and> YStr s \<in> set out \<and>
     (item = YStr s \<or> (\<exists>i. item = YInt i \<and> s = show_int i) \<or> (\<exists>p. item = YMap p \<and> short_port p s)))"

definition kept_volume :: "yaml \<Rightarrow> yaml \<Rightarrow> bool" where
  "kept_volume item y \<longleftrightarrow> (\<exists>out s. y = YSeq out \<and> YStr s \<in> set out \<and>
     (item = YStr s \<or> (\<exists>m. item = YMap m \<and> short_mount m s)))"

lemma as_str_type:
  "(case as_str (map_of m ''type'') of None \<Rightarrow> '''' | Some t \<Rightarrow> t) \<in> {'''', ''volume'', ''bind''} \<longleftrightarrow>
     (\<forall>typ. map_of m ''type'' = Some (YStr typ) \<longrightarrow> typ \<in> {'''', ''volume'', ''bind''})"
  by (auto simp: as_str_def split: option.splits yaml.splits)

lemma longPortToShort_short:
  assumes "longPortToShort p = Inr s"
  shows "short_port p s"
proof -
  obtain target where t: "scalarString (map_of p ''target'') = Some target"
    using assms by (auto simp: longPortToShort_def split: option.splits)
  let ?before = "case scalarString (map_of p ''published'') of None \<Rightarrow> '''' | Some published \<Rightarrow> published @ '':''"
  let ?after = "case as_str (map_of p ''protocol'') of None \<Rightarrow> '''' | Some proto \<Rightarrow> if proto \<noteq> '''' \<and> proto \<noteq> ''tcp'' then ''/'' @ proto else ''''"
  have s: "s = ?before @ target @ ?after"
    using assms by (auto simp: longPortToShort_def Let_def t split: option.splits if_splits)
  have b: "(\<exists>published. holds p ''published'' published \<and> ?before = published @ '':'') \<or>
      (\<forall>published. \<not> holds p ''published'' published) \<and> ?before = ''''"
  proof (cases "scalarString (map_of p ''published'')")
    case None
    then show ?thesis unfolding scalarString_holds [symmetric] by simp
  next
    case (Some pb)
    then show ?thesis unfolding scalarString_holds [symmetric] by simp
  qed
  have a: "(\<exists>protocol. map_of p ''protocol'' = Some (YStr protocol) \<and> protocol \<notin> {'''', ''tcp''} \<and> ?after = ''/'' @ protocol) \<or>
      (\<forall>protocol. map_of p ''protocol'' = Some (YStr protocol) \<longrightarrow> protocol \<in> {'''', ''tcp''}) \<and> ?after = ''''"
    by (auto simp: as_str_def split: option.splits yaml.splits)
  show ?thesis unfolding short_port_def
    by (rule exI [of _ ?before], rule exI [of _ target], rule exI [of _ ?after]) (use s b a t in \<open>simp add: scalarString_holds\<close>)
qed
definition kept_item :: "string \<Rightarrow> yaml \<Rightarrow> yaml \<Rightarrow> yaml list \<Rightarrow> bool" where
  "kept_item key item y items \<longleftrightarrow>
     (if key = ''environment'' then kept_env item y items
      else if key = ''ports'' then kept_port item y else key = ''volumes'' \<and> kept_volume item y)"

text \<open>Every key of a service is either noted or in the output, with its value or with a list whose entries
  are kept but for as many as there are notes.\<close>

definition key_accounted :: "import_note list \<Rightarrow> string \<Rightarrow> string \<Rightarrow> yaml \<Rightarrow> yaml option \<Rightarrow> bool" where
  "key_accounted ns svc key v res \<longleftrightarrow>
     (case res of
        None \<Rightarrow> 0 < noted ns svc key
      | Some y \<Rightarrow> y = v \<or>
          (\<exists>items. v = YSeq items \<and> length (filter (\<lambda>i. \<not> kept_item key i y items) items) \<le> noted ns svc key))"

lemma key_accounted_mono: "key_accounted ns svc key v res \<Longrightarrow> key_accounted (as @ ns @ bs) svc key v res"
  by (auto simp: key_accounted_def split: option.splits)

lemma list_accounted:
  assumes "\<And>i. i \<in> set items \<Longrightarrow> P i \<Longrightarrow> kept_item key i y items"
    and "length (filter (\<lambda>i. \<not> P i) items) \<le> noted ns svc key"
  shows "key_accounted ns svc key (YSeq items) (Some y)"
proof -
  have "length (filter (\<lambda>i. \<not> kept_item key i y items) items) = length (filter (\<lambda>i. \<not> kept_item key i y items) (filter (\<lambda>i. \<not> P i) items))"
    using assms(1) by (auto intro!: arg_cong [of _ _ length] filter_cong)
  also have "\<dots> \<le> length (filter (\<lambda>i. \<not> P i) items)" by (rule length_filter_le)
  finally show ?thesis using assms(2) by (auto simp: key_accounted_def)
qed

lemma lefts_length: "length (lefts (map conv items)) = length (filter (\<lambda>i. \<not> (\<exists>y. conv i = Inr y)) items)"
  by (induction items) (auto simp: lefts_def split: sum.splits)

lemma in_rights: "y \<in> set (rights (map conv items)) \<longleftrightarrow> (\<exists>i \<in> set items. conv i = Inr y)"
  by (induction items) (auto simp: rights_def split: sum.splits)

lemma convert_items_accounted:
  assumes "convert_items conv svc key items [] r = (out, r')"
    and "\<And>i y. i \<in> set items \<Longrightarrow> conv i = Inr y \<Longrightarrow> y \<in> set out \<Longrightarrow> kept_item key i (YSeq out) items"
  shows "\<exists>ns. r' = r\<lparr>irNotes := irNotes r @ ns\<rparr> \<and> key_accounted ns svc key (YSeq items) (Some (YSeq out))"
proof -
  have eqs: "out = rights (map conv items)" "r' = r\<lparr>irNotes := irNotes r @
      map (\<lambda>d. \<lparr>ntService = svc, ntKey = key, ntDetail = d\<rparr>) (lefts (map conv items))\<rparr>"
    using assms(1) by (auto simp: convert_items_eq)
  have "kept_item key i (YSeq out) items" if i: "i \<in> set items" "\<exists>y. conv i = Inr y" for i
  proof -
    obtain y where y: "conv i = Inr y" using i(2) ..
    then have "y \<in> set out" using i(1) unfolding eqs(1) in_rights by blast
    with assms(2) [OF i(1) y] show ?thesis .
  qed
  from list_accounted [of items "\<lambda>i. \<exists>y. conv i = Inr y", OF this] eqs(2) show ?thesis
    by (auto simp: noted_all lefts_length)
qed

lemma convertPorts_accounted:
  assumes "convertPorts svc v r = (y, r')"
  shows "\<exists>ns. r' = r\<lparr>irNotes := irNotes r @ ns\<rparr> \<and> key_accounted ns svc ''ports'' v (Some y)"
proof (cases "\<exists>items. v = YSeq items")
  case True
  then obtain items out where items: "v = YSeq items" "convert_items convertPort svc ''ports'' items [] r = (out, r')" "y = YSeq out"
    using assms by (auto simp: convertPorts_def split: prod.splits)
  have "kept_item ''ports'' i (YSeq out) items" if "convertPort i = Inr x" "x \<in> set out" for i x
    using that longPortToShort_short by (fastforce simp: kept_item_def kept_port_def convertPort_def split: yaml.splits sum.splits)
  from convert_items_accounted [OF items(2) this] show ?thesis by (simp add: items(1,3))
next
  case False
  then have "y = v \<and> r' = r" using assms by (auto simp: convertPorts_def split: yaml.splits)
  then show ?thesis by (intro exI [of _ "[]"]) (simp add: key_accounted_def)
qed

lemma convertVolume_kept:
  assumes "convertVolume quote i = Inr x" and "x \<in> set out"
  shows "kept_volume i (YSeq out)"
proof (cases i)
  case (YStr s)
  then show ?thesis using assms by (auto simp: convertVolume_def kept_volume_def)
next
  case (YMap m)
  then obtain target where t: "scalarString (map_of m ''target'') = Some target"
      "as_str (map_of m ''type'') \<in> {None, Some '''', Some ''volume'', Some ''bind''}"
    and x: "x = (case scalarString (map_of m ''source'') of None \<Rightarrow> YStr target
      | Some source \<Rightarrow> YStr (source @ '':'' @ target @ (if map_of m ''read_only'' = Some (YBool True) then '':ro'' else '''')))"
    using assms(1) by (auto simp: convertVolume_def Let_def split: option.splits if_splits)
  have kind: "\<forall>typ. map_of m ''type'' = Some (YStr typ) \<longrightarrow> typ \<in> {'''', ''volume'', ''bind''}"
    using t(2) unfolding as_str_type [symmetric] by auto
  obtain s where "x = YStr s" "short_mount m s"
  proof (cases "scalarString (map_of m ''source'')")
    case None
    then have "x = YStr target" using x by simp
    moreover have "short_mount m target"
      using None t(1) kind unfolding short_mount_def scalarString_None scalarString_holds by blast
    ultimately show thesis by (rule that)
  next
    case (Some source)
    let ?s = "source @ '':'' @ target @ (if map_of m ''read_only'' = Some (YBool True) then '':ro'' else '''')"
    have "x = YStr ?s" using x Some by simp
    moreover have "short_mount m ?s"
      using Some t(1) kind unfolding short_mount_def scalarString_holds by blast
    ultimately show thesis by (rule that)
  qed
  with assms(2) YMap show ?thesis unfolding kept_volume_def by auto
qed (use assms in \<open>auto simp: convertVolume_def\<close>)

lemma convertVolumes_accounted:
  assumes "convertVolumes quote svc v r = (y, r')"
  shows "\<exists>ns. r' = r\<lparr>irNotes := irNotes r @ ns\<rparr> \<and> key_accounted ns svc ''volumes'' v (Some y)"
proof (cases "\<exists>items. v = YSeq items")
  case True
  then obtain items out where items: "v = YSeq items"
      "convert_items (convertVolume quote) svc ''volumes'' items [] r = (out, r')" "y = YSeq out"
    using assms by (auto simp: convertVolumes_def split: prod.splits)
  have "kept_item ''volumes'' i (YSeq out) items" if "convertVolume quote i = Inr x" "x \<in> set out" for i x
    using convertVolume_kept [OF that] by (simp add: kept_item_def)
  from convert_items_accounted [OF items(2) this] show ?thesis by (simp add: items(1,3))
next
  case False
  then have "y = v \<and> r' = r" using assms by (auto simp: convertVolumes_def split: yaml.splits)
  then show ?thesis by (intro exI [of _ "[]"]) (simp add: key_accounted_def)
qed

lemma env_entryE:
  assumes "env_entry i \<noteq> []"
  obtains k v where "i = YStr (k @ ''='' @ v)" and "CHR ''='' \<notin> set k" and "env_entry i = [(k, YStr v)]"
proof -
  obtain e k v where "i = YStr e" and c: "cut_char (CHR ''='') e = Some (k, v)"
    using assms by (auto simp: env_entry_def split: yaml.splits option.splits)
  then show thesis using that [of k v] c [unfolded cut_char_Some] by (simp add: env_entry_def)
qed

lemma env_entries_kept:
  assumes "i \<in> set items" and "env_entry i \<noteq> []"
  shows "kept_env i (YMap (gm_put_all (concat (map env_entry items)) [])) items"
proof -
  let ?es = "concat (map env_entry items)"
  obtain k v where i: "i = YStr (k @ ''='' @ v)" "CHR ''='' \<notin> set k" "env_entry i = [(k, YStr v)]"
    by (rule env_entryE [OF assms(2)])
  have "(k, YStr v) \<in> set (env_entry i)" by (simp add: i(3))
  then have "(k, YStr v) \<in> set ?es" using assms(1) by auto
  then have "k \<in> set (gm_keys ?es)" by (force simp: gm_keys_def)
  then have "k \<in> set (gm_keys (gm_put_all ?es []))" by simp
  then obtain y where y: "map_of (gm_put_all ?es []) k = Some y" unfolding gm_keys_iff ..
  have "(k, y) \<in> set ?es" using gm_put_all_memD [OF map_of_SomeD [OF y]] by auto
  then obtain j where j: "j \<in> set items" "(k, y) \<in> set (env_entry j)" by auto
  then have "env_entry j \<noteq> []" by auto
  then obtain v' where "y = YStr v'" "YStr (k @ ''='' @ v') \<in> set items"
    using j by (auto elim!: env_entryE)
  then show ?thesis using i(1,2) y by (auto simp: kept_env_def)
qed

lemma convertEnvironment_accounted:
  assumes "convertEnvironment svc v r = (y, r')"
  shows "\<exists>ns. r' = r\<lparr>irNotes := irNotes r @ ns\<rparr> \<and> key_accounted ns svc ''environment'' v (Some y)"
proof (cases "\<exists>items. v = YSeq items")
  case True
  then obtain items where items: "v = YSeq items" by blast
  obtain ds where ds: "env_items svc items [] r = (gm_put_all (concat (map env_entry items)) [],
      r\<lparr>irNotes := irNotes r @ map (\<lambda>d. \<lparr>ntService = svc, ntKey = ''environment'', ntDetail = d\<rparr>) ds\<rparr>)"
      "length ds = length (filter (\<lambda>i. env_entry i = []) items)"
    using env_items_eq by blast
  have y: "y = YMap (gm_put_all (concat (map env_entry items)) [])"
    and r': "r' = r\<lparr>irNotes := irNotes r @ map (\<lambda>d. \<lparr>ntService = svc, ntKey = ''environment'', ntDetail = d\<rparr>) ds\<rparr>"
    using assms by (auto simp: convertEnvironment_def items ds(1))
  have "kept_item ''environment'' i y items" if "i \<in> set items" "env_entry i \<noteq> []" for i
    using env_entries_kept [OF that] by (simp add: kept_item_def y)
  from list_accounted [OF this] show ?thesis unfolding r' items
    by (intro exI [of _ "map (\<lambda>d. \<lparr>ntService = svc, ntKey = ''environment'', ntDetail = d\<rparr>) ds"]) (simp add: noted_all ds(2))
next
  case False
  then have "y = v \<and> r' = r" using assms by (auto simp: convertEnvironment_def split: yaml.splits)
  then show ?thesis by (intro exI [of _ "[]"]) (simp add: key_accounted_def)
qed

subsection \<open>What becomes of a service\<close>

text \<open>What converting a key does, apart from the state it starts from.\<close>

lemma convert_key_effect:
  "\<exists>res ns. convert_key quote name key v (out, r) =
     ((case res of None \<Rightarrow> out | Some y \<Rightarrow> gm_put key y out), r\<lparr>irNotes := irNotes r @ ns\<rparr>) \<and>
     key_accounted ns name key v res \<and> (key \<in> {''image'', ''package''} \<longrightarrow> res = Some v) \<and>
     (res \<noteq> None \<longrightarrow> known_key key)"
proof -
  let ?P = "\<lambda>p. \<exists>res ns. p = ((case res of None \<Rightarrow> out | Some y \<Rightarrow> gm_put key y out), r\<lparr>irNotes := irNotes r @ ns\<rparr>) \<and>
     key_accounted ns name key v res \<and> (key \<in> {''image'', ''package''} \<longrightarrow> res = Some v) \<and>
     (res \<noteq> None \<longrightarrow> known_key key)"
  have dropped: "?P (out, Note name key d r)" if "key \<notin> {''image'', ''package''}" for d
    using that by (intro exI [of _ None] exI [of _ "[\<lparr>ntService = name, ntKey = key, ntDetail = d\<rparr>]"])
      (simp add: Note_def key_accounted_def)
  have put: "?P (gm_put key y out, r')"
    if "\<exists>ns. r' = r\<lparr>irNotes := irNotes r @ ns\<rparr> \<and> key_accounted ns name key v (Some y)" "known_key key"
      "key \<in> {''image'', ''package''} \<longrightarrow> y = v" for y r'
    using that by (elim exE conjE) (intro exI [of _ "Some y"], simp, rule exI, rule conjI, rule refl)
  have known: "known_key ''environment''" "known_key ''ports''" "known_key ''volumes''" "known_key ''package''"
    "known_key ''image''"
    by code_simp+
  have same: "\<exists>ns. r = r\<lparr>irNotes := irNotes r @ ns\<rparr> \<and> key_accounted ns name key v (Some v)"
    by (rule exI [of _ "[]"]) (simp add: key_accounted_def)
  consider "key = ''build''" | "key = ''package''" | "key = ''environment''" | "key = ''ports''" | "key = ''volumes''"
    | "key \<noteq> ''build'' \<and> key \<noteq> ''package'' \<and> key \<noteq> ''environment'' \<and> key \<noteq> ''ports'' \<and> key \<noteq> ''volumes''"
    by argo
  then show ?thesis
  proof cases
    case 1
    with dropped show ?thesis by (simp add: convert_key_def)
  next
    case 2
    have "\<exists>ns. Note name key d r = r\<lparr>irNotes := irNotes r @ ns\<rparr> \<and> key_accounted ns name key v (Some v)" for d
      by (auto simp: Note_def key_accounted_def)
    from put [OF this] 2 known show ?thesis by (simp add: convert_key_def)
  next
    case 3
    obtain y r' where e: "convertEnvironment name v r = (y, r')" by fastforce
    from put [OF convertEnvironment_accounted [OF e, folded 3]] 3 known show ?thesis by (simp add: convert_key_def e)
  next
    case 4
    obtain y r' where e: "convertPorts name v r = (y, r')" by fastforce
    from put [OF convertPorts_accounted [OF e, folded 4]] 4 known show ?thesis by (simp add: convert_key_def e)
  next
    case 5
    obtain y r' where e: "convertVolumes quote name v r = (y, r')" by fastforce
    from put [OF convertVolumes_accounted [OF e, folded 5]] 5 known show ?thesis by (simp add: convert_key_def e)
  next
    case 6
    have k: "gm_get False ServiceKeys key = known_key key" by (simp add: ServiceKeys_def known_key_def)
    show ?thesis
    proof (cases "known_key key")
      case True
      with put [OF same] 6 k show ?thesis by (simp add: convert_key_def)
    next
      case False
      then have "key \<notin> {''image'', ''package''}" using known by auto
      from dropped [OF this] False 6 k show ?thesis by (simp add: convert_key_def)
    qed
  qed
qed

definition service_accounted :: "import_note list \<Rightarrow> string \<Rightarrow> ydoc \<Rightarrow> ydoc \<Rightarrow> bool" where
  "service_accounted ns name svc out \<longleftrightarrow>
     (\<forall>key v. map_of svc key = Some v \<longrightarrow> key_accounted ns name key v (map_of out key))"

lemma service_accounted_mono: "service_accounted ns name svc out \<Longrightarrow> service_accounted (as @ ns @ bs) name svc out"
  unfolding service_accounted_def using key_accounted_mono by blast

text \<open>Converting the keys of a service one after the other.  A key is converted to the same value wherever it
  stands, so a value that is there stays as it is.\<close>

lemma convert_keys_spec:
  assumes "fold (\<lambda>key. convert_key quote name key (the (map_of svc key))) ks (out, r) = (out', r')"
    and "set ks \<subseteq> set (gm_keys svc)" and "distinct ks"
  shows "\<exists>ns. r' = r\<lparr>irNotes := irNotes r @ ns\<rparr> \<and>
     (\<forall>key. key \<notin> set ks \<longrightarrow> map_of out' key = map_of out key) \<and>
     (\<forall>key \<in> set ks. map_of out key = None \<longrightarrow> key_accounted ns name key (the (map_of svc key)) (map_of out' key) \<and>
        (map_of out' key \<noteq> None \<longrightarrow> known_key key) \<and>
        (key \<in> {''image'', ''package''} \<longrightarrow> map_of out' key = map_of svc key))"
  using assms
proof (induction ks arbitrary: out r)
  case Nil
  then show ?case by (auto intro: exI [of _ "[]"])
next
  case (Cons k ks)
  obtain res ns where k: "convert_key quote name k (the (map_of svc k)) (out, r) =
      ((case res of None \<Rightarrow> out | Some y \<Rightarrow> gm_put k y out), r\<lparr>irNotes := irNotes r @ ns\<rparr>)"
    and res: "key_accounted ns name k (the (map_of svc k)) res" "k \<in> {''image'', ''package''} \<longrightarrow> res = Some (the (map_of svc k))"
      "res \<noteq> None \<longrightarrow> known_key k"
    using convert_key_effect [of quote name k "the (map_of svc k)" out r] by (elim exE conjE) (rule that)
  let ?out = "case res of None \<Rightarrow> out | Some y \<Rightarrow> gm_put k y out"
  let ?r = "r\<lparr>irNotes := irNotes r @ ns\<rparr>"
  have f: "fold (\<lambda>key. convert_key quote name key (the (map_of svc key))) ks (?out, ?r) = (out', r')"
    using Cons.prems(1) unfolding fold.simps comp_def k .
  have ks: "set ks \<subseteq> set (gm_keys svc)" "distinct ks" "k \<notin> set ks" "k \<in> set (gm_keys svc)"
    using Cons.prems(2,3) by auto
  obtain ms where ms: "r' = ?r\<lparr>irNotes := irNotes ?r @ ms\<rparr>"
    and rest: "\<And>key. key \<notin> set ks \<Longrightarrow> map_of out' key = map_of ?out key"
    and all: "\<And>key. key \<in> set ks \<Longrightarrow> map_of ?out key = None \<Longrightarrow>
        key_accounted ms name key (the (map_of svc key)) (map_of out' key) \<and> (map_of out' key \<noteq> None \<longrightarrow> known_key key) \<and>
        (key \<in> {''image'', ''package''} \<longrightarrow> map_of out' key = map_of svc key)"
    using Cons.IH [OF f ks(1,2)] by (elim exE conjE) (rule that, blast+)
  have out: "map_of ?out key = (if key = k \<and> res \<noteq> None then res else map_of out key)" for key
    by (cases res) auto
  have one: "key_accounted (ns @ ms) name k (the (map_of svc k)) (map_of out' k)" "map_of out' k \<noteq> None \<longrightarrow> known_key k"
    "k \<in> {''image'', ''package''} \<longrightarrow> map_of out' k = map_of svc k"
    if "map_of out k = None"
  proof -
    have "map_of out' k = res" using rest [OF ks(3)] out that by auto
    moreover have "map_of svc k \<noteq> None" using ks(4) by (simp add: gm_keys_None [symmetric])
    ultimately show "key_accounted (ns @ ms) name k (the (map_of svc k)) (map_of out' k)"
      "map_of out' k \<noteq> None \<longrightarrow> known_key k" "k \<in> {''image'', ''package''} \<longrightarrow> map_of out' k = map_of svc k"
      using key_accounted_mono [OF res(1), of "[]" ms] res(2,3) by auto
  qed
  show ?case
  proof (intro exI [of _ "ns @ ms"] conjI allI impI ballI)
    show "r' = r\<lparr>irNotes := irNotes r @ ns @ ms\<rparr>" by (simp add: ms)
  next
    fix key assume "key \<notin> set (k # ks)"
    then show "map_of out' key = map_of out key" using rest out by simp
  next
    fix key assume key: "key \<in> set (k # ks)" "map_of out key = None"
    show "key_accounted (ns @ ms) name key (the (map_of svc key)) (map_of out' key)"
      "map_of out' key \<noteq> None \<Longrightarrow> known_key key"
      "key \<in> {''image'', ''package''} \<Longrightarrow> map_of out' key = map_of svc key"
    proof -
      have "key = k \<or> key \<in> set ks \<and> map_of ?out key = None" using key ks(3) out by auto
      then show "key_accounted (ns @ ms) name key (the (map_of svc key)) (map_of out' key)"
        "map_of out' key \<noteq> None \<Longrightarrow> known_key key"
        "key \<in> {''image'', ''package''} \<Longrightarrow> map_of out' key = map_of svc key"
        using one key(2) all [of key] key_accounted_mono [of ms name key _ _ ns "[]"] by auto
    qed
  qed
qed

lemma distinct_sorted_keys: "gm_ok m \<Longrightarrow> distinct (sorted_keys m)"
  by (simp add: sorted_keys_def)

lemma convertService_spec:
  assumes "convertService quote name svc r = (out, r')" and "gm_ok svc"
  shows "\<exists>ns. r' = r\<lparr>irNotes := irNotes r @ ns\<rparr> \<and> service_accounted ns name svc out \<and>
     (\<forall>key \<in> set (gm_keys out). known_key key \<and> key \<in> set (gm_keys svc)) \<and>
     (\<forall>key \<in> {''image'', ''package''}. map_of out key = map_of svc key)"
proof -
  have sub: "set (sorted_keys svc) \<subseteq> set (gm_keys svc)" by simp
  obtain ns where ns: "r' = r\<lparr>irNotes := irNotes r @ ns\<rparr>"
    and rest: "\<And>key. key \<notin> set (gm_keys svc) \<Longrightarrow> map_of out key = None"
    and all: "\<And>key. key \<in> set (gm_keys svc) \<Longrightarrow> key_accounted ns name key (the (map_of svc key)) (map_of out key) \<and>
        (map_of out key \<noteq> None \<longrightarrow> known_key key) \<and>
        (key \<in> {''image'', ''package''} \<longrightarrow> map_of out key = map_of svc key)"
    using convert_keys_spec [OF assms(1) [unfolded convertService_def] sub distinct_sorted_keys [OF assms(2)]]
    unfolding set_sorted_keys by (elim exE conjE) (rule that, blast, simp, simp)
  have "service_accounted ns name svc out"
    unfolding service_accounted_def
  proof (intro allI impI)
    show "key_accounted ns name key v (map_of out key)" if "map_of svc key = Some v" for key v
      using all [of key] that by (simp add: gm_keys_iff)
  qed
  moreover have "known_key key \<and> key \<in> set (gm_keys svc)" if "key \<in> set (gm_keys out)" for key
    using that all [of key] rest [of key] by (cases "key \<in> set (gm_keys svc)") (auto simp: gm_keys_iff)
  moreover have "map_of out key = map_of svc key" if "key \<in> {''image'', ''package''}" for key
    using that all [of key] rest [of key] by (cases "key \<in> set (gm_keys svc)") (auto simp: gm_keys_None)
  ultimately show ?thesis using ns by blast
qed

subsection \<open>What becomes of a document\<close>

definition runs_nothing :: "ydoc \<Rightarrow> bool" where
  "runs_nothing svc \<longleftrightarrow> ''image'' \<notin> set (gm_keys svc) \<and> ''package'' \<notin> set (gm_keys svc)"

text \<open>A converted service: every key is accounted for, no key is new, and the loader knows all of them.\<close>

definition service_converted :: "import_note list \<Rightarrow> string \<Rightarrow> ydoc \<Rightarrow> ydoc \<Rightarrow> bool" where
  "service_converted ns name svc out \<longleftrightarrow> service_accounted ns name svc out \<and>
     (\<forall>key \<in> set (gm_keys out). known_key key \<and> key \<in> set (gm_keys svc)) \<and>
     (\<forall>key \<in> {''image'', ''package''}. map_of out key = map_of svc key)"

lemma service_converted_mono: "service_converted ns name svc out \<Longrightarrow> service_converted (as @ ns @ bs) name svc out"
  unfolding service_converted_def using service_accounted_mono by blast

definition entry_converted :: "import_note list \<Rightarrow> string \<Rightarrow> yaml option \<Rightarrow> yaml option \<Rightarrow> bool" where
  "entry_converted ns name v res \<longleftrightarrow>
     (case as_map v of
        None \<Rightarrow> res = None \<and> 0 < noted ns name ''''
      | Some svc \<Rightarrow> \<exists>out. res = Some (YMap out) \<and> service_converted ns name svc out \<and>
          (runs_nothing svc \<longrightarrow> 0 < noted ns name ''''))"

lemma entry_converted_mono: "entry_converted ns name v res \<Longrightarrow> entry_converted (as @ ns @ bs) name v res"
  unfolding entry_converted_def using service_converted_mono by (fastforce split: option.splits)

abbreviation is_service :: "ydoc \<Rightarrow> string \<Rightarrow> bool" where
  "is_service raw n \<equiv> as_map (map_of raw n) \<noteq> None"

abbreviation is_empty_service :: "ydoc \<Rightarrow> string \<Rightarrow> bool" where
  "is_empty_service raw n \<equiv> (case as_map (map_of raw n) of None \<Rightarrow> False | Some svc \<Rightarrow> runs_nothing svc)"

lemma convert_one_effect:
  assumes "convert_one quote raw name (services, r) = (services', r')" and "\<forall>svc. map_of raw name = Some (YMap svc) \<longrightarrow> gm_ok svc"
    and "name \<notin> set (gm_keys services)"
  shows "\<exists>ns. irNotes r' = irNotes r @ ns \<and> irDoc r' = irDoc r \<and>
     irServices r' = irServices r @ filter (is_service raw) [name] \<and>
     irNeedsImage r' = irNeedsImage r @ filter (is_empty_service raw) [name] \<and>
     (\<forall>n. n \<noteq> name \<longrightarrow> map_of services' n = map_of services n) \<and>
     entry_converted ns name (map_of raw name) (map_of services' name)"
proof (cases "as_map (map_of raw name)")
  case None
  then show ?thesis using assms(1,3) by (auto simp: convert_one_def Note_def entry_converted_def gm_keys_None)
next
  case (Some svc)
  obtain out r1 where c: "convertService quote name svc r = (out, r1)" by fastforce
  have ok: "gm_ok svc" using assms(2) Some by simp
  obtain ns where ns: "r1 = r\<lparr>irNotes := irNotes r @ ns\<rparr>" and sc: "service_converted ns name svc out"
    using convertService_spec [OF c ok] unfolding service_converted_def [symmetric] by (elim exE conjE) (rule that)
  have empty: "(\<not> gm_has out ''image'' \<and> \<not> gm_has out ''package'') = runs_nothing svc"
    using sc by (simp add: service_converted_def runs_nothing_def gm_keys_dom dom_def)
  have s': "map_of services' n = (if n = name then Some (YMap out) else map_of services n)" for n
    using assms(1) Some c by (auto simp: convert_one_def Let_def)
  show ?thesis
  proof (cases "runs_nothing svc")
    case True
    then have r': "\<exists>d. r' = r\<lparr>irNotes := irNotes r @ ns @ [\<lparr>ntService = name, ntKey = '''', ntDetail = d\<rparr>],
        irNeedsImage := irNeedsImage r @ [name], irServices := irServices r @ [name]\<rparr>"
      using assms(1) Some c empty by (auto simp: convert_one_def Let_def Note_def ns)
    then obtain d where d: "r' = r\<lparr>irNotes := irNotes r @ ns @ [\<lparr>ntService = name, ntKey = '''', ntDetail = d\<rparr>],
        irNeedsImage := irNeedsImage r @ [name], irServices := irServices r @ [name]\<rparr>" ..
    have "service_converted (ns @ [\<lparr>ntService = name, ntKey = '''', ntDetail = d\<rparr>]) name svc out"
      using service_converted_mono [OF sc, of "[]"] by simp
    then show ?thesis using Some True s'
      by (intro exI [of _ "ns @ [\<lparr>ntService = name, ntKey = '''', ntDetail = d\<rparr>]"]) (simp add: d entry_converted_def)
  next
    case False
    then have "r' = r\<lparr>irNotes := irNotes r @ ns, irServices := irServices r @ [name]\<rparr>"
      using assms(1) Some c empty by (auto simp: convert_one_def Let_def ns)
    then show ?thesis using Some False s' sc by (intro exI [of _ ns]) (simp add: entry_converted_def)
  qed
qed

lemma convert_services_spec:
  assumes "fold (convert_one quote raw) ks (services, r) = (services', r')"
    and "\<forall>n svc. map_of raw n = Some (YMap svc) \<longrightarrow> gm_ok svc"
    and "distinct ks" and "set ks \<inter> set (gm_keys services) = {}"
  shows "\<exists>ns. irNotes r' = irNotes r @ ns \<and> irDoc r' = irDoc r \<and>
     irServices r' = irServices r @ filter (is_service raw) ks \<and>
     irNeedsImage r' = irNeedsImage r @ filter (is_empty_service raw) ks \<and>
     (\<forall>n. n \<notin> set ks \<longrightarrow> map_of services' n = map_of services n) \<and>
     (\<forall>n \<in> set ks. entry_converted ns n (map_of raw n) (map_of services' n))"
  using assms(1,3,4)
proof (induction ks arbitrary: services r)
  case Nil
  then show ?case by auto
next
  case (Cons k ks)
  obtain s1 r1 where one: "convert_one quote raw k (services, r) = (s1, r1)" by fastforce
  have k: "k \<notin> set (gm_keys services)" "k \<notin> set ks" using Cons.prems by auto
  have ok: "\<forall>svc. map_of raw k = Some (YMap svc) \<longrightarrow> gm_ok svc" using assms(2) by blast
  obtain ns where ns: "irNotes r1 = irNotes r @ ns" "irDoc r1 = irDoc r"
      "irServices r1 = irServices r @ filter (is_service raw) [k]"
      "irNeedsImage r1 = irNeedsImage r @ filter (is_empty_service raw) [k]"
      "\<And>n. n \<noteq> k \<Longrightarrow> map_of s1 n = map_of services n"
      "entry_converted ns k (map_of raw k) (map_of s1 k)"
    using convert_one_effect [OF one ok k(1)] by (elim exE conjE) (rule that, blast+)
  have disj: "set ks \<inter> set (gm_keys s1) = {}"
    using Cons.prems(3) k(2) ns(5) by (auto simp: gm_keys_dom domIff) (metis disjoint_iff domI gm_keys_dom insert_iff)
  have f: "fold (convert_one quote raw) ks (s1, r1) = (services', r')"
    using Cons.prems(1) unfolding fold.simps comp_def one .
  have dk: "distinct ks" using Cons.prems(2) by simp
  obtain ms where ms: "irNotes r' = irNotes r1 @ ms" "irDoc r' = irDoc r1"
      "irServices r' = irServices r1 @ filter (is_service raw) ks"
      "irNeedsImage r' = irNeedsImage r1 @ filter (is_empty_service raw) ks"
      "\<And>n. n \<notin> set ks \<Longrightarrow> map_of services' n = map_of s1 n"
      "\<And>n. n \<in> set ks \<Longrightarrow> entry_converted ms n (map_of raw n) (map_of services' n)"
    using Cons.IH [OF f dk disj] by (elim exE conjE) (rule that, blast+)
  show ?case
  proof (intro exI [of _ "ns @ ms"] conjI ballI allI impI)
    show "entry_converted (ns @ ms) n (map_of raw n) (map_of services' n)" if "n \<in> set (k # ks)" for n
      using that ms(5) [OF k(2)] entry_converted_mono [OF ns(6), of "[]" ms] entry_converted_mono [OF ms(6), of n ns "[]"] by auto
  qed (use ns ms k(2) in auto)
qed

lemma convert_top_spec:
  "\<exists>ns. irNotes (fold (convert_top doc) ks r) = irNotes r @ ns \<and>
     irServices (fold (convert_top doc) ks r) = irServices r \<and>
     irNeedsImage (fold (convert_top doc) ks r) = irNeedsImage r \<and>
     (\<forall>key. map_of (irDoc (fold (convert_top doc) ks r)) key =
        (if key \<in> set ks \<and> key \<in> {''networks'', ''volumes''} then Some (the (map_of doc key)) else map_of (irDoc r) key)) \<and>
     (\<forall>key \<in> set ks. key \<notin> {''services'', ''networks'', ''volumes''} \<longrightarrow> 0 < noted ns '''' key)"
proof (induction ks arbitrary: r)
  case (Cons k ks)
  have d: "map_of (irDoc (convert_top doc k r)) key =
      (if key = k \<and> key \<in> {''networks'', ''volumes''} then Some (the (map_of doc key)) else map_of (irDoc r) key)" for key
    by (auto simp: convert_top_def Note_def)
  have "\<exists>ns. irNotes (convert_top doc k r) = irNotes r @ ns \<and>
      (k \<notin> {''services'', ''networks'', ''volumes''} \<longrightarrow> 0 < noted ns '''' k)"
    by (simp add: convert_top_def Note_def)
  then obtain ns where ns: "irNotes (convert_top doc k r) = irNotes r @ ns"
      "k \<notin> {''services'', ''networks'', ''volumes''} \<longrightarrow> 0 < noted ns '''' k" by blast
  have same: "irServices (convert_top doc k r) = irServices r" "irNeedsImage (convert_top doc k r) = irNeedsImage r"
    by (simp_all add: convert_top_def Note_def)
  obtain ms where ms: "irNotes (fold (convert_top doc) ks (convert_top doc k r)) = irNotes (convert_top doc k r) @ ms"
      "irServices (fold (convert_top doc) ks (convert_top doc k r)) = irServices (convert_top doc k r)"
      "irNeedsImage (fold (convert_top doc) ks (convert_top doc k r)) = irNeedsImage (convert_top doc k r)"
      "\<And>key. map_of (irDoc (fold (convert_top doc) ks (convert_top doc k r))) key =
        (if key \<in> set ks \<and> key \<in> {''networks'', ''volumes''} then Some (the (map_of doc key))
         else map_of (irDoc (convert_top doc k r)) key)"
      "\<And>key. key \<in> set ks \<Longrightarrow> key \<notin> {''services'', ''networks'', ''volumes''} \<Longrightarrow> 0 < noted ms '''' key"
    using Cons.IH [of "convert_top doc k r"] by (elim exE conjE) (rule that, blast+)
  have noted: "0 < noted (ns @ ms) '''' key" if "key \<in> set (k # ks)" "key \<notin> {''services'', ''networks'', ''volumes''}" for key
    using that ns(2) ms(5) [of key] by (cases "key = k") simp_all
  show ?case
  proof (intro exI [of _ "ns @ ms"] conjI allI ballI impI)
    show "0 < noted (ns @ ms) '''' key" if "key \<in> set (k # ks)" "key \<notin> {''services'', ''networks'', ''volumes''}" for key
      using that by (rule noted)
  qed (auto simp: ns(1) same d ms(1-4))
qed simp

text \<open>The result for a document with services, before it is validated.\<close>

definition doc_converted :: "ydoc \<Rightarrow> ydoc \<Rightarrow> import_result \<Rightarrow> ydoc \<Rightarrow> bool" where
  "doc_converted doc raw r outs \<longleftrightarrow> map_of (irDoc r) ''services'' = Some (YMap outs) \<and>
     (\<forall>key. key \<noteq> ''services'' \<longrightarrow>
        map_of (irDoc r) key = (if key \<in> {''networks'', ''volumes''} then map_of doc key else None)) \<and>
     (\<forall>key \<in> set (gm_keys doc). key \<notin> {''services'', ''networks'', ''volumes''} \<longrightarrow> 0 < noted (irNotes r) '''' key) \<and>
     (\<forall>n \<in> set (gm_keys raw). entry_converted (irNotes r) n (map_of raw n) (map_of outs n)) \<and>
     (\<forall>n. n \<notin> set (gm_keys raw) \<longrightarrow> map_of outs n = None) \<and>
     irServices r = filter (is_service raw) (sorted_keys raw) \<and>
     irNeedsImage r = filter (is_empty_service raw) (sorted_keys raw)"

lemma Convert_doc:
  assumes "ydoc_ok doc" and "map_of doc ''services'' = Some (YMap raw)" and "raw \<noteq> []"
  obtains r outs where "doc_converted doc raw r outs"
    and "Convert quote (Inr (Some doc)) = (if ValidateDoc (irDoc r) \<noteq> [] then Inl (ConversionBug (ValidateDoc (irDoc r))) else Inr r)"
proof -
  let ?r0 = "\<lparr>irDoc = [], irNotes = [], irServices = [], irNeedsImage = []\<rparr>"
  define r1 where "r1 = fold (convert_top doc) (sorted_keys doc) ?r0"
  obtain ns where ns: "irNotes r1 = ns" "irServices r1 = []" "irNeedsImage r1 = []"
      "\<And>key. map_of (irDoc r1) key =
        (if key \<in> set (gm_keys doc) \<and> key \<in> {''networks'', ''volumes''} then Some (the (map_of doc key)) else None)"
      "\<And>key. key \<in> set (gm_keys doc) \<Longrightarrow> key \<notin> {''services'', ''networks'', ''volumes''} \<Longrightarrow> 0 < noted ns '''' key"
    using convert_top_spec [of doc "sorted_keys doc" ?r0]
    unfolding r1_def [symmetric] set_sorted_keys import_result.simps map_of.simps append.simps
    by (elim exE conjE) (rule that, assumption+, blast+)
  have raw: "gm_ok raw" "\<forall>n svc. map_of raw n = Some (YMap svc) \<longrightarrow> gm_ok svc"
    using assms(1,2) map_of_SomeD by (fastforce simp: ydoc_ok_def list_all_iff)+
  obtain outs r2 where two: "fold (convert_one quote raw) (sorted_keys raw) ([], r1) = (outs, r2)" by fastforce
  have "set (sorted_keys raw) \<inter> set (gm_keys []) = {}" by simp
  from convert_services_spec [OF two raw(2) distinct_sorted_keys [OF raw(1)] this]
  obtain ms where ms: "irNotes r2 = ns @ ms" "irDoc r2 = irDoc r1"
      "irServices r2 = filter (is_service raw) (sorted_keys raw)"
      "irNeedsImage r2 = filter (is_empty_service raw) (sorted_keys raw)"
      "\<And>n. n \<notin> set (gm_keys raw) \<Longrightarrow> map_of outs n = None"
      "\<And>n. n \<in> set (gm_keys raw) \<Longrightarrow> entry_converted ms n (map_of raw n) (map_of outs n)"
    unfolding ns(1-3) set_sorted_keys map_of.simps append.simps by (elim exE conjE) (rule that, assumption+, blast+)
  define r3 where "r3 = r2\<lparr>irDoc := gm_put ''services'' (YMap outs) (irDoc r2)\<rparr>"
  have "doc_converted doc raw r3 outs"
    unfolding doc_converted_def
  proof (intro conjI allI ballI impI)
    show "entry_converted (irNotes r3) n (map_of raw n) (map_of outs n)" if "n \<in> set (gm_keys raw)" for n
      using entry_converted_mono [OF ms(6) [OF that], of ns "[]"] by (simp add: r3_def ms(1))
  qed (use ns(4,5) ms in \<open>auto simp: r3_def gm_keys_iff\<close>)
  moreover have "Convert quote (Inr (Some doc)) =
      (if ValidateDoc (irDoc r3) \<noteq> [] then Inl (ConversionBug (ValidateDoc (irDoc r3))) else Inr r3)"
    using assms(2,3) by (simp add: Convert_def Let_def r1_def [symmetric] two r3_def)
  ultimately show thesis by (rule that)
qed

lemma Convert_services:
  assumes "Convert quote (Inr (Some doc)) = Inr res \<or> Convert quote (Inr (Some doc)) = Inl (ConversionBug ps)"
  obtains raw where "map_of doc ''services'' = Some (YMap raw)" and "raw \<noteq> []"
  using assms by (auto simp: Convert_def Let_def split: option.splits if_splits)

text \<open>What an entry in the long syntax is converted to depends only on these fields.\<close>

lemma convertPort_fields:
  assumes "convertPort (YMap p) = Inr y" and "\<forall>field \<in> {''target'', ''published'', ''protocol''}. map_of p' field = map_of p field"
  shows "convertPort (YMap p') = Inr y"
  using assms by (auto simp: convertPort_def longPortToShort_def Let_def split: sum.splits option.splits if_splits)

lemma convertVolume_fields:
  assumes "convertVolume quote (YMap m) = Inr y" and "\<forall>field \<in> {''type'', ''source'', ''target''}. map_of m' field = map_of m field"
    and "map_of m' ''read_only'' = map_of m ''read_only'' \<or> (\<forall>s. \<not> holds m ''source'' s)"
  shows "convertVolume quote (YMap m') = Inr y"
proof -
  have f: "map_of m' ''type'' = map_of m ''type''" "map_of m' ''source'' = map_of m ''source''" "map_of m' ''target'' = map_of m ''target''"
    using assms(2) by simp_all
  obtain target where t: "scalarString (map_of m ''target'') = Some target"
    using assms(1) by (cases "scalarString (map_of m ''target'')") (simp_all add: convertVolume_def Let_def)
  show ?thesis
  proof (cases "scalarString (map_of m ''source'')")
    case None
    have "convertVolume quote (YMap m') = convertVolume quote (YMap m)"
      by (simp add: convertVolume_def Let_def f t None)
    then show ?thesis using assms(1) by simp
  next
    case (Some source)
    then have "map_of m' ''read_only'' = map_of m ''read_only''" using assms(3) unfolding scalarString_holds [symmetric] by auto
    then have "convertVolume quote (YMap m') = convertVolume quote (YMap m)"
      by (simp add: convertVolume_def Let_def f t Some)
    then show ?thesis using assms(1) by simp
  qed
qed


text \<open>The problems that the validation can find in a result.\<close>

definition sets_both :: "ydoc \<Rightarrow> bool" where
  "sets_both svc \<longleftrightarrow> ''image'' \<in> set (gm_keys svc) \<and> ''package'' \<in> set (gm_keys svc)"

lemma outs_services:
  assumes "doc_converted doc raw r outs" and "map_of outs n = Some y"
  obtains svc out where "map_of raw n = Some (YMap svc)" and "y = YMap out" and "service_converted (irNotes r) n svc out"
proof -
  have "n \<notin> set (gm_keys raw) \<Longrightarrow> map_of outs n = None" using assms(1) unfolding doc_converted_def by blast
  then have "n \<in> set (gm_keys raw)" using assms(2) by fastforce
  then have "entry_converted (irNotes r) n (map_of raw n) (map_of outs n)" using assms(1) by (simp add: doc_converted_def)
  then show thesis using assms(2) that by (cases "as_map (map_of raw n)") (auto simp: entry_converted_def)
qed

lemma raw_services:
  assumes "doc_converted doc raw r outs" and "map_of raw n = Some (YMap svc)"
  obtains out where "map_of outs n = Some (YMap out)" and "service_converted (irNotes r) n svc out"
proof -
  have "n \<in> set (gm_keys raw)" using assms(2) by (auto simp: gm_keys_iff)
  then have "entry_converted (irNotes r) n (map_of raw n) (map_of outs n)" using assms(1) by (simp add: doc_converted_def)
  then show thesis using that by (auto simp: entry_converted_def assms(2))
qed

lemma converted_problems:
  assumes d: "doc_converted doc raw r outs"
  shows "doc_problem (irDoc r) p \<longleftrightarrow> p = ServicesEmpty \<and> (\<forall>n svc. map_of raw n \<noteq> Some (YMap svc)) \<or>
     (\<exists>n svc. p = ImageAndPackage n \<and> map_of raw n = Some (YMap svc) \<and> sets_both svc)"
proof -
  have s: "map_of (irDoc r) ''services'' = Some (YMap outs)"
    using d unfolding doc_converted_def by blast
  have other: "map_of (irDoc r) key = (if key \<in> {''networks'', ''volumes''} then map_of doc key else None)"
    if "key \<noteq> ''services''" for key
    using d that unfolding doc_converted_def by blast
  have both: "sets_both out \<longleftrightarrow> sets_both svc" if "service_converted (irNotes r) n svc out" for n svc out
    using that by (simp add: service_converted_def sets_both_def gm_keys_iff)
  show ?thesis
  proof (cases p)
    case (UnknownTopLevelKey k)
    have "k \<in> {''services'', ''networks'', ''volumes''}" if "k \<in> set (gm_keys (irDoc r))"
      using that other [of k] by (cases "k = ''services''") (auto simp: gm_keys_iff split: if_splits)
    moreover have "{''services'', ''networks'', ''volumes''} \<subseteq> set (gm_keys topLevelKeys)" by code_simp
    ultimately show ?thesis unfolding UnknownTopLevelKey by auto
  next
    case ServicesEmpty
    have "outs = [] \<longleftrightarrow> (\<forall>n svc. map_of raw n \<noteq> Some (YMap svc))"
    proof (cases outs)
      case Nil
      then show ?thesis by (auto elim: raw_services [OF d])
    next
      case (Cons e es)
      then have "map_of outs (fst e) = Some (snd e)" by (cases e) simp
      from outs_services [OF d this] Cons show ?thesis by blast
    qed
    then show ?thesis by (simp add: ServicesEmpty s)
  next
    case (ServiceNotMapping n)
    then show ?thesis using s by (auto elim: outs_services [OF d])
  next
    case (UnknownServiceKey n k)
    have "known_key k" if "map_of outs n = Some (YMap out)" "k \<in> set (gm_keys out)" for out
      using outs_services [OF d that(1)] that(2) by (auto simp: service_converted_def)
    then show ?thesis using s by (auto simp: UnknownServiceKey)
  next
    case (ImageAndPackage n)
    have "(\<exists>out. map_of outs n = Some (YMap out) \<and> sets_both out) \<longleftrightarrow>
        (\<exists>svc. map_of raw n = Some (YMap svc) \<and> sets_both svc)"
    proof
      assume "\<exists>out. map_of outs n = Some (YMap out) \<and> sets_both out"
      then obtain out where out: "map_of outs n = Some (YMap out)" "sets_both out" by blast
      show "\<exists>svc. map_of raw n = Some (YMap svc) \<and> sets_both svc"
        by (rule outs_services [OF d out(1)]) (use out(2) both in auto)
    next
      assume "\<exists>svc. map_of raw n = Some (YMap svc) \<and> sets_both svc"
      then obtain svc where svc: "map_of raw n = Some (YMap svc)" "sets_both svc" by blast
      show "\<exists>out. map_of outs n = Some (YMap out) \<and> sets_both out"
        by (rule raw_services [OF d svc(1)]) (use svc(2) both in auto)
    qed
    then show ?thesis by (simp add: ImageAndPackage s sets_both_def)
  qed (use s other [of "''name''"] in auto)
qed

text \<open>C24: When a document can be converted: it has services, at least one of them is a mapping, and no mapping
  sets both an image and a package.  Every other document with services is refused as an internal defect,
  which the importer asks to be reported.\<close>

theorem Convert_succeeds_iff:
  assumes "ydoc_ok doc"
  shows "((\<exists>res. Convert quote (Inr (Some doc)) = Inr res) \<longleftrightarrow>
     (\<exists>raw. map_of doc ''services'' = Some (YMap raw) \<and> (\<exists>n svc. map_of raw n = Some (YMap svc)) \<and>
       (\<forall>n svc. map_of raw n = Some (YMap svc) \<longrightarrow> \<not> sets_both svc))) \<and>
   ((\<exists>ps. Convert quote (Inr (Some doc)) = Inl (ConversionBug ps)) \<longleftrightarrow>
     (\<exists>raw. map_of doc ''services'' = Some (YMap raw) \<and> raw \<noteq> [] \<and>
       ((\<forall>n svc. map_of raw n \<noteq> Some (YMap svc)) \<or> (\<exists>n svc. map_of raw n = Some (YMap svc) \<and> sets_both svc))))"
proof (cases "\<exists>raw. map_of doc ''services'' = Some (YMap raw) \<and> raw \<noteq> []")
  case True
  then obtain raw where raw: "map_of doc ''services'' = Some (YMap raw)" "raw \<noteq> []" by blast
  obtain r outs where r: "doc_converted doc raw r outs"
    "Convert quote (Inr (Some doc)) = (if ValidateDoc (irDoc r) \<noteq> [] then Inl (ConversionBug (ValidateDoc (irDoc r))) else Inr r)"
    by (rule Convert_doc [OF assms raw])
  have "ValidateDoc (irDoc r) = [] \<longleftrightarrow> (\<exists>n svc. map_of raw n = Some (YMap svc)) \<and>
      (\<forall>n svc. map_of raw n = Some (YMap svc) \<longrightarrow> \<not> sets_both svc)"
    unfolding ValidateDoc_def validateYAML_empty converted_problems [OF r(1)] by blast
  then show ?thesis using raw r(2) by auto
next
  case False
  then have "\<not> (\<exists>res. Convert quote (Inr (Some doc)) = Inr res)" "\<not> (\<exists>ps. Convert quote (Inr (Some doc)) = Inl (ConversionBug ps))"
    by (meson Convert_services)+
  moreover have "raw \<noteq> []" if "map_of raw n = Some y" for raw :: ydoc and n y using that by auto
  ultimately show ?thesis using False by blast
qed

text \<open>A document with a service to convert, one without anything to run, and one that is not a mapping.\<close>

definition example_doc :: ydoc where
  "example_doc =
     [(''version'', YStr ''3''), (''networks'', YMap []),
      (''services'', YMap
        [(''web'', YMap [(''image'', YStr ''nginx''), (''environment'', YSeq [YStr ''A=1'', YStr ''HOME'']),
            (''ports'', YSeq [YStr ''80'', YMap [(''target'', YStr ''80''), (''published'', YStr ''81'')]])]),
         (''app'', YMap [(''build'', YStr ''.''), (''cap_add'', YNull)]), (''odd'', YNull)])]"

definition converts_to :: "ydoc \<Rightarrow> (import_result \<Rightarrow> bool) \<Rightarrow> bool" where
  "converts_to doc P = (case Convert (\<lambda>s. s) (Inr (Some doc)) of Inl e \<Rightarrow> False | Inr res \<Rightarrow> P res)"

lemma example_converts: "\<exists>res. Convert (\<lambda>s. s) (Inr (Some example_doc)) = Inr res"
proof -
  have "converts_to example_doc (\<lambda>_. True)" by code_simp
  then show ?thesis by (simp add: converts_to_def split: sum.splits)
qed


lemma Convert_succeeds_iff_witness:
  "\<exists>raw. map_of example_doc ''services'' = Some (YMap raw) \<and> (\<exists>n svc. map_of raw n = Some (YMap svc))"
proof -
  have ok: "ydoc_ok example_doc" by code_simp
  from iffD1 [OF conjunct1 [OF Convert_succeeds_iff [OF ok]] example_converts]
  obtain raw n svc where "map_of example_doc ''services'' = Some (YMap raw)" "map_of raw n = Some (YMap svc)"
    by (elim exE conjE) (rule that)
  then show ?thesis by (intro exI [of _ raw] conjI exI [of _ n] exI [of _ svc])
qed

subsection \<open>What the notes leave out\<close>

text \<open>The address that a port is published on is dropped without a note: the container is reachable from
  everywhere instead of from the host alone.\<close>

lemma host_ip_dropped:
  "convertPort (YMap [(''target'', YStr ''80''), (''published'', YStr ''8080''), (''host_ip'', YStr ''127.0.0.1'')]) =
     Inr (YStr ''8080:80'')"
  by code_simp

text \<open>A read-only mount without a source becomes writable, also without a note.\<close>

lemma read_only_dropped:
  "convertVolume (\<lambda>s. s) (YMap [(''target'', YStr ''/data''), (''read_only'', YBool True)]) = Inr (YStr ''/data'')"
  by code_simp

text \<open>The name of the project and the pinned package set are dropped as keys that nix-compose does not
  understand, although its loader accepts both.\<close>

lemma known_keys_dropped:
  "converts_to [(''name'', YStr ''shop''), (''nixpkgs'', YStr ''nixpkgs''),
       (''services'', YMap [(''web'', YMap [(''image'', YStr ''nginx'')])])]
     (\<lambda>res. map ntKey (irNotes res) = [''name'', ''nixpkgs''] \<and> gm_keys (irDoc res) = [''services''])"
  by code_simp

lemma known_keys_accepted:
  "ValidateDoc [(''name'', YStr ''shop''), (''nixpkgs'', YStr ''nixpkgs''),
     (''services'', YMap [(''web'', YMap [(''image'', YStr ''nginx'')])])] = []"
  by code_simp

end
