(* ===== verification/Compose_Render.thy ===== *)
theory Compose_Render
  imports Compose_Import
begin

text \<open>
  The file that the importer writes (\<open>composeimport/render.go\<close>) and its suggestions of packages for images
  (\<open>composeimport/suggest.go\<close>).  Encoding a value as a YAML node (\<open>encode\<close>) and printing a tree of nodes
  (\<open>emit\<close>) are done by the YAML library; asking Nix for packages is a parameter too.
\<close>

subsection \<open>The header\<close>

definition hash_line :: "string \<Rightarrow> string" where
  "hash_line l = CHR ''#'' # l @ [newline]"

definition render_header :: "(string \<Rightarrow> string) \<Rightarrow> import_result \<Rightarrow> string \<Rightarrow> string" where
  "render_header quote res source =
     hash_line ('' Converted from '' @ source @ '' by `nix-compose import`.'') @
     hash_line '''' @
     hash_line '' Every service below still pulls its image from a registry, exactly as'' @
     hash_line '' it did before. To stop doing that for a service, replace its `image:`'' @
     hash_line ('' with `package: <nixpkgs attribute>` '' @ em_dash @ '' the image is then built from that'') @
     hash_line '' package's closure and imported straight into the runtime. Run'' @
     hash_line '' `nix-compose suggest` to see which images have a nixpkgs equivalent.'' @
     hash_line '''' @
     hash_line '' The two kinds of service mix freely, so this can happen one at a time.'' @
     (if irNotes res \<noteq> [] then
        hash_line '''' @ hash_line '' Not everything survived the conversion:'' @
        concat (map (\<lambda>n. hash_line (''   - '' @ note_string quote n)) (irNotes res))
      else '''')"

definition NotesReport :: "(string \<Rightarrow> string) \<Rightarrow> import_result \<Rightarrow> string" where
  "NotesReport quote res = concat (map (\<lambda>n. ''  ! '' @ note_string quote n @ [newline]) (irNotes res))"

subsection \<open>The document\<close>

definition keyOrder :: "string list" where
  "keyOrder = [''image'', ''package'', ''entrypoint'', ''command'', ''ports'', ''environment'', ''volumes'', ''tmpfs'',
     ''depends_on'', ''healthcheck'', ''restart'', ''profiles'']"

text \<open>A child node: the library's encoding of a value, or a sequence of double-quoted scalars.\<close>

datatype 'n child = Encoded 'n | QuotedSeq "string list"

fun strings_of :: "yaml list \<Rightarrow> string list option" where
  "strings_of [] = Some []"
| "strings_of (YStr s # ys) = map_option ((#) s) (strings_of ys)"
| "strings_of (_ # ys) = None"

definition quotedSequence :: "string \<Rightarrow> yaml \<Rightarrow> string list option" where
  "quotedSequence key v = (if key \<noteq> ''ports'' then None else case v of YSeq items \<Rightarrow> strings_of items | _ \<Rightarrow> None)"

definition child_of :: "(yaml \<Rightarrow> error + 'n) \<Rightarrow> string \<Rightarrow> yaml \<Rightarrow> error + 'n child" where
  "child_of encode key v =
     (case quotedSequence key v of
        Some ss \<Rightarrow> Inr (QuotedSeq ss)
      | None \<Rightarrow> (case encode v of Inl e \<Rightarrow> Inl e | Inr n \<Rightarrow> Inr (Encoded n)))"

text \<open>The closure \<open>write\<close>, on the keys written and the content of the node.\<close>

definition write_key :: "(yaml \<Rightarrow> error + 'n) \<Rightarrow> ydoc \<Rightarrow> string \<Rightarrow> string list \<times> (string \<times> 'n child) list \<Rightarrow>
    error + string list \<times> (string \<times> 'n child) list" where
  "write_key encode svc key st = (case st of (written, content) \<Rightarrow>
     (case map_of svc key of
        None \<Rightarrow> Inr (written, content)
      | Some v \<Rightarrow>
          if key \<in> set written then Inr (written, content)
          else (case child_of encode key v of
            Inl e \<Rightarrow> Inl e | Inr child \<Rightarrow> Inr (written @ [key], content @ [(key, child)]))))"

fun write_keys :: "(yaml \<Rightarrow> error + 'n) \<Rightarrow> ydoc \<Rightarrow> string list \<Rightarrow> string list \<times> (string \<times> 'n child) list \<Rightarrow>
    error + string list \<times> (string \<times> 'n child) list" where
  "write_keys encode svc [] st = Inr st"
| "write_keys encode svc (key # keys) st =
     (case write_key encode svc key st of Inl e \<Rightarrow> Inl e | Inr st' \<Rightarrow> write_keys encode svc keys st')"

definition orderedMapping :: "(yaml \<Rightarrow> error + 'n) \<Rightarrow> ydoc \<Rightarrow> error + (string \<times> 'n child) list" where
  "orderedMapping encode svc =
     (case write_keys encode svc keyOrder ([], []) of
        Inl e \<Rightarrow> Inl e
      | Inr (written, content) \<Rightarrow>
          (case write_keys encode svc (sort_strings (filter (\<lambda>key. key \<notin> set written) (gm_keys svc))) (written, content) of
             Inl e \<Rightarrow> Inl e | Inr (_, content') \<Rightarrow> Inr content'))"

text \<open>An entry of the root node: the services, each with the mark that it has nothing to run, or another key.\<close>

datatype 'n root_entry = Services "(string \<times> bool \<times> (string \<times> 'n child) list) list" | Other string 'n

fun render_services :: "(yaml \<Rightarrow> error + 'n) \<Rightarrow> import_result \<Rightarrow> string list \<Rightarrow>
    error + (string \<times> bool \<times> (string \<times> 'n child) list) list" where
  "render_services encode res [] = Inr []"
| "render_services encode res (name # names) =
     (let raw = (case as_map (map_of (irDoc res) ''services'') of None \<Rightarrow> [] | Some m \<Rightarrow> m);
          svc = (case as_map (map_of raw name) of None \<Rightarrow> [] | Some m \<Rightarrow> m)
      in case orderedMapping encode svc of
           Inl e \<Rightarrow> Inl e
         | Inr node \<Rightarrow>
             (case render_services encode res names of
                Inl e \<Rightarrow> Inl e
              | Inr rest \<Rightarrow> Inr ((name, name \<in> set (irNeedsImage res), node) # rest)))"

fun render_others :: "(yaml \<Rightarrow> error + 'n) \<Rightarrow> ydoc \<Rightarrow> string list \<Rightarrow> error + 'n root_entry list" where
  "render_others encode doc [] = Inr []"
| "render_others encode doc (key # keys) =
     (case map_of doc key of
        None \<Rightarrow> render_others encode doc keys
      | Some v \<Rightarrow>
          (case encode v of
             Inl e \<Rightarrow> Inl e
           | Inr n \<Rightarrow> (case render_others encode doc keys of Inl e \<Rightarrow> Inl e | Inr rest \<Rightarrow> Inr (Other key n # rest))))"

definition renderDoc :: "(yaml \<Rightarrow> error + 'n) \<Rightarrow> import_result \<Rightarrow> error + 'n root_entry list" where
  "renderDoc encode res =
     (case render_services encode res (irServices res) of
        Inl e \<Rightarrow> Inl e
      | Inr services \<Rightarrow>
          (case render_others encode (irDoc res) [''networks'', ''volumes''] of
             Inl e \<Rightarrow> Inl e | Inr others \<Rightarrow> Inr (Services services # others)))"

definition Render :: "(string \<Rightarrow> string) \<Rightarrow> (yaml \<Rightarrow> error + 'n) \<Rightarrow> ('n root_entry list \<Rightarrow> error + string) \<Rightarrow>
    import_result \<Rightarrow> string \<Rightarrow> error + string" where
  "Render quote encode emit res source =
     (case renderDoc encode res of
        Inl e \<Rightarrow> Inl e
      | Inr root \<Rightarrow>
          (case emit root of Inl e \<Rightarrow> Inl e | Inr body \<Rightarrow> Inr (render_header quote res source @ [newline] @ body)))"

subsection \<open>Order\<close>

definition children :: "(yaml \<Rightarrow> error + 'n) \<Rightarrow> ydoc \<Rightarrow> string list \<Rightarrow> (string \<times> (error + 'n child)) list" where
  "children encode svc keys = map (\<lambda>key. (key, child_of encode key (the (map_of svc key)))) keys"

lemma write_keys_spec:
  assumes "write_keys encode svc keys (map fst c, c) = Inr (written', c')" and "distinct keys"
    and "set keys \<inter> fst ` set c = {}"
  shows "written' = map fst c' \<and>
     map fst c' = map fst c @ filter (\<lambda>k. k \<in> set (gm_keys svc)) keys \<and>
     (\<forall>(k, child) \<in> set c'. (k, child) \<in> set c \<or> child_of encode k (the (map_of svc k)) = Inr child)"
  using assms
proof (induction keys arbitrary: c)
  case (Cons k ks)
  show ?case
  proof (cases "map_of svc k")
    case None
    then have "write_keys encode svc ks (map fst c, c) = Inr (written', c')"
      using Cons.prems(1) by (simp add: write_key_def)
    moreover have "set ks \<inter> fst ` set c = {}" "distinct ks" using Cons.prems(2,3) by auto
    ultimately show ?thesis using Cons.IH [of c] None by (simp add: gm_keys_dom domIff)
  next
    case (Some v)
    with Cons.prems obtain child where child: "child_of encode k v = Inr child"
      "write_keys encode svc ks (map fst (c @ [(k, child)]), c @ [(k, child)]) = Inr (written', c')"
      by (auto simp: write_key_def split: sum.splits)
    have "set ks \<inter> fst ` set (c @ [(k, child)]) = {}" "distinct ks" using Cons.prems(2,3) by auto
    from Cons.IH [OF child(2) this(2,1)] child(1) Some show ?thesis by (auto simp: gm_keys_iff)
  qed
qed auto

text \<open>A service is written with every key exactly once and nothing else: first those of the preferred
  order, in that order, then the others sorted; and every key with the node of its own value.\<close>

theorem orderedMapping_order:
  assumes "gm_ok svc" and "orderedMapping encode svc = Inr content"
  shows "map fst content = filter (\<lambda>k. k \<in> set (gm_keys svc)) keyOrder @
       sort_strings (filter (\<lambda>k. k \<notin> set keyOrder) (gm_keys svc)) \<and>
     distinct (map fst content) \<and> set (map fst content) = set (gm_keys svc) \<and>
     (\<forall>(k, child) \<in> set content. child_of encode k (the (map_of svc k)) = Inr child)"
proof -
  obtain written c w' where c: "write_keys encode svc keyOrder (map fst (take 0 content), take 0 content) = Inr (written, c)"
      "write_keys encode svc (sort_strings (filter (\<lambda>key. key \<notin> set written) (gm_keys svc))) (written, c) = Inr (w', content)"
    using assms(2) by (auto simp: orderedMapping_def split: sum.splits prod.splits)
  have dk: "distinct keyOrder" by code_simp
  have first: "written = map fst c" "map fst c = filter (\<lambda>k. k \<in> set (gm_keys svc)) keyOrder"
    "\<forall>(k, child) \<in> set c. child_of encode k (the (map_of svc k)) = Inr child"
    using write_keys_spec [OF c(1) dk] by auto
  let ?rest = "sort_strings (filter (\<lambda>key. key \<notin> set written) (gm_keys svc))"
  have w: "set written = set keyOrder \<inter> set (gm_keys svc)" by (simp only: first(1,2)) auto
  then have rest: "?rest = sort_strings (filter (\<lambda>k. k \<notin> set keyOrder) (gm_keys svc))"
    by (intro arg_cong [of _ _ sort_strings] filter_cong) auto
  have two: "write_keys encode svc ?rest (map fst c, c) = Inr (w', content)"
    using c(2) unfolding first(1) .
  have dr: "distinct ?rest" using assms(1) by simp
  have disj: "set ?rest \<inter> fst ` set c = {}" using first(1) by auto
  have sub: "filter (\<lambda>k. k \<in> set (gm_keys svc)) ?rest = ?rest" by (rule filter_True) simp
  have keys: "map fst content = filter (\<lambda>k. k \<in> set (gm_keys svc)) keyOrder @ ?rest"
    and nodes: "\<forall>(k, child) \<in> set content. child_of encode k (the (map_of svc k)) = Inr child"
    using write_keys_spec [OF two dr disj] first(2,3) unfolding sub by auto
  have "distinct (map fst content)" "set (map fst content) = set (gm_keys svc)"
    unfolding keys using dk dr w by auto
  then show ?thesis using keys nodes unfolding rest by simp
qed

lemma orderedMapping_order_witness:
  "(let svc = [(''user'', YStr ''u''), (''ports'', YSeq [YStr ''80'']), (''cap'', YNull), (''image'', YStr ''i'')]
    in \<exists>content. orderedMapping Inr svc = Inr content \<and>
      map fst content = filter (\<lambda>k. k \<in> set (gm_keys svc)) keyOrder @ sort_strings (filter (\<lambda>k. k \<notin> set keyOrder) (gm_keys svc)))"
proof -
  let ?svc = "[(''user'', YStr ''u''), (''ports'', YSeq [YStr ''80'']), (''cap'', YNull), (''image'', YStr ''i'')]"
  have o: "orderedMapping Inr ?svc = Inr [(''image'', Encoded (YStr ''i'')), (''ports'', QuotedSeq [''80'']),
      (''cap'', Encoded YNull), (''user'', Encoded (YStr ''u''))]"
    by code_simp
  have "gm_ok ?svc" by code_simp
  from orderedMapping_order [OF this o] o show ?thesis unfolding Let_def by blast
qed

subsection \<open>Comments\<close>

text \<open>The lines of a text whose lines all end with a newline.\<close>

lemma split_lines:
  "list_all (\<lambda>l. newline \<notin> set l) ls \<Longrightarrow> split_char newline (concat (map (\<lambda>l. l @ [newline]) ls)) = ls @ [[]]"
  by (induction ls) (auto simp: split_char_append)

lemma em_dash_no_newline [simp]: "CHR 0x0A \<notin> set em_dash"
  by code_simp

definition header_lines :: "(string \<Rightarrow> string) \<Rightarrow> import_result \<Rightarrow> string \<Rightarrow> string list" where
  "header_lines quote res source =
     [''#'' @ '' Converted from '' @ source @ '' by `nix-compose import`.'', ''#'',
      ''#'' @ '' Every service below still pulls its image from a registry, exactly as'',
      ''#'' @ '' it did before. To stop doing that for a service, replace its `image:`'',
      ''#'' @ '' with `package: <nixpkgs attribute>` '' @ em_dash @ '' the image is then built from that'',
      ''#'' @ '' package's closure and imported straight into the runtime. Run'',
      ''#'' @ '' `nix-compose suggest` to see which images have a nixpkgs equivalent.'', ''#'',
      ''#'' @ '' The two kinds of service mix freely, so this can happen one at a time.''] @
     (if irNotes res \<noteq> [] then [''#'', ''#'' @ '' Not everything survived the conversion:''] @
        map (\<lambda>n. ''#'' @ ''   - '' @ note_string quote n) (irNotes res) else [])"

lemma render_header_lines:
  "render_header quote res source = concat (map (\<lambda>l. l @ [newline]) (header_lines quote res source))"
  unfolding render_header_def header_lines_def hash_line_def by (simp add: comp_def)

lemma note_string_no_newline:
  assumes "newline \<notin> set (ntKey n)" and "newline \<notin> set (ntDetail n)" and "\<forall>s. newline \<notin> set (quote s)"
  shows "newline \<notin> set (note_string quote n)"
  unfolding note_string_def Let_def using assms by (cases "ntService n = []"; cases "ntKey n = []") (simp_all add: newline_def)

text \<open>As long as no key and no detail of a note has a line break, and the name of the source has none, every
  line of the header is a comment.\<close>

theorem render_header_comments:
  assumes "newline \<notin> set source" and "\<forall>n \<in> set (irNotes res). newline \<notin> set (ntKey n) \<and> newline \<notin> set (ntDetail n)"
    and "\<forall>s. newline \<notin> set (quote s)"
  shows "\<exists>ls. split_char newline (render_header quote res source) = ls @ [[]] \<and> list_all (\<lambda>l. has_prefix l ''#'') ls"
proof -
  have "\<forall>n \<in> set (irNotes res). newline \<notin> set (note_string quote n)"
    using assms(2,3) note_string_no_newline by blast
  then have "list_all (\<lambda>l. newline \<notin> set l) (header_lines quote res source)"
    using assms(1) unfolding header_lines_def by (auto simp: list_all_iff newline_def)
  moreover have "list_all (\<lambda>l. has_prefix l ''#'') (header_lines quote res source)"
    by (auto simp: header_lines_def list_all_iff has_prefix_def)
  ultimately show ?thesis unfolding render_header_lines by (blast dest: split_lines)
qed

definition comment_example :: import_result where
  "comment_example = \<lparr>irDoc = [], irNotes = [\<lparr>ntService = ''web'', ntKey = ''cap_add'',
     ntDetail = ''no equivalent in nix-compose; dropped''\<rparr>], irServices = [''web''], irNeedsImage = []\<rparr>"

lemma render_header_comments_witness:
  "\<exists>ls. split_char newline (render_header (\<lambda>s. ''q'') comment_example ''compose.yaml'') = ls @ [[]] \<and>
     list_all (\<lambda>l. has_prefix l ''#'') ls"
  by (rule render_header_comments) (simp_all add: comment_example_def newline_def)

text \<open>Without that, the header can hold anything: an entry of the environment with a line break puts the rest of
  the entry on a line of its own, which the loader reads as part of the document.\<close>

lemma note_escapes_comment:
  "converts_to [(''services'', YMap [(''web'', YMap [(''image'', YStr ''i''),
       (''environment'', YSeq [YStr (''A'' @ [newline] @ ''volumes: {}'')])])])]
     (\<lambda>res. list_ex (\<lambda>l. has_prefix l ''volumes: {}'') (split_char newline (render_header (\<lambda>s. ''q'') res ''c.yaml'')))"
  by code_simp

subsection \<open>Suggestions\<close>

record suggestion =
  sgService :: string
  sgImage :: string
  sgAttr :: string
  sgVersion :: string
  sgMainProg :: bool
  sgTagMajor :: string
  sgPkgMajor :: string

definition MajorMismatch :: "suggestion \<Rightarrow> bool" where
  "MajorMismatch s \<longleftrightarrow> sgTagMajor s \<noteq> '''' \<and> sgPkgMajor s \<noteq> '''' \<and> sgTagMajor s \<noteq> sgPkgMajor s"

definition majorOf :: "string \<Rightarrow> string" where
  "majorOf s = takeWhile (\<lambda>c. digit_val c \<noteq> None) s"

definition strip_digest :: "string \<Rightarrow> string" where
  "strip_digest img = (case cut_char (CHR 0x40) img of None \<Rightarrow> img | Some (ref, _) \<Rightarrow> ref)"

text \<open>A colon separates the tag when no slash follows it.\<close>

definition tagOf :: "string \<Rightarrow> string" where
  "tagOf img =
     (case cut_last (CHR '':'') (strip_digest img) of
        None \<Rightarrow> ''''
      | Some (_, tag) \<Rightarrow> if CHR ''/'' \<in> set tag then '''' else tag)"

definition aliases :: "string list gomap" where
  "aliases =
     [(''postgres'', [''postgresql'']), (''node'', [''nodejs'']), (''golang'', [''go'']), (''python'', [''python3'']),
      (''mysql'', [''mariadb'']), (''mongo'', [''mongodb'']), (''rabbitmq'', [''rabbitmq-server'']),
      (''nginx'', [''nginx'']), (''memcached'', [''memcached'']), (''traefik'', [''traefik'']),
      (''prometheus'', [''prometheus'']), (''grafana'', [''grafana'']), (''httpd'', [''apacheHttpd'']),
      (''caddy'', [''caddy''])]"

definition image_name :: "string \<Rightarrow> string" where
  "image_name img =
     (let ref = strip_digest img;
          ref1 = (case cut_last (CHR '':'') ref of
             None \<Rightarrow> ref | Some (a, tag) \<Rightarrow> if CHR ''/'' \<in> set tag then ref else a)
      in case cut_last (CHR ''/'') ref1 of None \<Rightarrow> ref1 | Some (_, b) \<Rightarrow> b)"

definition ImageCandidates :: "string \<Rightarrow> string list" where
  "ImageCandidates img =
     (let ref = image_name img
      in if ref = '''' then [] else ref # filter (\<lambda>alias. alias \<noteq> ref) (gm_get [] aliases ref))"

record package_info =
  piVersion :: string
  piMainProgram :: bool

text \<open>The answer of Nix to a list of names: an error, or for each name a package or null.\<close>

type_synonym nix_query = "string list \<Rightarrow> error + package_info option gomap"

definition Lookup :: "nix_query \<Rightarrow> string list \<Rightarrow> error + package_info gomap" where
  "Lookup query names =
     (if names = [] then Inr []
      else case query names of
        Inl e \<Rightarrow> Inl e
      | Inr raw \<Rightarrow> Inr (concat (map (\<lambda>(name, info). case info of None \<Rightarrow> [] | Some i \<Rightarrow> [(name, i)]) raw)))"

definition new_suggestion :: "string \<Rightarrow> string \<Rightarrow> suggestion" where
  "new_suggestion name img = \<lparr>sgService = name, sgImage = img, sgAttr = '''', sgVersion = '''', sgMainProg = False,
     sgTagMajor = '''', sgPkgMajor = ''''\<rparr>"

definition add_wanted :: "string \<Rightarrow> string list \<Rightarrow> string list" where
  "add_wanted candidate wanted = (if candidate \<in> set wanted then wanted else wanted @ [candidate])"

definition suggest_step :: "ydoc \<Rightarrow> string \<Rightarrow> suggestion list \<times> string list \<Rightarrow> suggestion list \<times> string list" where
  "suggest_step services name = (\<lambda>(ordered, wanted).
     case as_map (map_of services name) of
       None \<Rightarrow> (ordered, wanted)
     | Some svc \<Rightarrow>
         (case as_str (map_of svc ''image'') of
            None \<Rightarrow> (ordered, wanted)
          | Some img \<Rightarrow>
              if img = '''' then (ordered, wanted)
              else (ordered @ [new_suggestion name img], fold add_wanted (ImageCandidates img) wanted)))"

definition resolve_suggestion :: "package_info gomap \<Rightarrow> suggestion \<Rightarrow> suggestion" where
  "resolve_suggestion found s =
     (case find (\<lambda>candidate. gm_has found candidate) (ImageCandidates (sgImage s)) of
        None \<Rightarrow> s
      | Some candidate \<Rightarrow>
          (let hit = the (map_of found candidate)
           in s\<lparr>sgAttr := candidate, sgVersion := piVersion hit, sgMainProg := piMainProgram hit,
                sgTagMajor := majorOf (tagOf (sgImage s)), sgPkgMajor := majorOf (piVersion hit)\<rparr>))"

definition Suggest :: "nix_query \<Rightarrow> ydoc \<Rightarrow> error + suggestion list" where
  "Suggest query doc =
     (let services = (case as_map (map_of doc ''services'') of None \<Rightarrow> [] | Some m \<Rightarrow> m)
      in case fold (suggest_step services) (sorted_keys services) ([], []) of
           (ordered, wanted) \<Rightarrow>
             (case Lookup query wanted of
                Inl e \<Rightarrow> Inl e
              | Inr found \<Rightarrow> Inr (map (resolve_suggestion found) ordered)))"

lemma cut_last_skip: "c \<notin> set s \<Longrightarrow> cut_last c (p @ s) = map_option (\<lambda>(a, b). (a, b @ s)) (cut_last c p)"
proof (cases "cut_last c p")
  case None
  moreover assume "c \<notin> set s"
  ultimately have "cut_last c (p @ s) = None" by (simp add: cut_last_None)
  with None show ?thesis by simp
qed (auto simp: cut_last_Some)

lemma strip_digest_plain:
  assumes "CHR 0x40 \<notin> set x" and "digest = '''' \<or> hd digest = CHR 0x40"
  shows "strip_digest (x @ digest) = x"
proof (cases digest)
  case Nil
  then show ?thesis using assms(1) by (simp add: strip_digest_def cut_char_None [THEN iffD2])
next
  case (Cons c d)
  then have "cut_char (CHR 0x40) (x @ digest) = Some (x, d)" using assms by (simp add: cut_char_Some)
  then show ?thesis by (simp add: strip_digest_def)
qed

text \<open>The parts of a reference: whatever registry and organisation stand before a name, and whatever tag
  and digest after it, the name is the first candidate and the tag is found.\<close>

theorem ImageCandidates_parts:
  assumes name: "name \<noteq> ''''" "set name \<inter> {CHR ''/'', CHR '':'', CHR 0x40} = {}"
    and tag: "set tag \<inter> {CHR ''/'', CHR '':'', CHR 0x40} = {}"
    and path: "path = '''' \<or> last path = CHR ''/''" "CHR 0x40 \<notin> set path"
    and digest: "digest = '''' \<or> hd digest = CHR 0x40"
  shows "hd (ImageCandidates (path @ name @ '':'' @ tag @ digest)) = name \<and>
     tagOf (path @ name @ '':'' @ tag @ digest) = tag \<and>
     hd (ImageCandidates (path @ name @ digest)) = name \<and> tagOf (path @ name @ digest) = ''''"
proof -
  have d1: "strip_digest (path @ name @ '':'' @ tag @ digest) = path @ name @ '':'' @ tag"
    using strip_digest_plain [OF _ digest, of "path @ name @ '':'' @ tag"] name tag path(2) by auto
  have d2: "strip_digest (path @ name @ digest) = path @ name"
    using strip_digest_plain [OF _ digest, of "path @ name"] name path(2) by auto
  have c1: "cut_last (CHR '':'') (path @ name @ '':'' @ tag) = Some (path @ name, tag)"
    using tag by (auto simp: cut_last_Some)
  obtain p where p: "path = '''' \<or> path = p @ ''/''"
    using path(1) append_butlast_last_id [of path] by metis
  have c2: "CHR ''/'' \<in> set b" if "cut_last (CHR '':'') (path @ name) = Some (a, b)" for a b
  proof -
    have "CHR '':'' \<notin> set name" "CHR '':'' \<notin> set (''/'' @ name)" using name(2) by auto
    from p cut_last_skip [OF this(1), of path] cut_last_skip [OF this(2), of p] that show ?thesis
      by (auto simp: cut_last_def)
  qed
  have last: "(case cut_last (CHR ''/'') (path @ name) of None \<Rightarrow> path @ name | Some (_, b) \<Rightarrow> b) = name"
  proof -
    have s: "CHR ''/'' \<notin> set name" using name(2) by auto
    from p show ?thesis
    proof
      assume "path = ''''"
      then show ?thesis using s by (simp add: cut_last_None [THEN iffD2])
    next
      assume "path = p @ ''/''"
      then have "cut_last (CHR ''/'') (path @ name) = Some (p, name)" using s by (simp add: cut_last_Some)
      then show ?thesis by simp
    qed
  qed
  have t: "CHR ''/'' \<notin> set tag" using tag by auto
  have n1: "image_name (path @ name @ '':'' @ tag @ digest) = name"
    unfolding image_name_def Let_def d1 c1 option.case prod.case if_not_P [OF t] by (rule last)
  have n2: "image_name (path @ name @ digest) = name"
    unfolding image_name_def d2 using c2 last by (auto simp: Let_def split: option.splits)
  have "tagOf (path @ name @ '':'' @ tag @ digest) = tag" unfolding tagOf_def d1 using c1 t by simp
  moreover have "tagOf (path @ name @ digest) = ''''"
    unfolding tagOf_def d2 using c2 by (auto split: option.splits)
  moreover have "hd (ImageCandidates (path @ name @ '':'' @ tag @ digest)) = name" "hd (ImageCandidates (path @ name @ digest)) = name"
    unfolding ImageCandidates_def n1 n2 by (simp_all add: Let_def name(1))
  ultimately show ?thesis by blast
qed

lemma ImageCandidates_parts_witness:
  "hd (ImageCandidates ''r:5000/o/postgres:16'') = ''postgres'' \<and> tagOf ''r:5000/o/postgres:16'' = ''16''"
  using ImageCandidates_parts [of "''postgres''" "''16''" "''r:5000/o/''" "''''"] by simp

text \<open>The reference: every service with an image, on its own, gets the first of its candidates that exists.\<close>

definition image_service :: "ydoc \<Rightarrow> string \<Rightarrow> (string \<times> string) list" where
  "image_service services name =
     (case as_map (map_of services name) of
        None \<Rightarrow> []
      | Some svc \<Rightarrow>
          (case as_str (map_of svc ''image'') of None \<Rightarrow> [] | Some img \<Rightarrow> if img = '''' then [] else [(name, img)]))"

definition image_services :: "ydoc \<Rightarrow> (string \<times> string) list" where
  "image_services services = concat (map (image_service services) (sorted_keys services))"

definition suggestion_for :: "(string \<Rightarrow> package_info option) \<Rightarrow> string \<times> string \<Rightarrow> suggestion" where
  "suggestion_for answer = (\<lambda>(name, img).
     case find (\<lambda>c. answer c \<noteq> None) (ImageCandidates img) of
       None \<Rightarrow> new_suggestion name img
     | Some c \<Rightarrow> \<lparr>sgService = name, sgImage = img, sgAttr = c, sgVersion = piVersion (the (answer c)),
         sgMainProg = piMainProgram (the (answer c)), sgTagMajor = majorOf (tagOf img),
         sgPkgMajor = majorOf (piVersion (the (answer c)))\<rparr>)"

lemma set_add_wanted: "set (fold add_wanted cs wanted) = set cs \<union> set wanted"
  by (induction cs arbitrary: wanted) (auto simp: add_wanted_def)

lemma suggest_steps:
  "\<exists>wanted'. fold (suggest_step services) names (ordered, wanted) =
     (ordered @ map (\<lambda>(n, img). new_suggestion n img) (concat (map (image_service services) names)), wanted') \<and>
     set wanted' = set wanted \<union> (\<Union>(n, img) \<in> set (concat (map (image_service services) names)). set (ImageCandidates img))"
proof (induction names arbitrary: ordered wanted)
  case (Cons name names)
  obtain o1 w1 where s: "suggest_step services name (ordered, wanted) = (o1, w1)" by fastforce
  have one: "o1 = ordered @ map (\<lambda>(n, img). new_suggestion n img) (image_service services name)"
    "set w1 = set wanted \<union> (\<Union>(n, img) \<in> set (image_service services name). set (ImageCandidates img))"
    using s by (auto simp: suggest_step_def image_service_def set_add_wanted split: option.splits if_splits)
  obtain w2 where "fold (suggest_step services) names (o1, w1) =
      (o1 @ map (\<lambda>(n, img). new_suggestion n img) (concat (map (image_service services) names)), w2)"
    "set w2 = set w1 \<union> (\<Union>(n, img) \<in> set (concat (map (image_service services) names)). set (ImageCandidates img))"
    using Cons.IH [of o1 w1] by (elim exE conjE) (rule that)
  then show ?case by (intro exI [of _ w2]) (simp add: s one Un_assoc)
qed simp

lemma Lookup_found:
  assumes "Lookup (\<lambda>names. Inr (map (\<lambda>n. (n, answer n)) names)) wanted = Inr found"
  shows "map_of found c = (if c \<in> set wanted then answer c else None)"
proof -
  have "found = concat (map (\<lambda>n. case answer n of None \<Rightarrow> [] | Some i \<Rightarrow> [(n, i)]) wanted)"
    using assms by (auto simp: Lookup_def comp_def split: if_splits)
  moreover have "map_of (concat (map (\<lambda>n. case answer n of None \<Rightarrow> [] | Some i \<Rightarrow> [(n, i)]) ns)) c =
      (if c \<in> set ns then answer c else None)" for ns
    by (induction ns) (auto split: option.splits)
  ultimately show ?thesis by simp
qed

text \<open>Asking for all candidates in one evaluation answers as asking for each service alone: the suggestions
  are, in the order of the services, those of the services with an image, each for the first candidate
  that exists.\<close>

theorem Suggest_pointwise:
  "Suggest (\<lambda>names. Inr (map (\<lambda>n. (n, answer n)) names)) doc =
     Inr (map (suggestion_for answer) (image_services (case as_map (map_of doc ''services'') of None \<Rightarrow> [] | Some m \<Rightarrow> m)))"
proof -
  define services where "services = (case as_map (map_of doc ''services'') of None \<Rightarrow> [] | Some m \<Rightarrow> m)"
  obtain wanted where w: "fold (suggest_step services) (sorted_keys services) ([], []) =
      (map (\<lambda>(n, img). new_suggestion n img) (image_services services), wanted)"
    "set wanted = (\<Union>(n, img) \<in> set (image_services services). set (ImageCandidates img))"
    using suggest_steps [of services "sorted_keys services" "[]" "[]"] unfolding image_services_def by auto
  obtain found where f: "Lookup (\<lambda>names. Inr (map (\<lambda>n. (n, answer n)) names)) wanted = Inr found"
    by (cases "wanted = []") (simp_all add: Lookup_def)
  have "resolve_suggestion found (new_suggestion n img) = suggestion_for answer (n, img)"
    if m: "(n, img) \<in> set (image_services services)" for n img
  proof -
    have has: "gm_has found c = (answer c \<noteq> None)" "map_of found c = answer c" if "c \<in> set (ImageCandidates img)" for c
      using that m Lookup_found [OF f, of c] w(2) by (auto simp: gm_has_def simp del: gm_has_iff)
    have find: "find (\<lambda>c. gm_has found c) (ImageCandidates img) = find (\<lambda>c. answer c \<noteq> None) (ImageCandidates img)"
      using has(1) by (intro find_cong) auto
    show ?thesis
    proof (cases "find (\<lambda>c. answer c \<noteq> None) (ImageCandidates img)")
      case None
      then show ?thesis using find by (simp add: resolve_suggestion_def suggestion_for_def new_suggestion_def)
    next
      case (Some c)
      then have "c \<in> set (ImageCandidates img)" by (auto simp: find_Some_iff)
      then show ?thesis using find Some has(2) by (simp add: resolve_suggestion_def suggestion_for_def new_suggestion_def Let_def)
    qed
  qed
  then have "map (resolve_suggestion found) (map (\<lambda>(n, img). new_suggestion n img) (image_services services)) =
      map (suggestion_for answer) (image_services services)"
    by auto
  then show ?thesis using w(1) f by (simp add: Suggest_def services_def [symmetric])
qed

end
