(* ===== verification/Logs.thy ===== *)
theory Logs
  imports Go_Scanner Go_Paths Go_Time
begin

text \<open>
  Container logs (\<open>logs\<close>): parsing the lines that the runtime writes (\<open>parse.go\<close>), merging the logs of a
  project, filtering and following them (\<open>mux.go\<close>).  Times are nanoseconds; \<open>time.Parse\<close>, \<open>Time.Format\<close>, the
  clock and the files are parameters.
\<close>

record log_entry =
  leTimestamp :: int
  leStream :: string
  leIsPartial :: bool
  leMessage :: string
  leService :: string

subsection \<open>Lines\<close>

text \<open>\<open>strings.SplitN\<close> for a separator of one character.\<close>

fun splitN :: "nat \<Rightarrow> char \<Rightarrow> string \<Rightarrow> string list" where
  "splitN 0 c s = []"
| "splitN (Suc 0) c s = [s]"
| "splitN (Suc (Suc n)) c s = (case cut_char c s of None \<Rightarrow> [s] | Some (a, b) \<Rightarrow> a # splitN (Suc n) c b)"

text \<open>The error of a line is the line itself.\<close>

definition ParseLine :: "(string \<Rightarrow> int option) \<Rightarrow> string \<Rightarrow> string + log_entry" where
  "ParseLine ptime line =
     (case splitN 4 (CHR '' '') line of
        t # stream # tag # msgs \<Rightarrow>
          (case ptime t of
             None \<Rightarrow> Inl line
           | Some ts \<Rightarrow> Inr \<lparr>leTimestamp = ts, leStream = stream, leIsPartial = (tag = ''P''),
               leMessage = (case msgs of [] \<Rightarrow> '''' | msg # _ \<Rightarrow> msg), leService = ''''\<rparr>)
      | _ \<Rightarrow> Inl line)"

definition ReadEntries :: "(string \<Rightarrow> int option) \<Rightarrow> string \<Rightarrow> log_entry list" where
  "ReadEntries ptime r =
     concat (map (\<lambda>line. case ParseLine ptime line of Inl _ \<Rightarrow> [] | Inr entry \<Rightarrow> [entry]) (fst (scan_lines r)))"

definition FilterSince :: "log_entry list \<Rightarrow> int \<Rightarrow> log_entry list" where
  "FilterSince entries since = filter (\<lambda>e. \<not> leTimestamp e < since) entries"

definition TailEntries :: "log_entry list \<Rightarrow> int \<Rightarrow> log_entry list" where
  "TailEntries entries n =
     (if n \<le> 0 \<or> n \<ge> int (length entries) then entries else drop (length entries - nat n) entries)"

fun join_loop :: "log_entry list \<Rightarrow> log_entry list \<Rightarrow> string \<Rightarrow> log_entry \<Rightarrow> bool \<Rightarrow> log_entry list" where
  "join_loop [] result buf first inPartial = (if inPartial then result @ [first\<lparr>leMessage := buf\<rparr>] else result)"
| "join_loop (e # es) result buf first inPartial =
     (if leIsPartial e then
        (if \<not> inPartial then join_loop es result (leMessage e) e True
         else join_loop es result (buf @ leMessage e) first True)
      else if inPartial then
        join_loop es (result @ [first\<lparr>leMessage := buf @ leMessage e, leIsPartial := False\<rparr>]) (buf @ leMessage e)
          (first\<lparr>leMessage := buf @ leMessage e, leIsPartial := False\<rparr>) False
      else join_loop es (result @ [e]) buf first False)"

definition zero_entry :: log_entry where
  "zero_entry = \<lparr>leTimestamp = 0, leStream = '''', leIsPartial = False, leMessage = '''', leService = ''''\<rparr>"

definition JoinPartials :: "log_entry list \<Rightarrow> log_entry list" where
  "JoinPartials entries = join_loop entries [] '''' zero_entry False"

subsection \<open>Collecting\<close>

record log_options =
  loTimestamps :: bool
  loNoLogPrefix :: bool
  loTail :: string
  loSince :: string

definition LogFilePath :: "string \<Rightarrow> string \<Rightarrow> string \<Rightarrow> string" where
  "LogFilePath base project svc =
     (case dropWhile (\<lambda>p. p = '''') [base, project, svc, ''0.log''] of
        [] \<Rightarrow> '''' | ps \<Rightarrow> filepath_Clean (join_with ''/'' ps))"

datatype open_error = NotExist | OpenError error

definition with_service :: "string \<Rightarrow> log_entry list \<Rightarrow> log_entry list" where
  "with_service svc entries = map (\<lambda>e. e\<lparr>leService := svc\<rparr>) entries"

definition readServiceLog :: "(string \<Rightarrow> int option) \<Rightarrow> (string \<Rightarrow> open_error + string) \<Rightarrow> string \<Rightarrow> string \<Rightarrow> string \<Rightarrow>
    open_error + log_entry list" where
  "readServiceLog ptime open_file base project svc =
     (case open_file (LogFilePath base project svc) of Inl e \<Rightarrow> Inl e | Inr f \<Rightarrow> Inr (ReadEntries ptime f))"

text \<open>The entries of all services one after the other, and the services a warning is given for.\<close>

fun collect_all :: "(string \<Rightarrow> int option) \<Rightarrow> (string \<Rightarrow> open_error + string) \<Rightarrow> string \<Rightarrow> string \<Rightarrow> string list \<Rightarrow>
    log_entry list \<times> string list" where
  "collect_all ptime open_file base project [] = ([], [])"
| "collect_all ptime open_file base project (svc # svcs) =
     (case collect_all ptime open_file base project svcs of (es, ws) \<Rightarrow>
       (case readServiceLog ptime open_file base project svc of
          Inl NotExist \<Rightarrow> (es, ws)
        | Inl (OpenError e) \<Rightarrow> (es, svc # ws)
        | Inr entries \<Rightarrow> (with_service svc entries @ es, ws)))"

definition collectEntries :: "(string \<Rightarrow> int option) \<Rightarrow> (string \<Rightarrow> open_error + string) \<Rightarrow> string \<Rightarrow> string \<Rightarrow> string list \<Rightarrow>
    log_entry list \<times> string list" where
  "collectEntries ptime open_file base project services =
     (case collect_all ptime open_file base project services of
        (all, warnings) \<Rightarrow> (sort_key leTimestamp (JoinPartials all), warnings))"

definition parseTail :: "string \<Rightarrow> error + int" where
  "parseTail s =
     (if s = '''' \<or> s = ''all'' then Inr (- 1)
      else case parse_int 64 s of
        None \<Rightarrow> Inl (Err ''must be a number or all'')
      | Some n \<Rightarrow> if n < 0 then Inl (Err ''must be non-negative'') else Inr n)"

text \<open>\<open>since_time\<close> is \<open>time.Parse\<close> with the layout RFC3339, \<open>zero_time\<close> the zero value of \<open>time.Time\<close>.\<close>

record log_clock =
  lcNow :: int
  lcZero :: int
  lcParse :: "string \<Rightarrow> int option"
  lcFormat :: "int \<Rightarrow> string"

definition parseSince :: "log_clock \<Rightarrow> string \<Rightarrow> error + int" where
  "parseSince clock s =
     (if s = '''' then Inr (lcZero clock)
      else case lcParse clock s of
        Some t \<Rightarrow> Inr t
      | None \<Rightarrow>
          (case ParseDuration s of
             None \<Rightarrow> Inl (Err (''cannot parse as timestamp or duration: '' @ s))
           | Some d \<Rightarrow> Inr (lcNow clock + wrap64 (- d))))"

definition applyFilters :: "log_clock \<Rightarrow> log_options \<Rightarrow> log_entry list \<Rightarrow> error + log_entry list" where
  "applyFilters clock opts entries =
     (case (if loSince opts \<noteq> '''' then
              (case parseSince clock (loSince opts) of Inl e \<Rightarrow> Inl e | Inr since \<Rightarrow> Inr (FilterSince entries since))
            else Inr entries) of
        Inl e \<Rightarrow> Inl e
      | Inr entries' \<Rightarrow>
          if loTail opts \<noteq> '''' then
            (case parseTail (loTail opts) of
               Inl e \<Rightarrow> Inl e | Inr n \<Rightarrow> Inr (if n > 0 then TailEntries entries' n else entries'))
          else Inr entries')"

text \<open>The error of the filters is discarded, and with it all entries.\<close>

definition CollectAndFilter :: "(string \<Rightarrow> int option) \<Rightarrow> log_clock \<Rightarrow> (string \<Rightarrow> open_error + string) \<Rightarrow> string \<Rightarrow> string \<Rightarrow>
    string list \<Rightarrow> log_options \<Rightarrow> log_entry list" where
  "CollectAndFilter ptime clock open_file base project services opts =
     (case applyFilters clock opts (fst (collectEntries ptime open_file base project services)) of
        Inl e \<Rightarrow> [] | Inr filtered \<Rightarrow> filtered)"

subsection \<open>Printing\<close>

definition colors :: "string list" where
  "colors = map (\<lambda>n. [CHR 0x1B] @ ''['' @ n @ ''m'') [''36'', ''33'', ''32'', ''35'', ''34'', ''31'']"

definition colorReset :: string where
  "colorReset = [CHR 0x1B] @ ''[0m''"

definition buildColorMap :: "string list \<Rightarrow> string gomap" where
  "buildColorMap services =
     fold (\<lambda>(i, svc). gm_put svc (colors ! (i mod length colors))) (zip [0..<length services] services) []"

definition formatEntry :: "log_clock \<Rightarrow> log_options \<Rightarrow> string gomap \<Rightarrow> log_entry \<Rightarrow> string" where
  "formatEntry clock opts colorMap e =
     (if \<not> loNoLogPrefix opts \<and> leService e \<noteq> '''' then
        gm_get '''' colorMap (leService e) @ leService e @ colorReset @ '' | '' else '''') @
     (if loTimestamps opts then lcFormat clock (leTimestamp e) @ '' '' else '''') @ leMessage e @ [newline]"

text \<open>\<open>out\<close> is the writer: the result of one more write after the ones before.\<close>

fun write_entries :: "(string list \<Rightarrow> string \<Rightarrow> error option) \<Rightarrow> string list \<Rightarrow> string list \<Rightarrow> error option \<times> string list" where
  "write_entries out written [] = (None, written)"
| "write_entries out written (s # ss) =
     (case out written s of Some e \<Rightarrow> (Some e, written) | None \<Rightarrow> write_entries out (written @ [s]) ss)"

definition Dump :: "(string \<Rightarrow> int option) \<Rightarrow> log_clock \<Rightarrow> (string \<Rightarrow> open_error + string) \<Rightarrow>
    (string list \<Rightarrow> string \<Rightarrow> error option) \<Rightarrow> string \<Rightarrow> string \<Rightarrow> string list \<Rightarrow> log_options \<Rightarrow> error option \<times> string list" where
  "Dump ptime clock open_file out base project services opts =
     (let services' = sort_strings services;
          colorMap = buildColorMap services';
          all = fst (collectEntries ptime open_file base project services')
      in case applyFilters clock opts all of
           Inl e \<Rightarrow> (Some e, [])
         | Inr entries \<Rightarrow> write_entries out [] (map (formatEntry clock opts colorMap) entries))"

subsection \<open>Following\<close>

text \<open>What a poll sees of an open file: its size, and its content when it is read a moment later.\<close>

record file_view =
  fvSize :: nat
  fvData :: string

type_synonym log_files = "string \<Rightarrow> file_view option"

definition initial_offsets :: "log_files \<Rightarrow> string \<Rightarrow> string \<Rightarrow> string list \<Rightarrow> nat gomap" where
  "initial_offsets files base project services =
     fold (\<lambda>svc. gm_put svc (case files (LogFilePath base project svc) of None \<Rightarrow> 0 | Some v \<Rightarrow> fvSize v)) services []"

definition pollServiceEntries :: "(string \<Rightarrow> int option) \<Rightarrow> log_files \<Rightarrow> string \<Rightarrow> string \<Rightarrow> string \<Rightarrow> nat gomap \<Rightarrow>
    log_entry list \<times> nat gomap" where
  "pollServiceEntries ptime files base project svc offsets =
     (case files (LogFilePath base project svc) of
        None \<Rightarrow> ([], offsets)
      | Some f \<Rightarrow>
          (let offset = gm_get 0 offsets svc
           in if fvSize f \<le> offset then ([], offsets)
              else (with_service svc (JoinPartials (ReadEntries ptime (drop offset (fvData f)))),
                gm_put svc (fvSize f) offsets)))"

text \<open>One tick: the services in turn, until an \<open>emit\<close> fails.  \<open>emit\<close> sees the entries emitted before.\<close>

fun emit_entries :: "(log_entry list \<Rightarrow> log_entry \<Rightarrow> error option) \<Rightarrow> log_entry list \<Rightarrow> log_entry list \<Rightarrow>
    error option \<times> log_entry list" where
  "emit_entries emit emitted [] = (None, emitted)"
| "emit_entries emit emitted (e # es) =
     (case emit emitted e of Some err \<Rightarrow> (Some err, emitted) | None \<Rightarrow> emit_entries emit (emitted @ [e]) es)"

fun follow_tick :: "(string \<Rightarrow> int option) \<Rightarrow> (log_entry list \<Rightarrow> log_entry \<Rightarrow> error option) \<Rightarrow> log_files \<Rightarrow> string \<Rightarrow> string \<Rightarrow>
    string list \<Rightarrow> nat gomap \<times> log_entry list \<Rightarrow> error option \<times> nat gomap \<times> log_entry list" where
  "follow_tick ptime emit files base project [] st = (None, st)"
| "follow_tick ptime emit files base project (svc # svcs) (offsets, emitted) =
     (case pollServiceEntries ptime files base project svc offsets of
        (entries, offsets') \<Rightarrow>
          (case emit_entries emit emitted entries of
             (Some err, emitted') \<Rightarrow> (Some err, offsets', emitted')
           | (None, emitted') \<Rightarrow> follow_tick ptime emit files base project svcs (offsets', emitted')))"

fun follow_ticks :: "(string \<Rightarrow> int option) \<Rightarrow> (log_entry list \<Rightarrow> log_entry \<Rightarrow> error option) \<Rightarrow> log_files list \<Rightarrow> string \<Rightarrow>
    string \<Rightarrow> string list \<Rightarrow> nat gomap \<times> log_entry list \<Rightarrow> error option \<times> log_entry list" where
  "follow_ticks ptime emit [] base project services (offsets, emitted) = (None, emitted)"
| "follow_ticks ptime emit (files # rest) base project services (offsets, emitted) =
     (case follow_tick ptime emit files base project services (offsets, emitted) of
        (Some err, _, emitted') \<Rightarrow> (Some err, emitted')
      | (None, st) \<Rightarrow> follow_ticks ptime emit rest base project services st)"

text \<open>\<open>FollowStream\<close> over the files as they are at the start and at each tick before the context is done.\<close>

definition FollowStream :: "(string \<Rightarrow> int option) \<Rightarrow> (log_entry list \<Rightarrow> log_entry \<Rightarrow> error option) \<Rightarrow> log_files \<Rightarrow> log_files list \<Rightarrow>
    string \<Rightarrow> string \<Rightarrow> string list \<Rightarrow> error option \<times> log_entry list" where
  "FollowStream ptime emit start ticks base project services =
     (let services' = sort_strings services
      in follow_ticks ptime emit ticks base project services' (initial_offsets start base project services', []))"

text \<open>\<open>pollService\<close> prints what it finds and ignores the errors of the writer; its result are the lines that
  are handed to the writer.\<close>

definition pollService :: "(string \<Rightarrow> int option) \<Rightarrow> log_clock \<Rightarrow> log_files \<Rightarrow> string \<Rightarrow> string \<Rightarrow> string \<Rightarrow> nat gomap \<Rightarrow>
    string gomap \<Rightarrow> log_options \<Rightarrow> string list \<times> nat gomap" where
  "pollService ptime clock files base project svc offsets colorMap opts =
     (case files (LogFilePath base project svc) of
        None \<Rightarrow> ([], offsets)
      | Some f \<Rightarrow>
          (let offset = gm_get 0 offsets svc
           in if fvSize f \<le> offset then ([], offsets)
              else (map (\<lambda>e. formatEntry clock opts colorMap (e\<lparr>leService := svc\<rparr>))
                  (JoinPartials (ReadEntries ptime (drop offset (fvData f)))),
                gm_put svc (fvSize f) offsets)))"

fun poll_services :: "(string \<Rightarrow> int option) \<Rightarrow> log_clock \<Rightarrow> log_files \<Rightarrow> string \<Rightarrow> string \<Rightarrow> string list \<Rightarrow> nat gomap \<Rightarrow>
    string gomap \<Rightarrow> log_options \<Rightarrow> string list \<times> nat gomap" where
  "poll_services ptime clock files base project [] offsets colorMap opts = ([], offsets)"
| "poll_services ptime clock files base project (svc # svcs) offsets colorMap opts =
     (case pollService ptime clock files base project svc offsets colorMap opts of
        (ls, offsets') \<Rightarrow>
          (case poll_services ptime clock files base project svcs offsets' colorMap opts of
             (ls', offsets'') \<Rightarrow> (ls @ ls', offsets'')))"

fun poll_ticks :: "(string \<Rightarrow> int option) \<Rightarrow> log_clock \<Rightarrow> log_files list \<Rightarrow> string \<Rightarrow> string \<Rightarrow> string list \<Rightarrow> nat gomap \<Rightarrow>
    string gomap \<Rightarrow> log_options \<Rightarrow> string list" where
  "poll_ticks ptime clock [] base project services offsets colorMap opts = []"
| "poll_ticks ptime clock (files # rest) base project services offsets colorMap opts =
     (case poll_services ptime clock files base project services offsets colorMap opts of
        (ls, offsets') \<Rightarrow> ls @ poll_ticks ptime clock rest base project services offsets' colorMap opts)"

definition Follow :: "(string \<Rightarrow> int option) \<Rightarrow> log_clock \<Rightarrow> (string \<Rightarrow> open_error + string) \<Rightarrow>
    (string list \<Rightarrow> string \<Rightarrow> error option) \<Rightarrow> log_files \<Rightarrow> log_files list \<Rightarrow> string \<Rightarrow> string \<Rightarrow> string list \<Rightarrow> log_options \<Rightarrow>
    error option \<times> string list" where
  "Follow ptime clock open_file out start ticks base project services opts =
     (case Dump ptime clock open_file out base project services opts of
        (Some e, written) \<Rightarrow> (Some e, written)
      | (None, written) \<Rightarrow>
          (let services' = sort_strings services
           in (None, written @ poll_ticks ptime clock ticks base project services'
             (initial_offsets start base project services') (buildColorMap services') opts)))"

text \<open>The terminal shows what the stream emits, line by line.\<close>

lemma pollService_entries:
  "pollService ptime clock files base project svc offsets colorMap opts =
     (case pollServiceEntries ptime files base project svc offsets of
        (es, offsets') \<Rightarrow> (map (formatEntry clock opts colorMap) es, offsets'))"
  by (simp add: pollService_def pollServiceEntries_def with_service_def Let_def split: option.splits)

lemma poll_services_entries:
  "\<exists>es offsets'. follow_tick ptime (\<lambda>_ _. None) files base project services (offsets, emitted) = (None, offsets', emitted @ es) \<and>
     poll_services ptime clock files base project services offsets colorMap opts =
       (map (formatEntry clock opts colorMap) es, offsets')"
proof (induction services arbitrary: offsets emitted)
  case (Cons svc services)
  have emit: "emit_entries (\<lambda>_ _. None) emitted es = (None, emitted @ es)" for es
    by (induction es arbitrary: emitted) auto
  obtain es offsets' where p: "pollServiceEntries ptime files base project svc offsets = (es, offsets')" by fastforce
  from Cons.IH [of offsets' "emitted @ es"] show ?case by (auto simp: p pollService_entries emit)
qed simp

lemma Follow_prints_stream:
  "poll_ticks ptime clock ticks base project services offsets colorMap opts =
     map (formatEntry clock opts colorMap)
       (snd (follow_ticks ptime (\<lambda>_ _. None) ticks base project services (offsets, [])))"
proof -
  have "\<exists>es. follow_ticks ptime (\<lambda>_ _. None) ticks base project services (offsets, emitted) = (None, emitted @ es) \<and>
      poll_ticks ptime clock ticks base project services offsets colorMap opts = map (formatEntry clock opts colorMap) es" for emitted
  proof (induction ticks arbitrary: offsets emitted)
    case (Cons files ticks)
    obtain es offsets' where t: "follow_tick ptime (\<lambda>_ _. None) files base project services (offsets, emitted) = (None, offsets', emitted @ es)"
      "poll_services ptime clock files base project services offsets colorMap opts = (map (formatEntry clock opts colorMap) es, offsets')"
      using poll_services_entries by blast
    from Cons.IH [of offsets' "emitted @ es"] show ?case by (auto simp: t)
  qed simp
  from this [of "[]"] show ?thesis by auto
qed

subsection \<open>Joining\<close>

text \<open>The reference: a log is a sequence of groups, each a run of partial lines and the full line that ends it;
  a group is one message.\<close>

fun segments :: "log_entry list \<Rightarrow> log_entry list list" where
  "segments [] = []"
| "segments (e # es) =
     (if \<not> leIsPartial e then [e] # segments es
      else case segments es of [] \<Rightarrow> [[e]] | g # gs \<Rightarrow> (e # g) # gs)"

definition join_group :: "log_entry list \<Rightarrow> log_entry" where
  "join_group g = (hd g)\<lparr>leMessage := concat (map leMessage g), leIsPartial := leIsPartial (last g)\<rparr>"

lemma segments_concat: "concat (segments es) = es"
  by (induction es rule: segments.induct) (auto split: list.splits)

lemma segments_groups: "g \<in> set (segments es) \<Longrightarrow> g \<noteq> [] \<and> (\<forall>e \<in> set (butlast g). leIsPartial e)"
proof (induction es arbitrary: g)
  case (Cons e es)
  show ?case
  proof (cases "leIsPartial e \<and> segments es \<noteq> []")
    case True
    then obtain h gs where h: "segments es = h # gs" by (cases "segments es") auto
    with True Cons.prems have "g = e # h \<or> g \<in> set gs" by auto
    with Cons.IH [of h] Cons.IH [of g] h True show ?thesis by auto
  next
    case False
    with Cons.prems Cons.IH [of g] show ?thesis by (auto split: if_splits)
  qed
qed simp

lemma segments_Nil [simp]: "segments es = [] \<longleftrightarrow> es = []"
  by (cases es) (auto split: list.splits)

lemma segments_append:
  assumes "xs = [] \<or> \<not> leIsPartial (last xs)"
  shows "segments (xs @ ys) = segments xs @ segments ys"
  using assms
proof (induction xs)
  case (Cons x xs)
  show ?case
  proof (cases "xs = []")
    case True
    with Cons.prems show ?thesis by simp
  next
    case False
    then show ?thesis using Cons by (cases "segments xs") (auto split: list.splits)
  qed
qed simp

lemma join_loop_spec:
  "join_loop es result buf first inPartial = result @
     (if \<not> inPartial then map join_group (segments es)
      else case segments es of
        [] \<Rightarrow> [first\<lparr>leMessage := buf\<rparr>]
      | g # gs \<Rightarrow> first\<lparr>leMessage := buf @ concat (map leMessage g), leIsPartial := leIsPartial (last g)\<rparr> # map join_group gs)"
  if "inPartial \<Longrightarrow> leIsPartial first"
  using that
proof (induction es result buf first inPartial rule: join_loop.induct)
  case (1 result buf first inPartial)
  then show ?case by simp
next
  case (2 e es result buf first inPartial)
  have single: "join_group [x] = x" for x by (simp add: join_group_def)
  have nonempty: "g \<noteq> []" if "segments es = g # gs" for g gs
    using segments_groups [of g es] that by simp
  show ?case
  proof (cases "leIsPartial e")
    case True
    show ?thesis
    proof (cases inPartial)
      case True
      then show ?thesis using "2.IH"(2) "2.prems" \<open>leIsPartial e\<close> nonempty
        by (cases "segments es") auto
    next
      case False
      then show ?thesis using "2.IH"(1) \<open>leIsPartial e\<close> nonempty
        by (cases "segments es") (auto simp: join_group_def)
    qed
  next
    case False
    then show ?thesis using "2.IH"(3,4) "2.prems" single by (cases inPartial) auto
  qed
qed

lemma JoinPartials_segments: "JoinPartials es = map join_group (segments es)"
  by (simp add: JoinPartials_def join_loop_spec)

lemma segments_closed: "g \<in> set (butlast (segments es)) \<Longrightarrow> \<not> leIsPartial (last g)"
proof (induction es arbitrary: g)
  case (Cons e es)
  show ?case
  proof (cases "leIsPartial e \<and> segments es \<noteq> []")
    case True
    then obtain h gs where h: "segments es = h # gs" by (cases "segments es") auto
    then have "h \<noteq> []" using segments_groups [of h es] by simp
    from True h Cons.prems have "gs \<noteq> [] \<and> (g = e # h \<or> g \<in> set (butlast gs))" by (auto split: if_splits)
    with Cons.IH [of h] Cons.IH [of g] h \<open>h \<noteq> []\<close> show ?thesis by auto
  next
    case False
    with Cons.prems Cons.IH [of g] show ?thesis by (auto split: if_splits)
  qed
qed simp

lemma JoinPartials_append:
  "xs = [] \<or> \<not> leIsPartial (last xs) \<Longrightarrow> JoinPartials (xs @ ys) = JoinPartials xs @ JoinPartials ys"
  by (simp add: JoinPartials_segments segments_append)

lemma JoinPartials_Nil [simp]: "JoinPartials [] = []"
  by (simp add: JoinPartials_segments)

lemma concat_messages: "concat (map (\<lambda>g. concat (map f g)) gs) = concat (map f (concat gs))"
  by (induction gs) auto

text \<open>Joining is exactly the reference: the entries are cut after each full line, every group becomes one
  entry with the time and stream of its first line, and no text is lost; only the last entry can be
  partial.\<close>

theorem JoinPartials_correct:
  "JoinPartials es = map join_group (segments es) \<and> concat (segments es) = es \<and>
   concat (map leMessage (JoinPartials es)) = concat (map leMessage es) \<and>
   (\<forall>g \<in> set (segments es). g \<noteq> []) \<and> (\<forall>g \<in> set (segments es). \<forall>e \<in> set (butlast g). leIsPartial e) \<and>
   (\<forall>e \<in> set (butlast (JoinPartials es)). \<not> leIsPartial e)"
proof -
  have "concat (map leMessage (map join_group (segments es))) = concat (map leMessage (concat (segments es)))"
    by (simp add: comp_def join_group_def flip: concat_messages)
  then have "concat (map leMessage (JoinPartials es)) = concat (map leMessage es)"
    unfolding JoinPartials_segments segments_concat .
  moreover have "\<forall>e \<in> set (butlast (JoinPartials es)). \<not> leIsPartial e"
    unfolding JoinPartials_segments map_butlast [symmetric] using segments_closed by (fastforce simp: join_group_def)
  ultimately show ?thesis using segments_groups segments_concat JoinPartials_segments by blast
qed

definition log_example :: "log_entry list" where
  "log_example = [\<lparr>leTimestamp = 1, leStream = ''stdout'', leIsPartial = True, leMessage = ''he'', leService = ''''\<rparr>,
     \<lparr>leTimestamp = 2, leStream = ''stdout'', leIsPartial = False, leMessage = ''llo'', leService = ''''\<rparr>]"

lemma JoinPartials_correct_witness:
  "JoinPartials log_example = [\<lparr>leTimestamp = 1, leStream = ''stdout'', leIsPartial = False, leMessage = ''hello'', leService = ''''\<rparr>]"
  using JoinPartials_correct [of log_example] by (simp add: log_example_def join_group_def)

text \<open>The stream of an entry is not looked at: the two streams of a container are joined with each other.\<close>

lemma join_mixes_streams:
  "map leMessage (JoinPartials
     [\<lparr>leTimestamp = 1, leStream = ''stdout'', leIsPartial = True, leMessage = ''out'', leService = ''''\<rparr>,
      \<lparr>leTimestamp = 2, leStream = ''stderr'', leIsPartial = False, leMessage = ''err'', leService = ''''\<rparr>]) = [''outerr'']"
  by code_simp

subsection \<open>The logs of a project\<close>

text \<open>A log that ends with a full line, or has none.\<close>

definition closed_log :: "log_entry list \<Rightarrow> bool" where
  "closed_log es \<longleftrightarrow> es = [] \<or> \<not> leIsPartial (last es)"

definition entries_of :: "(string \<Rightarrow> int option) \<Rightarrow> (string \<Rightarrow> open_error + string) \<Rightarrow> string \<Rightarrow> string \<Rightarrow> string \<Rightarrow> log_entry list" where
  "entries_of ptime open_file base project svc =
     (case readServiceLog ptime open_file base project svc of Inl _ \<Rightarrow> [] | Inr es \<Rightarrow> es)"

lemma segments_map:
  assumes "\<And>e. leIsPartial (f e) = leIsPartial e"
  shows "segments (map f es) = map (map f) (segments es)"
  by (induction es) (auto simp: assms split: list.splits)

lemma join_with_service: "JoinPartials (with_service svc es) = with_service svc (JoinPartials es)"
proof -
  have "join_group (map (\<lambda>e. e\<lparr>leService := svc\<rparr>) g) = (join_group g)\<lparr>leService := svc\<rparr>" if "g \<in> set (segments es)" for g
    using segments_groups [OF that] by (cases g) (auto simp: join_group_def comp_def last_map)
  moreover have "segments (map (\<lambda>e. e\<lparr>leService := svc\<rparr>) es) = map (map (\<lambda>e. e\<lparr>leService := svc\<rparr>)) (segments es)"
    by (rule segments_map) simp
  ultimately show ?thesis by (simp add: JoinPartials_segments with_service_def)
qed

lemma closed_append: "closed_log xs \<Longrightarrow> JoinPartials (xs @ ys) = JoinPartials xs @ JoinPartials ys"
  by (simp add: closed_log_def JoinPartials_append)

lemma closed_with_service [simp]: "closed_log (with_service svc es) = closed_log es"
  by (cases "es = []") (simp_all add: closed_log_def with_service_def last_map)

lemma collect_all_entries:
  "fst (collect_all ptime open_file base project services) =
     concat (map (\<lambda>svc. with_service svc (entries_of ptime open_file base project svc)) services)"
  by (induction services) (auto simp: entries_of_def with_service_def split: prod.splits sum.splits open_error.splits)

lemma collect_all_join:
  assumes "list_all (\<lambda>svc. closed_log (entries_of ptime open_file base project svc)) services"
  shows "JoinPartials (fst (collect_all ptime open_file base project services)) =
    concat (map (\<lambda>svc. with_service svc (JoinPartials (entries_of ptime open_file base project svc))) services)"
  unfolding collect_all_entries using assms
  by (induction services) (simp_all add: closed_append join_with_service)

text \<open>C27: The logs of a project are merged by time: the result holds the joined messages of the logs read one after the
  other, it is sorted by time, and messages with the same time keep the order in which they were read.  When every
  log ends with a full entry or has none, these are exactly the messages of each service joined on its own.\<close>

theorem collectEntries_merges:
  "let entries = \<lambda>svc. entries_of ptime open_file base project svc;
       joined = JoinPartials (concat (map (\<lambda>svc. with_service svc (entries svc)) services));
       res = fst (collectEntries ptime open_file base project services)
   in mset res = mset joined \<and> sorted (map leTimestamp res) \<and>
     (\<forall>t. filter (\<lambda>e. leTimestamp e = t) res = filter (\<lambda>e. leTimestamp e = t) joined) \<and>
     ((\<forall>svc \<in> set services. entries svc = [] \<or> \<not> leIsPartial (last (entries svc))) \<longrightarrow>
       joined = concat (map (\<lambda>svc. with_service svc (JoinPartials (entries svc))) services))"
proof -
  let ?all = "concat (map (\<lambda>svc. with_service svc (entries_of ptime open_file base project svc)) services)"
  have all: "fst (collect_all ptime open_file base project services) = ?all" by (rule collect_all_entries)
  then have "fst (collectEntries ptime open_file base project services) = sort_key leTimestamp (JoinPartials ?all)"
    by (cases "collect_all ptime open_file base project services") (simp add: collectEntries_def)
  moreover have "JoinPartials ?all = concat (map (\<lambda>svc. with_service svc (JoinPartials (entries_of ptime open_file base project svc))) services)"
    if "\<forall>svc \<in> set services. entries_of ptime open_file base project svc = [] \<or> \<not> leIsPartial (last (entries_of ptime open_file base project svc))"
    using collect_all_join [of ptime open_file base project services] that unfolding all by (simp add: list_all_iff closed_log_def)
  ultimately show ?thesis by (simp add: Let_def sort_key_stable)
qed
text \<open>A file system with one log, and two services of which one has written half a line.\<close>

definition log_fs :: "(string \<times> string) list \<Rightarrow> string \<Rightarrow> open_error + string" where
  "log_fs files path = (case map_of files path of None \<Rightarrow> Inl NotExist | Some c \<Rightarrow> Inr c)"

definition one_time :: "string \<Rightarrow> int option" where
  "one_time s = (if s = ''t1'' then Some 1 else if s = ''t2'' then Some 2 else None)"

lemma collectEntries_merges_witness:
  "let fs = log_fs [(''/l/p/a/0.log'', ''t2 stdout F x''), (''/l/p/b/0.log'', ''t1 stdout F y'')];
       res = fst (collectEntries one_time fs ''/l'' ''p'' [''a'', ''b''])
   in mset res = mset (concat (map (\<lambda>svc. with_service svc (JoinPartials (entries_of one_time fs ''/l'' ''p'' svc))) [''a'', ''b''])) \<and>
     sorted (map leTimestamp res)"
proof -
  let ?fs = "log_fs [(''/l/p/a/0.log'', ''t2 stdout F x''), (''/l/p/b/0.log'', ''t1 stdout F y'')]"
  have "list_all (\<lambda>svc. entries_of one_time ?fs ''/l'' ''p'' svc = [] \<or> \<not> leIsPartial (last (entries_of one_time ?fs ''/l'' ''p'' svc))) [''a'', ''b'']"
    by code_simp
  then have "\<forall>svc \<in> set [''a'', ''b'']. entries_of one_time ?fs ''/l'' ''p'' svc = [] \<or> \<not> leIsPartial (last (entries_of one_time ?fs ''/l'' ''p'' svc))"
    unfolding list_all_iff .
  note full = this
  note t = collectEntries_merges [where ptime = one_time and open_file = ?fs and base = "''/l''" and project = "''p''" and services = "[''a'', ''b'']",
      unfolded Let_def]
  note each = mp [OF conjunct2 [OF conjunct2 [OF conjunct2 [OF t]]] full]
  show ?thesis unfolding Let_def by (rule conjI [OF conjunct1 [OF t, unfolded each] conjunct1 [OF conjunct2 [OF t]]])
qed
text \<open>Without that, text crosses services: the unfinished line of one service swallows the next line of
  another, which disappears from the log of its own service.\<close>

lemma partial_line_swallows:
  "map (\<lambda>e. (leService e, leMessage e)) (fst (collectEntries one_time
     (log_fs [(''/l/p/a/0.log'', ''t2 stdout P x''), (''/l/p/b/0.log'', ''t1 stdout F y'')]) ''/l'' ''p'' [''a'', ''b''])) =
   [(''a'', ''xy'')]"
  by code_simp

text \<open>An invalid filter gives no entries instead of an error.\<close>

lemma CollectAndFilter_hides_errors:
  "parseTail (loTail opts) = Inl e \<Longrightarrow> loTail opts \<noteq> '''' \<Longrightarrow> loSince opts = '''' \<Longrightarrow>
   CollectAndFilter ptime clock open_file base project services opts = []"
  by (simp add: CollectAndFilter_def applyFilters_def)

subsection \<open>Following a log\<close>

text \<open>A piece of a log that holds whole messages: whole lines, none of them too long, the last of them a full entry.\<close>

definition whole_messages :: "(string \<Rightarrow> int option) \<Rightarrow> string \<Rightarrow> bool" where
  "whole_messages ptime x \<longleftrightarrow> x = '''' \<or>
     last x = newline \<and> list_all (\<lambda>l. int (length l) < maxScanTokenSize) (raw_lines x) \<and> closed_log (ReadEntries ptime x)"

lemma split_char_sep: "split_char c (a @ c # b) = split_char c a @ split_char c b"
proof (induction a)
  case (Cons x a)
  then show ?case by (cases "split_char c a") auto
qed simp

lemma raw_lines_append:
  assumes "last x = newline" and "x \<noteq> ''''"
  shows "raw_lines (x @ y) = raw_lines x @ raw_lines y"
proof -
  obtain a where a: "x = a @ [newline]" using assms append_butlast_last_id [of x] by metis
  have "split_char newline x = split_char newline a @ ['''']" using split_char_sep [of newline a "''''"] by (simp add: a)
  moreover have "split_char newline (x @ y) = split_char newline a @ split_char newline y"
    using split_char_sep [of newline a y] by (simp add: a)
  ultimately show ?thesis by (simp add: raw_lines_def Let_def butlast_append)
qed

lemma scan_from_append:
  "list_all (\<lambda>l. int (length l) < maxScanTokenSize) ls \<Longrightarrow> fst (scan_from (ls @ ms)) = map drop_cr ls @ fst (scan_from ms)"
  by (induction ls) (auto split: prod.splits)

lemma ReadEntries_append:
  assumes "whole_messages ptime x"
  shows "ReadEntries ptime (x @ y) = ReadEntries ptime x @ ReadEntries ptime y"
proof (cases "x = ''''")
  case True
  then show ?thesis by (simp add: ReadEntries_def scan_lines_def raw_lines_def)
next
  case False
  then have x: "last x = newline" "list_all (\<lambda>l. int (length l) < maxScanTokenSize) (raw_lines x)"
    using assms by (simp_all add: whole_messages_def)
  then show ?thesis
    using scan_from_append [OF x(2), of "raw_lines y"] scan_from_append [OF x(2), of "[]"] False
    by (simp add: ReadEntries_def scan_lines_def raw_lines_append)
qed

lemma whole_messages_closed: "whole_messages ptime x \<Longrightarrow> closed_log (ReadEntries ptime x)"
  by (auto simp: whole_messages_def closed_log_def ReadEntries_def scan_lines_def raw_lines_def)

text \<open>A log that is only appended to from tick to tick, and the pieces that are appended.\<close>

fun append_only :: "string \<Rightarrow> string list \<Rightarrow> bool" where
  "append_only c [] \<longleftrightarrow> True"
| "append_only c (d # ds) \<longleftrightarrow> take (length c) d = c \<and> append_only d ds"

fun appended :: "string \<Rightarrow> string list \<Rightarrow> string list" where
  "appended c [] = []"
| "appended c (d # ds) = drop (length c) d # appended d ds"

lemma append_only_last: "append_only c ds \<Longrightarrow> last (c # ds) = c @ concat (appended c ds)"
proof (induction ds arbitrary: c)
  case (Cons d ds)
  then have "d = c @ drop (length c) d" by (metis append_take_drop_id append_only.simps(2))
  with Cons show ?case by (simp del: drop_eq_Nil)
qed simp

lemma whole_messages_concat:
  "list_all (whole_messages ptime) ps \<Longrightarrow>
   JoinPartials (ReadEntries ptime (concat ps)) = concat (map (\<lambda>p. JoinPartials (ReadEntries ptime p)) ps)"
proof (induction ps)
  case Nil
  then show ?case by (simp add: ReadEntries_def scan_lines_def raw_lines_def)
qed (simp add: ReadEntries_append closed_append whole_messages_closed)
definition stable_view :: "string \<Rightarrow> file_view" where
  "stable_view c = \<lparr>fvSize = length c, fvData = c\<rparr>"

lemma emit_all [simp]: "emit_entries (\<lambda>_ _. None) emitted es = (None, emitted @ es)"
  by (induction es arbitrary: emitted) auto

text \<open>One tick: of the services, only \<open>svc\<close> contributes to the entries of \<open>svc\<close>, and only to its offset.\<close>

lemma poll_other:
  assumes "pollServiceEntries ptime files base project s offsets = (es, offsets')" and "s \<noteq> svc"
  shows "map_of offsets' svc = map_of offsets svc \<and> filter (\<lambda>e. leService e = svc) es = []"
  using assms by (auto simp: pollServiceEntries_def with_service_def Let_def split: option.splits if_splits)

lemma poll_service:
  assumes "files (LogFilePath base project svc) = Some (stable_view d)" and "gm_get 0 offsets svc = length c"
    and "take (length c) d = c"
  shows "\<exists>offsets'. pollServiceEntries ptime files base project svc offsets =
      (with_service svc (JoinPartials (ReadEntries ptime (drop (length c) d))), offsets') \<and>
    gm_get 0 offsets' svc = length d"
proof (cases "length d \<le> length c")
  case True
  have "length c \<le> length d" using assms(3) by (metis length_take min.cobounded2 min.commute)
  with True have "drop (length c) d = []" "length d = length c" by auto
  then show ?thesis using assms True
    by (simp add: pollServiceEntries_def stable_view_def ReadEntries_def scan_lines_def raw_lines_def with_service_def)
next
  case False
  then show ?thesis using assms by (simp add: pollServiceEntries_def stable_view_def gomap_simps)
qed

lemma follow_tick_service:
  assumes "files (LogFilePath base project svc) = Some (stable_view d)" and "gm_get 0 offsets svc = length c"
    and "take (length c) d = c" and "distinct services"
  shows "\<exists>offsets' es. follow_tick ptime (\<lambda>_ _. None) files base project services (offsets, emitted) = (None, offsets', emitted @ es) \<and>
     filter (\<lambda>e. leService e = svc) es =
       (if svc \<in> set services then with_service svc (JoinPartials (ReadEntries ptime (drop (length c) d))) else []) \<and>
     gm_get 0 offsets' svc = (if svc \<in> set services then length d else length c)"
  using assms(2,4)
proof (induction services arbitrary: offsets emitted)
  case (Cons s services)
  obtain es1 o1 where p: "pollServiceEntries ptime files base project s offsets = (es1, o1)" by fastforce
  show ?case
  proof (cases "s = svc")
    case True
    then have es1: "es1 = with_service svc (JoinPartials (ReadEntries ptime (drop (length c) d)))" "gm_get 0 o1 svc = length d"
      using poll_service [of files base project svc d offsets c, OF assms(1) Cons.prems(1) assms(3), of ptime] p by auto
    have rest: "\<exists>offsets' es. follow_tick ptime (\<lambda>_ _. None) files base project ss (o1, em) = (None, offsets', em @ es) \<and>
        filter (\<lambda>e. leService e = svc) es = [] \<and> map_of offsets' svc = map_of o1 svc" if "svc \<notin> set ss" for ss em
      using that
    proof (induction ss arbitrary: em o1)
      case (Cons t ts)
      obtain es2 o2 where p2: "pollServiceEntries ptime files base project t o1 = (es2, o2)" by fastforce
      from poll_other [OF p2, of svc] Cons.prems Cons.IH [of o2 "em @ es2"] show ?case by (auto simp: p2)
    qed simp
    obtain o2 es2 where r: "follow_tick ptime (\<lambda>_ _. None) files base project services (o1, emitted @ es1) = (None, o2, (emitted @ es1) @ es2)"
        "filter (\<lambda>e. leService e = svc) es2 = []" "map_of o2 svc = map_of o1 svc"
      using rest [of services "emitted @ es1"] Cons.prems(2) True by auto
    have "filter (\<lambda>e. leService e = svc) es1 = es1" by (simp add: es1(1) with_service_def filter_map comp_def)
    then show ?thesis using r p es1 True by (simp add: gm_get_def)
  next
    case False
    from poll_other [OF p False] Cons.prems(1) have o1: "gm_get 0 o1 svc = length c" "filter (\<lambda>e. leService e = svc) es1 = []"
      by (simp_all add: gm_get_def)
    from Cons.IH [OF o1(1), of "emitted @ es1"] Cons.prems(2) obtain o2 es2 where
      "follow_tick ptime (\<lambda>_ _. None) files base project services (o1, emitted @ es1) = (None, o2, (emitted @ es1) @ es2)"
      "filter (\<lambda>e. leService e = svc) es2 =
        (if svc \<in> set services then with_service svc (JoinPartials (ReadEntries ptime (drop (length c) d))) else [])"
      "gm_get 0 o2 svc = (if svc \<in> set services then length d else length c)" by auto
    then show ?thesis using p o1(2) False by simp
  qed
qed simp

lemma follow_ticks_service:
  assumes "list_all2 (\<lambda>files d. files (LogFilePath base project svc) = Some (stable_view d)) ticks ds"
    and "append_only c ds" and "gm_get 0 offsets svc = length c" and "distinct services" and "svc \<in> set services"
  shows "\<exists>es. follow_ticks ptime (\<lambda>_ _. None) ticks base project services (offsets, emitted) = (None, emitted @ es) \<and>
     filter (\<lambda>e. leService e = svc) es = with_service svc (concat (map (\<lambda>p. JoinPartials (ReadEntries ptime p)) (appended c ds)))"
  using assms(1-3)
proof (induction ticks ds arbitrary: c offsets emitted rule: list_all2_induct)
  case Nil
  then show ?case by (simp add: with_service_def)
next
  case (Cons files ticks d ds)
  have g: "take (length c) d = c" "append_only d ds" using Cons.prems(1) by auto
  obtain o1 es1 where t: "follow_tick ptime (\<lambda>_ _. None) files base project services (offsets, emitted) = (None, o1, emitted @ es1)"
      "filter (\<lambda>e. leService e = svc) es1 = with_service svc (JoinPartials (ReadEntries ptime (drop (length c) d)))"
      "gm_get 0 o1 svc = length d"
    using follow_tick_service [of files base project svc d offsets c services ptime emitted,
        OF Cons.hyps(1) Cons.prems(2) g(1) assms(4)] assms(5) by auto
  obtain es2 where r: "follow_ticks ptime (\<lambda>_ _. None) ticks base project services (o1, emitted @ es1) = (None, (emitted @ es1) @ es2)"
      "filter (\<lambda>e. leService e = svc) es2 = with_service svc (concat (map (\<lambda>p. JoinPartials (ReadEntries ptime p)) (appended d ds)))"
    using Cons.IH [OF g(2) t(3)] by blast
  then show ?case using t(1,2) by (simp add: with_service_def)
qed
lemma initial_offset:
  assumes "svc \<in> set services" and "files (LogFilePath base project svc) = Some (stable_view c)"
  shows "gm_get 0 (initial_offsets files base project services) svc = length c"
proof -
  have "gm_get 0 (fold (\<lambda>s. gm_put s (f s)) ss m) svc = (if svc \<in> set ss then f svc else gm_get 0 m svc)" for f ss and m :: "nat gomap"
    by (induction ss arbitrary: m) (auto simp: gomap_simps)
  with assms show ?thesis by (simp add: initial_offsets_def stable_view_def)
qed

text \<open>C26: Following a log that is only appended to, and whose size and content are read in one state at each tick,
  takes each appended piece once and in order: what is emitted for its service is what reading each piece by itself
  gives, whatever the logs of the other services do.  When each piece consists of whole messages, that is of whole
  lines of which the last is a full entry, nothing is missed, repeated or split: it is what reading everything that was
  appended at once gives.\<close>

theorem FollowStream_complete:
  assumes "distinct services" and "svc \<in> set services"
    and "start (LogFilePath base project svc) = Some (stable_view c)"
    and "list_all2 (\<lambda>files d. files (LogFilePath base project svc) = Some (stable_view d)) ticks ds"
    and "append_only c ds"
  shows "(case FollowStream ptime (\<lambda>_ _. None) start ticks base project services of (err, emitted) \<Rightarrow>
     err = None \<and> filter (\<lambda>e. leService e = svc) emitted =
       with_service svc (concat (map (\<lambda>p. JoinPartials (ReadEntries ptime p)) (appended c ds))) \<and>
     (list_all (whole_messages ptime) (appended c ds) \<longrightarrow> filter (\<lambda>e. leService e = svc) emitted =
       with_service svc (JoinPartials (ReadEntries ptime (drop (length c) (last (c # ds)))))))"
proof -
  have s: "svc \<in> set (sort_strings services)" "distinct (sort_strings services)" using assms(1,2) by simp_all
  obtain es where "follow_ticks ptime (\<lambda>_ _. None) ticks base project (sort_strings services)
      (initial_offsets start base project (sort_strings services), []) = (None, [] @ es)"
    "filter (\<lambda>e. leService e = svc) es = with_service svc (concat (map (\<lambda>p. JoinPartials (ReadEntries ptime p)) (appended c ds)))"
    using follow_ticks_service [OF assms(4,5) initial_offset [of svc "sort_strings services" start base project c, OF s(1) assms(3)] s(2,1), where emitted = "[]" and ptime = ptime] by blast
  moreover have "drop (length c) (last (c # ds)) = concat (appended c ds)" using append_only_last [OF assms(5)] by simp
  ultimately show ?thesis using whole_messages_concat [of ptime "appended c ds"] by (simp add: FollowStream_def)
qed
definition grown_log :: "string \<Rightarrow> log_files" where
  "grown_log c path = (if path = ''/l/p/a/0.log'' then Some (stable_view c) else None)"

definition log_text :: "nat \<Rightarrow> string" where
  "log_text n = concat (take n [''t1 stdout F x'' @ [newline], ''t1 stdout P y'' @ [newline] @ ''t2 stdout F z'' @ [newline]])"

lemma FollowStream_complete_witness:
  "filter (\<lambda>e. leService e = ''a'') (snd (FollowStream one_time (\<lambda>_ _. None) (grown_log (log_text 0))
     [grown_log (log_text 1), grown_log (log_text 2)] ''/l'' ''p'' [''b'', ''a''])) =
   with_service ''a'' (JoinPartials (ReadEntries one_time (drop (length (log_text 0)) (log_text 2))))"
proof -
  have path: "LogFilePath ''/l'' ''p'' ''a'' = ''/l/p/a/0.log''" by code_simp
  have g: "append_only (log_text 0) [log_text 1, log_text 2]"
    "list_all (whole_messages one_time) (appended (log_text 0) [log_text 1, log_text 2])" by code_simp+
  have f: "grown_log c (LogFilePath ''/l'' ''p'' ''a'') = Some (stable_view c)" for c by (simp add: path grown_log_def)
  have "list_all2 (\<lambda>files d. files (LogFilePath ''/l'' ''p'' ''a'') = Some (stable_view d))
      [grown_log (log_text 1), grown_log (log_text 2)] [log_text 1, log_text 2]" by (simp add: f)
  note ticks = this
  have d: "distinct [''b'', ''a'']" "''a'' \<in> set [''b'', ''a'']" by simp_all
  note t = FollowStream_complete [of "[''b'', ''a'']" "''a''" "grown_log (log_text 0)" "''/l''" "''p''" "log_text 0"
      "[grown_log (log_text 1), grown_log (log_text 2)]" "[log_text 1, log_text 2]" one_time, OF d f ticks g(1), unfolded case_prod_beta]
  show ?thesis using mp [OF conjunct2 [OF conjunct2 [OF t]] g(2)] by simp
qed

text \<open>A tick in the middle of a line loses the line: neither part parses.\<close>

lemma follow_loses_split_line:
  "snd (FollowStream one_time (\<lambda>_ _. None) (grown_log '''') [grown_log ''t1 std'', grown_log ''t1 stdout F x''] ''/l'' ''p'' [''a'']) = []"
  by code_simp

text \<open>A log that has grown between its size and its content being read is emitted again by the next tick.\<close>

lemma follow_repeats_late_line:
  "(let one = ''t1 stdout F x'' @ [newline]; two = one @ ''t2 stdout F y'' @ [newline];
        late = (\<lambda>path. if path = ''/l/p/a/0.log'' then Some \<lparr>fvSize = length one, fvData = two\<rparr> else None)
    in map leMessage (snd (FollowStream one_time (\<lambda>_ _. None) (grown_log '''') [late, grown_log two] ''/l'' ''p'' [''a'']))) =
   [''x'', ''y'', ''y'']"
  by code_simp

text \<open>A tick between the parts of a message splits it: following gives two messages where reading gives one.\<close>

lemma follow_splits_message:
  "(let part = ''t1 stdout P a'' @ [newline]; whole = part @ ''t2 stdout F b'' @ [newline]
    in (map leMessage (snd (FollowStream one_time (\<lambda>_ _. None) (grown_log '''') [grown_log part, grown_log whole] ''/l'' ''p'' [''a''])),
        map leMessage (JoinPartials (ReadEntries one_time whole)))) = ([''a'', ''b''], [''ab''])"
  by code_simp

end
