(* ===== verification/Port_Fwd.thy ===== *)
theory Port_Fwd
  imports Cri_Convert "HOL-Library.Word"
begin

text \<open>
  Port forwarding into a micro virtual machine (\<open>microvm/portfwd\<close>): which ports of a composition are
  forwarded (\<open>extract.go\<close>), the header that names the port on the wire (\<open>portfwd.go\<close>, \<open>listener.go\<close>), and the
  listeners on the host.  Copying bytes between connections is not modelled.
\<close>

record port_fwd =
  pfHostIP :: string
  pfHostPort :: "16 word"
  pfVMPort :: "16 word"
  pfProtocol :: string
  pfService :: string

subsection \<open>Ports of a composition\<close>

text \<open>\<open>strconv.ParseUint(s, 10, 16)\<close>, with 0 for the empty string.\<close>

definition parsePort :: "string \<Rightarrow> error + 16 word" where
  "parsePort s =
     (if s = '''' then Inr 0
      else case read_nat s of
        None \<Rightarrow> Inl (Err (''invalid port '' @ s))
      | Some n \<Rightarrow> if int n < 2 ^ 16 then Inr (of_nat n) else Inl (Err (''invalid port '' @ s)))"

text \<open>The address, the host port and the container port.\<close>

definition parsePortParts :: "string list \<Rightarrow> (string \<times> 16 word \<times> 16 word) option" where
  "parsePortParts parts =
     (case parts of
        [p] \<Rightarrow> (case parsePort p of Inl _ \<Rightarrow> None | Inr v \<Rightarrow> Some ('''', v, v))
      | [h, c] \<Rightarrow>
          (case parsePort h of Inl _ \<Rightarrow> None
           | Inr hp \<Rightarrow> (case parsePort c of Inl _ \<Rightarrow> None | Inr cp \<Rightarrow> Some ('''', hp, cp)))
      | [ip, h, c] \<Rightarrow>
          (case parsePort h of Inl _ \<Rightarrow> None
           | Inr hp \<Rightarrow> (case parsePort c of Inl _ \<Rightarrow> None | Inr cp \<Rightarrow> Some (ip, hp, cp)))
      | _ \<Rightarrow> None)"

definition parsePortString :: "string \<Rightarrow> string \<Rightarrow> port_fwd option" where
  "parsePortString raw service =
     (let (proto, s) = (case cut_last (CHR ''/'') raw of None \<Rightarrow> (''tcp'', raw) | Some (a, b) \<Rightarrow> (b, a))
      in if proto \<noteq> ''tcp'' then None
         else case parsePortParts (split_char (CHR '':'') s) of
           None \<Rightarrow> None
         | Some (hostIP, hostPort, containerPort) \<Rightarrow>
             if hostPort = 0 then None
             else Some \<lparr>pfHostIP = hostIP, pfHostPort = hostPort, pfVMPort = hostPort, pfProtocol = proto,
               pfService = service @ '' ('' @ show_nat (unat containerPort) @ '')''\<rparr>)"

definition fromNamedPort :: "named_port \<Rightarrow> string \<Rightarrow> port_fwd option" where
  "fromNamedPort np service =
     (let proto = (if npProtocol np = '''' then ''tcp'' else npProtocol np)
      in if proto \<noteq> ''tcp'' then None
         else if npHostPort np \<le> 0 \<or> npHostPort np > 65535 then None
         else let hostPort = of_int (npHostPort np)
           in Some \<lparr>pfHostIP = npHostIP np, pfHostPort = hostPort, pfVMPort = hostPort, pfProtocol = proto,
             pfService = service @ '' ('' @ show_int (npContainerPort np) @ '')''\<rparr>)"

definition some_of :: "'a option \<Rightarrow> 'a list" where
  "some_of x = (case x of None \<Rightarrow> [] | Some v \<Rightarrow> [v])"

definition service_forwards :: "string \<Rightarrow> service \<Rightarrow> port_fwd list" where
  "service_forwards name svc =
     concat (map (\<lambda>raw. some_of (parsePortString raw name)) (svcPorts svc)) @
     concat (map (\<lambda>np. some_of (fromNamedPort np name)) (named_ports svc))"

definition ExtractPorts :: "composition option \<Rightarrow> port_fwd list" where
  "ExtractPorts c =
     (case c of None \<Rightarrow> [] | Some comp' \<Rightarrow> concat (map (\<lambda>(name, svc). service_forwards name svc) (compServices comp')))"

subsection \<open>The wire\<close>

text \<open>\<open>binary.BigEndian.PutUint16\<close> and \<open>Uint16\<close>.\<close>

definition put_uint16 :: "16 word \<Rightarrow> 8 word list" where
  "put_uint16 v = [ucast (drop_bit 8 v), ucast v]"

definition get_uint16 :: "8 word list \<Rightarrow> 16 word" where
  "get_uint16 b = or (ucast (b ! 1)) (push_bit 8 (ucast (b ! 0)))"

text \<open>What the host writes ahead of a connection, and the address that the listener in the machine dials: none
  for a header that does not arrive or names port 0.\<close>

definition handleConn_header :: "port_fwd \<Rightarrow> 8 word list" where
  "handleConn_header m = put_uint16 (pfVMPort m)"

definition listener_target :: "8 word list option \<Rightarrow> string option" where
  "listener_target header =
     (case header of
        None \<Rightarrow> None
      | Some b \<Rightarrow>
          (let port = get_uint16 b
           in if port = 0 then None else Some (''127.0.0.1:'' @ show_nat (unat port))))"

subsection \<open>The listeners\<close>

definition fwd_addr :: "port_fwd \<Rightarrow> string" where
  "fwd_addr m = (if pfHostIP m = '''' then ''0.0.0.0'' else pfHostIP m) @ '':'' @ show_nat (unat (pfHostPort m))"

definition ForwardedAddrs :: "port_fwd list \<Rightarrow> string list" where
  "ForwardedAddrs mappings = map (\<lambda>m. fwd_addr m @ '' -> '' @ pfService m) mappings"

text \<open>The addresses bound so far.  \<open>net.Listen\<close> refuses an address that is bound (\<open>bound\<close> holds those of other
  processes) or that the system rejects.\<close>

record forwarder =
  fwListeners :: "string list"
  fwClosed :: bool

definition forwarder_Stop :: "forwarder \<Rightarrow> forwarder" where
  "forwarder_Stop f = f\<lparr>fwClosed := True, fwListeners := []\<rparr>"

fun forwarder_Start :: "(string list \<Rightarrow> string \<Rightarrow> error option) \<Rightarrow> port_fwd list \<Rightarrow> forwarder \<Rightarrow> error option \<times> forwarder" where
  "forwarder_Start listen [] f = (None, f)"
| "forwarder_Start listen (m # ms) f =
     (case listen (fwListeners f) (fwd_addr m) of
        Some e \<Rightarrow> (Some e, forwarder_Stop f)
      | None \<Rightarrow> forwarder_Start listen ms (f\<lparr>fwListeners := fwListeners f @ [fwd_addr m]\<rparr>))"

subsection \<open>What is forwarded\<close>

lemma read_nat_int:
  assumes "read_nat s = Some n" and "int n < 2 ^ (w - 1)"
  shows "parse_int w s = Some (int n)"
proof -
  obtain c cs where s: "s = c # cs" using assms(1) by (cases s) (auto simp: read_nat_def)
  then obtain d where "digit_val c = Some d"
    using assms(1) read_digits_chars [of 0 s n] by (auto simp: read_nat_def)
  then have "c \<noteq> CHR ''-''" "c \<noteq> CHR ''+''" using digit_val_digit by auto
  then have "(case s of CHR ''-'' # r \<Rightarrow> (True, r) | CHR ''+'' # r \<Rightarrow> (False, r) | _ \<Rightarrow> (False, s)) = (False, s)"
    by (simp add: s split: char.splits bool.splits)
  moreover have "- (2 ^ (w - 1)) \<le> int n" using zero_le_power [of "2::int" "w - 1"] by linarith
  ultimately show ?thesis using assms by (simp add: parse_int_def)
qed

lemma parsePort_int:
  assumes "parsePort s = Inr v" and "s \<noteq> ''''"
  shows "parse_int 32 s = Some (uint v)"
proof -
  obtain n where n: "read_nat s = Some n" "int n < 2 ^ 16" "v = of_nat n"
    using assms by (auto simp: parsePort_def split: option.splits if_splits)
  have "uint v = int n" using n(2) by (simp add: n(3) unsigned_of_nat take_bit_nat_eq_self_iff)
  then show ?thesis using read_nat_int [OF n(1), of 32] n(2) by simp
qed

lemma ExtractPorts_facts:
  assumes "m \<in> set (ExtractPorts c)"
  shows "pfProtocol m = ''tcp'' \<and> pfHostPort m \<noteq> 0 \<and> pfVMPort m = pfHostPort m \<and>
     (\<exists>comp' name svc. c = Some comp' \<and> (name, svc) \<in> set (compServices comp') \<and>
       ((\<exists>raw \<in> set (svcPorts svc). parsePortString raw name = Some m) \<or>
        (\<exists>np \<in> set (named_ports svc). fromNamedPort np name = Some m)))"
proof -
  have string: "pfProtocol p = ''tcp'' \<and> pfHostPort p \<noteq> 0 \<and> pfVMPort p = pfHostPort p" if "parsePortString raw name = Some p" for raw name p
    using that by (auto simp: parsePortString_def Let_def split: option.splits prod.splits if_splits)
  have named: "pfProtocol p = ''tcp'' \<and> pfHostPort p \<noteq> 0 \<and> pfVMPort p = pfHostPort p" if "fromNamedPort np name = Some p" for np name p
  proof -
    have r: "0 < npHostPort np" "npHostPort np < 2 ^ 16" "p = \<lparr>pfHostIP = npHostIP np, pfHostPort = of_int (npHostPort np),
        pfVMPort = of_int (npHostPort np), pfProtocol = ''tcp'', pfService = name @ '' ('' @ show_int (npContainerPort np) @ '')''\<rparr>"
      using that by (auto simp: fromNamedPort_def Let_def split: if_splits)
    have "uint (of_int (npHostPort np) :: 16 word) = npHostPort np"
      using r(1,2) by (simp add: unsigned_of_int take_bit_int_eq_self_iff)
    then have "(of_int (npHostPort np) :: 16 word) \<noteq> 0" using r(1) by (metis less_irrefl unsigned_0)
    then show ?thesis by (simp add: r(3))
  qed
  show ?thesis
    using assms string named
    by (fastforce simp: ExtractPorts_def service_forwards_def some_of_def split: option.splits)
qed

definition forward_example :: "composition option" where
  "forward_example = Some \<lparr>compServices = [(''web'', zero_service\<lparr>svcPorts := [''127.0.0.1:8080:80'', ''53:53/udp'', ''81'']\<rparr>)],
     compNetworks = [], compVolumes = [], compMicroVM = None\<rparr>"

lemma forward_example_eval:
  "ExtractPorts forward_example =
     [\<lparr>pfHostIP = ''127.0.0.1'', pfHostPort = 8080, pfVMPort = 8080, pfProtocol = ''tcp'', pfService = ''web (80)''\<rparr>,
      \<lparr>pfHostIP = '''', pfHostPort = 81, pfVMPort = 81, pfProtocol = ''tcp'', pfService = ''web (81)''\<rparr>]"
  by code_simp

text \<open>What is forwarded: only TCP ports of the services of the composition, on a host port that is not 0, to
  the same port of the machine.\<close>

theorem ExtractPorts_tcp:
  assumes "m \<in> set (ExtractPorts c)"
  shows "pfProtocol m = ''tcp'' \<and> pfHostPort m \<noteq> 0 \<and> pfVMPort m = pfHostPort m \<and>
     (\<exists>comp' name svc. c = Some comp' \<and> (name, svc) \<in> set (compServices comp') \<and>
       ((\<exists>raw \<in> set (svcPorts svc). parsePortString raw name = Some m) \<or>
        (\<exists>np \<in> set (named_ports svc). fromNamedPort np name = Some m)))"
  using assms by (rule ExtractPorts_facts)

lemma ExtractPorts_tcp_witness:
  "pfHostPort (ExtractPorts forward_example ! 1) \<noteq> 0 \<and>
   pfVMPort (ExtractPorts forward_example ! 1) = pfHostPort (ExtractPorts forward_example ! 1)"
proof -
  have "ExtractPorts forward_example ! 1 \<in> set (ExtractPorts forward_example)" by (simp add: forward_example_eval)
  from ExtractPorts_tcp [OF this] show ?thesis by blast
qed

lemma uint16_roundtrip: "get_uint16 (put_uint16 v) = v"
  by (rule bit_word_eqI) (auto simp: get_uint16_def put_uint16_def bit_simps)

text \<open>The header that the host sends for a forwarded port makes the listener in the machine dial exactly that
  port, and it is never refused.\<close>

theorem forwarded_header_dials:
  assumes "m \<in> set (ExtractPorts c)"
  shows "length (handleConn_header m) = 2 \<and>
     listener_target (Some (handleConn_header m)) = Some (''127.0.0.1:'' @ show_nat (unat (pfHostPort m)))"
  using ExtractPorts_facts [OF assms]
  by (simp add: listener_target_def handleConn_header_def uint16_roundtrip Let_def) (simp add: put_uint16_def)

lemma forwarded_header_dials_witness:
  "listener_target (Some (handleConn_header (ExtractPorts forward_example ! 0))) = Some ''127.0.0.1:8080''"
proof -
  have "ExtractPorts forward_example ! 0 \<in> set (ExtractPorts forward_example)" by (simp add: forward_example_eval)
  moreover have "show_nat 8080 = ''8080''" by (simp add: show_nat.simps digit_char_def) code_simp
  ultimately show ?thesis using forwarded_header_dials [of "ExtractPorts forward_example ! 0" forward_example]
    by (simp add: forward_example_eval)
qed

text \<open>The text of a port without its protocol.\<close>

definition port_text :: "string \<Rightarrow> string" where
  "port_text raw = (case cut_last (CHR ''/'') raw of None \<Rightarrow> raw | Some (a, b) \<Rightarrow> a)"

text \<open>A forwarded port that names a host port and a container port is published by the pod on the same address
  and host port, so there is something to forward to.\<close>

theorem forwarded_is_published:
  assumes "parsePortString raw name = Some m"
    and "length (split_char (CHR '':'') (port_text raw)) \<ge> 2" and "last (split_char (CHR '':'') (port_text raw)) \<noteq> ''''"
  shows "\<exists>pm. ParsePort raw = Inr pm \<and> pmProtocol pm = Protocol_TCP \<and> pmHostPort pm = uint (pfHostPort m) \<and>
     pmHostIp pm = pfHostIP m"
proof -
  define parts where "parts = split_char (CHR '':'') (port_text raw)"
  obtain cp where pp: "parsePortParts parts = Some (pfHostIP m, pfHostPort m, cp)" "pfHostPort m \<noteq> 0"
    and proto: "cut_last (CHR ''/'') raw = None \<or> (\<exists>a. cut_last (CHR ''/'') raw = Some (a, ''tcp''))"
    using assms(1) by (auto simp: parsePortString_def parts_def port_text_def Let_def split: option.splits prod.splits if_splits)
  have "splitProto raw = (''tcp'', port_text raw)"
    using proto by (auto simp: splitProto_def port_text_def to_lower_def lower_char_def)
  then have cri: "ParsePort raw = Cri_Convert.parsePortParts
      \<lparr>pmProtocol = Protocol_TCP, pmContainerPort = 0, pmHostPort = 0, pmHostIp = ''''\<rparr> parts"
    by (simp add: ParsePort_def parseProto_def parts_def)
  have two_ports: "parse_two h c pm = Inr (pm\<lparr>pmHostPort := uint (pfHostPort m), pmContainerPort := uint cp\<rparr>)"
    if "parsePort h = Inr (pfHostPort m)" "parsePort c = Inr cp" "c \<noteq> ''''" for h c pm
  proof -
    have "h \<noteq> ''''" using that(1) pp(2) by (auto simp: parsePort_def)
    then show ?thesis using parsePort_int [OF that(1)] parsePort_int [OF that(2,3)] by (simp add: parse_two_def)
  qed
  consider (two) h c where "parts = [h, c]" | (three) ip h c where "parts = [ip, h, c]"
    using pp(1) assms(2) by (auto simp: parsePortParts_def parts_def split: list.splits)
  then show ?thesis
  proof cases
    case two
    then have "parsePort h = Inr (pfHostPort m)" "parsePort c = Inr cp" "pfHostIP m = ''''" "c \<noteq> ''''"
      using pp(1) assms(3) by (auto simp: parsePortParts_def parts_def split: sum.splits)
    then show ?thesis by (simp add: cri two two_ports)
  next
    case three
    then have "parsePort h = Inr (pfHostPort m)" "parsePort c = Inr cp" "pfHostIP m = ip" "c \<noteq> ''''"
      using pp(1) assms(3) by (auto simp: parsePortParts_def parts_def split: sum.splits)
    then show ?thesis by (simp add: cri three two_ports)
  qed
qed

lemma forwarded_is_published_witness:
  "\<exists>m. parsePortString ''127.0.0.1:8080:80'' ''web'' = Some m \<and>
     (\<exists>pm. ParsePort ''127.0.0.1:8080:80'' = Inr pm \<and> pmHostPort pm = uint (pfHostPort m))"
proof -
  have m: "parsePortString ''127.0.0.1:8080:80'' ''web'' =
      Some \<lparr>pfHostIP = ''127.0.0.1'', pfHostPort = 8080, pfVMPort = 8080, pfProtocol = ''tcp'', pfService = ''web (80)''\<rparr>"
    by code_simp
  have "length (split_char (CHR '':'') (port_text ''127.0.0.1:8080:80'')) \<ge> 2"
    "last (split_char (CHR '':'') (port_text ''127.0.0.1:8080:80'')) \<noteq> ''''" by code_simp+
  from forwarded_is_published [OF m this] m show ?thesis by blast
qed

text \<open>A port without a host port is forwarded too, but the pod publishes it nowhere.\<close>

lemma bare_port_goes_nowhere:
  "map_option pfHostPort (parsePortString ''80'' ''web'') = Some 80 \<and>
   (case ParsePort ''80'' of Inr pm \<Rightarrow> pmHostPort pm = 0 | Inl _ \<Rightarrow> False)"
  by code_simp

text \<open>The protocol is compared without regard to case by the pod only: a TCP port is not forwarded.\<close>

lemma upper_case_protocol_not_forwarded:
  "parsePortString ''8080:80/TCP'' ''web'' = None \<and>
   (case ParsePort ''8080:80/TCP'' of Inr pm \<Rightarrow> pmProtocol pm = Protocol_TCP \<and> pmHostPort pm = 8080 | Inl _ \<Rightarrow> False)"
  by code_simp

subsection \<open>All listeners or none\<close>

text \<open>Starting a forwarder opens one listener for each port, in their order, or leaves none open.\<close>

theorem forwarder_Start_all_or_none:
  "(case forwarder_Start listen ms f of
      (None, f') \<Rightarrow> fwListeners f' = fwListeners f @ map fwd_addr ms \<and> fwClosed f' = fwClosed f
    | (Some e, f') \<Rightarrow> fwListeners f' = [] \<and> fwClosed f')"
  by (induction listen ms f rule: forwarder_Start.induct) (auto simp: forwarder_Stop_def split: option.splits prod.splits)

end
