(* ===== verification/Disk.thy ===== *)
theory Disk
  imports Go_Paths Json "HOL-Library.Sublist"
begin

text \<open>
  The part of the file system that the stores below the state directories use: directories, files
  and symbolic links by their path elements, with the functions of Go's \<open>os\<close> package that the
  sources call.  The first element of an absolute path is the empty string.  Any call may fail for
  a reason outside the model (permissions, a full disk): \<open>dkFault\<close> names the paths where it does.
\<close>

datatype dfile = JsonFile json | Link string

datatype os_error = NotExist | OsErr error

record disk =
  dkDirs :: "string list list"
  dkFiles :: "(string list \<times> dfile) list"
  dkFault :: "string \<Rightarrow> error option"

definition path_elems :: "string \<Rightarrow> string list" where
  "path_elems p = (if p = ''/'' then [''''] else split_char (CHR ''/'') p)"

text \<open>\<open>filepath.Join\<close> ignores empty elements and cleans the result.\<close>

definition join_paths :: "string list \<Rightarrow> string" where
  "join_paths es =
     (case filter (\<lambda>e. e \<noteq> '''') es of [] \<Rightarrow> '''' | es' \<Rightarrow> filepath_Clean (join_with ''/'' es'))"

definition os_MkdirAll :: "string \<Rightarrow> disk \<Rightarrow> error option \<times> disk" where
  "os_MkdirAll p d =
     (case dkFault d p of
        Some e \<Rightarrow> (Some e, d)
      | None \<Rightarrow>
          if list_ex (\<lambda>q. map_of (dkFiles d) q \<noteq> None) (prefixes (path_elems p))
          then (Some (Err ''not a directory''), d)
          else (None, d\<lparr>dkDirs := dkDirs d @ filter (\<lambda>q. q \<noteq> [] \<and> q \<notin> set (dkDirs d)) (prefixes (path_elems p))\<rparr>))"

definition os_WriteFile :: "string \<Rightarrow> dfile \<Rightarrow> disk \<Rightarrow> error option \<times> disk" where
  "os_WriteFile p f d =
     (case dkFault d p of
        Some e \<Rightarrow> (Some e, d)
      | None \<Rightarrow>
          if butlast (path_elems p) \<notin> set (dkDirs d) then (Some (Err ''no such directory''), d)
          else if path_elems p \<in> set (dkDirs d) then (Some (Err ''is a directory''), d)
          else (None, d\<lparr>dkFiles := AList.update (path_elems p) f (dkFiles d)\<rparr>))"

text \<open>\<open>os.Remove\<close> removes a file, a link or an empty directory.\<close>

definition dir_empty :: "string list \<Rightarrow> disk \<Rightarrow> bool" where
  "dir_empty q d =
     (list_all (\<lambda>x. \<not> strict_prefix q x) (dkDirs d) \<and> list_all (\<lambda>(x, _). \<not> strict_prefix q x) (dkFiles d))"

definition os_Remove :: "string \<Rightarrow> disk \<Rightarrow> os_error option \<times> disk" where
  "os_Remove p d =
     (let q = path_elems p in
      case dkFault d p of
        Some e \<Rightarrow> (Some (OsErr e), d)
      | None \<Rightarrow>
          if map_of (dkFiles d) q \<noteq> None then (None, d\<lparr>dkFiles := AList.delete q (dkFiles d)\<rparr>)
          else if q \<notin> set (dkDirs d) then (Some NotExist, d)
          else if dir_empty q d then (None, d\<lparr>dkDirs := removeAll q (dkDirs d)\<rparr>)
          else (Some (OsErr (Err ''directory not empty'')), d))"

definition os_RemoveAll :: "string \<Rightarrow> disk \<Rightarrow> error option \<times> disk" where
  "os_RemoveAll p d =
     (let q = path_elems p in
      case dkFault d p of
        Some e \<Rightarrow> (Some e, d)
      | None \<Rightarrow> (None, d\<lparr>dkDirs := filter (\<lambda>x. \<not> prefix q x) (dkDirs d),
                        dkFiles := filter (\<lambda>(x, _). \<not> prefix q x) (dkFiles d)\<rparr>))"

text \<open>\<open>os.ReadDir\<close>: the entries by name in order, with whether they are directories.\<close>

definition names_below :: "string list \<Rightarrow> string list list \<Rightarrow> string list" where
  "names_below q xs = map List.last (filter (\<lambda>x. x \<noteq> [] \<and> butlast x = q) xs)"

definition os_ReadDir :: "string \<Rightarrow> disk \<Rightarrow> os_error + (string \<times> bool) list" where
  "os_ReadDir p d =
     (let q = path_elems p; ds = names_below q (dkDirs d); fs = names_below q (map fst (dkFiles d)) in
      case dkFault d p of
        Some e \<Rightarrow> Inl (OsErr e)
      | None \<Rightarrow>
          if q \<notin> set (dkDirs d) then Inl NotExist
          else Inr (map (\<lambda>n. (n, n \<in> set ds)) (sort_strings (remdups (ds @ fs)))))"

definition os_exists :: "string \<Rightarrow> disk \<Rightarrow> bool" where
  "os_exists p d = (dkFault d p = None \<and> (path_elems p \<in> set (dkDirs d) \<or> map_of (dkFiles d) (path_elems p) \<noteq> None))"

subsection \<open>Paths below a clean directory\<close>

text \<open>A name that is one element of a path, and a clean absolute directory other than the root.\<close>

definition elem_ok :: "string \<Rightarrow> bool" where
  "elem_ok e \<longleftrightarrow> e \<noteq> '''' \<and> e \<noteq> ''.'' \<and> e \<noteq> ''..'' \<and> CHR ''/'' \<notin> set e"

definition dir_ok :: "string \<Rightarrow> bool" where
  "dir_ok p \<longleftrightarrow> (\<exists>es. es \<noteq> [] \<and> list_all elem_ok es \<and> p = ''/'' @ join_with ''/'' es)"

lemma clean_elems_ok: "list_all elem_ok es \<Longrightarrow> clean_elems st es = rev st @ es"
  by (induction es arbitrary: st) (auto simp: elem_ok_def)

lemma elem_ok_no_slash: "list_all elem_ok es \<Longrightarrow> list_all (\<lambda>e. CHR ''/'' \<notin> set e) es"
  by (auto simp: list_all_iff elem_ok_def)

lemma split_join_ok: "es \<noteq> [] \<Longrightarrow> list_all elem_ok es \<Longrightarrow> split_char (CHR ''/'') (join_with ''/'' es) = es"
  by (rule split_join) (auto simp: list_all_iff elem_ok_def)

lemma join_snoc: "es \<noteq> [] \<Longrightarrow> join_with sep es @ sep @ n = join_with sep (es @ [n])"
proof (induction es)
  case (Cons x xs)
  then show ?case by (cases xs) (auto simp: join_with_Cons)
qed simp

lemma split_rooted:
  assumes "es \<noteq> []" "list_all elem_ok es"
  shows "split_char (CHR ''/'') (''/'' @ join_with ''/'' es) = '''' # es"
  using split_char_append[of "CHR ''/''" "''''"] split_join_ok[OF assms] by simp

lemma path_elems_rooted:
  assumes "es \<noteq> []" "list_all elem_ok es"
  shows "path_elems (''/'' @ join_with ''/'' es) = '''' # es"
proof -
  have "join_with ''/'' es \<noteq> ''''"
    using assms by (cases es; cases "tl es") (auto simp: elem_ok_def join_with_Cons)
  then show ?thesis unfolding path_elems_def using split_rooted[OF assms] by simp
qed

lemma clean_join_elem:
  assumes "es \<noteq> []" "list_all elem_ok es"
  shows "filepath_Clean (''/'' @ join_with ''/'' es) = ''/'' @ join_with ''/'' es"
proof -
  have "clean_elems [] ('''' # es) = es" using clean_elems_ok[OF assms(2), of "[]"] by simp
  then show ?thesis
    unfolding filepath_Clean_def clean_rooted_def using split_rooted[OF assms] by (simp add: has_prefix_def)
qed

lemma dir_okE:
  assumes "dir_ok p" obtains es where "es \<noteq> []" "list_all elem_ok es" "p = ''/'' @ join_with ''/'' es"
  using assms unfolding dir_ok_def by blast

lemma dir_ok_nonempty: "dir_ok p \<Longrightarrow> p \<noteq> ''''"
  by (auto elim: dir_okE)

text \<open>Joining an element to a clean directory appends it to the path elements.\<close>

lemma join_below:
  assumes d: "dir_ok p" and n: "elem_ok n"
  shows "join_paths [p, n] = p @ ''/'' @ n" "dir_ok (join_paths [p, n])"
    "path_elems (join_paths [p, n]) = path_elems p @ [n]"
proof -
  obtain es where e: "es \<noteq> []" "list_all elem_ok es" "p = ''/'' @ join_with ''/'' es" using d by (rule dir_okE)
  have l: "list_all elem_ok (es @ [n])" "es @ [n] \<noteq> []" using e n by auto
  have a: "p @ ''/'' @ n = ''/'' @ join_with ''/'' (es @ [n])" using join_snoc[OF e(1), of "''/''" n] e(3) by simp
  have n0: "n \<noteq> ''''" using n by (simp add: elem_ok_def)
  show j: "join_paths [p, n] = p @ ''/'' @ n"
    using dir_ok_nonempty[OF d] n0 clean_join_elem[OF l(2) l(1)] a by (simp add: join_paths_def)
  show "dir_ok (join_paths [p, n])" unfolding dir_ok_def using l a j by metis
  show "path_elems (join_paths [p, n]) = path_elems p @ [n]"
    using path_elems_rooted[OF l(2) l(1)] path_elems_rooted[OF e(1,2)] a j e(3) by simp
qed

lemma join_below2:
  assumes d: "dir_ok p" and m: "elem_ok m" and n: "elem_ok n"
  shows "join_paths [p, m, n] = join_paths [join_paths [p, m], n]"
proof -
  have "join_paths [p, m, n] = filepath_Clean (p @ ''/'' @ m @ ''/'' @ n)"
    using dir_ok_nonempty[OF d] m n by (simp add: join_paths_def elem_ok_def)
  also have "\<dots> = join_paths [join_paths [p, m], n]"
    using dir_ok_nonempty[OF join_below(2)[OF d m]] n join_below(1)[OF d m] by (simp add: join_paths_def elem_ok_def)
  finally show ?thesis .
qed

end
