(* ===== verification/Cni.thy ===== *)
theory Cni
  imports Disk Resources "HOL-Library.Word"
begin

unbundle bit_operations_syntax

text \<open>
  Network configuration of a project (\<open>cni/config.go\<close>): the names and subnets derived from the name
  of the project, the configuration file, and the check for plugins.  The files are those of theory
  \<open>Disk\<close>; the document is the tree that \<open>json.MarshalIndent\<close> prints.
\<close>

record cni_dirs =
  csConfDir :: string
  csPluginDirs :: "string list"

definition DefaultConfDir :: string where "DefaultConfDir = ''/etc/cni/net.d''"

definition DefaultPluginDirs :: "string list" where
  "DefaultPluginDirs = [''/opt/cni/bin'', ''/usr/lib/cni'', ''/usr/libexec/cni'']"

definition RequiredPlugins :: "string list" where
  "RequiredPlugins = [''bridge'', ''host-local'', ''portmap'', ''firewall'', ''dnsname'']"

text \<open>\<open>filepath.SplitList\<close> yields no element for the empty string.\<close>

definition splitPath :: "string \<Rightarrow> string list" where
  "splitPath s = filter (\<lambda>p. p \<noteq> '''') (split_char (CHR '':'') s)"

definition NewStore :: "string \<Rightarrow> cni_dirs" where
  "NewStore env =
     \<lparr>csConfDir = DefaultConfDir,
      csPluginDirs = (if env \<noteq> '''' then splitPath env @ DefaultPluginDirs else DefaultPluginDirs)\<rparr>"

definition ConflistName :: "string \<Rightarrow> string" where
  "ConflistName project = ''nix-compose-'' @ project @ ''.conflist''"

definition ConflistPath :: "cni_dirs \<Rightarrow> string \<Rightarrow> string" where
  "ConflistPath s project = join_paths [csConfDir s, ConflistName project]"

subsection \<open>Names and subnets\<close>

text \<open>The hash of \<open>hash/fnv\<close>: 32-bit FNV-1a over the bytes of a string.\<close>

definition fnv32a :: "string \<Rightarrow> 32 word" where
  "fnv32a s = fold (\<lambda>c h. (h XOR of_nat (of_char c)) * 16777619) s 2166136261"

definition hex_char :: "nat \<Rightarrow> char" where
  "hex_char n = ''0123456789abcdef'' ! n"

text \<open>\<open>fmt.Sprintf("%08x", v)\<close>: the eight nibbles from the highest.\<close>

definition hex8 :: "32 word \<Rightarrow> string" where
  "hex8 v = map (\<lambda>i. hex_char (unat (drop_bit (4 * i) v mod 16))) [7, 6, 5, 4, 3, 2, 1, 0]"

definition BridgeName :: "string \<Rightarrow> string" where
  "BridgeName project =
     (let name = ''nc-'' @ project
      in if length name \<le> 15 then name
         else take 3 name @ ''-'' @ hex8 (fnv32a project))"

definition SubnetForProject :: "string \<Rightarrow> string" where
  "SubnetForProject project =
     (let sum = fnv32a project; x = drop_bit 8 sum mod 254 + 1; y = sum mod 256
      in ''10.'' @ show_nat (unat x) @ ''.'' @ show_nat (unat y) @ ''.0/24'')"

definition BuildConflist :: "string \<Rightarrow> json" where
  "BuildConflist project =
     (let bridge = BridgeName project; subnet = SubnetForProject project
      in JObj [(''cniVersion'', JStr ''0.4.0''), (''name'', JStr bridge),
           (''plugins'', JArr [
              JObj [(''bridge'', JStr bridge), (''hairpinMode'', JBool True), (''ipMasq'', JBool True),
                (''ipam'', JObj [(''ranges'', JArr [JArr [JObj [(''subnet'', JStr subnet)]]]), (''type'', JStr ''host-local'')]),
                (''isGateway'', JBool True), (''type'', JStr ''bridge'')],
              JObj [(''capabilities'', JObj [(''portMappings'', JBool True)]), (''type'', JStr ''portmap'')],
              JObj [(''type'', JStr ''firewall'')],
              JObj [(''capabilities'', JObj [(''aliases'', JBool True)]), (''domainName'', JStr ''nix-compose.local''),
                (''type'', JStr ''dnsname'')]])])"

subsection \<open>Files and plugins\<close>

definition store_Write :: "cni_dirs \<Rightarrow> string \<Rightarrow> disk \<Rightarrow> error option \<times> disk" where
  "store_Write s project d =
     (case os_MkdirAll (csConfDir s) d of
        (Some e, d1) \<Rightarrow> (Some (Err (''creating confdir '' @ csConfDir s)), d1)
      | (None, d1) \<Rightarrow>
          (case os_WriteFile (ConflistPath s project) (JsonFile (BuildConflist project)) d1 of
             (Some e, d2) \<Rightarrow> (Some (Err (''writing conflist '' @ ConflistPath s project)), d2)
           | (None, d2) \<Rightarrow> (None, d2)))"

definition store_Remove :: "cni_dirs \<Rightarrow> string \<Rightarrow> disk \<Rightarrow> error option \<times> disk" where
  "store_Remove s project d =
     (case os_Remove (ConflistPath s project) d of
        (None, d') \<Rightarrow> (None, d')
      | (Some NotExist, d') \<Rightarrow> (None, d')
      | (Some (OsErr e), d') \<Rightarrow> (Some (Err (''removing conflist '' @ ConflistPath s project)), d'))"

definition pluginExists :: "cni_dirs \<Rightarrow> disk \<Rightarrow> string \<Rightarrow> bool" where
  "pluginExists s d name = list_ex (\<lambda>dir. os_exists (join_paths [dir, name]) d) (csPluginDirs s)"

definition CheckPlugins :: "cni_dirs \<Rightarrow> disk \<Rightarrow> string list" where
  "CheckPlugins s d = filter (\<lambda>plugin. \<not> pluginExists s d plugin) RequiredPlugins"

text \<open>The store as the resources of a deployment see it.\<close>

definition disk_cni :: "cni_dirs \<Rightarrow> disk cni_store" where
  "disk_cni s = \<lparr>cniWrite = store_Write s, cniRemove = store_Remove s\<rparr>"

subsection \<open>Bounds of the derived names\<close>

lemma word_mod_bound: "0 < n \<Longrightarrow> n < 2 ^ 32 \<Longrightarrow> unat (w mod of_nat n :: 32 word) < n"
  by (simp add: unat_mod unat_of_nat)

text \<open>The subnet of a project is a network of 256 addresses below 10.0.0.0/8 whose second octet is
  neither 0 nor 255.\<close>

theorem SubnetForProject_range:
  "\<exists>x y. SubnetForProject project = ''10.'' @ show_nat x @ ''.'' @ show_nat y @ ''.0/24'' \<and>
         0 < x \<and> x < 255 \<and> y < 256"
proof -
  let ?h = "fnv32a project"
  have m: "unat (drop_bit 8 ?h mod 254) < 254" using word_mod_bound[of 254 "drop_bit 8 ?h"] by simp
  have x: "unat (drop_bit 8 ?h mod 254 + 1) = unat (drop_bit 8 ?h mod 254) + 1"
    using m by (simp add: unat_word_ariths)
  have y: "unat (?h mod 256) < 256" using word_mod_bound[of 256 ?h] by simp
  show ?thesis unfolding SubnetForProject_def Let_def using m x y
    by (intro exI[of _ "unat (drop_bit 8 ?h mod 254 + 1)"] exI[of _ "unat (?h mod 256)"]) simp
qed

text \<open>The name of a bridge fits the 15 bytes that Linux allows and starts with the prefix of the tool;
  projects with names of at most 12 bytes have bridges of their own.\<close>

theorem BridgeName_fits:
  "length (BridgeName project) \<le> 15 \<and> has_prefix (BridgeName project) ''nc-'' \<and>
   (BridgeName project = ''nc-'' @ project \<or> 12 < length project)"
  by (simp add: BridgeName_def Let_def hex8_def has_prefix_def)

text \<open>The comment promises a piece of the name before the hash; only the prefix is kept.\<close>

lemma BridgeName_long: "12 < length project \<Longrightarrow> BridgeName project = ''nc--'' @ hex8 (fnv32a project)"
  by (simp add: BridgeName_def Let_def)

text \<open>Nothing checks that two projects get different subnets.\<close>

lemma subnets_collide:
  "SubnetForProject ''backend-demo'' = SubnetForProject ''auth-demo''"
proof -
  have a: "fnv32a ''backend-demo'' = 406341321" by (simp add: fnv32a_def)
  have b: "fnv32a ''auth-demo'' = 3881353929" by (simp add: fnv32a_def)
  have c: "drop_bit 8 (406341321 :: 32 word) mod 254 = drop_bit 8 3881353929 mod 254" by (simp add: drop_bit_eq_div)
  have d: "(406341321 :: 32 word) mod 256 = 3881353929 mod 256" by simp
  show ?thesis unfolding SubnetForProject_def Let_def a b c d ..
qed

subsection \<open>One file for each project\<close>

text \<open>A project is one element of a path, so its file has a name of its own.\<close>

definition network_file :: "cni_dirs \<Rightarrow> disk \<Rightarrow> string \<Rightarrow> dfile option" where
  "network_file s d project = map_of (dkFiles d) (path_elems (ConflistPath s project))"

lemma ConflistName_ok: "CHR ''/'' \<notin> set project \<Longrightarrow> elem_ok (ConflistName project)"
  by (auto simp: ConflistName_def elem_ok_def)

lemma ConflistPath_elems:
  "dir_ok (csConfDir s) \<Longrightarrow> CHR ''/'' \<notin> set project \<Longrightarrow>
   path_elems (ConflistPath s project) = path_elems (csConfDir s) @ [ConflistName project]"
  unfolding ConflistPath_def by (rule join_below(3)[OF _ ConflistName_ok])

lemma ConflistPath_inj:
  assumes "dir_ok (csConfDir s)" "CHR ''/'' \<notin> set p" "CHR ''/'' \<notin> set q"
  shows "path_elems (ConflistPath s q) = path_elems (ConflistPath s p) \<longleftrightarrow> q = p"
  using assms by (simp add: ConflistPath_elems ConflistName_def)

lemma MkdirAll_files: "os_MkdirAll p d = (None, d1) \<Longrightarrow> dkFiles d1 = dkFiles d"
  by (auto simp: os_MkdirAll_def split: option.splits if_splits)

lemma WriteFile_files:
  "os_WriteFile p f d = (None, d1) \<Longrightarrow> dkFiles d1 = AList.update (path_elems p) f (dkFiles d)"
  by (auto simp: os_WriteFile_def split: option.splits if_splits)

lemma store_Write_files:
  assumes "store_Write s project d = (None, d1)"
  shows "dkFiles d1 = AList.update (path_elems (ConflistPath s project)) (JsonFile (BuildConflist project)) (dkFiles d)"
  using assms unfolding store_Write_def
  by (auto split: prod.splits option.splits dest!: MkdirAll_files WriteFile_files)

lemma Remove_files:
  "os_Remove p d = (r, d1) \<Longrightarrow> r = None \<or> r = Some NotExist \<Longrightarrow>
   map_of (dkFiles d1) = (map_of (dkFiles d))(path_elems p := None)"
  by (auto simp: os_Remove_def Let_def fun_upd_idem delete_conv' split: option.splits if_splits)

lemma store_Remove_files:
  assumes "store_Remove s project d = (None, d1)"
  shows "map_of (dkFiles d1) = (map_of (dkFiles d))(path_elems (ConflistPath s project) := None)"
  using assms unfolding store_Remove_def
  by (auto split: prod.splits option.splits os_error.splits dest!: Remove_files)

text \<open>Applying a network resource writes the configuration of its project and deleting it removes that file;
  neither touches the file of another project.\<close>

theorem network_resource_lifecycle:
  assumes "dir_ok (csConfDir s)" and "CHR ''/'' \<notin> set project" and "CHR ''/'' \<notin> set q"
    and "defInstantiate (NetworkDefinition (Some (disk_cni s))) (RDoc (JObj [(''project'', JStr project)])) = Inr i"
    and "instApply i d = (None, d1)"
    and "defDelete (NetworkDefinition (Some (disk_cni s))) \<lparr>refId = instId i, refKey = NetworkKey, refBody = RNil\<rparr> d1 = (None, d2)"
  shows "network_file s d1 q = (if q = project then Some (JsonFile (BuildConflist project)) else network_file s d q) \<and>
         network_file s d2 q = (if q = project then None else network_file s d q)"
proof -
  have i: "instId i = project" "instApply i = store_Write s project"
    using assms(4) by (auto simp: NetworkDefinition_def Let_def unmarshal_struct_def dec_field_def jfield_def dec_str_def
      disk_cni_def to_lower_def)
  have w: "dkFiles d1 = AList.update (path_elems (ConflistPath s project)) (JsonFile (BuildConflist project)) (dkFiles d)"
    using assms(5) i(2) by (intro store_Write_files) simp
  have r: "map_of (dkFiles d2) = (map_of (dkFiles d1))(path_elems (ConflistPath s project) := None)"
    using assms(6) i(1) by (intro store_Remove_files) (simp add: NetworkDefinition_def Let_def disk_cni_def)
  show ?thesis
    unfolding network_file_def using w r ConflistPath_inj[OF assms(1-3)] by (simp add: update_conv')
qed

definition empty_disk :: disk where
  "empty_disk = \<lparr>dkDirs = [['''']], dkFiles = [], dkFault = \<lambda>_. None\<rparr>"

lemma conf_dir_ok: "dir_ok DefaultConfDir"
  unfolding dir_ok_def DefaultConfDir_def
  by (intro exI[of _ "[''etc'', ''cni'', ''net.d'']"]) (simp add: elem_ok_def)


lemma network_resource_lifecycle_witness:
  "\<exists>d1 d2. store_Write (NewStore '''') ''shop'' empty_disk = (None, d1) \<and> store_Remove (NewStore '''') ''shop'' d1 = (None, d2) \<and>
     network_file (NewStore '''') d1 ''shop'' = Some (JsonFile (BuildConflist ''shop'')) \<and>
     network_file (NewStore '''') d2 ''shop'' = None"
proof -
  let ?s = "NewStore ''''"
  obtain i where i: "defInstantiate (NetworkDefinition (Some (disk_cni ?s))) (RDoc (JObj [(''project'', JStr ''shop'')])) = Inr i"
    and ii: "instId i = ''shop''" "instApply i = store_Write ?s ''shop''"
    by (simp add: NetworkDefinition_def Let_def unmarshal_struct_def dec_field_def jfield_def dec_str_def
      disk_cni_def to_lower_def)
  define d1 where "d1 = snd (store_Write ?s ''shop'' empty_disk)"
  define d2 where "d2 = snd (store_Remove ?s ''shop'' d1)"
  have c: "csConfDir ?s = DefaultConfDir" by (simp add: NewStore_def)
  have pe: "path_elems DefaultConfDir = [[], ''etc'', ''cni'', ''net.d'']" by code_simp
  have pc: "path_elems (ConflistPath ?s ''shop'') = [[], ''etc'', ''cni'', ''net.d'', ''nix-compose-shop.conflist'']"
    by code_simp
  have w: "store_Write ?s ''shop'' empty_disk = (None, d1)"
    unfolding d1_def by (simp add: store_Write_def c os_MkdirAll_def os_WriteFile_def pe pc empty_disk_def)
  have r: "store_Remove ?s ''shop'' d1 = (None, d2)"
    unfolding d2_def d1_def
    by (simp add: store_Write_def c os_MkdirAll_def os_WriteFile_def pe pc empty_disk_def store_Remove_def os_Remove_def Let_def)
  have del: "defDelete (NetworkDefinition (Some (disk_cni ?s))) \<lparr>refId = instId i, refKey = NetworkKey, refBody = RNil\<rparr> d1 = (None, d2)"
    using r ii(1) by (simp add: NetworkDefinition_def Let_def disk_cni_def)
  have d: "dir_ok (csConfDir ?s)" using conf_dir_ok c by simp
  show ?thesis
    using network_resource_lifecycle[OF d _ _ i _ del, of "''shop''" empty_disk] w r ii(2) by auto
qed

subsection \<open>Plugins\<close>

text \<open>The reported plugins are the required ones that no directory of the search path has, in their order, and
  directories of the environment are searched too.\<close>

lemma CheckPlugins_none_iff:
  "CheckPlugins s d = [] \<longleftrightarrow> (\<forall>n \<in> set RequiredPlugins. \<exists>dir \<in> set (csPluginDirs s). os_exists (join_paths [dir, n]) d)"
  by (auto simp: CheckPlugins_def pluginExists_def filter_empty_conv list_ex_iff)

end
