(* ===== verification/Volumes.thy ===== *)
theory Volumes
  imports Disk Cri_Convert
begin

text \<open>
  Named volumes (\<open>volumes/volumes.go\<close>): one directory for each volume of each project, on the disk of
  theory \<open>Disk\<close>.  The home directory is a parameter.
\<close>

record vol_store =
  vsRoot :: string

definition vol_NewStore :: "error + string \<Rightarrow> error + vol_store" where
  "vol_NewStore home =
     (case home of
        Inl e \<Rightarrow> Inl (Err ''determining home directory'')
      | Inr h \<Rightarrow> Inr \<lparr>vsRoot = join_paths [h, ''.local'', ''share'', ''nix-compose'', ''volumes'']\<rparr>)"

definition Path :: "vol_store \<Rightarrow> string \<Rightarrow> string \<Rightarrow> string" where
  "Path s project name = join_paths [vsRoot s, project, name]"

definition Ensure :: "vol_store \<Rightarrow> string \<Rightarrow> string \<Rightarrow> disk \<Rightarrow> (error + string) \<times> disk" where
  "Ensure s project name d =
     (let p = Path s project name in
      case os_MkdirAll p d of
        (Some e, d') \<Rightarrow> (Inl (Err (''creating volume directory '' @ p)), d')
      | (None, d') \<Rightarrow> (Inr p, d'))"

definition Remove :: "vol_store \<Rightarrow> string \<Rightarrow> string \<Rightarrow> disk \<Rightarrow> error option \<times> disk" where
  "Remove s project name d =
     (case os_RemoveAll (Path s project name) d of
        (Some e, d') \<Rightarrow> (Some (Err (''removing volume '' @ project @ ''/'' @ name)), d')
      | (None, d') \<Rightarrow> (None, d'))"

definition RemoveAll :: "vol_store \<Rightarrow> string \<Rightarrow> disk \<Rightarrow> error option \<times> disk" where
  "RemoveAll s project d =
     (case os_RemoveAll (join_paths [vsRoot s, project]) d of
        (Some e, d') \<Rightarrow> (Some (Err (''removing volumes for project '' @ project)), d')
      | (None, d') \<Rightarrow> (None, d'))"

definition vol_List :: "vol_store \<Rightarrow> string \<Rightarrow> disk \<Rightarrow> error + string list" where
  "vol_List s project d =
     (case os_ReadDir (join_paths [vsRoot s, project]) d of
        Inl NotExist \<Rightarrow> Inr []
      | Inl (OsErr e) \<Rightarrow> Inl (Err (''listing volumes for '' @ project))
      | Inr entries \<Rightarrow> Inr (map fst (filter snd entries)))"

subsection \<open>Directories of projects\<close>

lemma project_dir:
  assumes "dir_ok (vsRoot s)" "elem_ok project"
  shows "path_elems (join_paths [vsRoot s, project]) = path_elems (vsRoot s) @ [project]"
  using join_below(3)[OF assms] .

lemma volume_dir:
  assumes "dir_ok (vsRoot s)" "elem_ok project" "elem_ok name"
  shows "path_elems (Path s project name) = path_elems (vsRoot s) @ [project, name]"
  unfolding Path_def
  using join_below2[OF assms] join_below(3)[OF join_below(2)[OF assms(1,2)] assms(3)] project_dir[OF assms(1,2)] by simp

text \<open>A named volume is mounted from the directory of its project and name; the volumes of different names or
  projects are directories of which none lies inside another.\<close>

theorem named_volumes_apart:
  assumes "dir_ok (vsRoot s)" and "elem_ok p" and "elem_ok n" and "elem_ok q" and "elem_ok m"
    and "(p, n) \<noteq> (q, m)"
  shows "\<not> prefix (path_elems (Path s p n)) (path_elems (Path s q m))"
  using assms(6) volume_dir[OF assms(1-3)] volume_dir[OF assms(1,4,5)] by auto

text \<open>A name that climbs is a named volume too.\<close>

lemma volume_name_climbs:
  "isNamedVolume ''..'' [] \<and> \<not> isHostPath ''..'' \<and>
   Path \<lparr>vsRoot = ''/home/u/volumes''\<rparr> ''shop'' ''..'' = ''/home/u/volumes''"
  by code_simp

lemma MkdirAll_dirs:
  "os_MkdirAll p d = (None, d') \<Longrightarrow>
   set (dkDirs d') = set (dkDirs d) \<union> {x. prefix x (path_elems p) \<and> x \<noteq> []} \<and> dkFiles d' = dkFiles d \<and> dkFault d' = dkFault d"
  by (auto simp: os_MkdirAll_def split: option.splits if_splits)

lemma MkdirAll_below:
  assumes m: "os_MkdirAll p d = (None, d')" and "path_elems p = q @ [x, y]" and "r \<noteq> q @ [x]" "length r = length q + 1"
  shows "set (names_below r (dkDirs d')) = set (names_below r (dkDirs d))" "r \<in> set (dkDirs d') \<longleftrightarrow> r \<in> set (dkDirs d)"
proof -
  have n: "z \<noteq> [] \<Longrightarrow> butlast z = r \<Longrightarrow> \<not> prefix z (path_elems p)" for z
  proof
    assume z: "z \<noteq> []" "butlast z = r" "prefix z (path_elems p)"
    have "length z = length (path_elems p)" using z(1,2) assms(2,4) by (cases z rule: rev_cases) auto
    then have "z = path_elems p" using z(3) by (metis append_eq_conv_conj prefixE take_all_iff order_refl)
    then show False using z(2) assms(2,3) by (simp add: butlast_append)
  qed
  have p: "\<not> prefix r (path_elems p)"
  proof
    assume "prefix r (path_elems p)"
    then have "r = take (length r) (path_elems p)" by (metis append_eq_conv_conj prefixE)
    then show False using assms(2-4) by simp
  qed
  show "set (names_below r (dkDirs d')) = set (names_below r (dkDirs d))"
    unfolding names_below_def using MkdirAll_dirs[OF m] n by (auto simp: image_iff)
  show "r \<in> set (dkDirs d') \<longleftrightarrow> r \<in> set (dkDirs d)"
    using MkdirAll_dirs[OF m] p by auto
qed

lemma ReadDir_cong:
  assumes "set (names_below (path_elems p) (dkDirs d')) = set (names_below (path_elems p) (dkDirs d))"
    and "set (names_below (path_elems p) (map fst (dkFiles d'))) = set (names_below (path_elems p) (map fst (dkFiles d)))"
    and "path_elems p \<in> set (dkDirs d') \<longleftrightarrow> path_elems p \<in> set (dkDirs d)" and "dkFault d' = dkFault d"
  shows "os_ReadDir p d' = os_ReadDir p d"
proof -
  have "sort_strings (remdups (names_below (path_elems p) (dkDirs d') @ names_below (path_elems p) (map fst (dkFiles d')))) =
        sort_strings (remdups (names_below (path_elems p) (dkDirs d) @ names_below (path_elems p) (map fst (dkFiles d))))"
    by (rule sort_strings_cong) (use assms(1,2) in auto)
  then show ?thesis unfolding os_ReadDir_def Let_def by (simp only: assms)
qed

lemma Ensure_dirs:
  assumes "Ensure s project name d = (Inr p, d')"
  shows "p = Path s project name" "os_MkdirAll (Path s project name) d = (None, d')"
  using assms by (auto simp: Ensure_def Let_def split: prod.splits option.splits)

lemma RemoveAll_dirs:
  assumes "RemoveAll s project d = (None, d')"
  shows "os_RemoveAll (join_paths [vsRoot s, project]) d = (None, d')"
  using assms by (auto simp: RemoveAll_def split: prod.splits option.splits)

lemma names_below_filter:
  "(\<And>x. x \<noteq> [] \<Longrightarrow> butlast x = r \<Longrightarrow> P x) \<Longrightarrow> names_below r (filter P xs) = names_below r xs"
  unfolding names_below_def by (induction xs) auto

lemma RemoveAll_below:
  assumes m: "os_RemoveAll p d = (None, d')" and "path_elems p = q @ [x]" and r: "r = q @ [y]" "y \<noteq> x"
  shows "os_ReadDir p' d' = os_ReadDir p' d \<or> path_elems p' \<noteq> r"
proof -
  have np: "\<not> prefix (path_elems p) z" if "z \<noteq> []" "butlast z = r" for z
    using that assms(2) r by (cases z rule: rev_cases) auto
  have nr: "\<not> prefix (path_elems p) r" using assms(2) r by auto
  have d: "dkDirs d' = filter (\<lambda>x. \<not> prefix (path_elems p) x) (dkDirs d)"
    "map fst (dkFiles d') = filter (\<lambda>x. \<not> prefix (path_elems p) x) (map fst (dkFiles d))" "dkFault d' = dkFault d"
    using m by (auto simp: os_RemoveAll_def Let_def filter_map o_def case_prod_unfold split: option.splits)
  show ?thesis
  proof (cases "path_elems p' = r")
    case True
    have "os_ReadDir p' d' = os_ReadDir p' d"
      by (rule ReadDir_cong) (use True d nr in \<open>auto simp: names_below_filter[OF np]\<close>)
    then show ?thesis ..
  qed simp
qed

text \<open>Ensuring a volume makes it appear in the list of its project; removing the volumes of the project empties the
  list; the lists of other projects stay the same.\<close>

theorem volumes_lifecycle:
  assumes "dir_ok (vsRoot s)" and "elem_ok project" and "elem_ok name" and "elem_ok q" and "q \<noteq> project"
    and "Ensure s project name d = (Inr p, d1)" and "dkFault d (join_paths [vsRoot s, project]) = None"
    and "RemoveAll s project d1 = (None, d2)"
  shows "(\<exists>names. vol_List s project d1 = Inr names \<and> name \<in> set names) \<and> vol_List s project d2 = Inr [] \<and>
         vol_List s q d1 = vol_List s q d \<and> vol_List s q d2 = vol_List s q d"
proof -
  let ?R = "path_elems (vsRoot s)" and ?P = "join_paths [vsRoot s, project]"
  note pe = volume_dir[OF assms(1-3)] and pp = project_dir[OF assms(1,2)] and pq = project_dir[OF assms(1,4)]
  note mk = Ensure_dirs(2)[OF assms(6)] and rm = RemoveAll_dirs[OF assms(8)]
  have ds: "set (dkDirs d1) = set (dkDirs d) \<union> {x. prefix x (?R @ [project, name]) \<and> x \<noteq> []}"
    "dkFiles d1 = dkFiles d" "dkFault d1 = dkFault d"
    using MkdirAll_dirs[OF mk] pe by auto
  have l: "?R @ [project, name] \<in> set (dkDirs d1)" "?R @ [project] \<in> set (dkDirs d1)" using ds by auto
  have n: "name \<in> set (names_below (path_elems ?P) (dkDirs d1))"
    unfolding names_below_def pp using l(1) by (force simp: butlast_append)
  obtain es where es: "os_ReadDir ?P d1 = Inr es" "(name, True) \<in> set es"
    unfolding os_ReadDir_def Let_def using ds(3) assms(7) l(2) n pp by auto
  have a: "\<exists>names. vol_List s project d1 = Inr names \<and> name \<in> set names"
    unfolding vol_List_def using es by force
  have "path_elems ?P \<notin> set (dkDirs d2)"
    using rm by (auto simp: os_RemoveAll_def Let_def split: option.splits)
  moreover have "dkFault d2 ?P = None" using rm ds(3) assms(7) by (auto simp: os_RemoveAll_def Let_def split: option.splits)
  ultimately have b: "vol_List s project d2 = Inr []" by (simp add: vol_List_def os_ReadDir_def Let_def)
  have ne: "?R @ [q] \<noteq> ?R @ [project]" "length (?R @ [q]) = length ?R + 1" using assms(5) by auto
  have c: "os_ReadDir (join_paths [vsRoot s, q]) d1 = os_ReadDir (join_paths [vsRoot s, q]) d"
    by (rule ReadDir_cong) (use MkdirAll_below[OF mk pe ne] pq ds in auto)
  have e: "os_ReadDir (join_paths [vsRoot s, q]) d2 = os_ReadDir (join_paths [vsRoot s, q]) d1"
    using RemoveAll_below[OF rm pp refl assms(5), of "join_paths [vsRoot s, q]"] pq by simp
  show ?thesis using a b c e by (simp add: vol_List_def)
qed

definition vol_disk :: disk where
  "vol_disk = \<lparr>dkDirs = [[''''], ['''', ''v''], ['''', ''v'', ''blog''], ['''', ''v'', ''blog'', ''data'']], dkFiles = [], dkFault = \<lambda>_. None\<rparr>"

lemma vol_root_ok: "dir_ok ''/v''"
  unfolding dir_ok_def by (intro exI[of _ "[''v'']"]) (simp add: elem_ok_def)

lemma volumes_lifecycle_witness:
  "\<exists>d1 d2. snd (Ensure \<lparr>vsRoot = ''/v''\<rparr> ''shop'' ''db'' vol_disk) = d1 \<and> RemoveAll \<lparr>vsRoot = ''/v''\<rparr> ''shop'' d1 = (None, d2) \<and>
     vol_List \<lparr>vsRoot = ''/v''\<rparr> ''shop'' d2 = Inr [] \<and> vol_List \<lparr>vsRoot = ''/v''\<rparr> ''blog'' d2 = Inr [''data'']"
proof -
  let ?s = "\<lparr>vsRoot = ''/v''\<rparr>"
  define d1 where "d1 = snd (Ensure ?s ''shop'' ''db'' vol_disk)"
  define d2 where "d2 = snd (RemoveAll ?s ''shop'' d1)"
  have p: "path_elems (Path ?s ''shop'' ''db'') = [[], ''v'', ''shop'', ''db'']"
    "path_elems (join_paths [''/v'', ''shop'']) = [[], ''v'', ''shop'']" "path_elems (join_paths [''/v'', ''blog'']) = [[], ''v'', ''blog'']"
    by code_simp+
  have e: "Ensure ?s ''shop'' ''db'' vol_disk = (Inr (Path ?s ''shop'' ''db''), d1)"
    unfolding d1_def by (simp add: Ensure_def Let_def os_MkdirAll_def p vol_disk_def)
  have r: "RemoveAll ?s ''shop'' d1 = (None, d2)"
    unfolding d2_def d1_def by (simp add: Ensure_def RemoveAll_def Let_def os_MkdirAll_def os_RemoveAll_def p vol_disk_def)
  have f: "dkFault vol_disk x = None" for x by (simp add: vol_disk_def)
  have b: "vol_List ?s ''blog'' vol_disk = Inr [''data'']"
    by (simp add: vol_List_def os_ReadDir_def Let_def p vol_disk_def names_below_def sort_strings_def)
  have ok: "elem_ok ''shop''" "elem_ok ''db''" "elem_ok ''blog''" by (simp_all add: elem_ok_def)
  have root: "dir_ok (vsRoot ?s)" using vol_root_ok by simp
  have "''blog'' \<noteq> ''shop''" by simp
  from volumes_lifecycle[OF root ok this e f r] have "vol_List ?s ''shop'' d2 = Inr []" "vol_List ?s ''blog'' d2 = vol_List ?s ''blog'' vol_disk"
    by blast+
  then show ?thesis using r b d1_def by auto
qed

end
