(* ===== verification/Gc_Root.thy ===== *)
theory Gc_Root
  imports Disk
begin

text \<open>
  Garbage collector roots (\<open>gcroot/gcroot.go\<close>): finding the store paths in the output of an evaluation and
  the links that keep them alive, on the disk of theory \<open>Disk\<close>.  Running \<open>nix-store\<close> is a parameter of
  which only the documented effect is assumed (\<open>adds_root\<close>).
\<close>

subsection \<open>Store paths in a text\<close>

text \<open>The character classes of \<open>storePathRe\<close>.\<close>

definition hash_char :: "char \<Rightarrow> bool" where
  "hash_char c \<longleftrightarrow> (CHR ''a'' \<le> c \<and> c \<le> CHR ''z'') \<or> (CHR ''0'' \<le> c \<and> c \<le> CHR ''9'')"

definition name_char :: "char \<Rightarrow> bool" where
  "name_char c \<longleftrightarrow> hash_char c \<or> (CHR ''A'' \<le> c \<and> c \<le> CHR ''Z'') \<or> c \<in> set ''+._?=-''"

definition store_prefix :: string where "store_prefix = ''/nix/store/''"

text \<open>The match of \<open>storePathRe\<close> at the start of a text; the last repetition takes as much as it can.\<close>

definition match_store :: "string \<Rightarrow> string option" where
  "match_store s =
     (if has_prefix s store_prefix
      then let r = drop 11 s; h = take 32 r; t = drop 32 r; n = takeWhile name_char (tl t)
           in if length h = 32 \<and> list_all hash_char h \<and> t \<noteq> [] \<and> hd t = CHR ''-'' \<and> n \<noteq> []
              then Some (store_prefix @ h @ CHR ''-'' # n) else None
      else None)"

text \<open>\<open>FindAll\<close>: the matches from left to right, none inside another.\<close>

lemma match_store_length: "match_store s = Some m \<Longrightarrow> 0 < length m"
  by (auto simp: match_store_def Let_def split: if_splits)

function find_all :: "string \<Rightarrow> string list" where
  "find_all s =
     (case s of [] \<Rightarrow> []
      | c # cs \<Rightarrow> (case match_store s of None \<Rightarrow> find_all cs | Some m \<Rightarrow> m # find_all (drop (length m) s)))"
  by pat_completeness auto
termination
  by (relation "measure length") (auto dest: match_store_length)

declare find_all.simps [simp del]

fun dedup :: "string list \<Rightarrow> string list \<Rightarrow> string list" where
  "dedup seen [] = []"
| "dedup seen (m # ms) = (if m \<in> set seen then dedup seen ms else m # dedup (m # seen) ms)"

definition CollectStorePaths :: "string \<Rightarrow> string list" where
  "CollectStorePaths raw = dedup [] (find_all raw)"

lemma set_dedup: "set (dedup seen ms) = set ms - set seen \<and> distinct (dedup seen ms)"
  by (induction seen ms rule: dedup.induct) auto

text \<open>What the expression describes: the prefix, 32 characters of a hash, and a name, up to a character that no name has.\<close>

definition store_path :: "string \<Rightarrow> bool" where
  "store_path m \<longleftrightarrow>
     (\<exists>h n. m = store_prefix @ h @ CHR ''-'' # n \<and> length h = 32 \<and> list_all hash_char h \<and> n \<noteq> [] \<and> list_all name_char n)"

definition ends_name :: "string \<Rightarrow> bool" where
  "ends_name b \<longleftrightarrow> b = [] \<or> \<not> name_char (hd b)"

lemma length_store_prefix [simp]: "length store_prefix = 11"
  by (simp add: store_prefix_def)

lemma drop_prefix11: "drop 11 (store_prefix @ x) = x"
  by (simp add: store_prefix_def)

lemma match_store_iff:
  "match_store s = Some m \<longleftrightarrow> store_path m \<and> (\<exists>b. s = m @ b \<and> ends_name b)"
proof
  assume m: "match_store s = Some m"
  have p: "has_prefix s store_prefix" using m by (auto simp: match_store_def split: if_splits)
  then obtain r where s: "s = store_prefix @ r" using has_prefixE by blast
  define h where "h = take 32 r"
  define t where "t = drop 32 r"
  define n where "n = takeWhile name_char (tl t)"
  have c: "length h = 32" "list_all hash_char h" "t \<noteq> []" "hd t = CHR ''-''" "n \<noteq> []" "m = store_prefix @ h @ CHR ''-'' # n"
    using m p unfolding match_store_def Let_def s drop_prefix11 h_def t_def n_def by (auto split: if_splits)
  have r: "r = h @ CHR ''-'' # n @ dropWhile name_char (tl t)"
  proof -
    have "r = h @ t" by (simp add: h_def t_def)
    moreover have "t = CHR ''-'' # tl t" using c(3,4) by (cases t) auto
    moreover have "tl t = n @ dropWhile name_char (tl t)" by (simp add: n_def)
    ultimately show ?thesis by metis
  qed
  have "store_path m" unfolding store_path_def using c by (auto simp: n_def list_all_iff dest: set_takeWhileD)
  moreover have "ends_name (dropWhile name_char (tl t))" unfolding ends_name_def using hd_dropWhile by blast
  ultimately show "store_path m \<and> (\<exists>b. s = m @ b \<and> ends_name b)" using s r c(6) by auto
next
  assume "store_path m \<and> (\<exists>b. s = m @ b \<and> ends_name b)"
  then obtain h n b where m: "m = store_prefix @ h @ CHR ''-'' # n" "length h = 32" "list_all hash_char h" "n \<noteq> []"
    "list_all name_char n" "s = m @ b" "ends_name b" unfolding store_path_def by blast
  have n: "takeWhile name_char (n @ b) = n"
  proof -
    have "takeWhile name_char (n @ b) = n @ takeWhile name_char b"
      using m(5) by (simp add: takeWhile_append2 list_all_iff)
    also have "takeWhile name_char b = []" using m(7) by (cases b) (auto simp: ends_name_def)
    finally show ?thesis by simp
  qed
  have d: "drop 11 s = h @ CHR ''-'' # n @ b" using m(1,6) drop_prefix11 by simp
  show "match_store s = Some m"
    unfolding match_store_def Let_def d using m(1-6) n by simp
qed

text \<open>No store path begins inside another: a slash inside one is followed by something else.\<close>

lemma no_slash_inside: "list_all hash_char h \<Longrightarrow> CHR ''/'' \<notin> set h" "list_all name_char n \<Longrightarrow> CHR ''/'' \<notin> set n"
  by (auto simp: list_all_iff hash_char_def name_char_def less_eq_char_def dest!: bspec)

lemma prefix_slash: "k < 11 \<Longrightarrow> store_prefix ! k = CHR ''/'' \<Longrightarrow> k = 0 \<or> k = 4 \<or> k = 10"
  by (auto simp: store_prefix_def nth_Cons split: nat.splits)

lemma store_path_nth:
  assumes "store_path m"
  shows "45 \<le> length m" "k < 11 \<Longrightarrow> m ! k = store_prefix ! k" "11 \<le> k \<Longrightarrow> k < length m \<Longrightarrow> m ! k \<noteq> CHR ''/''"
proof -
  obtain h n where m: "m = store_prefix @ h @ CHR ''-'' # n" "length h = 32" "list_all hash_char h" "n \<noteq> []" "list_all name_char n"
    using assms unfolding store_path_def by blast
  show "45 \<le> length m" using m by (cases n) auto
  show "k < 11 \<Longrightarrow> m ! k = store_prefix ! k" using m(1) by (simp add: nth_append)
  have s: "CHR ''/'' \<notin> set (h @ CHR ''-'' # n)" using no_slash_inside m(3,5) by auto
  assume k: "11 \<le> k" "k < length m"
  then have "m ! k = (h @ CHR ''-'' # n) ! (k - 11)" "k - 11 < length (h @ CHR ''-'' # n)"
    using m(1) by (simp_all add: nth_append_right)
  then have "m ! k \<in> set (h @ CHR ''-'' # n)" using nth_mem by metis
  then show "m ! k \<noteq> CHR ''/''" using s by metis
qed

lemma store_paths_apart:
  assumes m: "store_path m" "s = m @ b" and m': "store_path m'" "s = a @ m' @ c" and "a \<noteq> []"
  shows "length m \<le> length a"
proof (rule ccontr)
  assume "\<not> length m \<le> length a"
  then have k: "0 < length a" "length a < length m" using assms(5) by auto
  have e: "m ! (length a + j) = m' ! j" if "length a + j < length m" "j < length m'" for j
  proof -
    have "s ! (length a + j) = m ! (length a + j)" using that(1) m(2) by (simp add: nth_append)
    moreover have "s ! (length a + j) = m' ! j" using that(2) m'(2) by (simp add: nth_append)
    ultimately show ?thesis by simp
  qed
  note p = store_path_nth[OF m(1)] and p' = store_path_nth[OF m'(1)]
  have "m ! length a = m' ! 0" using e[of 0] k(2) p'(1) by (cases m') auto
  also have "m' ! 0 = CHR ''/''" using p'(2)[of 0] by (simp add: store_prefix_def)
  finally have sl: "m ! length a = CHR ''/''" .
  then have lt: "length a < 11" using p(3)[of "length a"] k(2) by linarith
  then have "length a = 4 \<or> length a = 10" using prefix_slash[OF lt] p(2)[OF lt] sl k(1) by simp
  then show False
  proof
    assume a: "length a = 4"
    have "m ! 5 = m' ! 1" using e[of 1] a p(1) p'(1) by simp
    then show False using p(2)[of 5] p'(2)[of 1] by (simp add: store_prefix_def)
  next
    assume a: "length a = 10"
    have "m ! 14 = m' ! 4" using e[of 4] a p(1) p'(1) by simp
    then show False using p(3)[of 14] p(1) p'(2)[of 4] by (simp add: store_prefix_def)
  qed
qed

definition occurs :: "string \<Rightarrow> string \<Rightarrow> bool" where
  "occurs s m \<longleftrightarrow> store_path m \<and> (\<exists>a b. s = a @ m @ b \<and> ends_name b)"

lemma occurs_Cons:
  "occurs (c # cs) m \<longleftrightarrow> match_store (c # cs) = Some m \<or> occurs cs m"
proof
  assume "occurs (c # cs) m"
  then obtain a b where o: "store_path m" "c # cs = a @ m @ b" "ends_name b" unfolding occurs_def by blast
  show "match_store (c # cs) = Some m \<or> occurs cs m"
  proof (cases a)
    case Nil then show ?thesis using o match_store_iff by simp
  next
    case (Cons x xs) then show ?thesis using o unfolding occurs_def by auto
  qed
next
  assume "match_store (c # cs) = Some m \<or> occurs cs m"
  then show "occurs (c # cs) m"
  proof
    assume "match_store (c # cs) = Some m"
    then show ?thesis using match_store_iff unfolding occurs_def by (metis append_Nil)
  next
    assume "occurs cs m"
    then show ?thesis unfolding occurs_def by (metis append_Cons)
  qed
qed

lemma occurs_skip:
  assumes "match_store s = Some m"
  shows "occurs s m' \<longleftrightarrow> m' = m \<or> occurs (drop (length m) s) m'"
proof -
  obtain b where m: "store_path m" "s = m @ b" "ends_name b" using assms match_store_iff by blast
  show ?thesis
  proof
    assume "occurs s m'"
    then obtain a c where o: "store_path m'" "s = a @ m' @ c" "ends_name c" unfolding occurs_def by blast
    show "m' = m \<or> occurs (drop (length m) s) m'"
    proof (cases "a = []")
      case True
      then have "match_store s = Some m'" using o match_store_iff by auto
      then show ?thesis using assms by simp
    next
      case False
      then have "length m \<le> length a" using store_paths_apart[OF m(1,2) o(1,2)] by blast
      then have "drop (length m) s = drop (length m) a @ m' @ c" using o(2) by simp
      then show ?thesis using o(1,3) unfolding occurs_def by blast
    qed
  next
    assume "m' = m \<or> occurs (drop (length m) s) m'"
    then show "occurs s m'"
    proof
      assume "m' = m" then show ?thesis using m unfolding occurs_def by (metis append_Nil)
    next
      assume "occurs (drop (length m) s) m'"
      then obtain a c where "store_path m'" "b = a @ m' @ c" "ends_name c" unfolding occurs_def using m(2) by auto
      then show ?thesis using m(2) unfolding occurs_def by (metis append.assoc)
    qed
  qed
qed

lemma find_all_occurs: "m \<in> set (find_all s) \<longleftrightarrow> occurs s m"
proof (induction s rule: find_all.induct)
  case (1 s)
  show ?case
  proof (cases s)
    case Nil
    then show ?thesis by (simp add: find_all.simps occurs_def store_path_def)
  next
    case (Cons c cs)
    show ?thesis
    proof (cases "match_store s")
      case None
      then show ?thesis using 1(1)[OF Cons None] occurs_Cons[of c cs m] Cons by (simp add: find_all.simps)
    next
      case (Some m0)
      have "find_all s = m0 # find_all (drop (length m0) s)" using find_all.simps[of s] Cons Some by simp
      then show ?thesis using 1(2)[OF Cons Some] occurs_skip[OF Some, of m] by simp
    qed
  qed
qed

text \<open>C21: The collected paths are, each once, exactly the store paths that occur in the output, each taken to its end.\<close>

theorem CollectStorePaths_exact:
  "distinct (CollectStorePaths raw) \<and>
   set (CollectStorePaths raw) = {m. store_path m \<and> (\<exists>a b. raw = a @ m @ b \<and> ends_name b)}"
  using find_all_occurs set_dedup by (auto simp: CollectStorePaths_def occurs_def)

subsection \<open>Links\<close>

definition gcRootDir :: string where "gcRootDir = ''.nix-compose''"

definition root_link :: "string \<Rightarrow> nat \<Rightarrow> string" where
  "root_link dir i = join_paths [dir, ''gc-root-'' @ show_nat i]"

type_synonym store_runner = "string list \<Rightarrow> disk \<Rightarrow> error option \<times> disk"

fun create_roots :: "store_runner \<Rightarrow> string \<Rightarrow> nat \<Rightarrow> string list \<Rightarrow> disk \<Rightarrow> error option \<times> disk" where
  "create_roots run dir i [] d = (None, d)"
| "create_roots run dir i (sp # sps) d =
     (let link = root_link dir i; d1 = snd (os_Remove link d) in
      case run [''nix-store'', ''--realise'', ''--add-root'', link, sp] d1 of
        (Some e, d2) \<Rightarrow> (Some (Err (''adding gc root for '' @ sp)), d2)
      | (None, d2) \<Rightarrow> create_roots run dir (Suc i) sps d2)"

definition Create :: "store_runner \<Rightarrow> string \<Rightarrow> string list \<Rightarrow> disk \<Rightarrow> error option \<times> disk" where
  "Create run projectDir storePaths d =
     (if storePaths = [] then (None, d)
      else let dir = join_paths [projectDir, gcRootDir] in
        case os_MkdirAll dir d of
          (Some e, d1) \<Rightarrow> (Some (Err ''creating gc-root directory''), d1)
        | (None, d1) \<Rightarrow> create_roots run dir 0 storePaths d1)"

definition matches_root :: "string \<Rightarrow> bool" where
  "matches_root name \<longleftrightarrow> has_prefix name ''gc-root-''"

definition remove_entry :: "string \<Rightarrow> string \<times> bool \<Rightarrow> disk \<Rightarrow> disk" where
  "remove_entry dir e d = (if matches_root (fst e) then snd (os_Remove (join_paths [dir, fst e]) d) else d)"

definition Remove :: "string \<Rightarrow> disk \<Rightarrow> error option \<times> disk" where
  "Remove projectDir d =
     (let dir = join_paths [projectDir, gcRootDir] in
      case os_ReadDir dir d of
        Inl NotExist \<Rightarrow> (None, d)
      | Inl (OsErr e) \<Rightarrow> (Some (Err ''reading gc-root directory''), d)
      | Inr entries \<Rightarrow> (None, snd (os_Remove dir (fold (remove_entry dir) entries d))))"

definition Exists :: "string \<Rightarrow> disk \<Rightarrow> bool" where
  "Exists projectDir d =
     (case os_ReadDir (join_paths [projectDir, gcRootDir]) d of
        Inl _ \<Rightarrow> False
      | Inr entries \<Rightarrow> list_ex (\<lambda>e. matches_root (fst e)) entries)"

definition EnsureDir :: "string \<Rightarrow> disk \<Rightarrow> error option \<times> disk" where
  "EnsureDir projectDir d =
     (case os_MkdirAll (join_paths [projectDir, gcRootDir]) d of
        (Some e, d1) \<Rightarrow> (Some (Err ''creating .nix-compose directory''), d1) | (None, d1) \<Rightarrow> (None, d1))"

text \<open>What \<open>nix-store --realise --add-root\<close> documents: when it succeeds the link points to the path.\<close>

definition adds_root :: "store_runner \<Rightarrow> bool" where
  "adds_root run \<longleftrightarrow>
     (\<forall>link sp d d'. run [''nix-store'', ''--realise'', ''--add-root'', link, sp] d = (None, d') \<longrightarrow>
        dkFiles d' = AList.update (path_elems link) (Link sp) (dkFiles d) \<and> dkDirs d' = dkDirs d \<and> dkFault d' = dkFault d)"

lemma add_root:
  "adds_root run \<Longrightarrow> run [''nix-store'', ''--realise'', ''--add-root'', link, sp] d = (None, d') \<Longrightarrow>
    dkFiles d' = AList.update (path_elems link) (Link sp) (dkFiles d) \<and> dkDirs d' = dkDirs d \<and> dkFault d' = dkFault d"
  unfolding adds_root_def by blast

lemma remove_frame: "dkFault (snd (os_Remove p d)) = dkFault d"
  by (auto simp: os_Remove_def Let_def split: option.splits)

lemma remove_files:
  "x \<noteq> path_elems p \<Longrightarrow> map_of (dkFiles (snd (os_Remove p d))) x = map_of (dkFiles d) x"
  by (auto simp: os_Remove_def Let_def delete_conv' split: option.splits)

lemma create_keeps:
  assumes run: "adds_root run" and "create_roots run dir i sps d = (None, d')" "\<forall>j \<ge> i. x \<noteq> path_elems (root_link dir j)"
  shows "map_of (dkFiles d') x = map_of (dkFiles d) x"
  using assms(2,3)
proof (induction sps arbitrary: i d)
  case (Cons sp sps)
  obtain d2 where r: "run [''nix-store'', ''--realise'', ''--add-root'', root_link dir i, sp] (snd (os_Remove (root_link dir i) d)) = (None, d2)"
    "create_roots run dir (Suc i) sps d2 = (None, d')"
    using Cons.prems(1) by (auto simp: Let_def split: prod.splits option.splits)
  have "map_of (dkFiles d') x = map_of (dkFiles d2) x" using Cons.IH[OF r(2)] Cons.prems(2) by simp
  also have "\<dots> = map_of (dkFiles d) x"
    using add_root[OF run r(1)] Cons.prems(2) remove_files by (simp add: update_conv')
  finally show ?case .
qed simp

lemma create_links:
  assumes run: "adds_root run" and "create_roots run dir i sps d = (None, d')" "k < length sps"
    and inj: "\<And>a b. path_elems (root_link dir a) = path_elems (root_link dir b) \<Longrightarrow> a = b"
  shows "map_of (dkFiles d') (path_elems (root_link dir (i + k))) = Some (Link (sps ! k))"
  using assms(2,3)
proof (induction sps arbitrary: i d k)
  case (Cons sp sps)
  obtain d2 where r: "run [''nix-store'', ''--realise'', ''--add-root'', root_link dir i, sp] (snd (os_Remove (root_link dir i) d)) = (None, d2)"
    "create_roots run dir (Suc i) sps d2 = (None, d')"
    using Cons.prems(1) by (auto simp: Let_def split: prod.splits option.splits)
  show ?case
  proof (cases k)
    case 0
    have "map_of (dkFiles d') (path_elems (root_link dir i)) = map_of (dkFiles d2) (path_elems (root_link dir i))"
      by (rule create_keeps[OF run r(2)]) (use inj in \<open>metis not_less_eq_eq order_refl\<close>)
    then show ?thesis using 0 add_root[OF run r(1)] by (simp add: update_conv')
  next
    case (Suc k')
    then show ?thesis using Cons.IH[OF r(2), of k'] Cons.prems(2) by simp
  qed
qed simp

lemma root_link_elems:
  assumes "dir_ok p"
  shows "path_elems (root_link (join_paths [p, gcRootDir]) i) = path_elems p @ [gcRootDir, ''gc-root-'' @ show_nat i]"
proof -
  have g: "elem_ok gcRootDir" by (simp add: gcRootDir_def elem_ok_def)
  have "CHR ''/'' \<notin> set (show_nat i)"
  proof
    assume "CHR ''/'' \<in> set (show_nat i)"
    then obtain v where "digit_val (CHR ''/'') = Some v" using show_nat_digits by blast
    then show False by (simp add: digit_val_def split: if_splits)
  qed
  then have e: "elem_ok (''gc-root-'' @ show_nat i)" by (simp add: elem_ok_def)
  show ?thesis unfolding root_link_def
    using join_below(3)[OF join_below(2)[OF assms g] e] join_below(3)[OF assms g] by simp
qed

lemma root_link_inj:
  assumes "dir_ok p" and "path_elems (root_link (join_paths [p, gcRootDir]) a) = path_elems (root_link (join_paths [p, gcRootDir]) b)"
  shows "a = b"
proof -
  have "show_nat a = show_nat b" using assms(2) unfolding root_link_elems[OF assms(1)] by simp
  then have "read_nat (show_nat a) = read_nat (show_nat b)" by (rule arg_cong)
  then show ?thesis by simp
qed


text \<open>A runner that does what the manual says.\<close>

definition link_store :: store_runner where
  "link_store args d =
     (case args of
        [_, _, _, link, sp] \<Rightarrow> (None, d\<lparr>dkFiles := AList.update (path_elems link) (Link sp) (dkFiles d)\<rparr>)
      | _ \<Rightarrow> (Some (Err ''usage''), d))"

lemma link_store_adds: "adds_root link_store"
  by (auto simp: adds_root_def link_store_def)

definition demo_path :: string where
  "demo_path = ''/nix/store/abc12345678901234567890123456789-app''"

definition root_disk :: disk where
  "root_disk = \<lparr>dkDirs = [['''']], dkFiles = [], dkFault = \<lambda>_. None\<rparr>"


end
