(* ===== verification/Server.thy ===== *)
theory Server
  imports Convert Cli_Up Logs
begin

text \<open>
  The gRPC server of the orchestration engine (\<open>orchestrate/server/server.go\<close>), and the two places of the
  command line that run the same pipeline without it (\<open>orchestrateUp\<close> in \<open>cli/up.go\<close>,
  \<open>computeOrchestratePlan\<close> in \<open>cli/plan.go\<close>).

  A request is a record, an answer the response or a status code with its message.  The engine is opened
  and closed within each handler; its state is the database and the world.  Decoding the JSON of a
  composition, opening the database, the hash of a service and fresh ids are fields of the environment.
\<close>

datatype grpc_error = InvalidArgument string | NotFound string | Internal string | Plain string | GoPanic string

text \<open>\<open>Plain\<close> is an ordinary error returned by a handler; a panic of the code below a handler is not turned into a
  status.\<close>

fun internal :: "string \<Rightarrow> error \<Rightarrow> grpc_error" where
  "internal what (Err s) = Internal (what @ '': '' @ s)"
| "internal what (Panic s) = GoPanic s"

record ('b, 'w) server =
  svRuntime :: "'w runtime"
  svContext :: "('b, 'w) request_context"
  svRemoveImage :: "string \<Rightarrow> 'w \<Rightarrow> error option \<times> 'w"
  svWait :: "'w wait_env"
  svCancelled :: "nat \<Rightarrow> bool"
  svOpen :: "'b db \<Rightarrow> error option"
  svDecode :: "string \<Rightarrow> error + composition"
  svHash :: "service \<Rightarrow> string"
  svBridgeId :: string
  svPlanId :: string
  svCniRemove :: "(string \<Rightarrow> 'w \<Rightarrow> error option \<times> 'w) option"
  svVolRemoveAll :: "(string \<Rightarrow> 'w \<Rightarrow> error option \<times> 'w) option"
  svVersion :: "'w \<Rightarrow> error + string \<times> string"
  svExec :: "string \<Rightarrow> string list \<Rightarrow> int \<Rightarrow> 'w \<Rightarrow> (error + string \<times> string \<times> int) \<times> 'w"

definition server_bolt :: "('b, 'w) server \<Rightarrow> 'b bolt" where
  "server_bolt S = rcBolt (svContext S)"

definition server_waits :: "('b, 'w) server \<Rightarrow> ('b, 'w) waits" where
  "server_waits S = engine_waits (svWait S) (rcRegistry (svContext S)) (Some (svRuntime S)) (server_bolt S)"

subsection \<open>From a composition to a plan\<close>

text \<open>Convert, open the engine, bridge and plan.\<close>

definition plan_composition :: "('b, 'w) server \<Rightarrow> composition \<Rightarrow> string \<Rightarrow> bool \<Rightarrow> 'b db \<Rightarrow> error + plan" where
  "plan_composition S c project useCNI db =
     (case Convert (svHash S) c \<lparr>optProject = project, optUseCNI = useCNI\<rparr> of
        Inl e \<Rightarrow> Inl e
      | Inr result \<Rightarrow>
          (case svOpen S db of
             Some e \<Rightarrow> Inl e
           | None \<Rightarrow>
               (case Bridge (svBridgeId S) (rcRegistry (svContext S)) result of
                  Inl e \<Rightarrow> Inl e
                | Inr (d, conditions) \<Rightarrow> EnginePlan (server_bolt S) db (svPlanId S) d conditions)))"

definition planFromComposition :: "('b, 'w) server \<Rightarrow> string \<Rightarrow> string \<Rightarrow> bool \<Rightarrow> 'b db \<Rightarrow> error + plan" where
  "planFromComposition S compJSON project useCNI db =
     (case svDecode S compJSON of Inl e \<Rightarrow> Inl e | Inr c \<Rightarrow> plan_composition S c project useCNI db)"

record proto_action =
  paType :: action_type
  paResourceId :: string
  paKind :: string
  paReason :: string

fun proto_actions :: "action list \<Rightarrow> error + proto_action list" where
  "proto_actions [] = Inr []"
| "proto_actions (a # as) =
     (case GetGVK (acKey a) of
        Inl e \<Rightarrow> Inl e
      | Inr g \<Rightarrow>
          (case proto_actions as of
             Inl e \<Rightarrow> Inl e
           | Inr ps \<Rightarrow>
               Inr (\<lparr>paType = acType a, paResourceId = acResourceID a, paKind = gvkKind g, paReason = acReason a\<rparr> # ps)))"

record plan_response =
  prActions :: "proto_action list"
  prCreates :: nat
  prUpdates :: nat
  prDestroys :: nat
  prNoops :: nat

definition planToActions :: "plan \<Rightarrow> error + plan_response" where
  "planToActions p =
     (case proto_actions (plActions p) of
        Inl e \<Rightarrow> Inl e
      | Inr as \<Rightarrow>
          (case Summary p of (creates, updates, destroys, noops) \<Rightarrow>
             Inr \<lparr>prActions = as, prCreates = creates, prUpdates = updates, prDestroys = destroys, prNoops = noops\<rparr>))"

definition no_work :: "plan_response \<Rightarrow> bool" where
  "no_work r \<longleftrightarrow> prCreates r + prUpdates r + prDestroys r = 0"

subsection \<open>The handlers\<close>

record plan_request =
  pqProject :: string
  pqCompositionJson :: string
  pqUseCni :: bool

definition ServerPlan :: "('b, 'w) server \<Rightarrow> plan_request \<Rightarrow> 'b db \<times> 'w \<Rightarrow> grpc_error + plan_response" where
  "ServerPlan S req st =
     (if pqProject req = '''' then Inl (InvalidArgument ''project is required'')
      else if pqCompositionJson req = '''' then Inl (InvalidArgument ''composition_json is required'')
      else case planFromComposition S (pqCompositionJson req) (pqProject req) (pqUseCni req) (fst st) of
        Inl e \<Rightarrow> Inl (internal ''plan failed'' e)
      | Inr p \<Rightarrow> (case planToActions p of Inl e \<Rightarrow> Inl (internal '''' e) | Inr resp \<Rightarrow> Inr resp))"

definition ServerApply :: "('b, 'w) server \<Rightarrow> plan_request \<Rightarrow> 'b db \<times> 'w \<Rightarrow> (grpc_error + plan_response) \<times> 'b db \<times> 'w" where
  "ServerApply S req st =
     (if pqProject req = '''' then (Inl (InvalidArgument ''project is required''), st)
      else if pqCompositionJson req = '''' then (Inl (InvalidArgument ''composition_json is required''), st)
      else case planFromComposition S (pqCompositionJson req) (pqProject req) (pqUseCni req) (fst st) of
        Inl e \<Rightarrow> (Inl (internal ''plan failed'' e), st)
      | Inr p \<Rightarrow>
          (case planToActions p of
             Inl e \<Rightarrow> (Inl (internal '''' e), st)
           | Inr resp \<Rightarrow>
               if prCreates resp + prUpdates resp + prDestroys resp > 0
               then (case ApplySync (svCancelled S) (svContext S) (server_waits S) p st of
                       (Some e, st') \<Rightarrow> (Inl (internal ''apply failed'' e), st')
                     | (None, st') \<Rightarrow> (Inr resp, st'))
               else (Inr resp, st)))"

record teardown_request =
  tqProject :: string
  tqTimeout :: int
  tqRemoveVolumes :: bool
  tqCompositionJson :: string

text \<open>Errors of the two stores are dropped.\<close>

definition best_effort :: "('w \<Rightarrow> error option \<times> 'w) \<Rightarrow> 'w \<Rightarrow> 'w" where
  "best_effort f w = snd (f w)"

definition teardown_cleanup :: "('b, 'w) server \<Rightarrow> string \<Rightarrow> bool \<Rightarrow> 'w \<Rightarrow> 'w" where
  "teardown_cleanup S project removeVolumes w =
     (let w1 = (case svCniRemove S of None \<Rightarrow> w | Some f \<Rightarrow> best_effort (f project) w)
      in if removeVolumes then (case svVolRemoveAll S of None \<Rightarrow> w1 | Some f \<Rightarrow> best_effort (f project) w1) else w1)"

definition Teardown :: "('b, 'w) server \<Rightarrow> teardown_request \<Rightarrow> 'b db \<times> 'w \<Rightarrow> (grpc_error + unit) \<times> 'b db \<times> 'w" where
  "Teardown S req st =
     (if tqProject req = '''' then (Inl (InvalidArgument ''project is required''), st)
      else
        let timeout = (if tqTimeout req = 0 then 10 else tqTimeout req);
            comp_error = (if tqCompositionJson req = '''' then None
                          else case svDecode S (tqCompositionJson req) of Inl e \<Rightarrow> Some e | Inr c \<Rightarrow> None)
        in case comp_error of
             Some e \<Rightarrow> (Inl (InvalidArgument (''invalid composition_json: '' @ error_text e)), st)
           | None \<Rightarrow>
               (case ProjectDown (svRuntime S) (tqProject req) timeout (snd st) of
                  (Some e, w1) \<Rightarrow> (Inl (internal ''teardown failed'' e), fst st, w1)
                | (None, w1) \<Rightarrow> (Inr (), fst st, teardown_cleanup S (tqProject req) (tqRemoveVolumes req) w1)))"

record rollout_info =
  riInstanceId :: string
  riInstanceKey :: string
  riStatus :: string
  riBody :: raw

definition ServerState :: "('b, 'w) server \<Rightarrow> 'b db \<Rightarrow> grpc_error + rollout_info list" where
  "ServerState S db =
     (case svOpen S db of
        Some e \<Rightarrow> Inl (internal ''starting engine'' e)
      | None \<Rightarrow> Inr (map (\<lambda>r. \<lparr>riInstanceId = roInstanceId r, riInstanceKey = roInstanceKey r,
            riStatus = (case roStatus r of None \<Rightarrow> ''unknown'' | Some s \<Rightarrow> rsShort s), riBody = roBody r\<rparr>)
          (EngineState (server_bolt S) db)))"

text \<open>An unhealthy runtime is an answer, not an error.\<close>

definition ServerHealth :: "('b, 'w) server \<Rightarrow> 'w \<Rightarrow> bool \<times> string \<times> string" where
  "ServerHealth S w = (case svVersion S w of Inl _ \<Rightarrow> (False, '''', '''') | Inr (name, version) \<Rightarrow> (True, name, version))"

record exec_request =
  eqProject :: string
  eqService :: string
  eqCmd :: "string list"
  eqTimeout :: int

definition ServerExecSync :: "('b, 'w) server \<Rightarrow> exec_request \<Rightarrow> 'w \<Rightarrow> (grpc_error + string \<times> string \<times> int) \<times> 'w" where
  "ServerExecSync S req w =
     (if eqProject req = '''' then (Inl (InvalidArgument ''project is required''), w)
      else if eqService req = '''' then (Inl (InvalidArgument ''service is required''), w)
      else if eqCmd req = [] then (Inl (InvalidArgument ''cmd is required''), w)
      else case lookupContainerID (svRuntime S) (eqProject req) (eqService req) w of
        Inl e \<Rightarrow> (Inl (NotFound (''finding container: '' @ error_text e)), w)
      | Inr ctr \<Rightarrow>
          (case svExec S ctr (eqCmd req) (eqTimeout req) w of
             (Inl e, w') \<Rightarrow> (Inl (internal ''exec sync'' e), w')
           | (Inr r, w') \<Rightarrow> (Inr r, w')))"

record logs_request =
  lqProject :: string
  lqServices :: "string list"
  lqFollow :: bool
  lqTimestamps :: bool
  lqTail :: string
  lqSince :: string

text \<open>\<open>send\<close> is \<open>stream.Send\<close> after the entries that were sent before; the result are the entries sent.\<close>

definition ServerLogs :: "(string \<Rightarrow> int option) \<Rightarrow> log_clock \<Rightarrow> (string \<Rightarrow> open_error + string) \<Rightarrow> log_files \<Rightarrow> log_files list \<Rightarrow>
    (log_entry list \<Rightarrow> log_entry \<Rightarrow> error option) \<Rightarrow> string \<Rightarrow> logs_request \<Rightarrow> (grpc_error option) \<times> log_entry list" where
  "ServerLogs ptime clock open_file start ticks send base req =
     (if lqProject req = '''' then (Some (InvalidArgument ''project is required''), [])
      else
        let opts = \<lparr>loTimestamps = lqTimestamps req, loNoLogPrefix = False, loTail = lqTail req, loSince = lqSince req\<rparr>
        in case emit_entries send [] (CollectAndFilter ptime clock open_file base (lqProject req) (lqServices req) opts) of
             (Some e, sent) \<Rightarrow> (Some (Plain (''sending log entry: '' @ error_text e)), sent)
           | (None, sent) \<Rightarrow>
               if \<not> lqFollow req then (None, sent)
               else (case FollowStream ptime (\<lambda>em. send (sent @ em)) start ticks base (lqProject req) (lqServices req) of
                       (e, later) \<Rightarrow> (map_option (\<lambda>e. Plain (error_text e)) e, sent @ later)))"

record drift_item =
  diResourceId :: string
  diKind :: string
  diExpected :: string
  diActual :: string
  diReason :: string

fun drift_items :: "drift_result list \<Rightarrow> error + drift_item list" where
  "drift_items [] = Inr []"
| "drift_items (r # rs) =
     (case GetGVK (drKey r) of
        Inl e \<Rightarrow> Inl e
      | Inr g \<Rightarrow>
          (case drift_items rs of
             Inl e \<Rightarrow> Inl e
           | Inr is \<Rightarrow>
               Inr (\<lparr>diResourceId = drResourceID r, diKind = gvkKind g, diExpected = drExpected r, diActual = drActual r,
                 diReason = drReason r\<rparr> # is)))"

definition ServerDrift :: "('b, 'w) server \<Rightarrow> 'b db \<times> 'w \<Rightarrow> grpc_error + drift_item list" where
  "ServerDrift S st =
     (case svOpen S (fst st) of
        Some e \<Rightarrow> Inl (internal ''starting engine'' e)
      | None \<Rightarrow>
          (case drift_items (DriftCheck (Some (CriClient (svRuntime S) (svRemoveImage S))) (rcRegistry (svContext S))
                  (server_bolt S) (fst st) (snd st)) of
             Inl e \<Rightarrow> Inl (internal ''drift check'' e) | Inr is \<Rightarrow> Inr is))"

definition ServerRollback :: "('b, 'w) server \<Rightarrow> string \<Rightarrow> bool \<Rightarrow> 'b db \<times> 'w \<Rightarrow> (grpc_error + plan_response) \<times> 'b db \<times> 'w" where
  "ServerRollback S deploymentID dryRun st =
     (if deploymentID = '''' then (Inl (InvalidArgument ''deployment_id is required''), st)
      else case svOpen S (fst st) of
        Some e \<Rightarrow> (Inl (internal ''starting engine'' e), st)
      | None \<Rightarrow>
          (case EngineRollback (svCancelled S) (svContext S) (server_waits S) (svBridgeId S) (svPlanId S) deploymentID dryRun st of
             (Inl e, st') \<Rightarrow> (Inl (internal ''rollback failed'' e), st')
           | (Inr p, st') \<Rightarrow>
               (case planToActions p of Inl e \<Rightarrow> (Inl (internal '''' e), st') | Inr resp \<Rightarrow> (Inr resp, st'))))"

subsection \<open>The same pipeline on the command line\<close>

text \<open>\<open>setupCNI\<close> writes the network configuration, unless a plugin is missing, and says whether it can be used.\<close>

definition setupCNI :: "('w \<Rightarrow> string list) \<Rightarrow> (string \<Rightarrow> 'w \<Rightarrow> error option \<times> 'w) \<Rightarrow> string \<Rightarrow> 'w \<Rightarrow> bool \<times> 'w" where
  "setupCNI missing write project w =
     (if missing w \<noteq> [] then (False, w)
      else case write project w of (Some _, w1) \<Rightarrow> (False, w1) | (None, w1) \<Rightarrow> (True, w1))"

text \<open>\<open>setup\<close> is \<open>setupCNI\<close> with its two parameters; \<open>newStore\<close> is the volume store.
  Printing the plan computes the kind of every action first.\<close>

definition orchestrateUp :: "('b, 'w) server \<Rightarrow> (string \<Rightarrow> 'w \<Rightarrow> bool \<times> 'w) \<Rightarrow> ('w \<Rightarrow> error option) \<Rightarrow> string \<Rightarrow> composition \<Rightarrow>
    'b db \<times> 'w \<Rightarrow> error option \<times> 'b db \<times> 'w" where
  "orchestrateUp S setup newStore project c st =
     (case setup project (snd st) of (useCNI, w1) \<Rightarrow>
      (case Convert (svHash S) c \<lparr>optProject = project, optUseCNI = useCNI\<rparr> of
         Inl e \<Rightarrow> (Some e, fst st, w1)
       | Inr result \<Rightarrow>
           (case newStore w1 of
              Some e \<Rightarrow> (Some e, fst st, w1)
            | None \<Rightarrow>
                (case svOpen S (fst st) of
                   Some e \<Rightarrow> (Some e, fst st, w1)
                 | None \<Rightarrow>
                     (case Bridge (svBridgeId S) (rcRegistry (svContext S)) result of
                        Inl e \<Rightarrow> (Some e, fst st, w1)
                      | Inr (d, conditions) \<Rightarrow>
                          (case EnginePlan (server_bolt S) (fst st) (svPlanId S) d conditions of
                             Inl e \<Rightarrow> (Some e, fst st, w1)
                           | Inr p \<Rightarrow>
                               (case proto_actions (plActions p) of
                                  Inl e \<Rightarrow> (Some e, fst st, w1)
                                | Inr _ \<Rightarrow>
                                    (case Summary p of (creates, updates, destroys, _) \<Rightarrow>
                                       if creates + updates + destroys = 0 then (None, fst st, w1)
                                       else ApplySync (svCancelled S) (svContext S) (server_waits S) p (fst st, w1)))))))))"

text \<open>\<open>up\<close> with a remote server: evaluate here, send the composition, let the server apply it.  Only the presence of
  the plugins is looked at.\<close>

definition evalForOrchestrate :: "('w \<Rightarrow> (error + composition) \<times> 'w) \<Rightarrow> resolver option \<Rightarrow> string list \<Rightarrow> 'w \<Rightarrow> (error + composition) \<times> 'w" where
  "evalForOrchestrate evaluate resolver profiles w =
     (case evaluate w of
        (Inl e, w1) \<Rightarrow> (Inl e, w1)
      | (Inr c, w1) \<Rightarrow> (transformComposition resolver profiles c, w1))"

definition remoteUp :: "('b, 'w) server \<Rightarrow> ('w \<Rightarrow> (error + composition) \<times> 'w) \<Rightarrow> resolver option \<Rightarrow> (composition \<Rightarrow> error + string) \<Rightarrow>
    ('w \<Rightarrow> string list) \<Rightarrow> string \<Rightarrow> string list \<Rightarrow> 'b db \<times> 'w \<Rightarrow> (grpc_error + plan_response) \<times> 'b db \<times> 'w" where
  "remoteUp S evaluate resolver marshal missing project profiles st =
     (case evalForOrchestrate evaluate resolver profiles (snd st) of
        (Inl e, w1) \<Rightarrow> (Inl (Plain (error_text e)), fst st, w1)
      | (Inr c, w1) \<Rightarrow>
          (case marshal c of
             Inl e \<Rightarrow> (Inl (Plain (error_text e)), fst st, w1)
           | Inr json \<Rightarrow>
               ServerApply S \<lparr>pqProject = project, pqCompositionJson = json, pqUseCni = (missing w1 = [])\<rparr> (fst st, w1)))"

subsection \<open>A plan says what an apply will do\<close>

lemma ServerApply_planned: "ServerApply S req st = (Inr resp, st') \<Longrightarrow> ServerPlan S req st = Inr resp"
  unfolding ServerApply_def ServerPlan_def by (auto split: if_splits sum.splits prod.splits option.splits)

lemma ServerApply_outcome:
  "case ServerPlan S req st of
     Inl e \<Rightarrow> ServerApply S req st = (Inl e, st)
   | Inr resp \<Rightarrow>
       (if no_work resp then ServerApply S req st = (Inr resp, st)
        else \<exists>p. planFromComposition S (pqCompositionJson req) (pqProject req) (pqUseCni req) (fst st) = Inr p \<and>
          (case ApplySync (svCancelled S) (svContext S) (server_waits S) p st of
             (None, st') \<Rightarrow> ServerApply S req st = (Inr resp, st')
           | (Some e, st') \<Rightarrow> ServerApply S req st = (Inl (internal ''apply failed'' e), st')))"
proof (cases "pqProject req = '''' \<or> pqCompositionJson req = ''''")
  case True
  then show ?thesis by (auto simp: ServerPlan_def ServerApply_def)
next
  case False
  then have g: "pqProject req \<noteq> ''''" "pqCompositionJson req \<noteq> ''''" by auto
  show ?thesis
  proof (cases "planFromComposition S (pqCompositionJson req) (pqProject req) (pqUseCni req) (fst st)")
    case (Inl e)
    then show ?thesis using g by (simp add: ServerPlan_def ServerApply_def)
  next
    case (Inr p)
    show ?thesis
    proof (cases "planToActions p")
      case (Inl e)
      then show ?thesis using g Inr by (simp add: ServerPlan_def ServerApply_def)
    next
      case resp: (Inr resp)
      obtain e st' where a: "ApplySync (svCancelled S) (svContext S) (server_waits S) p st = (e, st')" by (metis surj_pair)
      show ?thesis using g Inr resp a
        by (cases e) (simp_all add: ServerPlan_def ServerApply_def no_work_def)
    qed
  qed
qed

text \<open>C13: A request that cannot be planned cannot be applied, with the same status and without an effect; one that can be
  planned is answered by an apply with exactly the planned actions, or with the error of the engine, and a plan without
  work changes nothing.\<close>

theorem ServerApply_follows_plan:
  "case ServerPlan S req st of
     Inl e \<Rightarrow> ServerApply S req st = (Inl e, st)
   | Inr resp \<Rightarrow>
       (if no_work resp then ServerApply S req st = (Inr resp, st)
        else \<exists>p. planFromComposition S (pqCompositionJson req) (pqProject req) (pqUseCni req) (fst st) = Inr p \<and>
          (case ApplySync (svCancelled S) (svContext S) (server_waits S) p st of
             (None, st') \<Rightarrow> ServerApply S req st = (Inr resp, st')
           | (Some e, st') \<Rightarrow> ServerApply S req st = (Inl (internal ''apply failed'' e), st')))"
  by (rule ServerApply_outcome)

text \<open>A successful apply through the server and the \<open>up\<close> command with the engine are the same step.\<close>

lemma proto_actions_planToActions:
  "planToActions p = (case proto_actions (plActions p) of Inl e \<Rightarrow> Inl e
     | Inr as \<Rightarrow> Inr \<lparr>prActions = as, prCreates = fst (Summary p), prUpdates = fst (snd (Summary p)),
         prDestroys = fst (snd (snd (Summary p))), prNoops = snd (snd (snd (Summary p)))\<rparr>)"
  unfolding planToActions_def by (cases "Summary p" rule: prod_cases4) (simp split: sum.splits)

text \<open>The two sides leave the same database and world, and fail together.\<close>

definition same_outcome :: "error option \<times> 'b db \<times> 'w \<Rightarrow> (grpc_error + plan_response) \<times> 'b db \<times> 'w \<Rightarrow> bool" where
  "same_outcome up remote \<longleftrightarrow> snd up = snd remote \<and> (fst up = None \<longleftrightarrow> (\<exists>resp. fst remote = Inr resp))"

lemma orchestrateUp_server:
  assumes "pqProject req \<noteq> ''''" and "pqCompositionJson req \<noteq> ''''" and "svDecode S (pqCompositionJson req) = Inr c"
    and "setup (pqProject req) w = (pqUseCni req, w1)" and "newStore w1 = None"
  shows "same_outcome (orchestrateUp S setup newStore (pqProject req) c (db, w)) (ServerApply S req (db, w1))"
proof -
  have pf: "planFromComposition S (pqCompositionJson req) (pqProject req) (pqUseCni req) db =
      plan_composition S c (pqProject req) (pqUseCni req) db" using assms(3) by (simp add: planFromComposition_def)
  have up: "orchestrateUp S setup newStore (pqProject req) c (db, w) =
      (case plan_composition S c (pqProject req) (pqUseCni req) db of
         Inl e \<Rightarrow> (Some e, db, w1)
       | Inr p \<Rightarrow>
           (case proto_actions (plActions p) of
              Inl e \<Rightarrow> (Some e, db, w1)
            | Inr _ \<Rightarrow>
                (case Summary p of (creates, updates, destroys, _) \<Rightarrow>
                   if creates + updates + destroys = 0 then (None, db, w1)
                   else ApplySync (svCancelled S) (svContext S) (server_waits S) p (db, w1))))"
    using assms(4,5) by (simp add: orchestrateUp_def plan_composition_def split: sum.splits option.splits prod.splits)
  show ?thesis
  proof (cases "plan_composition S c (pqProject req) (pqUseCni req) db")
    case (Inl e)
    then show ?thesis using assms(1,2) pf up by (simp add: same_outcome_def ServerApply_def)
  next
    case (Inr p)
    obtain cr u de no where s: "Summary p = (cr, u, de, no)" by (metis surj_pair)
    obtain e st' where a: "ApplySync (svCancelled S) (svContext S) (server_waits S) p (db, w1) = (e, st')" by (metis surj_pair)
    show ?thesis
    proof (cases "proto_actions (plActions p)")
      case (Inl x)
      then show ?thesis using assms(1,2) pf up Inr by (simp add: same_outcome_def ServerApply_def proto_actions_planToActions)
    next
      case acts: (Inr as)
      show ?thesis using assms(1,2) pf up Inr acts s a
        by (cases e) (auto simp: same_outcome_def ServerApply_def proto_actions_planToActions)
    qed
  qed
qed

lemma orchestrateUp_no_store:
  assumes "setup project w = (useCNI, w1)" and "newStore w1 = Some e"
  shows "fst (orchestrateUp S setup newStore project c (db, w)) \<noteq> None \<and> snd (orchestrateUp S setup newStore project c (db, w)) = (db, w1)"
  using assms by (simp add: orchestrateUp_def split: sum.splits)


text \<open>When the configuration cannot be written, the local command falls back to the host network; the remote one
  asks for CNI all the same.\<close>

lemma remote_ignores_failed_write:
  assumes "evalForOrchestrate evaluate resolver profiles w = (Inr c, w)" and "marshal c = Inr json"
    and "missing w = []" and "write project w = (Some e, w1)"
  shows "fst (setupCNI missing write project w) = False \<and>
    remoteUp S evaluate resolver marshal missing project profiles (db, w) =
      ServerApply S \<lparr>pqProject = project, pqCompositionJson = json, pqUseCni = True\<rparr> (db, w)"
  using assms by (simp add: setupCNI_def remoteUp_def)

subsection \<open>Teardown\<close>

text \<open>A teardown of a project stops its pods whatever composition it is given, and leaves the records of the engine as
  they are.\<close>

theorem Teardown_effect:
  assumes "Teardown S req (db, w) = (Inr (), db', w')"
  shows "db' = db \<and> (\<exists>w1. ProjectDown (svRuntime S) (tqProject req) (if tqTimeout req = 0 then 10 else tqTimeout req) w = (None, w1) \<and>
    w' = teardown_cleanup S (tqProject req) (tqRemoveVolumes req) w1)"
  using assms unfolding Teardown_def
  by (auto simp: Let_def split: if_splits option.splits prod.splits)

text \<open>The plan does not look at the runtime: what a teardown has removed still counts as running.\<close>

lemma apply_after_teardown_starts_nothing:
  assumes "ServerApply S req (db, w) = (Inr resp, db, w)" and "no_work resp"
    and "Teardown S treq (db, w) = (Inr (), db', w')"
  shows "ServerApply S req (db', w') = (Inr resp, db', w')"
proof -
  have d: "db' = db" using Teardown_effect[OF assms(3)] by simp
  have pl: "ServerPlan S req (db, w') = ServerPlan S req (db, w)" by (simp add: ServerPlan_def)
  have "ServerPlan S req (db, w) = Inr resp" by (rule ServerApply_planned[OF assms(1)])
  then show ?thesis using ServerApply_outcome[of S req "(db, w')"] pl assms(2) d by simp
qed

text \<open>A teardown that names no project is refused; the shutdown of a virtual machine sends nothing else.\<close>

lemma nameless_teardown_refused:
  "tqProject req = '''' \<Longrightarrow> Teardown S req st = (Inl (InvalidArgument ''project is required''), st)"
  by (simp add: Teardown_def)

subsection \<open>Logs\<close>

text \<open>Without names of services the server reads no log; the command line asks for all services in this way.\<close>

lemma remote_logs_of_no_service:
  assumes "lqServices req = []" and "lqProject req \<noteq> ''''" and "lqFollow req = False"
  shows "ServerLogs ptime clock open_file start ticks send base req = (None, [])"
proof -
  have "collectEntries ptime open_file base (lqProject req) [] = ([], [])"
    by (simp add: collectEntries_def JoinPartials_def)
  then have "CollectAndFilter ptime clock open_file base (lqProject req) [] opts = []" for opts
    by (auto simp: CollectAndFilter_def applyFilters_def FilterSince_def TailEntries_def split: sum.splits if_splits)
  then show ?thesis using assms by (simp add: ServerLogs_def Let_def)
qed

subsection \<open>Witnesses\<close>

text \<open>A service on the host network over the runtime in memory.\<close>

definition host_comp :: composition where
  "host_comp = \<lparr>compServices = [(''web'', demo_service\<lparr>svcNetworkMode := ''host''\<rparr>)], compNetworks = [], compVolumes = [], compMicroVM = None\<rparr>"

definition mem_client :: "rt_mem cri_client option" where
  "mem_client = Some (CriClient mem_runtime (\<lambda>i w. (None, w)))"

definition mem_registry :: "rt_mem registry" where
  "mem_registry = map (\<lambda>d. (defKey d, d)) (NewCRIProvider_defs mem_client None None)"

definition demo_server :: "(raw gomap, rt_mem) server" where
  "demo_server = \<lparr>svRuntime = mem_runtime,
     svContext = \<lparr>rcBolt = mem_bolt, rcRegistry = mem_registry,
       rcProviders = \<lparr>prProviders = [], prRouting = [], prRegistry = mem_registry\<rparr>\<rparr>,
     svRemoveImage = (\<lambda>i w. (None, w)),
     svWait = \<lparr>weAfter = (\<lambda>d m. m), weRounds = (\<lambda>d m. 1), weExecSync = (\<lambda>m c cmd t. Inr 0), weHTTPGet = (\<lambda>m u. Inr 200),
       weDial = (\<lambda>m a. None)\<rparr>,
     svCancelled = (\<lambda>n. False), svOpen = (\<lambda>d. None),
     svDecode = (\<lambda>s. Inr host_comp),
     svHash = (\<lambda>s. ''v1''), svBridgeId = ''b'', svPlanId = ''p'', svCniRemove = None, svVolRemoveAll = None,
     svVersion = (\<lambda>w. Inr (''containerd'', ''2'')), svExec = (\<lambda>c cmd t w. (Inr ('''', '''', 0), w))\<rparr>"

definition demo_request :: plan_request where
  "demo_request = \<lparr>pqProject = ''p'', pqCompositionJson = ''{}'', pqUseCni = False\<rparr>"

lemma Teardown_effect_witness:
  "\<exists>db' w'. Teardown demo_server \<lparr>tqProject = ''p'', tqTimeout = 0, tqRemoveVolumes = False, tqCompositionJson = ''''\<rparr> (empty_db, demo_mem) =
     (Inr (), db', w') \<and> db' = empty_db \<and> (\<exists>w1. ProjectDown mem_runtime ''p'' 10 demo_mem = (None, w1))"
proof -
  let ?req = "\<lparr>tqProject = ''p'', tqTimeout = 0, tqRemoveVolumes = False, tqCompositionJson = ''''\<rparr>"
  have "case fst (Teardown demo_server ?req (empty_db, demo_mem)) of Inl _ \<Rightarrow> False | Inr _ \<Rightarrow> True" by code_simp
  then obtain db' w' where t: "Teardown demo_server ?req (empty_db, demo_mem) = (Inr (), db', w')"
    by (cases "Teardown demo_server ?req (empty_db, demo_mem)") (auto split: sum.splits)
  from Teardown_effect[OF this] t show ?thesis by (auto simp: demo_server_def)
qed

end
