(* ===== verification/First_Apply.thy ===== *)
theory First_Apply
  imports Server
begin

text \<open>
  The orchestration pipeline from end to end: a composition that the server applies to an engine without
  records is converted, bridged, planned, ordered and executed, and then every service of it runs once.

  The hypotheses are those of the parts (\<open>runtime_ok\<close> of \<open>Lifecycle\<close>, \<open>cri_registry\<close> and
  \<open>services_spec_ok\<close> of \<open>Convert\<close>) and that neither the stores nor the passing of time touch pods.
\<close>

subsection \<open>What leaves the pods alone\<close>

definition time_frame :: "'w wait_env \<Rightarrow> ('w \<Rightarrow> rt_view) \<Rightarrow> bool" where
  "time_frame env V \<longleftrightarrow> (\<forall>d w. V (weAfter env d w) = V w)"

definition cni_frame :: "'w cni_store option \<Rightarrow> ('w \<Rightarrow> rt_view) \<Rightarrow> bool" where
  "cni_frame cn V \<longleftrightarrow> (\<forall>s p w. cn = Some s \<longrightarrow> V (snd (cniWrite s p w)) = V w)"

lemma waitStarted_view: "(\<And>w. V (tick w) = V w) \<Longrightarrow> V (snd (waitStarted reg tick n i w)) = V w"
  by (induction n arbitrary: w) (auto split: option.splits)

lemma WaitExited_view: "(\<And>w. V (tick w) = V w) \<Longrightarrow> V (snd (WaitExited rt tick n c w)) = V w"
proof (induction n arbitrary: w)
  case 0
  then show ?case by (simp add: WaitExited.simps[of rt tick 0] split: sum.splits option.splits)
next
  case (Suc n)
  then show ?case by (simp add: WaitExited.simps[of rt tick "Suc n"] split: sum.splits option.splits)
qed

lemma probe_rounds_view: "time_frame env V \<Longrightarrow> V (snd (probe_rounds env n c w)) = V w"
proof (induction n arbitrary: c w)
  case 0
  then show ?case by (simp split: sum.splits)
next
  case (Suc n)
  then show ?case by (auto simp: time_frame_def split: sum.splits)
qed

lemma monitor_wait_view: "time_frame env V \<Longrightarrow> V (snd (monitor_wait env c w)) = V w"
  using probe_rounds_view[of env V] by (auto simp: monitor_wait_def Let_def time_frame_def split: option.splits)

lemma engine_waitStarted_view: "time_frame env V \<Longrightarrow> V (snd (engine_waitStarted env reg i w)) = V w"
  unfolding engine_waitStarted_def by (rule waitStarted_view) (simp add: time_frame_def)

lemma started_then:
  assumes "time_frame env V" "engine_waitStarted env reg i w = (r, w1)"
  shows "V w1 = V w"
  using engine_waitStarted_view[OF assms(1), of reg i w] assms(2) by simp

lemma exited_then:
  assumes "time_frame env V" "WaitExited rt (weAfter env d) n c w = (r, w1)"
  shows "V w1 = V w"
  using WaitExited_view[of V "weAfter env d" rt n c w] assms by (simp add: time_frame_def)

lemma waits_view:
  assumes t: "time_frame env V"
  shows "V (snd (Apply.waitCondition (engine_waits env reg (Some rt) B) i conds db w)) = V w"
proof -
  have s: "V (snd (engine_waitStarted env reg i w)) = V w" by (rule engine_waitStarted_view[OF t])
  have c: "V (snd (waitCompleted env reg (Some rt) i w)) = V w"
    by (auto simp: waitCompleted_def simp del: WaitExited.simps split: prod.splits option.splits sum.splits dest!: started_then[OF t] exited_then[OF t])
  have h: "V (snd (Conditions.waitHealthy env reg (Some rt) B i db w)) = V w"
    using s by (auto simp: Conditions.waitHealthy_def Let_def monitor_wait_view[OF t] split: prod.splits option.splits sum.splits
      dest!: started_then[OF t])
  show ?thesis
    using s c h by (simp add: Apply.waitCondition_def engine_waits_def Let_def split: option.splits)
qed

subsection \<open>Services of one project with options of their own\<close>

definition spec_options :: "'w ensure_volume option \<Rightarrow> container_spec \<Rightarrow> 'w service_up_options" where
  "spec_options vs s = \<lparr>suProject = csProject s, suVersion = csVersion s, suCompVolumes = csCompVolumes s,
     suVolumeResolver = vs, suUseCNI = csUseCNI s\<rparr>"

subsection \<open>One request\<close>

text \<open>The effect of a create request of the conversion on the pods: a service is brought up, the other kinds change none.\<close>

lemma process_manifest:
  assumes reg: "cri_registry (Some (CriClient rt rm)) cn vs (rcRegistry rc)" and ok: "manifest_ok m"
    and rt: "runtime_ok rt V" and vs: "resolver_frame vs V" and cn: "cni_frame cn V"
    and p: "Process rc (manifest_request m) (d, w) = (None, (d', w'))"
  shows "case mfSpec m of
      ServiceSpec s \<Rightarrow> ServiceUp rt (csService s) (spec_service s) (spec_options vs s) w = (None, w')
    | _ \<Rightarrow> V w' = V w"
proof -
  let ?cl = "Some (CriClient rt rm)"
  have m: "mfAPIVersion m = apiVersion" "mfKind m = spec_kind (mfSpec m)" "mdName (mfMetadata m) = spec_id (mfSpec m)"
    using ok mk_manifest_sel unfolding manifest_ok_def by metis+
  have defs: "GetDefinition (rcRegistry rc) ProjectKey = Inr (ProjectDefinition ?cl)"
    "GetDefinition (rcRegistry rc) NetworkKey = Inr (NetworkDefinition cn)"
    "GetDefinition (rcRegistry rc) ImageKey = Inr (ImageDefinition ?cl)"
    "GetDefinition (rcRegistry rc) VolumeKey = Inr (VolumeDefinition vs)"
    "GetDefinition (rcRegistry rc) ServiceKey = Inr (ServiceDefinition ?cl vs)"
    using reg unfolding cri_registry_def NewCRIProvider_defs_def
    by (auto simp: ProjectDefinition_def NetworkDefinition_def ImageDefinition_def VolumeDefinition_def ServiceDefinition_def Let_def)
  have key: "manifest_key m = apiVersion @ ''/'' @ spec_kind (mfSpec m)" by (simp add: manifest_key_def m)
  obtain i where i: "LoadInstance (rcRegistry rc) (manifest_key m) (RDoc (enc_spec (mfSpec m))) = Inr i" "instApply i w = (None, w')"
    using p unfolding manifest_request_def Process.simps ProcessCreate_def
    by (auto simp: Let_def split: sum.splits prod.splits option.splits)
  obtain def where def: "GetDefinition (rcRegistry rc) (manifest_key m) = Inr def" "defLoad def (RDoc (enc_spec (mfSpec m))) = Inr i"
    using i(1) by (auto simp: LoadInstance_def split: sum.splits if_splits)
  show ?thesis
  proof (cases "mfSpec m")
    case (ProjectSpec n)
    then have "def = ProjectDefinition ?cl" using def(1) defs(1) key by (simp add: apiVersion_def ProjectKey_def)
    then show ?thesis using ProjectSpec def(2) i(2)
      by (auto simp: ProjectDefinition_def Let_def split: sum.splits)
  next
    case (NetworkSpec n)
    then have "def = NetworkDefinition cn" using def(1) defs(2) key by (simp add: apiVersion_def NetworkKey_def)
    then obtain p where "instApply i = (\<lambda>w. case cn of None \<Rightarrow> (Some (Err ''no CNI store configured''), w) | Some s \<Rightarrow> cniWrite s p w)"
      using def(2) by (auto simp: NetworkDefinition_def Let_def split: sum.splits)
    then obtain s where "cn = Some s" "cniWrite s p w = (None, w')" using i(2) by (auto split: option.splits)
    then have "V w' = V w" using cn unfolding cni_frame_def by (metis snd_conv)
    then show ?thesis using NetworkSpec by simp
  next
    case (ImageSpec n)
    then have "def = ImageDefinition ?cl" using def(1) defs(3) key by (simp add: apiVersion_def ImageKey_def)
    then obtain img where a: "instApply i = (\<lambda>w. case clEnsureImage (CriClient rt rm) img w of (Inl e, w') \<Rightarrow> (Some e, w') | (Inr _, w') \<Rightarrow> (None, w'))"
      using def(2) by (auto simp: ImageDefinition_def Let_def split: sum.splits)
    obtain r ops where e: "EnsureImage (rtImageEnv rt w) img = (r, ops)" by (metis surj_pair)
    have "w' = rtImageOps rt ops w" using i(2) unfolding a by (auto simp: CriClient_def e split: sum.splits)
    then show ?thesis using ImageSpec runtime_okD(12)[OF rt] by simp
  next
    case (VolumeSpec p n)
    then have "def = VolumeDefinition vs" using def(1) defs(4) key by (simp add: apiVersion_def VolumeKey_def)
    then obtain q k where a: "instApply i = (\<lambda>w. case vs of None \<Rightarrow> (Some (Err ''no volume store configured''), w)
        | Some ensure \<Rightarrow> (case ensure q k w of (Inl e, w') \<Rightarrow> (Some e, w') | (Inr _, w') \<Rightarrow> (None, w')))"
      using def(2) by (auto simp: VolumeDefinition_def Let_def split: sum.splits)
    obtain f x where "vs = Some f" "f q k w = (x, w')" using i(2) unfolding a by (auto split: option.splits prod.splits sum.splits)
    then have "V w' = V w" using vs unfolding resolver_frame_def by (metis snd_conv)
    then show ?thesis using VolumeSpec by simp
  next
    case (ServiceSpec s)
    then have "def = ServiceDefinition ?cl vs" using def(1) defs(5) key by (simp add: apiVersion_def ServiceKey_def)
    moreover have "container_spec_ok s" using ok ServiceSpec by (simp add: manifest_ok_def)
    ultimately have "instApply i = container_apply ?cl vs s" using def(2) ServiceSpec dec_service_spec_enc[of s]
      by (auto simp: ServiceDefinition_def enc_service_spec_def unmarshal_struct_def Let_def)
    then show ?thesis using ServiceSpec i(2) by (simp add: container_apply_def CriClient_def spec_options_def)
  qed
qed

text \<open>A batch of such requests: each service of it runs once at the end, and other projects are left alone.\<close>

lemma run_creates_services:
  assumes reg: "cri_registry (Some (CriClient rt rm)) cn vs (rcRegistry rc)"
    and rt: "runtime_ok rt V" and vs: "resolver_frame vs V" and cn: "cni_frame cn V" and t: "time_frame env V"
    and ms: "\<forall>r \<in> set rs. \<exists>m. r = manifest_request m \<and> manifest_ok m \<and>
      (case mfSpec m of ServiceSpec s \<Rightarrow> csProject s = project \<and> T (csService s) = Some s | _ \<Rightarrow> True)"
    and run: "run_creates rc (engine_waits env (rcRegistry rc) (Some rt) (rcBolt rc)) conds rs (d, w) = Some (d', w')"
  shows "without_project project (V w') = without_project project (V w) \<and>
    (\<forall>n s. T n = Some s \<longrightarrow> csService s = n \<longrightarrow> csProject s = project \<longrightarrow>
       (\<exists>m. manifest_request m \<in> set rs \<and> manifest_ok m \<and> mfSpec m = ServiceSpec s) \<or>
         runs_once rt n (spec_service s) (spec_options vs s) (V w) \<longrightarrow>
       runs_once rt n (spec_service s) (spec_options vs s) (V w'))"
  using ms run
proof (induction rs arbitrary: d w)
  case Nil
  then show ?case by simp
next
  case (Cons r rs)
  let ?W = "engine_waits env (rcRegistry rc) (Some rt) (rcBolt rc)"
  obtain m where m: "r = manifest_request m" "manifest_ok m"
    "case mfSpec m of ServiceSpec s \<Rightarrow> csProject s = project \<and> T (csService s) = Some s | _ \<Rightarrow> True"
    using Cons.prems(1) by auto
  obtain d1 w1 w2 where p: "Process rc (manifest_request m) (d, w) = (None, (d1, w1))"
    and wt: "Apply.waitCondition ?W (GetSubjectId r) conds d1 w1 = (None, w2)"
    and rest: "run_creates rc ?W conds rs (d1, w2) = Some (d', w')"
    using Cons.prems(2) m(1) by (auto split: prod.splits option.splits)
  have v2: "V w2 = V w1" using waits_view[OF t, of "rcRegistry rc" rt "rcBolt rc" "GetSubjectId r" conds d1 w1] wt by simp
  note eff = process_manifest[OF reg m(2) rt vs cn p]
  have fr: "resolver_frame (suVolumeResolver (spec_options vs s)) V" for s using vs by (simp add: spec_options_def)
  have IH: "without_project project (V w') = without_project project (V w2)"
    "\<And>n s. T n = Some s \<Longrightarrow> csService s = n \<Longrightarrow> csProject s = project \<Longrightarrow>
       (\<exists>m. manifest_request m \<in> set rs \<and> manifest_ok m \<and> mfSpec m = ServiceSpec s) \<or>
         runs_once rt n (spec_service s) (spec_options vs s) (V w2) \<Longrightarrow>
       runs_once rt n (spec_service s) (spec_options vs s) (V w')"
    using Cons.IH[OF _ rest] Cons.prems(1) by auto
  show ?case
  proof (cases "\<exists>s. mfSpec m = ServiceSpec s")
    case False
    then have v1: "V w1 = V w" using eff by (cases "mfSpec m") auto
    show ?thesis
    proof (intro conjI allI impI)
      show "without_project project (V w') = without_project project (V w)" using IH(1) v1 v2 by simp
      fix n s assume s: "T n = Some s" "csService s = n" "csProject s = project"
        and o: "(\<exists>m. manifest_request m \<in> set (r # rs) \<and> manifest_ok m \<and> mfSpec m = ServiceSpec s) \<or>
          runs_once rt n (spec_service s) (spec_options vs s) (V w)"
      have "manifest_request m' \<noteq> r" if "manifest_ok m'" "mfSpec m' = ServiceSpec s" for m'
      proof
        assume e: "manifest_request m' = r"
        have "manifest_key m' = manifest_key m" using e m(1) by (simp add: manifest_request_def)
        moreover have "manifest_key m' = apiVersion @ ''/Service''" "manifest_key m = apiVersion @ ''/'' @ spec_kind (mfSpec m)"
          using that m(2) unfolding manifest_ok_def manifest_key_def by (metis mk_manifest_sel spec_kind.simps(5) append_Cons append_Nil)+
        ultimately have "spec_kind (mfSpec m) = ''Service''" by simp
        then show False using False by (cases "mfSpec m") auto
      qed
      then show "runs_once rt n (spec_service s) (spec_options vs s) (V w')"
        using IH(2)[OF s] o v1 v2 by auto
    qed
  next
    case True
    then obtain s0 where s0: "mfSpec m = ServiceSpec s0" by blast
    then have up: "ServiceUp rt (csService s0) (spec_service s0) (spec_options vs s0) w = (None, w1)" using eff by simp
    have own: "csProject s0 = project" "T (csService s0) = Some s0" using m(3) s0 by auto
    have now: "runs_once rt (csService s0) (spec_service s0) (spec_options vs s0) (V w1)"
      by (rule ServiceUp_outcome(1)[OF rt fr up])
    show ?thesis
    proof (intro conjI allI impI)
      show "without_project project (V w') = without_project project (V w)"
        using IH(1) v2 ServiceUp_without_project[OF rt fr up] own by (simp add: spec_options_def)
      fix n s assume s: "T n = Some s" "csService s = n" "csProject s = project"
        and o: "(\<exists>m. manifest_request m \<in> set (r # rs) \<and> manifest_ok m \<and> mfSpec m = ServiceSpec s) \<or>
          runs_once rt n (spec_service s) (spec_options vs s) (V w)"
      show "runs_once rt n (spec_service s) (spec_options vs s) (V w')"
      proof (cases "n = csService s0")
        case True
        then show ?thesis using IH(2)[OF s] now own(2) s(1) v2 by simp
      next
        case False
        have "runs_once rt n (spec_service s) (spec_options vs s) (V w1)"
          if "runs_once rt n (spec_service s) (spec_options vs s) (V w)"
          using runs_once_kept [OF rt fr up that False] s own by (simp add: spec_options_def)
        moreover have "manifest_request m' \<noteq> r" if "manifest_ok m'" "mfSpec m' = ServiceSpec s" for m'
        proof
          assume e: "manifest_request m' = r"
          have "spec_id (ServiceSpec s) = spec_id (ServiceSpec s0)"
            using e m(1,2) that s0 unfolding manifest_ok_def manifest_request_def by (metis mk_manifest_sel(3) request.inject(1))
          then show False using False s own by simp
        qed
        ultimately show ?thesis using IH(2)[OF s] o v2 by auto
      qed
    qed
  qed
qed

subsection \<open>Ordering and planning\<close>

lemma topo_requests:
  shows "set (topoSortRequests rs ls False) \<subseteq> set rs"
    and "r \<in> set rs \<Longrightarrow> \<forall>r' \<in> set rs. GetSubjectId r' = GetSubjectId r \<longrightarrow> r' = r \<Longrightarrow> r \<in> set (topoSortRequests rs ls False)"
proof -
  let ?g = "gm_get nil_request (buildRequestSet rs)" and ?K = "GetSubjectId ` set rs"
  obtain D m where t: "topoSortRequests rs ls False = map ?g D @
      (if length D \<ge> length rs then [] else filter (\<lambda>r. GetSubjectId r \<notin> set D) rs)"
    and inv: "kahn_inv (batch_edges ?K ls) ?K D [] m" using topo_forward[of rs ls] by blast
  have D: "distinct D" "set D \<subseteq> ?K" using inv by (simp_all add: kahn_inv_def)
  show "set (topoSortRequests rs ls False) \<subseteq> set rs"
    unfolding t using D(2) reqSet_get[of _ rs] by auto
  assume r: "r \<in> set rs" "\<forall>r' \<in> set rs. GetSubjectId r' = GetSubjectId r \<longrightarrow> r' = r"
  show "r \<in> set (topoSortRequests rs ls False)"
  proof (cases "GetSubjectId r \<in> set D")
    case True
    have "?g (GetSubjectId r) = r" using reqSet_get[of "GetSubjectId r" rs] r by auto
    then have "r \<in> set (map ?g D)" using True by (metis image_eqI image_set)
    then show ?thesis unfolding t by simp
  next
    case False
    have "length D < length rs"
    proof -
      have "set D \<subset> ?K" using D(2) False r(1) by auto
      then have "card (set D) < card ?K" by (simp add: psubset_card_mono)
      also have "card ?K \<le> length rs" by (metis card_image_le List.finite_set card_length le_trans)
      finally show ?thesis using D(1) by (simp add: distinct_card)
    qed
    then show ?thesis unfolding t using r(1) False by simp
  qed
qed

lemma walk_desired_fresh:
  assumes "\<forall>r \<in> set rs. GetType r = RequestTypeCreate"
  shows "\<exists>p'. walk_desired rs [] p = Inr ([], p') \<and> dpRequests (plDeployment p') = dpRequests (plDeployment p) @ rs \<and>
    plConditions p' = plConditions p \<and> length (filter (\<lambda>a. acType a = ActionCreate) (plActions p')) =
      length (filter (\<lambda>a. acType a = ActionCreate) (plActions p)) + length rs"
  using assms
proof (induction rs arbitrary: p)
  case (Cons r rs)
  obtain i b k where r: "r = CreateRequest i b k" using Cons.prems by (cases r) auto
  let ?p = "add_request (CreateRequest i b k) (add_action ActionCreate i k ''new resource'' p)"
  obtain p' where p': "walk_desired rs [] ?p = Inr ([], p')" "dpRequests (plDeployment p') = dpRequests (plDeployment ?p) @ rs"
    "plConditions p' = plConditions ?p" "length (filter (\<lambda>a. acType a = ActionCreate) (plActions p')) =
      length (filter (\<lambda>a. acType a = ActionCreate) (plActions ?p)) + length rs"
    using Cons.IH[of ?p] Cons.prems by auto
  then show ?case by (simp add: r add_request_def add_action_def)
qed simp

lemma ComputePlan_fresh:
  assumes "\<forall>r \<in> set (dpRequests d). GetType r = RequestTypeCreate"
  shows "\<exists>p. ComputePlan uid d [] conds = Inr p \<and> dpRequests (plDeployment p) = dpRequests d \<and> plConditions p = conds \<and>
    fst (Summary p) = length (dpRequests d)"
  using walk_desired_fresh[OF assms, of "\<lparr>plActions = [], plDeployment = NewDeployment uid, plConditions = conds\<rparr>"]
  by (auto simp: ComputePlan_def Let_def sorted_keys_def sort_strings_def NewDeployment_def Summary_def)

lemma topo_nil: "topoSortRequests [] ls True = []"
  by (simp add: topoSortRequests_def)

text \<open>A plan of creates only that is applied without an error has run them in their order.\<close>

lemma ApplySync_creates:
  assumes "ApplySync ctx rc W p (db, w) = (None, db', w')"
    and "\<forall>r \<in> set (dpRequests (plDeployment p)). GetType r = RequestTypeCreate"
  shows "\<exists>ls db1 db3. run_creates rc W (plConditions p) (topoSortRequests (dpRequests (plDeployment p)) ls False) (db1, w) =
    Some (db3, w')"
proof -
  have s: "splitRequests (dpRequests (plDeployment p)) = ([], dpRequests (plDeployment p))"
    using assms(2) by (auto simp: splitRequests_def filter_empty_conv filter_id_conv)
  obtain db1 ls n db3 where x: "executeCreates ctx 0 (topoSortRequests (dpRequests (plDeployment p)) ls False) rc W (plConditions p) [] (db1, w)
      = (None, n, db3, w')"
    using assms(1) unfolding ApplySync_def s
    by (auto simp: topo_nil split: sum.splits if_splits prod.splits option.splits)
  show ?thesis using executeCreates_cases[OF x] by (auto simp: panicked_def)
qed

subsection \<open>The first apply\<close>

text \<open>No volume and no image has the id of a service; otherwise one of the two requests is lost (theory \<open>Convert\<close>).\<close>

definition ids_apart :: "string \<Rightarrow> composition \<Rightarrow> bool" where
  "ids_apart project c \<longleftrightarrow>
     (\<forall>n \<in> set (gm_keys (compServices c)). n \<notin> set (gm_keys (compVolumes c)) \<and>
        (\<forall>k \<in> set (gm_keys (compServices c)).
           ResolvedImageRef (svcImage (gm_get zero_service (compServices c) k)) \<noteq> project @ ''/'' @ n))"

abbreviation spec_of :: "('b, 'w) server \<Rightarrow> composition \<Rightarrow> string \<Rightarrow> bool \<Rightarrow> string \<Rightarrow> container_spec" where
  "spec_of S c project useCNI n \<equiv>
     buildContainerSpec (svHash S) n (gm_get zero_service (compServices c) n) c \<lparr>optProject = project, optUseCNI = useCNI\<rparr>"

lemma service_request_unique:
  assumes c: "Convert hash c opts = Inr res" and a: "ids_apart (optProject opts) c" and n: "n \<in> set (gm_keys (compServices c))"
  defines "m \<equiv> mk_manifest ''Service'' (optProject opts @ ''/'' @ n)
    (ServiceSpec (buildContainerSpec hash n (gm_get zero_service (compServices c) n) c opts))"
  shows "m \<in> set (crManifests res)"
    and "\<forall>r \<in> set (map manifest_request (crManifests res)). GetSubjectId r = GetSubjectId (manifest_request m) \<longrightarrow> r = manifest_request m"
proof -
  note ms = Convert_manifests[OF c]
  show "m \<in> set (crManifests res)" using ms n unfolding m_def by auto
  have id: "mdName (mfMetadata m) = optProject opts @ ''/'' @ n" by (simp add: m_def)
  have "m' = m" if m': "m' \<in> set (crManifests res)" and same: "mdName (mfMetadata m') = optProject opts @ ''/'' @ n" for m'
  proof -
    consider "m' = mk_manifest ''Project'' (optProject opts) (ProjectSpec (optProject opts))"
      | "m' \<in> set (fst (convertNetwork c opts))"
      | i where "i \<in> set (image_names c (sorted_keys (compServices c)))" "m' = mk_manifest ''Image'' (ResolvedImageRef i) (ImageSpec i)"
      | v where "v \<in> set (gm_keys (compVolumes c))" "m' = mk_manifest ''Volume'' (optProject opts @ ''/'' @ v) (VolumeSpec (optProject opts) v)"
      | k where "k \<in> set (gm_keys (compServices c))" "m' = mk_manifest ''Service'' (optProject opts @ ''/'' @ k)
          (ServiceSpec (buildContainerSpec hash k (gm_get zero_service (compServices c) k) c opts))"
      using ms m' by (auto simp: convertImages_def convertVolumes_def Let_def)
    then show ?thesis
    proof cases
      case 1
      then show ?thesis using same by simp
    next
      case 2
      then show ?thesis using same by (auto simp: convertNetwork_def split: if_splits)
    next
      case (3 i)
      then obtain k where "k \<in> set (gm_keys (compServices c))" "i = svcImage (gm_get zero_service (compServices c) k)"
        by (auto simp: image_names_def sort_strings_def)
      then have "ResolvedImageRef i \<noteq> optProject opts @ ''/'' @ n" using a n unfolding ids_apart_def by blast
      then show ?thesis using 3(2) same by simp
    next
      case (4 v)
      then have "v = n" using same by simp
      then show ?thesis using 4(1) a n unfolding ids_apart_def by blast
    next
      case (5 k)
      then have "k = n" using same by simp
      then show ?thesis using 5 by (simp add: m_def)
    qed
  qed
  then show "\<forall>r \<in> set (map manifest_request (crManifests res)). GetSubjectId r = GetSubjectId (manifest_request m) \<longrightarrow> r = manifest_request m"
    using id by (auto simp: manifest_request_def)
qed

text \<open>C11: When a composition in which no volume and no image has the id of a service is applied to an engine without
  records and the apply succeeds, every service of it runs once: one pod carries its labels and has the
  configuration built from its converted specification, and that pod has exactly one container, which was started
  with the configuration built from that specification, the image reference it resolves to and the mounts its
  volumes give.  The pods of other projects are what they were.  The engine is the one the code sets up (its
  registry holds the definitions of the container provider over this runtime), the decoded composition has its
  maps in the order of their keys, the runtime does what its interface documents, and the volume store, the CNI
  store and waiting change no pods.\<close>
theorem first_apply_runs_everything:
  assumes "cri_registry (Some (CriClient (svRuntime S) (svRemoveImage S))) cn vs (rcRegistry (svContext S))"
    and "runtime_ok (svRuntime S) V" and "resolver_frame vs V" and "cni_frame cn V" and "time_frame (svWait S) V"
    and "svDecode S (pqCompositionJson req) = Inr c" and "services_spec_ok c" and "ids_apart (pqProject req) c"
    and "EngineState (server_bolt S) db = []" and "ServerApply S req (db, w) = (Inr resp, db', w')"
  shows "(\<forall>n \<in> set (gm_keys (compServices c)). let s = spec_of S c (pqProject req) (pqUseCni req) n in
            runs_once (svRuntime S) n (spec_service s) (spec_options vs s) (V w')) \<and>
         without_project (pqProject req) (V w') = without_project (pqProject req) (V w)"
proof -
  let ?o = "\<lparr>optProject = pqProject req, optUseCNI = pqUseCni req\<rparr>"
  have pl: "ServerPlan S req (db, w) = Inr resp" by (rule ServerApply_planned[OF assms(10)])
  then obtain p where p: "planFromComposition S (pqCompositionJson req) (pqProject req) (pqUseCni req) db = Inr p"
    "planToActions p = Inr resp" by (auto simp: ServerPlan_def split: if_splits sum.splits)
  then obtain res d conds where c: "Convert (svHash S) c ?o = Inr res"
    and b: "Bridge (svBridgeId S) (rcRegistry (svContext S)) res = Inr (d, conds)"
    and e: "ComputePlan (svPlanId S) d [] conds = Inr p"
    using assms(6,9) by (auto simp: planFromComposition_def plan_composition_def EnginePlan_def split: sum.splits option.splits)
  have dr: "dpRequests d = map manifest_request (crManifests res)"
    using bridge_result[OF assms(1,7) c, of "svBridgeId S"] b by auto
  then have cr: "\<forall>r \<in> set (dpRequests d). GetType r = RequestTypeCreate" by (auto simp: manifest_request_def)
  obtain p' where "ComputePlan (svPlanId S) d [] conds = Inr p'" "dpRequests (plDeployment p') = dpRequests d"
    "fst (Summary p') = length (dpRequests d)" using ComputePlan_fresh[OF cr, of "svPlanId S" conds] by blast
  then have rq: "dpRequests (plDeployment p) = dpRequests d" "fst (Summary p) = length (dpRequests d)" using e by auto
  have "crManifests res \<noteq> []" using Convert_manifests[OF c] by simp
  then have "prCreates resp \<noteq> 0" using p(2) rq(2) dr by (auto simp: planToActions_def split: sum.splits prod.splits)
  then have "\<not> no_work resp" by (simp add: no_work_def)
  then have ap: "ApplySync (svCancelled S) (svContext S) (server_waits S) p (db, w) = (None, db', w')"
    using ServerApply_outcome[of S req "(db, w)"] pl p(1) assms(10)
    by (auto split: prod.splits option.splits)
  obtain ls db1 db3 where run: "run_creates (svContext S) (server_waits S) (plConditions p)
      (topoSortRequests (dpRequests d) ls False) (db1, w) = Some (db3, w')"
    using ApplySync_creates[OF ap] cr rq(1) by auto
  let ?T = "\<lambda>n. if n \<in> set (gm_keys (compServices c)) then Some (spec_of S c (pqProject req) (pqUseCni req) n) else None"
  have ms: "\<exists>m. r = manifest_request m \<and> manifest_ok m \<and>
      (case mfSpec m of ServiceSpec s \<Rightarrow> csProject s = pqProject req \<and> ?T (csService s) = Some s | _ \<Rightarrow> True)"
    if "r \<in> set (topoSortRequests (dpRequests d) ls False)" for r
  proof -
    have "r \<in> set (dpRequests d)" using that topo_requests(1) by blast
    then obtain m where m: "m \<in> set (crManifests res)" "r = manifest_request m" using dr by auto
    have "case mfSpec m of ServiceSpec s \<Rightarrow> csProject s = pqProject req \<and> ?T (csService s) = Some s | _ \<Rightarrow> True"
      using m(1) Convert_manifests[OF c]
      by (auto simp: convertNetwork_def convertImages_def convertVolumes_def Let_def mk_manifest_def buildContainerSpec_def split: if_splits)
    then show ?thesis using m Convert_manifest_ok[OF c assms(7) m(1)] by blast
  qed
  have run': "run_creates (svContext S) (engine_waits (svWait S) (rcRegistry (svContext S)) (Some (svRuntime S)) (rcBolt (svContext S)))
      (plConditions p) (topoSortRequests (dpRequests d) ls False) (db1, w) = Some (db3, w')"
    using run by (simp add: server_waits_def server_bolt_def)
  note all = run_creates_services[OF assms(1-5) ballI[OF ms] run']
  have "runs_once (svRuntime S) n (spec_service s) (spec_options vs s) (V w')"
    if n: "n \<in> set (gm_keys (compServices c))" and s: "s = spec_of S c (pqProject req) (pqUseCni req) n" for n s
  proof -
    have ap': "ids_apart (optProject ?o) c" using assms(8) by simp
    note u = service_request_unique[OF c ap' n]
    let ?m = "mk_manifest ''Service'' (optProject ?o @ ''/'' @ n) (ServiceSpec s)"
    have m: "?m \<in> set (crManifests res)" using u(1) s by simp
    then have "manifest_request ?m \<in> set (topoSortRequests (dpRequests d) ls False)"
      using topo_requests(2)[of "manifest_request ?m" "dpRequests d" ls] u(2) s dr by auto
    moreover have "manifest_ok ?m" by (rule Convert_manifest_ok[OF c assms(7) m])
    moreover have "mfSpec ?m = ServiceSpec s" by (simp add: mk_manifest_def)
    ultimately have "\<exists>m. manifest_request m \<in> set (topoSortRequests (dpRequests d) ls False) \<and> manifest_ok m \<and> mfSpec m = ServiceSpec s"
      by blast
    moreover have "csService s = n" "csProject s = pqProject req" using s by (simp_all add: buildContainerSpec_def)
    moreover have "?T n = Some s" using n s by simp
    ultimately show ?thesis using all by blast
  qed
  then show ?thesis using all by (simp add: Let_def)
qed

subsection \<open>A first apply that succeeds\<close>

lemma demo_first_apply:
  "case fst (ServerApply demo_server demo_request (empty_db, demo_mem)) of Inl _ \<Rightarrow> False | Inr r \<Rightarrow> prCreates r = 3"
  by code_simp

lemma mem_registry_ok: "cri_registry mem_client None None mem_registry"
  unfolding cri_registry_def mem_registry_def NewCRIProvider_defs_def
  by (simp add: GetDefinition_def ImageDefinition_def NetworkDefinition_def VolumeDefinition_def ContainerDefinition_def
      ServiceDefinition_def ProjectDefinition_def Let_def ImageKey_def NetworkKey_def VolumeKey_def ContainerKey_def
      ServiceKey_def ProjectKey_def)

lemma host_comp_ok: "services_spec_ok host_comp"
  by (simp add: services_spec_ok_def host_comp_def demo_service_def zero_service_def gm_canonical_def sort_entries_def
    sorted_keys_def sort_strings_def)

lemma first_apply_runs_everything_witness:
  "\<exists>resp db' w'. ServerApply demo_server demo_request (empty_db, demo_mem) = (Inr resp, db', w') \<and>
     selected (service_labels ''p'' ''web'') (mem_view w') \<noteq> {}"
proof -
  obtain resp db' w' where a: "ServerApply demo_server demo_request (empty_db, demo_mem) = (Inr resp, db', w')"
    using demo_first_apply by (cases "ServerApply demo_server demo_request (empty_db, demo_mem)") (auto split: sum.splits)
  have reg: "cri_registry (Some (CriClient (svRuntime demo_server) (svRemoveImage demo_server))) None None (rcRegistry (svContext demo_server))"
    using mem_registry_ok by (simp add: demo_server_def mem_client_def)
  have rt: "runtime_ok (svRuntime demo_server) mem_view" using mem_runtime_ok by (simp add: demo_server_def)
  have fr: "resolver_frame None mem_view" "cni_frame None mem_view" "time_frame (svWait demo_server) mem_view"
    by (simp_all add: resolver_frame_def cni_frame_def time_frame_def demo_server_def)
  have dec: "svDecode demo_server (pqCompositionJson demo_request) = Inr host_comp" by (simp add: demo_server_def)
  have ids: "ids_apart (pqProject demo_request) host_comp"
    unfolding ids_apart_def demo_request_def by (simp; code_simp)
  have st: "EngineState (server_bolt demo_server) empty_db = []"
    by (simp add: server_bolt_def demo_server_def EngineState_def Keys_def mem_bolt_def empty_db_def)
  let ?s = "spec_of demo_server host_comp (pqProject demo_request) (pqUseCni demo_request) ''web''"
  have n: "''web'' \<in> set (gm_keys (compServices host_comp))" by (simp add: host_comp_def)
  have "runs_once (svRuntime demo_server) ''web'' (spec_service ?s) (spec_options None ?s) (mem_view w')"
    using first_apply_runs_everything[OF reg rt fr dec host_comp_ok ids st a] n unfolding Let_def by blast
  moreover have "suProject (spec_options None ?s :: rt_mem service_up_options) = ''p''" by (simp add: spec_options_def buildContainerSpec_def demo_request_def)
  ultimately have "selected (service_labels ''p'' ''web'') (mem_view w') \<noteq> {}" unfolding runs_once_def by auto
  then show ?thesis using a by blast
qed

end
