(* ===== verification/Vm.thy ===== *)
theory Vm
  imports Go_Strings Transition
begin

text \<open>
  The life cycle of one micro virtual machine (\<open>microvm/hypervisor.go\<close>, \<open>vm.go\<close>): calls of \<open>Start\<close>, \<open>Stop\<close>
  and \<open>Wait\<close> from any number of goroutines, the processes they launch and the channel of the exit value.

  A state holds the fields of \<open>vm\<close>, one program counter for each call, the live processes and the goroutines
  that wait for a hypervisor to exit.  An event is one turn of one call, with what its environment answers, or
  a step of the operating system.  \<open>vmHypervisors\<close>, \<open>vmFailures\<close> and \<open>vmWaits\<close> record what happened and are
  not part of the program.
\<close>

datatype vm_status = Stopped | Starting | Running | Stopping | Failed

fun status_string :: "vm_status \<Rightarrow> string" where
  "status_string Stopped = ''stopped''"
| "status_string Starting = ''starting''"
| "status_string Running = ''running''"
| "status_string Stopping = ''stopping''"
| "status_string Failed = ''failed''"

text \<open>Where a call is: in \<open>start\<close> (creating the directory, launching the file server of a share, waiting for its
  socket, waiting for health, cleaning up), in \<open>Stop\<close> (the teardown request, the signal, the two receives, the
  cleanup), in \<open>Wait\<close>, or returned.\<close>

datatype vm_call =
    StTemp | StShare nat | StSocket nat | StHealth | StFail
  | SpTeardown | SpSignal | SpSelect | SpKilled | SpCleanup
  | Waiting
  | Returned "error option"

record vm =
  vmStatus :: vm_status
  vmTmpDir :: bool
  vmHypervisor :: "nat option"
  vmVirtiofsd :: "nat list"
  vmWaitCh :: "nat option"
  vmCalls :: "vm_call list"
  vmLive :: "nat set"
  vmWaiters :: "nat list"
  vmNextPid :: nat
  vmHypervisors :: "nat list"
  vmFailures :: nat
  vmWaits :: nat

text \<open>\<open>vmHypervisor\<close> is the process of \<open>chvCmd\<close>, \<open>vmWaitCh\<close> the exit value in the channel of capacity one (named by
  the process it is of), \<open>vmWaiters\<close> the goroutines that wait for a process and then send.\<close>

definition newVM :: vm where
  "newVM = \<lparr>vmStatus = Stopped, vmTmpDir = False, vmHypervisor = None, vmVirtiofsd = [], vmWaitCh = None, vmCalls = [],
     vmLive = {}, vmWaiters = [], vmNextPid = 0, vmHypervisors = [], vmFailures = 0, vmWaits = 0\<rparr>"

subsection \<open>The steps of a call\<close>

definition enter :: "vm_call \<Rightarrow> vm \<Rightarrow> vm" where
  "enter c s = s\<lparr>vmCalls := vmCalls s @ [c]\<rparr>"

definition goto :: "nat \<Rightarrow> vm_call \<Rightarrow> vm \<Rightarrow> vm" where
  "goto i c s = s\<lparr>vmCalls := (vmCalls s)[i := c]\<rparr>"

definition refused :: "string \<Rightarrow> vm \<Rightarrow> vm" where
  "refused what s =
     enter (Returned (Some (Err (''microvm: cannot '' @ what @ '' VM in state '' @ status_string (vmStatus s))))) s"

definition Start :: "vm \<Rightarrow> vm" where
  "Start s = (if vmStatus s \<noteq> Stopped \<and> vmStatus s \<noteq> Failed then refused ''start'' s
              else enter StTemp (s\<lparr>vmStatus := Starting\<rparr>))"

definition Stop :: "vm \<Rightarrow> vm" where
  "Stop s = (if vmStatus s \<noteq> Running \<and> vmStatus s \<noteq> Failed then refused ''stop'' s
             else enter SpTeardown (s\<lparr>vmStatus := Stopping\<rparr>))"

definition Wait :: "vm \<Rightarrow> vm" where
  "Wait s = enter Waiting (s\<lparr>vmWaits := Suc (vmWaits s)\<rparr>)"

text \<open>\<open>cleanup\<close> kills the file servers and removes the directory; it does not touch the hypervisor.  It ignores the errors
  of both, and the model has both succeed.  The signal that \<open>Stop\<close> sends has no effect of its own here: a process may exit at any time.\<close>

definition cleanup :: "vm \<Rightarrow> vm" where
  "cleanup s = s\<lparr>vmLive := vmLive s - set (vmVirtiofsd s), vmVirtiofsd := [], vmTmpDir := False\<rparr>"

definition start_fails :: "nat \<Rightarrow> vm \<Rightarrow> vm" where
  "start_fails i s = goto i StFail (s\<lparr>vmFailures := Suc (vmFailures s)\<rparr>)"

definition startVirtiofsd :: "vm \<Rightarrow> vm" where
  "startVirtiofsd s =
     s\<lparr>vmVirtiofsd := vmVirtiofsd s @ [vmNextPid s], vmLive := insert (vmNextPid s) (vmLive s), vmNextPid := Suc (vmNextPid s)\<rparr>"

text \<open>The hypervisor is launched together with the goroutine that waits for it.\<close>

definition start_hypervisor :: "vm \<Rightarrow> vm" where
  "start_hypervisor s =
     s\<lparr>vmHypervisor := Some (vmNextPid s), vmHypervisors := vmNextPid s # vmHypervisors s,
       vmLive := insert (vmNextPid s) (vmLive s), vmWaiters := vmNextPid s # vmWaiters s, vmNextPid := Suc (vmNextPid s)\<rparr>"

definition receive :: "nat \<Rightarrow> vm_call \<Rightarrow> vm \<Rightarrow> vm option" where
  "receive i c s = (case vmWaitCh s of None \<Rightarrow> None | Some _ \<Rightarrow> Some (goto i c (s\<lparr>vmWaitCh := None\<rparr>)))"

text \<open>\<open>turn n ok i c s\<close>: call \<open>i\<close> is at \<open>c\<close> in a machine with \<open>n\<close> shares.  In \<open>start\<close> the flag is the answer of the
  environment (a launched process, a socket that appears, a healthy server), in the select of \<open>Stop\<close> it tells
  the receive from the timeout.  The setting of the status after \<open>start\<close> and after \<open>cleanup\<close> is part of the same
  turn: nothing that other calls use changes in between.\<close>

fun turn :: "nat \<Rightarrow> bool \<Rightarrow> nat \<Rightarrow> vm_call \<Rightarrow> vm \<Rightarrow> vm option" where
  "turn n ok i StTemp s = Some (if ok then goto i (StShare 0) (s\<lparr>vmTmpDir := True\<rparr>) else start_fails i s)"
| "turn n ok i (StShare k) s =
     (if k < n then Some (if ok then goto i (StSocket k) (startVirtiofsd s) else start_fails i s)
      else Some (if ok then goto i StHealth (start_hypervisor s) else start_fails i (s\<lparr>vmHypervisor := None\<rparr>)))"
| "turn n ok i (StSocket k) s = Some (if ok then goto i (StShare (Suc k)) s else start_fails i s)"
| "turn n ok i StHealth s = Some (if ok then goto i (Returned None) (s\<lparr>vmStatus := Running\<rparr>) else start_fails i s)"
| "turn n ok i StFail s = Some (goto i (Returned (Some (Err ''start''))) ((cleanup s)\<lparr>vmStatus := Failed\<rparr>))"
| "turn n ok i SpTeardown s = Some (goto i SpSignal s)"
| "turn n ok i SpSignal s = Some (goto i (case vmHypervisor s of None \<Rightarrow> SpCleanup | Some _ \<Rightarrow> SpSelect) s)"
| "turn n ok i SpSelect s =
     (if ok then receive i SpCleanup s
      else Some (goto i SpKilled (s\<lparr>vmLive := vmLive s - set_option (vmHypervisor s)\<rparr>)))"
| "turn n ok i SpKilled s = receive i SpCleanup s"
| "turn n ok i SpCleanup s = Some (goto i (Returned None) ((cleanup s)\<lparr>vmStatus := Stopped\<rparr>))"
| "turn n ok i Waiting s = receive i (Returned None) s"
| "turn n ok i (Returned r) s = None"

datatype vm_event = EvStart | EvStop | EvWait | EvTurn nat bool | EvExit nat | EvSend nat

text \<open>A process may exit at any time; its exit value is sent when the channel has room.\<close>

fun vm_next :: "nat \<Rightarrow> vm_event \<Rightarrow> vm \<Rightarrow> vm option" where
  "vm_next n EvStart s = Some (Start s)"
| "vm_next n EvStop s = Some (Stop s)"
| "vm_next n EvWait s = Some (Wait s)"
| "vm_next n (EvTurn i ok) s = (if i < length (vmCalls s) then turn n ok i (vmCalls s ! i) s else None)"
| "vm_next n (EvExit p) s = (if p \<in> vmLive s then Some (s\<lparr>vmLive := vmLive s - {p}\<rparr>) else None)"
| "vm_next n (EvSend p) s =
     (if p \<in> set (vmWaiters s) \<and> p \<notin> vmLive s \<and> vmWaitCh s = None
      then Some (s\<lparr>vmWaiters := remove1 p (vmWaiters s), vmWaitCh := Some p\<rparr>) else None)"

definition vm_step :: "nat \<Rightarrow> vm \<Rightarrow> vm_event \<Rightarrow> vm \<Rightarrow> bool" where
  "vm_step n s e s' \<longleftrightarrow> vm_next n e s = Some s'"

fun vm_run :: "nat \<Rightarrow> vm_event list \<Rightarrow> vm \<Rightarrow> vm option" where
  "vm_run n [] s = Some s"
| "vm_run n (e # es) s = (case vm_next n e s of None \<Rightarrow> None | Some s' \<Rightarrow> vm_run n es s')"

lemma reach_step: "reach a (vm_step n) ls s \<Longrightarrow> vm_next n e s = Some s' \<Longrightarrow> reach a (vm_step n) (ls @ [e]) s'"
  by (rule reach.more) (simp_all add: vm_step_def)

lemma reach_run: "reach a (vm_step n) ls s \<Longrightarrow> vm_run n es s = Some s' \<Longrightarrow> reach a (vm_step n) (ls @ es) s'"
proof (induction es arbitrary: ls s)
  case (Cons e es)
  then obtain t where t: "vm_next n e s = Some t" "vm_run n es t = Some s'" by (auto split: option.splits)
  show ?case using Cons.IH[OF reach_step[OF Cons.prems(1) t(1)] t(2)] by simp
qed simp


subsection \<open>One call at a time\<close>

fun in_start :: "vm_call \<Rightarrow> bool" where
  "in_start StTemp = True"
| "in_start (StShare k) = True"
| "in_start (StSocket k) = True"
| "in_start StHealth = True"
| "in_start StFail = True"
| "in_start c = False"

fun in_stop :: "vm_call \<Rightarrow> bool" where
  "in_stop SpTeardown = True"
| "in_stop SpSignal = True"
| "in_stop SpSelect = True"
| "in_stop SpKilled = True"
| "in_stop SpCleanup = True"
| "in_stop c = False"

definition active :: "vm \<Rightarrow> vm_call list" where
  "active s = filter (\<lambda>c. in_start c \<or> in_stop c) (vmCalls s)"

lemma filter_update_in:
  assumes "filter P xs = [x]" "i < length xs" "P (xs ! i)"
  shows "xs ! i = x" "filter P (xs[i := y]) = (if P y then [y] else [])"
proof -
  have s: "xs = take i xs @ xs ! i # drop (Suc i) xs" using assms(2) by (rule id_take_nth_drop)
  have f: "filter P (take i xs) @ xs ! i # filter P (drop (Suc i) xs) = [x]"
    using assms(1,3) by (subst (asm) s) simp
  then have e: "filter P (take i xs) = []" "xs ! i = x" "filter P (drop (Suc i) xs) = []"
    by (cases "filter P (take i xs)"; simp)+
  show "xs ! i = x" by (rule e(2))
  show "filter P (xs[i := y]) = (if P y then [y] else [])"
    using e(1,3) assms(2) by (simp add: upd_conv_take_nth_drop)
qed

lemma filter_update_out:
  assumes "i < length xs" "\<not> P (xs ! i)" "\<not> P y"
  shows "filter P (xs[i := y]) = filter P xs"
proof -
  have "filter P xs = filter P (take i xs @ xs ! i # drop (Suc i) xs)"
    using id_take_nth_drop[OF assms(1)] by simp
  then show ?thesis using assms by (simp add: upd_conv_take_nth_drop)
qed

lemma active_enter [simp]: "active (enter c s) = active s @ (if in_start c \<or> in_stop c then [c] else [])"
  by (simp add: active_def enter_def)

lemma active_goto:
  assumes "active s = [c]" "i < length (vmCalls s)" "in_start (vmCalls s ! i) \<or> in_stop (vmCalls s ! i)"
  shows "vmCalls s ! i = c" "active (goto i c' s) = (if in_start c' \<or> in_stop c' then [c'] else [])"
  using filter_update_in(1)[of "\<lambda>c. in_start c \<or> in_stop c" "vmCalls s" c i]
    filter_update_in(2)[of "\<lambda>c. in_start c \<or> in_stop c" "vmCalls s" c i c'] assms
  by (simp_all add: active_def goto_def)

lemma active_goto_other:
  "i < length (vmCalls s) \<Longrightarrow> \<not> (in_start (vmCalls s ! i) \<or> in_stop (vmCalls s ! i)) \<Longrightarrow> \<not> (in_start c' \<or> in_stop c') \<Longrightarrow>
   active (goto i c' s) = active s"
  using filter_update_out[of i "vmCalls s" "\<lambda>c. in_start c \<or> in_stop c" c'] by (simp add: active_def goto_def)

text \<open>What matters of a state, apart from the calls that do not work on the machine.\<close>

fun status_fits :: "vm_status \<Rightarrow> vm_call list \<Rightarrow> bool" where
  "status_fits Starting cs \<longleftrightarrow> (\<exists>c. cs = [c] \<and> in_start c)"
| "status_fits Stopping cs \<longleftrightarrow> (\<exists>c. cs = [c] \<and> in_stop c)"
| "status_fits st cs \<longleftrightarrow> cs = []"

lemma status_fits_busy:
  assumes "status_fits (vmStatus s) (active s)" "i < length (vmCalls s)" "in_start (vmCalls s ! i) \<or> in_stop (vmCalls s ! i)"
  shows "active s = [vmCalls s ! i]" "in_start (vmCalls s ! i) \<Longrightarrow> vmStatus s = Starting"
    "in_stop (vmCalls s ! i) \<Longrightarrow> vmStatus s = Stopping"
proof -
  have "vmCalls s ! i \<in> set (active s)" using assms(2,3) by (simp add: active_def)
  then have "\<exists>c. active s = [c] \<and> c = vmCalls s ! i"
    using assms(1) by (cases "vmStatus s") auto
  then show a: "active s = [vmCalls s ! i]" by simp
  have x: "\<not> (in_start c \<and> in_stop c)" for c by (cases c) auto
  show "in_start (vmCalls s ! i) \<Longrightarrow> vmStatus s = Starting" "in_stop (vmCalls s ! i) \<Longrightarrow> vmStatus s = Stopping"
    using assms(1) a x[of "vmCalls s ! i"] by (cases "vmStatus s"; auto)+
qed


text \<open>Between two starts no hypervisor is alive and no exit value is on its way; while one is launched, it is the only
  one and its exit value is still to come or in the channel.\<close>

definition idle :: "vm \<Rightarrow> bool" where
  "idle s \<longleftrightarrow> vmLive s \<inter> set (vmHypervisors s) = {} \<and> vmWaiters s = [] \<and> vmWaitCh s = None"

definition owned :: "vm \<Rightarrow> bool" where
  "owned s \<longleftrightarrow> (\<exists>p. vmHypervisor s = Some p \<and> p \<in> set (vmHypervisors s) \<and> vmLive s \<inter> set (vmHypervisors s) \<subseteq> {p} \<and>
     (vmWaiters s = [p] \<and> vmWaitCh s = None \<or> vmWaiters s = [] \<and> vmWaitCh s = Some p \<and> p \<notin> vmLive s))"

fun phase :: "vm_call list \<Rightarrow> vm \<Rightarrow> bool" where
  "phase [] s \<longleftrightarrow> (if vmStatus s = Running then owned s else vmStatus s = Stopped \<and> idle s)"
| "phase (StTemp # cs) s \<longleftrightarrow> idle s"
| "phase (StShare k # cs) s \<longleftrightarrow> idle s"
| "phase (StSocket k # cs) s \<longleftrightarrow> idle s"
| "phase (StHealth # cs) s \<longleftrightarrow> owned s"
| "phase (SpTeardown # cs) s \<longleftrightarrow> owned s"
| "phase (SpSignal # cs) s \<longleftrightarrow> owned s"
| "phase (SpSelect # cs) s \<longleftrightarrow> owned s"
| "phase (SpKilled # cs) s \<longleftrightarrow> owned s \<and> vmLive s \<inter> set (vmHypervisors s) = {}"
| "phase (SpCleanup # cs) s \<longleftrightarrow> idle s"
| "phase (c # cs) s \<longleftrightarrow> False"

definition vm_files :: "vm \<Rightarrow> bool" where
  "vm_files s \<longleftrightarrow> (vmStatus s = Stopped \<or> vmStatus s = Failed \<longrightarrow> vmVirtiofsd s = [] \<and> \<not> vmTmpDir s) \<and>
     vmLive s \<subseteq> set (vmVirtiofsd s) \<union> set (vmHypervisors s) \<and>
     (\<forall>p \<in> vmLive s \<union> set (vmVirtiofsd s) \<union> set (vmHypervisors s). p < vmNextPid s)"

lemmas vm_steps = Start_def Stop_def Wait_def refused_def cleanup_def start_fails_def startVirtiofsd_def start_hypervisor_def
  receive_def

lemma active_cong [simp]:
  "active (s\<lparr>vmStatus := a\<rparr>) = active s" "active (s\<lparr>vmTmpDir := b\<rparr>) = active s" "active (s\<lparr>vmHypervisor := c\<rparr>) = active s"
  "active (s\<lparr>vmVirtiofsd := d\<rparr>) = active s" "active (s\<lparr>vmWaitCh := e\<rparr>) = active s" "active (s\<lparr>vmLive := f\<rparr>) = active s"
  "active (s\<lparr>vmWaiters := g\<rparr>) = active s" "active (s\<lparr>vmNextPid := h\<rparr>) = active s" "active (s\<lparr>vmHypervisors := j\<rparr>) = active s"
  "active (s\<lparr>vmFailures := k\<rparr>) = active s" "active (s\<lparr>vmWaits := l\<rparr>) = active s"
  by (simp_all add: active_def)

lemma goto_sel [simp]:
  "vmStatus (goto i c s) = vmStatus s" "vmTmpDir (goto i c s) = vmTmpDir s" "vmHypervisor (goto i c s) = vmHypervisor s"
  "vmVirtiofsd (goto i c s) = vmVirtiofsd s" "vmWaitCh (goto i c s) = vmWaitCh s" "vmLive (goto i c s) = vmLive s"
  "vmWaiters (goto i c s) = vmWaiters s" "vmNextPid (goto i c s) = vmNextPid s" "vmHypervisors (goto i c s) = vmHypervisors s"
  "vmFailures (goto i c s) = vmFailures s" "vmWaits (goto i c s) = vmWaits s"
  "vmCalls (goto i c s) = (vmCalls s)[i := c]"
  by (simp_all add: goto_def)

lemma enter_sel [simp]:
  "vmStatus (enter c s) = vmStatus s" "vmTmpDir (enter c s) = vmTmpDir s" "vmHypervisor (enter c s) = vmHypervisor s"
  "vmVirtiofsd (enter c s) = vmVirtiofsd s" "vmWaitCh (enter c s) = vmWaitCh s" "vmLive (enter c s) = vmLive s"
  "vmWaiters (enter c s) = vmWaiters s" "vmNextPid (enter c s) = vmNextPid s" "vmHypervisors (enter c s) = vmHypervisors s"
  "vmFailures (enter c s) = vmFailures s" "vmWaits (enter c s) = vmWaits s"
  "vmCalls (enter c s) = vmCalls s @ [c]"
  by (simp_all add: enter_def)

lemma vm_files_step:
  assumes f: "vm_files s" and fit: "status_fits (vmStatus s) (active s)" and st: "vm_next n e s = Some s'"
  shows "vm_files s'"
proof (cases e)
  case (EvTurn i ok)
  then have i: "i < length (vmCalls s)" and t: "turn n ok i (vmCalls s ! i) s = Some s'"
    using st by (auto split: if_splits)
  note b = status_fits_busy[OF fit i]
  show ?thesis using t b(2,3) f
    by (cases "vmCalls s ! i") (auto simp: vm_files_def vm_steps less_Suc_eq split: if_splits option.splits)
qed (use st f in \<open>auto simp: vm_files_def vm_steps split: if_splits\<close>)

lemma active_goto_at:
  assumes fit: "status_fits (vmStatus s) (active s)" and i: "i < length (vmCalls s)" and t: "vmCalls t = vmCalls s"
  shows "in_start (vmCalls s ! i) \<or> in_stop (vmCalls s ! i) \<Longrightarrow> active (goto i c t) = (if in_start c \<or> in_stop c then [c] else [])"
    and "\<not> (in_start (vmCalls s ! i) \<or> in_stop (vmCalls s ! i)) \<Longrightarrow> \<not> (in_start c \<or> in_stop c) \<Longrightarrow> active (goto i c t) = active s"
proof -
  have a: "active t = active s" using t by (simp add: active_def)
  show "in_start (vmCalls s ! i) \<or> in_stop (vmCalls s ! i) \<Longrightarrow> active (goto i c t) = (if in_start c \<or> in_stop c then [c] else [])"
    using status_fits_busy(1)[OF fit i] active_goto(2)[of t _ i c] a i t by simp
  show "\<not> (in_start (vmCalls s ! i) \<or> in_stop (vmCalls s ! i)) \<Longrightarrow> \<not> (in_start c \<or> in_stop c) \<Longrightarrow> active (goto i c t) = active s"
    using active_goto_other[of i t c] a i t by simp
qed

lemma status_fits_step:
  assumes fit: "status_fits (vmStatus s) (active s)" and st: "vm_next n e s = Some s'"
  shows "status_fits (vmStatus s') (active s')"
proof (cases e)
  case (EvTurn i ok)
  then have i: "i < length (vmCalls s)" and t: "turn n ok i (vmCalls s ! i) s = Some s'"
    using st by (auto split: if_splits)
  note g = active_goto_at[OF fit i]
  note b = status_fits_busy[OF fit i]
  show ?thesis
  proof (cases "in_start (vmCalls s ! i) \<or> in_stop (vmCalls s ! i)")
    case True
    note g = g(1)[OF _ True]
    from True b(2,3) have "in_start (vmCalls s ! i) \<and> vmStatus s = Starting \<or> in_stop (vmCalls s ! i) \<and> vmStatus s = Stopping"
      by blast
    then show ?thesis using t g
      by (cases "vmCalls s ! i") (auto simp: vm_steps split: if_splits option.splits)
  next
    case False
    then show ?thesis using t g(2)[OF _ False] fit
      by (cases "vmCalls s ! i") (auto simp: vm_steps split: option.splits)
  qed
qed (use st fit in \<open>auto simp: vm_steps split: if_splits\<close>)

text \<open>The phases of a machine on which no start has failed and nobody waits.\<close>

definition undisturbed :: "vm \<Rightarrow> bool" where
  "undisturbed s \<longleftrightarrow> vmFailures s = 0 \<and> vmWaits s = 0"

definition on_course :: "vm \<Rightarrow> bool" where
  "on_course s \<longleftrightarrow> Waiting \<notin> set (vmCalls s) \<and> phase (active s) s"

lemma undisturbed_before:
  assumes "vm_next n e s = Some s'" "undisturbed s'"
  shows "undisturbed s"
proof (cases e)
  case (EvTurn i ok)
  then have "turn n ok i (vmCalls s ! i) s = Some s'" using assms(1) by (auto split: if_splits)
  then show ?thesis using assms(2)
    by (cases "vmCalls s ! i") (auto simp: undisturbed_def vm_steps split: if_splits option.splits)
qed (use assms in \<open>auto simp: undisturbed_def vm_steps split: if_splits\<close>)

lemma fresh_pid: "vm_files s \<Longrightarrow> vmNextPid s \<notin> vmLive s \<and> vmNextPid s \<notin> set (vmHypervisors s)"
  by (auto simp: vm_files_def)

lemma phase_cong:
  assumes "vmStatus t = vmStatus s" "owned s \<Longrightarrow> owned t" "idle s \<Longrightarrow> idle t" "vmLive t \<subseteq> vmLive s" "vmHypervisors t = vmHypervisors s"
  shows "phase cs s \<Longrightarrow> phase cs t"
  using assms by (cases "(cs, s)" rule: phase.cases) (auto split: if_splits)

lemma phase_goto [simp]: "owned (goto i c s) = owned s" "idle (goto i c s) = idle s"
  by (simp_all add: owned_def idle_def)

lemma phase_enter [simp]: "owned (enter c s) = owned s" "idle (enter c s) = idle s" "phase cs (enter c s) = phase cs s"
  by (simp_all add: owned_def idle_def) (cases "(cs, s)" rule: phase.cases; simp add: owned_def idle_def)

lemma on_course_turn:
  assumes f: "vm_files s" and fit: "status_fits (vmStatus s) (active s)" and k: "on_course s" "undisturbed s'"
    and i: "i < length (vmCalls s)" and t: "turn n ok i (vmCalls s ! i) s = Some s'"
  shows "on_course s'"
proof (cases "in_start (vmCalls s ! i) \<or> in_stop (vmCalls s ! i)")
  case True
  note g = active_goto_at(1)[OF fit i _ True]
  have a: "active s = [vmCalls s ! i]" by (rule status_fits_busy(1)[OF fit i True])
  have w: "Waiting \<notin> set ((vmCalls s)[i := c])" if "c \<noteq> Waiting" for c
    using k(1) that set_update_subset_insert[of "vmCalls s" i c] by (auto simp: on_course_def)
  have ph: "phase [vmCalls s ! i] s" using k(1) a by (simp add: on_course_def)
  show ?thesis using t g w ph True k(2) fresh_pid[OF f]
    by (cases "vmCalls s ! i")
      (auto simp: vm_steps on_course_def undisturbed_def idle_def owned_def split: if_splits option.splits)
next
  case False
  have "vmCalls s ! i \<noteq> Waiting" using k(1) nth_mem[OF i] by (metis on_course_def)
  then show ?thesis using t False by (cases "vmCalls s ! i") auto
qed

lemma on_course_step:
  assumes f: "vm_files s" and fit: "status_fits (vmStatus s) (active s)" and k: "on_course s" "undisturbed s'"
    and st: "vm_next n e s = Some s'"
  shows "on_course s'"
proof (cases e)
  case EvStart
  then show ?thesis using st fit k by (cases "vmStatus s") (auto simp: vm_steps on_course_def idle_def)
next
  case EvStop
  then show ?thesis using st fit k by (cases "vmStatus s") (auto simp: vm_steps on_course_def owned_def)
next
  case EvWait
  then show ?thesis using st k(2) by (auto simp: vm_steps undisturbed_def)
next
  case (EvTurn i ok)
  then show ?thesis using st on_course_turn[OF f fit k, of i n ok] by (auto split: if_splits)
next
  case (EvExit p)
  then have s': "s' = s\<lparr>vmLive := vmLive s - {p}\<rparr>" using st by (auto split: if_splits)
  have "phase (active s) s'" unfolding s'
    by (rule phase_cong[where s = s]) (use k(1) in \<open>auto simp: on_course_def owned_def idle_def\<close>)
  then show ?thesis using k(1) s' by (simp add: on_course_def)
next
  case (EvSend p)
  then have s': "s' = s\<lparr>vmWaiters := remove1 p (vmWaiters s), vmWaitCh := Some p\<rparr>" "p \<in> set (vmWaiters s)" "p \<notin> vmLive s"
    using st by (auto split: if_splits)
  have "phase (active s) s'" unfolding s'(1)
    by (rule phase_cong[where s = s]) (use k(1) s'(2,3) in \<open>auto simp: on_course_def owned_def idle_def\<close>)
  then show ?thesis using k(1) s'(1) by (simp add: on_course_def)
qed

definition vm_inv :: "vm \<Rightarrow> bool" where
  "vm_inv s \<longleftrightarrow> status_fits (vmStatus s) (active s) \<and> vm_files s \<and> (undisturbed s \<longrightarrow> on_course s)"

lemma vm_inv_init: "vm_inv newVM"
  by (simp add: vm_inv_def newVM_def active_def vm_files_def on_course_def idle_def)

lemma vm_inv_step: "vm_inv s \<Longrightarrow> vm_next n e s = Some s' \<Longrightarrow> vm_inv s'"
  using status_fits_step vm_files_step on_course_step undisturbed_before unfolding vm_inv_def by blast

interpretation vms: invariant_system newVM "vm_step n" vm_inv for n
  by unfold_locales (auto simp: vm_step_def intro: vm_inv_init vm_inv_step)

text \<open>At every moment at most one call works on the machine, and the status says which: starting when it is a \<open>Start\<close>,
  stopping when it is a \<open>Stop\<close>.\<close>

theorem vm_one_call_at_a_time:
  assumes "reach newVM (vm_step n) ls s"
  shows "length (active s) = (if vmStatus s = Starting \<or> vmStatus s = Stopping then 1 else 0) \<and>
    (list_ex in_start (vmCalls s) \<longleftrightarrow> vmStatus s = Starting) \<and> (list_ex in_stop (vmCalls s) \<longleftrightarrow> vmStatus s = Stopping)"
proof -
  have f: "status_fits (vmStatus s) (active s)" using vms.inv_reach[OF assms] by (simp add: vm_inv_def)
  have e: "list_ex in_start (vmCalls s) \<longleftrightarrow> list_ex in_start (active s)" "list_ex in_stop (vmCalls s) \<longleftrightarrow> list_ex in_stop (active s)"
    by (auto simp: active_def list_ex_iff)
  have x: "in_start c \<Longrightarrow> \<not> in_stop c" for c by (cases c) auto
  then show ?thesis unfolding e using f by (cases "vmStatus s") auto
qed

text \<open>C33: A machine that is stopped, or whose start failed, has no directory and no file server left; and as long as no start
  has failed and nobody has called \<open>Wait\<close>, no process at all is left of a stopped machine.\<close>

theorem vm_stopped_leaves_nothing:
  assumes "reach newVM (vm_step n) ls s" and "vmStatus s = Stopped \<or> vmStatus s = Failed"
  shows "\<not> vmTmpDir s \<and> vmLive s \<subseteq> set (vmHypervisors s) \<and> (undisturbed s \<longrightarrow> vmLive s = {} \<and> vmWaitCh s = None)"
proof -
  have i: "vm_inv s" by (rule vms.inv_reach[OF assms(1)])
  then have f: "\<not> vmTmpDir s" "vmLive s \<subseteq> set (vmHypervisors s)" "active s = []"
    using assms(2) by (auto simp: vm_inv_def vm_files_def)
  moreover have "vmLive s \<inter> set (vmHypervisors s) = {} \<and> vmWaitCh s = None" if "undisturbed s"
    using i that assms(2) f(3) by (auto simp: vm_inv_def on_course_def idle_def)
  ultimately show ?thesis by auto
qed

subsection \<open>Stopping\<close>

text \<open>A \<open>Stop\<close> in progress reaches its end within a number of steps that depends on where it is.\<close>

text \<open>The events that need nobody else: turns of the call and the sending of the exit value of a process that is gone.  No
  process exits by itself in them.\<close>

definition own_event :: "nat \<Rightarrow> vm_event \<Rightarrow> bool" where
  "own_event i e \<longleftrightarrow> (\<exists>ok. e = EvTurn i ok) \<or> (\<exists>p. e = EvSend p)"

definition stops_within :: "nat \<Rightarrow> nat \<Rightarrow> nat \<Rightarrow> vm \<Rightarrow> bool" where
  "stops_within n k i s \<longleftrightarrow>
     (\<exists>es t. length es \<le> k \<and> list_all (own_event i) es \<and> vm_run n es s = Some t \<and> vmStatus t = Stopped \<and> vmCalls t ! i = Returned None)"

lemma stops_step:
  assumes "vm_next n e s = Some t" and "own_event i e" and "stops_within n k i t"
  shows "stops_within n (Suc k) i s"
proof -
  obtain es u where "length es \<le> k" "list_all (own_event i) es" "vm_run n es t = Some u" "vmStatus u = Stopped" "vmCalls u ! i = Returned None"
    using assms(3) unfolding stops_within_def by blast
  then show ?thesis unfolding stops_within_def using assms(1,2) by (intro exI[of _ "e # es"] exI[of _ u]) simp
qed

lemma own_events [simp]: "own_event i (EvTurn i ok)" "own_event i (EvSend p)"
  by (simp_all add: own_event_def)

lemma stops_more: "stops_within n k i s \<Longrightarrow> k \<le> k' \<Longrightarrow> stops_within n k' i s"
  unfolding stops_within_def using order_trans by blast

lemma stops_cleanup:
  assumes "i < length (vmCalls s)" "vmCalls s ! i = SpCleanup"
  shows "stops_within n 1 i s"
proof -
  have "vm_run n [EvTurn i True] s = Some (goto i (Returned None) ((cleanup s)\<lparr>vmStatus := Stopped\<rparr>))" using assms by simp
  moreover have "length (vmCalls (cleanup s)) = length (vmCalls s)" by (simp add: cleanup_def)
  ultimately show ?thesis unfolding stops_within_def using assms(1)
    by (intro exI[of _ "[EvTurn i True]"] exI[of _ "goto i (Returned None) ((cleanup s)\<lparr>vmStatus := Stopped\<rparr>)"]) simp
qed

lemma stops_killed:
  assumes i: "i < length (vmCalls s)" "vmCalls s ! i = SpKilled" and o: "owned s" "vmLive s \<inter> set (vmHypervisors s) = {}"
  shows "stops_within n 3 i s"
proof -
  obtain p where p: "p \<in> set (vmHypervisors s)"
    and q: "vmWaiters s = [p] \<and> vmWaitCh s = None \<or> vmWaiters s = [] \<and> vmWaitCh s = Some p" using o(1) by (auto simp: owned_def)
  have recv: "stops_within n 2 i t" if "i < length (vmCalls t)" "vmCalls t ! i = SpKilled" "vmWaitCh t = Some p" for t
  proof -
    have "vm_next n (EvTurn i True) t = Some (goto i SpCleanup (t\<lparr>vmWaitCh := None\<rparr>))" using that by (simp add: receive_def)
    moreover have "stops_within n 1 i (goto i SpCleanup (t\<lparr>vmWaitCh := None\<rparr>))" by (rule stops_cleanup) (use that in simp_all)
    ultimately have "stops_within n (Suc 1) i t" by (rule stops_step[OF _ own_events(1)])
    then show ?thesis by (simp add: numeral_2_eq_2)
  qed
  show ?thesis
  proof (cases "vmWaitCh s")
    case None
    then have w: "vmWaiters s = [p]" "p \<notin> vmLive s" using q o(2) p by auto
    let ?t = "s\<lparr>vmWaiters := [], vmWaitCh := Some p\<rparr>"
    have "vm_next n (EvSend p) s = Some ?t" using None w by simp
    moreover have "stops_within n 2 i ?t" by (rule recv) (use i in simp_all)
    ultimately have "stops_within n (Suc 2) i s" by (rule stops_step[OF _ own_events(2)])
    then show ?thesis by (simp add: eval_nat_numeral)
  next
    case (Some q')
    then have "vmWaitCh s = Some p" using q by auto
    then show ?thesis using recv[OF i] stops_more by fastforce
  qed
qed

lemma stops_select:
  assumes i: "i < length (vmCalls s)" "vmCalls s ! i = SpSelect" and o: "owned s"
  shows "stops_within n 4 i s"
proof -
  let ?t = "goto i SpKilled (s\<lparr>vmLive := vmLive s - set_option (vmHypervisor s)\<rparr>)"
  have "vm_next n (EvTurn i False) s = Some ?t" using i by simp
  moreover have "stops_within n 3 i ?t"
    by (rule stops_killed) (use i o in \<open>auto simp: owned_def\<close>)
  ultimately have "stops_within n (Suc 3) i s" by (rule stops_step[OF _ own_events(1)])
  then show ?thesis by (simp add: eval_nat_numeral)
qed

lemma stops_signal:
  assumes i: "i < length (vmCalls s)" "vmCalls s ! i = SpSignal" and o: "owned s"
  shows "stops_within n 5 i s"
proof -
  have "vm_next n (EvTurn i True) s = Some (goto i SpSelect s)" using i o by (auto simp: owned_def)
  moreover have "stops_within n 4 i (goto i SpSelect s)" by (rule stops_select) (use i o in simp_all)
  ultimately have "stops_within n (Suc 4) i s" by (rule stops_step[OF _ own_events(1)])
  then show ?thesis by (simp add: eval_nat_numeral)
qed

lemma stops_teardown:
  assumes i: "i < length (vmCalls s)" "vmCalls s ! i = SpTeardown" and o: "owned s"
  shows "stops_within n 6 i s"
proof -
  have "vm_next n (EvTurn i True) s = Some (goto i SpSignal s)" using i by simp
  moreover have "stops_within n 5 i (goto i SpSignal s)" by (rule stops_signal) (use i o in simp_all)
  ultimately have "stops_within n (Suc 5) i s" by (rule stops_step[OF _ own_events(1)])
  then show ?thesis by (simp add: eval_nat_numeral)
qed

text \<open>C32: As long as no start has failed and nobody has called \<open>Wait\<close>, a \<open>Stop\<close> in progress can always come to its end
  within six steps that need nobody else: its own turns and the sending of the exit value by the goroutine that waits for a process
  that is gone.  No process has to exit by itself, so a hypervisor that ignores the requests to stop is stopped too:
  the kill after the timeout ends it.\<close>

theorem vm_stop_can_finish:
  assumes "reach newVM (vm_step n) ls s" and "undisturbed s" and "i < length (vmCalls s)" and "in_stop (vmCalls s ! i)"
  shows "\<exists>es t. length es \<le> 6 \<and> (\<forall>e \<in> set es. (\<exists>ok. e = EvTurn i ok) \<or> (\<exists>p. e = EvSend p)) \<and>
    vm_run n es s = Some t \<and> vmStatus t = Stopped \<and> vmCalls t ! i = Returned None"
proof -
  have v: "vm_inv s" by (rule vms.inv_reach[OF assms(1)])
  then have "active s = [vmCalls s ! i]" using status_fits_busy(1)[of s i] assms(3,4) by (simp add: vm_inv_def)
  then have p: "phase [vmCalls s ! i] s" using v assms(2) by (simp add: vm_inv_def on_course_def)
  have "\<exists>k \<le> 6. stops_within n k i s"
  proof (cases "vmCalls s ! i")
    case SpTeardown
    then show ?thesis using stops_teardown[OF assms(3)] p by auto
  next
    case SpSignal
    then show ?thesis using stops_signal[OF assms(3), of n] p by (intro exI[of _ 5]) simp
  next
    case SpSelect
    then show ?thesis using stops_select[OF assms(3), of n] p by (intro exI[of _ 4]) simp
  next
    case SpKilled
    then show ?thesis using stops_killed[OF assms(3), of n] p by (intro exI[of _ 3]) simp
  next
    case SpCleanup
    then show ?thesis using stops_cleanup[OF assms(3), of n] by (intro exI[of _ 1]) simp
  qed (use assms(4) in auto)
  then have "stops_within n 6 i s" using stops_more by blast
  then show ?thesis by (simp add: stops_within_def own_event_def list_all_iff)
qed

text \<open>The exit value is sent once.  A \<open>Stop\<close> that has missed it waits for ever.\<close>

definition stuck :: "vm \<Rightarrow> bool" where
  "stuck s \<longleftrightarrow> vmStatus s = Stopping \<and> active s = [SpKilled] \<and> vmWaiters s = [] \<and> vmWaitCh s = None"

lemma stuck_step:
  assumes v: "vm_inv s" and k: "stuck s" and st: "vm_next n e s = Some s'"
  shows "stuck s'"
proof (cases e)
  case (EvTurn i ok)
  then have i: "i < length (vmCalls s)" and t: "turn n ok i (vmCalls s ! i) s = Some s'"
    using st by (auto split: if_splits)
  have fit: "status_fits (vmStatus s) (active s)" using v by (simp add: vm_inv_def)
  have "vmCalls s ! i = SpKilled" if "in_start (vmCalls s ! i) \<or> in_stop (vmCalls s ! i)"
    using status_fits_busy(1)[OF fit i that] k by (simp add: stuck_def)
  then show ?thesis using t k by (cases "vmCalls s ! i") (auto simp: stuck_def receive_def)
qed (use st k in \<open>auto simp: stuck_def vm_steps split: if_splits\<close>)

interpretation vmk: monotone_system newVM "vm_step n" vm_inv stuck for n
  by unfold_locales (auto simp: vm_step_def intro: stuck_step)

lemma stuck_for_ever: "reach newVM (vm_step n) ls s \<Longrightarrow> stuck s \<Longrightarrow> reach s (vm_step n) ks t \<Longrightarrow> stuck t"
  using vmk.fact_reach vms.inv_reach by blast

lemma reach_run_init: "vm_run n es newVM = Some s \<Longrightarrow> reach newVM (vm_step n) es s"
  using reach_run[OF reach.start, of n es newVM s] by simp

text \<open>The runs of the findings: one share is not needed.  In the foreground the command waits for the machine in a
  goroutine of its own, which takes the exit value that \<open>Stop\<close> is waiting for.\<close>

definition started :: "vm_event list" where
  "started = [EvStart, EvTurn 0 True, EvTurn 0 True, EvTurn 0 True]"

definition stops :: "nat \<Rightarrow> vm_event list" where
  "stops i = [EvStop, EvTurn i True, EvTurn i True]"

lemmas vm_eval = started_def stops_def newVM_def vm_steps enter_def goto_def

lemma foreground_stop_hangs:
  "\<exists>s. vm_run 0 (started @ [EvWait] @ stops 2 @ [EvExit 0, EvSend 0, EvTurn 1 True, EvTurn 2 False]) newVM = Some s \<and>
     (\<forall>ks t. reach s (vm_step 0) ks t \<longrightarrow> vmStatus t = Stopping)"
proof -
  let ?es = "started @ [EvWait] @ stops 2 @ [EvExit 0, EvSend 0, EvTurn 1 True, EvTurn 2 False]"
  obtain s where s: "vm_run 0 ?es newVM = Some s" "stuck s" by (simp add: vm_eval stuck_def active_def)
  then show ?thesis using stuck_for_ever[OF reach_run_init[OF s(1)] s(2)] by (auto simp: stuck_def)
qed

text \<open>A restart that fails before it launches the hypervisor leaves the old process in \<open>chvCmd\<close>, whose exit value is gone.\<close>

lemma stop_after_failed_restart_hangs:
  "\<exists>s. vm_run 0 (started @ stops 1 @ [EvExit 0, EvSend 0, EvTurn 1 True, EvTurn 1 True] @
       [EvStart, EvTurn 2 False, EvTurn 2 True] @ stops 3 @ [EvTurn 3 False]) newVM = Some s \<and>
     (\<forall>ks t. reach s (vm_step 0) ks t \<longrightarrow> vmStatus t = Stopping)"
proof -
  let ?es = "started @ stops 1 @ [EvExit 0, EvSend 0, EvTurn 1 True, EvTurn 1 True] @
       [EvStart, EvTurn 2 False, EvTurn 2 True] @ stops 3 @ [EvTurn 3 False]"
  obtain s where s: "vm_run 0 ?es newVM = Some s" "stuck s" by (simp add: vm_eval stuck_def active_def)
  then show ?thesis using stuck_for_ever[OF reach_run_init[OF s(1)] s(2)] by (auto simp: stuck_def)
qed

text \<open>A machine that does not become healthy fails to start and its hypervisor keeps running.\<close>

lemma failed_start_leaves_hypervisor:
  "\<exists>s. vm_run 0 [EvStart, EvTurn 0 True, EvTurn 0 True, EvTurn 0 False, EvTurn 0 True] newVM = Some s \<and>
     vmStatus s = Failed \<and> vmLive s = {0} \<and> vmHypervisors s = [0]"
  by (simp add: vm_eval)

text \<open>After a failed start the next \<open>Stop\<close> may receive the exit value of the old process and return while the new one runs.\<close>

lemma stop_takes_stale_exit:
  "\<exists>s. vm_run 0 ([EvStart, EvTurn 0 True, EvTurn 0 True, EvTurn 0 False, EvTurn 0 True, EvExit 0, EvSend 0] @
       [EvStart, EvTurn 1 True, EvTurn 1 True, EvTurn 1 True] @ stops 2 @ [EvTurn 2 True, EvTurn 2 True]) newVM = Some s \<and>
     vmStatus s = Stopped \<and> vmLive s = {1}"
  by (simp add: vm_eval)

lemma vm_stop_can_finish_witness:
  "\<exists>s es t. vm_run 1 (started @ [EvTurn 0 True, EvTurn 0 True] @ [EvStop]) newVM = Some s \<and> vmLive s = {0, 1} \<and>
     length es \<le> 6 \<and> vm_run 1 es s = Some t \<and> vmStatus t = Stopped"
proof -
  let ?es = "started @ [EvTurn 0 True, EvTurn 0 True] @ [EvStop]"
  obtain s where s: "vm_run 1 ?es newVM = Some s" "vmLive s = {0, 1}" "undisturbed s" "1 < length (vmCalls s)" "in_stop (vmCalls s ! 1)"
    by (simp add: vm_eval undisturbed_def insert_commute)
  then show ?thesis using vm_stop_can_finish[OF reach_run_init[OF s(1)] s(3,4,5)] by blast
qed

lemma vm_stopped_leaves_nothing_witness:
  "\<exists>s. vm_run 0 (started @ stops 1 @ [EvExit 0, EvSend 0, EvTurn 1 True, EvTurn 1 True]) newVM = Some s \<and> vmLive s = {}"
proof -
  let ?es = "started @ stops 1 @ [EvExit 0, EvSend 0, EvTurn 1 True, EvTurn 1 True]"
  obtain s where s: "vm_run 0 ?es newVM = Some s" "vmStatus s = Stopped" "undisturbed s" by (simp add: vm_eval undisturbed_def)
  then show ?thesis using vm_stopped_leaves_nothing[OF reach_run_init[OF s(1)]] by blast
qed

lemma vm_one_call_at_a_time_witness:
  "\<exists>s. vm_run 0 (started @ [EvStop, EvStop]) newVM = Some s \<and> length (active s) = 1 \<and> length (vmCalls s) = 3"
proof -
  obtain s where s: "vm_run 0 (started @ [EvStop, EvStop]) newVM = Some s" "vmStatus s = Stopping" "length (vmCalls s) = 3"
    by (simp add: vm_eval)
  then show ?thesis using vm_one_call_at_a_time[OF reach_run_init[OF s(1)]] by simp
qed

end
