(* ===== verification/Spec2Isabelle.thy ===== *)
theory Spec2Isabelle
  imports Convert Supervisor K8s_Convert Cli_Up Compose_Render Logs Port_Fwd Cni Volumes Gc_Root First_Apply Vm
begin

text \<open>
  Verification of nix-compose, a tool that runs compositions of containers described in Nix
  (Go sources under \<open>src/pkg\<close>).

  \<^bold>\<open>The program.\<close>  A composition (\<open>eval\<close>) is filtered by profile and its init containers become
  services (\<open>composition\<close>); its dependency graph is validated and ordered (\<open>depgraph\<close>).  It is then
  either started service by service through the container runtime (\<open>cri\<close>), under a supervisor that
  restarts services and a monitor that probes them (\<open>health\<close>), or converted into resource manifests
  and a deployment (\<open>orchestrate/convert\<close>), compared with the recorded state (\<open>plan.go\<close>) and applied
  (\<open>apply.go\<close>) by requests (\<open>deploy\<close>) on typed resources (\<open>typing\<close>, \<open>resources\<close>, \<open>provider\<close>) whose links
  and rollouts live in a key-value database (\<open>state\<close>).

  \<^bold>\<open>Foundations.\<close>  \<open>Go_Prelude\<close>: Go maps as association lists with distinct keys, whose list order is
  one iteration order of the runtime, so that a theorem about every list is a theorem about every
  order.  \<open>Go_Strings\<close>, \<open>Go_Paths\<close>, \<open>Go_Time\<close>: the parts of the \<open>strings\<close>, \<open>strconv\<close>, \<open>filepath\<close> and
  \<open>time\<close> packages that the sources use, on byte strings and 64-bit durations; case conversion and
  trimming are for ASCII, except in \<open>Go_Scanner\<close> and \<open>K8s_Names\<close>, which follow Unicode.  Errors are values (\<open>Err\<close>) and so are panics (\<open>Panic\<close>), with shortened
  messages.  \<open>Json\<close>: documents as trees and the decoding rules of \<open>encoding/json\<close>.  \<open>Transition\<close>:
  reachability in labelled transition systems and the interface of an inductive invariant (locales
  \<open>invariant_system\<close> and \<open>monotone_system\<close>).  \<open>Dep_Graph\<close>: the locale \<open>dep_graph\<close> of finite dependency
  graphs, with ranks and acyclicity.

  \<^bold>\<open>Components.\<close>
  \<^item> \<open>Eval_Types\<close>, \<open>Eval_Json\<close> (\<open>eval/parse.go\<close>): the data model, one record per struct, and the JSON
    forms of its union types with their round trips.
  \<^item> \<open>Depgraph\<close>, \<open>Dep_Cycles\<close> (\<open>depgraph\<close>): start and stop order are sound, complete and independent
    of map iteration; the cycle search terminates and agrees with them.
  \<^item> \<open>Profiles\<close>, \<open>Init_Containers\<close> (\<open>composition\<close>): filtering is the dependency closure of the matching
    services; init containers form a chain; both keep a valid graph valid.
  \<^item> \<open>Typing\<close>, \<open>State\<close>, \<open>Deploy\<close> (\<open>orchestrate/typing\<close>, \<open>state\<close>, \<open>deploy\<close>): registry and references, the
    mirrored link buckets, requests with their effect on rollouts, serialisation of deployments.
  \<^item> \<open>Plan\<close>, \<open>Topo_Sort\<close>, \<open>Apply\<close> (\<open>orchestrate/plan.go\<close>, \<open>apply.go\<close>, \<open>conditions.go\<close>): a plan is the
    comparison of desired and recorded resources; a batch is ordered by the stored links; creating
    a batch either completes or rolls back what it did.
  \<^item> \<open>Pool\<close> (\<open>orchestrate/deploy/pool.go\<close>, \<open>worker.go\<close>): scheduler, workers and channels as a transition
    system; no request is lost before the pool is stopped, and stopping it can panic.
  \<^item> \<open>Engine\<close> (\<open>orchestrate/engine.go\<close>, \<open>graph.go\<close>): drift checks, rollback to a saved deployment and
    the graph queries, which find exactly what the stored links reach.
  \<^item> \<open>Resources\<close> (\<open>orchestrate/resources\<close>, \<open>provider\<close>): the six resource kinds as definitions of the
    registry, their specs in JSON, their statuses, and the provider.
  \<^item> \<open>Convert\<close> (\<open>orchestrate/convert\<close>, \<open>manifest\<close>): conversion and bridging, composed with the
    registry of the provider; ports and mounts of a converted service are those of the declared one.
  \<^item> \<open>Cri_Convert\<close>, \<open>Cri_Images\<close>, \<open>Supervisor\<close> (\<open>cri/convert.go\<close>, \<open>restart.go\<close>, \<open>validate.go\<close>,
    \<open>import.go\<close>, \<open>supervisor.go\<close>): port, volume and user strings, image references, restart policies
    and the back-off loop.
  \<^item> \<open>Lifecycle\<close> (\<open>cri/lifecycle.go\<close>, \<open>containers.go\<close>, \<open>cgroups.go\<close>): bringing services up and down, over
    the calls of the runtime; a service that comes up runs exactly once, and taking a project down
    undoes bringing it up.
  \<^item> \<open>Conditions\<close> (\<open>orchestrate/conditions.go\<close>): the waits for a started, healthy or completed dependency,
    which compose the runtime, the probes and the records; service resources over the runtime.
  \<^item> \<open>Health\<close> (\<open>health\<close>): probe resolution, and the monitor as a transition system over a heap of
    checks, whose state refines a function of the probe history.

  \<^item> \<open>K8s_Names\<close>, \<open>K8s_Volumes\<close>, \<open>K8s_Convert\<close> (\<open>k8s\<close>): names of objects, the plan from volume strings to pod
    volumes and ConfigMaps, and the conversion of a composition to manifests; a rendering is closed under
    its references, mounts everything, and a refused one names the flags that lift the refusal.
  \<^item> \<open>Go_Scanner\<close>, \<open>Env_From\<close> (\<open>envfrom\<close>): environment files and the precedence of their variables.
  \<^item> \<open>Watch\<close> (\<open>watch\<close>): the exact diff of two compositions and the polling loop.
  \<^item> \<open>Cli_Up\<close> (\<open>cli/up.go\<close>, \<open>down.go\<close>): the commands that compose the above: services start after what they
    depend on, with the strictest wait that is asked for, a shutdown removes the pods of the composition, and a
    step of watch mode leaves the services as the new composition says and the unchanged ones alone.

  \<^item> \<open>Yaml_Doc\<close> (\<open>eval/yaml.go\<close>): projects written in YAML; validation reports exactly the problems of a
    document, and a document without packages is evaluated without Nix.
  \<^item> \<open>Compose_Import\<close>, \<open>Compose_Render\<close> (\<open>composeimport\<close>): conversion of compose files with its notes, the
    written file, and suggestions of packages; a conversion accounts for every key, service and entry,
    but not for every field of an entry in the long syntax.
  \<^item> \<open>Logs\<close> (\<open>logs\<close>): parsing, joining, merging, filtering and following the logs of services.
  \<^item> \<open>Port_Fwd\<close> (\<open>microvm/portfwd\<close>): which ports are forwarded into a virtual machine and the header of the
    tunnel.
  \<^item> \<open>Vm\<close> (\<open>microvm/hypervisor.go\<close>): concurrent calls of \<open>Start\<close>, \<open>Stop\<close> and \<open>Wait\<close> on a virtual machine as
    a transition system; a stopped machine leaves nothing behind as long as no start has failed and nobody
    waits, and otherwise a stop may block for ever.
  \<^item> \<open>Disk\<close>: the calls of \<open>os\<close> on a tree of directories and files, any of which may fail.  \<open>Cni\<close> (\<open>cni\<close>),
    \<open>Volumes\<close> (\<open>volumes\<close>), \<open>Gc_Root\<close> (\<open>gcroot\<close>): the network configuration, the named volumes and the
    garbage collector roots on it; what one project does there leaves the others alone.
  \<^item> \<open>Server\<close> (\<open>orchestrate/server\<close>, and \<open>orchestrateUp\<close>, \<open>setupCNI\<close> and \<open>remoteUp\<close> of \<open>cli/up.go\<close>): the
    handlers of the remote orchestrator; applying through it is what the local command does after it has set
    the network up.
  \<^item> \<open>First_Apply\<close>: the whole pipeline composed.  A first apply that succeeds leaves every service of the
    composition running once, when no volume or image has the id of a service.

  \<^bold>\<open>Parameters.\<close>  The bbolt database is a record of its bucket operations with their laws as named
  hypotheses; the container runtime is a record of its calls, with what the CRI documents of them as the
  hypothesis \<open>runtime_ok\<close>; the stores seen by the resources, the files that are only read, the clock and
  the context are arguments, records of answers or events.  The YAML library, \<open>time.Parse\<close>, the decoding
  of a composition in the server, running Nix and sops, SHA-256 and random identifiers are arguments.

  \<^bold>\<open>Bounds and fuel.\<close>  All loops of the sources are total functions, by structural recursion or a
  measure, except three: \<open>waitStarted\<close> polls until its deadline, counted in rounds; the restart loop of
  the supervisor runs over a list of turns, with \<open>Running\<close> as the value when the turns are used up; and
  the breadth-first traversal of the engine takes one unit of fuel per round, of which one more than
  the number of linked resources is proved to be enough.
  Machine integers are kept at their width where the sources can overflow them: durations, failure
  counters, 32-bit ports and 64-bit user ids.

  \<^bold>\<open>Not modelled.\<close>  Logging and the wording of messages; the other commands, the client of the
  orchestrator, the arguments and health polling of micro virtual machines and host checks, which are I/O
  around the modelled components; reformatting the messages of Nix; writing manifests as YAML; resource quantities, which are floating-point numbers.
\<close>

end
